(* ===== verification/Prelude.thy ===== *)
theory Prelude
  imports Main "HOL-Library.Sublist"
begin

text \<open>
  Shared vocabulary of the development.

  A Rust \<open>char\<close> is a Unicode scalar value, here a natural number; a Rust \<open>String\<close> or \<open>&str\<close>
  is the list of its scalar values. \<open>lit\<close> turns an ASCII literal into such a list, so that
  the constants of the source can be written as they are spelled there. The operations of
  \<open>str\<close> that the modelled code calls (trimming, prefix and suffix stripping, line splitting,
  joining, decimal printing and parsing) are defined here with their documented behaviour.
  Fallible code returns \<open>'e + 'a\<close>, written with \<open>Err\<close> and \<open>Ok\<close>.
\<close>

section \<open>Results\<close>

type_synonym ('e, 'a) result = "'e + 'a"

abbreviation Ok :: "'a \<Rightarrow> ('e, 'a) result" where "Ok \<equiv> Inr"
abbreviation Err :: "'e \<Rightarrow> ('e, 'a) result" where "Err \<equiv> Inl"

definition is_ok :: "('e, 'a) result \<Rightarrow> bool" where
  "is_ok r = (case r of Err _ \<Rightarrow> False | Ok _ \<Rightarrow> True)"

lemma is_ok_simps [simp]: "is_ok (Ok x)" "\<not> is_ok (Err e)"
  by (simp_all add: is_ok_def)

section \<open>Strings\<close>

type_synonym uchar = nat
type_synonym str = "uchar list"

definition lit :: "string \<Rightarrow> str" where
  "lit s = map of_char s"

lemma lit_Nil [simp]: "lit [] = []"
  by (simp add: lit_def)

lemma lit_Cons [simp]: "lit (c # s) = of_char c # lit s"
  by (simp add: lit_def)

abbreviation newline :: uchar where "newline \<equiv> 10"
abbreviation carriage_return :: uchar where "carriage_return \<equiv> 13"

text \<open>A string between single quotes, as in \<open>format!("'{x}'")\<close>.\<close>

definition quoted :: "str \<Rightarrow> str" where
  "quoted s = 39 # s @ [39]"

text \<open>\<open>char::is_whitespace\<close>: the Unicode property \<open>White_Space\<close>.\<close>

definition is_ws :: "uchar \<Rightarrow> bool" where
  "is_ws c = ((9 \<le> c \<and> c \<le> 13) \<or> c = 32 \<or> c = 133 \<or> c = 160 \<or> c = 5760
     \<or> (8192 \<le> c \<and> c \<le> 8202) \<or> c = 8232 \<or> c = 8233 \<or> c = 8239 \<or> c = 8287 \<or> c = 12288)"

definition trim_start :: "str \<Rightarrow> str" where
  "trim_start s = dropWhile is_ws s"

definition trim_end :: "str \<Rightarrow> str" where
  "trim_end s = rev (dropWhile is_ws (rev s))"

definition trim :: "str \<Rightarrow> str" where
  "trim s = trim_end (trim_start s)"

fun strip_prefix :: "'a list \<Rightarrow> 'a list \<Rightarrow> 'a list option" where
  "strip_prefix s [] = Some s"
| "strip_prefix [] (p # ps) = None"
| "strip_prefix (c # s) (p # ps) = (if c = p then strip_prefix s ps else None)"

definition starts_with :: "'a list \<Rightarrow> 'a list \<Rightarrow> bool" where
  "starts_with s p = (strip_prefix s p \<noteq> None)"

definition strip_suffix :: "'a list \<Rightarrow> 'a list \<Rightarrow> 'a list option" where
  "strip_suffix s p = map_option rev (strip_prefix (rev s) (rev p))"

definition ends_with :: "'a list \<Rightarrow> 'a list \<Rightarrow> bool" where
  "ends_with s p = (strip_suffix s p \<noteq> None)"

text \<open>\<open>str::contains\<close> with a string pattern.\<close>

fun contains_str :: "'a list \<Rightarrow> 'a list \<Rightarrow> bool" where
  "contains_str [] p = (p = [])"
| "contains_str (c # s) p = (starts_with (c # s) p \<or> contains_str s p)"

text \<open>\<open>str::split\<close> on one character.\<close>

fun split_on :: "uchar \<Rightarrow> str \<Rightarrow> str list" where
  "split_on d [] = [[]]"
| "split_on d (c # s) =
     (if c = d then [] # split_on d s
      else (case split_on d s of [] \<Rightarrow> [[c]] | l # ls \<Rightarrow> (c # l) # ls))"

text \<open>\<open>[String]::join\<close>.\<close>

fun join_with :: "str \<Rightarrow> str list \<Rightarrow> str" where
  "join_with sep [] = []"
| "join_with sep [x] = x"
| "join_with sep (x # y # xs) = x @ sep @ join_with sep (y # xs)"

definition strip_cr :: "str \<Rightarrow> str" where
  "strip_cr l = (if l \<noteq> [] \<and> last l = carriage_return then butlast l else l)"

text \<open>
  \<open>str::lines\<close>: pieces end at a line feed, one carriage return before it is dropped, and an
  empty piece after the last line feed is no line.
\<close>

definition str_lines :: "str \<Rightarrow> str list" where
  "str_lines s = (let ps = split_on newline s
     in map strip_cr (butlast ps) @ (if last ps = [] then [] else [last ps]))"

text \<open>\<open>str::split_whitespace\<close>: the maximal runs of non-white characters.\<close>

fun split_ws_aux :: "str \<Rightarrow> str \<Rightarrow> str list" where
  "split_ws_aux acc [] = (if acc = [] then [] else [rev acc])"
| "split_ws_aux acc (c # s) =
     (if is_ws c then (if acc = [] then [] else [rev acc]) @ split_ws_aux [] s
      else split_ws_aux (c # acc) s)"

definition split_whitespace :: "str \<Rightarrow> str list" where
  "split_whitespace s = split_ws_aux [] s"

definition ascii_lower :: "uchar \<Rightarrow> uchar" where
  "ascii_lower c = (if 65 \<le> c \<and> c \<le> 90 then c + 32 else c)"

definition to_ascii_lowercase :: "str \<Rightarrow> str" where
  "to_ascii_lowercase s = map ascii_lower s"

definition eq_ignore_ascii_case :: "str \<Rightarrow> str \<Rightarrow> bool" where
  "eq_ignore_ascii_case a b = (to_ascii_lowercase a = to_ascii_lowercase b)"

text \<open>\<open>str::split_once\<close> with a string pattern.\<close>

fun split_once :: "str \<Rightarrow> str \<Rightarrow> (str \<times> str) option" where
  "split_once [] p = (if p = [] then Some ([], []) else None)"
| "split_once (c # s) p = (case strip_prefix (c # s) p of
     Some r \<Rightarrow> Some ([], r)
   | None \<Rightarrow> map_option (\<lambda>(a, b). (c # a, b)) (split_once s p))"

text \<open>\<open>safe_truncate\<close> of \<open>crates/bharatcode-core/src/utils.rs\<close>.\<close>

definition safe_truncate :: "str \<Rightarrow> nat \<Rightarrow> str" where
  "safe_truncate s n = (if length s \<le> n then s else take (n - 3) s @ lit ''...'')"

text \<open>The number of bytes of a text, \<open>str::len\<close>.\<close>

definition utf8_size :: "uchar \<Rightarrow> nat" where
  "utf8_size c = (if c < 128 then 1 else if c < 2048 then 2 else if c < 65536 then 3 else 4)"

definition byte_len :: "str \<Rightarrow> nat" where "byte_len s = sum_list (List.map utf8_size s)"

text \<open>\<open>Iterator::find_map\<close>.\<close>

fun first_some :: "('a \<Rightarrow> 'b option) \<Rightarrow> 'a list \<Rightarrow> 'b option" where
  "first_some f [] = None"
| "first_some f (x # xs) = (case f x of Some y \<Rightarrow> Some y | None \<Rightarrow> first_some f xs)"

text \<open>Decimal printing of an unsigned integer, and \<open>str::parse\<close> into one of a given maximum.\<close>

fun show_nat :: "nat \<Rightarrow> str" where
  "show_nat n = (if n < 10 then [48 + n] else show_nat (n div 10) @ [48 + n mod 10])"

declare show_nat.simps [simp del]

definition is_digit :: "uchar \<Rightarrow> bool" where
  "is_digit c = (48 \<le> c \<and> c \<le> 57)"

definition parse_unsigned :: "nat \<Rightarrow> str \<Rightarrow> nat option" where
  "parse_unsigned maxv s =
     (let ds = (case s of c # r \<Rightarrow> if c = 43 then r else s | [] \<Rightarrow> s);
          n = fold (\<lambda>c a. 10 * a + (c - 48)) ds 0
      in if ds \<noteq> [] \<and> list_all is_digit ds \<and> n \<le> maxv then Some n else None)"

section \<open>Lemmas on strings\<close>

named_theorems str_simps

lemma strip_prefix_Some [simp]: "strip_prefix s p = Some r \<longleftrightarrow> s = p @ r"
  by (induction s p rule: strip_prefix.induct) auto

lemma strip_prefix_append [simp]: "strip_prefix (p @ r) p = Some r"
  by simp

lemma starts_with_iff: "starts_with s p \<longleftrightarrow> prefix p s"
  unfolding starts_with_def prefix_def by (metis not_None_eq strip_prefix_Some)

lemma strip_prefix_None: "strip_prefix s p = None \<longleftrightarrow> \<not> prefix p s"
  using starts_with_iff [of s p] unfolding starts_with_def by blast

lemma ends_with_iff: "ends_with s p \<longleftrightarrow> suffix p s"
  unfolding ends_with_def strip_suffix_def
  by (simp add: strip_prefix_None suffix_to_prefix)

lemma trim_end_Nil [simp]: "trim_end [] = []" and trim_start_Nil [simp]: "trim_start [] = []"
  and trim_Nil [simp]: "trim [] = []"
  by (simp_all add: trim_end_def trim_start_def trim_def)

lemma trim_end_snoc_ws [simp]: "is_ws c \<Longrightarrow> trim_end (s @ [c]) = trim_end s"
  by (simp add: trim_end_def)

lemma trim_end_snoc_black [simp]: "\<not> is_ws c \<Longrightarrow> trim_end (s @ [c]) = s @ [c]"
  by (simp add: trim_end_def)

lemma trim_end_id: "s = [] \<or> \<not> is_ws (last s) \<Longrightarrow> trim_end s = s"
  by (cases s rule: rev_cases) auto

lemma trim_end_last: "trim_end s \<noteq> [] \<Longrightarrow> \<not> is_ws (last (trim_end s))"
  unfolding trim_end_def using hd_dropWhile [of is_ws "rev s"] by (simp add: last_rev)

lemma trim_end_idem [simp]: "trim_end (trim_end s) = trim_end s"
  by (metis trim_end_id trim_end_last)

lemma trim_end_prefix: "\<exists>w. s = trim_end s @ w \<and> list_all is_ws w"
proof (induction s rule: rev_induct)
  case (snoc c s)
  then obtain w where "s = trim_end s @ w" "list_all is_ws w" by blast
  then show ?case by (cases "is_ws c") (auto intro: exI [of _ "w @ [c]"])
qed simp

lemma trim_start_id: "s = [] \<or> \<not> is_ws (hd s) \<Longrightarrow> trim_start s = s"
  by (cases s) (auto simp: trim_start_def)

lemma trim_id: "s = [] \<or> \<not> is_ws (hd s) \<and> \<not> is_ws (last s) \<Longrightarrow> trim s = s"
  by (auto simp: trim_def trim_start_id trim_end_id)

lemma split_on_nonempty [simp]: "split_on d s \<noteq> []"
  by (induction s) (auto split: list.splits)

lemma split_on_no_delim: "d \<notin> set s \<Longrightarrow> split_on d s = [s]"
  by (induction s) auto

lemma split_on_append_delim: "d \<notin> set l \<Longrightarrow> split_on d (l @ d # s) = l # split_on d s"
  by (induction l) (auto split: list.splits)

lemma split_on_pieces: "l \<in> set (split_on d s) \<Longrightarrow> d \<notin> set l"
proof (induction s arbitrary: l)
  case (Cons c s)
  then show ?case
    by (cases "split_on d s") (auto split: if_splits)
qed simp

lemma join_with_Cons: "xs \<noteq> [] \<Longrightarrow> join_with sep (x # xs) = x @ sep @ join_with sep xs"
  by (cases xs) auto

lemma join_split_on: "join_with [d] (split_on d s) = s"
proof (induction s)
  case (Cons c s)
  show ?case
  proof (cases "split_on d s")
    case (Cons l ls)
    then show ?thesis using Cons.IH by (cases ls) auto
  qed (use split_on_nonempty in blast)
qed simp

lemma split_on_join:
  assumes "ls \<noteq> []" and "\<forall>l \<in> set ls. d \<notin> set l"
  shows "split_on d (join_with [d] ls) = ls"
  using assms
proof (induction ls rule: list_nonempty_induct)
  case (single x)
  then show ?case by (simp add: split_on_no_delim)
next
  case (cons x xs)
  then show ?case by (simp add: join_with_Cons split_on_append_delim)
qed

lemma join_with_snoc: "xs \<noteq> [] \<Longrightarrow> join_with sep (xs @ [x]) = join_with sep xs @ sep @ x"
  by (induction xs rule: list_nonempty_induct) (auto simp: join_with_Cons)

lemma join_with_concat: "join_with [d] (ls @ [x]) = concat (map (\<lambda>l. l @ [d]) ls) @ x"
proof (induction ls)
  case (Cons l ls)
  then show ?case by (cases "ls @ [x]") auto
qed simp

lemmas [str_simps] = lit_def starts_with_def strip_suffix_def ends_with_def

section \<open>Machines fed one symbol at a time\<close>

text \<open>
  The interface of a streaming consumer: \<open>feed\<close> takes one symbol and returns the new state and
  the error it stopped at, \<open>run\<close> feeds a list and stops at the first error. Feeding a text in
  pieces is then the same as feeding it whole, errors included.
\<close>

locale fed_machine =
  fixes feed :: "'s \<Rightarrow> 'c \<Rightarrow> 's \<times> 'e option"
    and run :: "'s \<Rightarrow> 'c list \<Rightarrow> 's \<times> 'e option"
  assumes run_Nil: "run s [] = (s, None)"
    and run_Cons: "run s (c # cs) = (case feed s c of (s', Some e) \<Rightarrow> (s', Some e) | (s', None) \<Rightarrow> run s' cs)"
begin

lemma run_append:
  "run s (xs @ ys) = (case run s xs of (s', Some e) \<Rightarrow> (s', Some e) | (s', None) \<Rightarrow> run s' ys)"
  by (induction xs arbitrary: s) (simp_all add: run_Nil run_Cons split: prod.splits option.splits)

lemma run_invariant:
  assumes inv: "\<And>s c s' r. I s \<Longrightarrow> feed s c = (s', r) \<Longrightarrow> I s'"
    and "I s" and "run s cs = (s', r)"
  shows "I s'"
  using assms(2,3)
proof (induction cs arbitrary: s)
  case Nil
  then show ?case by (simp add: run_Nil)
next
  case (Cons c cs)
  then show ?case
    by (auto simp: run_Cons split: prod.splits option.splits dest: inv)
qed

lemma run_error_feed:
  assumes "\<And>s c s' r. I s \<Longrightarrow> feed s c = (s', r) \<Longrightarrow> I s'"
    and "I s" and "run s cs = (s', Some e)"
  shows "\<exists>t c. I t \<and> c \<in> set cs \<and> feed t c = (s', Some e)"
  using assms(2,3)
proof (induction cs arbitrary: s)
  case Nil
  then show ?case by (simp add: run_Nil)
next
  case (Cons c cs)
  obtain t r where t: "feed s c = (t, r)" by force
  show ?case
  proof (cases r)
    case None
    with Cons.prems t have "run t cs = (s', Some e)" by (simp add: run_Cons)
    from Cons.IH [OF assms(1) [OF Cons.prems(1) t] this] show ?thesis by auto
  next
    case (Some e')
    with Cons t show ?thesis by (auto simp: run_Cons)
  qed
qed

end

section \<open>Lemmas on lists\<close>

lemma contains_place: "contains_str (pre @ p @ post) p"
proof (induction pre)
  case Nil
  have "starts_with (p @ post) p" by (simp add: starts_with_iff)
  then show ?case by (cases "p @ post") (simp_all add: starts_with_def)
qed simp

lemma find_Some_mem: "find P xs = Some x \<Longrightarrow> x \<in> set xs \<and> P x"
  by (induction xs) (auto split: if_splits)

lemma find_None_all: "find P xs = None \<Longrightarrow> x \<in> set xs \<Longrightarrow> \<not> P x"
  by (induction xs) (auto split: if_splits)

lemma filter_comp_id: "filter P (filter P xs) = filter P xs"
  by simp

lemma first_some_Some: "first_some f xs = Some y \<Longrightarrow> \<exists>x \<in> set xs. f x = Some y"
  by (induction xs) (auto split: option.splits)

lemma join_with_member: "t \<in> set ts \<Longrightarrow> \<exists>a b. join_with s ts = a @ t @ b"
proof (induction s ts rule: join_with.induct)
  case (2 s x)
  then have "join_with s [x] = [] @ t @ []" by simp
  then show ?case by blast
next
  case (3 s x y ts)
  show ?case
  proof (cases "t = x")
    case True
    then have "join_with s (x # y # ts) = [] @ t @ (s @ join_with s (y # ts))" by simp
    then show ?thesis by blast
  next
    case False
    then obtain a b where "join_with s (y # ts) = a @ t @ b" using 3 by auto
    then have "join_with s (x # y # ts) = (x @ s @ a) @ t @ b" by simp
    then show ?thesis by blast
  qed
qed simp

lemma find_Some_in: "List.find P xs = Some x \<Longrightarrow> x \<in> set xs \<and> P x"
  by (induction xs) (auto split: if_splits)

end
