(* ===== verification/PatchParser.thy ===== *)
theory PatchParser
  imports Prelude
begin

text \<open>
  The \<open>apply_patch\<close> format: \<open>crates/bharatcode-apply-patch/src/parser.rs\<close> (hunk types, patch
  boundaries, the entry point \<open>parse_patch\<close>) and \<open>streaming_parser.rs\<close> (the line-driven
  state machine \<open>StreamingPatchParser\<close>). Line numbers (\<open>usize\<close>) are natural numbers. Every
  error return of \<open>process_line\<close> comes before any write of that call, so a step is
  \<open>parse_error + parser\<close>; \<open>push_delta\<close> returns the parser as well, because it has consumed
  the line before the error.
\<close>

section \<open>Data\<close>

type_synonym path = str

record update_file_chunk =
  change_context :: "str option"
  old_lines :: "str list"
  new_lines :: "str list"
  is_end_of_file :: bool

datatype hunk =
    AddFile path str
  | DeleteFile path
  | UpdateFile path "path option" "update_file_chunk list"

datatype parse_error =
    InvalidPatchError str
  | InvalidHunkError str nat

definition hunk_path :: "hunk \<Rightarrow> path" where
  "hunk_path h = (case h of
     AddFile p _ \<Rightarrow> p
   | DeleteFile p \<Rightarrow> p
   | UpdateFile p mv _ \<Rightarrow> (case mv of Some q \<Rightarrow> q | None \<Rightarrow> p))"

definition BEGIN_PATCH_MARKER :: str where "BEGIN_PATCH_MARKER = lit ''*** Begin Patch''"
definition END_PATCH_MARKER :: str where "END_PATCH_MARKER = lit ''*** End Patch''"
definition ADD_FILE_MARKER :: str where "ADD_FILE_MARKER = lit ''*** Add File: ''"
definition DELETE_FILE_MARKER :: str where "DELETE_FILE_MARKER = lit ''*** Delete File: ''"
definition UPDATE_FILE_MARKER :: str where "UPDATE_FILE_MARKER = lit ''*** Update File: ''"
definition MOVE_TO_MARKER :: str where "MOVE_TO_MARKER = lit ''*** Move to: ''"
definition EOF_MARKER :: str where "EOF_MARKER = lit ''*** End of File''"
definition CHANGE_CONTEXT_MARKER :: str where "CHANGE_CONTEXT_MARKER = lit ''@@ ''"
definition EMPTY_CHANGE_CONTEXT_MARKER :: str where "EMPTY_CHANGE_CONTEXT_MARKER = lit ''@@''"
definition ENVIRONMENT_ID_MARKER :: str where "ENVIRONMENT_ID_MARKER = lit ''*** Environment ID:''"

named_theorems markers

lemmas [markers] = BEGIN_PATCH_MARKER_def END_PATCH_MARKER_def ADD_FILE_MARKER_def
  DELETE_FILE_MARKER_def UPDATE_FILE_MARKER_def MOVE_TO_MARKER_def EOF_MARKER_def
  CHANGE_CONTEXT_MARKER_def EMPTY_CHANGE_CONTEXT_MARKER_def ENVIRONMENT_ID_MARKER_def

section \<open>The streaming parser\<close>

datatype streaming_parser_mode =
    NotStarted
  | StartedPatch
  | InAddFile
  | InDeleteFile
  | InUpdateFile nat
  | EndedPatch

record streaming_parser_state =
  mode :: streaming_parser_mode
  hunks :: "hunk list"
  environment_id :: "str option"

record streaming_patch_parser = streaming_parser_state +
  line_buffer :: str
  line_number :: nat

definition default_parser :: streaming_patch_parser where
  "default_parser = \<lparr>mode = NotStarted, hunks = [], environment_id = None,
     line_buffer = [], line_number = 0\<rparr>"

definition first_line_error :: parse_error where
  "first_line_error = InvalidPatchError
     (lit ''The first line of the patch must be '' @ quoted BEGIN_PATCH_MARKER)"

definition last_line_error :: parse_error where
  "last_line_error = InvalidPatchError
     (lit ''The last line of the patch must be '' @ quoted END_PATCH_MARKER)"

definition empty_update_msg :: "path \<Rightarrow> str" where
  "empty_update_msg p = lit ''Update file hunk for path '' @ quoted p @ lit '' is empty''"

definition no_lines_msg :: str where
  "no_lines_msg = lit ''Update hunk does not contain any lines''"

definition unexpected_line_msg :: "str \<Rightarrow> str" where
  "unexpected_line_msg line = lit ''Unexpected line found in update hunk: '' @ quoted line
     @ lit ''. Every line should start with '' @ quoted (lit '' '') @ lit '' (context line), ''
     @ quoted (lit ''+'') @ lit '' (added line), or '' @ quoted (lit ''-'')
     @ lit '' (removed line)''"

definition expected_context_msg :: "str \<Rightarrow> str" where
  "expected_context_msg line =
     lit ''Expected update hunk to start with a @@ context marker, got: '' @ quoted line"

definition bad_header_msg :: "str \<Rightarrow> str" where
  "bad_header_msg t = quoted t @ lit '' is not a valid hunk header. Valid hunk headers: ''
     @ quoted (lit ''*** Add File: {path}'') @ lit '', '' @ quoted (lit ''*** Delete File: {path}'')
     @ lit '', '' @ quoted (lit ''*** Update File: {path}'')"

text \<open>\<open>slice::last\<close>.\<close>

definition last_opt :: "'a list \<Rightarrow> 'a option" where
  "last_opt xs = (if xs = [] then None else Some (last xs))"

definition chunk_is_empty :: "update_file_chunk \<Rightarrow> bool" where
  "chunk_is_empty c = (old_lines c = [] \<and> new_lines c = [])"

text \<open>The test \<open>chunks.last().is_some_and(|chunk| ... both empty)\<close> of the source.\<close>

definition last_chunk_empty :: "update_file_chunk list \<Rightarrow> bool" where
  "last_chunk_empty cs = (cs \<noteq> [] \<and> chunk_is_empty (last cs))"

definition last_chunk_eof :: "update_file_chunk list \<Rightarrow> bool" where
  "last_chunk_eof cs = (cs \<noteq> [] \<and> is_end_of_file (last cs))"

text \<open>The pattern \<open>StreamingParserMode::UpdateFile { hunk_line_number }\<close>.\<close>

definition update_hunk_start :: "streaming_parser_mode \<Rightarrow> nat option" where
  "update_hunk_start m = (case m of InUpdateFile n \<Rightarrow> Some n | _ \<Rightarrow> None)"

definition ensure_update_hunk_is_not_empty ::
    "streaming_patch_parser \<Rightarrow> str \<Rightarrow> parse_error option" where
  "ensure_update_hunk_is_not_empty p line = (case last_opt (hunks p) of
     Some (UpdateFile pth mv cs) \<Rightarrow>
       (case (if cs = [] then update_hunk_start (mode p) else None) of
          Some n \<Rightarrow> Some (InvalidHunkError (empty_update_msg pth) n)
        | None \<Rightarrow>
          if last_chunk_empty cs then
            (if line = END_PATCH_MARKER
             then Some (InvalidHunkError no_lines_msg (line_number p))
             else Some (InvalidHunkError (unexpected_line_msg line) (line_number p)))
          else None)
   | _ \<Rightarrow> None)"

text \<open>
  \<open>handle_hunk_headers_and_end_patch\<close>: \<open>Ok None\<close> is the source's \<open>Ok(false)\<close> (the line is
  no header, nothing was written), \<open>Ok (Some p')\<close> its \<open>Ok(true)\<close>.
\<close>

definition start_hunk ::
    "streaming_patch_parser \<Rightarrow> str \<Rightarrow> hunk \<Rightarrow> streaming_parser_mode \<Rightarrow>
     (parse_error, streaming_patch_parser option) result" where
  "start_hunk p t h m = (case ensure_update_hunk_is_not_empty p t of
     Some e \<Rightarrow> Err e
   | None \<Rightarrow> Ok (Some (p\<lparr>hunks := hunks p @ [h], mode := m\<rparr>)))"

definition handle_environment_id ::
    "streaming_patch_parser \<Rightarrow> str \<Rightarrow> (parse_error, streaming_patch_parser option) result" where
  "handle_environment_id p rest =
     (if environment_id p \<noteq> None
      then Err (InvalidPatchError (lit ''apply_patch environment_id cannot be specified more than once''))
      else if trim rest = []
      then Err (InvalidPatchError (lit ''apply_patch environment_id cannot be empty''))
      else Ok (Some (p\<lparr>environment_id := Some (trim rest)\<rparr>)))"

definition handle_hunk_headers_and_end_patch ::
    "streaming_patch_parser \<Rightarrow> str \<Rightarrow> (parse_error, streaming_patch_parser option) result" where
  "handle_hunk_headers_and_end_patch p t =
     (case (if mode p = StartedPatch then strip_prefix t ENVIRONMENT_ID_MARKER else None) of
        Some rest \<Rightarrow> handle_environment_id p rest
      | None \<Rightarrow>
        if t = END_PATCH_MARKER then
          (case ensure_update_hunk_is_not_empty p t of
             Some e \<Rightarrow> Err e
           | None \<Rightarrow> Ok (Some (p\<lparr>mode := EndedPatch\<rparr>)))
        else (case strip_prefix t ADD_FILE_MARKER of
          Some pth \<Rightarrow> start_hunk p t (AddFile pth []) InAddFile
        | None \<Rightarrow> (case strip_prefix t DELETE_FILE_MARKER of
          Some pth \<Rightarrow> start_hunk p t (DeleteFile pth) InDeleteFile
        | None \<Rightarrow> (case strip_prefix t UPDATE_FILE_MARKER of
          Some pth \<Rightarrow> start_hunk p t (UpdateFile pth None []) (InUpdateFile (line_number p))
        | None \<Rightarrow> Ok None))))"

section \<open>One line in each mode\<close>

definition new_chunk :: "str option \<Rightarrow> update_file_chunk" where
  "new_chunk ctx = \<lparr>change_context = ctx, old_lines = [], new_lines = [], is_end_of_file = False\<rparr>"

text \<open>\<open>if chunks.is_empty() { push(default) }\<close>, then \<open>chunks.last_mut()\<close> updated by \<open>f\<close>.\<close>

definition on_last_chunk ::
    "(update_file_chunk \<Rightarrow> update_file_chunk) \<Rightarrow> update_file_chunk list \<Rightarrow> update_file_chunk list" where
  "on_last_chunk f cs = (let cs' = (if cs = [] then [new_chunk None] else cs)
     in butlast cs' @ [f (last cs')])"

definition add_old :: "str \<Rightarrow> update_file_chunk \<Rightarrow> update_file_chunk" where
  "add_old l c = c\<lparr>old_lines := old_lines c @ [l]\<rparr>"

definition add_new :: "str \<Rightarrow> update_file_chunk \<Rightarrow> update_file_chunk" where
  "add_new l c = c\<lparr>new_lines := new_lines c @ [l]\<rparr>"

definition set_last_hunk :: "streaming_patch_parser \<Rightarrow> hunk \<Rightarrow> streaming_patch_parser" where
  "set_last_hunk p h = p\<lparr>hunks := butlast (hunks p) @ [h]\<rparr>"

definition process_not_started ::
    "streaming_patch_parser \<Rightarrow> str \<Rightarrow> (parse_error, streaming_patch_parser) result" where
  "process_not_started p line =
     (if trim line = BEGIN_PATCH_MARKER then Ok (p\<lparr>mode := StartedPatch\<rparr>)
      else Err first_line_error)"

text \<open>The modes \<open>StartedPatch\<close> and \<open>DeleteFile\<close> accept headers only.\<close>

definition process_header_only ::
    "streaming_patch_parser \<Rightarrow> str \<Rightarrow> (parse_error, streaming_patch_parser) result" where
  "process_header_only p line = (case handle_hunk_headers_and_end_patch p (trim line) of
     Err e \<Rightarrow> Err e
   | Ok (Some p') \<Rightarrow> Ok p'
   | Ok None \<Rightarrow> Err (InvalidHunkError (bad_header_msg (trim line)) (line_number p)))"

definition process_add_file ::
    "streaming_patch_parser \<Rightarrow> str \<Rightarrow> (parse_error, streaming_patch_parser) result" where
  "process_add_file p line = (case handle_hunk_headers_and_end_patch p (trim line) of
     Err e \<Rightarrow> Err e
   | Ok (Some p') \<Rightarrow> Ok p'
   | Ok None \<Rightarrow>
      (case (strip_prefix line (lit ''+''), last_opt (hunks p)) of
         (Some l, Some (AddFile pth contents)) \<Rightarrow>
           Ok (set_last_hunk p (AddFile pth (contents @ l @ [newline])))
       | _ \<Rightarrow> Err (InvalidHunkError (bad_header_msg (trim line)) (line_number p))))"

definition is_context_line :: "str \<Rightarrow> bool" where
  "is_context_line u = (u = EMPTY_CHANGE_CONTEXT_MARKER \<or> starts_with u CHANGE_CONTEXT_MARKER)"

text \<open>
  The body of the \<open>UpdateFile\<close> arm once the last hunk is known to be an update: from the
  fields of that hunk and the line to its new fields. \<open>u\<close> is \<open>line.trim_end()\<close>.
\<close>

definition update_body_line ::
    "path option \<Rightarrow> update_file_chunk list \<Rightarrow> str \<Rightarrow> nat \<Rightarrow>
     (parse_error, path option \<times> update_file_chunk list) result" where
  "update_body_line mv cs line n =
     (if line = [] then Ok (mv, on_last_chunk (add_new [] \<circ> add_old []) cs)
      else (case strip_prefix line (lit '' '') of
        Some l \<Rightarrow> Ok (mv, on_last_chunk (add_new l \<circ> add_old l) cs)
      | None \<Rightarrow> (case strip_prefix line (lit ''+'') of
        Some l \<Rightarrow> Ok (mv, on_last_chunk (add_new l) cs)
      | None \<Rightarrow> (case strip_prefix line (lit ''-'') of
        Some l \<Rightarrow> Ok (mv, on_last_chunk (add_old l) cs)
      | None \<Rightarrow>
        if cs \<noteq> [] \<and> \<not> chunk_is_empty (last cs)
        then Err (InvalidHunkError (expected_context_msg line) n)
        else Err (InvalidHunkError (unexpected_line_msg line) n)))))"

definition update_marker_line ::
    "path option \<Rightarrow> update_file_chunk list \<Rightarrow> str \<Rightarrow> nat \<Rightarrow>
     (parse_error, path option \<times> update_file_chunk list) result" where
  "update_marker_line mv cs line n = (let u = trim_end line in
     (case (if cs = [] \<and> mv = None then strip_prefix u MOVE_TO_MARKER else None) of
        Some q \<Rightarrow> Ok (Some q, cs)
      | None \<Rightarrow>
        if is_context_line u \<and> last_chunk_empty cs
        then Err (InvalidHunkError (unexpected_line_msg line) n)
        else if u = EMPTY_CHANGE_CONTEXT_MARKER then Ok (mv, cs @ [new_chunk None])
        else (case strip_prefix u CHANGE_CONTEXT_MARKER of
          Some ctx \<Rightarrow> Ok (mv, cs @ [new_chunk (Some ctx)])
        | None \<Rightarrow>
          if u = EOF_MARKER then
            (if last_chunk_empty cs then Err (InvalidHunkError no_lines_msg n)
             else Ok (mv, if cs = [] then []
                          else butlast cs @ [(last cs)\<lparr>is_end_of_file := True\<rparr>]))
          else update_body_line mv cs line n)))"

definition update_hunk_line ::
    "path option \<Rightarrow> update_file_chunk list \<Rightarrow> str \<Rightarrow> nat \<Rightarrow>
     (parse_error, path option \<times> update_file_chunk list) result" where
  "update_hunk_line mv cs line n = (let u = trim_end line in
     if last_chunk_eof cs \<and> u = [] then Ok (mv, cs)
     else if last_chunk_eof cs \<and> \<not> is_context_line u
     then Err (InvalidHunkError (expected_context_msg line) n)
     else update_marker_line mv cs line n)"

definition process_update_file ::
    "streaming_patch_parser \<Rightarrow> str \<Rightarrow> (parse_error, streaming_patch_parser) result" where
  "process_update_file p line = (case handle_hunk_headers_and_end_patch p (trim_end line) of
     Err e \<Rightarrow> Err e
   | Ok (Some p') \<Rightarrow> Ok p'
   | Ok None \<Rightarrow>
      (case last_opt (hunks p) of
         Some (UpdateFile pth mv cs) \<Rightarrow>
           (case update_hunk_line mv cs line (line_number p) of
              Err e \<Rightarrow> Err e
            | Ok (mv', cs') \<Rightarrow> Ok (set_last_hunk p (UpdateFile pth mv' cs')))
       | _ \<Rightarrow> Err (InvalidHunkError (unexpected_line_msg line) (line_number p))))"

definition process_ended ::
    "streaming_patch_parser \<Rightarrow> str \<Rightarrow> (parse_error, streaming_patch_parser) result" where
  "process_ended p line = (if trim line = [] then Ok p else Err last_line_error)"

definition process_line ::
    "streaming_patch_parser \<Rightarrow> str \<Rightarrow> (parse_error, streaming_patch_parser) result" where
  "process_line p line = (case mode p of
     NotStarted \<Rightarrow> process_not_started p line
   | StartedPatch \<Rightarrow> process_header_only p line
   | InAddFile \<Rightarrow> process_add_file p line
   | InDeleteFile \<Rightarrow> process_header_only p line
   | InUpdateFile _ \<Rightarrow> process_update_file p line
   | EndedPatch \<Rightarrow> process_ended p line)"

section \<open>Feeding text\<close>

text \<open>
  One character of the loop of \<open>push_delta\<close>, then the loop: the parser it leaves, and the error
  it stopped at, if any.
\<close>

definition push_char ::
    "streaming_patch_parser \<Rightarrow> uchar \<Rightarrow> streaming_patch_parser \<times> parse_error option" where
  "push_char p c =
     (if c = newline then
        (let line = strip_cr (line_buffer p);
             p1 = p\<lparr>line_buffer := [], line_number := line_number p + 1\<rparr>
         in (case process_line p1 line of
               Err e \<Rightarrow> (p1, Some e)
             | Ok p2 \<Rightarrow> (p2, None)))
      else (p\<lparr>line_buffer := line_buffer p @ [c]\<rparr>, None))"

fun push_chars ::
    "streaming_patch_parser \<Rightarrow> str \<Rightarrow> streaming_patch_parser \<times> parse_error option" where
  "push_chars p [] = (p, None)"
| "push_chars p (c # cs) = (case push_char p c of
     (p', Some e) \<Rightarrow> (p', Some e)
   | (p', None) \<Rightarrow> push_chars p' cs)"

definition push_delta ::
    "streaming_patch_parser \<Rightarrow> str \<Rightarrow> streaming_patch_parser \<times> (parse_error, hunk list) result" where
  "push_delta p d = (case push_chars p d of
     (p', Some e) \<Rightarrow> (p', Err e)
   | (p', None) \<Rightarrow> (p', Ok (hunks p')))"

definition finish_line ::
    "streaming_patch_parser \<Rightarrow> (parse_error, streaming_patch_parser) result" where
  "finish_line p =
     (if line_buffer p = [] then Ok p
      else (let line = line_buffer p;
                p1 = p\<lparr>line_buffer := [], line_number := line_number p + 1\<rparr>
            in if trim line = END_PATCH_MARKER then
                 (case ensure_update_hunk_is_not_empty p1 (trim line) of
                    Some e \<Rightarrow> Err e
                  | None \<Rightarrow> Ok (p1\<lparr>mode := EndedPatch\<rparr>))
               else process_line p1 line))"

definition finish_parser ::
    "streaming_patch_parser \<Rightarrow> (parse_error, streaming_patch_parser) result" where
  "finish_parser p = (case finish_line p of
     Err e \<Rightarrow> Err e
   | Ok p' \<Rightarrow> if mode p' = EndedPatch then Ok p' else Err last_line_error)"

section \<open>Whole patches\<close>

record apply_patch_args =
  patch_text :: str
  patch_hunks :: "hunk list"
  workdir :: "str option"
  args_environment_id :: "str option"

datatype parse_mode = Strict | Lenient

definition check_start_and_end_lines_strict ::
    "str option \<Rightarrow> str option \<Rightarrow> parse_error option" where
  "check_start_and_end_lines_strict first_line last_line =
     (case (map_option trim first_line, map_option trim last_line) of
        (Some f, Some l) \<Rightarrow>
          if f = BEGIN_PATCH_MARKER \<and> l = END_PATCH_MARKER then None
          else if f \<noteq> BEGIN_PATCH_MARKER then Some first_line_error
          else Some last_line_error
      | (Some f, None) \<Rightarrow>
          if f \<noteq> BEGIN_PATCH_MARKER then Some first_line_error else Some last_line_error
      | (None, _) \<Rightarrow> Some last_line_error)"

definition check_patch_boundaries_strict ::
    "str list \<Rightarrow> (parse_error, str list) result" where
  "check_patch_boundaries_strict ls =
     (case check_start_and_end_lines_strict
        (case ls of [] \<Rightarrow> None | l # _ \<Rightarrow> Some l) (last_opt ls) of
        Some e \<Rightarrow> Err e
      | None \<Rightarrow> Ok ls)"

definition is_heredoc_opener :: "str \<Rightarrow> bool" where
  "is_heredoc_opener l = (l = lit ''<<EOF'' \<or> l = lit ''<<'' @ quoted (lit ''EOF'')
     \<or> l = lit ''<<'' @ [34] @ lit ''EOF'' @ [34])"

definition check_patch_boundaries_lenient ::
    "str list \<Rightarrow> (parse_error, str list) result" where
  "check_patch_boundaries_lenient ls =
     (case check_patch_boundaries_strict ls of
        Ok r \<Rightarrow> Ok r
      | Err e \<Rightarrow>
          (if 2 \<le> length ls \<and> is_heredoc_opener (hd ls) \<and> ends_with (last ls) (lit ''EOF'')
              \<and> 4 \<le> length ls
           then check_patch_boundaries_strict (butlast (tl ls))
           else Err e))"

definition parse_patch_text :: "str \<Rightarrow> parse_mode \<Rightarrow> (parse_error, apply_patch_args) result" where
  "parse_patch_text patch m =
     (let ls = str_lines (trim patch) in
      (case (case m of Strict \<Rightarrow> check_patch_boundaries_strict ls
                     | Lenient \<Rightarrow> check_patch_boundaries_lenient ls) of
         Err e \<Rightarrow> Err e
       | Ok pls \<Rightarrow>
          (let text = join_with [newline] pls in
           (case push_delta default_parser text of
              (_, Err e) \<Rightarrow> Err e
            | (p, Ok _) \<Rightarrow>
               (case finish_parser p of
                  Err e \<Rightarrow> Err e
                | Ok p' \<Rightarrow> Ok \<lparr>patch_text = text, patch_hunks = hunks p', workdir = None,
                             args_environment_id = environment_id p'\<rparr>)))))"

definition PARSE_IN_STRICT_MODE :: bool where "PARSE_IN_STRICT_MODE = False"

definition parse_patch :: "str \<Rightarrow> (parse_error, apply_patch_args) result" where
  "parse_patch patch = parse_patch_text patch (if PARSE_IN_STRICT_MODE then Strict else Lenient)"

end
