(* ===== verification/PatchParserLaws.thy ===== *)
theory PatchParserLaws
  imports PatchParser
begin

text \<open>
  What the patch parser guarantees: its output does not depend on how the text was cut into
  deltas, every hunk it returns is complete, and it reads a printed patch back.
\<close>

section \<open>Chunk independence\<close>

interpretation patch_chars: fed_machine push_char push_chars
  by unfold_locales (auto split: prod.splits option.splits)

lemma push_delta_append:
  "push_delta p (a @ b) = (case push_delta p a of
     (p', Err e) \<Rightarrow> (p', Err e) | (p', Ok _) \<Rightarrow> push_delta p' b)"
  by (simp add: push_delta_def patch_chars.run_append split: prod.splits option.splits)

section \<open>Lines\<close>

lemma process_line_buffer:
  assumes "process_line p l = Ok p'"
  shows "line_buffer p' = line_buffer p \<and> line_number p' = line_number p"
  using assms
  by (auto simp: process_line_def process_not_started_def process_header_only_def
      process_add_file_def process_update_file_def process_ended_def set_last_hunk_def
      handle_hunk_headers_and_end_patch_def handle_environment_id_def start_hunk_def
      split: streaming_parser_mode.splits if_splits option.splits sum.splits hunk.splits prod.splits)


section \<open>The invariant of the state machine\<close>

definition hunk_complete :: "hunk \<Rightarrow> bool" where
  "hunk_complete h = (case h of
     UpdateFile _ _ cs \<Rightarrow> cs \<noteq> [] \<and> list_all (\<lambda>c. \<not> chunk_is_empty c) cs
   | _ \<Rightarrow> True)"

text \<open>
  The mode names the kind of the last hunk, every earlier hunk is complete, and only the last
  chunk of an update hunk in progress may still be empty.
\<close>

definition parser_inv :: "streaming_patch_parser \<Rightarrow> bool" where
  "parser_inv p = (case mode p of
     NotStarted \<Rightarrow> hunks p = [] \<and> environment_id p = None
   | StartedPatch \<Rightarrow> hunks p = []
   | InAddFile \<Rightarrow> (\<exists>hs q c. hunks p = hs @ [AddFile q c] \<and> list_all hunk_complete hs)
   | InDeleteFile \<Rightarrow> (\<exists>hs q. hunks p = hs @ [DeleteFile q] \<and> list_all hunk_complete hs)
   | InUpdateFile n \<Rightarrow> 1 \<le> n \<and> n \<le> line_number p
       \<and> (\<exists>hs q mv cs. hunks p = hs @ [UpdateFile q mv cs] \<and> list_all hunk_complete hs
            \<and> list_all (\<lambda>c. \<not> chunk_is_empty c) (butlast cs))
   | EndedPatch \<Rightarrow> list_all hunk_complete (hunks p))"

lemma parser_inv_default: "parser_inv default_parser"
  by (simp add: parser_inv_def default_parser_def)

lemma list_all_butlast_last:
  "cs \<noteq> [] \<Longrightarrow> list_all P (butlast cs) \<Longrightarrow> P (last cs) \<Longrightarrow> list_all P cs"
  by (cases cs rule: rev_cases) auto

lemma last_opt_snoc [simp]: "last_opt (xs @ [x]) = Some x"
  by (simp add: last_opt_def)

lemma last_opt_Nil [simp]: "last_opt [] = None"
  by (simp add: last_opt_def)

lemma update_hunk_start_simps [simp]:
  "update_hunk_start (InUpdateFile n) = Some n" "update_hunk_start NotStarted = None"
  "update_hunk_start StartedPatch = None" "update_hunk_start InAddFile = None"
  "update_hunk_start InDeleteFile = None" "update_hunk_start EndedPatch = None"
  by (simp_all add: update_hunk_start_def)

lemma ensure_None_complete:
  assumes "parser_inv p" and "ensure_update_hunk_is_not_empty p t = None"
  shows "list_all hunk_complete (hunks p)"
  using assms
  by (auto simp: parser_inv_def ensure_update_hunk_is_not_empty_def hunk_complete_def
      last_chunk_empty_def intro: list_all_butlast_last
      split: streaming_parser_mode.splits list.splits if_splits)

lemma start_hunk_Ok:
  "start_hunk p t h m = Ok r \<longleftrightarrow>
     ensure_update_hunk_is_not_empty p t = None \<and> r = Some (p\<lparr>hunks := hunks p @ [h], mode := m\<rparr>)"
  by (auto simp: start_hunk_def split: option.splits)

lemma handle_headers_Some:
  assumes "handle_hunk_headers_and_end_patch p t = Ok (Some p')"
  shows "(mode p = StartedPatch \<and> (\<exists>e. p' = p\<lparr>environment_id := e\<rparr>))
    \<or> (ensure_update_hunk_is_not_empty p t = None \<and>
       (p' = p\<lparr>mode := EndedPatch\<rparr>
        \<or> (\<exists>q. p' = p\<lparr>hunks := hunks p @ [AddFile q []], mode := InAddFile\<rparr>)
        \<or> (\<exists>q. p' = p\<lparr>hunks := hunks p @ [DeleteFile q], mode := InDeleteFile\<rparr>)
        \<or> (\<exists>q. p' = p\<lparr>hunks := hunks p @ [UpdateFile q None []],
                       mode := InUpdateFile (line_number p)\<rparr>)))"
  using assms
  by (force simp: handle_hunk_headers_and_end_patch_def handle_environment_id_def start_hunk_Ok
      split: option.split_asm if_split_asm simp del: strip_prefix_Some)

lemma handle_headers_inv:
  assumes "parser_inv p" and "1 \<le> line_number p"
    and "handle_hunk_headers_and_end_patch p t = Ok (Some p')"
  shows "parser_inv p'"
  using handle_headers_Some [OF assms(3)] assms(1,2) ensure_None_complete [OF assms(1)]
  by (auto simp: parser_inv_def)

lemma on_last_chunk_open:
  assumes "list_all (\<lambda>c. \<not> chunk_is_empty c) (butlast cs)"
  shows "list_all (\<lambda>c. \<not> chunk_is_empty c) (butlast (on_last_chunk f cs))"
  using assms by (auto simp: on_last_chunk_def Let_def)

lemma update_hunk_line_open:
  assumes "list_all (\<lambda>c. \<not> chunk_is_empty c) (butlast cs)"
    and "update_hunk_line mv cs line n = Ok (mv', cs')"
  shows "list_all (\<lambda>c. \<not> chunk_is_empty c) (butlast cs')"
proof -
  have push: "list_all (\<lambda>c. \<not> chunk_is_empty c) cs" if "\<not> last_chunk_empty cs"
    using that assms(1) list_all_butlast_last [of cs] by (cases "cs = []") (auto simp: last_chunk_empty_def)
  show ?thesis
    using assms push
    by (auto simp: update_hunk_line_def update_marker_line_def update_body_line_def Let_def
        is_context_line_def starts_with_def on_last_chunk_open
        split: if_splits option.splits list.splits)
qed

lemma process_line_inv:
  assumes inv: "parser_inv p" and n: "1 \<le> line_number p" and ok: "process_line p l = Ok p'"
  shows "parser_inv p'"
proof (cases "mode p")
  case NotStarted
  with inv ok show ?thesis
    by (auto simp: process_line_def process_not_started_def parser_inv_def split: if_splits)
next
  case StartedPatch
  with inv n ok show ?thesis
    by (auto simp: process_line_def process_header_only_def
        split: sum.splits option.splits dest: handle_headers_inv)
next
  case InAddFile
  with inv n ok show ?thesis
    by (auto simp: process_line_def process_add_file_def parser_inv_def set_last_hunk_def
        split: sum.splits option.splits dest!: handle_headers_inv [OF inv n])
next
  case InDeleteFile
  with inv n ok show ?thesis
    by (auto simp: process_line_def process_header_only_def
        split: sum.splits option.splits dest: handle_headers_inv)
next
  case (InUpdateFile k)
  with inv n ok show ?thesis
    by (auto simp: process_line_def process_update_file_def parser_inv_def set_last_hunk_def
        split: sum.splits option.splits prod.splits dest!: handle_headers_inv [OF inv n]
        dest: update_hunk_line_open)
next
  case EndedPatch
  with inv ok show ?thesis
    by (auto simp: process_line_def process_ended_def split: if_splits)
qed

text \<open>What a step sees of the parser, apart from its buffer and a line number that only grows.\<close>

lemma parser_inv_next_line:
  "parser_inv p \<Longrightarrow> parser_inv (p\<lparr>line_buffer := b, line_number := line_number p + k\<rparr>)"
  for b :: str and k :: nat
  by (auto simp: parser_inv_def split: streaming_parser_mode.splits)

lemma parser_inv_buffer: "parser_inv p \<Longrightarrow> parser_inv (p\<lparr>line_buffer := b\<rparr>)"
  by (auto simp: parser_inv_def split: streaming_parser_mode.splits)

lemma push_char_inv:
  assumes inv: "parser_inv p" and push: "push_char p c = (p', r)"
  shows "parser_inv p'"
proof (cases "c = newline")
  case True
  define p1 where "p1 = p\<lparr>line_buffer := [], line_number := line_number p + 1\<rparr>"
  have p1: "parser_inv p1" and n1: "1 \<le> line_number p1"
    using parser_inv_next_line [OF inv, where b = "[]" and k = 1] by (simp_all add: p1_def)
  from push True have "p' = p1 \<or> process_line p1 (strip_cr (line_buffer p)) = Ok p'"
    by (auto simp: push_char_def Let_def p1_def split: sum.split_asm)
  with p1 process_line_inv [OF p1 n1] show ?thesis by blast
next
  case False
  with push inv show ?thesis by (auto simp: push_char_def parser_inv_buffer)
qed

lemma push_delta_inv:
  assumes "parser_inv p" and "push_delta p d = (p', r)"
  shows "parser_inv p'"
proof -
  from assms(2) obtain r' where "push_chars p d = (p', r')"
    by (cases "push_chars p d") (auto simp: push_delta_def split: option.split_asm)
  with patch_chars.run_invariant [of parser_inv p d p' r'] push_char_inv assms(1)
  show ?thesis by blast
qed

lemma finish_line_inv:
  assumes inv: "parser_inv p" and ok: "finish_line p = Ok q"
  shows "parser_inv q"
proof (cases "line_buffer p = []")
  case True
  with inv ok show ?thesis by (simp add: finish_line_def)
next
  case False
  define p1 where "p1 = p\<lparr>line_buffer := [], line_number := line_number p + 1\<rparr>"
  have p1: "parser_inv p1" and n1: "1 \<le> line_number p1"
    using parser_inv_next_line [OF inv, where b = "[]" and k = 1] by (simp_all add: p1_def)
  show ?thesis
  proof (cases "trim (line_buffer p) = END_PATCH_MARKER")
    case True
    with False ok have "ensure_update_hunk_is_not_empty p1 (trim (line_buffer p)) = None"
      and "q = p1\<lparr>mode := EndedPatch\<rparr>"
      by (auto simp: finish_line_def Let_def p1_def split: option.splits)
    with ensure_None_complete [OF p1] show ?thesis by (simp add: parser_inv_def)
  next
    case False
    with \<open>line_buffer p \<noteq> []\<close> ok have "process_line p1 (line_buffer p) = Ok q"
      by (simp add: finish_line_def Let_def p1_def)
    then show ?thesis by (rule process_line_inv [OF p1 n1])
  qed
qed

lemma finish_parser_inv:
  assumes "parser_inv p" and "finish_parser p = Ok p'"
  shows "mode p' = EndedPatch \<and> parser_inv p'"
  using assms by (auto simp: finish_parser_def split: sum.splits if_splits dest: finish_line_inv)

text \<open>
  Every hunk of a successfully parsed patch is complete: an update hunk has at least one
  chunk and each of its chunks removes or adds at least one line.
\<close>

lemma parse_patch_hunks_complete:
  assumes "parse_patch s = Ok a"
  shows "list_all hunk_complete (patch_hunks a)"
proof -
  obtain body p r p' where p: "push_delta default_parser body = (p, r)"
    and f: "finish_parser p = Ok p'" and a: "patch_hunks a = hunks p'"
    using assms
    by (auto simp: parse_patch_def parse_patch_text_def Let_def split: sum.splits prod.splits)
  from p have "parser_inv p" by (rule push_delta_inv [OF parser_inv_default])
  from finish_parser_inv [OF this f] show ?thesis by (auto simp: a parser_inv_def)
qed

section \<open>Streaming is parsing by lines\<close>

text \<open>
  A patch that streams in: the deltas one after the other up to the first error, then the end. Against it, the
  whole text at once: its complete lines in order, each without a carriage return at its end, counted from
  one; what is behind the last line feed is the line that the end has to deal with.
\<close>

fun push_deltas :: "streaming_patch_parser \<Rightarrow> str list \<Rightarrow> streaming_patch_parser \<times> parse_error option" where
  "push_deltas p [] = (p, None)"
| "push_deltas p (d # ds) = (case push_delta p d of
     (p', Err e) \<Rightarrow> (p', Some e)
   | (p', Ok _) \<Rightarrow> push_deltas p' ds)"

definition stream_patch :: "str list \<Rightarrow> (parse_error, streaming_patch_parser) result" where
  "stream_patch ds = (case push_deltas default_parser ds of
     (p, Some e) \<Rightarrow> Err e
   | (p, None) \<Rightarrow> finish_parser p)"

fun read_lines :: "streaming_patch_parser \<Rightarrow> str list \<Rightarrow> (parse_error, streaming_patch_parser) result" where
  "read_lines p [] = Ok p"
| "read_lines p (l # ls) = (case process_line (p\<lparr>line_number := line_number p + 1\<rparr>) (strip_cr l) of
     Err e \<Rightarrow> Err e
   | Ok p' \<Rightarrow> read_lines p' ls)"

definition parse_by_lines :: "str \<Rightarrow> (parse_error, streaming_patch_parser) result" where
  "parse_by_lines s = (let ls = split_on newline s in
     case read_lines default_parser (butlast ls) of
       Err e \<Rightarrow> Err e
     | Ok p \<Rightarrow> finish_parser (p\<lparr>line_buffer := last ls\<rparr>))"

lemma push_deltas_chars: "push_deltas p ds = push_chars p (concat ds)"
  by (induction ds arbitrary: p)
     (simp_all add: push_delta_def patch_chars.run_append split: prod.split option.split)

lemma push_chars_lines_read:
  assumes "line_buffer p = b" "newline \<notin> set b"
  shows "case read_lines (p\<lparr>line_buffer := []\<rparr>) (butlast (split_on newline (b @ s))) of
      Err e \<Rightarrow> snd (push_chars p s) = Some e
    | Ok q \<Rightarrow> push_chars p s = (q\<lparr>line_buffer := last (split_on newline (b @ s))\<rparr>, None)"
  using assms
proof (induction s arbitrary: p b)
  case Nil
  then show ?case by (simp add: split_on_no_delim)
next
  case (Cons c s)
  show ?case
  proof (cases "c = newline")
    case False
    with Cons.IH [of "p\<lparr>line_buffer := b @ [c]\<rparr>" "b @ [c]"] Cons.prems show ?thesis
      by (simp add: push_char_def split: sum.splits)
  next
    case True
    define p1 where "p1 = p\<lparr>line_buffer := [], line_number := line_number p + 1\<rparr>"
    have p1: "p\<lparr>line_buffer := [], line_number := Suc (line_number p)\<rparr> = p1" by (simp add: p1_def)
    show ?thesis
    proof (cases "process_line p1 (strip_cr b)")
      case (Inl e)
      with True Cons.prems show ?thesis
        by (simp add: split_on_append_delim push_char_def Let_def p1)
    next
      case (Inr p2)
      then have b2: "line_buffer p2 = []" using process_line_buffer [OF Inr] by (simp add: p1_def)
      then have "p2\<lparr>line_buffer := []\<rparr> = p2" by simp
      with Cons.IH [of p2 "[]", OF b2] True Cons.prems Inr show ?thesis
        by (simp add: split_on_append_delim push_char_def Let_def p1 split: sum.splits)
    qed
  qed
qed

text \<open>
  C30. A patch that streams in is parsed as the whole text is, however it was cut: the result, down to the
  error and the line it names, is that of reading the complete lines of the text in order and then its last
  one; and where it is a parser, the patch was ended and each of its hunks is complete, an update with at
  least one chunk and every chunk with a line that it removes or adds.
\<close>

theorem streamed_patch_by_lines:
  "stream_patch ds = parse_by_lines (concat ds)
   \<and> (case stream_patch ds of
        Ok p \<Rightarrow> mode p = EndedPatch \<and> list_all hunk_complete (hunks p)
      | Err e \<Rightarrow> True)"
proof
  have "default_parser\<lparr>line_buffer := []\<rparr> = default_parser" "line_buffer default_parser = []"
    by (simp_all add: default_parser_def)
  with push_chars_lines_read [of default_parser "[]" "concat ds"]
  show "stream_patch ds = parse_by_lines (concat ds)"
    by (cases "push_chars default_parser (concat ds)")
       (auto simp: stream_patch_def parse_by_lines_def push_deltas_chars Let_def split: sum.splits)
  show "case stream_patch ds of Ok p \<Rightarrow> mode p = EndedPatch \<and> list_all hunk_complete (hunks p) | Err e \<Rightarrow> True"
  proof (cases "stream_patch ds")
    case (Inr q)
    then obtain p where p: "push_chars default_parser (concat ds) = (p, None)" and f: "finish_parser p = Ok q"
      by (auto simp: stream_patch_def push_deltas_chars split: prod.splits option.splits)
    from p have "push_delta default_parser (concat ds) = (p, Ok (hunks p))" by (simp add: push_delta_def)
    from finish_parser_inv [OF push_delta_inv [OF parser_inv_default this] f]
    have "mode q = EndedPatch" "list_all hunk_complete (hunks q)" by (auto simp: parser_inv_def)
    with Inr show ?thesis by simp
  qed simp
qed

end
