(* ===== verification/PatchRoundtrip.thy ===== *)
theory PatchRoundtrip
  imports PatchParserLaws
begin

text \<open>
  The grammar of \<open>parser.rs\<close> as a printer of hunks, and the round trip: printing followed by
  \<open>parse_patch\<close> returns the printed hunks.
\<close>

section \<open>Reading a printed patch\<close>

text \<open>The lines of a patch in the grammar of \<open>parser.rs\<close>: a printer, used as the specification.\<close>

definition render_chunk :: "update_file_chunk \<Rightarrow> str list" where
  "render_chunk c =
     (case change_context c of None \<Rightarrow> [EMPTY_CHANGE_CONTEXT_MARKER]
        | Some ctx \<Rightarrow> [CHANGE_CONTEXT_MARKER @ ctx])
     @ map (\<lambda>l. 45 # l) (old_lines c) @ map (\<lambda>l. 43 # l) (new_lines c)
     @ (if is_end_of_file c then [EOF_MARKER] else [])"

fun render_hunk :: "hunk \<Rightarrow> str list" where
  "render_hunk (AddFile p c) = (ADD_FILE_MARKER @ p) # map (\<lambda>l. 43 # l) (butlast (split_on newline c))"
| "render_hunk (DeleteFile p) = [DELETE_FILE_MARKER @ p]"
| "render_hunk (UpdateFile p mv cs) = (UPDATE_FILE_MARKER @ p)
     # (case mv of None \<Rightarrow> [] | Some q \<Rightarrow> [MOVE_TO_MARKER @ q]) @ concat (map render_chunk cs)"

definition render_lines :: "str option \<Rightarrow> hunk list \<Rightarrow> str list" where
  "render_lines env hs = BEGIN_PATCH_MARKER
     # (case env of None \<Rightarrow> [] | Some e \<Rightarrow> [ENVIRONMENT_ID_MARKER @ e]) @ concat (map render_hunk hs)"

definition render_patch :: "str option \<Rightarrow> hunk list \<Rightarrow> str" where
  "render_patch env hs = join_with [newline] (render_lines env hs @ [END_PATCH_MARKER])"

text \<open>What a single-line text must satisfy to survive printing.\<close>

definition line_ok :: "str \<Rightarrow> bool" where
  "line_ok l = (newline \<notin> set l \<and> (l \<noteq> [] \<longrightarrow> last l \<noteq> carriage_return))"

definition name_ok :: "str \<Rightarrow> bool" where
  "name_ok p = (p \<noteq> [] \<and> \<not> is_ws (last p) \<and> newline \<notin> set p)"

definition chunk_printable :: "update_file_chunk \<Rightarrow> bool" where
  "chunk_printable c = (\<not> chunk_is_empty c \<and> list_all line_ok (old_lines c)
     \<and> list_all line_ok (new_lines c) \<and> pred_option name_ok (change_context c))"

fun hunk_printable :: "hunk \<Rightarrow> bool" where
  "hunk_printable (AddFile p c) = (name_ok p \<and> last (split_on newline c) = []
     \<and> list_all line_ok (split_on newline c))"
| "hunk_printable (DeleteFile p) = name_ok p"
| "hunk_printable (UpdateFile p mv cs) = (name_ok p \<and> pred_option name_ok mv \<and> cs \<noteq> []
     \<and> list_all chunk_printable cs)"

definition env_printable :: "str option \<Rightarrow> bool" where
  "env_printable env = pred_option (\<lambda>e. e \<noteq> [] \<and> trim e = e \<and> newline \<notin> set e) env"

subsection \<open>From characters to lines\<close>

fun process_lines ::
    "streaming_patch_parser \<Rightarrow> str list \<Rightarrow> (parse_error, streaming_patch_parser) result" where
  "process_lines p [] = Ok p"
| "process_lines p (l # ls) = (case process_line (p\<lparr>line_number := line_number p + 1\<rparr>) l of
     Err e \<Rightarrow> Err e | Ok p' \<Rightarrow> process_lines p' ls)"

lemma process_lines_append:
  "process_lines p (xs @ ys) = (case process_lines p xs of Err e \<Rightarrow> Err e | Ok p' \<Rightarrow> process_lines p' ys)"
  by (induction xs arbitrary: p) (auto split: sum.splits)

lemma line_ok_strip_cr: "line_ok l \<Longrightarrow> strip_cr l = l"
  by (auto simp: line_ok_def strip_cr_def)

lemma push_chars_buffer:
  "newline \<notin> set l \<Longrightarrow> push_chars p l = (p\<lparr>line_buffer := line_buffer p @ l\<rparr>, None)"
  by (induction l arbitrary: p) (auto simp: push_char_def)

lemma push_chars_line:
  assumes "line_buffer p = []" and "line_ok l"
    and "process_line (p\<lparr>line_number := line_number p + 1\<rparr>) l = Ok p'"
  shows "push_chars p (l @ [newline]) = (p', None)"
proof -
  have "push_chars p l = (p\<lparr>line_buffer := l\<rparr>, None)"
    using push_chars_buffer [of l p] assms(1,2) by (simp add: line_ok_def)
  moreover have "p\<lparr>line_buffer := [], line_number := Suc (line_number p)\<rparr>
      = p\<lparr>line_number := line_number p + 1\<rparr>"
    using assms(1) by (cases p) simp
  ultimately show ?thesis
    using assms(2,3) by (simp add: patch_chars.run_append push_char_def Let_def line_ok_strip_cr)
qed

lemma push_chars_lines:
  assumes "line_buffer p = []" and "list_all line_ok ls" and "process_lines p ls = Ok p'"
  shows "push_chars p (concat (map (\<lambda>l. l @ [newline]) ls)) = (p', None) \<and> line_buffer p' = []"
  using assms
proof (induction ls arbitrary: p)
  case (Cons l ls)
  from Cons.prems(3) obtain q where q: "process_line (p\<lparr>line_number := line_number p + 1\<rparr>) l = Ok q"
    and r: "process_lines q ls = Ok p'"
    by (auto split: sum.splits)
  have "push_chars p (l @ [newline]) = (q, None)"
    using push_chars_line Cons.prems q by simp
  moreover have "line_buffer q = []"
    using process_line_buffer [OF q] Cons.prems(1) by simp
  ultimately show ?case
    using Cons.IH [of q] Cons.prems(2) r
      patch_chars.run_append [of p "l @ [newline]" "concat (map (\<lambda>l. l @ [newline]) ls)"]
    by simp
qed simp

subsection \<open>One printed line\<close>

lemma trim_end_Cons: "\<not> is_ws c \<Longrightarrow> trim_end (c # l) = c # trim_end l"
  by (induction l rule: rev_induct) (auto simp: trim_end_def dropWhile_append split: if_splits)

lemma is_ws_star [simp]: "\<not> is_ws 42" "\<not> is_ws 43" "\<not> is_ws 45" "\<not> is_ws 64" "\<not> is_ws (Suc 41)"
  by (simp_all add: is_ws_def)

lemma name_ok_trim_end:
  "name_ok q \<Longrightarrow> trim_end (m @ q) = m @ q"
  by (auto simp: name_ok_def intro!: trim_end_id)

lemma trim_start_Cons: "\<not> is_ws c \<Longrightarrow> trim_start (c # l) = c # l"
  by (simp add: trim_start_def)

lemma name_ok_trim:
  "name_ok q \<Longrightarrow> \<not> is_ws c \<Longrightarrow> trim (c # m @ q) = c # m @ q"
  using name_ok_trim_end [of q "c # m"] by (simp add: trim_def trim_start_Cons)

definition ready :: "streaming_patch_parser \<Rightarrow> bool" where
  "ready p = (mode p \<noteq> NotStarted \<and> mode p \<noteq> EndedPatch \<and> list_all hunk_complete (hunks p))"

lemma ready_ensure: "ready p \<Longrightarrow> ensure_update_hunk_is_not_empty p t = None"
  by (cases "hunks p" rule: rev_cases)
    (auto simp: ready_def ensure_update_hunk_is_not_empty_def hunk_complete_def last_chunk_empty_def
      list_all_iff split: hunk.splits)

lemma handle_plain:
  "t = [] \<or> hd t \<noteq> 42 \<Longrightarrow> handle_hunk_headers_and_end_patch p t = Ok None"
  by (cases t) (auto simp: handle_hunk_headers_and_end_patch_def markers split: option.splits)

lemma handle_header:
  assumes "ready p"
  shows "handle_hunk_headers_and_end_patch p (ADD_FILE_MARKER @ q)
      = Ok (Some (p\<lparr>hunks := hunks p @ [AddFile q []], mode := InAddFile\<rparr>))"
    and "handle_hunk_headers_and_end_patch p (DELETE_FILE_MARKER @ q)
      = Ok (Some (p\<lparr>hunks := hunks p @ [DeleteFile q], mode := InDeleteFile\<rparr>))"
    and "handle_hunk_headers_and_end_patch p (UPDATE_FILE_MARKER @ q)
      = Ok (Some (p\<lparr>hunks := hunks p @ [UpdateFile q None []], mode := InUpdateFile (line_number p)\<rparr>))"
  using ready_ensure [OF assms]
  by (simp_all add: handle_hunk_headers_and_end_patch_def start_hunk_def markers del: strip_prefix_Some)

lemma process_header:
  assumes "ready p" and "handle_hunk_headers_and_end_patch p t = Ok (Some p')"
    and "trim t = t" and "trim_end t = t"
  shows "process_line p t = Ok p'"
  using assms
  by (cases "mode p") (auto simp: process_line_def process_header_only_def process_add_file_def
      process_update_file_def ready_def)

lemma marker_trim:
  assumes "name_ok q"
  shows "trim (ADD_FILE_MARKER @ q) = ADD_FILE_MARKER @ q"
    and "trim (DELETE_FILE_MARKER @ q) = DELETE_FILE_MARKER @ q"
    and "trim (UPDATE_FILE_MARKER @ q) = UPDATE_FILE_MARKER @ q"
  using name_ok_trim [OF assms, of 42 "tl ADD_FILE_MARKER"]
    name_ok_trim [OF assms, of 42 "tl DELETE_FILE_MARKER"]
    name_ok_trim [OF assms, of 42 "tl UPDATE_FILE_MARKER"]
  by (simp_all add: ADD_FILE_MARKER_def DELETE_FILE_MARKER_def UPDATE_FILE_MARKER_def)

lemmas process_add_header = process_header [OF _ handle_header(1)]
lemmas process_delete_header = process_header [OF _ handle_header(2)]
lemmas process_update_header = process_header [OF _ handle_header(3)]


lemma ready_line_number [simp]: "ready (p\<lparr>line_number := k\<rparr>) = ready p"
  by (simp add: ready_def)

subsection \<open>Added files\<close>

lemma process_add_line:
  assumes "mode p = InAddFile" and "hunks p = hs @ [AddFile q c]"
  shows "process_line p (43 # l) = Ok (p\<lparr>hunks := hs @ [AddFile q (c @ l @ [newline])]\<rparr>)"
proof -
  have "hd (trim (43 # l)) = 43 \<and> trim (43 # l) \<noteq> []"
    by (simp add: trim_def trim_start_Cons trim_end_Cons)
  then have "handle_hunk_headers_and_end_patch p (trim (43 # l)) = Ok None"
    by (intro handle_plain) simp
  with assms show ?thesis
    by (simp add: process_line_def process_add_file_def set_last_hunk_def del: strip_prefix_Some)
qed

lemma process_add_lines:
  assumes "mode p = InAddFile" and "hunks p = hs @ [AddFile q c]"
  shows "process_lines p (map (\<lambda>l. 43 # l) ls)
    = Ok (p\<lparr>hunks := hs @ [AddFile q (c @ concat (map (\<lambda>l. l @ [newline]) ls))],
           line_number := line_number p + length ls\<rparr>)"
  using assms
proof (induction ls arbitrary: p c)
  case Nil
  then show ?case by (cases p) simp
next
  case (Cons l ls)
  have "process_line (p\<lparr>line_number := line_number p + 1\<rparr>) (43 # l)
    = Ok (p\<lparr>hunks := hs @ [AddFile q (c @ l @ [newline])], line_number := line_number p + 1\<rparr>)"
    using process_add_line [of "p\<lparr>line_number := line_number p + 1\<rparr>" hs q c l] Cons.prems by simp
  then show ?case
    using Cons.IH [of "p\<lparr>hunks := hs @ [AddFile q (c @ l @ [newline])],
        line_number := line_number p + 1\<rparr>" "c @ l @ [newline]"] Cons.prems
    by simp
qed

lemma printed_contents:
  "last (split_on newline c) = [] \<Longrightarrow>
    concat (map (\<lambda>l. l @ [newline]) (butlast (split_on newline c))) = c"
  by (metis append.right_neutral append_butlast_last_id join_split_on join_with_concat
      split_on_nonempty)

subsection \<open>Updated files\<close>

definition upd ::
    "streaming_patch_parser \<Rightarrow> hunk list \<Rightarrow> path \<Rightarrow> path option \<Rightarrow> update_file_chunk list \<Rightarrow> nat
     \<Rightarrow> streaming_patch_parser" where
  "upd p hs q mv cs k = p\<lparr>hunks := hs @ [UpdateFile q mv cs], line_number := k\<rparr>"

lemma upd_simps [simp]:
  "mode (upd p hs q mv cs k) = mode p" "hunks (upd p hs q mv cs k) = hs @ [UpdateFile q mv cs]"
  "line_number (upd p hs q mv cs k) = k"
  "upd p hs q mv cs k\<lparr>line_number := j\<rparr> = upd p hs q mv cs j"
  "set_last_hunk (upd p hs q mv cs k) (UpdateFile q mv' cs') = upd p hs q mv' cs' k"
  by (simp_all add: upd_def set_last_hunk_def)

lemma handle_inner_marker:
  "handle_hunk_headers_and_end_patch p EOF_MARKER = Ok None"
  "handle_hunk_headers_and_end_patch p (MOVE_TO_MARKER @ q) = Ok None"
  by (simp_all add: handle_hunk_headers_and_end_patch_def markers del: strip_prefix_Some)

lemma process_update_line:
  assumes "mode p = InUpdateFile n"
    and "handle_hunk_headers_and_end_patch (upd p hs q mv cs k) (trim_end l) = Ok None"
    and "update_hunk_line mv cs l k = Ok (mv', cs')"
  shows "process_line (upd p hs q mv cs k) l = Ok (upd p hs q mv' cs' k)"
  using assms by (simp add: process_line_def process_update_file_def)

lemma update_line_body:
  assumes "\<not> last_chunk_eof cs" and "c = 43 \<or> c = 45"
  shows "update_hunk_line mv cs (c # l) k
    = Ok (mv, on_last_chunk (if c = 43 then add_new l else add_old l) cs)"
  using assms
  by (auto simp: update_hunk_line_def update_marker_line_def update_body_line_def Let_def
      is_context_line_def starts_with_def markers trim_end_Cons split: option.splits)

lemma process_body_lines:
  assumes "mode p = InUpdateFile n" and "c = 43 \<or> c = 45" and "\<not> is_end_of_file x"
  shows "process_lines (upd p hs q mv (cs @ [x]) k) (map (\<lambda>l. c # l) ls)
    = Ok (upd p hs q mv (cs @ [if c = 43 then x\<lparr>new_lines := new_lines x @ ls\<rparr>
                                else x\<lparr>old_lines := old_lines x @ ls\<rparr>]) (k + length ls))"
  using assms(3)
proof (induction ls arbitrary: x k)
  case Nil
  then show ?case by (cases x) simp
next
  case (Cons l ls)
  define y where "y = (if c = 43 then add_new l else add_old l) x"
  have "trim_end (c # l) \<noteq> [] \<and> hd (trim_end (c # l)) \<noteq> 42"
    using assms(2) by (auto simp: trim_end_Cons)
  moreover have "update_hunk_line mv (cs @ [x]) (c # l) (Suc k) = Ok (mv, cs @ [y])"
    using assms(2) Cons.prems
    by (subst update_line_body) (auto simp: last_chunk_eof_def on_last_chunk_def y_def)
  ultimately have "process_line (upd p hs q mv (cs @ [x]) (Suc k)) (c # l)
      = Ok (upd p hs q mv (cs @ [y]) (Suc k))"
    using process_update_line [OF assms(1)] handle_plain by blast
  moreover have "\<not> is_end_of_file y"
    using Cons.prems by (simp add: y_def add_new_def add_old_def)
  ultimately show ?case
    using Cons.IH [of y "Suc k"] assms(2)
    by (auto simp: y_def add_new_def add_old_def)
qed

lemma update_line_context:
  assumes "list_all (\<lambda>c. \<not> chunk_is_empty c) cs" and "pred_option name_ok ctx"
  shows "update_hunk_line mv cs
      (case ctx of None \<Rightarrow> EMPTY_CHANGE_CONTEXT_MARKER | Some t \<Rightarrow> CHANGE_CONTEXT_MARKER @ t) k
    = Ok (mv, cs @ [new_chunk ctx])"
proof -
  have ne: "\<not> last_chunk_empty cs"
    using assms(1) by (auto simp: last_chunk_empty_def list_all_iff)
  show ?thesis
  proof (cases ctx)
    case None
    then show ?thesis
      using ne by (auto simp: update_hunk_line_def update_marker_line_def Let_def is_context_line_def
          markers trim_end_Cons split: option.splits)
  next
    case (Some t)
    then have "trim_end (CHANGE_CONTEXT_MARKER @ t) = CHANGE_CONTEXT_MARKER @ t" and "t \<noteq> []"
      using assms(2) name_ok_trim_end [of t] by (auto simp: name_ok_def)
    then show ?thesis
      using ne Some by (auto simp: update_hunk_line_def update_marker_line_def Let_def
          is_context_line_def starts_with_def markers split: option.splits)
  qed
qed

lemma trim_end_EOF_MARKER: "trim_end EOF_MARKER = EOF_MARKER"
  by (rule trim_end_id) (simp add: EOF_MARKER_def is_ws_def)

lemma update_line_eof:
  assumes "\<not> chunk_is_empty x" and "\<not> is_end_of_file x"
  shows "update_hunk_line mv (cs @ [x]) EOF_MARKER k = Ok (mv, cs @ [x\<lparr>is_end_of_file := True\<rparr>])"
proof -
  show ?thesis
    using assms trim_end_EOF_MARKER
    by (auto simp: update_hunk_line_def update_marker_line_def Let_def is_context_line_def
        starts_with_def last_chunk_empty_def last_chunk_eof_def markers split: option.splits)
qed

lemma process_chunk:
  assumes m: "mode p = InUpdateFile n" and cs: "list_all (\<lambda>c. \<not> chunk_is_empty c) cs"
    and c: "chunk_printable c"
  shows "process_lines (upd p hs q mv cs k) (render_chunk c)
    = Ok (upd p hs q mv (cs @ [c]) (k + length (render_chunk c)))"
proof -
  define ctx where "ctx = (case change_context c of None \<Rightarrow> EMPTY_CHANGE_CONTEXT_MARKER
      | Some t \<Rightarrow> CHANGE_CONTEXT_MARKER @ t)"
  define x where "x = new_chunk (change_context c)"
  define y where "y = x\<lparr>old_lines := old_lines c\<rparr>"
  define z where "z = y\<lparr>new_lines := new_lines c\<rparr>"
  define j where "j = Suc k + length (old_lines c)"
  have ctx_ok: "pred_option name_ok (change_context c)"
    using c by (simp add: chunk_printable_def)
  have l1: "process_line (upd p hs q mv cs (Suc k)) ctx = Ok (upd p hs q mv (cs @ [x]) (Suc k))"
  proof (rule process_update_line [OF m])
    show "handle_hunk_headers_and_end_patch (upd p hs q mv cs (Suc k)) (trim_end ctx) = Ok None"
      by (rule handle_plain) (auto simp: ctx_def markers trim_end_Cons split: option.splits)
    show "update_hunk_line mv cs ctx (Suc k) = Ok (mv, cs @ [x])"
      unfolding ctx_def x_def by (rule update_line_context [OF cs ctx_ok])
  qed
  have l2: "process_lines (upd p hs q mv (cs @ [x]) (Suc k)) (map (\<lambda>l. 45 # l) (old_lines c))
      = Ok (upd p hs q mv (cs @ [y]) j)"
    using process_body_lines [OF m, of 45 x hs q mv cs "Suc k" "old_lines c"]
    by (simp add: x_def y_def j_def new_chunk_def)
  have l3: "process_lines (upd p hs q mv (cs @ [y]) j) (map (\<lambda>l. 43 # l) (new_lines c))
      = Ok (upd p hs q mv (cs @ [z]) (j + length (new_lines c)))"
    using process_body_lines [OF m, of 43 y hs q mv cs j "new_lines c"]
    by (simp add: x_def y_def z_def new_chunk_def)
  have z: "\<not> chunk_is_empty z" "\<not> is_end_of_file z"
    using c by (simp_all add: chunk_printable_def chunk_is_empty_def x_def y_def z_def new_chunk_def)
  have l4: "process_line (upd p hs q mv (cs @ [z]) i) EOF_MARKER
      = Ok (upd p hs q mv (cs @ [z\<lparr>is_end_of_file := True\<rparr>]) i)" if "is_end_of_file c" for i
  proof (rule process_update_line [OF m])
    show "handle_hunk_headers_and_end_patch (upd p hs q mv (cs @ [z]) i) (trim_end EOF_MARKER) = Ok None"
      by (simp add: trim_end_EOF_MARKER handle_inner_marker)
    show "update_hunk_line mv (cs @ [z]) EOF_MARKER i = Ok (mv, cs @ [z\<lparr>is_end_of_file := True\<rparr>])"
      by (rule update_line_eof [OF z])
  qed
  have zc: "is_end_of_file c \<Longrightarrow> z\<lparr>is_end_of_file := True\<rparr> = c" "\<not> is_end_of_file c \<Longrightarrow> z = c"
    by (cases c, simp add: x_def y_def z_def new_chunk_def)+
  have r: "render_chunk c = ctx # map (\<lambda>l. 45 # l) (old_lines c) @ map (\<lambda>l. 43 # l) (new_lines c)
      @ (if is_end_of_file c then [EOF_MARKER] else [])"
    by (simp add: render_chunk_def ctx_def split: option.split)
  show ?thesis
  proof (cases "is_end_of_file c")
    case True
    have "process_line (upd p hs q mv (cs @ [z]) (Suc (j + length (new_lines c)))) EOF_MARKER
        = Ok (upd p hs q mv (cs @ [c]) (Suc (j + length (new_lines c))))"
      using l4 [OF True] zc(1) [OF True] by simp
    with l1 l2 l3 True show ?thesis by (simp add: r process_lines_append j_def add.assoc)
  next
    case False
    with l1 l2 l3 zc(2) show ?thesis by (simp add: r process_lines_append j_def add.assoc)
  qed
qed

lemma process_chunks:
  assumes m: "mode p = InUpdateFile n" and cs: "list_all (\<lambda>c. \<not> chunk_is_empty c) cs"
    and "list_all chunk_printable ds"
  shows "process_lines (upd p hs q mv cs k) (concat (map render_chunk ds))
    = Ok (upd p hs q mv (cs @ ds) (k + length (concat (map render_chunk ds))))"
  using assms(2,3)
proof (induction ds arbitrary: cs k)
  case (Cons d ds)
  have "process_lines (upd p hs q mv cs k) (render_chunk d)
    = Ok (upd p hs q mv (cs @ [d]) (k + length (render_chunk d)))"
    using process_chunk [OF m] Cons.prems by simp
  moreover have "list_all (\<lambda>c. \<not> chunk_is_empty c) (cs @ [d])"
    using Cons.prems by (simp add: chunk_printable_def)
  ultimately show ?case
    using Cons.IH [of "cs @ [d]" "k + length (render_chunk d)"] Cons.prems(2)
    by (simp add: process_lines_append add.assoc)
qed simp

subsection \<open>Whole hunks\<close>

lemma process_move:
  assumes "mode p = InUpdateFile n" and "name_ok r"
  shows "process_line (upd p hs q None [] k) (MOVE_TO_MARKER @ r) = Ok (upd p hs q (Some r) [] k)"
proof (rule process_update_line [OF assms(1)])
  have t: "trim_end (MOVE_TO_MARKER @ r) = MOVE_TO_MARKER @ r"
    using assms(2) by (rule name_ok_trim_end)
  then show "handle_hunk_headers_and_end_patch (upd p hs q None [] k)
      (trim_end (MOVE_TO_MARKER @ r)) = Ok None"
    by (simp add: handle_inner_marker)
  show "update_hunk_line None [] (MOVE_TO_MARKER @ r) k = Ok (Some r, [])"
    using t by (simp add: update_hunk_line_def update_marker_line_def last_chunk_eof_def del: strip_prefix_Some)
qed

lemma process_hunk:
  assumes r: "ready p" and h: "hunk_printable h"
  shows "\<exists>p'. process_lines p (render_hunk h) = Ok p' \<and> ready p' \<and> hunks p' = hunks p @ [h]
    \<and> environment_id p' = environment_id p"
proof (cases h)
  case (AddFile q c)
  define p1 where "p1 = p\<lparr>line_number := line_number p + 1\<rparr>"
  define p2 where "p2 = p1\<lparr>hunks := hunks p1 @ [AddFile q []], mode := InAddFile\<rparr>"
  have q: "name_ok q" using h AddFile by simp
  have "process_line p1 (ADD_FILE_MARKER @ q) = Ok p2"
    unfolding p2_def using r q
    by (intro process_add_header) (simp_all add: p1_def marker_trim name_ok_trim_end)
  moreover have "process_lines p2 (map (\<lambda>l. 43 # l) (butlast (split_on newline c)))
    = Ok (p2\<lparr>hunks := hunks p1 @ [AddFile q c],
        line_number := line_number p2 + length (butlast (split_on newline c))\<rparr>)"
    using process_add_lines [of p2 "hunks p1" q "[]" "butlast (split_on newline c)"]
      printed_contents [of c] h AddFile by (simp add: p2_def)
  ultimately show ?thesis
    using r AddFile by (simp add: p1_def p2_def ready_def hunk_complete_def)
next
  case (DeleteFile q)
  define p1 where "p1 = p\<lparr>line_number := line_number p + 1\<rparr>"
  have "process_line p1 (DELETE_FILE_MARKER @ q)
      = Ok (p1\<lparr>hunks := hunks p1 @ [DeleteFile q], mode := InDeleteFile\<rparr>)"
    using r h DeleteFile
    by (intro process_delete_header) (simp_all add: p1_def marker_trim name_ok_trim_end)
  then show ?thesis
    using r DeleteFile by (simp add: p1_def ready_def hunk_complete_def)
next
  case (UpdateFile q mv cs)
  define k where "k = Suc (line_number p)"
  define p1 where "p1 = p\<lparr>line_number := k, mode := InUpdateFile k\<rparr>"
  have m: "mode p1 = InUpdateFile k" by (simp add: p1_def)
  have q: "name_ok q" and mv: "pred_option name_ok mv" and cs: "list_all chunk_printable cs"
    and ne: "cs \<noteq> []"
    using h UpdateFile by simp_all
  have l1: "process_line (p\<lparr>line_number := k\<rparr>) (UPDATE_FILE_MARKER @ q)
      = Ok (upd p1 (hunks p) q None [] k)"
    using process_update_header [of "p\<lparr>line_number := k\<rparr>" q] r q
    by (simp add: marker_trim name_ok_trim_end p1_def upd_def)
  define j where "j = (case mv of None \<Rightarrow> k | Some _ \<Rightarrow> Suc k)"
  have l2: "process_lines (upd p1 (hunks p) q None [] k)
      (case mv of None \<Rightarrow> [] | Some r \<Rightarrow> [MOVE_TO_MARKER @ r]) = Ok (upd p1 (hunks p) q mv [] j)"
    using process_move [OF m] mv by (auto simp: j_def split: option.split)
  have l3: "process_lines (upd p1 (hunks p) q mv [] j) (concat (map render_chunk cs))
      = Ok (upd p1 (hunks p) q mv cs (j + length (concat (map render_chunk cs))))"
    using process_chunks [OF m, of "[]" cs] cs by simp
  have "list_all (\<lambda>c. \<not> chunk_is_empty c) cs"
    using cs by (auto simp: list_all_iff chunk_printable_def)
  with l1 l2 l3 r ne show ?thesis
    by (simp add: UpdateFile process_lines_append k_def ready_def hunk_complete_def p1_def upd_def)
qed

lemma process_hunks:
  assumes "ready p" and "list_all hunk_printable hs"
  shows "\<exists>p'. process_lines p (concat (map render_hunk hs)) = Ok p' \<and> ready p'
    \<and> hunks p' = hunks p @ hs \<and> environment_id p' = environment_id p"
  using assms
proof (induction hs arbitrary: p)
  case (Cons h hs)
  obtain q where q: "process_lines p (render_hunk h) = Ok q" "ready q" "hunks q = hunks p @ [h]"
      "environment_id q = environment_id p"
    using process_hunk [OF Cons.prems(1), of h] Cons.prems(2) by auto
  from Cons.IH [OF q(2)] Cons.prems(2) q show ?case
    by (auto simp: process_lines_append)
qed simp


subsection \<open>Whole patches\<close>

lemma line_ok_name: "name_ok q \<Longrightarrow> newline \<notin> set m \<Longrightarrow> line_ok (m @ q)"
  by (auto simp: name_ok_def line_ok_def is_ws_def)

lemma line_ok_markers:
  "newline \<notin> set ADD_FILE_MARKER" "newline \<notin> set DELETE_FILE_MARKER"
  "newline \<notin> set UPDATE_FILE_MARKER" "newline \<notin> set MOVE_TO_MARKER"
  "newline \<notin> set CHANGE_CONTEXT_MARKER" "newline \<notin> set ENVIRONMENT_ID_MARKER"
  "line_ok EMPTY_CHANGE_CONTEXT_MARKER" "line_ok EOF_MARKER" "line_ok BEGIN_PATCH_MARKER"
  "line_ok END_PATCH_MARKER"
  by (simp_all add: markers line_ok_def)

lemma line_ok_Cons: "line_ok l \<Longrightarrow> c \<noteq> newline \<Longrightarrow> c \<noteq> carriage_return \<Longrightarrow> line_ok (c # l)"
  by (auto simp: line_ok_def)

lemma chunk_lines_ok: "chunk_printable c \<Longrightarrow> list_all line_ok (render_chunk c)"
  by (auto simp: chunk_printable_def render_chunk_def list_all_iff line_ok_markers
      intro!: line_ok_name line_ok_Cons split: option.splits)

lemma hunk_lines_ok: "hunk_printable h \<Longrightarrow> list_all line_ok (render_hunk h)"
proof (cases h)
  case (AddFile p c)
  moreover assume "hunk_printable h"
  ultimately show ?thesis
    by (auto simp: list_all_iff line_ok_markers intro!: line_ok_name line_ok_Cons dest: in_set_butlastD)
next
  case (DeleteFile p)
  moreover assume "hunk_printable h"
  ultimately show ?thesis by (auto simp: line_ok_markers intro!: line_ok_name)
next
  case (UpdateFile p mv cs)
  moreover assume "hunk_printable h"
  ultimately show ?thesis
    using chunk_lines_ok
    by (fastforce simp: list_all_iff line_ok_markers intro!: line_ok_name split: option.splits)
qed

lemma render_lines_ok:
  assumes "env_printable env" and "list_all hunk_printable hs"
  shows "list_all line_ok (render_lines env hs)"
proof -
  have "list_all line_ok (concat (map render_hunk hs))"
    using assms(2) hunk_lines_ok by (fastforce simp: list_all_iff)
  moreover have "line_ok (ENVIRONMENT_ID_MARKER @ e)" if "env = Some e" for e
  proof (rule line_ok_name)
    have "e \<noteq> []" "trim e = e" "newline \<notin> set e"
      using assms(1) that by (simp_all add: env_printable_def)
    moreover from \<open>trim e = e\<close> \<open>e \<noteq> []\<close> have "\<not> is_ws (last e)"
      using trim_end_last [of "trim_start e"] by (simp add: trim_def)
    ultimately show "name_ok e" by (simp add: name_ok_def)
  qed (simp add: line_ok_markers)
  ultimately show ?thesis
    by (auto simp: render_lines_def line_ok_markers list_all_iff split: option.splits)
qed

lemma process_render_lines:
  assumes "env_printable env" and "list_all hunk_printable hs"
  shows "\<exists>p. process_lines default_parser (render_lines env hs) = Ok p \<and> ready p
    \<and> hunks p = hs \<and> environment_id p = env"
proof -
  define p1 where "p1 = default_parser\<lparr>mode := StartedPatch, line_number := 1\<rparr>"
  have l1: "process_line (default_parser\<lparr>line_number := 1\<rparr>) BEGIN_PATCH_MARKER = Ok p1"
    by (simp add: process_line_def process_not_started_def default_parser_def p1_def trim_def
        trim_start_Cons trim_end_Cons BEGIN_PATCH_MARKER_def is_ws_def trim_end_def)
  define p2 where "p2 = (case env of None \<Rightarrow> p1 | Some e \<Rightarrow> p1\<lparr>line_number := 2, environment_id := Some e\<rparr>)"
  have l2: "process_lines p1 (case env of None \<Rightarrow> [] | Some e \<Rightarrow> [ENVIRONMENT_ID_MARKER @ e]) = Ok p2"
  proof (cases env)
    case (Some e)
    then have e: "e \<noteq> []" "trim e = e" using assms(1) by (simp_all add: env_printable_def)
    then have "name_ok e \<or> newline \<in> set e"
      using trim_end_last [of "trim_start e"] by (auto simp: name_ok_def trim_def)
    with Some assms(1) have t: "trim (ENVIRONMENT_ID_MARKER @ e) = ENVIRONMENT_ID_MARKER @ e"
      using name_ok_trim [of e 42 "tl ENVIRONMENT_ID_MARKER"]
      by (simp add: env_printable_def ENVIRONMENT_ID_MARKER_def)
    show ?thesis
      using Some e t
      by (simp add: p1_def p2_def process_line_def process_header_only_def
          handle_hunk_headers_and_end_patch_def handle_environment_id_def default_parser_def
          del: strip_prefix_Some)
  qed (simp add: p2_def)
  have "ready p2" "hunks p2 = []" "environment_id p2 = env"
    by (simp_all add: p2_def p1_def ready_def default_parser_def split: option.split)
  with process_hunks [of p2 hs] assms(2) l1 l2 show ?thesis
    by (auto simp: render_lines_def process_lines_append default_parser_def)
qed

lemma render_patch_text:
  "render_patch env hs = concat (map (\<lambda>l. l @ [newline]) (render_lines env hs)) @ END_PATCH_MARKER"
  by (simp add: render_patch_def join_with_concat)

lemma trim_markers [simp]:
  "trim BEGIN_PATCH_MARKER = BEGIN_PATCH_MARKER" "trim END_PATCH_MARKER = END_PATCH_MARKER"
  by (intro trim_id; simp add: markers is_ws_def)+

lemma END_PATCH_MARKER_nonempty: "END_PATCH_MARKER \<noteq> []"
  by (simp add: END_PATCH_MARKER_def)

lemma split_lines_ok:
  assumes "ls \<noteq> []" and "list_all line_ok ls" and "last ls \<noteq> []"
  shows "str_lines (join_with [newline] ls) = ls"
proof -
  have "split_on newline (join_with [newline] ls) = ls"
    using assms by (intro split_on_join) (auto simp: list_all_iff line_ok_def)
  moreover have "map strip_cr (butlast ls) = butlast ls"
    using assms(2) by (auto simp: list_all_iff intro!: map_idI line_ok_strip_cr dest: in_set_butlastD)
  ultimately show ?thesis
    using assms(1,3) by (simp add: str_lines_def Let_def)
qed

lemma parse_printed_patch:
  assumes "env_printable env" and "list_all hunk_printable hs"
  shows "parse_patch (render_patch env hs) = Ok \<lparr>patch_text = render_patch env hs,
    patch_hunks = hs, workdir = None, args_environment_id = env\<rparr>"
proof -
  let ?ls = "render_lines env hs @ [END_PATCH_MARKER]"
  obtain p where p: "process_lines default_parser (render_lines env hs) = Ok p" "ready p"
      "hunks p = hs" "environment_id p = env"
    using process_render_lines [OF assms] by blast
  have ok: "list_all line_ok ?ls"
    using render_lines_ok [OF assms] by (simp add: line_ok_markers)
  have hd_text: "render_patch env hs \<noteq> [] \<and> hd (render_patch env hs) = 42 \<and> last (render_patch env hs) = 104"
    by (simp add: render_patch_text render_lines_def BEGIN_PATCH_MARKER_def END_PATCH_MARKER_def)
  then have "trim (render_patch env hs) = render_patch env hs"
    by (intro trim_id) (simp add: is_ws_def)
  moreover have "str_lines (render_patch env hs) = ?ls"
    unfolding render_patch_def using ok by (intro split_lines_ok) (simp_all add: END_PATCH_MARKER_def)
  moreover have "check_patch_boundaries_strict ?ls = Ok ?ls"
    by (simp add: check_patch_boundaries_strict_def check_start_and_end_lines_strict_def)
      (simp add: render_lines_def)
  moreover have push: "push_chars default_parser (render_patch env hs)
      = (p\<lparr>line_buffer := END_PATCH_MARKER\<rparr>, None)"
  proof -
    have "push_chars default_parser (concat (map (\<lambda>l. l @ [newline]) (render_lines env hs))) = (p, None)"
      and b: "line_buffer p = []"
      using push_chars_lines [OF _ render_lines_ok [OF assms] p(1)] by (simp_all add: default_parser_def)
    with push_chars_buffer [of END_PATCH_MARKER p] show ?thesis
      using line_ok_markers(10) by (simp add: render_patch_text patch_chars.run_append line_ok_def b)
  qed
  moreover have "finish_parser (p\<lparr>line_buffer := END_PATCH_MARKER\<rparr>)
      = Ok (p\<lparr>line_buffer := [], line_number := line_number p + 1, mode := EndedPatch\<rparr>)"
    using ready_ensure [of "p\<lparr>line_buffer := [], line_number := line_number p + 1\<rparr>"] p(2)
    by (simp add: finish_parser_def finish_line_def Let_def ready_def END_PATCH_MARKER_nonempty)
  ultimately show ?thesis
    using p(3,4)
    by (simp add: parse_patch_def PARSE_IN_STRICT_MODE_def parse_patch_text_def Let_def
        check_patch_boundaries_lenient_def push_delta_def render_patch_def)
qed


text \<open>
  C7. Round trip: a printable list of hunks, printed in the grammar of the format with an optional
  environment id, is parsed back to exactly these hunks and this id.
\<close>

theorem parse_render_patch:
  assumes "env_printable env" and "list_all hunk_printable hs"
  shows "parse_patch (render_patch env hs) = Ok \<lparr>patch_text = render_patch env hs,
    patch_hunks = hs, workdir = None, args_environment_id = env\<rparr>"
  using assms by (rule parse_printed_patch)

definition sample_hunks :: "hunk list" where
  "sample_hunks =
     [AddFile (lit ''new.txt'') (lit ''hello'' @ [newline]), DeleteFile (lit ''gone.txt''),
      UpdateFile (lit ''a.py'') (Some (lit ''b.py''))
        [\<lparr>change_context = Some (lit ''def f():''), old_lines = [lit ''  pass''],
          new_lines = [lit ''  return 1''], is_end_of_file = True\<rparr>]]"

theorem parse_render_patch_witness:
  "parse_patch (render_patch (Some (lit ''env'')) sample_hunks) = Ok \<lparr>patch_text =
     render_patch (Some (lit ''env'')) sample_hunks, patch_hunks = sample_hunks, workdir = None,
     args_environment_id = Some (lit ''env'')\<rparr>"
proof (rule parse_render_patch)
  show "env_printable (Some (lit ''env''))"
    by (simp add: env_printable_def trim_def trim_start_def trim_end_def is_ws_def)
  show "list_all hunk_printable sample_hunks"
    by (simp add: sample_hunks_def name_ok_def line_ok_def chunk_printable_def chunk_is_empty_def is_ws_def)
qed

lemma parse_patch_hunks_complete_witness:
  "parse_patch (render_patch None sample_hunks) = Ok \<lparr>patch_text = render_patch None sample_hunks,
     patch_hunks = sample_hunks, workdir = None, args_environment_id = None\<rparr>
   \<and> list_all hunk_complete sample_hunks"
proof -
  have "list_all hunk_printable sample_hunks"
    by (simp add: sample_hunks_def name_ok_def line_ok_def chunk_printable_def chunk_is_empty_def is_ws_def)
  then have "parse_patch (render_patch None sample_hunks) = Ok \<lparr>patch_text =
      render_patch None sample_hunks, patch_hunks = sample_hunks, workdir = None,
      args_environment_id = None\<rparr>"
    by (intro parse_printed_patch) (simp_all add: env_printable_def)
  from this parse_patch_hunks_complete [OF this] show ?thesis by simp
qed

end
