(* ===== verification/PatchSeek.thy ===== *)
theory PatchSeek
  imports Prelude
begin

text \<open>
  \<open>crates/bharatcode-apply-patch/src/seek_sequence.rs\<close>: locating a block of pattern lines in a
  file, by four passes of decreasing strictness. \<open>usize\<close> values are natural numbers; the only
  subtractions of the source are guarded (\<open>pattern.len() > lines.len()\<close> returns early).
\<close>

text \<open>The nested \<open>normalise\<close>: typographic dashes, quotes and spaces become ASCII.\<close>

definition normalise_char :: "uchar \<Rightarrow> uchar" where
  "normalise_char c =
     (if (8208 \<le> c \<and> c \<le> 8213) \<or> c = 8722 then 45
      else if 8216 \<le> c \<and> c \<le> 8219 then 39
      else if 8220 \<le> c \<and> c \<le> 8223 then 34
      else if c = 160 \<or> (8194 \<le> c \<and> c \<le> 8202) \<or> c = 8239 \<or> c = 8287 \<or> c = 12288 then 32
      else c)"

definition normalise :: "str \<Rightarrow> str" where
  "normalise s = map normalise_char (trim s)"

text \<open>The inner loop over \<open>pattern.iter().enumerate()\<close> at one position, under a view of lines.\<close>

definition matches_at :: "(str \<Rightarrow> str) \<Rightarrow> str list \<Rightarrow> str list \<Rightarrow> nat \<Rightarrow> bool" where
  "matches_at f lns pat i = (map f (take (length pat) (drop i lns)) = map f pat)"

text \<open>One pass \<open>for i in search_start..=lines.len() - pattern.len()\<close>.\<close>

definition seek_pass :: "(str \<Rightarrow> str) \<Rightarrow> str list \<Rightarrow> str list \<Rightarrow> nat \<Rightarrow> nat option" where
  "seek_pass f lns pat from =
     List.find (matches_at f lns pat) [from ..< Suc (length lns - length pat)]"

definition seek_sequence :: "str list \<Rightarrow> str list \<Rightarrow> nat \<Rightarrow> bool \<Rightarrow> nat option" where
  "seek_sequence lns pat start eof =
     (if pat = [] then Some start
      else if length lns < length pat then None
      else (let from = (if eof \<and> length pat \<le> length lns then length lns - length pat else start) in
        (case seek_pass id lns pat from of
           Some i \<Rightarrow> Some i
         | None \<Rightarrow> (case seek_pass trim_end lns pat from of
           Some i \<Rightarrow> Some i
         | None \<Rightarrow> (case seek_pass trim lns pat from of
           Some i \<Rightarrow> Some i
         | None \<Rightarrow> seek_pass normalise lns pat from)))))"

section \<open>What a pass finds\<close>

lemma find_Some_iff_first:
  "List.find P [a ..< b] = Some i \<longleftrightarrow> a \<le> i \<and> i < b \<and> P i \<and> (\<forall>j. a \<le> j \<and> j < i \<longrightarrow> \<not> P j)"
proof (induction "b - a" arbitrary: a)
  case 0
  then show ?case by simp
next
  case (Suc n)
  then have ab: "a < b" by simp
  have IH: "List.find P [Suc a ..< b] = Some i
      \<longleftrightarrow> Suc a \<le> i \<and> i < b \<and> P i \<and> (\<forall>j. Suc a \<le> j \<and> j < i \<longrightarrow> \<not> P j)"
    using Suc.hyps(1) [of "Suc a"] Suc.hyps(2) by simp
  show ?case
    using ab IH by (auto simp: upt_conv_Cons Suc_le_eq) (metis le_neq_implies_less not_less_eq_eq not_less)+
qed

lemma find_None_iff_all: "List.find P [a ..< b] = None \<longleftrightarrow> (\<forall>j. a \<le> j \<and> j < b \<longrightarrow> \<not> P j)"
  by (auto simp: find_None_iff)

lemma seek_pass_Some:
  "seek_pass f lns pat from = Some i \<longleftrightarrow>
     from \<le> i \<and> i \<le> length lns - length pat \<and> matches_at f lns pat i
     \<and> (\<forall>j. from \<le> j \<and> j < i \<longrightarrow> \<not> matches_at f lns pat j)"
  by (auto simp: seek_pass_def find_Some_iff_first less_Suc_eq_le simp del: upt_Suc)

lemma seek_pass_None:
  "seek_pass f lns pat from = None \<longleftrightarrow>
     (\<forall>j. from \<le> j \<and> j \<le> length lns - length pat \<longrightarrow> \<not> matches_at f lns pat j)"
  by (simp add: seek_pass_def find_None_iff_all less_Suc_eq_le del: upt_Suc)

lemma normalise_trim: "normalise s = normalise t" if "trim s = trim t"
  using that by (simp add: normalise_def)

lemma trim_of_trim_end: "trim s = trim t" if "trim_end s = trim_end t"
proof -
  have "trim s = trim (trim_end s)" for s
  proof (induction s rule: rev_induct)
    case (snoc c s)
    show ?case
    proof (cases "is_ws c")
      case True
      then have "trim (s @ [c]) = trim s"
        by (cases "\<forall>x\<in>set s. is_ws x")
          (auto simp: trim_def trim_start_def dropWhile_append dropWhile_eq_Nil_conv [THEN iffD2])
      with True snoc show ?thesis by simp
    qed simp
  qed simp
  with that show ?thesis by metis
qed

lemma map_coarser:
  assumes "\<And>a b. f a = f b \<Longrightarrow> g a = g b" and "map f xs = map f ys"
  shows "map g xs = map g ys"
  using assms(2) unfolding map_equality_iff by (blast intro: assms(1))

lemma matches_mono:
  "(\<And>a b. f a = f b \<Longrightarrow> g a = g b) \<Longrightarrow> matches_at f lns pat i \<Longrightarrow> matches_at g lns pat i"
  unfolding matches_at_def by (rule map_coarser)

lemma matches_trim_end: "matches_at id lns pat i \<Longrightarrow> matches_at trim_end lns pat i"
  by (rule matches_mono [where f = id]) simp_all

lemma matches_trim: "matches_at trim_end lns pat i \<Longrightarrow> matches_at trim lns pat i"
  by (rule matches_mono [where f = trim_end]) (rule trim_of_trim_end)

lemma matches_normalise: "matches_at trim lns pat i \<Longrightarrow> matches_at normalise lns pat i"
  by (rule matches_mono [where f = trim]) (rule normalise_trim)

lemmas matches_coarser = matches_trim_end matches_trim matches_normalise

section \<open>The contract of the search\<close>

text \<open>
  The interface the patch applier relies on: a hit lies inside the file, not before the start
  unless the end-of-file flag moved it, and the lines there are the pattern up to normalisation.
\<close>

locale line_seeker =
  fixes seek :: "str list \<Rightarrow> str list \<Rightarrow> nat \<Rightarrow> bool \<Rightarrow> nat option"
  assumes seek_empty: "seek lns [] start eof = Some start"
    and seek_inside: "pat \<noteq> [] \<Longrightarrow> seek lns pat start eof = Some i \<Longrightarrow> i + length pat \<le> length lns"
    and seek_after: "seek lns pat start False = Some i \<Longrightarrow> start \<le> i"
    and seek_matches: "seek lns pat start eof = Some i \<Longrightarrow> matches_at normalise lns pat i"
begin

lemma seek_within:
  assumes "seek lns pat start eof = Some i" and "start \<le> length lns"
  shows "i + length pat \<le> length lns"
  using assms seek_inside seek_empty by (cases "pat = []") auto

lemma seek_singleton:
  assumes "seek lns [l] start eof = Some i"
  shows "i < length lns"
  using seek_inside [OF _ assms] by simp

end

lemma seek_sequence_cases:
  assumes "seek_sequence lns pat start eof = Some i" and "pat \<noteq> []"
  shows "length pat \<le> length lns \<and> i \<le> length lns - length pat
    \<and> (if eof then length lns - length pat else start) \<le> i \<and> matches_at normalise lns pat i"
  using assms matches_coarser
  by (auto simp: seek_sequence_def Let_def seek_pass_Some split: if_splits option.splits)

interpretation seeker: line_seeker seek_sequence
proof
  show "seek_sequence lns [] start eof = Some start" for lns start eof
    by (simp add: seek_sequence_def)
  show "i + length pat \<le> length lns"
    if "pat \<noteq> []" "seek_sequence lns pat start eof = Some i" for pat lns start eof i
    using seek_sequence_cases [OF that(2,1)] by linarith
  show "start \<le> i" if "seek_sequence lns pat start False = Some i" for lns pat start i
    using that seek_sequence_cases [OF that] by (cases "pat = []") (auto simp: seek_sequence_def)
  show "matches_at normalise lns pat i"
    if "seek_sequence lns pat start eof = Some i" for lns pat start eof i
    using seek_sequence_cases [OF that] by (cases "pat = []") (auto simp: matches_at_def)
qed

text \<open>
  The search decides: without the end-of-file flag it fails exactly when the non-empty
  pattern matches, even after trimming and punctuation normalisation, at no position from \<open>start\<close>
  on.
\<close>

lemma seek_sequence_complete:
  "seek_sequence lns pat start False = None \<longleftrightarrow>
     pat \<noteq> [] \<and> (\<forall>i. \<not> (start \<le> i \<and> i + length pat \<le> length lns \<and> matches_at normalise lns pat i))"
proof (cases "pat = [] \<or> length lns < length pat")
  case True
  then show ?thesis by (auto simp: seek_sequence_def)
next
  case False
  then have le: "i \<le> length lns - length pat \<longleftrightarrow> i + length pat \<le> length lns" for i by auto
  show ?thesis
    using False matches_coarser le
    by (auto simp: seek_sequence_def Let_def seek_pass_None split: option.splits)
      (meson seek_pass_Some)+
qed

text \<open>
  Exact matches win: when the pattern occurs verbatim from \<open>start\<close> on, the search returns its
  first verbatim occurrence, whatever looser matches come before it.
\<close>

lemma seek_sequence_exact_first:
  assumes "start \<le> i" and "i + length pat \<le> length lns" and "pat \<noteq> []"
    and "take (length pat) (drop i lns) = pat"
    and "\<And>j. start \<le> j \<Longrightarrow> j < i \<Longrightarrow> take (length pat) (drop j lns) \<noteq> pat"
  shows "seek_sequence lns pat start False = Some i"
proof -
  have "seek_pass id lns pat start = Some i"
    using assms by (auto simp: seek_pass_Some matches_at_def)
  with assms(2,3) show ?thesis by (simp add: seek_sequence_def)
qed

lemma seek_sequence_exact_first_witness:
  "seek_sequence [lit ''a '', lit ''a'', lit ''b''] [lit ''a''] 0 False = Some 1"
proof (rule seek_sequence_exact_first)
  fix j :: nat
  assume "0 \<le> j" "j < 1"
  then show "take (length [lit ''a'']) (drop j [lit ''a '', lit ''a'', lit ''b'']) \<noteq> [lit ''a'']"
    by simp
qed simp_all

text \<open>
  With the end-of-file flag a non-empty pattern is only looked for at the end of the file:
  a hit is always the position where the pattern ends with the last line, and there is no second
  search from \<open>start\<close>.
\<close>

lemma seek_sequence_eof_only_at_end:
  "seek_sequence lns pat start True =
     (if pat = [] then Some start
      else if length pat \<le> length lns \<and> matches_at normalise lns pat (length lns - length pat)
      then Some (length lns - length pat) else None)"
proof -
  have p: "seek_pass f lns pat n = (if matches_at f lns pat n then Some n else None)"
    if "n = length lns - length pat" for f n
    using that by (simp add: seek_pass_def)
  show ?thesis
    using matches_coarser by (auto simp: seek_sequence_def Let_def p)
qed

end
