(* ===== verification/PatchApply.thy ===== *)
theory PatchApply
  imports PatchParser PatchSeek
begin

text \<open>
  \<open>crates/bharatcode-apply-patch/src/apply.rs\<close>, the part that works on file contents:
  \<open>compute_replacements\<close>, \<open>apply_replacements\<close> and \<open>derive_new_contents\<close>.
\<close>

type_synonym replacement = "nat \<times> nat \<times> str list"

definition context_not_found :: "str \<Rightarrow> path \<Rightarrow> str" where
  "context_not_found ctx pth = lit ''Failed to find context '' @ quoted ctx @ lit '' in '' @ pth"

definition lines_not_found :: "path \<Rightarrow> str list \<Rightarrow> str" where
  "lines_not_found pth old =
     lit ''Failed to find expected lines in '' @ pth @ lit '':'' @ [newline] @ join_with [newline] old"

definition ends_blank :: "str list \<Rightarrow> bool" where
  "ends_blank ls = (ls \<noteq> [] \<and> last ls = [])"

text \<open>The first step of the loop body: the context line moves \<open>line_index\<close>.\<close>

definition skip_context ::
    "str list \<Rightarrow> path \<Rightarrow> str option \<Rightarrow> nat \<Rightarrow> (str, nat) result" where
  "skip_context orig pth ctx li = (case ctx of
     None \<Rightarrow> Ok li
   | Some l \<Rightarrow> (case seek_sequence orig [l] li False of
       Some i \<Rightarrow> Ok (i + 1)
     | None \<Rightarrow> Err (context_not_found l pth)))"

definition insertion_index :: "str list \<Rightarrow> nat" where
  "insertion_index orig = (if ends_blank orig then length orig - 1 else length orig)"

text \<open>
  The search for the old lines, retried without the final blank line of the pattern (and of the
  replacement): the position, the pattern used and the new lines used.
\<close>

definition locate_old_lines ::
    "str list \<Rightarrow> update_file_chunk \<Rightarrow> nat \<Rightarrow> (nat \<times> str list \<times> str list) option" where
  "locate_old_lines orig c li =
     (case seek_sequence orig (old_lines c) li (is_end_of_file c) of
        Some i \<Rightarrow> Some (i, old_lines c, new_lines c)
      | None \<Rightarrow>
          if ends_blank (old_lines c) then
            (let pat = butlast (old_lines c);
                 new = (if ends_blank (new_lines c) then butlast (new_lines c) else new_lines c)
             in map_option (\<lambda>i. (i, pat, new)) (seek_sequence orig pat li (is_end_of_file c)))
          else None)"

text \<open>One chunk: the replacement it schedules and the next \<open>line_index\<close>.\<close>

definition chunk_replacement ::
    "str list \<Rightarrow> path \<Rightarrow> update_file_chunk \<Rightarrow> nat \<Rightarrow> (str, replacement \<times> nat) result" where
  "chunk_replacement orig pth c li = (case skip_context orig pth (change_context c) li of
     Err e \<Rightarrow> Err e
   | Ok li1 \<Rightarrow>
       if old_lines c = [] then Ok ((insertion_index orig, 0, new_lines c), li1)
       else (case locate_old_lines orig c li1 of
           Some (i, pat, new) \<Rightarrow> Ok ((i, length pat, new), i + length pat)
         | None \<Rightarrow> Err (lines_not_found pth (old_lines c))))"

fun collect_replacements ::
    "str list \<Rightarrow> path \<Rightarrow> update_file_chunk list \<Rightarrow> nat \<Rightarrow> (str, replacement list) result" where
  "collect_replacements orig pth [] li = Ok []"
| "collect_replacements orig pth (c # cs) li = (case chunk_replacement orig pth c li of
     Err e \<Rightarrow> Err e
   | Ok (r, li') \<Rightarrow> (case collect_replacements orig pth cs li' of
       Err e \<Rightarrow> Err e
     | Ok rs \<Rightarrow> Ok (r # rs)))"

text \<open>\<open>sort_by_key\<close> is a stable sort on the start index.\<close>

definition compute_replacements ::
    "str list \<Rightarrow> path \<Rightarrow> update_file_chunk list \<Rightarrow> (str, replacement list) result" where
  "compute_replacements orig pth cs = (case collect_replacements orig pth cs 0 of
     Err e \<Rightarrow> Err e
   | Ok rs \<Rightarrow> Ok (sort_key fst rs))"

text \<open>\<open>Vec::remove\<close>, guarded by \<open>start_idx < lines.len()\<close> as in the source.\<close>

definition remove_line :: "nat \<Rightarrow> str list \<Rightarrow> str list" where
  "remove_line i ls = (if i < length ls then take i ls @ drop (Suc i) ls else ls)"

text \<open>\<open>Vec::insert\<close>: it panics when the index is past the end, here \<open>None\<close>.\<close>

fun insert_lines :: "nat \<Rightarrow> str list \<Rightarrow> str list \<Rightarrow> str list option" where
  "insert_lines i [] ls = Some ls"
| "insert_lines i (n # ns) ls =
     (if i \<le> length ls then insert_lines (Suc i) ns (take i ls @ n # drop i ls) else None)"

definition apply_replacement :: "str list \<Rightarrow> replacement \<Rightarrow> str list option" where
  "apply_replacement ls r = (case r of (i, n, new) \<Rightarrow> insert_lines i new ((remove_line i ^^ n) ls))"

fun apply_rev :: "str list \<Rightarrow> replacement list \<Rightarrow> str list option" where
  "apply_rev ls [] = Some ls"
| "apply_rev ls (r # rs) = (case apply_replacement ls r of None \<Rightarrow> None | Some ls' \<Rightarrow> apply_rev ls' rs)"

definition apply_replacements :: "str list \<Rightarrow> replacement list \<Rightarrow> str list option" where
  "apply_replacements ls rs = apply_rev ls (rev rs)"

text \<open>The lines of the original, without the empty piece after its final line feed.\<close>

definition original_lines :: "str \<Rightarrow> str list" where
  "original_lines s = (let ls = split_on newline s in if last ls = [] then butlast ls else ls)"

datatype derive_outcome = Derived str | ComputeFailed str | Panicked

definition derive_new_contents :: "str \<Rightarrow> path \<Rightarrow> update_file_chunk list \<Rightarrow> derive_outcome" where
  "derive_new_contents s pth cs =
     (case compute_replacements (original_lines s) pth cs of
        Err e \<Rightarrow> ComputeFailed e
      | Ok rs \<Rightarrow> (case apply_replacements (original_lines s) rs of
          None \<Rightarrow> Panicked
        | Some ls \<Rightarrow> Derived (join_with [newline] (if ends_blank ls then ls else ls @ [[]]))))"

section \<open>One replacement is a splice\<close>

definition splice :: "nat \<Rightarrow> nat \<Rightarrow> str list \<Rightarrow> str list \<Rightarrow> str list" where
  "splice i n new ls = take i ls @ new @ drop (i + n) ls"

lemma remove_lines: "i \<le> length ls \<Longrightarrow> (remove_line i ^^ n) ls = take i ls @ drop (i + n) ls"
proof (induction n arbitrary: ls)
  case (Suc n)
  have u: "(remove_line i ^^ Suc n) ls = (remove_line i ^^ n) (remove_line i ls)"
    by (simp add: funpow_swap1)
  show ?case
  proof (cases "i < length ls")
    case True
    then have rl: "remove_line i ls = take i ls @ drop (Suc i) ls"
      by (simp add: remove_line_def)
    have "(remove_line i ^^ n) (take i ls @ drop (Suc i) ls) = take i ls @ drop (Suc (i + n)) ls"
      using Suc.IH [of "take i ls @ drop (Suc i) ls"] True by (simp add: add.commute)
    then show ?thesis unfolding u rl by (simp only: add_Suc_right)
  next
    case False
    with Suc.prems Suc.IH [of ls] u show ?thesis by (simp add: remove_line_def)
  qed
qed simp

lemma insert_lines_ok:
  "i \<le> length ls \<Longrightarrow> insert_lines i new ls = Some (take i ls @ new @ drop i ls)"
proof (induction new arbitrary: i ls)
  case (Cons n ns)
  then show ?case by simp
qed simp

lemma apply_replacement_splice:
  "i \<le> length ls \<Longrightarrow> apply_replacement ls (i, n, new) = Some (splice i n new ls)"
  by (simp add: apply_replacement_def remove_lines insert_lines_ok splice_def)

section \<open>Scheduled replacements lie in the file\<close>

definition replacement_inside :: "nat \<Rightarrow> replacement \<Rightarrow> bool" where
  "replacement_inside len r = (fst r + fst (snd r) \<le> len)"

lemma replacement_inside_simp [simp]: "replacement_inside len (i, n, new) \<longleftrightarrow> i + n \<le> len"
  by (simp add: replacement_inside_def)

lemma skip_context_bounds:
  assumes "skip_context orig pth ctx li = Ok li'" and "li \<le> length orig"
  shows "li \<le> li' \<and> li' \<le> length orig"
  using assms seeker.seek_singleton seeker.seek_after
  by (fastforce simp: skip_context_def split: option.splits)

lemma locate_old_lines_bounds:
  assumes "locate_old_lines orig c li = Some (i, pat, new)" and "li \<le> length orig"
  shows "i + length pat \<le> length orig \<and> (\<not> is_end_of_file c \<longrightarrow> li \<le> i)
    \<and> matches_at normalise orig pat i"
  using assms seeker.seek_within [of orig _ li _ i] seeker.seek_after [of orig _ li i]
    seeker.seek_matches [of orig _ li _ i]
  by (auto simp: locate_old_lines_def Let_def split: option.splits if_splits)

lemma chunk_replacement_bounds:
  assumes "chunk_replacement orig pth c li = Ok (r, li')" and "li \<le> length orig"
  shows "replacement_inside (length orig) r \<and> li' \<le> length orig"
  using assms
  by (auto simp: chunk_replacement_def replacement_inside_def insertion_index_def
      split: sum.splits if_splits option.splits dest: skip_context_bounds locate_old_lines_bounds)

lemma collect_replacements_bounds:
  assumes "collect_replacements orig pth cs li = Ok rs" and "li \<le> length orig"
  shows "list_all (replacement_inside (length orig)) rs"
  using assms
proof (induction cs arbitrary: li rs)
  case (Cons c cs)
  then obtain r li' rs' where "chunk_replacement orig pth c li = Ok (r, li')"
      and "collect_replacements orig pth cs li' = Ok rs'" and "rs = r # rs'"
    by (auto split: sum.splits)
  with Cons.IH [of li' rs'] Cons.prems(2) chunk_replacement_bounds show ?case by fastforce
qed simp

lemma compute_replacements_bounds:
  assumes "compute_replacements orig pth cs = Ok rs"
  shows "list_all (replacement_inside (length orig)) rs \<and> sorted (map fst rs)"
  using assms collect_replacements_bounds [of orig pth cs 0]
  by (auto simp: compute_replacements_def list_all_iff split: sum.splits)

section \<open>No panic\<close>

lemma apply_rev_total:
  assumes "list_all (\<lambda>r. fst r \<le> length ls) rs" and "sorted_wrt (\<lambda>a b. fst b \<le> fst a) rs"
  shows "\<exists>ls'. apply_rev ls rs = Some ls'"
  using assms
proof (induction rs arbitrary: ls)
  case (Cons r rs)
  obtain i n new where r: "r = (i, n, new)" by (cases r)
  have i: "i \<le> length ls" using Cons.prems(1) r by simp
  have "list_all (\<lambda>r. fst r \<le> length (splice i n new ls)) rs"
    using Cons.prems(2) i r by (fastforce simp: list_all_iff splice_def)
  with Cons.IH Cons.prems(2) i show ?case by (simp add: r apply_replacement_splice)
qed simp

lemma sorted_rev_desc: "sorted (map fst rs) \<Longrightarrow> sorted_wrt (\<lambda>a b. fst b \<le> fst a) (rev rs)"
  by (simp add: sorted_wrt_rev sorted_map)

text \<open>
  Applying a patch never panics: the indices \<open>compute_replacements\<close> returns are sorted and lie
  in the file, so no \<open>Vec::insert\<close> of \<open>apply_replacements\<close> is past the end, even where end-of-file
  chunks make two replacements overlap.
\<close>

lemma derive_new_contents_no_panic: "derive_new_contents s pth cs \<noteq> Panicked"
proof -
  have "apply_replacements (original_lines s) rs \<noteq> None"
    if "compute_replacements (original_lines s) pth cs = Ok rs" for rs
  proof -
    have "list_all (\<lambda>r. fst r \<le> length (original_lines s)) (rev rs)"
      using compute_replacements_bounds [OF that] by (auto simp: list_all_iff replacement_inside_def)
    with apply_rev_total [OF this sorted_rev_desc] compute_replacements_bounds [OF that]
    show ?thesis by (auto simp: apply_replacements_def)
  qed
  then show ?thesis by (auto simp: derive_new_contents_def split: sum.splits option.splits)
qed


section \<open>Replacements as one simultaneous substitution\<close>

text \<open>
  The specification: read the original once from left to right, copying what lies between the
  replaced regions.
\<close>

fun patch_lines :: "nat \<Rightarrow> str list \<Rightarrow> replacement list \<Rightarrow> str list" where
  "patch_lines k orig [] = drop k orig"
| "patch_lines k orig ((i, n, new) # rs) = take (i - k) (drop k orig) @ new @ patch_lines (i + n) orig rs"

fun disjoint_from :: "nat \<Rightarrow> replacement list \<Rightarrow> bool" where
  "disjoint_from k [] = True"
| "disjoint_from k ((i, n, new) # rs) = (k \<le> i \<and> disjoint_from (i + n) rs)"

lemma apply_rev_append:
  "apply_rev ls (xs @ ys) = (case apply_rev ls xs of None \<Rightarrow> None | Some ls' \<Rightarrow> apply_rev ls' ys)"
  by (induction xs arbitrary: ls) (auto split: option.splits)

lemma apply_replacements_forward:
  assumes "disjoint_from k rs" and "list_all (replacement_inside (length orig)) rs"
    and "k \<le> length orig"
  shows "apply_replacements orig rs = Some (take k orig @ patch_lines k orig rs)"
  using assms
proof (induction k orig rs rule: patch_lines.induct)
  case (1 k orig)
  then show ?case by (simp add: apply_replacements_def)
next
  case (2 k orig i n new rs)
  define tl where "tl = take (i + n) orig @ patch_lines (i + n) orig rs"
  have bounds: "k \<le> i" "i + n \<le> length orig" and d: "disjoint_from (i + n) rs"
    and ins: "list_all (replacement_inside (length orig)) rs"
    using "2.prems" by simp_all
  have "apply_replacements orig rs = Some tl"
    unfolding tl_def using d ins bounds(2) by (rule "2.IH")
  then have "apply_replacements orig ((i, n, new) # rs) = Some (splice i n new tl)"
    using bounds by (simp add: apply_replacements_def apply_rev_append tl_def
        apply_replacement_splice split: option.splits)
  moreover have "splice i n new tl = take i orig @ new @ patch_lines (i + n) orig rs"
    using bounds by (simp add: splice_def tl_def)
  moreover have "take i orig = take k orig @ take (i - k) (drop k orig)"
    using bounds by (metis le_add_diff_inverse take_add)
  ultimately show ?case by simp
qed

text \<open>What the replacement of a chunk is: a region that reads as its old lines up to
  normalisation (perhaps without their final blank line), and its new lines.\<close>

definition replaces :: "str list \<Rightarrow> update_file_chunk \<Rightarrow> replacement \<Rightarrow> bool" where
  "replaces orig c r = (case r of (i, n, new) \<Rightarrow>
     (n = length (old_lines c) \<and> new = new_lines c \<and> matches_at normalise orig (old_lines c) i)
     \<or> (ends_blank (old_lines c) \<and> n = length (old_lines c) - 1
        \<and> matches_at normalise orig (butlast (old_lines c)) i
        \<and> new = (if ends_blank (new_lines c) then butlast (new_lines c) else new_lines c)))"

lemma chunk_replacement_in_place:
  assumes "chunk_replacement orig pth c li = Ok ((i, n, new), li')" and "li \<le> length orig"
    and "old_lines c \<noteq> []" and "\<not> is_end_of_file c"
  shows "li \<le> i \<and> li' = i + n \<and> i + n \<le> length orig \<and> replaces orig c (i, n, new)"
proof -
  obtain li1 pat where sk: "skip_context orig pth (change_context c) li = Ok li1"
    and lo: "locate_old_lines orig c li1 = Some (i, pat, new)" and n: "n = length pat" "li' = i + n"
    using assms(1,3) by (auto simp: chunk_replacement_def split: sum.splits option.splits)
  have "li \<le> li1" "li1 \<le> length orig"
    using skip_context_bounds [OF sk assms(2)] by simp_all
  with locate_old_lines_bounds [OF lo] assms(4) n
  have "li \<le> i" "i + n \<le> length orig" "matches_at normalise orig pat i" by auto
  moreover have "(pat, new) = (old_lines c, new_lines c) \<or> ends_blank (old_lines c) \<and> pat = butlast (old_lines c)
      \<and> new = (if ends_blank (new_lines c) then butlast (new_lines c) else new_lines c)"
    using lo by (auto simp: locate_old_lines_def Let_def split: option.splits if_splits)
  ultimately show ?thesis using n by (auto simp: replaces_def)
qed

lemma collect_replacements_disjoint:
  assumes "collect_replacements orig pth cs li = Ok rs" and "li \<le> length orig"
    and "\<forall>c \<in> set cs. old_lines c \<noteq> [] \<and> \<not> is_end_of_file c"
  shows "disjoint_from li rs \<and> list_all2 (replaces orig) cs rs"
  using assms
proof (induction cs arbitrary: li rs)
  case (Cons c cs)
  obtain i n new li' rs' where r: "chunk_replacement orig pth c li = Ok ((i, n, new), li')"
      and rs': "collect_replacements orig pth cs li' = Ok rs'" "rs = (i, n, new) # rs'"
    using Cons.prems(1) by (auto split: sum.splits)
  have "li \<le> i \<and> li' = i + n \<and> i + n \<le> length orig \<and> replaces orig c (i, n, new)"
    using chunk_replacement_in_place [OF r Cons.prems(2)] Cons.prems(3) by simp
  with Cons.IH [OF rs'(1)] Cons.prems(3) rs'(2) show ?case by simp
qed simp

lemma disjoint_from_sorted: "disjoint_from k rs \<Longrightarrow> sorted (map fst rs) \<and> (\<forall>r \<in> set rs. k \<le> fst r)"
  by (induction k rs rule: disjoint_from.induct) fastforce+

text \<open>
  C25. Where every chunk has old lines and none carries the end-of-file flag, the in-place edits of
  \<open>apply_replacements\<close>, made from the last to the first, are one simultaneous substitution: the
  regions are disjoint, one per chunk in order, each reads as the old lines of its chunk up to
  normalisation, and every line outside them is kept in place.
\<close>

theorem apply_replacements_simultaneous:
  assumes "compute_replacements orig pth cs = Ok rs"
    and "\<forall>c \<in> set cs. old_lines c \<noteq> [] \<and> \<not> is_end_of_file c"
  shows "disjoint_from 0 rs \<and> list_all2 (replaces orig) cs rs
    \<and> apply_replacements orig rs = Some (patch_lines 0 orig rs)"
proof -
  obtain rs' where rs': "collect_replacements orig pth cs 0 = Ok rs'" "rs = sort_key fst rs'"
    using assms(1) by (auto simp: compute_replacements_def split: sum.splits)
  have d: "disjoint_from 0 rs' \<and> list_all2 (replaces orig) cs rs'"
    using collect_replacements_disjoint [OF rs'(1) _ assms(2)] by simp
  then have "rs = rs'"
    using disjoint_from_sorted [of 0 rs'] rs'(2) by (simp add: sort_key_id_if_sorted)
  then show ?thesis
    using d apply_replacements_forward [of 0 rs orig] compute_replacements_bounds [OF assms(1)]
    by simp
qed

text \<open>
  The new contents are empty or end with a line feed.
\<close>

lemma derive_new_contents_final_newline:
  assumes "derive_new_contents s pth cs = Derived t"
  shows "t = [] \<or> last t = newline"
proof -
  obtain ls where t: "t = join_with [newline] (if ends_blank ls then ls else ls @ [[]])"
    using assms by (auto simp: derive_new_contents_def split: sum.splits option.splits)
  obtain xs where "(if ends_blank ls then ls else ls @ [[]]) = xs @ [[]]"
    by (metis append_butlast_last_id ends_blank_def)
  with t have "t = concat (map (\<lambda>l. l @ [newline]) xs)"
    by (simp add: join_with_concat)
  then show ?thesis by (cases xs rule: rev_cases) auto
qed

lemma last_piece:
  obtains ls l where "split_on newline s = ls @ [l]" and "newline \<notin> set l"
    and "s = concat (map (\<lambda>l. l @ [newline]) ls) @ l"
proof -
  obtain ls l where ls: "split_on newline s = ls @ [l]"
    by (metis append_butlast_last_id split_on_nonempty)
  moreover have "newline \<notin> set l"
    using split_on_pieces [of l newline s] by (simp add: ls)
  moreover have "s = concat (map (\<lambda>l. l @ [newline]) ls) @ l"
    using join_split_on [of newline s] by (simp add: ls join_with_concat)
  ultimately show ?thesis by (rule that)
qed

definition derived_text :: "str list \<Rightarrow> str" where
  "derived_text ls = join_with [newline] (if ends_blank ls then ls else ls @ [[]])"

lemma derive_no_chunks: "derive_new_contents s pth [] = Derived (derived_text (original_lines s))"
  by (simp add: derive_new_contents_def compute_replacements_def apply_replacements_def derived_text_def)

lemma derived_text_snoc:
  "derived_text (ls @ [l]) = concat (map (\<lambda>l. l @ [newline]) ls) @ (if l = [] then [] else l @ [newline])"
proof (cases "l = []")
  case True
  then show ?thesis by (simp add: derived_text_def ends_blank_def join_with_concat)
next
  case False
  then show ?thesis
    using join_with_concat [of newline "ls @ [l]" "[]"] by (simp add: derived_text_def ends_blank_def)
qed

text \<open>
  A patch with no chunk only touches the end of the file. It adds the final line feed where
  one is missing, and it drops one where the file ends with a blank line: the split loses the
  empty piece after the last line feed, and the blank line before it is then taken for that piece.
\<close>

lemma derive_new_contents_no_chunks:
  "derive_new_contents s pth [] = Derived
     (if s = [newline] \<or> ends_with s [newline, newline] then butlast s
      else if s = [] \<or> last s = newline then s else s @ [newline])"
proof (rule last_piece [of s])
  fix ls l
  assume ls: "split_on newline s = ls @ [l]" and nl: "newline \<notin> set l"
    and s: "s = concat (map (\<lambda>l. l @ [newline]) ls) @ l"
  show ?thesis
  proof (cases "l = []")
    case False
    then have "s \<noteq> [] \<and> last s \<noteq> newline" using s nl by auto (metis last_in_set)
    moreover from this have "\<not> ends_with s [newline, newline]" and "s \<noteq> [newline]"
      by (auto simp: ends_with_iff suffix_def)
    moreover have "derived_text (original_lines s) = s @ [newline]"
      using False ls s by (simp add: original_lines_def Let_def derived_text_snoc)
    ultimately show ?thesis by (simp add: derive_no_chunks)
  next
    case l: True
    show ?thesis
    proof (cases ls rule: rev_cases)
      case Nil
      with l ls s show ?thesis
        by (simp add: derive_no_chunks original_lines_def derived_text_def ends_blank_def ends_with_iff)
    next
      case (snoc ys y)
      with l ls have o: "original_lines s = ys @ [y]"
        by (simp add: original_lines_def butlast_append)
      have y: "newline \<notin> set y"
        using split_on_pieces [of y newline s] ls snoc by simp
      have s': "s = concat (map (\<lambda>l. l @ [newline]) ys) @ y @ [newline]"
        using s l snoc by simp
      have e: "s = [newline] \<or> ends_with s [newline, newline] \<longleftrightarrow> y = []"
        using s' y by (cases ys rule: rev_cases; cases y rule: rev_cases)
          (auto simp: ends_with_iff suffix_def)
      show ?thesis
        unfolding derive_no_chunks o derived_text_snoc e using s' by (auto simp: butlast_append)
    qed
  qed
qed

section \<open>A sample, and an update that is lost\<close>

definition sample_chunks :: "update_file_chunk list" where
  "sample_chunks = [\<lparr>change_context = None, old_lines = [lit ''b''], new_lines = [lit ''c''],
     is_end_of_file = False\<rparr>]"

definition sample_file :: str where "sample_file = lit ''a'' @ [newline] @ lit ''b''"
definition sample_result :: str where
  "sample_result = lit ''a'' @ [newline] @ lit ''c'' @ [newline]"

lemmas seek_eval = seek_sequence_def seek_pass_def matches_at_def is_ws_def trim_end_def trim_def
  trim_start_def normalise_def normalise_char_def upt_rec Let_def

lemmas chunk_eval = chunk_replacement_def locate_old_lines_def skip_context_def ends_blank_def
  original_lines_def insertion_index_def

lemmas replace_eval = apply_replacements_def apply_replacement_def remove_line_def ends_blank_def

lemma sample_compute:
  "compute_replacements (original_lines sample_file) pth sample_chunks = Ok [(1, 1, [lit ''c''])]"
  by (simp add: compute_replacements_def sample_file_def sample_chunks_def chunk_eval seek_eval)

lemma sample_derived: "derive_new_contents sample_file pth sample_chunks = Derived sample_result"
  unfolding derive_new_contents_def sample_compute
  by (simp add: sample_file_def sample_result_def original_lines_def Let_def replace_eval)

theorem apply_replacements_simultaneous_witness:
  "compute_replacements (original_lines sample_file) (lit ''f'') sample_chunks = Ok [(1, 1, [lit ''c''])]
   \<and> apply_replacements (original_lines sample_file) [(1, 1, [lit ''c''])]
     = Some (patch_lines 0 (original_lines sample_file) [(1, 1, [lit ''c''])])"
  using apply_replacements_simultaneous [OF sample_compute [of "lit ''f''"]] sample_compute
  by (simp add: sample_chunks_def)

lemma derive_new_contents_final_newline_witness:
  "derive_new_contents sample_file (lit ''f'') sample_chunks = Derived sample_result
   \<and> last sample_result = newline"
  using derive_new_contents_final_newline [OF sample_derived [of "lit ''f''"]] sample_derived
  by (simp add: sample_result_def)

text \<open>
  Two chunks whose replacements overlap: the file ends with a blank line, the first chunk replaces
  its last two lines, the second adds a line at the end. The insertion point computed for the second
  chunk lies inside the region of the first, whose removal then takes the added line away.
\<close>

definition overlapping_chunks :: "update_file_chunk list" where
  "overlapping_chunks =
     [\<lparr>change_context = None, old_lines = [lit ''x'', []], new_lines = [lit ''y''], is_end_of_file = False\<rparr>,
      \<lparr>change_context = None, old_lines = [], new_lines = [lit ''added''], is_end_of_file = False\<rparr>]"

lemma overlapping_addition_lost:
  "derive_new_contents (lit ''x'' @ [newline, newline]) pth overlapping_chunks
     = Derived (lit ''y'' @ [newline])"
proof -
  have "original_lines (lit ''x'' @ [newline, newline]) = [lit ''x'', []]"
    by (simp add: original_lines_def)
  moreover have "compute_replacements [lit ''x'', []] pth overlapping_chunks
      = Ok [(0, 2, [lit ''y'']), (1, 0, [lit ''added''])]"
    by (simp add: compute_replacements_def overlapping_chunks_def chunk_eval seek_eval)
  moreover have "apply_replacements [lit ''x'', []] [(0, 2, [lit ''y'']), (1, 0, [lit ''added''])]
      = Some [lit ''y'', []]"
    by (simp add: replace_eval numeral_2_eq_2)
  ultimately show ?thesis by (simp add: derive_new_contents_def ends_blank_def)
qed

end
