(* ===== verification/PatchDisk.thy ===== *)
theory PatchDisk
  imports PatchApply
begin

text \<open>
  \<open>crates/bharatcode-apply-patch/src/apply.rs\<close>, the part that works on the disk:
  \<open>apply_hunks_to_disk\<close>, \<open>resolve\<close>, \<open>create_parent_dirs\<close>, \<open>apply_patch_to_disk\<close> and the
  summary. The operating system behind \<open>std::fs\<close> is a parameter: a record of operations over
  a state \<open>'w\<close>. What the code relies on is stated as the locale \<open>disk_laws\<close>, and an
  in-memory file system is its instance. Paths are split into components as \<open>std::path\<close> does
  (the equality the code uses in \<open>dest != src\<close> compares components).
\<close>

section \<open>Paths\<close>

record fpath =
  absolute :: bool
  comps :: "str list"

definition parse_path :: "str \<Rightarrow> fpath" where
  "parse_path s = (let a = starts_with s (lit ''/'');
       ps = filter (\<lambda>c. c \<noteq> []) (split_on 47 s)
     in \<lparr>absolute = a, comps = (case ps of [] \<Rightarrow> []
          | p # r \<Rightarrow> (if p = lit ''.'' \<and> a then [] else [p]) @ filter (\<lambda>c. c \<noteq> lit ''.'') r)\<rparr>)"

text \<open>\<open>Path::join\<close> of a relative path, and \<open>resolve\<close>.\<close>

definition join_path :: "fpath \<Rightarrow> fpath \<Rightarrow> fpath" where
  "join_path cwd p =
     (if \<not> absolute cwd \<and> comps cwd = [] then p
      else cwd\<lparr>comps := comps cwd @ filter (\<lambda>c. c \<noteq> lit ''.'') (comps p)\<rparr>)"

definition resolve :: "fpath \<Rightarrow> path \<Rightarrow> fpath" where
  "resolve cwd s = (let p = parse_path s in if absolute p then p else join_path cwd p)"

definition parent_path :: "fpath \<Rightarrow> fpath option" where
  "parent_path p = (if comps p = [] then None else Some (p\<lparr>comps := butlast (comps p)\<rparr>))"

definition empty_path :: "fpath \<Rightarrow> bool" where
  "empty_path p = (\<not> absolute p \<and> comps p = [])"

section \<open>The file system interface\<close>

type_synonym io_error = str

record 'w disk_ops =
  read_to_string :: "'w \<Rightarrow> fpath \<Rightarrow> (io_error, str) result"
  write_file :: "'w \<Rightarrow> fpath \<Rightarrow> str \<Rightarrow> 'w \<times> io_error option"
  remove_file :: "'w \<Rightarrow> fpath \<Rightarrow> 'w \<times> io_error option"
  path_exists :: "'w \<Rightarrow> fpath \<Rightarrow> bool"
  create_dir_all :: "'w \<Rightarrow> fpath \<Rightarrow> 'w \<times> io_error option"

datatype io_context = CtxWrite | CtxDelete | CtxRead | CtxRemoveOriginal | CtxCreateParents

datatype apply_patch_error =
    ParseFailed parse_error
  | IoFailed io_context fpath io_error
  | ComputeReplacements str
  | ApplyPanic

record apply_summary =
  added :: "path list"
  modified :: "path list"
  deleted :: "path list"

definition empty_summary :: apply_summary where
  "empty_summary = \<lparr>added = [], modified = [], deleted = []\<rparr>"

definition render_summary :: "apply_summary \<Rightarrow> str" where
  "render_summary s = lit ''Success. Updated the following files:'' @ [newline]
     @ concat (map (\<lambda>p. lit ''A '' @ p @ [newline]) (added s))
     @ concat (map (\<lambda>p. lit ''M '' @ p @ [newline]) (modified s))
     @ concat (map (\<lambda>p. lit ''D '' @ p @ [newline]) (deleted s))"

section \<open>Applying hunks\<close>

type_synonym 'w step = "'w \<times> apply_patch_error option"

text \<open>The \<open>?\<close> operator between two effects.\<close>

definition then_do :: "'w step \<Rightarrow> ('w \<Rightarrow> 'w step) \<Rightarrow> 'w step" where
  "then_do r f = (case r of (w, Some e) \<Rightarrow> (w, Some e) | (w, None) \<Rightarrow> f w)"

definition io :: "io_context \<Rightarrow> fpath \<Rightarrow> 'w \<times> io_error option \<Rightarrow> 'w step" where
  "io ctx p r = (fst r, map_option (IoFailed ctx p) (snd r))"

definition create_parent_dirs :: "'w disk_ops \<Rightarrow> fpath \<Rightarrow> 'w \<Rightarrow> 'w step" where
  "create_parent_dirs ops p w = (case parent_path p of
     None \<Rightarrow> (w, None)
   | Some d \<Rightarrow>
       if \<not> empty_path d \<and> \<not> path_exists ops w d
       then io CtxCreateParents p (create_dir_all ops w d)
       else (w, None))"

definition write_with_parents :: "'w disk_ops \<Rightarrow> fpath \<Rightarrow> str \<Rightarrow> 'w \<Rightarrow> 'w step" where
  "write_with_parents ops p t w =
     then_do (create_parent_dirs ops p w) (\<lambda>w. io CtxWrite p (write_file ops w p t))"

definition apply_update ::
    "'w disk_ops \<Rightarrow> fpath \<Rightarrow> path \<Rightarrow> path option \<Rightarrow> update_file_chunk list \<Rightarrow> 'w \<Rightarrow> 'w step" where
  "apply_update ops cwd p mv cs w = (let src = resolve cwd p in
     (case read_to_string ops w src of
        Err e \<Rightarrow> (w, Some (IoFailed CtxRead src e))
      | Ok original \<Rightarrow>
         (case derive_new_contents original p cs of
            ComputeFailed m \<Rightarrow> (w, Some (ComputeReplacements m))
          | Panicked \<Rightarrow> (w, Some ApplyPanic)
          | Derived t \<Rightarrow>
             (case mv of
                Some q \<Rightarrow> (let dest = resolve cwd q in
                  then_do (write_with_parents ops dest t w)
                    (\<lambda>w. if dest \<noteq> src then io CtxRemoveOriginal src (remove_file ops w src) else (w, None)))
              | None \<Rightarrow> io CtxWrite src (write_file ops w src t)))))"

definition apply_hunk :: "'w disk_ops \<Rightarrow> fpath \<Rightarrow> hunk \<Rightarrow> 'w \<Rightarrow> 'w step" where
  "apply_hunk ops cwd h w = (case h of
     AddFile p t \<Rightarrow> write_with_parents ops (resolve cwd p) t w
   | DeleteFile p \<Rightarrow> io CtxDelete (resolve cwd p) (remove_file ops w (resolve cwd p))
   | UpdateFile p mv cs \<Rightarrow> apply_update ops cwd p mv cs w)"

definition summarise :: "hunk \<Rightarrow> apply_summary \<Rightarrow> apply_summary" where
  "summarise h s = (case h of
     AddFile p _ \<Rightarrow> s\<lparr>added := added s @ [p]\<rparr>
   | DeleteFile p \<Rightarrow> s\<lparr>deleted := deleted s @ [p]\<rparr>
   | UpdateFile p mv _ \<Rightarrow> s\<lparr>modified := modified s @ [case mv of Some q \<Rightarrow> q | None \<Rightarrow> p]\<rparr>)"

fun apply_hunks ::
    "'w disk_ops \<Rightarrow> fpath \<Rightarrow> hunk list \<Rightarrow> apply_summary \<Rightarrow> 'w \<Rightarrow> 'w \<times> (apply_patch_error, apply_summary) result" where
  "apply_hunks ops cwd [] s w = (w, Ok s)"
| "apply_hunks ops cwd (h # hs) s w = (case apply_hunk ops cwd h w of
     (w', Some e) \<Rightarrow> (w', Err e)
   | (w', None) \<Rightarrow> apply_hunks ops cwd hs (summarise h s) w')"

definition apply_hunks_to_disk ::
    "'w disk_ops \<Rightarrow> hunk list \<Rightarrow> fpath \<Rightarrow> 'w \<Rightarrow> 'w \<times> (apply_patch_error, apply_summary) result" where
  "apply_hunks_to_disk ops hs cwd w = apply_hunks ops cwd hs empty_summary w"

definition apply_patch_to_disk ::
    "'w disk_ops \<Rightarrow> str \<Rightarrow> fpath \<Rightarrow> 'w \<Rightarrow> 'w \<times> (apply_patch_error, apply_summary) result" where
  "apply_patch_to_disk ops patch cwd w = (case parse_patch patch of
     Err e \<Rightarrow> (w, Err (ParseFailed e))
   | Ok args \<Rightarrow> apply_hunks_to_disk ops (patch_hunks args) cwd w)"

section \<open>What the code relies on\<close>

text \<open>
  Two paths may name one file (\<open>a\<close> and \<open>b/../a\<close>, a link): \<open>canon\<close> maps a path to the file it names.
  \<open>keeps_files\<close>: no file outside \<open>ps\<close> changes its text or disappears. \<open>touched\<close>: the paths a hunk
  may write.
\<close>

definition keeps_files :: "'w disk_ops \<Rightarrow> (fpath \<Rightarrow> 'f) \<Rightarrow> fpath set \<Rightarrow> 'w \<Rightarrow> 'w \<Rightarrow> bool" where
  "keeps_files ops canon ps w w' =
     (\<forall>q t. canon q \<notin> canon ` ps \<longrightarrow> read_to_string ops w q = Ok t \<longrightarrow> read_to_string ops w' q = Ok t)"

definition touched :: "fpath \<Rightarrow> hunk \<Rightarrow> fpath set" where
  "touched cwd h = (case h of
     AddFile p _ \<Rightarrow> {resolve cwd p}
   | DeleteFile p \<Rightarrow> {resolve cwd p}
   | UpdateFile p mv _ \<Rightarrow> insert (resolve cwd p) (set_option (map_option (resolve cwd) mv)))"

text \<open>
  The documented behaviour of \<open>std::fs\<close> for the calls above: a successful write can be read back,
  a successful removal leaves no file, and no call changes the text of a file it was not given.
  A failed call may leave anything at its own path.
\<close>

locale disk_laws =
  fixes ops :: "'w disk_ops" and canon :: "fpath \<Rightarrow> 'f"
  assumes write_read: "write_file ops w p t = (w', None) \<Longrightarrow> read_to_string ops w' p = Ok t"
    and write_frame: "write_file ops w p t = (w', r) \<Longrightarrow> canon q \<noteq> canon p \<Longrightarrow>
      read_to_string ops w' q = read_to_string ops w q"
    and remove_gone: "remove_file ops w p = (w', None) \<Longrightarrow> canon q = canon p \<Longrightarrow>
      \<not> is_ok (read_to_string ops w' q)"
    and remove_frame: "remove_file ops w p = (w', r) \<Longrightarrow> canon q \<noteq> canon p \<Longrightarrow>
      read_to_string ops w' q = read_to_string ops w q"
    and mkdir_frame: "create_dir_all ops w p = (w', r) \<Longrightarrow> is_ok (read_to_string ops w q) \<Longrightarrow>
      read_to_string ops w' q = read_to_string ops w q"
begin

lemma keeps_refl: "keeps_files ops canon ps w w"
  by (simp add: keeps_files_def)

lemma keeps_trans: "keeps_files ops canon ps w w' \<Longrightarrow> keeps_files ops canon qs w' w'' \<Longrightarrow> keeps_files ops canon (ps \<union> qs) w w''"
  by (simp add: keeps_files_def image_Un)

lemma keeps_mono: "keeps_files ops canon ps w w' \<Longrightarrow> ps \<subseteq> qs \<Longrightarrow> keeps_files ops canon qs w w'"
  by (auto simp: keeps_files_def)

lemma keeps_write: "write_file ops w p t = (w', r) \<Longrightarrow> keeps_files ops canon {p} w w'"
  by (auto simp: keeps_files_def dest: write_frame)

lemma keeps_remove: "remove_file ops w p = (w', r) \<Longrightarrow> keeps_files ops canon {p} w w'"
  by (auto simp: keeps_files_def dest: remove_frame)

lemma keeps_mkdir: "create_dir_all ops w p = (w', r) \<Longrightarrow> keeps_files ops canon {} w w'"
  unfolding keeps_files_def by (metis is_ok_simps(1) mkdir_frame)

lemma keeps_parents: "create_parent_dirs ops p w = (w', r) \<Longrightarrow> keeps_files ops canon {} w w'"
  by (cases "create_dir_all ops w (p\<lparr>comps := butlast (comps p)\<rparr>)")
    (auto simp: create_parent_dirs_def parent_path_def io_def keeps_refl dest: keeps_mkdir
      split: option.splits if_splits)

lemma keeps_then:
  assumes "then_do a f = (w', r)" and "\<And>v s. a = (v, s) \<Longrightarrow> keeps_files ops canon ps w v"
    and "\<And>v w' r. f v = (w', r) \<Longrightarrow> keeps_files ops canon ps v w'"
  shows "keeps_files ops canon ps w w'"
  using assms keeps_trans [of ps w _ ps w'] by (auto simp: then_do_def split: prod.splits option.splits)

lemma keeps_write_with_parents:
  assumes "write_with_parents ops p t w = (w', r)"
  shows "keeps_files ops canon {p} w w'"
proof (rule keeps_then)
  show "then_do (create_parent_dirs ops p w) (\<lambda>w. io CtxWrite p (write_file ops w p t)) = (w', r)"
    using assms by (simp add: write_with_parents_def)
  show "keeps_files ops canon {p} w v" if "create_parent_dirs ops p w = (v, s)" for v s
    using keeps_mono [OF keeps_parents [OF that]] by simp
  show "keeps_files ops canon {p} v u" if "io CtxWrite p (write_file ops v p t) = (u, s)" for v u s
    using that keeps_write [of v p t u] by (cases "write_file ops v p t") (auto simp: io_def)
qed

lemma write_read_back:
  "snd (write_file ops w p t) = None \<Longrightarrow> read_to_string ops (fst (write_file ops w p t)) p = Ok t"
  by (metis prod.collapse write_read)

lemma write_with_parents_read:
  assumes "write_with_parents ops p t w = (w', None)"
  shows "read_to_string ops w' p = Ok t"
  using assms
  by (auto simp: write_with_parents_def then_do_def io_def write_read_back
      split: prod.splits option.splits)

lemma keeps_apply_hunk:
  assumes "apply_hunk ops cwd h w = (w', r)"
  shows "keeps_files ops canon (touched cwd h) w w'"
proof (cases h)
  case (AddFile p t)
  with assms show ?thesis
    by (simp add: apply_hunk_def touched_def keeps_write_with_parents)
next
  case (DeleteFile p)
  with assms show ?thesis
    by (cases "remove_file ops w (resolve cwd p)")
      (auto simp: apply_hunk_def touched_def io_def dest: keeps_remove)
next
  case (UpdateFile p mv cs)
  show ?thesis
  proof (cases "\<exists>t. read_to_string ops w (resolve cwd p) = Ok t
      \<and> (\<exists>n. derive_new_contents t p cs = Derived n)")
    case False
    with assms UpdateFile have "w' = w"
      by (auto simp: apply_hunk_def apply_update_def Let_def split: sum.splits derive_outcome.splits)
    then show ?thesis by (simp add: keeps_refl)
  next
    case True
    then obtain t n where t: "read_to_string ops w (resolve cwd p) = Ok t"
      and n: "derive_new_contents t p cs = Derived n" by blast
    show ?thesis
    proof (cases mv)
      case None
      with assms UpdateFile t n show ?thesis
        by (cases "write_file ops w (resolve cwd p) n")
          (auto simp: apply_hunk_def apply_update_def io_def touched_def dest: keeps_write)
    next
      case (Some q)
      let ?s = "resolve cwd p" and ?d = "resolve cwd q"
      have "then_do (write_with_parents ops ?d n w) (\<lambda>w. if ?d \<noteq> ?s
            then io CtxRemoveOriginal ?s (remove_file ops w ?s) else (w, None)) = (w', r)"
        using assms UpdateFile t n Some by (simp add: apply_hunk_def apply_update_def Let_def)
      then have "keeps_files ops canon {?s, ?d} w w'"
      proof (rule keeps_then)
        show "keeps_files ops canon {?s, ?d} w v" if "write_with_parents ops ?d n w = (v, s)" for v s
          using keeps_mono [OF keeps_write_with_parents [OF that]] by simp
        show "keeps_files ops canon {?s, ?d} v u" if "(if ?d \<noteq> ?s
            then io CtxRemoveOriginal ?s (remove_file ops v ?s) else (v, None)) = (u, s)" for v u s
          using that keeps_mono [OF keeps_remove, of v ?s u _ "{?s, ?d}"]
          by (cases "remove_file ops v ?s") (auto simp: io_def keeps_refl split: if_splits)
      qed
      with UpdateFile Some show ?thesis by (simp add: touched_def insert_commute)
    qed
  qed
qed

lemma keeps_apply_hunks:
  assumes "apply_hunks ops cwd hs s w = (w', r)"
  shows "keeps_files ops canon (\<Union>h\<in>set hs. touched cwd h) w w'"
  using assms
proof (induction hs arbitrary: s w)
  case Nil
  then show ?case by (simp add: keeps_refl)
next
  case (Cons h hs)
  obtain v e where v: "apply_hunk ops cwd h w = (v, e)" by force
  note kv = keeps_apply_hunk [OF v]
  show ?case
  proof (cases e)
    case None
    with Cons v have "keeps_files ops canon (\<Union>h\<in>set hs. touched cwd h) v w'" by simp
    with keeps_trans [OF kv this] show ?thesis by simp
  next
    case (Some x)
    with Cons.prems v have "w' = v" by simp
    with kv show ?thesis by (auto intro: keeps_mono)
  qed
qed

text \<open>
  What a successful update leaves. When the destination of a move is spelled differently from the
  source but names the same file, the code removes the file it has just written.
\<close>

lemma apply_update_result:
  assumes "apply_update ops cwd p mv cs w = (w', None)"
  shows "\<exists>t n. read_to_string ops w (resolve cwd p) = Ok t \<and> derive_new_contents t p cs = Derived n
    \<and> (case mv of
         None \<Rightarrow> read_to_string ops w' (resolve cwd p) = Ok n
       | Some q \<Rightarrow>
           if resolve cwd q = resolve cwd p then read_to_string ops w' (resolve cwd p) = Ok n
           else \<not> is_ok (read_to_string ops w' (resolve cwd p))
             \<and> (if canon (resolve cwd q) = canon (resolve cwd p)
                then \<not> is_ok (read_to_string ops w' (resolve cwd q))
                else read_to_string ops w' (resolve cwd q) = Ok n))"
proof -
  obtain t n where t: "read_to_string ops w (resolve cwd p) = Ok t"
    and n: "derive_new_contents t p cs = Derived n"
    using assms by (auto simp: apply_update_def Let_def split: sum.splits derive_outcome.splits)
  show ?thesis
  proof (cases mv)
    case None
    with assms t n show ?thesis
      by (auto simp: apply_update_def io_def Let_def write_read_back)
  next
    case (Some q)
    obtain v where v: "write_with_parents ops (resolve cwd q) n w = (v, None)"
      and r: "(if resolve cwd q \<noteq> resolve cwd p
        then io CtxRemoveOriginal (resolve cwd p) (remove_file ops v (resolve cwd p)) else (v, None)) = (w', None)"
      using assms t n Some
      by (auto simp: apply_update_def Let_def then_do_def split: prod.splits option.splits)
    have "read_to_string ops v (resolve cwd q) = Ok n"
      using v by (rule write_with_parents_read)
    with r t n Some show ?thesis
      by (cases "remove_file ops v (resolve cwd p)")
        (auto simp: io_def split: if_splits dest: remove_frame remove_gone)
  qed
qed

end

section \<open>An in-memory file system\<close>

text \<open>
  Files and directories are named by their normalised paths (\<open>..\<close> resolved); a write needs the
  parent directory, a directory cannot be written or removed as a file.
\<close>

fun normal_comps :: "str list \<Rightarrow> str list \<Rightarrow> str list" where
  "normal_comps acc [] = rev acc"
| "normal_comps acc (c # cs) =
     (if c = lit ''.'' then normal_comps acc cs
      else if c = lit ''..'' \<and> acc \<noteq> [] \<and> hd acc \<noteq> lit ''..'' then normal_comps (tl acc) cs
      else normal_comps (c # acc) cs)"

definition normal_path :: "fpath \<Rightarrow> fpath" where
  "normal_path p = p\<lparr>comps := normal_comps [] (comps p)\<rparr>"

record mem_fs =
  mem_files :: "fpath \<Rightarrow> str option"
  mem_dirs :: "fpath set"

definition missing :: io_error where "missing = lit ''No such file or directory''"
definition is_a_dir :: io_error where "is_a_dir = lit ''Is a directory''"

definition mem_read :: "mem_fs \<Rightarrow> fpath \<Rightarrow> (io_error, str) result" where
  "mem_read w p = (case mem_files w (normal_path p) of Some t \<Rightarrow> Ok t | None \<Rightarrow> Err missing)"

definition mem_write :: "mem_fs \<Rightarrow> fpath \<Rightarrow> str \<Rightarrow> mem_fs \<times> io_error option" where
  "mem_write w p t = (let c = normal_path p in
     if c \<in> mem_dirs w then (w, Some is_a_dir)
     else if \<not> (\<exists>d\<in>set_option (parent_path c). d \<in> mem_dirs w) then (w, Some missing)
     else (w\<lparr>mem_files := (mem_files w)(c := Some t)\<rparr>, None))"

definition mem_remove :: "mem_fs \<Rightarrow> fpath \<Rightarrow> mem_fs \<times> io_error option" where
  "mem_remove w p = (let c = normal_path p in
     if mem_files w c = None then (w, Some missing)
     else (w\<lparr>mem_files := (mem_files w)(c := None)\<rparr>, None))"

definition mem_exists :: "mem_fs \<Rightarrow> fpath \<Rightarrow> bool" where
  "mem_exists w p = (mem_files w (normal_path p) \<noteq> None \<or> normal_path p \<in> mem_dirs w)"

fun all_prefixes :: "'a list \<Rightarrow> 'a list list" where
  "all_prefixes [] = [[]]"
| "all_prefixes (x # xs) = [] # map ((#) x) (all_prefixes xs)"

definition mem_create_dir_all :: "mem_fs \<Rightarrow> fpath \<Rightarrow> mem_fs \<times> io_error option" where
  "mem_create_dir_all w p = (let c = normal_path p;
       ds = map (\<lambda>cs. c\<lparr>comps := cs\<rparr>) (all_prefixes (comps c))
     in if list_all (\<lambda>d. mem_files w d = None) ds
        then (w\<lparr>mem_dirs := set ds \<union> mem_dirs w\<rparr>, None)
        else (w, Some (lit ''Not a directory'')))"

definition mem_ops :: "mem_fs disk_ops" where
  "mem_ops = \<lparr>read_to_string = mem_read, write_file = mem_write, remove_file = mem_remove,
     path_exists = mem_exists, create_dir_all = mem_create_dir_all\<rparr>"

lemmas mem_defs = mem_ops_def mem_read_def mem_write_def mem_remove_def mem_create_dir_all_def
  mem_exists_def Let_def

interpretation mem: disk_laws mem_ops normal_path
  by unfold_locales (auto simp: mem_defs split: if_splits option.splits)

section \<open>Properties\<close>

lemma apply_hunks_append:
  "apply_hunks ops cwd (hs @ ks) s w = (case apply_hunks ops cwd hs s w of
     (v, Ok u) \<Rightarrow> apply_hunks ops cwd ks u v | (v, Err e) \<Rightarrow> (v, Err e))"
  by (induction hs arbitrary: s w) (auto split: prod.splits option.splits)

lemma apply_hunks_summary_fold:
  "apply_hunks ops cwd hs s w = (w', Ok u) \<Longrightarrow> u = fold summarise hs s"
  by (induction hs arbitrary: s w) (auto split: prod.splits option.splits)

lemma apply_hunks_summary_any:
  "apply_hunks ops cwd hs s w = (v, Ok u) \<Longrightarrow> \<exists>u'. apply_hunks ops cwd hs s' w = (v, Ok u')"
  by (induction hs arbitrary: s s' w) (auto split: prod.splits option.splits)

lemma fold_summarise:
  "fold summarise hs s =
     \<lparr>added = added s @ concat (map (\<lambda>h. case h of AddFile p _ \<Rightarrow> [p] | _ \<Rightarrow> []) hs),
      modified = modified s @ concat (map (\<lambda>h. case h of
        UpdateFile p mv _ \<Rightarrow> [case mv of Some q \<Rightarrow> q | None \<Rightarrow> p] | _ \<Rightarrow> []) hs),
      deleted = deleted s @ concat (map (\<lambda>h. case h of DeleteFile p \<Rightarrow> [p] | _ \<Rightarrow> []) hs)\<rparr>"
  by (induction hs arbitrary: s) (auto simp: summarise_def split: hunk.splits)

lemma apply_hunks_error_split:
  "apply_hunks ops cwd hs s w = (w', Err e) \<longleftrightarrow>
     (\<exists>pre h post v u. hs = pre @ h # post \<and> apply_hunks ops cwd pre s w = (v, Ok u)
        \<and> apply_hunk ops cwd h v = (w', Some e))" (is "_ \<longleftrightarrow> ?R hs s w")
proof
  show "?R hs s w" if "apply_hunks ops cwd hs s w = (w', Err e)"
    using that
  proof (induction hs arbitrary: s w)
    case (Cons h hs)
    obtain v r where v: "apply_hunk ops cwd h w = (v, r)" by force
    show ?case
    proof (cases r)
      case None
      with Cons v obtain pre k post x u where "hs = pre @ k # post"
        "apply_hunks ops cwd pre (summarise h s) v = (x, Ok u)" "apply_hunk ops cwd k x = (w', Some e)"
        by fastforce
      with v None show ?thesis by (intro exI [of _ "h # pre"]) auto
    next
      case (Some a)
      with Cons.prems v show ?thesis by (intro exI [of _ "[]"]) auto
    qed
  qed simp
  show "apply_hunks ops cwd hs s w = (w', Err e)" if "?R hs s w"
    using that by (auto simp: apply_hunks_append)
qed

section \<open>Properties of whole patches\<close>

text \<open>
  Only the files a patch names change: whatever the outcome, every file that no hunk names as
  its path or its destination keeps its text, under the documented laws of the file system.
\<close>

lemma apply_hunks_to_disk_frame:
  assumes "disk_laws ops canon" and "apply_hunks_to_disk ops hs cwd w = (w', r)"
  shows "keeps_files ops canon (\<Union>h\<in>set hs. touched cwd h) w w'"
  using assms(2) disk_laws.keeps_apply_hunks [OF assms(1)] by (simp add: apply_hunks_to_disk_def)

text \<open>
  What an update leaves on the disk when it succeeds. Without a move the file holds the derived
  text. With a move the destination holds it and the source is gone; but when the two paths differ
  in spelling and name one file, the code removes the file it has just written, and nothing is left.
\<close>

lemma apply_update_on_disk:
  assumes "disk_laws ops canon" and "apply_hunk ops cwd (UpdateFile p mv cs) w = (w', None)"
  shows "\<exists>t n. read_to_string ops w (resolve cwd p) = Ok t \<and> derive_new_contents t p cs = Derived n
    \<and> (case mv of
         None \<Rightarrow> read_to_string ops w' (resolve cwd p) = Ok n
       | Some q \<Rightarrow>
           if resolve cwd q = resolve cwd p then read_to_string ops w' (resolve cwd p) = Ok n
           else \<not> is_ok (read_to_string ops w' (resolve cwd p))
             \<and> (if canon (resolve cwd q) = canon (resolve cwd p)
                then \<not> is_ok (read_to_string ops w' (resolve cwd q))
                else read_to_string ops w' (resolve cwd q) = Ok n))"
  using disk_laws.apply_update_result [OF assms(1)] assms(2) by (simp add: apply_hunk_def)

text \<open>
  The summary of a successful run lists the hunks: the added paths, the updated ones (by their
  destination when they move) and the deleted ones, each in the order of the patch.
\<close>

lemma apply_hunks_to_disk_summary:
  assumes "apply_hunks_to_disk ops hs cwd w = (w', Ok s)"
  shows "s = \<lparr>added = concat (map (\<lambda>h. case h of AddFile p _ \<Rightarrow> [p] | _ \<Rightarrow> []) hs),
      modified = concat (map (\<lambda>h. case h of
        UpdateFile p mv _ \<Rightarrow> [case mv of Some q \<Rightarrow> q | None \<Rightarrow> p] | _ \<Rightarrow> []) hs),
      deleted = concat (map (\<lambda>h. case h of DeleteFile p \<Rightarrow> [p] | _ \<Rightarrow> []) hs)\<rparr>"
  using apply_hunks_summary_fold [OF assms [unfolded apply_hunks_to_disk_def]]
  by (simp add: fold_summarise empty_summary_def)

text \<open>
  A patch is not atomic: it fails with an error exactly when some hunk fails with this error
  after all the hunks before it were applied, and the disk is left as that hunk left it; the hunks
  after it are not tried.
\<close>

lemma apply_hunks_to_disk_failure:
  "apply_hunks_to_disk ops hs cwd w = (w', Err e) \<longleftrightarrow>
     (\<exists>pre h post v s. hs = pre @ h # post \<and> apply_hunks_to_disk ops pre cwd w = (v, Ok s)
        \<and> apply_hunk ops cwd h v = (w', Some e))"
  unfolding apply_hunks_to_disk_def by (rule apply_hunks_error_split)

section \<open>Witnesses on the in-memory file system\<close>

definition sample_cwd :: fpath where
  "sample_cwd = \<lparr>absolute = True, comps = [lit ''w'']\<rparr>"

definition at_cwd :: "string \<Rightarrow> fpath" where
  "at_cwd s = \<lparr>absolute = True, comps = [lit ''w'', lit s]\<rparr>"

definition sample_disk :: mem_fs where
  "sample_disk = \<lparr>mem_files = (\<lambda>p. if p = at_cwd ''f'' then Some sample_file else None),
     mem_dirs = {\<lparr>absolute = True, comps = []\<rparr>, sample_cwd}\<rparr>"

definition name_f :: path where "name_f = lit ''f''"
definition alias_f :: path where "alias_f = lit ''../w/f''"

definition aliased_move :: hunk where
  "aliased_move = UpdateFile name_f (Some alias_f) sample_chunks"

definition sample_update :: hunk where
  "sample_update = UpdateFile name_f None sample_chunks"

lemmas path_eval = resolve_def parse_path_def join_path_def starts_with_def Let_def sample_cwd_def
  parent_path_def empty_path_def normal_path_def at_cwd_def

definition alias_path :: fpath where
  "alias_path = \<lparr>absolute = True, comps = [lit ''w'', lit ''..'', lit ''w'', lit ''f'']\<rparr>"

lemma resolve_sample:
  "resolve sample_cwd name_f = at_cwd ''f''" "normal_path (at_cwd ''f'') = at_cwd ''f''"
  "resolve sample_cwd alias_f = alias_path" "normal_path alias_path = at_cwd ''f''"
  "alias_path \<noteq> at_cwd ''f''"
  by (simp_all add: path_eval name_f_def alias_f_def alias_path_def del: strip_prefix_Some)

lemma sample_disk_dirs:
  "parent_path (at_cwd ''f'') = Some sample_cwd" "sample_cwd \<in> mem_dirs sample_disk"
  "at_cwd ''f'' \<notin> mem_dirs sample_disk" "mem_files sample_disk (at_cwd ''f'') = Some sample_file"
  by (simp_all add: path_eval sample_disk_def)

lemma alias_parent_exists: "create_parent_dirs mem_ops alias_path sample_disk = (sample_disk, None)"
  by (simp add: create_parent_dirs_def path_eval alias_path_def mem_defs sample_disk_def)

lemma sample_update_applied:
  "apply_hunk mem_ops sample_cwd sample_update sample_disk
     = (sample_disk\<lparr>mem_files := (mem_files sample_disk)(at_cwd ''f'' := Some sample_result)\<rparr>, None)"
  by (simp add: sample_update_def apply_hunk_def apply_update_def resolve_sample mem_defs
      sample_derived sample_disk_dirs io_def)

lemma aliased_move_applied:
  "apply_hunk mem_ops sample_cwd aliased_move sample_disk
     = (sample_disk\<lparr>mem_files := (mem_files sample_disk)(at_cwd ''f'' := None)\<rparr>, None)"
proof -
  have "read_to_string mem_ops sample_disk (at_cwd ''f'') = Ok sample_file"
    by (simp add: mem_defs resolve_sample sample_disk_dirs)
  moreover have "write_with_parents mem_ops alias_path sample_result sample_disk
      = (sample_disk\<lparr>mem_files := (mem_files sample_disk)(at_cwd ''f'' := Some sample_result)\<rparr>, None)"
    unfolding write_with_parents_def alias_parent_exists
    by (simp add: then_do_def io_def mem_defs resolve_sample sample_disk_dirs)
  ultimately show ?thesis
    by (simp add: aliased_move_def apply_hunk_def apply_update_def resolve_sample sample_derived
        then_do_def io_def mem_defs)
qed

lemma apply_hunks_to_disk_frame_witness:
  "keeps_files mem_ops normal_path {at_cwd ''f''} sample_disk
     (fst (apply_hunks_to_disk mem_ops [sample_update] sample_cwd sample_disk))"
  using apply_hunks_to_disk_frame [OF mem.disk_laws_axioms, of "[sample_update]" sample_cwd sample_disk]
  by (simp add: sample_update_def touched_def resolve_sample prod_eq_iff)

lemma apply_update_on_disk_witness:
  "apply_hunk mem_ops sample_cwd aliased_move sample_disk
     = (sample_disk\<lparr>mem_files := (mem_files sample_disk)(at_cwd ''f'' := None)\<rparr>, None)
   \<and> \<not> is_ok (read_to_string mem_ops
       (sample_disk\<lparr>mem_files := (mem_files sample_disk)(at_cwd ''f'' := None)\<rparr>) alias_path)"
  using apply_update_on_disk [OF mem.disk_laws_axioms, of sample_cwd name_f "Some alias_f"
      sample_chunks, folded aliased_move_def, OF aliased_move_applied]
    aliased_move_applied
  by (simp add: resolve_sample) blast

lemma apply_hunks_to_disk_summary_witness:
  "apply_hunks_to_disk mem_ops [sample_update] sample_cwd sample_disk
     = (sample_disk\<lparr>mem_files := (mem_files sample_disk)(at_cwd ''f'' := Some sample_result)\<rparr>,
        Ok \<lparr>added = [], modified = [name_f], deleted = []\<rparr>)"
proof -
  have "apply_hunks_to_disk mem_ops [sample_update] sample_cwd sample_disk
     = (sample_disk\<lparr>mem_files := (mem_files sample_disk)(at_cwd ''f'' := Some sample_result)\<rparr>,
        Ok (summarise sample_update empty_summary))"
    by (simp add: apply_hunks_to_disk_def sample_update_applied)
  with apply_hunks_to_disk_summary [OF this] show ?thesis
    by (simp add: sample_update_def)
qed

end
