(* ===== verification/PatchRefinement.thy ===== *)
theory PatchRefinement
  imports PatchRoundtrip PatchDisk
begin

text \<open>
  An abstract specification of a patch: a function on the map from files to their texts
  (\<open>spec_hunk\<close>, \<open>spec_hunks\<close>), and the simulation that a successful run of
  \<open>apply_hunks_to_disk\<close> takes a disk that shows such a map to one that shows the specified map.
\<close>

section \<open>The specification\<close>

definition spec_hunk :: "(fpath \<Rightarrow> 'f) \<Rightarrow> fpath \<Rightarrow> hunk \<Rightarrow> ('f \<Rightarrow> str option) \<Rightarrow> ('f \<Rightarrow> str option) option" where
  "spec_hunk canon cwd h m = (case h of
     AddFile p t \<Rightarrow> Some (m(canon (resolve cwd p) \<mapsto> t))
   | DeleteFile p \<Rightarrow> Some (m(canon (resolve cwd p) := None))
   | UpdateFile p mv cs \<Rightarrow>
       (case m (canon (resolve cwd p)) of
          None \<Rightarrow> None
        | Some old \<Rightarrow>
            (case derive_new_contents old p cs of
               Derived new \<Rightarrow>
                 (case mv of
                    None \<Rightarrow> Some (m(canon (resolve cwd p) \<mapsto> new))
                  | Some q \<Rightarrow>
                      if resolve cwd q = resolve cwd p then Some (m(canon (resolve cwd p) \<mapsto> new))
                      else Some (m(canon (resolve cwd q) \<mapsto> new, canon (resolve cwd p) := None)))
             | _ \<Rightarrow> None)))"

fun spec_hunks :: "(fpath \<Rightarrow> 'f) \<Rightarrow> fpath \<Rightarrow> hunk list \<Rightarrow> ('f \<Rightarrow> str option) \<Rightarrow> ('f \<Rightarrow> str option) option" where
  "spec_hunks canon cwd [] m = Some m"
| "spec_hunks canon cwd (h # hs) m = Option.bind (spec_hunk canon cwd h m) (spec_hunks canon cwd hs)"

text \<open>A disk shows the map \<open>m\<close>: a file of \<open>m\<close> is read under some spelling, and only those are.\<close>

definition shows_files :: "'w disk_ops \<Rightarrow> (fpath \<Rightarrow> 'f) \<Rightarrow> 'w \<Rightarrow> ('f \<Rightarrow> str option) \<Rightarrow> bool" where
  "shows_files ops canon w m =
     (\<forall>f t. m f = Some t \<longleftrightarrow> (\<exists>q. canon q = f \<and> read_to_string ops w q = Ok t))"

lemma shows_files_read:
  "shows_files ops canon w m \<Longrightarrow> read_to_string ops w q = Ok t \<Longrightarrow> m (canon q) = Some t"
  by (auto simp: shows_files_def)

section \<open>The simulation\<close>

text \<open>
  Two more laws of the file system: after a write no spelling of the file shows another text, and
  making directories makes no file appear, though it may make a longer spelling of one readable.
\<close>

locale disk_view_laws = disk_laws +
  assumes write_alias: "write_file ops w p t = (w', None) \<Longrightarrow> canon q = canon p \<Longrightarrow>
      read_to_string ops w' q = Ok u \<Longrightarrow> u = t"
    and mkdir_no_file: "create_dir_all ops w p = (w', r) \<Longrightarrow> read_to_string ops w' q = Ok u \<Longrightarrow>
      \<exists>q'. canon q' = canon q \<and> read_to_string ops w q' = Ok u"
begin

lemma shows_write:
  assumes "shows_files ops canon w m" and "write_file ops w p t = (w', None)"
  shows "shows_files ops canon w' (m(canon p \<mapsto> t))"
  unfolding shows_files_def
proof (intro allI)
  fix f u
  show "(m(canon p \<mapsto> t)) f = Some u \<longleftrightarrow> (\<exists>q. canon q = f \<and> read_to_string ops w' q = Ok u)"
  proof (cases "f = canon p")
    case True
    with write_read [OF assms(2)] write_alias [OF assms(2)] show ?thesis
      by (metis fun_upd_same option.sel)
  next
    case False
    then have "canon q = f \<Longrightarrow> read_to_string ops w' q = read_to_string ops w q" for q
      using write_frame [OF assms(2)] by simp
    with False assms(1) show ?thesis by (auto simp: shows_files_def)
  qed
qed

lemma shows_remove:
  assumes "shows_files ops canon w m" and "remove_file ops w p = (w', None)"
  shows "shows_files ops canon w' (m(canon p := None))"
  unfolding shows_files_def
proof (intro allI)
  fix f u
  show "(m(canon p := None)) f = Some u \<longleftrightarrow> (\<exists>q. canon q = f \<and> read_to_string ops w' q = Ok u)"
  proof (cases "f = canon p")
    case True
    with remove_gone [OF assms(2)] show ?thesis by (metis fun_upd_same is_ok_simps(1) option.distinct(1))
  next
    case False
    then have "canon q = f \<Longrightarrow> read_to_string ops w' q = read_to_string ops w q" for q
      using remove_frame [OF assms(2)] by simp
    with False assms(1) show ?thesis by (auto simp: shows_files_def)
  qed
qed

lemma shows_parents:
  assumes "shows_files ops canon w m" and "create_parent_dirs ops p w = (w', None)"
  shows "shows_files ops canon w' m"
proof -
  have "w' = w \<or> (\<exists>d r. create_dir_all ops w d = (w', r))"
    using assms(2)
    by (cases "create_dir_all ops w (p\<lparr>comps := butlast (comps p)\<rparr>)")
      (auto simp: create_parent_dirs_def parent_path_def io_def split: option.splits if_splits)
  then show ?thesis
  proof
    assume "\<exists>d r. create_dir_all ops w d = (w', r)"
    then obtain d r where d: "create_dir_all ops w d = (w', r)" by blast
    have "read_to_string ops w q = Ok t \<Longrightarrow> read_to_string ops w' q = Ok t" for q t
      using mkdir_frame [OF d] by simp
    with mkdir_no_file [OF d] assms(1) show ?thesis
      unfolding shows_files_def by metis
  qed (use assms(1) in simp)
qed

lemma shows_write_with_parents:
  assumes "shows_files ops canon w m" and "write_with_parents ops p t w = (w', None)"
  shows "shows_files ops canon w' (m(canon p \<mapsto> t))"
proof -
  obtain v where "create_parent_dirs ops p w = (v, None)" "write_file ops v p t = (w', None)"
    using assms(2)
    by (cases "create_parent_dirs ops p w"; cases "snd (create_parent_dirs ops p w)")
      (auto simp: write_with_parents_def then_do_def io_def prod_eq_iff)
  with assms(1) show ?thesis by (blast intro: shows_parents shows_write)
qed

lemma shows_update:
  assumes "shows_files ops canon w m" and "apply_update ops cwd p mv cs w = (w', None)"
  shows "\<exists>m'. spec_hunk canon cwd (UpdateFile p mv cs) m = Some m' \<and> shows_files ops canon w' m'"
proof -
  let ?s = "resolve cwd p"
  obtain t n where t: "read_to_string ops w ?s = Ok t" and n: "derive_new_contents t p cs = Derived n"
    using assms(2) by (auto simp: apply_update_def Let_def split: sum.splits derive_outcome.splits)
  note m = shows_files_read [OF assms(1) t]
  show ?thesis
  proof (cases mv)
    case None
    with assms(2) t n have "write_file ops w ?s n = (w', None)"
      by (auto simp: apply_update_def io_def Let_def prod_eq_iff)
    from shows_write [OF assms(1) this] m n None show ?thesis by (simp add: spec_hunk_def)
  next
    case (Some q)
    let ?d = "resolve cwd q"
    obtain v where v: "write_with_parents ops ?d n w = (v, None)"
      and r: "(if ?d \<noteq> ?s then io CtxRemoveOriginal ?s (remove_file ops v ?s) else (v, None)) = (w', None)"
      using assms(2) t n Some
      by (auto simp: apply_update_def Let_def then_do_def split: prod.splits option.splits)
    note sv = shows_write_with_parents [OF assms(1) v]
    show ?thesis
    proof (cases "?d = ?s")
      case True
      with r sv m n Some show ?thesis by (simp add: spec_hunk_def)
    next
      case False
      with r have "remove_file ops v ?s = (w', None)" by (auto simp: io_def prod_eq_iff)
      from shows_remove [OF sv this] False m n Some show ?thesis by (simp add: spec_hunk_def)
    qed
  qed
qed

lemma shows_hunk:
  assumes "shows_files ops canon w m" and "apply_hunk ops cwd h w = (w', None)"
  shows "\<exists>m'. spec_hunk canon cwd h m = Some m' \<and> shows_files ops canon w' m'"
proof (cases h)
  case (AddFile p t)
  with assms shows_write_with_parents [OF assms(1), of "resolve cwd p" t w'] show ?thesis
    by (simp add: apply_hunk_def spec_hunk_def)
next
  case (DeleteFile p)
  with assms(2) have "remove_file ops w (resolve cwd p) = (w', None)"
    by (auto simp: apply_hunk_def io_def prod_eq_iff)
  from shows_remove [OF assms(1) this] DeleteFile show ?thesis by (simp add: spec_hunk_def)
next
  case (UpdateFile p mv cs)
  with assms shows_update show ?thesis by (simp add: apply_hunk_def)
qed

lemma shows_hunks:
  "shows_files ops canon w m \<Longrightarrow> apply_hunks ops cwd hs s w = (w', Ok u) \<Longrightarrow>
   \<exists>m'. spec_hunks canon cwd hs m = Some m' \<and> shows_files ops canon w' m'"
proof (induction hs arbitrary: s w m)
  case (Cons h hs)
  obtain v e where v: "apply_hunk ops cwd h w = (v, e)" by force
  with Cons.prems(2) have e: "e = None" by (cases e) auto
  with shows_hunk [OF Cons.prems(1)] v obtain m1 where m1: "spec_hunk canon cwd h m = Some m1"
    "shows_files ops canon v m1" by blast
  with Cons.IH [OF m1(2)] Cons.prems(2) v e show ?case by auto
qed auto

end

lemma mem_write_alias:
  "write_file mem_ops w p t = (w', None) \<Longrightarrow> normal_path q = normal_path p \<Longrightarrow>
   read_to_string mem_ops w' q = Ok u \<Longrightarrow> u = t"
  by (auto simp: mem_defs split: if_splits)

lemma mem_mkdir_reads:
  "create_dir_all mem_ops w p = (w', r) \<Longrightarrow> read_to_string mem_ops w' q = read_to_string mem_ops w q"
  by (auto simp: mem_defs split: if_splits option.splits)

interpretation mem_view: disk_view_laws mem_ops normal_path
  by unfold_locales ((rule mem_write_alias; assumption), metis mem_mkdir_reads)

section \<open>Properties\<close>

text \<open>
  C5. A patch refines its specification: when the disk shows a map from files to texts and the text
  of a patch is applied without an error, the patch parsed, its hunks are defined on the map in turn
  (each updated file is there and its new contents can be derived), and the disk shows the result.
\<close>

theorem apply_patch_refines_files:
  assumes "disk_view_laws ops canon" and "shows_files ops canon w m"
    and "apply_patch_to_disk ops patch cwd w = (w', Ok s)"
  shows "\<exists>args m'. parse_patch patch = Ok args \<and> spec_hunks canon cwd (patch_hunks args) m = Some m'
    \<and> shows_files ops canon w' m'"
  using disk_view_laws.shows_hunks [OF assms(1,2)] assms(3)
  by (auto simp: apply_patch_to_disk_def apply_hunks_to_disk_def split: sum.splits)

section \<open>Witness\<close>

lemma sample_patch_applied:
  "apply_patch_to_disk mem_ops (render_patch None [sample_update]) sample_cwd sample_disk
     = (sample_disk\<lparr>mem_files := (mem_files sample_disk)(at_cwd ''f'' := Some sample_result)\<rparr>,
        Ok (summarise sample_update empty_summary))"
proof -
  have "list_all hunk_printable [sample_update]"
    by (simp add: sample_update_def sample_chunks_def name_f_def name_ok_def line_ok_def
        chunk_printable_def chunk_is_empty_def is_ws_def)
  then have "parse_patch (render_patch None [sample_update]) = Ok \<lparr>patch_text = render_patch None [sample_update],
      patch_hunks = [sample_update], workdir = None, args_environment_id = None\<rparr>"
    by (intro parse_printed_patch) (simp_all add: env_printable_def)
  then show ?thesis
    by (simp add: apply_patch_to_disk_def apply_hunks_to_disk_def sample_update_applied)
qed

lemma sample_disk_shown: "shows_files mem_ops normal_path sample_disk [at_cwd ''f'' \<mapsto> sample_file]"
  unfolding shows_files_def
  by (auto simp: mem_defs sample_disk_def resolve_sample intro: exI [of _ "at_cwd ''f''"]
      split: option.splits if_splits)

theorem apply_patch_refines_files_witness:
  "\<exists>args m'. parse_patch (render_patch None [sample_update]) = Ok args
    \<and> spec_hunks normal_path sample_cwd (patch_hunks args) [at_cwd ''f'' \<mapsto> sample_file] = Some m'
    \<and> shows_files mem_ops normal_path
        (sample_disk\<lparr>mem_files := (mem_files sample_disk)(at_cwd ''f'' := Some sample_result)\<rparr>) m'"
  using apply_patch_refines_files [OF mem_view.disk_view_laws_axioms sample_disk_shown sample_patch_applied] .

end
