(* ===== verification/Message.thy ===== *)
theory Message
  imports Prelude
begin

text \<open>
  \<open>crates/bharatcode-providers/src/conversation/message.rs\<close>: the messages of a conversation, their
  constructors, accessors and visibility, the sanitising deserialiser, and
  \<open>extract_text_from_resource\<close> of \<open>mcp_utils.rs\<close>. The types of the \<open>rmcp\<close> and \<open>serde_json\<close> crates
  appear with the fields the code reads or writes. Unicode normalisation, base64 and the JSON
  printer are third-party: parameters of the definitions that call them.
\<close>

section \<open>JSON values\<close>

datatype json_number = PosInt nat | NegInt nat | Float str

datatype json =
    JNull
  | JBool bool
  | JNumber json_number
  | JString str
  | JArray "json list"
  | JObject "(str \<times> json) list"

type_synonym json_object = "(str \<times> json) list"

fun json_get :: "json \<Rightarrow> str \<Rightarrow> json option" where
  "json_get (JObject m) k = map_of m k"
| "json_get _ _ = None"

fun json_as_str :: "json \<Rightarrow> str option" where
  "json_as_str (JString s) = Some s"
| "json_as_str _ = None"

fun json_as_bool :: "json \<Rightarrow> bool option" where
  "json_as_bool (JBool b) = Some b"
| "json_as_bool _ = None"

fun json_as_u64 :: "json \<Rightarrow> nat option" where
  "json_as_u64 (JNumber (PosInt n)) = Some n"
| "json_as_u64 _ = None"

fun json_as_object :: "json \<Rightarrow> json_object option" where
  "json_as_object (JObject m) = Some m"
| "json_as_object _ = None"

section \<open>Types\<close>

datatype role = User | Assistant

record error_data =
  err_code :: int
  err_message :: str
  err_data :: "json option"

record call_params =
  tool_name :: str
  arguments :: "json_object option"

datatype resource_contents =
    TextResource str
  | BlobResource str "str option"

datatype raw_content =
    RawText str
  | RawImage str str
  | RawResource resource_contents
  | RawAudio str str
  | RawResourceLink str

record mcp_content =
  raw :: raw_content
  content_audience :: "role list option"

record call_tool_result =
  result_content :: "mcp_content list"
  structured_content :: "json option"
  is_error :: "bool option"
  result_meta :: "json_object option"

record text_content =
  text_str :: str
  text_meta :: "json option"
  text_audience :: "role list option"

record image_content =
  image_data :: str
  mime_type :: str
  image_audience :: "role list option"

record tool_request =
  request_id :: str
  tool_call :: "(error_data, call_params) result"
  request_metadata :: "json_object option"
  tool_meta :: "json option"

record tool_response =
  response_id :: str
  tool_result :: "(error_data, call_tool_result) result"
  response_metadata :: "json_object option"

record tool_confirmation_request =
  confirmation_id :: str
  confirmation_tool :: str
  confirmation_arguments :: json_object
  confirmation_prompt :: "str option"

datatype elicitation_action = Accept | Decline | Cancel

datatype action_required =
    ToolConfirmation str str json_object "str option"
  | Elicitation str str json
  | ElicitationResponse str json elicitation_action

record thinking_content =
  thinking :: str
  signature :: str

record frontend_tool_request =
  frontend_id :: str
  frontend_call :: "(error_data, call_params) result"

datatype system_notification_type = ThinkingMessage | InlineMessage | CreditsExhausted

record system_notification_content =
  notification_type :: system_notification_type
  notification_msg :: str
  notification_data :: "json option"

datatype message_content =
    Text text_content
  | Image image_content
  | ToolRequest tool_request
  | ToolResponse tool_response
  | ToolConfirmationRequest tool_confirmation_request
  | ActionRequired action_required
  | FrontendToolRequest frontend_tool_request
  | Thinking thinking_content
  | RedactedThinking str
  | SystemNotification system_notification_content

record inference_metadata =
  inference_provider :: str
  requested_model :: str
  resolved_model :: "str option"

record message_metadata =
  user_visible :: bool
  agent_visible :: bool
  inference :: "inference_metadata option"
  steer :: bool

record message =
  msg_id :: "str option"
  role :: role
  created :: int
  content :: "message_content list"
  metadata :: message_metadata

section \<open>Tool requests\<close>

definition TOOL_META_EXTERNAL_DISPATCH_KEY :: str where
  "TOOL_META_EXTERNAL_DISPATCH_KEY = lit ''bharatcode.external_dispatch''"
definition TOOL_META_TITLE_KEY :: str where
  "TOOL_META_TITLE_KEY = lit ''bharatcode.toolSummary.title''"
definition TOOL_META_CHAIN_SUMMARY_KEY :: str where
  "TOOL_META_CHAIN_SUMMARY_KEY = lit ''bharatcode.toolChain.summary''"

definition tool_meta_get :: "tool_request \<Rightarrow> str \<Rightarrow> json option" where
  "tool_meta_get r k = Option.bind (tool_meta r) (\<lambda>v. json_get v k)"

definition is_externally_dispatched :: "tool_request \<Rightarrow> bool" where
  "is_externally_dispatched r =
     (Option.bind (tool_meta_get r TOOL_META_EXTERNAL_DISPATCH_KEY) json_as_bool = Some True)"

definition persisted_title :: "tool_request \<Rightarrow> str option" where
  "persisted_title r = Option.bind (tool_meta_get r TOOL_META_TITLE_KEY) json_as_str"

definition persisted_chain_summary :: "tool_request \<Rightarrow> (str \<times> nat) option" where
  "persisted_chain_summary r =
     Option.bind (tool_meta_get r TOOL_META_CHAIN_SUMMARY_KEY) (\<lambda>obj.
     Option.bind (Option.bind (json_get obj (lit ''summary'')) json_as_str) (\<lambda>summary.
     Option.bind (Option.bind (json_get obj (lit ''count'')) json_as_u64) (\<lambda>count.
       if count = 0 then None else Some (summary, count))))"

text \<open>\<open>pretty\<close> is \<open>serde_json::to_string_pretty\<close> and \<open>show_err\<close> the \<open>Display\<close> of \<open>ErrorData\<close>.\<close>

definition to_readable_string ::
    "(json_object option \<Rightarrow> str option) \<Rightarrow> (error_data \<Rightarrow> str) \<Rightarrow> tool_request \<Rightarrow> str" where
  "to_readable_string pretty show_err r = (case tool_call r of
     Ok c \<Rightarrow> lit ''Tool: '' @ tool_name c @ lit '', Args: ''
       @ (case pretty (arguments c) of Some s \<Rightarrow> s | None \<Rightarrow> lit ''<<invalid json>>'')
   | Err e \<Rightarrow> lit ''Invalid tool call: '' @ show_err e)"

section \<open>Contents\<close>

definition mk_text :: "str \<Rightarrow> message_content" where
  "mk_text s = Text \<lparr>text_str = s, text_meta = None, text_audience = None\<rparr>"

definition mk_image :: "str \<Rightarrow> str \<Rightarrow> message_content" where
  "mk_image d m = Image \<lparr>image_data = d, mime_type = m, image_audience = None\<rparr>"

definition mk_tool_request_with_metadata ::
    "str \<Rightarrow> (error_data, call_params) result \<Rightarrow> json_object option \<Rightarrow> message_content" where
  "mk_tool_request_with_metadata i c m =
     ToolRequest \<lparr>request_id = i, tool_call = c, request_metadata = m, tool_meta = None\<rparr>"

definition mk_tool_request :: "str \<Rightarrow> (error_data, call_params) result \<Rightarrow> message_content" where
  "mk_tool_request i c =
     ToolRequest \<lparr>request_id = i, tool_call = c, request_metadata = None, tool_meta = None\<rparr>"

definition mk_tool_response_with_metadata ::
    "str \<Rightarrow> (error_data, call_tool_result) result \<Rightarrow> json_object option \<Rightarrow> message_content" where
  "mk_tool_response_with_metadata i r m =
     ToolResponse \<lparr>response_id = i, tool_result = r, response_metadata = m\<rparr>"

definition mk_tool_response :: "str \<Rightarrow> (error_data, call_tool_result) result \<Rightarrow> message_content" where
  "mk_tool_response i r = ToolResponse \<lparr>response_id = i, tool_result = r, response_metadata = None\<rparr>"

definition mk_thinking :: "str \<Rightarrow> str \<Rightarrow> message_content" where
  "mk_thinking t s = Thinking \<lparr>thinking = t, signature = s\<rparr>"

definition mk_frontend_tool_request :: "str \<Rightarrow> (error_data, call_params) result \<Rightarrow> message_content" where
  "mk_frontend_tool_request i c = FrontendToolRequest \<lparr>frontend_id = i, frontend_call = c\<rparr>"

definition mk_action_required :: "str \<Rightarrow> str \<Rightarrow> json_object \<Rightarrow> str option \<Rightarrow> message_content" where
  "mk_action_required i tool args prompt = ActionRequired (ToolConfirmation i tool args prompt)"

definition mk_elicitation :: "str \<Rightarrow> str \<Rightarrow> json \<Rightarrow> message_content" where
  "mk_elicitation i msg schema = ActionRequired (Elicitation i msg schema)"

definition mk_elicitation_response :: "str \<Rightarrow> json \<Rightarrow> elicitation_action \<Rightarrow> message_content" where
  "mk_elicitation_response i data action = ActionRequired (ElicitationResponse i data action)"

definition mk_redacted_thinking :: "str \<Rightarrow> message_content" where
  "mk_redacted_thinking d = RedactedThinking d"

definition mk_system_notification ::
    "system_notification_type \<Rightarrow> str \<Rightarrow> json option \<Rightarrow> message_content" where
  "mk_system_notification t m d = SystemNotification
     \<lparr>notification_type = t, notification_msg = m, notification_data = d\<rparr>"

fun as_text :: "message_content \<Rightarrow> str option" where
  "as_text (Text t) = Some (text_str t)"
| "as_text _ = None"

fun as_tool_request :: "message_content \<Rightarrow> tool_request option" where
  "as_tool_request (ToolRequest r) = Some r"
| "as_tool_request _ = None"

fun as_tool_response :: "message_content \<Rightarrow> tool_response option" where
  "as_tool_response (ToolResponse r) = Some r"
| "as_tool_response _ = None"

fun raw_as_text :: "raw_content \<Rightarrow> str option" where
  "raw_as_text (RawText s) = Some s"
| "raw_as_text _ = None"

definition as_tool_response_text :: "message_content \<Rightarrow> str option" where
  "as_tool_response_text c = Option.bind (as_tool_response c) (\<lambda>r. case tool_result r of
     Err _ \<Rightarrow> None
   | Ok res \<Rightarrow> (let texts = List.map_filter (\<lambda>x. raw_as_text (raw x)) (result_content res)
       in if texts = [] then None else Some (join_with [newline] texts)))"

fun as_system_notification :: "message_content \<Rightarrow> system_notification_content option" where
  "as_system_notification (SystemNotification n) = Some n"
| "as_system_notification _ = None"

fun as_action_required :: "message_content \<Rightarrow> action_required option" where
  "as_action_required (ActionRequired a) = Some a"
| "as_action_required _ = None"

fun as_thinking :: "message_content \<Rightarrow> thinking_content option" where
  "as_thinking (Thinking t) = Some t"
| "as_thinking _ = None"

fun as_redacted_thinking :: "message_content \<Rightarrow> str option" where
  "as_redacted_thinking (RedactedThinking d) = Some d"
| "as_redacted_thinking _ = None"

definition audience_allows :: "role list option \<Rightarrow> role \<Rightarrow> bool" where
  "audience_allows a r = (case a of None \<Rightarrow> True | Some roles \<Rightarrow> r \<in> set roles)"

definition filter_for_audience :: "role \<Rightarrow> message_content \<Rightarrow> message_content option" where
  "filter_for_audience r c = (case c of
     Text t \<Rightarrow> if audience_allows (text_audience t) r then Some c else None
   | Image i \<Rightarrow> if audience_allows (image_audience i) r then Some c else None
   | ToolResponse res \<Rightarrow> (case tool_result res of
       Err _ \<Rightarrow> Some c
     | Ok result \<Rightarrow> Some (ToolResponse (res\<lparr>tool_result := Ok (result\<lparr>result_content :=
         filter (\<lambda>x. audience_allows (content_audience x) r) (result_content result)\<rparr>)\<rparr>)))
   | Thinking _ \<Rightarrow> if r = Assistant then Some c else None
   | RedactedThinking _ \<Rightarrow> if r = Assistant then Some c else None
   | _ \<Rightarrow> Some c)"

text \<open>\<open>Display for MessageContent\<close>.\<close>

definition display_content ::
    "(json_object option \<Rightarrow> str option) \<Rightarrow> (error_data \<Rightarrow> str) \<Rightarrow> message_content \<Rightarrow> str" where
  "display_content pretty show_err c = (case c of
     Text t \<Rightarrow> text_str t
   | Image i \<Rightarrow> lit ''[Image: '' @ mime_type i @ lit '']''
   | ToolRequest r \<Rightarrow> lit ''[ToolRequest: '' @ to_readable_string pretty show_err r @ lit '']''
   | ToolResponse r \<Rightarrow> lit ''[ToolResponse: '' @ (case tool_result r of
         Ok res \<Rightarrow> show_nat (length (result_content res)) @ lit '' content item(s)''
       | Err e \<Rightarrow> lit ''Error: '' @ show_err e) @ lit '']''
   | ToolConfirmationRequest r \<Rightarrow> lit ''[ToolConfirmationRequest: '' @ confirmation_tool r @ lit '']''
   | ActionRequired a \<Rightarrow> (case a of
       ToolConfirmation _ n _ _ \<Rightarrow> lit ''[ActionRequired: ToolConfirmation for '' @ n @ lit '']''
     | Elicitation _ m _ \<Rightarrow> lit ''[ActionRequired: Elicitation - '' @ m @ lit '']''
     | ElicitationResponse i _ _ \<Rightarrow> lit ''[ActionRequired: ElicitationResponse for '' @ i @ lit '']'')
   | FrontendToolRequest r \<Rightarrow> (case frontend_call r of
       Ok p \<Rightarrow> lit ''[FrontendToolRequest: '' @ tool_name p @ lit '']''
     | Err e \<Rightarrow> lit ''[FrontendToolRequest: Error: '' @ show_err e @ lit '']'')
   | Thinking t \<Rightarrow> lit ''[Thinking: '' @ thinking t @ lit '']''
   | RedactedThinking _ \<Rightarrow> lit ''[RedactedThinking]''
   | SystemNotification n \<Rightarrow> lit ''[SystemNotification: '' @ notification_msg n @ lit '']'')"

section \<open>Resources\<close>

text \<open>\<open>String::from_utf8\<close>: the scalar values of well-formed UTF-8, \<open>None\<close> otherwise.\<close>

definition is_cont :: "nat \<Rightarrow> bool" where "is_cont b = (128 \<le> b \<and> b < 192)"

fun utf8_decode :: "nat list \<Rightarrow> str option" where
  "utf8_decode [] = Some []"
| "utf8_decode (a # bs) =
     (if a < 128 then map_option ((#) a) (utf8_decode bs)
      else case bs of
        [] \<Rightarrow> None
      | b # bs1 \<Rightarrow>
         (if 194 \<le> a \<and> a < 224 \<and> is_cont b
          then map_option ((#) ((a - 192) * 64 + (b - 128))) (utf8_decode bs1)
          else case bs1 of
            [] \<Rightarrow> None
          | c # bs2 \<Rightarrow>
             (if 224 \<le> a \<and> a < 240 \<and> is_cont b \<and> is_cont c \<and> (a = 224 \<longrightarrow> 160 \<le> b) \<and> (a = 237 \<longrightarrow> b < 160)
              then map_option ((#) ((a - 224) * 4096 + (b - 128) * 64 + (c - 128))) (utf8_decode bs2)
              else case bs2 of
                [] \<Rightarrow> None
              | d # bs3 \<Rightarrow>
                 (if 240 \<le> a \<and> a < 245 \<and> is_cont b \<and> is_cont c \<and> is_cont d
                    \<and> (a = 240 \<longrightarrow> 144 \<le> b) \<and> (a = 244 \<longrightarrow> b < 144)
                  then map_option ((#) ((a - 240) * 262144 + (b - 128) * 4096 + (c - 128) * 64 + (d - 128)))
                         (utf8_decode bs3)
                  else None))))"

text \<open>\<open>b64\<close> is the standard base64 decoder.\<close>

definition extract_text_from_resource ::
    "(str \<Rightarrow> nat list option) \<Rightarrow> resource_contents \<Rightarrow> str" where
  "extract_text_from_resource b64 r = (case r of
     TextResource t \<Rightarrow> t
   | BlobResource blob mime \<Rightarrow> (case b64 blob of
       None \<Rightarrow> blob
     | Some bytes \<Rightarrow> (case utf8_decode bytes of
         Some t \<Rightarrow> t
       | None \<Rightarrow> lit ''[Binary content ('' @ (case mime of Some m \<Rightarrow> m
             | None \<Rightarrow> lit ''application/octet-stream'') @ lit '') - ''
           @ show_nat (length bytes) @ lit '' bytes]'')))"

definition content_of_mcp :: "(str \<Rightarrow> nat list option) \<Rightarrow> mcp_content \<Rightarrow> message_content" where
  "content_of_mcp b64 c = (case raw c of
     RawText t \<Rightarrow> Text \<lparr>text_str = t, text_meta = None, text_audience = content_audience c\<rparr>
   | RawImage d m \<Rightarrow> Image \<lparr>image_data = d, mime_type = m, image_audience = content_audience c\<rparr>
   | RawResourceLink _ \<Rightarrow> mk_text (lit ''[Resource link]'')
   | RawResource r \<Rightarrow> mk_text (extract_text_from_resource b64 r)
   | RawAudio _ _ \<Rightarrow> mk_text (lit ''[Audio content: not supported]''))"

section \<open>Sanitising\<close>

text \<open>\<open>sanitize_unicode_tags\<close> of \<open>utils.rs\<close>; \<open>nfc\<close> is the Unicode normalisation of a third-party crate.\<close>

definition is_in_unicode_tag_range :: "uchar \<Rightarrow> bool" where
  "is_in_unicode_tag_range c = (917504 \<le> c \<and> c \<le> 917631)"

definition sanitize_unicode_tags :: "(str \<Rightarrow> str) \<Rightarrow> str \<Rightarrow> str" where
  "sanitize_unicode_tags nfc s = filter (\<lambda>c. \<not> is_in_unicode_tag_range c) (nfc s)"

text \<open>
  \<open>deserialize_sanitized_content\<close>: old items are migrated, the rest goes through the derived
  deserialiser \<open>parse\<close>, and every text is sanitised.
\<close>

definition migrate_item :: "json \<Rightarrow> json list" where
  "migrate_item item = (let ty = Option.bind (json_get item (lit ''type'')) json_as_str in
     if ty = Some (lit ''conversationCompacted'') then []
     else if ty = Some (lit ''reasoning'') then
       (case Option.bind (json_get item (lit ''text'')) json_as_str of
          Some t \<Rightarrow> [JObject [(lit ''type'', JString (lit ''thinking'')), (lit ''thinking'', JString t),
                             (lit ''signature'', JString [])]]
        | None \<Rightarrow> [])
     else [item])"

definition sanitize_content :: "(str \<Rightarrow> str) \<Rightarrow> message_content \<Rightarrow> message_content" where
  "sanitize_content nfc c = (case c of
     Text t \<Rightarrow> Text (t\<lparr>text_str := sanitize_unicode_tags nfc (text_str t)\<rparr>)
   | _ \<Rightarrow> c)"

fun parse_all :: "('j \<Rightarrow> ('e, 'c) result) \<Rightarrow> 'j list \<Rightarrow> ('e, 'c list) result" where
  "parse_all f [] = Ok []"
| "parse_all f (x # xs) = (case f x of
     Err e \<Rightarrow> Err e
   | Ok y \<Rightarrow> (case parse_all f xs of Err e \<Rightarrow> Err e | Ok ys \<Rightarrow> Ok (y # ys)))"

definition deserialize_sanitized_content ::
    "(str \<Rightarrow> str) \<Rightarrow> (json \<Rightarrow> (str, message_content) result) \<Rightarrow> json list
      \<Rightarrow> (str, message_content list) result" where
  "deserialize_sanitized_content nfc parse raw_items =
     (case parse_all parse (concat (map migrate_item raw_items)) of
        Err e \<Rightarrow> Err (lit ''Failed to deserialize MessageContent: '' @ e)
      | Ok cs \<Rightarrow> Ok (map (sanitize_content nfc) cs))"

section \<open>Metadata\<close>

definition default_metadata :: message_metadata where
  "default_metadata = \<lparr>user_visible = True, agent_visible = True, inference = None, steer = False\<rparr>"

definition metadata_agent_only :: message_metadata where
  "metadata_agent_only = default_metadata\<lparr>user_visible := False, agent_visible := True\<rparr>"

definition metadata_user_only :: message_metadata where
  "metadata_user_only = default_metadata\<lparr>user_visible := True, agent_visible := False\<rparr>"

definition metadata_invisible :: message_metadata where
  "metadata_invisible = default_metadata\<lparr>user_visible := False, agent_visible := False\<rparr>"

definition with_agent_invisible :: "message_metadata \<Rightarrow> message_metadata" where
  "with_agent_invisible m = m\<lparr>agent_visible := False\<rparr>"
definition with_user_invisible :: "message_metadata \<Rightarrow> message_metadata" where
  "with_user_invisible m = m\<lparr>user_visible := False\<rparr>"
definition with_agent_visible :: "message_metadata \<Rightarrow> message_metadata" where
  "with_agent_visible m = m\<lparr>agent_visible := True\<rparr>"
definition with_user_visible :: "message_metadata \<Rightarrow> message_metadata" where
  "with_user_visible m = m\<lparr>user_visible := True\<rparr>"
definition metadata_with_inference :: "inference_metadata \<Rightarrow> message_metadata \<Rightarrow> message_metadata" where
  "metadata_with_inference i m = m\<lparr>inference := Some i\<rparr>"
definition metadata_with_steer :: "message_metadata \<Rightarrow> message_metadata" where
  "metadata_with_steer m = m\<lparr>steer := True\<rparr>"

section \<open>Messages\<close>

text \<open>\<open>Utc::now()\<close> is the argument \<open>now\<close>.\<close>

definition message_new :: "role \<Rightarrow> int \<Rightarrow> message_content list \<Rightarrow> message" where
  "message_new r t cs = \<lparr>msg_id = None, role = r, created = t, content = cs, metadata = default_metadata\<rparr>"

definition message_user :: "int \<Rightarrow> message" where "message_user now = message_new User now []"
definition message_assistant :: "int \<Rightarrow> message" where
  "message_assistant now = message_new Assistant now []"

definition agent_visible_content :: "message \<Rightarrow> message" where
  "agent_visible_content m = m\<lparr>content := List.map_filter (filter_for_audience Assistant) (content m)\<rparr>"

definition with_id :: "str \<Rightarrow> message \<Rightarrow> message" where
  "with_id i m = m\<lparr>msg_id := Some i\<rparr>"

definition with_content :: "message_content \<Rightarrow> message \<Rightarrow> message" where
  "with_content c m = m\<lparr>content := content m @ [c]\<rparr>"

definition with_text :: "(str \<Rightarrow> str) \<Rightarrow> str \<Rightarrow> message \<Rightarrow> message" where
  "with_text nfc s = with_content (mk_text (sanitize_unicode_tags nfc s))"

definition with_tool_request :: "str \<Rightarrow> (error_data, call_params) result \<Rightarrow> message \<Rightarrow> message" where
  "with_tool_request i c = with_content (mk_tool_request i c)"

definition with_tool_response :: "str \<Rightarrow> (error_data, call_tool_result) result \<Rightarrow> message \<Rightarrow> message" where
  "with_tool_response i r = with_content (mk_tool_response i r)"

definition add_tool_response_with_metadata ::
    "str \<Rightarrow> (error_data, call_tool_result) result \<Rightarrow> json_object option \<Rightarrow> message \<Rightarrow> message" where
  "add_tool_response_with_metadata i r md = with_content (mk_tool_response_with_metadata i r md)"

definition with_thinking :: "str \<Rightarrow> str \<Rightarrow> message \<Rightarrow> message" where
  "with_thinking t s = with_content (mk_thinking t s)"

definition with_image :: "str \<Rightarrow> str \<Rightarrow> message \<Rightarrow> message" where
  "with_image d t = with_content (mk_image d t)"

definition with_tool_request_with_metadata ::
    "str \<Rightarrow> (error_data, call_params) result \<Rightarrow> json_object option \<Rightarrow> json option \<Rightarrow> message \<Rightarrow> message" where
  "with_tool_request_with_metadata i c md tm = with_content (ToolRequest
     \<lparr>request_id = i, tool_call = c, request_metadata = md, tool_meta = tm\<rparr>)"

definition with_action_required ::
    "str \<Rightarrow> str \<Rightarrow> json_object \<Rightarrow> str option \<Rightarrow> message \<Rightarrow> message" where
  "with_action_required i tool args prompt = with_content (mk_action_required i tool args prompt)"

definition with_frontend_tool_request :: "str \<Rightarrow> (error_data, call_params) result \<Rightarrow> message \<Rightarrow> message" where
  "with_frontend_tool_request i c = with_content (mk_frontend_tool_request i c)"

definition with_redacted_thinking :: "str \<Rightarrow> message \<Rightarrow> message" where
  "with_redacted_thinking d = with_content (mk_redacted_thinking d)"

definition with_generated_id :: "str \<Rightarrow> message \<Rightarrow> message" where
  "with_generated_id uuid m = with_id (lit ''msg_'' @ uuid) m"

definition with_steer :: "message \<Rightarrow> message" where
  "with_steer m = m\<lparr>metadata := (metadata m)\<lparr>steer := True\<rparr>\<rparr>"

definition as_concat_text :: "message \<Rightarrow> str" where
  "as_concat_text m = join_with [newline] (List.map_filter as_text (content m))"

fun is_tool_request :: "message_content \<Rightarrow> bool" where
  "is_tool_request (ToolRequest _) = True"
| "is_tool_request _ = False"

fun is_response :: "message_content \<Rightarrow> bool" where
  "is_response (ToolResponse _) = True"
| "is_response _ = False"

fun is_text :: "message_content \<Rightarrow> bool" where
  "is_text (Text _) = True"
| "is_text _ = False"

definition is_tool_call :: "message \<Rightarrow> bool" where
  "is_tool_call m = list_ex is_tool_request (content m)"

definition is_tool_response :: "message \<Rightarrow> bool" where
  "is_tool_response m = list_ex is_response (content m)"

definition has_only_text_content :: "message \<Rightarrow> bool" where
  "has_only_text_content m = list_all is_text (content m)"

fun request_id_of :: "message_content \<Rightarrow> str option" where
  "request_id_of (ToolRequest r) = Some (request_id r)"
| "request_id_of _ = None"

fun response_id_of :: "message_content \<Rightarrow> str option" where
  "response_id_of (ToolResponse r) = Some (response_id r)"
| "response_id_of _ = None"

definition get_tool_request_ids :: "message \<Rightarrow> str set" where
  "get_tool_request_ids m = set (List.map_filter request_id_of (content m))"

definition get_tool_response_ids :: "message \<Rightarrow> str set" where
  "get_tool_response_ids m = set (List.map_filter response_id_of (content m))"

definition get_tool_ids :: "message \<Rightarrow> str set" where
  "get_tool_ids m = set (List.map_filter (\<lambda>c. case request_id_of c of
     Some i \<Rightarrow> Some i | None \<Rightarrow> response_id_of c) (content m))"

definition with_metadata :: "message_metadata \<Rightarrow> message \<Rightarrow> message" where
  "with_metadata md m = m\<lparr>metadata := md\<rparr>"

definition with_system_notification ::
    "system_notification_type \<Rightarrow> str \<Rightarrow> json option \<Rightarrow> message \<Rightarrow> message" where
  "with_system_notification t s d m =
     with_metadata metadata_user_only (with_content (mk_system_notification t s d) m)"

definition with_visibility :: "bool \<Rightarrow> bool \<Rightarrow> message \<Rightarrow> message" where
  "with_visibility u a m = m\<lparr>metadata := (metadata m)\<lparr>user_visible := u, agent_visible := a\<rparr>\<rparr>"

definition with_inference :: "inference_metadata \<Rightarrow> message \<Rightarrow> message" where
  "with_inference i m = m\<lparr>metadata := metadata_with_inference i (metadata m)\<rparr>"

definition with_inference_if_assistant :: "inference_metadata \<Rightarrow> message \<Rightarrow> message" where
  "with_inference_if_assistant i m =
     (if role m = Assistant \<and> inference (metadata m) = None then with_inference i m else m)"

definition message_user_only :: "message \<Rightarrow> message" where
  "message_user_only m = with_visibility True False m"
definition message_agent_only :: "message \<Rightarrow> message" where
  "message_agent_only m = with_visibility False True m"

definition is_user_visible :: "message \<Rightarrow> bool" where "is_user_visible m = user_visible (metadata m)"
definition is_agent_visible :: "message \<Rightarrow> bool" where "is_agent_visible m = agent_visible (metadata m)"

text \<open>A prompt message of the protocol, as \<open>rmcp\<close> declares it, becomes a message with one content.\<close>

datatype prompt_content =
    PromptText str
  | PromptImage str str
  | PromptResourceLink
  | PromptResource resource_contents

definition content_of_prompt :: "(str \<Rightarrow> nat list option) \<Rightarrow> prompt_content \<Rightarrow> message_content" where
  "content_of_prompt b64 c = (case c of
     PromptText t \<Rightarrow> mk_text t
   | PromptImage d m \<Rightarrow> mk_image d m
   | PromptResourceLink \<Rightarrow> mk_text (lit ''[Resource link]'')
   | PromptResource r \<Rightarrow> mk_text (extract_text_from_resource b64 r))"

definition message_of_prompt ::
    "(str \<Rightarrow> nat list option) \<Rightarrow> int \<Rightarrow> role \<Rightarrow> prompt_content \<Rightarrow> message" where
  "message_of_prompt b64 now r c = with_content (content_of_prompt b64 c)
     (case r of User \<Rightarrow> message_user now | Assistant \<Rightarrow> message_assistant now)"

section \<open>Laws\<close>

lemma map_filter_bind: "List.map_filter f (List.map_filter g xs) = List.map_filter (\<lambda>x. Option.bind (g x) f) xs"
  by (induction xs) (auto simp: List.map_filter_def)

lemma filter_for_audience_idem:
  "Option.bind (filter_for_audience r c) (filter_for_audience r) = filter_for_audience r c"
  by (auto simp: filter_for_audience_def split: message_content.splits sum.splits)

lemma agent_visible_content_idem:
  "agent_visible_content (agent_visible_content m) = agent_visible_content m"
  by (simp add: agent_visible_content_def map_filter_bind filter_for_audience_idem)

fun audience_ok :: "role \<Rightarrow> message_content \<Rightarrow> bool" where
  "audience_ok r (Text t) = audience_allows (text_audience t) r"
| "audience_ok r (Image i) = audience_allows (image_audience i) r"
| "audience_ok r (ToolResponse res) = (case tool_result res of
     Err _ \<Rightarrow> True
   | Ok x \<Rightarrow> list_all (\<lambda>c. audience_allows (content_audience c) r) (result_content x))"
| "audience_ok r _ = True"

text \<open>
  What the model is sent carries nothing addressed to others: in the agent's view of a message
  every remaining text, image and successful tool result is addressed to the assistant or to nobody
  in particular, and no tool request or response disappears.
\<close>

lemma agent_visible_content_addressed:
  "list_all (audience_ok Assistant) (content (agent_visible_content m))
   \<and> get_tool_ids (agent_visible_content m) = get_tool_ids m"
proof
  have ok: "filter_for_audience r c = Some d \<Longrightarrow> audience_ok r d" for r c d
    by (auto simp: filter_for_audience_def list_all_iff split: message_content.splits sum.splits if_splits)
  then show "list_all (audience_ok Assistant) (content (agent_visible_content m))"
    by (auto simp: agent_visible_content_def list_all_iff List.map_filter_def)
  have ids: "Option.bind (filter_for_audience Assistant c)
        (\<lambda>c. case request_id_of c of Some i \<Rightarrow> Some i | None \<Rightarrow> response_id_of c)
      = (case request_id_of c of Some i \<Rightarrow> Some i | None \<Rightarrow> response_id_of c)" for c
    by (auto simp: filter_for_audience_def split: message_content.splits sum.splits if_splits)
  show "get_tool_ids (agent_visible_content m) = get_tool_ids m"
    by (simp add: get_tool_ids_def agent_visible_content_def map_filter_bind ids)
qed

end
