(* ===== verification/Conversation.thy ===== *)
theory Conversation
  imports Message
begin

text \<open>
  \<open>crates/bharatcode-providers/src/conversation.rs\<close>: how streamed messages are appended to a
  conversation (\<open>push\<close>), and the pipeline of eight passes (\<open>fix_messages\<close>) that repairs a
  conversation before it is sent to a model, each pass returning the messages and the issues it
  reports. A \<open>Conversation\<close> is its list of messages.
\<close>

type_synonym conversation = "message list"

section \<open>Appending messages\<close>

text \<open>The first match of \<open>iter_mut().rev().find(p)\<close>, updated in place.\<close>

fun update_first :: "('a \<Rightarrow> bool) \<Rightarrow> ('a \<Rightarrow> 'a) \<Rightarrow> 'a list \<Rightarrow> 'a list" where
  "update_first p f [] = []"
| "update_first p f (x # xs) = (if p x then f x # xs else x # update_first p f xs)"

definition set_inference :: "inference_metadata option \<Rightarrow> message \<Rightarrow> message" where
  "set_inference i m = m\<lparr>metadata := (metadata m)\<lparr>inference := i\<rparr>\<rparr>"

text \<open>A delta that continues the last content item of the last message, else its items are added.\<close>

definition merge_thinking :: "thinking_content \<Rightarrow> thinking_content \<Rightarrow> thinking_content" where
  "merge_thinking l n = \<lparr>thinking = thinking l @ thinking n,
     signature = (if signature n \<noteq> [] then signature n else signature l)\<rparr>"

definition extend_content :: "message_content list \<Rightarrow> message_content list \<Rightarrow> message_content list" where
  "extend_content old new =
     (if old \<noteq> [] \<and> length new = 1 then
        (case (last old, last new) of
           (Text l, Text n) \<Rightarrow> butlast old @ [Text (l\<lparr>text_str := text_str l @ text_str n\<rparr>)]
         | (Thinking l, Thinking n) \<Rightarrow>
             if signature l = [] \<or> signature n = signature l
             then butlast old @ [Thinking (merge_thinking l n)]
             else old @ new
         | _ \<Rightarrow> old @ new)
      else old @ new)"

definition push_message :: "message \<Rightarrow> conversation \<Rightarrow> conversation" where
  "push_message m conv =
     (if content m = [] \<and> inference (metadata m) \<noteq> None then
        rev (update_first (\<lambda>x. role x = role m \<and> is_user_visible x)
               (set_inference (inference (metadata m))) (rev conv))
      else if conv \<noteq> [] \<and> msg_id (last conv) \<noteq> None \<and> msg_id (last conv) = msg_id m then
        (let l = last conv;
             l = (if inference (metadata m) \<noteq> None then set_inference (inference (metadata m)) l else l)
         in butlast conv @ [l\<lparr>content := extend_content (content l) (content m)\<rparr>])
      else conv @ [m])"

definition extend_conversation :: "message list \<Rightarrow> conversation \<Rightarrow> conversation" where
  "extend_conversation ms conv = fold push_message ms conv"

definition pop_message :: "conversation \<Rightarrow> message option \<times> conversation" where
  "pop_message conv = (if conv = [] then (None, []) else (Some (last conv), butlast conv))"

definition truncate_conversation :: "nat \<Rightarrow> conversation \<Rightarrow> conversation" where
  "truncate_conversation n conv = take n conv"

definition clear_conversation :: "conversation \<Rightarrow> conversation" where "clear_conversation conv = []"

definition filtered_messages :: "(message_metadata \<Rightarrow> bool) \<Rightarrow> conversation \<Rightarrow> message list" where
  "filtered_messages f conv = filter (\<lambda>m. f (metadata m)) conv"

definition agent_visible_messages :: "conversation \<Rightarrow> message list" where
  "agent_visible_messages = filtered_messages agent_visible"

definition user_visible_messages :: "conversation \<Rightarrow> message list" where
  "user_visible_messages = filtered_messages user_visible"

section \<open>The repair passes\<close>

type_synonym pass = "message list \<Rightarrow> message list \<times> str list"

text \<open>A pass that treats each message by itself.\<close>

definition each_message :: "(message \<Rightarrow> message \<times> str list) \<Rightarrow> pass" where
  "each_message f ms = (map (fst \<circ> f) ms, concat (map (snd \<circ> f) ms))"

definition merge_text_item :: "message_content list \<Rightarrow> message_content \<Rightarrow> message_content list" where
  "merge_text_item acc item = (case item of
     Text t \<Rightarrow> (if acc \<noteq> [] then (case last acc of
           Text l \<Rightarrow> butlast acc @ [Text (l\<lparr>text_str := text_str l @ text_str t\<rparr>)]
         | _ \<Rightarrow> acc @ [item])
       else acc @ [item])
   | _ \<Rightarrow> acc @ [item])"

definition merge_text_content_in_message :: "message \<Rightarrow> message" where
  "merge_text_content_in_message m =
     (if role m \<noteq> Assistant then m else m\<lparr>content := foldl merge_text_item [] (content m)\<rparr>)"

definition merge_text_message :: "message \<Rightarrow> message \<times> str list" where
  "merge_text_message m = (let m' = merge_text_content_in_message m in
     (m', if length (content m) \<noteq> length (content m') then [lit ''Merged text content''] else []))"

definition merge_text_content_items :: pass where
  "merge_text_content_items = each_message merge_text_message"

definition trim_text_item :: "message_content \<Rightarrow> message_content \<times> str list" where
  "trim_text_item c = (case c of
     Text t \<Rightarrow> (let s = trim_end (text_str t) in
       if length s \<noteq> length (text_str t)
       then (Text (t\<lparr>text_str := s\<rparr>), [lit ''Trimmed trailing whitespace from assistant message''])
       else (c, []))
   | _ \<Rightarrow> (c, []))"

definition each_item :: "(message_content \<Rightarrow> message_content \<times> str list) \<Rightarrow> message \<Rightarrow> message \<times> str list" where
  "each_item f m = (m\<lparr>content := map (fst \<circ> f) (content m)\<rparr>, concat (map (snd \<circ> f) (content m)))"

definition trim_message :: "message \<Rightarrow> message \<times> str list" where
  "trim_message m = (if role m = Assistant then each_item trim_text_item m else (m, []))"

definition trim_assistant_text_whitespace :: pass where
  "trim_assistant_text_whitespace = each_message trim_message"

definition is_empty_message :: "message \<Rightarrow> bool" where
  "is_empty_message m = list_all (\<lambda>c. as_text c = Some []) (content m)"

definition remove_empty_messages :: pass where
  "remove_empty_messages ms = (filter (\<lambda>m. \<not> is_empty_message m) ms,
     map (\<lambda>_. lit ''Removed empty message'') (filter is_empty_message ms))"

text \<open>\<open>b64\<close> is the base64 decoder of \<open>extract_text_from_resource\<close>.\<close>

definition has_tool_result_content :: "(str \<Rightarrow> nat list option) \<Rightarrow> mcp_content list \<Rightarrow> bool" where
  "has_tool_result_content b64 cs = list_ex (\<lambda>c. case raw c of
       RawText t \<Rightarrow> t \<noteq> []
     | RawResource r \<Rightarrow> extract_text_from_resource b64 r \<noteq> []
     | RawImage _ _ \<Rightarrow> True
     | _ \<Rightarrow> False) cs"

definition empty_result :: mcp_content where
  "empty_result = \<lparr>raw = RawText (lit ''(empty result)''), content_audience = None\<rparr>"

definition fix_result_item :: "(str \<Rightarrow> nat list option) \<Rightarrow> message_content \<Rightarrow> message_content \<times> str list" where
  "fix_result_item b64 c = (case c of
     ToolResponse r \<Rightarrow> (case tool_result r of
       Ok res \<Rightarrow>
         if has_tool_result_content b64 (result_content res) then (c, [])
         else (ToolResponse (r\<lparr>tool_result := Ok (res\<lparr>result_content := result_content res @ [empty_result]\<rparr>)\<rparr>),
               [lit ''Added placeholder to empty tool result '' @ quoted (response_id r)])
     | Err _ \<Rightarrow> (c, []))
   | _ \<Rightarrow> (c, []))"

definition fix_empty_tool_results :: "(str \<Rightarrow> nat list option) \<Rightarrow> pass" where
  "fix_empty_tool_results b64 = each_message (each_item (fix_result_item b64))"

text \<open>
  \<open>fix_tool_calling\<close>. The first loop walks over the items with the set of requests still to be
  answered: for an item, whether it stays, the new set and the issue.
\<close>

definition screen_user_item :: "str set \<Rightarrow> message_content \<Rightarrow> bool \<times> str set \<times> str list" where
  "screen_user_item pending c = (case c of
     ToolRequest r \<Rightarrow> (False, pending,
       [lit ''Removed tool request '' @ quoted (request_id r) @ lit '' from user message''])
   | ToolConfirmationRequest r \<Rightarrow> (False, pending,
       [lit ''Removed tool confirmation request '' @ quoted (confirmation_id r) @ lit '' from user message''])
   | Thinking _ \<Rightarrow> (False, pending, [lit ''Removed thinking content from user message''])
   | RedactedThinking _ \<Rightarrow> (False, pending, [lit ''Removed thinking content from user message''])
   | ToolResponse r \<Rightarrow>
       if response_id r \<in> pending then (True, pending - {response_id r}, [])
       else (False, pending, [lit ''Removed orphaned tool response '' @ quoted (response_id r)])
   | _ \<Rightarrow> (True, pending, []))"

definition screen_assistant_item :: "str set \<Rightarrow> message_content \<Rightarrow> bool \<times> str set \<times> str list" where
  "screen_assistant_item pending c = (case c of
     ToolResponse r \<Rightarrow> (False, pending,
       [lit ''Removed tool response '' @ quoted (response_id r) @ lit '' from assistant message''])
   | FrontendToolRequest r \<Rightarrow> (False, pending,
       [lit ''Removed frontend tool request '' @ quoted (frontend_id r) @ lit '' from assistant message''])
   | ToolRequest r \<Rightarrow> (True, insert (request_id r) pending, [])
   | _ \<Rightarrow> (True, pending, []))"

definition screen_item :: "role \<Rightarrow> str set \<Rightarrow> message_content \<Rightarrow> bool \<times> str set \<times> str list" where
  "screen_item r pending c =
     (case r of User \<Rightarrow> screen_user_item pending c | Assistant \<Rightarrow> screen_assistant_item pending c)"

fun screen_items :: "role \<Rightarrow> str set \<Rightarrow> message_content list \<Rightarrow> message_content list \<times> str set \<times> str list" where
  "screen_items r p [] = ([], p, [])"
| "screen_items r p (c # cs) =
     (let (keep, p', i) = screen_item r p c; (cs', p'', is) = screen_items r p' cs
      in (if keep then c # cs' else cs', p'', i @ is))"

fun screen_messages :: "str set \<Rightarrow> message list \<Rightarrow> message list \<times> str set \<times> str list" where
  "screen_messages p [] = ([], p, [])"
| "screen_messages p (m # ms) =
     (let (cs, p', i) = screen_items (role m) p (content m); (ms', p'', is) = screen_messages p' ms
      in (m\<lparr>content := cs\<rparr> # ms', p'', i @ is))"

text \<open>The second loop removes the requests that were never answered.\<close>

definition orphan_request :: "str set \<Rightarrow> message_content \<Rightarrow> bool" where
  "orphan_request pending c = (case c of ToolRequest r \<Rightarrow> request_id r \<in> pending | _ \<Rightarrow> False)"

definition orphan_issue :: "message_content \<Rightarrow> str" where
  "orphan_issue c = lit ''Removed orphaned tool request ''
     @ quoted (case request_id_of c of Some i \<Rightarrow> i | None \<Rightarrow> [])"

definition drop_orphan_requests :: "str set \<Rightarrow> message \<Rightarrow> message \<times> str list" where
  "drop_orphan_requests pending m =
     (if role m = Assistant
      then (m\<lparr>content := filter (\<lambda>c. \<not> orphan_request pending c) (content m)\<rparr>,
            map orphan_issue (filter (orphan_request pending) (content m)))
      else (m, []))"

definition pair_tool_calls :: pass where
  "pair_tool_calls ms =
     (let (ms1, pending, is1) = screen_messages {} ms;
          (ms2, is2) = each_message (drop_orphan_requests pending) ms1
      in (ms2, is1 @ is2))"

text \<open>One pass after another.\<close>

definition then_pass :: "pass \<Rightarrow> pass \<Rightarrow> pass" where
  "then_pass f g ms = (let (ms1, is1) = f ms; (ms2, is2) = g ms1 in (ms2, is1 @ is2))"

definition fix_tool_calling :: pass where
  "fix_tool_calling = then_pass pair_tool_calls remove_empty_messages"

datatype effective = EffTool | EffUser | EffAssistant

definition effective_role :: "message \<Rightarrow> effective" where
  "effective_role m = (if role m = User \<and> is_tool_response m then EffTool
     else case role m of User \<Rightarrow> EffUser | Assistant \<Rightarrow> EffAssistant)"

definition show_effective :: "effective \<Rightarrow> str" where
  "show_effective e = (case e of EffTool \<Rightarrow> lit ''tool'' | EffUser \<Rightarrow> lit ''user''
     | EffAssistant \<Rightarrow> lit ''assistant'')"

definition merge_step :: "message list \<times> str list \<Rightarrow> message \<Rightarrow> message list \<times> str list" where
  "merge_step st m = (case st of (acc, is) \<Rightarrow>
     if acc \<noteq> [] \<and> effective_role (last acc) = effective_role m
     then (butlast acc @ [(last acc)\<lparr>content := content (last acc) @ content m\<rparr>],
           is @ [lit ''Merged consecutive '' @ show_effective (effective_role m) @ lit '' messages''])
     else (acc @ [m], is))"

definition merge_consecutive_messages :: pass where
  "merge_consecutive_messages ms = foldl merge_step ([], []) ms"

definition drop_leading :: pass where
  "drop_leading ms = (if ms \<noteq> [] \<and> role (hd ms) = Assistant
     then (tl ms, [lit ''Removed leading assistant message'']) else (ms, []))"

definition drop_trailing :: pass where
  "drop_trailing ms = (if ms \<noteq> [] \<and> role (last ms) = Assistant
     then (butlast ms, [lit ''Removed trailing assistant message'']) else (ms, []))"

definition fix_lead_trail :: pass where
  "fix_lead_trail = then_pass drop_leading drop_trailing"

definition PLACEHOLDER_USER_MESSAGE :: str where "PLACEHOLDER_USER_MESSAGE = lit ''Hello''"

text \<open>\<open>now\<close> and \<open>nfc\<close> as in \<open>Message::user().with_text\<close>.\<close>

definition populate_if_empty :: "(str \<Rightarrow> str) \<Rightarrow> int \<Rightarrow> pass" where
  "populate_if_empty nfc now ms =
     (if ms = [] then ([with_text nfc PLACEHOLDER_USER_MESSAGE (message_user now)],
        [lit ''Added placeholder user message to empty conversation''])
      else (ms, []))"

definition repair_passes :: "(str \<Rightarrow> nat list option) \<Rightarrow> pass list" where
  "repair_passes b64 = [merge_text_content_items, trim_assistant_text_whitespace,
     remove_empty_messages, fix_empty_tool_results b64, fix_tool_calling,
     merge_consecutive_messages, fix_lead_trail]"

definition no_pass :: pass where "no_pass ms = (ms, [])"

definition fix_messages :: "(str \<Rightarrow> nat list option) \<Rightarrow> (str \<Rightarrow> str) \<Rightarrow> int \<Rightarrow> pass" where
  "fix_messages b64 nfc now =
     foldl then_pass no_pass (repair_passes b64 @ [populate_if_empty nfc now])"

text \<open>\<open>Conversation::new\<close> and \<open>validate\<close>: the reason and the conversation of an error.\<close>

definition conversation_new ::
    "(str \<Rightarrow> nat list option) \<Rightarrow> (str \<Rightarrow> str) \<Rightarrow> int \<Rightarrow> message list \<Rightarrow> (str \<times> conversation, conversation) result" where
  "conversation_new b64 nfc now ms = (let issues = snd (fix_messages b64 nfc now ms) in
     if issues \<noteq> [] then Err (join_with [newline] issues, ms) else Ok ms)"

text \<open>\<open>fix_conversation\<close>: the messages the agent does not see keep their places.\<close>

datatype message_slot = Visible nat | NonVisible message

fun shadow_slots :: "nat \<Rightarrow> message list \<Rightarrow> message_slot list" where
  "shadow_slots n [] = []"
| "shadow_slots n (m # ms) =
     (if is_agent_visible m then Visible n # shadow_slots (Suc n) ms else NonVisible m # shadow_slots n ms)"

definition fill_slot :: "message list \<Rightarrow> message_slot \<Rightarrow> message option" where
  "fill_slot fixed s = (case s of
     Visible i \<Rightarrow> if i < length fixed then Some (fixed ! i) else None
   | NonVisible m \<Rightarrow> Some m)"

definition fix_conversation ::
    "(str \<Rightarrow> nat list option) \<Rightarrow> (str \<Rightarrow> str) \<Rightarrow> int \<Rightarrow> conversation \<Rightarrow> conversation \<times> str list" where
  "fix_conversation b64 nfc now conv =
     (let (fixed, issues) = fix_messages b64 nfc now (filter is_agent_visible conv)
      in (List.map_filter (fill_slot fixed) (shadow_slots 0 conv), issues))"

end
