(* ===== verification/ConversationLaws.thy ===== *)
theory ConversationLaws
  imports Conversation
begin

text \<open>
  The contract of the repair passes of \<open>conversation.rs\<close> and what the pipeline guarantees: a pass
  that reports nothing changes nothing, no pass loses what the user wrote, and the result has the
  shape the model APIs require.
\<close>

section \<open>The contract of a pass\<close>

lemma then_pass_simps [simp]:
  "fst (then_pass f g ms) = fst (g (fst (f ms)))"
  "snd (then_pass f g ms) = snd (f ms) @ snd (g (fst (f ms)))"
  by (simp_all add: then_pass_def split: prod.splits)

locale repair_pass =
  fixes pass :: pass
  assumes quiet: "snd (pass ms) = [] \<Longrightarrow> fst (pass ms) = ms"
begin

lemma quiet_then:
  assumes "repair_pass g"
  shows "repair_pass (then_pass pass g)"
  using repair_pass.quiet [OF assms] by unfold_locales (auto simp: quiet)

end

text \<open>What the user wrote: the non-empty texts of the user's messages, in order.\<close>

definition message_texts :: "message \<Rightarrow> str list" where
  "message_texts m = (if role m = User then filter (\<lambda>s. s \<noteq> []) (List.map_filter as_text (content m)) else [])"

definition user_texts :: "message list \<Rightarrow> str list" where
  "user_texts ms = concat (map message_texts ms)"

locale faithful_pass = repair_pass +
  assumes keeps_user: "user_texts (fst (pass ms)) = user_texts ms"
begin

lemma faithful_then:
  assumes "faithful_pass g"
  shows "faithful_pass (then_pass pass g)"
proof (intro faithful_pass.intro faithful_pass_axioms.intro)
  show "repair_pass (then_pass pass g)"
    using assms by (intro quiet_then) (simp add: faithful_pass_def)
  show "user_texts (fst (then_pass pass g ms)) = user_texts ms" for ms
    by (simp add: keeps_user faithful_pass.keeps_user [OF assms])
qed

end

lemma user_texts_simps [simp]:
  "user_texts [] = []" "user_texts (m # ms) = message_texts m @ user_texts ms"
  "user_texts (ms @ ns) = user_texts ms @ user_texts ns"
  by (simp_all add: user_texts_def)

lemma message_texts_assistant [simp]: "role m = Assistant \<Longrightarrow> message_texts m = []"
  by (simp add: message_texts_def)

section \<open>The passes keep the contract\<close>

lemma each_message_quiet:
  assumes "\<And>m. snd (f m) = [] \<Longrightarrow> fst (f m) = m" and "snd (each_message f ms) = []"
  shows "fst (each_message f ms) = ms"
  using assms(2) by (auto simp: each_message_def intro!: map_idI assms(1))

lemma each_item_quiet:
  assumes "\<And>c. snd (f c) = [] \<Longrightarrow> fst (f c) = c" and "snd (each_item f m) = []"
  shows "fst (each_item f m) = m"
proof -
  have "map (fst \<circ> f) (content m) = content m"
    using assms(2) by (auto simp: each_item_def intro!: map_idI assms(1))
  then show ?thesis by (simp add: each_item_def)
qed

lemma each_message_texts:
  assumes "\<And>m. message_texts (fst (f m)) = message_texts m"
  shows "user_texts (fst (each_message f ms)) = user_texts ms"
  by (induction ms) (simp_all add: each_message_def assms)

lemma merge_text_length:
  "length (foldl merge_text_item acc cs) \<le> length acc + length cs
   \<and> (length (foldl merge_text_item acc cs) = length acc + length cs \<longrightarrow> foldl merge_text_item acc cs = acc @ cs)"
proof (induction cs arbitrary: acc)
  case (Cons c cs)
  have "merge_text_item acc c = acc @ [c] \<or> length (merge_text_item acc c) = length acc"
    by (auto simp: merge_text_item_def split: message_content.splits)
  with Cons [of "merge_text_item acc c"] show ?case by auto
qed simp

interpretation merge_text: faithful_pass merge_text_content_items
proof
  have "fst (merge_text_message m) = m" if "snd (merge_text_message m) = []" for m
    using that merge_text_length [of "[]" "content m"]
    by (auto simp: merge_text_message_def merge_text_content_in_message_def Let_def split: if_splits)
  then show "fst (merge_text_content_items ms) = ms" if "snd (merge_text_content_items ms) = []" for ms
    using that unfolding merge_text_content_items_def by (rule each_message_quiet)
  show "user_texts (fst (merge_text_content_items ms)) = user_texts ms" for ms
    unfolding merge_text_content_items_def
    by (rule each_message_texts)
      (simp add: merge_text_message_def merge_text_content_in_message_def message_texts_def Let_def)
qed

lemma trim_end_length: "length (trim_end s) = length s \<Longrightarrow> trim_end s = s"
proof -
  assume "length (trim_end s) = length s"
  moreover have "rev s = takeWhile is_ws (rev s) @ dropWhile is_ws (rev s)" by simp
  ultimately show ?thesis
    unfolding trim_end_def by (metis append_eq_append_conv append_self_conv2 length_rev rev_rev_ident)
qed

interpretation trim_text: faithful_pass trim_assistant_text_whitespace
proof
  have i: "fst (trim_text_item c) = c" if "snd (trim_text_item c) = []" for c
    using that by (auto simp: trim_text_item_def Let_def split: message_content.splits if_splits)
  have "fst (trim_message m) = m" if "snd (trim_message m) = []" for m
    using that each_item_quiet [OF i, of m] by (auto simp: trim_message_def split: if_splits)
  then show "fst (trim_assistant_text_whitespace ms) = ms"
    if "snd (trim_assistant_text_whitespace ms) = []" for ms
    using that unfolding trim_assistant_text_whitespace_def by (rule each_message_quiet)
  show "user_texts (fst (trim_assistant_text_whitespace ms)) = user_texts ms" for ms
    unfolding trim_assistant_text_whitespace_def
    by (rule each_message_texts) (simp add: trim_message_def message_texts_def each_item_def)
qed

lemma empty_message_texts: "is_empty_message m \<Longrightarrow> message_texts m = []"
  by (auto simp: is_empty_message_def message_texts_def list_all_iff filter_empty_conv List.map_filter_def)

interpretation remove_empty: faithful_pass remove_empty_messages
proof
  show "fst (remove_empty_messages ms) = ms" if "snd (remove_empty_messages ms) = []" for ms
    using that by (simp add: remove_empty_messages_def filter_empty_conv)
  show "user_texts (fst (remove_empty_messages ms)) = user_texts ms" for ms
    by (induction ms) (auto simp: remove_empty_messages_def empty_message_texts)
qed

interpretation fix_results: faithful_pass "fix_empty_tool_results b64" for b64
proof
  have i: "fst (fix_result_item b64 c) = c" if "snd (fix_result_item b64 c) = []" for c
    using that by (auto simp: fix_result_item_def split: message_content.splits sum.splits if_splits)
  show "fst (fix_empty_tool_results b64 ms) = ms" if "snd (fix_empty_tool_results b64 ms) = []" for ms
    using that unfolding fix_empty_tool_results_def
    by (intro each_message_quiet each_item_quiet i)
  have t: "as_text (fst (fix_result_item b64 c)) = as_text c" for c
    by (auto simp: fix_result_item_def split: message_content.splits sum.splits)
  then show "user_texts (fst (fix_empty_tool_results b64 ms)) = user_texts ms" for ms
    unfolding fix_empty_tool_results_def
    by (intro each_message_texts) (simp add: message_texts_def each_item_def List.map_filter_def filter_map o_def)
qed

section \<open>Pairing of tool calls\<close>

lemma screen_item_cases:
  "screen_item r p c = (k, p', is) \<Longrightarrow> (is = [] \<longleftrightarrow> k) \<and> (as_text c \<noteq> None \<longrightarrow> k)"
  by (auto simp: screen_item_def screen_user_item_def screen_assistant_item_def
      split: role.splits message_content.splits if_splits)

lemma screen_items_quiet: "screen_items r p cs = (cs', p', []) \<Longrightarrow> cs' = cs"
  by (induction cs arbitrary: p cs' p') (auto split: prod.splits if_splits dest: screen_item_cases)

lemma screen_items_texts:
  "screen_items r p cs = (cs', p', is) \<Longrightarrow> List.map_filter as_text cs' = List.map_filter as_text cs"
proof (induction cs arbitrary: p cs' p' "is")
  case (Cons c cs)
  then show ?case
    by (auto simp: List.map_filter_simps split: prod.splits if_splits option.splits
        dest!: screen_item_cases)
qed simp

lemma screen_messages_quiet: "screen_messages p ms = (ms', p', []) \<Longrightarrow> ms' = ms"
  by (induction ms arbitrary: p ms' p') (auto split: prod.splits dest: screen_items_quiet)

lemma screen_messages_texts: "screen_messages p ms = (ms', p', is) \<Longrightarrow> user_texts ms' = user_texts ms"
  by (induction ms arbitrary: p ms' p' "is")
    (auto simp: message_texts_def split: prod.splits dest: screen_items_texts)

lemma drop_orphans_quiet: "snd (drop_orphan_requests p m) = [] \<Longrightarrow> fst (drop_orphan_requests p m) = m"
  by (simp add: drop_orphan_requests_def filter_empty_conv split: if_splits)

lemma pair_tool_calls_screened:
  assumes "screen_messages {} ms = (ms1, p, i)"
  shows "fst (pair_tool_calls ms) = map (\<lambda>m. fst (drop_orphan_requests p m)) ms1"
    and "snd (pair_tool_calls ms) = i @ concat (map (\<lambda>m. snd (drop_orphan_requests p m)) ms1)"
  using assms by (simp_all add: pair_tool_calls_def each_message_def o_def)

interpretation pair_calls: faithful_pass pair_tool_calls
proof
  show "fst (pair_tool_calls ms) = ms" if "snd (pair_tool_calls ms) = []" for ms
  proof -
    obtain ms1 p i where s: "screen_messages {} ms = (ms1, p, i)" by (metis prod_cases3)
    with that have "ms1 = ms" by (auto simp: pair_tool_calls_screened dest: screen_messages_quiet)
    with that s show ?thesis
      by (auto simp: pair_tool_calls_screened intro!: map_idI drop_orphans_quiet)
  qed
  show "user_texts (fst (pair_tool_calls ms)) = user_texts ms" for ms
  proof -
    obtain ms1 p i where s: "screen_messages {} ms = (ms1, p, i)" by (metis prod_cases3)
    have "message_texts (fst (drop_orphan_requests q m)) = message_texts m" for q m
      by (cases "role m") (simp_all add: drop_orphan_requests_def)
    then have "user_texts (map (\<lambda>m. fst (drop_orphan_requests p m)) ms1) = user_texts ms1"
      by (induction ms1) simp_all
    with screen_messages_texts [OF s] s show ?thesis by (simp add: pair_tool_calls_screened)
  qed
qed

interpretation tool_calling: faithful_pass fix_tool_calling
  unfolding fix_tool_calling_def
  by (rule pair_calls.faithful_then) (rule remove_empty.faithful_pass_axioms)

section \<open>Merging\<close>

lemma effective_role_role: "effective_role m = effective_role n \<Longrightarrow> role m = role n"
  by (auto simp: effective_role_def split: if_splits role.splits)

lemma effective_role_merged:
  "effective_role m = effective_role n \<Longrightarrow> effective_role (m\<lparr>content := content m @ content n\<rparr>) = effective_role m"
  by (auto simp: effective_role_def is_tool_response_def split: if_splits role.splits)

lemma message_texts_merged:
  "role m = role n \<Longrightarrow> message_texts (m\<lparr>content := content m @ content n\<rparr>) = message_texts m @ message_texts n"
  by (simp add: message_texts_def List.map_filter_def)

definition well_alternating :: "message list \<Rightarrow> bool" where
  "well_alternating ms = distinct_adj (map effective_role ms)"

lemma merge_step_facts:
  assumes "merge_step (acc, is) m = (acc', is')"
  shows "user_texts acc' = user_texts acc @ message_texts m"
    and "well_alternating acc \<Longrightarrow> well_alternating acc'"
    and "\<exists>js. is' = is @ js \<and> (js = [] \<longrightarrow> acc' = acc @ [m])"
proof -
  show "user_texts acc' = user_texts acc @ message_texts m"
  proof (cases "acc \<noteq> [] \<and> effective_role (last acc) = effective_role m")
    case True
    then have "role (last acc) = role m" by (blast dest: effective_role_role)
    with True assms show ?thesis
      by (cases acc rule: rev_cases) (auto simp: merge_step_def message_texts_merged)
  next
    case False
    then have "acc' = acc @ [m]" using assms by (auto simp: merge_step_def)
    then show ?thesis by simp
  qed
  show "well_alternating acc \<Longrightarrow> well_alternating acc'"
  proof (cases "acc \<noteq> [] \<and> effective_role (last acc) = effective_role m")
    case True
    then have "map effective_role acc' = map effective_role acc"
      using assms by (cases acc rule: rev_cases) (auto simp: merge_step_def effective_role_merged)
    then show "well_alternating acc \<Longrightarrow> well_alternating acc'" by (simp add: well_alternating_def)
  next
    case False
    then have "acc' = acc @ [m]" using assms by (auto simp: merge_step_def)
    with False show "well_alternating acc \<Longrightarrow> well_alternating acc'"
      by (auto simp: well_alternating_def distinct_adj_append_iff last_map)
  qed
  show "\<exists>js. is' = is @ js \<and> (js = [] \<longrightarrow> acc' = acc @ [m])"
    using assms by (auto simp: merge_step_def split: if_splits)
qed

lemma merge_fold_facts:
  assumes "foldl merge_step (acc, is) ms = (acc', is')"
  shows "user_texts acc' = user_texts acc @ user_texts ms \<and> (well_alternating acc \<longrightarrow> well_alternating acc')
    \<and> (\<exists>js. is' = is @ js \<and> (js = [] \<longrightarrow> acc' = acc @ ms))"
  using assms
proof (induction ms arbitrary: acc "is")
  case (Cons m ms)
  obtain a i where s: "merge_step (acc, is) m = (a, i)" by force
  with Cons show ?case
    using merge_step_facts [OF s] by fastforce
qed simp

lemma merge_consecutive_facts:
  "user_texts (fst (merge_consecutive_messages ms)) = user_texts ms"
  "well_alternating (fst (merge_consecutive_messages ms))"
  "snd (merge_consecutive_messages ms) = [] \<Longrightarrow> fst (merge_consecutive_messages ms) = ms"
  using merge_fold_facts [of "[]" "[]" ms]
  by (cases "foldl merge_step ([], []) ms"; simp add: merge_consecutive_messages_def well_alternating_def)+

interpretation merge_messages: faithful_pass merge_consecutive_messages
  by unfold_locales (simp_all add: merge_consecutive_facts)

section \<open>The ends of the conversation\<close>

interpretation leading: faithful_pass drop_leading
proof
  show "user_texts (fst (drop_leading ms)) = user_texts ms" for ms
    by (cases ms) (simp_all add: drop_leading_def)
qed (auto simp: drop_leading_def split: if_splits)

interpretation trailing: faithful_pass drop_trailing
proof
  show "user_texts (fst (drop_trailing ms)) = user_texts ms" for ms
    by (cases ms rule: rev_cases) (simp_all add: drop_trailing_def)
qed (auto simp: drop_trailing_def split: if_splits)

interpretation lead_trail: faithful_pass fix_lead_trail
  unfolding fix_lead_trail_def
  by (rule leading.faithful_then) (rule trailing.faithful_pass_axioms)

interpretation populate: repair_pass "populate_if_empty nfc now" for nfc now
  by unfold_locales (simp add: populate_if_empty_def split: if_splits)

interpretation nothing: faithful_pass no_pass
  by unfold_locales (simp_all add: no_pass_def)

lemma faithful_fold:
  assumes "faithful_pass f" and "list_all faithful_pass fs"
  shows "faithful_pass (foldl then_pass f fs)"
  using assms by (induction fs arbitrary: f) (auto intro: faithful_pass.faithful_then)

interpretation repair: faithful_pass "foldl then_pass no_pass (repair_passes b64)" for b64
  by (rule faithful_fold)
    (simp_all add: repair_passes_def nothing.faithful_pass_axioms merge_text.faithful_pass_axioms
      trim_text.faithful_pass_axioms remove_empty.faithful_pass_axioms fix_results.faithful_pass_axioms
      tool_calling.faithful_pass_axioms merge_messages.faithful_pass_axioms lead_trail.faithful_pass_axioms)

lemma fix_messages_then:
  "fix_messages b64 nfc now = then_pass (foldl then_pass no_pass (repair_passes b64)) (populate_if_empty nfc now)"
  by (simp add: fix_messages_def)

interpretation fixer: repair_pass "fix_messages b64 nfc now" for b64 nfc now
  unfolding fix_messages_then
  by (rule repair.quiet_then) (rule populate.repair_pass_axioms)

section \<open>Roles\<close>

text \<open>What a message of each role may hold.\<close>

definition allowed_item :: "role \<Rightarrow> message_content \<Rightarrow> bool" where
  "allowed_item r c = (case c of
     ToolRequest _ \<Rightarrow> r = Assistant
   | ToolConfirmationRequest _ \<Rightarrow> r = Assistant
   | Thinking _ \<Rightarrow> r = Assistant
   | RedactedThinking _ \<Rightarrow> r = Assistant
   | ToolResponse _ \<Rightarrow> r = User
   | FrontendToolRequest _ \<Rightarrow> r = User
   | _ \<Rightarrow> True)"

definition role_clean :: "message \<Rightarrow> bool" where
  "role_clean m = list_all (allowed_item (role m)) (content m)"

lemma screen_items_allowed: "screen_items r p cs = (cs', p', is) \<Longrightarrow> list_all (allowed_item r) cs'"
proof (induction cs arbitrary: p cs' p' "is")
  case (Cons c cs)
  have "fst (screen_item r q c) \<Longrightarrow> allowed_item r c" for q
    by (auto simp: screen_item_def screen_user_item_def screen_assistant_item_def allowed_item_def
        split: role.splits message_content.splits if_splits)
  with Cons show ?case by (auto split: prod.splits if_splits) (metis fst_conv)
qed simp

lemma screen_messages_clean: "screen_messages p ms = (ms', p', is) \<Longrightarrow> list_all role_clean ms'"
  by (induction ms arbitrary: p ms' p' "is")
    (auto simp: role_clean_def split: prod.splits dest: screen_items_allowed)

lemma drop_orphans_clean: "role_clean m \<Longrightarrow> role_clean (fst (drop_orphan_requests p m))"
  by (cases "role m") (auto simp: role_clean_def drop_orphan_requests_def list_all_iff)

lemma tool_calling_clean: "list_all role_clean (fst (fix_tool_calling ms))"
proof -
  obtain ms1 p i where s: "screen_messages {} ms = (ms1, p, i)" by (metis prod_cases3)
  show ?thesis
    using screen_messages_clean [OF s]
    by (auto simp: fix_tool_calling_def remove_empty_messages_def pair_tool_calls_screened [OF s]
        list_all_iff intro: drop_orphans_clean)
qed

lemma merge_consecutive_clean:
  assumes "list_all role_clean ms"
  shows "list_all role_clean (fst (merge_consecutive_messages ms))"
proof -
  have step: "list_all role_clean (fst (merge_step (acc, is) m))"
    if "list_all role_clean acc" "role_clean m" for acc "is" m
  proof (cases "acc \<noteq> [] \<and> effective_role (last acc) = effective_role m")
    case True
    then have "role (last acc) = role m" by (blast dest: effective_role_role)
    with True that show ?thesis
      by (cases acc rule: rev_cases) (auto simp: merge_step_def role_clean_def)
  qed (use that in \<open>auto simp: merge_step_def\<close>)
  have "list_all role_clean (fst (foldl merge_step st ms))" if "list_all role_clean (fst st)" for st
    using that assms
  proof (induction ms arbitrary: st)
    case (Cons m ms)
    with step [of "fst st" m "snd st"] show ?case by simp
  qed simp
  from this [of "([], [])"] show ?thesis by (simp add: merge_consecutive_messages_def)
qed

lemma lead_trail_subset: "set (fst (fix_lead_trail ms)) \<subseteq> set ms"
  by (auto simp: fix_lead_trail_def drop_leading_def drop_trailing_def
      dest: in_set_butlastD list.set_sel(2) split: if_splits)

lemma repaired_then:
  "fst (foldl then_pass no_pass (repair_passes b64) ms)
     = fst (fix_lead_trail (fst (merge_consecutive_messages (fst (fix_tool_calling
        (fst (fix_empty_tool_results b64 (fst (remove_empty_messages
        (fst (trim_assistant_text_whitespace (fst (merge_text_content_items ms)))))))))))))"
  by (simp add: repair_passes_def no_pass_def)

lemma fixed_role_clean: "list_all role_clean (fst (fix_messages b64 nfc now ms))"
proof -
  let ?r = "fst (foldl then_pass no_pass (repair_passes b64) ms)"
  have "list_all role_clean ?r"
    unfolding repaired_then using lead_trail_subset merge_consecutive_clean [OF tool_calling_clean]
    by (metis (no_types, lifting) list_all_iff subsetD)
  then show ?thesis
    by (simp add: fix_messages_then populate_if_empty_def role_clean_def with_text_def with_content_def
        message_user_def message_new_def mk_text_def allowed_item_def)
qed

text \<open>
  After the repair no message holds an item its role may not send: no tool request,
  confirmation request or thinking in a user message, no tool response and no front-end request in
  an assistant message.
\<close>

lemma fix_messages_role_clean: "list_all role_clean (fst (fix_messages b64 nfc now ms))"
  by (rule fixed_role_clean)

section \<open>The shape of the result\<close>

lemma lead_trail_ends:
  assumes "well_alternating ms" and "fst (fix_lead_trail ms) \<noteq> []"
  shows "role (hd (fst (fix_lead_trail ms))) = User \<and> role (last (fst (fix_lead_trail ms))) = User
    \<and> well_alternating (fst (fix_lead_trail ms))"
proof -
  let ?l = "fst (drop_leading ms)"
  have not_assistant: "role m = User" if "effective_role m \<noteq> EffAssistant" for m
    using that by (cases "role m") (auto simp: effective_role_def)
  have assistant: "effective_role m = EffAssistant" if "role m = Assistant" for m
    using that by (simp add: effective_role_def)
  have l: "well_alternating ?l \<and> (?l \<noteq> [] \<longrightarrow> role (hd ?l) = User)"
  proof (cases ms)
    case (Cons m ns)
    with assms(1) show ?thesis
      by (cases ns; cases "role m")
        (auto simp: drop_leading_def well_alternating_def assistant intro!: not_assistant)
  qed (simp add: drop_leading_def well_alternating_def)
  have "fst (fix_lead_trail ms) = fst (drop_trailing ?l)" by (simp add: fix_lead_trail_def)
  moreover have "role (last (fst (drop_trailing ?l))) = User \<and> well_alternating (fst (drop_trailing ?l))
      \<and> role (hd (fst (drop_trailing ?l))) = User" if "fst (drop_trailing ?l) \<noteq> []"
  proof (cases ?l rule: rev_cases)
    case (snoc xs x)
    show ?thesis
    proof (cases "role x")
      case User
      with snoc l show ?thesis by (simp add: drop_trailing_def)
    next
      case Assistant
      with snoc that have d: "fst (drop_trailing ?l) = xs" "xs \<noteq> []" by (auto simp: drop_trailing_def)
      with l snoc Assistant have "effective_role (last xs) \<noteq> EffAssistant"
        by (simp add: well_alternating_def distinct_adj_append_iff last_map assistant)
      with d l snoc show ?thesis
        by (auto simp: well_alternating_def distinct_adj_append_iff intro: not_assistant)
    qed
  qed (use that in \<open>simp add: drop_trailing_def\<close>)
  ultimately show ?thesis using assms(2) by simp
qed

lemma fixed_shape:
  "fst (fix_messages b64 nfc now ms) \<noteq> []
   \<and> role (hd (fst (fix_messages b64 nfc now ms))) = User
   \<and> role (last (fst (fix_messages b64 nfc now ms))) = User
   \<and> well_alternating (fst (fix_messages b64 nfc now ms))"
proof -
  let ?r = "fst (foldl then_pass no_pass (repair_passes b64) ms)"
  have "?r \<noteq> [] \<Longrightarrow> role (hd ?r) = User \<and> role (last ?r) = User \<and> well_alternating ?r"
    unfolding repaired_then by (rule lead_trail_ends) (rule merge_consecutive_facts)
  then show ?thesis
    by (simp add: fix_messages_then populate_if_empty_def with_text_def with_content_def
        message_user_def message_new_def well_alternating_def)
qed

text \<open>
  C32. The repaired conversation is never empty, begins and ends with a message of the user, and no
  two consecutive messages have the same effective role (user, assistant or tool).
\<close>

theorem fix_messages_shape:
  "fst (fix_messages b64 nfc now ms) \<noteq> []
   \<and> role (hd (fst (fix_messages b64 nfc now ms))) = User
   \<and> role (last (fst (fix_messages b64 nfc now ms))) = User
   \<and> well_alternating (fst (fix_messages b64 nfc now ms))"
  by (rule fixed_shape)

text \<open>
  C19. The repair never loses, reorders or rewrites what the user wrote: when the user wrote anything
  at all, the non-empty texts of the user's messages are the same before and after.
\<close>

theorem fix_messages_keeps_user_texts:
  assumes "user_texts ms \<noteq> []"
  shows "user_texts (fst (fix_messages b64 nfc now ms)) = user_texts ms"
proof -
  have "user_texts (fst (foldl then_pass no_pass (repair_passes b64) ms)) = user_texts ms"
    by (rule repair.keeps_user)
  with assms show ?thesis by (auto simp: fix_messages_then populate_if_empty_def)
qed

section \<open>Requests and responses pair up\<close>

datatype tool_event = Req str | Resp str

fun event_of :: "message_content \<Rightarrow> tool_event option" where
  "event_of (ToolRequest r) = Some (Req (request_id r))"
| "event_of (ToolResponse r) = Some (Resp (response_id r))"
| "event_of _ = None"

definition tool_events :: "message list \<Rightarrow> tool_event list" where
  "tool_events ms = concat (map (\<lambda>m. List.map_filter event_of (content m)) ms)"

text \<open>Every response answers an open request; the requests still open at the end.\<close>

fun run_events :: "str set \<Rightarrow> tool_event list \<Rightarrow> str set option" where
  "run_events O1 [] = Some O1"
| "run_events O1 (Req i # es) = run_events (insert i O1) es"
| "run_events O1 (Resp i # es) = (if i \<in> O1 then run_events (O1 - {i}) es else None)"

definition tool_calls_paired :: "message list \<Rightarrow> bool" where
  "tool_calls_paired ms = (run_events {} (tool_events ms) = Some {})"

fun requested :: "tool_event list \<Rightarrow> str list" where
  "requested [] = []"
| "requested (Req i # es) = i # requested es"
| "requested (Resp _ # es) = requested es"

definition open_request :: "str set \<Rightarrow> tool_event \<Rightarrow> bool" where
  "open_request p e = (case e of Req i \<Rightarrow> i \<in> p | Resp _ \<Rightarrow> False)"

lemma run_events_append:
  "run_events s (es @ fs) = Option.bind (run_events s es) (\<lambda>s'. run_events s' fs)"
  by (induction s es rule: run_events.induct) auto

lemma run_events_open: "run_events s es = Some p \<Longrightarrow> p \<subseteq> s \<union> set (requested es)"
  by (induction s es rule: run_events.induct) (auto split: if_splits)

lemma run_events_drop_open:
  assumes "run_events s es = Some p" and "distinct (requested es)" and "set (requested es) \<inter> s = {}"
  shows "run_events (s - p) (filter (\<lambda>e. \<not> open_request p e) es) = Some {}"
  using assms
proof (induction s es rule: run_events.induct)
  case (2 s i es)
  have "run_events (insert i s - p) (filter (\<lambda>e. \<not> open_request p e) es) = Some {}"
    by (rule "2.IH") (use "2.prems" in auto)
  then show ?case by (cases "i \<in> p") (simp_all add: open_request_def insert_Diff_if)
next
  case (3 s i es)
  then have i: "i \<in> s" and r: "run_events (s - {i}) es = Some p" by (simp_all split: if_splits)
  have "run_events (s - {i} - p) (filter (\<lambda>e. \<not> open_request p e) es) = Some {}"
    by (rule "3.IH" [OF i r]) (use "3.prems" in auto)
  moreover have "s - {i} - p = s - p - {i}" by auto
  moreover have "i \<notin> p" using run_events_open [OF r] "3.prems"(3) i by auto
  ultimately show ?case using i by (simp add: open_request_def)
qed simp

lemma tool_events_simps [simp]:
  "tool_events [] = []"
  "tool_events (m # ms) = List.map_filter event_of (content m) @ tool_events ms"
  "tool_events (ms @ ns) = tool_events ms @ tool_events ns"
  by (simp_all add: tool_events_def)

text \<open>The requests a conversation makes: those of its assistant messages.\<close>

definition assistant_requests :: "message list \<Rightarrow> str list" where
  "assistant_requests ms =
     concat (map (\<lambda>m. if role m = Assistant then List.map_filter request_id_of (content m) else []) ms)"

lemma screen_items_events:
  "screen_items r p cs = (cs', p', is) \<Longrightarrow>
     run_events p (List.map_filter event_of cs') = Some p'
     \<and> requested (List.map_filter event_of cs')
       = (if r = Assistant then List.map_filter request_id_of cs else [])"
proof (induction cs arbitrary: p cs' p' "is")
  case (Cons c cs)
  obtain k q i where s: "screen_item r p c = (k, q, i)" by (metis prod_cases3)
  obtain ds q' j where t: "screen_items r q cs = (ds, q', j)" by (metis prod_cases3)
  note IH = Cons.IH [OF t]
  from Cons.prems s t have "cs' = (if k then c # ds else ds)" "p' = q'" by (auto split: if_splits)
  with IH s show ?case
    by (cases c; cases r)
      (auto simp: screen_item_def screen_user_item_def screen_assistant_item_def List.map_filter_simps
        split: if_splits)
qed (simp add: List.map_filter_simps)

lemma requested_append [simp]: "requested (es @ fs) = requested es @ requested fs"
  by (induction es rule: requested.induct) auto

lemma screen_messages_events:
  "screen_messages p ms = (ms', p', is) \<Longrightarrow>
     run_events p (tool_events ms') = Some p' \<and> requested (tool_events ms') = assistant_requests ms"
proof (induction ms arbitrary: p ms' p' "is")
  case (Cons m ms)
  obtain cs q i where s: "screen_items (role m) p (content m) = (cs, q, i)" by (metis prod_cases3)
  obtain ns q' j where t: "screen_messages q ms = (ns, q', j)" by (metis prod_cases3)
  from Cons.prems s t have "ms' = m\<lparr>content := cs\<rparr> # ns" "p' = q'" by auto
  with screen_items_events [OF s] Cons.IH [OF t] show ?case
    by (simp add: run_events_append assistant_requests_def)
qed (simp add: assistant_requests_def)

lemma clean_user_no_requests:
  "role_clean m \<Longrightarrow> role m = User \<Longrightarrow> \<not> open_request p e \<or> e \<notin> set (List.map_filter event_of (content m))"
  by (auto simp: role_clean_def list_all_iff open_request_def List.map_filter_def allowed_item_def
      split: tool_event.splits dest!: bspec elim!: event_of.elims)

lemma drop_orphans_events:
  assumes "role_clean m"
  shows "List.map_filter event_of (content (fst (drop_orphan_requests p m)))
     = filter (\<lambda>e. \<not> open_request p e) (List.map_filter event_of (content m))"
proof (cases "role m")
  case User
  with clean_user_no_requests [OF assms User] show ?thesis
    by (subst filter_True) (auto simp: drop_orphan_requests_def)
next
  case Assistant
  have "List.map_filter event_of (filter (\<lambda>c. \<not> orphan_request p c) cs)
     = filter (\<lambda>e. \<not> open_request p e) (List.map_filter event_of cs)" for cs
  proof (induction cs)
    case (Cons c cs)
    then show ?case
      by (cases c) (simp_all add: List.map_filter_simps orphan_request_def open_request_def)
  qed (simp add: List.map_filter_simps)
  with Assistant show ?thesis by (simp add: drop_orphan_requests_def)
qed

lemma remove_empty_events: "tool_events (fst (remove_empty_messages ms)) = tool_events ms"
proof (induction ms)
  case (Cons m ms)
  have "List.map_filter event_of (content m) = []" if "is_empty_message m"
    using that by (auto simp: is_empty_message_def list_all_iff List.map_filter_def filter_empty_conv
        elim!: as_text.elims dest!: bspec)
  with Cons show ?case by (simp add: remove_empty_messages_def)
qed (simp add: remove_empty_messages_def)

lemma tool_calling_paired:
  assumes "distinct (assistant_requests ms)"
  shows "tool_calls_paired (fst (fix_tool_calling ms))"
proof -
  obtain ms1 p i where s: "screen_messages {} ms = (ms1, p, i)" by (metis prod_cases3)
  note ev = screen_messages_events [OF s]
  have "tool_events (map (\<lambda>m. fst (drop_orphan_requests p m)) ms1)
      = filter (\<lambda>e. \<not> open_request p e) (tool_events ms1)"
    using screen_messages_clean [OF s] by (induction ms1) (simp_all add: drop_orphans_events)
  moreover have "run_events ({} - p) (filter (\<lambda>e. \<not> open_request p e) (tool_events ms1)) = Some {}"
    using ev assms by (intro run_events_drop_open) auto
  ultimately show ?thesis
    by (simp add: tool_calls_paired_def fix_tool_calling_def remove_empty_events pair_tool_calls_screened [OF s])
qed


text \<open>The passes before keep the requests of the assistant.\<close>

lemma assistant_requests_simps [simp]:
  "assistant_requests [] = []"
  "assistant_requests (m # ms) =
     (if role m = Assistant then List.map_filter request_id_of (content m) else []) @ assistant_requests ms"
  by (simp_all add: assistant_requests_def)

lemma each_message_requests:
  assumes "\<And>m. role (fst (f m)) = role m"
    and "\<And>m. List.map_filter request_id_of (content (fst (f m))) = List.map_filter request_id_of (content m)"
  shows "assistant_requests (fst (each_message f ms)) = assistant_requests ms"
  by (induction ms) (simp_all add: each_message_def assms)

lemma map_filter_append: "List.map_filter f (xs @ ys) = List.map_filter f xs @ List.map_filter f ys"
  by (simp add: List.map_filter_def)

lemma merge_text_requests:
  "List.map_filter request_id_of (foldl merge_text_item acc cs)
     = List.map_filter request_id_of acc @ List.map_filter request_id_of cs"
proof (induction cs arbitrary: acc)
  case (Cons c cs)
  have "List.map_filter request_id_of (merge_text_item acc c)
      = List.map_filter request_id_of acc @ List.map_filter request_id_of [c]"
    by (cases acc rule: rev_cases)
      (auto simp: merge_text_item_def map_filter_append List.map_filter_simps
        split: message_content.splits option.splits)
  with Cons show ?case by (simp add: List.map_filter_simps split: option.splits)
qed (simp add: List.map_filter_simps)

lemma each_item_requests:
  assumes "\<And>c. request_id_of (fst (f c)) = request_id_of c"
  shows "List.map_filter request_id_of (content (fst (each_item f m))) = List.map_filter request_id_of (content m)"
  by (simp add: each_item_def List.map_filter_def filter_map o_def assms)

lemma each_item_role: "role (fst (each_item f m)) = role m"
  by (simp add: each_item_def)

lemma merge_text_pass_requests: "assistant_requests (fst (merge_text_content_items ms)) = assistant_requests ms"
  unfolding merge_text_content_items_def
  by (rule each_message_requests)
    (simp_all add: merge_text_message_def merge_text_content_in_message_def Let_def merge_text_requests
      List.map_filter_simps)

lemma trim_pass_requests: "assistant_requests (fst (trim_assistant_text_whitespace ms)) = assistant_requests ms"
proof -
  have "request_id_of (fst (trim_text_item c)) = request_id_of c" for c
    by (auto simp: trim_text_item_def Let_def split: message_content.splits)
  then show ?thesis
    unfolding trim_assistant_text_whitespace_def
    by (intro each_message_requests) (simp_all add: trim_message_def each_item_role each_item_requests)
qed

lemma fix_results_requests: "assistant_requests (fst (fix_empty_tool_results b64 ms)) = assistant_requests ms"
proof -
  have "request_id_of (fst (fix_result_item b64 c)) = request_id_of c" for c
    by (auto simp: fix_result_item_def split: message_content.splits sum.splits)
  then show ?thesis
    unfolding fix_empty_tool_results_def
    by (intro each_message_requests) (simp_all add: each_item_role each_item_requests)
qed

lemma remove_empty_requests: "assistant_requests (fst (remove_empty_messages ms)) = assistant_requests ms"
proof (induction ms)
  case (Cons m ms)
  have "List.map_filter request_id_of (content m) = []" if "is_empty_message m"
    using that by (auto simp: is_empty_message_def list_all_iff List.map_filter_def filter_empty_conv
        elim!: as_text.elims dest!: bspec)
  with Cons show ?case by (simp add: remove_empty_messages_def)
qed (simp add: remove_empty_messages_def)

text \<open>Merging keeps the events; so does cutting the ends of a conversation the user opens.\<close>

lemma merge_step_events: "tool_events (fst (merge_step st m)) = tool_events (fst st) @ List.map_filter event_of (content m)"
  by (cases st; cases "fst st" rule: rev_cases) (auto simp: merge_step_def map_filter_append)

lemma merge_consecutive_events: "tool_events (fst (merge_consecutive_messages ms)) = tool_events ms"
proof -
  have "tool_events (fst (foldl merge_step st ms)) = tool_events (fst st) @ tool_events ms" for st
    by (induction ms arbitrary: st) (simp_all add: merge_step_events)
  then show ?thesis by (simp add: merge_consecutive_messages_def)
qed

definition user_opens :: "message list \<Rightarrow> bool" where
  "user_opens ms = (ms \<noteq> [] \<and> message_texts (hd ms) \<noteq> [])"

lemma user_opens_simps [simp]: "\<not> user_opens []" "user_opens (m # ms) \<longleftrightarrow> message_texts m \<noteq> []"
  by (simp_all add: user_opens_def)

lemma each_message_opens:
  assumes "\<And>m. message_texts (fst (f m)) = message_texts m"
  shows "user_opens (fst (each_message f ms)) = user_opens ms"
  by (cases ms) (simp_all add: each_message_def assms)

lemma merge_fold_opens: "user_opens (fst st) \<Longrightarrow> user_opens (fst (foldl merge_step st ms))"
proof (induction ms arbitrary: st)
  case (Cons m ms)
  have "user_opens (fst (merge_step st m))"
  proof (cases "fst st" rule: rev_cases)
    case (snoc xs x)
    show ?thesis
    proof (cases "effective_role x = effective_role m")
      case True
      then have "role x = role m" by (rule effective_role_role)
      with True snoc Cons.prems show ?thesis
        by (cases st; cases xs) (auto simp: merge_step_def message_texts_merged)
    next
      case False
      with snoc Cons.prems show ?thesis by (cases st; cases xs) (auto simp: merge_step_def)
    qed
  qed (use Cons.prems in simp)
  with Cons.IH show ?case by simp
qed simp

lemma trailing_paired:
  assumes "run_events {} (tool_events ms) = Some {}" and "list_all role_clean ms"
  shows "run_events {} (tool_events (fst (drop_trailing ms))) = Some {}"
proof (cases "ms \<noteq> [] \<and> role (last ms) = Assistant")
  case True
  then obtain xs x where ms: "ms = xs @ [x]" "role x = Assistant" by (cases ms rule: rev_cases) auto
  have "e \<in> set (List.map_filter event_of (content x)) \<Longrightarrow> \<exists>i. e = Req i" for e
    using assms(2) ms by (auto simp: role_clean_def list_all_iff List.map_filter_def allowed_item_def
        elim!: event_of.elims dest!: bspec)
  moreover have "(\<forall>e\<in>set es. \<exists>i. e = Req i) \<Longrightarrow> run_events s es = Some (s \<union> set (requested es))" for s es
    by (induction s es rule: run_events.induct) auto
  ultimately have r: "run_events s (List.map_filter event_of (content x))
      = Some (s \<union> set (requested (List.map_filter event_of (content x))))" for s
    by blast
  from assms(1) ms r show ?thesis
    by (auto simp: run_events_append drop_trailing_def bind_eq_Some_conv)
next
  case False
  then have "drop_trailing ms = (ms, [])" by (auto simp: drop_trailing_def)
  with assms show ?thesis by simp
qed

lemma opens_keeps_head: "user_opens ms \<Longrightarrow> role (hd ms) = User"
  by (cases ms; cases "role (hd ms)") (simp_all add: user_opens_def)

lemma remove_empty_opens: "user_opens ms \<Longrightarrow> user_opens (fst (remove_empty_messages ms))"
  by (cases ms) (auto simp: remove_empty_messages_def dest: empty_message_texts)

lemma merge_text_opens: "user_opens (fst (merge_text_content_items ms)) = user_opens ms"
  unfolding merge_text_content_items_def
  by (rule each_message_opens)
    (simp add: merge_text_message_def merge_text_content_in_message_def message_texts_def Let_def)

lemma trim_opens: "user_opens (fst (trim_assistant_text_whitespace ms)) = user_opens ms"
  unfolding trim_assistant_text_whitespace_def
  by (rule each_message_opens) (simp add: trim_message_def message_texts_def each_item_def)

lemma fix_results_opens: "user_opens (fst (fix_empty_tool_results b64 ms)) = user_opens ms"
proof -
  have t: "as_text (fst (fix_result_item b64 c)) = as_text c" for c
    by (auto simp: fix_result_item_def split: message_content.splits sum.splits)
  then show ?thesis
    unfolding fix_empty_tool_results_def
    by (intro each_message_opens)
      (simp add: message_texts_def each_item_def List.map_filter_def filter_map o_def)
qed

lemma tool_calling_opens:
  assumes "user_opens ms"
  shows "user_opens (fst (fix_tool_calling ms))"
proof -
  obtain ms1 p i where s: "screen_messages {} ms = (ms1, p, i)" by (metis prod_cases3)
  have "user_opens ms1"
    using assms s by (cases ms) (auto simp: message_texts_def split: prod.splits if_splits dest: screen_items_texts)
  then have "user_opens (map (\<lambda>m. fst (drop_orphan_requests p m)) ms1)"
    by (cases ms1; cases "role (hd ms1)") (simp_all add: drop_orphan_requests_def)
  then show ?thesis
    by (simp add: fix_tool_calling_def pair_tool_calls_screened [OF s] remove_empty_opens)
qed

text \<open>
  C6. Tool calls pair up after the repair: when no two tool requests of the assistant have the same id and
  the conversation opens with words of the user, every tool response in the result answers an earlier
  open request and every request is answered later.
\<close>

theorem fix_messages_pairs_tool_calls:
  assumes "distinct (assistant_requests ms)" and "user_opens ms"
  shows "tool_calls_paired (fst (fix_messages b64 nfc now ms))"
proof -
  let ?s = "fst (fix_empty_tool_results b64 (fst (remove_empty_messages
    (fst (trim_assistant_text_whitespace (fst (merge_text_content_items ms)))))))"
  let ?t = "fst (fix_tool_calling ?s)"
  let ?m = "fst (merge_consecutive_messages ?t)"
  have "distinct (assistant_requests ?s)" and o: "user_opens ?s"
    using assms
    by (simp_all add: merge_text_pass_requests trim_pass_requests fix_results_requests
        remove_empty_requests merge_text_opens trim_opens fix_results_opens remove_empty_opens)
  then have "tool_calls_paired ?t" by (intro tool_calling_paired)
  then have p: "run_events {} (tool_events ?m) = Some {}"
    by (simp add: tool_calls_paired_def merge_consecutive_events)
  have c: "list_all role_clean ?m" by (intro merge_consecutive_clean tool_calling_clean)
  obtain t0 ts where t: "?t = t0 # ts" and t0: "message_texts t0 \<noteq> []"
    using tool_calling_opens [OF o] by (cases ?t) auto
  have "user_opens ?m"
    unfolding merge_consecutive_messages_def using merge_fold_opens [of "([t0], [])" ts] t t0
    by (simp add: merge_step_def)
  then have "role (hd ?m) = User" by (rule opens_keeps_head)
  then have "fst (fix_lead_trail ?m) = fst (drop_trailing ?m)"
    by (simp add: fix_lead_trail_def drop_leading_def)
  with trailing_paired [OF p c] have "tool_calls_paired (fst (fix_lead_trail ?m))"
    by (simp add: tool_calls_paired_def)
  then show ?thesis
    by (simp add: fix_messages_then repaired_then populate_if_empty_def with_text_def with_content_def
        message_user_def message_new_def mk_text_def tool_calls_paired_def List.map_filter_simps)
qed

text \<open>
  A conversation the constructor accepts needs no repair: it is what the caller gave, the
  repair returns it unchanged, and it has the shape and the roles of a repaired conversation.
\<close>

lemma conversation_new_accepts:
  assumes "conversation_new b64 nfc now ms = Ok conv"
  shows "conv = ms \<and> fix_messages b64 nfc now ms = (ms, []) \<and> list_all role_clean ms
    \<and> role (hd ms) = User \<and> role (last ms) = User \<and> well_alternating ms"
proof -
  have c: "conv = ms" and s: "snd (fix_messages b64 nfc now ms) = []"
    using assms by (auto simp: conversation_new_def Let_def split: if_splits)
  with fixer.quiet [OF s] have e: "fix_messages b64 nfc now ms = (ms, [])"
    by (simp add: prod_eq_iff)
  show ?thesis
    using c e fixed_shape [of b64 nfc now ms] fixed_role_clean [of b64 nfc now ms] by simp
qed


section \<open>Visibility\<close>

text \<open>A pass invents no message: no more messages, and no metadata that was not there.\<close>

locale shrinking_pass =
  fixes pass :: pass
  assumes no_longer: "length (fst (pass ms)) \<le> length ms"
    and metadata_from: "metadata ` set (fst (pass ms)) \<subseteq> metadata ` set ms"
begin

lemma shrinking_then:
  assumes "shrinking_pass g"
  shows "shrinking_pass (then_pass pass g)"
proof
  show "length (fst (then_pass pass g ms)) \<le> length ms" for ms
    using no_longer [of ms] shrinking_pass.no_longer [OF assms, of "fst (pass ms)"] by simp
  show "metadata ` set (fst (then_pass pass g ms)) \<subseteq> metadata ` set ms" for ms
    using metadata_from [of ms] shrinking_pass.metadata_from [OF assms, of "fst (pass ms)"] by simp
qed

lemma keeps_visible:
  "list_all is_agent_visible ms \<Longrightarrow> list_all is_agent_visible (fst (pass ms))"
  using metadata_from [of ms] by (fastforce simp: list_all_iff is_agent_visible_def)

end

lemma each_message_shrinks:
  assumes "\<And>m. metadata (fst (f m)) = metadata m"
  shows "shrinking_pass (each_message f)"
  by unfold_locales (auto simp: each_message_def assms)

interpretation merge_text_size: shrinking_pass merge_text_content_items
  unfolding merge_text_content_items_def
  by (rule each_message_shrinks) (simp add: merge_text_message_def merge_text_content_in_message_def Let_def)

interpretation trim_size: shrinking_pass trim_assistant_text_whitespace
  unfolding trim_assistant_text_whitespace_def
  by (rule each_message_shrinks) (simp add: trim_message_def each_item_def)

interpretation remove_empty_size: shrinking_pass remove_empty_messages
  by unfold_locales (auto simp: remove_empty_messages_def)

interpretation fix_results_size: shrinking_pass "fix_empty_tool_results b64" for b64
  unfolding fix_empty_tool_results_def by (rule each_message_shrinks) (simp add: each_item_def)

lemma screen_messages_metadata:
  "screen_messages p ms = (ms', p', is) \<Longrightarrow> map metadata ms' = map metadata ms"
  by (induction ms arbitrary: p ms' p' "is") (auto split: prod.splits)

interpretation pair_calls_size: shrinking_pass pair_tool_calls
proof
  fix ms
  obtain ms1 p i where s: "screen_messages {} ms = (ms1, p, i)" by (metis prod_cases3)
  have "metadata (fst (drop_orphan_requests p m)) = metadata m" for m
    by (simp add: drop_orphan_requests_def)
  then have e: "map metadata (fst (pair_tool_calls ms)) = map metadata ms"
    using screen_messages_metadata [OF s] by (simp add: pair_tool_calls_screened [OF s] o_def)
  show "length (fst (pair_tool_calls ms)) \<le> length ms" using map_eq_imp_length_eq [OF e] by simp
  show "metadata ` set (fst (pair_tool_calls ms)) \<subseteq> metadata ` set ms"
    using arg_cong [OF e, of set] by simp
qed

interpretation tool_calling_size: shrinking_pass fix_tool_calling
  unfolding fix_tool_calling_def
  by (rule pair_calls_size.shrinking_then) (rule remove_empty_size.shrinking_pass_axioms)

lemma merge_step_size:
  "length (fst (merge_step st m)) \<le> Suc (length (fst st))
   \<and> metadata ` set (fst (merge_step st m)) \<subseteq> insert (metadata m) (metadata ` set (fst st))"
  by (cases st; cases "fst st" rule: rev_cases) (auto simp: merge_step_def)

interpretation merge_size: shrinking_pass merge_consecutive_messages
proof
  have "length (fst (foldl merge_step st ms)) \<le> length (fst st) + length ms
    \<and> metadata ` set (fst (foldl merge_step st ms)) \<subseteq> metadata ` set (fst st) \<union> metadata ` set ms" for st ms
  proof (induction ms arbitrary: st)
    case (Cons m ms)
    note IH = Cons [of "merge_step st m"]
    have "length (fst (foldl merge_step (merge_step st m) ms)) \<le> length (fst st) + length (m # ms)"
      using IH merge_step_size [of st m] by simp
    moreover have "metadata ` set (fst (foldl merge_step (merge_step st m) ms))
        \<subseteq> metadata ` set (fst st) \<union> metadata ` set (m # ms)"
      using IH merge_step_size [of st m] by (simp del: image_insert) blast
    ultimately show ?case by simp
  qed simp
  from this [of "([], [])"]
  show "length (fst (merge_consecutive_messages ms)) \<le> length ms"
    and "metadata ` set (fst (merge_consecutive_messages ms)) \<subseteq> metadata ` set ms" for ms
    by (simp_all add: merge_consecutive_messages_def)
qed

interpretation lead_trail_size: shrinking_pass fix_lead_trail
proof
  show "length (fst (fix_lead_trail ms)) \<le> length ms" for ms
    by (simp add: fix_lead_trail_def drop_leading_def drop_trailing_def)
  show "metadata ` set (fst (fix_lead_trail ms)) \<subseteq> metadata ` set ms" for ms
    using lead_trail_subset by (rule image_mono)
qed

interpretation nothing_size: shrinking_pass no_pass
  by unfold_locales (simp_all add: no_pass_def)

lemma shrinking_fold:
  assumes "shrinking_pass f" and "list_all shrinking_pass fs"
  shows "shrinking_pass (foldl then_pass f fs)"
  using assms by (induction fs arbitrary: f) (auto intro: shrinking_pass.shrinking_then)

interpretation repair_size: shrinking_pass "foldl then_pass no_pass (repair_passes b64)" for b64
  by (rule shrinking_fold)
    (simp_all add: repair_passes_def nothing_size.shrinking_pass_axioms
      merge_text_size.shrinking_pass_axioms trim_size.shrinking_pass_axioms
      remove_empty_size.shrinking_pass_axioms fix_results_size.shrinking_pass_axioms
      tool_calling_size.shrinking_pass_axioms merge_size.shrinking_pass_axioms
      lead_trail_size.shrinking_pass_axioms)

lemma fixed_length: "ms \<noteq> [] \<Longrightarrow> length (fst (fix_messages b64 nfc now ms)) \<le> length ms"
  using repair_size.no_longer [of b64 ms]
  by (auto simp: fix_messages_then populate_if_empty_def Suc_le_eq)

lemma fixed_visible:
  "list_all is_agent_visible ms \<Longrightarrow> list_all is_agent_visible (fst (fix_messages b64 nfc now ms))"
  using repair_size.keeps_visible [of ms b64]
  by (auto simp: fix_messages_then populate_if_empty_def with_text_def with_content_def
      message_user_def message_new_def is_agent_visible_def default_metadata_def)

lemma filled_slots:
  assumes "list_all is_agent_visible fixed"
  shows "filter is_agent_visible (List.map_filter (fill_slot fixed) (shadow_slots n ms))
      = take (length (filter is_agent_visible ms)) (drop n fixed)"
    and "filter (\<lambda>m. \<not> is_agent_visible m) (List.map_filter (fill_slot fixed) (shadow_slots n ms))
      = filter (\<lambda>m. \<not> is_agent_visible m) ms"
proof -
  have v: "is_agent_visible (fixed ! n)" if "n < length fixed" for n
    using assms that by (simp add: list_all_length)
  show "filter is_agent_visible (List.map_filter (fill_slot fixed) (shadow_slots n ms))
      = take (length (filter is_agent_visible ms)) (drop n fixed)"
    by (induction ms arbitrary: n)
      (auto simp: List.map_filter_simps fill_slot_def v Cons_nth_drop_Suc [symmetric] split: if_splits)
  show "filter (\<lambda>m. \<not> is_agent_visible m) (List.map_filter (fill_slot fixed) (shadow_slots n ms))
      = filter (\<lambda>m. \<not> is_agent_visible m) ms"
    by (induction ms arbitrary: n) (auto simp: List.map_filter_simps fill_slot_def v)
qed

text \<open>
  \<open>fix_conversation\<close> repairs exactly what the agent sees: the messages hidden from the agent
  stay as they are and in order, and the visible ones are the repaired visible messages. The one
  exception is a conversation with no visible message: the placeholder that the repair adds has no
  slot and is dropped, although the issue is reported.
\<close>

lemma fix_conversation_visible:
  "filter (\<lambda>m. \<not> is_agent_visible m) (fst (fix_conversation b64 nfc now conv))
     = filter (\<lambda>m. \<not> is_agent_visible m) conv
   \<and> filter is_agent_visible (fst (fix_conversation b64 nfc now conv))
     = (if filter is_agent_visible conv = [] then []
        else fst (fix_messages b64 nfc now (filter is_agent_visible conv)))"
proof -
  let ?v = "filter is_agent_visible conv" and ?f = "fst (fix_messages b64 nfc now (filter is_agent_visible conv))"
  have "list_all is_agent_visible ?f" by (rule fixed_visible) (simp add: list_all_iff)
  note filled_slots [OF this, of 0 conv]
  moreover have "take (length ?v) ?f = ?f" if "?v \<noteq> []"
    using fixed_length [OF that] by simp
  ultimately show ?thesis
    by (auto simp: fix_conversation_def split: prod.splits)
qed

section \<open>Streaming\<close>

definition is_text_delta :: "str \<Rightarrow> str \<Rightarrow> message \<Rightarrow> bool" where
  "is_text_delta i s m = (msg_id m = Some i \<and> content m = [mk_text s] \<and> inference (metadata m) = None)"

lemma push_text_delta:
  assumes "is_text_delta i s m" and "msg_id l = Some i" and "content l = [mk_text t]"
  shows "push_message m (conv @ [l]) = conv @ [l\<lparr>content := [mk_text (t @ s)]\<rparr>]"
  using assms by (simp add: push_message_def is_text_delta_def extend_content_def mk_text_def)

lemma push_text_deltas:
  assumes "list_all2 (is_text_delta i) ss ds" and "msg_id l = Some i" and "content l = [mk_text t]"
  shows "extend_conversation ds (conv @ [l]) = conv @ [l\<lparr>content := [mk_text (t @ concat ss)]\<rparr>]"
  using assms
proof (induction ss ds arbitrary: l t rule: list_all2_induct)
  case Nil
  then show ?case by (simp add: extend_conversation_def)
next
  case (Cons s ss d ds)
  from Cons.IH [of "l\<lparr>content := [mk_text (t @ s)]\<rparr>" "t @ s"] Cons.prems Cons.hyps
  show ?case by (simp add: extend_conversation_def push_text_delta)
qed

text \<open>
  Streaming: the text deltas of one message, pushed one after the other, end up as one message
  with the metadata of the first delta and the concatenation of the texts, after the messages that
  were there.
\<close>

lemma push_text_stream:
  assumes "list_all2 (is_text_delta i) (s # ss) (d # ds)"
    and "conv = [] \<or> msg_id (last conv) \<noteq> Some i"
  shows "extend_conversation (d # ds) conv = conv @ [d\<lparr>content := [mk_text (concat (s # ss))]\<rparr>]"
proof -
  have d: "is_text_delta i s d" and ds: "list_all2 (is_text_delta i) ss ds" using assms(1) by auto
  have "push_message d conv = conv @ [d]"
    using assms(2) d by (auto simp: push_message_def is_text_delta_def)
  with push_text_deltas [OF ds, of d s conv] d show ?thesis
    by (simp add: extend_conversation_def is_text_delta_def)
qed

section \<open>Samples\<close>

definition say :: "role \<Rightarrow> message_content list \<Rightarrow> message" where
  "say r cs = message_new r 0 cs"

definition sample_call :: "string \<Rightarrow> message_content" where
  "sample_call i = mk_tool_request (lit i) (Ok \<lparr>tool_name = lit ''shell'', arguments = None\<rparr>)"

definition sample_answer :: "string \<Rightarrow> message_content" where
  "sample_answer i = mk_tool_response (lit i) (Ok \<lparr>result_content =
     [\<lparr>raw = RawText (lit ''ok''), content_audience = None\<rparr>], structured_content = None, is_error = None, result_meta = None\<rparr>)"

definition sample_talk :: "message list" where
  "sample_talk = [say User [mk_text (lit ''hi'')], say Assistant [sample_call ''1''],
     say User [sample_answer ''1''], say User [mk_text (lit ''bye'')]]"

definition no_b64 :: "str \<Rightarrow> nat list option" where "no_b64 s = None"

lemmas content_eval = mk_text_def mk_tool_request_def mk_tool_response_def sample_call_def sample_answer_def
  say_def message_new_def

lemmas pass_eval = fix_messages_def repair_passes_def then_pass_def no_pass_def
  merge_text_content_items_def each_message_def merge_text_message_def merge_text_content_in_message_def
  merge_text_item_def trim_assistant_text_whitespace_def trim_message_def each_item_def trim_text_item_def
  remove_empty_messages_def is_empty_message_def fix_empty_tool_results_def fix_result_item_def
  has_tool_result_content_def fix_tool_calling_def pair_tool_calls_def screen_item_def
  screen_user_item_def screen_assistant_item_def drop_orphan_requests_def orphan_request_def
  merge_consecutive_messages_def merge_step_def effective_role_def is_tool_response_def
  fix_lead_trail_def drop_leading_def drop_trailing_def populate_if_empty_def Let_def

lemma sample_talk_fixed: "fix_messages no_b64 id 0 sample_talk = (sample_talk, [])"
  unfolding sample_talk_def content_eval by (simp add: pass_eval trim_end_def is_ws_def)

text \<open>
  A conversation that opens with a tool request of the assistant: the repair first accepts the
  response as paired, then removes the leading message with the request. The result holds an
  orphaned response and is not repaired: a second repair would remove the response.
\<close>

definition opening_call :: "message list" where
  "opening_call = [say Assistant [sample_call ''1''], say User [sample_answer ''1''],
     say User [mk_text (lit ''bye'')]]"

lemma opening_call_orphan:
  "fst (fix_messages no_b64 id 0 opening_call) = tl opening_call
   \<and> \<not> tool_calls_paired (tl opening_call)
   \<and> fst (fix_messages no_b64 id 0 (tl opening_call)) = tl (tl opening_call)"
proof (intro conjI)
  show "fst (fix_messages no_b64 id 0 opening_call) = tl opening_call"
    unfolding opening_call_def content_eval by (simp add: pass_eval trim_end_def is_ws_def)
  show "\<not> tool_calls_paired (tl opening_call)"
    by (simp add: opening_call_def tool_calls_paired_def content_eval List.map_filter_simps)
  show "fst (fix_messages no_b64 id 0 (tl opening_call)) = tl (tl opening_call)"
    unfolding opening_call_def content_eval by (simp add: pass_eval trim_end_def is_ws_def)
qed

text \<open>
  A tool call id used twice, answered once: both requests are removed as orphans, the response to
  the first stays.
\<close>

definition repeated_call :: "message list" where
  "repeated_call = [say User [mk_text (lit ''hi'')], say Assistant [sample_call ''1''],
     say User [sample_answer ''1''], say Assistant [sample_call ''1''], say User [mk_text (lit ''bye'')]]"

lemma repeated_call_orphan: "\<not> tool_calls_paired (fst (fix_messages no_b64 id 0 repeated_call))"
proof -
  have "fst (fix_messages no_b64 id 0 repeated_call) =
    [say User [mk_text (lit ''hi'')], say User [sample_answer ''1''], say User [mk_text (lit ''bye'')]]"
    unfolding repeated_call_def content_eval by (simp add: pass_eval trim_end_def is_ws_def)
  then show ?thesis
    by (simp add: tool_calls_paired_def content_eval List.map_filter_simps)
qed

theorem fix_messages_keeps_user_texts_witness:
  "user_texts (fst (fix_messages no_b64 id 0 sample_talk)) = [lit ''hi'', lit ''bye'']"
proof -
  have "user_texts sample_talk = [lit ''hi'', lit ''bye'']"
    by (simp add: sample_talk_def content_eval message_texts_def List.map_filter_simps)
  with fix_messages_keeps_user_texts [of sample_talk no_b64 id 0] show ?thesis by simp
qed

theorem fix_messages_pairs_tool_calls_witness:
  "assistant_requests sample_talk = [lit ''1'']
   \<and> tool_calls_paired (fst (fix_messages no_b64 id 0 sample_talk))"
proof
  show a: "assistant_requests sample_talk = [lit ''1'']"
    by (simp add: sample_talk_def content_eval List.map_filter_simps)
  show "tool_calls_paired (fst (fix_messages no_b64 id 0 sample_talk))"
    by (rule fix_messages_pairs_tool_calls)
      (simp_all only: a, simp_all add: sample_talk_def content_eval message_texts_def List.map_filter_simps)
qed

lemma conversation_new_accepts_witness:
  "conversation_new no_b64 id 0 sample_talk = Ok sample_talk \<and> well_alternating sample_talk"
proof -
  have "conversation_new no_b64 id 0 sample_talk = Ok sample_talk"
    by (simp add: conversation_new_def sample_talk_fixed Let_def)
  with conversation_new_accepts [OF this] show ?thesis by simp
qed

definition delta :: "string \<Rightarrow> message" where
  "delta s = (say Assistant [mk_text (lit s)])\<lparr>msg_id := Some (lit ''m'')\<rparr>"

lemma push_text_stream_witness:
  "extend_conversation [delta ''a'', delta ''b'', delta ''c''] sample_talk
     = sample_talk @ [(delta ''a'')\<lparr>content := [mk_text (lit ''abc'')]\<rparr>]"
proof -
  have "list_all2 (is_text_delta (lit ''m'')) [lit ''a'', lit ''b'', lit ''c'']
      [delta ''a'', delta ''b'', delta ''c'']"
    by (simp add: is_text_delta_def delta_def content_eval default_metadata_def)
  moreover have "sample_talk = [] \<or> msg_id (last sample_talk) \<noteq> Some (lit ''m'')"
    by (simp add: sample_talk_def content_eval)
  ultimately show ?thesis
    using push_text_stream [of "lit ''m''" "lit ''a''" "[lit ''b'', lit ''c'']" "delta ''a''"] by simp
qed

end
