(* ===== verification/ExecPolicy.thy ===== *)
theory ExecPolicy
  imports Prelude
begin

text \<open>
  \<open>crates/bharatcode-core/src/exec_policy.rs\<close>: the opt-in gate that screens shell commands against
  lists of denied and allowed command prefixes. The environment variable, the reading of the policy
  file and the JSON deserialiser of the \<open>serde_json\<close> crate are parameters.
\<close>

definition ENV_VAR :: str where "ENV_VAR = lit ''BHARATCODE_EXEC_POLICY''"

datatype decision = Allow | Deny str

record exec_policy =
  allow :: "str list"
  deny :: "str list"

definition from_json :: "(str \<Rightarrow> (str, exec_policy) result) \<Rightarrow> str \<Rightarrow> (str, exec_policy) result" where
  "from_json serde t = (case serde t of
     Ok p \<Rightarrow> Ok p | Err e \<Rightarrow> Err (lit ''invalid exec policy JSON: '' @ e))"

section \<open>Splitting a command line\<close>

abbreviation single_quote :: uchar where "single_quote \<equiv> 39"
abbreviation double_quote :: uchar where "double_quote \<equiv> 34"

text \<open>The step over a doubled operator.\<close>

definition skip_same :: "uchar \<Rightarrow> str \<Rightarrow> str" where
  "skip_same c cs = (if cs \<noteq> [] \<and> hd cs = c then tl cs else cs)"

lemma skip_same_length [termination_simp]: "length (skip_same c cs) < Suc (length cs)"
  by (cases cs) (simp_all add: skip_same_def)

text \<open>
  The loop of \<open>split_segments\<close> with its two quote flags and the current segment: the segments of
  the rest of the line.
\<close>

fun segments :: "bool \<Rightarrow> bool \<Rightarrow> str \<Rightarrow> str \<Rightarrow> str list" where
  "segments in_single in_double cur [] = [cur]"
| "segments in_single in_double cur (c # cs) =
     (if in_single then segments (c \<noteq> single_quote) in_double (cur @ [c]) cs
      else if in_double then segments False (c \<noteq> double_quote) (cur @ [c]) cs
      else if c = single_quote then segments True False (cur @ [c]) cs
      else if c = double_quote then segments False True (cur @ [c]) cs
      else if c = 59 \<or> c = newline then cur # segments False False [] cs
      else if c = 38 then cur # segments False False [] (skip_same 38 cs)
      else if c = 124 then cur # segments False False [] (skip_same 124 cs)
      else if c = 96 \<or> c = 40 \<or> c = 41 then cur # segments False False [] cs
      else if c = 123 \<and> \<not> (cur \<noteq> [] \<and> last cur = 36) then cur # segments False False [] cs
      else segments False False (cur @ [c]) cs)"

definition split_segments :: "str \<Rightarrow> str list" where
  "split_segments s = segments False False [] s"

definition tokenize :: "str \<Rightarrow> str list" where "tokenize = split_whitespace"

section \<open>Screening\<close>

fun matched_prefix :: "str list \<Rightarrow> str list \<Rightarrow> str option" where
  "matched_prefix [] tokens = None"
| "matched_prefix (p # ps) tokens =
     (let pt = tokenize p in
      if pt = [] \<or> length tokens < length pt then matched_prefix ps tokens
      else if take (length pt) tokens = pt then Some (join_with (lit '' '') pt)
      else matched_prefix ps tokens)"

definition denied_reason :: "str \<Rightarrow> str \<Rightarrow> str" where
  "denied_reason seg p = lit ''Command blocked by exec policy ('' @ ENV_VAR @ lit ''): `'' @ trim seg
     @ lit ''` matches denied prefix `'' @ p @ lit ''`.''"

definition unlisted_reason :: "str \<Rightarrow> str" where
  "unlisted_reason seg = lit ''Command blocked by exec policy ('' @ ENV_VAR @ lit ''): `'' @ trim seg
     @ lit ''` is not in the allowed-command list.''"

fun check_segments :: "exec_policy \<Rightarrow> str list \<Rightarrow> decision" where
  "check_segments p [] = Allow"
| "check_segments p (s # ss) = (let tokens = tokenize s in
     if tokens = [] then check_segments p ss
     else case matched_prefix (deny p) tokens of
       Some x \<Rightarrow> Deny (denied_reason s x)
     | None \<Rightarrow>
         if allow p \<noteq> [] \<and> matched_prefix (allow p) tokens = None then Deny (unlisted_reason s)
         else check_segments p ss)"

definition check :: "exec_policy \<Rightarrow> str \<Rightarrow> decision" where
  "check p line = check_segments p (split_segments line)"

text \<open>The policy file: \<open>env\<close> is the value of the variable, \<open>read\<close> is \<open>fs::read_to_string\<close>.\<close>

definition policy_path :: "str option \<Rightarrow> str option" where
  "policy_path env = Option.bind env (\<lambda>v. let t = trim v in
     if t = [] \<or> eq_ignore_ascii_case t (lit ''off'') \<or> eq_ignore_ascii_case t (lit ''false'')
       \<or> t = lit ''0''
     then None else Some t)"

definition load_policy ::
    "(str \<Rightarrow> (str, str) result) \<Rightarrow> (str \<Rightarrow> (str, exec_policy) result) \<Rightarrow> str \<Rightarrow> (str, exec_policy) result" where
  "load_policy read serde path = (case read path of
     Err e \<Rightarrow> Err (lit ''could not read '' @ path @ lit '': '' @ e)
   | Ok t \<Rightarrow> from_json serde t)"

definition check_command ::
    "str option \<Rightarrow> (str \<Rightarrow> (str, str) result) \<Rightarrow> (str \<Rightarrow> (str, exec_policy) result) \<Rightarrow> str \<Rightarrow> decision" where
  "check_command env read serde line = (case policy_path env of
     None \<Rightarrow> Allow
   | Some path \<Rightarrow> (case load_policy read serde path of
       Ok p \<Rightarrow> check p line
     | Err e \<Rightarrow> Deny (lit ''Command blocked: exec policy is enabled ('' @ ENV_VAR
         @ lit '') but could not be loaded: '' @ e)))"

section \<open>What the gate decides\<close>

text \<open>A segment matches an entry when the entry's tokens are its leading tokens.\<close>

definition matches_entry :: "str list \<Rightarrow> str \<Rightarrow> bool" where
  "matches_entry entries seg =
     (\<exists>e\<in>set entries. tokenize e \<noteq> [] \<and> prefix (tokenize e) (tokenize seg))"

definition segment_ok :: "exec_policy \<Rightarrow> str \<Rightarrow> bool" where
  "segment_ok p seg = (tokenize seg = [] \<or>
     \<not> matches_entry (deny p) seg \<and> (allow p = [] \<or> matches_entry (allow p) seg))"

lemma matched_prefix_None: "matched_prefix es (tokenize seg) = None \<longleftrightarrow> \<not> matches_entry es seg"
proof (induction es)
  case (Cons e es)
  have "take (length (tokenize e)) (tokenize seg) = tokenize e \<and> length (tokenize e) \<le> length (tokenize seg)
      \<longleftrightarrow> prefix (tokenize e) (tokenize seg)"
    by (auto simp: prefix_def) (metis append_take_drop_id)
  with Cons show ?case by (auto simp: matches_entry_def Let_def)
qed (simp add: matches_entry_def)

lemma check_segments_Allow: "check_segments p ss = Allow \<longleftrightarrow> (\<forall>s\<in>set ss. segment_ok p s)"
  by (induction ss) (auto simp: segment_ok_def Let_def matched_prefix_None [symmetric] split: option.splits)

lemma check_Allow: "check p line = Allow \<longleftrightarrow> (\<forall>s\<in>set (split_segments line). segment_ok p s)"
  by (simp add: check_def check_segments_Allow)

section \<open>Chained commands\<close>

text \<open>The quote flags after a text, as the loop keeps them.\<close>

fun quotes_after :: "bool \<times> bool \<Rightarrow> str \<Rightarrow> bool \<times> bool" where
  "quotes_after q [] = q"
| "quotes_after (s, d) (c # cs) = quotes_after
     (if s then (c \<noteq> single_quote, d) else if d then (False, c \<noteq> double_quote)
      else (c = single_quote, c = double_quote)) cs"

definition quotes_closed :: "str \<Rightarrow> bool" where
  "quotes_closed s = (quotes_after (False, False) s = (False, False))"

text \<open>
  \<open>op\<close> between the texts \<open>a\<close> and \<open>b\<close> is a separator of the shell, read as such: a doubled operator
  is not half of a longer run.
\<close>

definition separates :: "str \<Rightarrow> str \<Rightarrow> str \<Rightarrow> bool" where
  "separates op a b =
     (op \<in> {lit '';'', [newline], [96], lit ''('', lit '')''}
      \<or> (\<exists>c\<in>{38, 124}. (op = [c] \<and> (b = [] \<or> hd b \<noteq> c) \<or> op = [c, c]) \<and> (a = [] \<or> last a \<noteq> c)))"

lemma skip_same_append:
  assumes "op \<noteq> []" and "cs = [] \<Longrightarrow> hd op \<noteq> c"
  shows "skip_same c (cs @ op @ b) = skip_same c cs @ op @ b"
  using assms by (cases cs) (auto simp: skip_same_def)

lemma quotes_after_skip: "c \<noteq> single_quote \<Longrightarrow> c \<noteq> double_quote \<Longrightarrow>
    quotes_after (False, False) (skip_same c cs) = quotes_after (False, False) cs"
  by (cases cs) (simp_all add: skip_same_def)

lemma skip_same_last: "skip_same c cs \<noteq> [] \<Longrightarrow> last (skip_same c cs) = last cs"
  by (cases cs) (auto simp: skip_same_def)

lemma segments_append:
  assumes "quotes_after (s, d) a = (False, False)" and "op \<noteq> []"
    and "\<And>cur. segments False False cur (op @ b) = cur # segments False False [] b"
    and "a = [] \<or> last a \<notin> {38, 124} \<or> hd op \<noteq> last a"
  shows "segments s d cur (a @ op @ b) = segments s d cur a @ segments False False [] b"
  using assms(1,4)
proof (induction "length a" arbitrary: s d cur a rule: less_induct)
  case less
  show ?case
  proof (cases a)
    case Nil
    with less.prems show ?thesis by (simp add: assms(3))
  next
    case (Cons c cs)
    have cs: "cs = [] \<or> last cs \<notin> {38, 124} \<or> hd op \<noteq> last cs"
      using less.prems Cons by (cases "cs = []") simp_all
    have IH: "segments s' d' cur' (cs @ op @ b) = segments s' d' cur' cs @ segments False False [] b"
      if "quotes_after (s', d') cs = (False, False)" for s' d' cur'
      using that cs Cons by (intro less.hyps) simp_all
    show ?thesis
    proof (cases "\<not> s \<and> \<not> d \<and> c \<in> {38, 124}")
      case True
      have "skip_same c (cs @ op @ b) = skip_same c cs @ op @ b"
        using True less.prems Cons by (intro skip_same_append assms(2)) auto
      moreover have "segments False False [] (skip_same c cs @ op @ b)
          = segments False False [] (skip_same c cs) @ segments False False [] b"
      proof (rule less.hyps)
        show "length (skip_same c cs) < length a" using Cons by (simp add: skip_same_length)
        show "quotes_after (False, False) (skip_same c cs) = (False, False)"
          using True less.prems Cons by (auto simp: quotes_after_skip)
        show "skip_same c cs = [] \<or> last (skip_same c cs) \<notin> {38, 124} \<or> hd op \<noteq> last (skip_same c cs)"
          using cs skip_same_last [of c cs] by (cases "cs = []") (auto simp: skip_same_def)
      qed
      ultimately show ?thesis using True Cons by auto
    next
      case False
      have q: "quotes_after (if s then (c \<noteq> single_quote, d) else if d then (False, c \<noteq> double_quote)
          else (c = single_quote, c = double_quote)) cs = (False, False)"
        using less.prems(1) unfolding Cons by simp
      show ?thesis
      proof (cases "s \<or> d")
        case True
        with q IH show ?thesis unfolding Cons by (cases s) simp_all
      next
        case no: False
        show ?thesis
        proof (cases "c = single_quote \<or> c = double_quote")
          case True
          with no q IH show ?thesis unfolding Cons by auto
        next
          case nq: False
          with no q have "quotes_after (False, False) cs = (False, False)" by simp
          note this [THEN IH]
          with no nq \<open>\<not> (\<not> s \<and> \<not> d \<and> c \<in> {38, 124})\<close> show ?thesis
            unfolding Cons by auto
        qed
      qed
    qed
  qed
qed

lemma separator_step:
  assumes "separates op a b"
  shows "segments False False cur (op @ b) = cur # segments False False [] b"
  using assms by (auto simp: separates_def skip_same_def)

lemma split_segments_chain:
  assumes "quotes_closed a" and "separates op a b"
  shows "split_segments (a @ op @ b) = split_segments a @ split_segments b"
  unfolding split_segments_def
proof (rule segments_append)
  show "quotes_after (False, False) a = (False, False)" using assms(1) by (simp add: quotes_closed_def)
  show "op \<noteq> []" "a = [] \<or> last a \<notin> {38, 124} \<or> hd op \<noteq> last a"
    using assms(2) by (auto simp: separates_def)
  show "segments False False cur (op @ b) = cur # segments False False [] b" for cur
    using assms(2) by (rule separator_step)
qed

text \<open>
  The decision: a command line is allowed exactly when each of its segments is blank, or
  matches no denied prefix and, where there is an allow list, matches one of its prefixes; the
  order of the lists does not matter and a denial wins.
\<close>

lemma check_allows_iff:
  "check p line = Allow \<longleftrightarrow> list_all (segment_ok p) (split_segments line)"
  by (simp add: check_Allow list_all_iff)

text \<open>
  C18. No smuggling: behind a text whose quotes are closed, a command chained with \<open>;\<close>, a line
  feed, \<open>&&\<close>, \<open>||\<close>, \<open>|\<close>, \<open>&\<close>, a backtick or a parenthesis is screened as if it stood alone: the
  chain is allowed exactly when both parts are.
\<close>

theorem check_chained:
  assumes "quotes_closed a" and "separates op a b"
  shows "check p (a @ op @ b) = Allow \<longleftrightarrow> check p a = Allow \<and> check p b = Allow"
  using split_segments_chain [OF assms] by (auto simp: check_Allow)

definition rm_policy :: exec_policy where
  "rm_policy = \<lparr>allow = [], deny = [lit ''rm -rf'']\<rparr>"

lemmas token_eval = split_whitespace_def tokenize_def is_ws_def

theorem check_chained_witness:
  "check rm_policy (lit ''echo ok'' @ lit ''&&'' @ lit ''rm -rf x'') \<noteq> Allow"
proof -
  have "check rm_policy (lit ''rm -rf x'') \<noteq> Allow"
    by (simp add: check_def split_segments_def rm_policy_def token_eval Let_def)
  moreover have "quotes_closed (lit ''echo ok'')" "separates (lit ''&&'') (lit ''echo ok'') (lit ''rm -rf x'')"
    by (simp_all add: quotes_closed_def separates_def)
  note check_chained [OF this, of rm_policy]
  ultimately show ?thesis by blast
qed

text \<open>
  An enabled policy fails closed: a command passes the gate only when the policy is switched
  off, or its file was read and parsed and the policy allows the command.
\<close>

lemma check_command_fails_closed:
  "check_command env read serde line = Allow \<longleftrightarrow>
     policy_path env = None
     \<or> (\<exists>path t p. policy_path env = Some path \<and> read path = Ok t \<and> serde t = Ok p \<and> check p line = Allow)"
  by (auto simp: check_command_def load_policy_def from_json_def split: option.splits sum.splits)

text \<open>
  What the quote flags miss: the shell runs a command substitution inside double quotes and reads a
  backslash before a quote as no quote at all; the loop keeps both texts in one segment, so a denied
  command in them is not screened.
\<close>

lemma quoted_substitution_unscreened:
  "check rm_policy (lit ''echo '' @ [double_quote] @ lit ''$(rm -rf x)'' @ [double_quote]) = Allow"
  by (simp add: check_def split_segments_def rm_policy_def token_eval Let_def)

lemma escaped_quote_unscreened:
  "check rm_policy (lit ''echo '' @ [92, double_quote] @ lit ''; rm -rf x'') = Allow"
  by (simp add: check_def split_segments_def rm_policy_def token_eval Let_def)

end
