(* ===== verification/ToolRetry.thy ===== *)
theory ToolRetry
  imports Message
begin

text \<open>
  \<open>crates/bharatcode-core/src/tool_retry.rs\<close>: the retry of a failed tool dispatch with bounded
  exponential backoff. A \<open>Duration\<close> is a number of nanoseconds. The dispatched future, the
  cancellation token and the timer of \<open>tokio\<close> are parameters over a state \<open>'w\<close>.
\<close>

section \<open>Classification\<close>

definition RETRY_KEY :: str where "RETRY_KEY = lit ''BHARATCODE_TOOL_RETRY''"
definition POLICY_DENY_MARKER :: str where "POLICY_DENY_MARKER = lit ''denied by policy hook''"

text \<open>The JSON-RPC codes of \<open>rmcp::model::ErrorCode\<close>.\<close>

definition PARSE_ERROR :: int where "PARSE_ERROR = -32700"
definition INVALID_REQUEST :: int where "INVALID_REQUEST = -32600"
definition METHOD_NOT_FOUND :: int where "METHOD_NOT_FOUND = -32601"
definition INVALID_PARAMS :: int where "INVALID_PARAMS = -32602"
definition INTERNAL_ERROR :: int where "INTERNAL_ERROR = -32603"

datatype disposition = Retryable | Terminal

definition classify :: "error_data \<Rightarrow> disposition" where
  "classify e = (if contains_str (err_message e) POLICY_DENY_MARKER then Terminal
     else if err_code e \<in> {INVALID_PARAMS, INVALID_REQUEST, PARSE_ERROR, METHOD_NOT_FOUND} then Terminal
     else Retryable)"

section \<open>Policy\<close>

type_synonym duration = nat

definition from_millis :: "nat \<Rightarrow> duration" where "from_millis n = n * 1000000"
definition from_secs :: "nat \<Rightarrow> duration" where "from_secs n = n * 1000000000"

definition U32_MAX :: nat where "U32_MAX = 4294967295"
definition U64_MAX :: nat where "U64_MAX = 18446744073709551615"
definition DURATION_MAX :: duration where "DURATION_MAX = U64_MAX * 1000000000 + 999999999"

definition checked_mul :: "duration \<Rightarrow> nat \<Rightarrow> duration option" where
  "checked_mul d n = (if d * n \<le> DURATION_MAX then Some (d * n) else None)"

definition clamp :: "nat \<Rightarrow> nat \<Rightarrow> nat \<Rightarrow> nat" where
  "clamp lo hi n = (if n < lo then lo else if hi < n then hi else n)"

definition MIN_ATTEMPTS :: nat where "MIN_ATTEMPTS = 1"
definition MAX_ATTEMPTS :: nat where "MAX_ATTEMPTS = 8"
definition MIN_BASE_DELAY :: duration where "MIN_BASE_DELAY = from_millis 1"
definition MAX_BASE_DELAY :: duration where "MAX_BASE_DELAY = from_secs 30"
definition DEFAULT_BASE_DELAY :: duration where "DEFAULT_BASE_DELAY = from_millis 200"

record retry_policy =
  attempts :: nat
  base_delay :: duration

definition single_policy :: retry_policy where
  "single_policy = \<lparr>attempts = 1, base_delay = DEFAULT_BASE_DELAY\<rparr>"

definition parse_duration :: "str \<Rightarrow> duration option" where
  "parse_duration s =
     (if s = [] then None
      else case strip_suffix s (lit ''ms'') of
        Some num \<Rightarrow> map_option from_millis (parse_unsigned U64_MAX (trim num))
      | None \<Rightarrow> (case strip_suffix s (lit ''s'') of
          Some num \<Rightarrow> map_option from_secs (parse_unsigned U64_MAX (trim num))
        | None \<Rightarrow> map_option from_millis (parse_unsigned U64_MAX s)))"

text \<open>\<open>splitn(2, ':')\<close>: the text before the first colon, and the rest where there is one.\<close>

definition split_colon :: "str \<Rightarrow> str \<times> str option" where
  "split_colon s = (let a = takeWhile (\<lambda>c. c \<noteq> 58) s
     in (a, if length a < length s then Some (drop (Suc (length a)) s) else None))"

definition parse_policy :: "str \<Rightarrow> retry_policy" where
  "parse_policy raw_spec = (let parts = split_colon (trim raw_spec) in
     case parse_unsigned U32_MAX (trim (fst parts)) of
       None \<Rightarrow> single_policy
     | Some n \<Rightarrow> \<lparr>attempts = clamp MIN_ATTEMPTS MAX_ATTEMPTS n,
         base_delay = clamp MIN_BASE_DELAY MAX_BASE_DELAY
           (case Option.bind (snd parts) (\<lambda>s. parse_duration (trim s)) of
              Some d \<Rightarrow> d | None \<Rightarrow> DEFAULT_BASE_DELAY)\<rparr>)"

definition policy_from_env :: "str option \<Rightarrow> retry_policy" where
  "policy_from_env env = (case env of Some raw_spec \<Rightarrow> parse_policy raw_spec | None \<Rightarrow> single_policy)"

definition is_off :: "retry_policy \<Rightarrow> bool" where "is_off p = (attempts p \<le> 1)"

text \<open>\<open>1u64.checked_shl\<close> fails from 64 on; the shifted bit never leaves the word before.\<close>

definition backoff_for :: "retry_policy \<Rightarrow> nat \<Rightarrow> duration" where
  "backoff_for p i = (let factor = (if i < 64 then 2 ^ i else U64_MAX) in
     min (case checked_mul (base_delay p) (min factor U32_MAX) of
            Some d \<Rightarrow> d | None \<Rightarrow> MAX_BASE_DELAY) MAX_BASE_DELAY)"

section \<open>The loop\<close>

text \<open>
  \<open>dispatch\<close> runs one attempt; \<open>cancelled\<close> is the token's \<open>is_cancelled\<close> (\<open>None\<close> for no token);
  \<open>sleep\<close> waits for the delay and says whether the token fired first.
\<close>

record ('w, 'a) retry_env =
  dispatch :: "'w \<Rightarrow> 'w \<times> (error_data, 'a) result"
  cancelled :: "('w \<Rightarrow> bool) option"
  sleep :: "'w \<Rightarrow> duration \<Rightarrow> 'w \<times> bool"

text \<open>The result, the final state, the errors that were retried and the delays slept.\<close>

record ('w, 'a) retry_run =
  outcome :: "(error_data, 'a) result"
  world :: 'w
  retried :: "error_data list"
  slept :: "duration list"

definition is_cancelled :: "('w, 'a) retry_env \<Rightarrow> 'w \<Rightarrow> bool" where
  "is_cancelled env w = (case cancelled env of None \<Rightarrow> False | Some c \<Rightarrow> c w)"

text \<open>The wait before the next attempt; without a token nothing wakes it early.\<close>

definition wait :: "('w, 'a) retry_env \<Rightarrow> 'w \<Rightarrow> duration \<Rightarrow> 'w \<times> bool" where
  "wait env w d = (if 0 < d then (let r = sleep env w d in (fst r, snd r \<and> cancelled env \<noteq> None))
     else (w, False))"

function retry_loop :: "('w, 'a) retry_env \<Rightarrow> retry_policy \<Rightarrow> nat \<Rightarrow> 'w \<Rightarrow> ('w, 'a) retry_run" where
  "retry_loop env p i w = (case dispatch env w of
     (w1, Ok v) \<Rightarrow> \<lparr>outcome = Ok v, world = w1, retried = [], slept = []\<rparr>
   | (w1, Err e) \<Rightarrow>
       if is_off p \<or> attempts p \<le> i + 1 \<or> classify e = Terminal
       then \<lparr>outcome = Err e, world = w1, retried = [], slept = []\<rparr>
       else if is_cancelled env w1 then \<lparr>outcome = Err e, world = w1, retried = [], slept = []\<rparr>
       else (let d = backoff_for p i; (w2, woken) = wait env w1 d in
         if woken then \<lparr>outcome = Err e, world = w2, retried = [], slept = [d]\<rparr>
         else (let r = retry_loop env p (i + 1) w2
               in r\<lparr>retried := e # retried r, slept := d # slept r\<rparr>)))"
  by pat_completeness auto
termination by (relation "measure (\<lambda>(env, p, i, w). attempts p - i)") auto

declare retry_loop.simps [simp del]

definition with_tool_retry_policy :: "('w, 'a) retry_env \<Rightarrow> retry_policy \<Rightarrow> 'w \<Rightarrow> ('w, 'a) retry_run" where
  "with_tool_retry_policy env p w = retry_loop env p 0 w"

definition with_tool_retry :: "str option \<Rightarrow> ('w, 'a) retry_env \<Rightarrow> 'w \<Rightarrow> ('w, 'a) retry_run" where
  "with_tool_retry var env w = with_tool_retry_policy env (policy_from_env var) w"

section \<open>Laws\<close>

lemma policy_from_env_bounds:
  "1 \<le> attempts (policy_from_env var) \<and> attempts (policy_from_env var) \<le> MAX_ATTEMPTS
   \<and> MIN_BASE_DELAY \<le> base_delay (policy_from_env var) \<and> base_delay (policy_from_env var) \<le> MAX_BASE_DELAY"
  by (simp add: policy_from_env_def parse_policy_def single_policy_def clamp_def Let_def
      MIN_ATTEMPTS_def MAX_ATTEMPTS_def MIN_BASE_DELAY_def MAX_BASE_DELAY_def DEFAULT_BASE_DELAY_def
      from_millis_def from_secs_def split: option.splits)

lemma backoff_max: "backoff_for p i \<le> MAX_BASE_DELAY"
  by (simp add: backoff_for_def Let_def)

lemma backoff_exact:
  assumes "MIN_BASE_DELAY \<le> base_delay p"
  shows "backoff_for p i = min (base_delay p * 2 ^ i) MAX_BASE_DELAY"
proof -
  have big: "MAX_BASE_DELAY \<le> base_delay p * k" if "32768 \<le> k" for k
  proof -
    have "MAX_BASE_DELAY \<le> MIN_BASE_DELAY * 32768"
      by (simp add: MAX_BASE_DELAY_def MIN_BASE_DELAY_def from_secs_def from_millis_def)
    also have "\<dots> \<le> base_delay p * k" using assms that by (rule mult_le_mono)
    finally show ?thesis .
  qed
  show ?thesis
  proof (cases "i < 32")
    case True
    then have "(2::nat) ^ i \<le> 2 ^ 31" by (intro power_increasing) simp_all
    then have "min (if i < 64 then 2 ^ i else U64_MAX) U32_MAX = 2 ^ i"
      using True by (simp add: U32_MAX_def)
    moreover have "MAX_BASE_DELAY \<le> DURATION_MAX"
      by (simp add: MAX_BASE_DELAY_def DURATION_MAX_def U64_MAX_def from_secs_def)
    ultimately show ?thesis by (auto simp: backoff_for_def checked_mul_def Let_def)
  next
    case False
    then have "(2::nat) ^ 32 \<le> 2 ^ i" by (intro power_increasing) simp_all
    then have "min (if i < 64 then 2 ^ i else U64_MAX) U32_MAX = U32_MAX" and b: "32768 \<le> (2::nat) ^ i"
      by (simp_all add: U32_MAX_def U64_MAX_def)
    then have "backoff_for p i = MAX_BASE_DELAY"
      using big [of U32_MAX] by (auto simp: backoff_for_def checked_mul_def Let_def U32_MAX_def)
    with big [OF b] show ?thesis by simp
  qed
qed

lemma sum_list_bound: "(\<And>x. x \<in> set xs \<Longrightarrow> x \<le> (b::nat)) \<Longrightarrow> sum_list xs \<le> length xs * b"
  by (induction xs) (auto simp: add_le_mono)

text \<open>
  A run is given up for the cancellation token where the token had fired when the failed attempt was over,
  or where it woke the wait for the next one.
\<close>

definition token_fired :: "('w, 'a) retry_env \<Rightarrow> ('w, 'a) retry_run \<Rightarrow> bool" where
  "token_fired env r = (\<exists>c. cancelled env = Some c \<and> c (world r))"

definition wait_interrupted :: "('w, 'a) retry_env \<Rightarrow> ('w, 'a) retry_run \<Rightarrow> bool" where
  "wait_interrupted env r = (cancelled env \<noteq> None \<and> slept r \<noteq> []
     \<and> (\<exists>v. sleep env v (last (slept r)) = (world r, True)))"

text \<open>
  What a run looks like from attempt \<open>i\<close> on: every error but the returned one was transient and there was
  budget left, a delay was slept for each of them, and one more only where the token interrupted it; an
  error is returned for one of four reasons, and what is returned is what an attempt gave.
\<close>

definition run_ok :: "('w, 'a) retry_env \<Rightarrow> retry_policy \<Rightarrow> nat \<Rightarrow> ('w, 'a) retry_run \<Rightarrow> bool" where
  "run_ok env p i r = (list_all (\<lambda>e. classify e = Retryable) (retried r)
     \<and> (retried r = [] \<or> i + length (retried r) < attempts p)
     \<and> slept r = map (backoff_for p) [i ..< i + length (slept r)]
     \<and> (length (slept r) = length (retried r)
        \<or> length (slept r) = length (retried r) + 1 \<and> wait_interrupted env r)
     \<and> (slept r = [] \<or> i + length (slept r) < attempts p)
     \<and> (\<exists>v. snd (dispatch env v) = outcome r)
     \<and> (case outcome r of Ok _ \<Rightarrow> length (slept r) = length (retried r) | Err e \<Rightarrow>
          classify e = Terminal \<or> attempts p \<le> i + length (retried r) + 1
          \<or> length (slept r) = length (retried r) \<and> token_fired env r
          \<or> length (slept r) = length (retried r) + 1 \<and> wait_interrupted env r))"

lemma wait_woken: "wait env w d = (w', True) \<Longrightarrow> cancelled env \<noteq> None \<and> sleep env w d = (w', True)"
  by (cases "sleep env w d") (auto simp: wait_def Let_def split: if_splits)

lemma is_cancelled_fired: "is_cancelled env w = (\<exists>c. cancelled env = Some c \<and> c w)"
  by (simp add: is_cancelled_def split: option.split)

lemma wait_interrupted_later:
  "wait_interrupted env r \<Longrightarrow> wait_interrupted env (r\<lparr>retried := es, slept := d # slept r\<rparr>)"
  by (auto simp: wait_interrupted_def)

lemma token_fired_later: "token_fired env (r\<lparr>retried := es, slept := ds\<rparr>) = token_fired env r"
  by (simp add: token_fired_def)

lemma run_ok_later:
  assumes "run_ok env p (i + 1) r" and "classify e = Retryable" and "\<not> attempts p \<le> i + 1"
  shows "run_ok env p i (r\<lparr>retried := e # retried r, slept := backoff_for p i # slept r\<rparr>)"
  using assms wait_interrupted_later [where env = env and r = r and es = "e # retried r" and d = "backoff_for p i"]
  by (auto simp: run_ok_def token_fired_later upt_conv_Cons simp del: upt_Suc split: sum.splits)

lemma retry_loop_ok: "run_ok env p i (retry_loop env p i w)"
proof (induction env p i w rule: retry_loop.induct)
  case (1 env p i w)
  obtain w1 res where d: "dispatch env w = (w1, res)" by force
  then have out: "\<exists>v. snd (dispatch env v) = res" by (intro exI [of _ w]) simp
  show ?case
  proof (cases res)
    case (Inr v)
    with d out show ?thesis by (simp add: retry_loop.simps [of env p i w] run_ok_def)
  next
    case (Inl e)
    obtain w2 b where wt: "wait env w1 (backoff_for p i) = (w2, b)" by force
    consider (stop) "is_off p \<or> attempts p \<le> i + 1 \<or> classify e = Terminal"
      | (cancel) "\<not> (is_off p \<or> attempts p \<le> i + 1 \<or> classify e = Terminal)" "is_cancelled env w1"
      | (woken) "\<not> (is_off p \<or> attempts p \<le> i + 1 \<or> classify e = Terminal)" "\<not> is_cancelled env w1" b
      | (again) "\<not> (is_off p \<or> attempts p \<le> i + 1 \<or> classify e = Terminal)" "\<not> is_cancelled env w1" "\<not> b"
      by blast
    then show ?thesis
    proof cases
      case stop
      with d Inl out show ?thesis
        by (auto simp: retry_loop.simps [of env p i w] run_ok_def is_off_def)
    next
      case cancel
      with d Inl out show ?thesis
        by (auto simp: retry_loop.simps [of env p i w] run_ok_def is_cancelled_fired token_fired_def)
    next
      case woken
      with wt have "cancelled env \<noteq> None" "sleep env w1 (backoff_for p i) = (w2, True)"
        by (auto dest: wait_woken)
      then have "wait_interrupted env \<lparr>outcome = Err e, world = w2, retried = [], slept = [backoff_for p i]\<rparr>"
        by (auto simp: wait_interrupted_def)
      with woken d Inl wt out show ?thesis
        by (auto simp: retry_loop.simps [of env p i w] run_ok_def Let_def)
    next
      case again
      have "run_ok env p (i + 1) (retry_loop env p (i + 1) w2)"
        using "1.IH" [OF d [symmetric] Inl] again wt by auto
      moreover have "classify e = Retryable" using again by (cases "classify e") auto
      ultimately show ?thesis
        using run_ok_later [of env p i "retry_loop env p (i + 1) w2" e] d Inl wt again
        by (simp add: retry_loop.simps [of env p i w] Let_def)
    qed
  qed
qed

text \<open>
  The retry policy is bounded whatever the environment variable holds: one to eight attempts,
  a base delay of one millisecond to thirty seconds, one single attempt when the variable is unset.
\<close>

lemma policy_bounds:
  "1 \<le> attempts (policy_from_env var) \<and> attempts (policy_from_env var) \<le> 8
   \<and> from_millis 1 \<le> base_delay (policy_from_env var) \<and> base_delay (policy_from_env var) \<le> from_secs 30
   \<and> is_off (policy_from_env None)"
  using policy_from_env_bounds [of var]
  by (simp add: MAX_ATTEMPTS_def MIN_BASE_DELAY_def MAX_BASE_DELAY_def is_off_def policy_from_env_def
      single_policy_def)

text \<open>
  The saturating arithmetic of the backoff is exact: under a policy from the environment the
  delay after attempt \<open>i\<close> is the base delay doubled \<open>i\<close> times, capped at thirty seconds, for every
  \<open>i\<close>, although the factor saturates at 32 bits and the shift fails from 64 on.
\<close>

lemma backoff_exponential:
  "backoff_for (policy_from_env var) i = min (base_delay (policy_from_env var) * 2 ^ i) (from_secs 30)"
  using backoff_exact [of "policy_from_env var" i] policy_from_env_bounds [of var]
  by (simp add: MAX_BASE_DELAY_def)

text \<open>
  C29. What a dispatch with retry does: it ends, after at most eight attempts and seven delays, the delays
  are those of the backoff in order, only transient failures are retried, and what it returns is what an
  attempt gave; it returns an error only where that is terminal, the budget is spent, the cancellation token
  had fired when the attempt was over, or it fired during the wait for the next one.
\<close>

theorem with_tool_retry_contract:
  "run_ok env (policy_from_env var) 0 (with_tool_retry var env w)
   \<and> length (retried (with_tool_retry var env w)) \<le> 7
   \<and> length (slept (with_tool_retry var env w)) \<le> 7
   \<and> sum_list (slept (with_tool_retry var env w)) \<le> 7 * from_secs 30"
proof -
  let ?r = "with_tool_retry var env w"
  have ok: "run_ok env (policy_from_env var) 0 ?r"
    by (simp add: with_tool_retry_def with_tool_retry_policy_def retry_loop_ok)
  moreover have "length (slept ?r) \<le> 7" "length (retried ?r) \<le> 7"
    using ok policy_from_env_bounds [of var] by (auto simp: run_ok_def MAX_ATTEMPTS_def)
  moreover have "sum_list (slept ?r) \<le> length (slept ?r) * MAX_BASE_DELAY"
  proof (rule sum_list_bound)
    have "slept ?r = map (backoff_for (policy_from_env var)) [0 ..< 0 + length (slept ?r)]"
      using ok unfolding run_ok_def by blast
    then show "d \<le> MAX_BASE_DELAY" if "d \<in> set (slept ?r)" for d
      using that by (metis (no_types, lifting) backoff_max ex_map_conv)
  qed
  ultimately show ?thesis
    by (simp add: MAX_BASE_DELAY_def) (meson le_trans mult_le_mono1)
qed

text \<open>
  Off by default: with the variable unset the tool is dispatched exactly once and its outcome
  is returned as it is, without waiting.
\<close>

lemma with_tool_retry_off:
  "with_tool_retry None env w =
     \<lparr>outcome = snd (dispatch env w), world = fst (dispatch env w), retried = [], slept = []\<rparr>"
  by (simp add: with_tool_retry_def with_tool_retry_policy_def policy_from_env_def single_policy_def
      retry_loop.simps [of env _ 0 w] is_off_def split: prod.splits sum.splits)

end
