(* ===== verification/Permissions.thy ===== *)
theory Permissions
  imports Message
begin

text \<open>
  The stored permissions of tools and the vocabulary around them:
  \<open>crates/bharatcode-core/src/config/permission.rs\<close> (the \<open>PermissionManager\<close> and its file),
  \<open>crates/bharatcode-core/src/permission/approval_mode.rs\<close> and
  \<open>crates/bharatcode-providers/src/goose_mode.rs\<close>. The YAML crate is a parameter, and a panic of
  \<open>expect\<close> is the value \<open>None\<close>.
\<close>

section \<open>Modes\<close>

datatype goose_mode = Auto | Approve | SmartApprove | Chat

definition auto_approves_everything :: "goose_mode \<Rightarrow> bool" where
  "auto_approves_everything m = (m = Auto)"

definition requires_approval_channel :: "goose_mode \<Rightarrow> bool" where
  "requires_approval_channel m = (m = Approve \<or> m = SmartApprove)"

datatype permission_level = AlwaysAllow | AskBefore | NeverAllow

datatype approval_decision = DecideAsk | DecideAllow | DecideDeny

definition from_permission_level :: "permission_level \<Rightarrow> approval_decision" where
  "from_permission_level l = (case l of
     AlwaysAllow \<Rightarrow> DecideAllow | AskBefore \<Rightarrow> DecideAsk | NeverAllow \<Rightarrow> DecideDeny)"

definition to_permission_level :: "approval_decision \<Rightarrow> permission_level" where
  "to_permission_level d = (case d of
     DecideAllow \<Rightarrow> AlwaysAllow | DecideAsk \<Rightarrow> AskBefore | DecideDeny \<Rightarrow> NeverAllow)"

definition decision_label :: "approval_decision \<Rightarrow> str" where
  "decision_label d = (case d of
     DecideAsk \<Rightarrow> lit ''ask'' | DecideAllow \<Rightarrow> lit ''allow'' | DecideDeny \<Rightarrow> lit ''deny'')"

datatype approval_mode = ModeChat | ModeAsk | ModeAuto | ModeFull

definition default_approval_mode :: approval_mode where "default_approval_mode = ModeAuto"

definition to_goose_mode :: "approval_mode \<Rightarrow> goose_mode" where
  "to_goose_mode m = (case m of
     ModeChat \<Rightarrow> Chat | ModeAsk \<Rightarrow> Approve | ModeAuto \<Rightarrow> SmartApprove | ModeFull \<Rightarrow> Auto)"

definition from_goose_mode :: "goose_mode \<Rightarrow> approval_mode" where
  "from_goose_mode m = (case m of
     Chat \<Rightarrow> ModeChat | Approve \<Rightarrow> ModeAsk | SmartApprove \<Rightarrow> ModeAuto | Auto \<Rightarrow> ModeFull)"

definition is_yolo :: "approval_mode \<Rightarrow> bool" where "is_yolo m = (m = ModeFull)"

definition normalize_mode :: "str \<Rightarrow> str" where
  "normalize_mode v = map (\<lambda>c. if c = 32 \<or> c = 95 then 45 else c) (to_ascii_lowercase (trim v))"

definition chat_names :: "str list" where
  "chat_names = map lit [''chat'', ''none'', ''off'', ''plan'']"
definition ask_names :: "str list" where
  "ask_names = map lit [''ask'', ''approve'', ''prompt'', ''on-request'', ''manual'', ''never'',
     ''untrusted'', ''read-only'', ''readonly'']"
definition auto_names :: "str list" where
  "auto_names = map lit [''auto'', ''smart'', ''smart-approve'', ''on-failure'']"
definition full_names :: "str list" where
  "full_names = map lit [''full'', ''yolo'', ''danger'', ''danger-full-access'', ''bypass'', ''auto-approve'']"

definition parse_approval_mode :: "str \<Rightarrow> approval_mode option" where
  "parse_approval_mode v = (let n = normalize_mode v in
     if n \<in> set chat_names then Some ModeChat
     else if n \<in> set ask_names then Some ModeAsk
     else if n \<in> set auto_names then Some ModeAuto
     else if n \<in> set full_names then Some ModeFull
     else None)"

definition mode_label :: "approval_mode \<Rightarrow> str" where
  "mode_label m = (case m of ModeChat \<Rightarrow> lit ''chat'' | ModeAsk \<Rightarrow> lit ''ask''
     | ModeAuto \<Rightarrow> lit ''auto'' | ModeFull \<Rightarrow> lit ''full'')"

text \<open>\<open>param\<close> is the configured value of \<open>BHARATCODE_APPROVAL\<close>, if any.\<close>

definition approval_from_config :: "str option \<Rightarrow> approval_mode option" where
  "approval_from_config param = Option.bind param parse_approval_mode"

definition resolve_mode :: "str option \<Rightarrow> goose_mode \<Rightarrow> goose_mode" where
  "resolve_mode param fallback = (case approval_from_config param of
     Some m \<Rightarrow> to_goose_mode m | None \<Rightarrow> fallback)"

definition subagent_mode :: "goose_mode \<Rightarrow> goose_mode" where "subagent_mode parent = parent"

section \<open>The permission manager\<close>

record permission_config =
  always_allow :: "str list"
  ask_before :: "str list"
  never_allow :: "str list"

definition empty_config :: permission_config where
  "empty_config = \<lparr>always_allow = [], ask_before = [], never_allow = []\<rparr>"

type_synonym permission_map = "str \<Rightarrow> permission_config option"

definition USER_PERMISSION :: str where "USER_PERMISSION = lit ''user''"
definition SMART_APPROVE_PERMISSION :: str where "SMART_APPROVE_PERMISSION = lit ''smart_approve''"

text \<open>The YAML crate.\<close>

record yaml_io =
  print_yaml :: "permission_map \<Rightarrow> str option"
  parse_yaml :: "str \<Rightarrow> permission_map option"

text \<open>
  \<open>permission.yaml\<close> as it stands on the disk. A manager has its map, that file, and whether writing it
  succeeds.
\<close>

datatype permission_file = NoFile | UnreadableFile | FileText str

record permission_manager =
  permission_map :: permission_map
  config_file :: permission_file
  writable :: bool

text \<open>
  \<open>mkdir_ok\<close> is the outcome of creating the directory. A file that cannot be read or parsed and a directory
  that cannot be created are panics.
\<close>

definition manager_new :: "yaml_io \<Rightarrow> permission_file \<Rightarrow> bool \<Rightarrow> bool \<Rightarrow> permission_manager option" where
  "manager_new io file mkdir_ok w = (case file of
     FileText t \<Rightarrow> map_option (\<lambda>m. \<lparr>permission_map = m, config_file = file, writable = w\<rparr>) (parse_yaml io t)
   | UnreadableFile \<Rightarrow> None
   | NoFile \<Rightarrow> if mkdir_ok then Some \<lparr>permission_map = (\<lambda>_. None), config_file = NoFile, writable = w\<rparr> else None)"

definition write_config :: "yaml_io \<Rightarrow> permission_map \<Rightarrow> permission_manager \<Rightarrow> permission_manager option" where
  "write_config io m pm = (case print_yaml io m of
     None \<Rightarrow> None
   | Some y \<Rightarrow> if writable pm then Some (pm\<lparr>permission_map := m, config_file := FileText y\<rparr>) else None)"

definition level_in :: "permission_config \<Rightarrow> str \<Rightarrow> permission_level option" where
  "level_in c p = (if p \<in> set (always_allow c) then Some AlwaysAllow
     else if p \<in> set (ask_before c) then Some AskBefore
     else if p \<in> set (never_allow c) then Some NeverAllow
     else None)"

definition get_permission :: "str \<Rightarrow> permission_manager \<Rightarrow> str \<Rightarrow> permission_level option" where
  "get_permission name pm p = Option.bind (permission_map pm name) (\<lambda>c. level_in c p)"

definition get_user_permission :: "permission_manager \<Rightarrow> str \<Rightarrow> permission_level option" where
  "get_user_permission = get_permission USER_PERMISSION"

definition get_smart_approve_permission :: "permission_manager \<Rightarrow> str \<Rightarrow> permission_level option" where
  "get_smart_approve_permission = get_permission SMART_APPROVE_PERMISSION"

definition retain_config :: "(str \<Rightarrow> bool) \<Rightarrow> permission_config \<Rightarrow> permission_config" where
  "retain_config f c = \<lparr>always_allow = filter f (always_allow c), ask_before = filter f (ask_before c),
     never_allow = filter f (never_allow c)\<rparr>"

definition push_level :: "str \<Rightarrow> permission_level \<Rightarrow> permission_config \<Rightarrow> permission_config" where
  "push_level p l c = (case l of
     AlwaysAllow \<Rightarrow> c\<lparr>always_allow := always_allow c @ [p]\<rparr>
   | AskBefore \<Rightarrow> c\<lparr>ask_before := ask_before c @ [p]\<rparr>
   | NeverAllow \<Rightarrow> c\<lparr>never_allow := never_allow c @ [p]\<rparr>)"

definition set_level :: "str \<Rightarrow> permission_level \<Rightarrow> permission_config \<Rightarrow> permission_config" where
  "set_level p l c = push_level p l (retain_config (\<lambda>q. q \<noteq> p) c)"

definition entry_or_default :: "permission_map \<Rightarrow> str \<Rightarrow> permission_config" where
  "entry_or_default m name = (case m name of Some c \<Rightarrow> c | None \<Rightarrow> empty_config)"

definition update_permission ::
    "yaml_io \<Rightarrow> str \<Rightarrow> permission_manager \<Rightarrow> str \<Rightarrow> permission_level \<Rightarrow> permission_manager option" where
  "update_permission io name pm p l = write_config io
     ((permission_map pm)(name := Some (set_level p l (entry_or_default (permission_map pm) name)))) pm"

definition update_user_permission ::
    "yaml_io \<Rightarrow> permission_manager \<Rightarrow> str \<Rightarrow> permission_level \<Rightarrow> permission_manager option" where
  "update_user_permission io = update_permission io USER_PERMISSION"

definition update_smart_approve_permission ::
    "yaml_io \<Rightarrow> permission_manager \<Rightarrow> str \<Rightarrow> permission_level \<Rightarrow> permission_manager option" where
  "update_smart_approve_permission io = update_permission io SMART_APPROVE_PERMISSION"

definition bulk_update_smart_approve_permissions ::
    "yaml_io \<Rightarrow> permission_manager \<Rightarrow> str list \<Rightarrow> permission_level \<Rightarrow> permission_manager option" where
  "bulk_update_smart_approve_permissions io pm ps l = write_config io
     ((permission_map pm)(SMART_APPROVE_PERMISSION := Some (fold (\<lambda>p. set_level p l) ps
        (entry_or_default (permission_map pm) SMART_APPROVE_PERMISSION)))) pm"

text \<open>A tool of the \<open>rmcp\<close> crate: its name and, where annotated, the read-only hint.\<close>

record tool =
  tool_title :: str
  read_only_hint :: "bool option option"

definition manager_apply_tool_annotations :: "yaml_io \<Rightarrow> permission_manager \<Rightarrow> tool list \<Rightarrow> permission_manager option" where
  "manager_apply_tool_annotations io pm tools =
     (let ws = map tool_title (filter (\<lambda>t. read_only_hint t = Some (Some False)) tools) in
      if ws = [] then Some pm else bulk_update_smart_approve_permissions io pm ws AskBefore)"

definition remove_extension :: "yaml_io \<Rightarrow> permission_manager \<Rightarrow> str \<Rightarrow> permission_manager option" where
  "remove_extension io pm ext = write_config io
     (\<lambda>name. map_option (retain_config (\<lambda>p. \<not> starts_with p ext)) (permission_map pm name)) pm"

section \<open>The contract of a permission table\<close>

text \<open>What the inspector relies on: an update is what a later lookup returns, for this tool only.\<close>

locale permission_table =
  fixes get :: "'s \<Rightarrow> str \<Rightarrow> permission_level option"
    and upd :: "'s \<Rightarrow> str \<Rightarrow> permission_level \<Rightarrow> 's option"
  assumes get_upd: "upd s p l = Some s' \<Longrightarrow> get s' q = (if q = p then Some l else get s q)"
begin

text \<open>A run of updates, as the inspector makes them.\<close>

fun updates :: "'s \<Rightarrow> (str \<times> permission_level) list \<Rightarrow> 's option" where
  "updates s [] = Some s"
| "updates s ((p, l) # us) = Option.bind (upd s p l) (\<lambda>s'. updates s' us)"

lemma get_updates:
  "updates s us = Some s' \<Longrightarrow> get s' q = (case map_of (rev us) q of Some l \<Rightarrow> Some l | None \<Rightarrow> get s q)"
proof (induction us arbitrary: s)
  case (Cons u us)
  obtain p l where u: "u = (p, l)" by force
  with Cons.prems obtain s1 where s1: "upd s p l = Some s1" "updates s1 us = Some s'"
    by (auto simp: bind_eq_Some_conv)
  from Cons.IH [OF s1(2)] get_upd [OF s1(1), of q] u show ?case
    by (auto simp: map_add_def split: option.splits)
qed simp

lemma get_updates_Some:
  assumes "updates s us = Some s'" and "get s' q = Some l"
  shows "get s q = Some l \<or> (q, l) \<in> set us"
  using get_updates [OF assms(1), of q] assms(2)
  by (auto split: option.splits dest: map_of_SomeD)

end

lemma level_in_retain: "level_in (retain_config f c) p = (if f p then level_in c p else None)"
  by (auto simp: level_in_def retain_config_def)

lemma level_in_set_level: "level_in (set_level p l c) q = (if q = p then Some l else level_in c q)"
  by (cases l) (auto simp: set_level_def push_level_def level_in_def retain_config_def)

lemma write_config_map: "write_config io m pm = Some pm' \<Longrightarrow> permission_map pm' = m"
  by (auto simp: write_config_def split: option.splits if_splits)

lemma level_in_entry: "level_in (entry_or_default m n) q = Option.bind (m n) (\<lambda>c. level_in c q)"
  by (auto simp: entry_or_default_def empty_config_def level_in_def split: option.splits)

lemma update_permission_get:
  assumes "update_permission io name pm p l = Some pm'"
  shows "get_permission n pm' q = (if n = name \<and> q = p then Some l else get_permission n pm q)"
  using write_config_map [OF assms [unfolded update_permission_def]]
  by (simp add: get_permission_def level_in_set_level level_in_entry)

interpretation user_table: permission_table get_user_permission "update_user_permission io" for io
  by unfold_locales (simp add: get_user_permission_def update_user_permission_def update_permission_get)

interpretation smart_table: permission_table get_smart_approve_permission
  "update_smart_approve_permission io" for io
  by unfold_locales
    (simp add: get_smart_approve_permission_def update_smart_approve_permission_def update_permission_get)

section \<open>Properties\<close>

lemma level_in_fold:
  "level_in (fold (\<lambda>p. set_level p l) ps c) q = (if q \<in> set ps then Some l else level_in c q)"
  by (induction ps arbitrary: c) (auto simp: level_in_set_level)

text \<open>
  A stored permission is found again: after an update every tool has the permission it had,
  except the updated tool in the updated category, which has the new one.
\<close>

lemma update_permission_lookup:
  assumes "update_permission io name pm p l = Some pm'"
  shows "get_permission n pm' q = (if n = name \<and> q = p then Some l else get_permission n pm q)"
  using assms by (rule update_permission_get)

text \<open>
  Tool annotations only tighten: after a successful update every tool annotated as writing
  asks before, and no other permission changes in any category.
\<close>

lemma annotations_ask_before:
  assumes "manager_apply_tool_annotations io pm tools = Some pm'"
  shows "get_permission n pm' q =
    (if n = SMART_APPROVE_PERMISSION \<and> (\<exists>t\<in>set tools. tool_title t = q \<and> read_only_hint t = Some (Some False))
     then Some AskBefore else get_permission n pm q)"
proof (cases "filter (\<lambda>t. read_only_hint t = Some (Some False)) tools = []")
  case True
  then have "pm' = pm" using assms by (simp add: manager_apply_tool_annotations_def)
  with True show ?thesis by (auto simp: filter_empty_conv)
next
  case False
  let ?ws = "map tool_title (filter (\<lambda>t. read_only_hint t = Some (Some False)) tools)"
  have "permission_map pm' = (permission_map pm)(SMART_APPROVE_PERMISSION :=
      Some (fold (\<lambda>p. set_level p AskBefore) ?ws (entry_or_default (permission_map pm) SMART_APPROVE_PERMISSION)))"
    using assms False write_config_map
    by (simp add: manager_apply_tool_annotations_def bulk_update_smart_approve_permissions_def)
  then show ?thesis
    by (auto simp: get_permission_def level_in_fold level_in_entry)
qed

text \<open>
  Removing an extension forgets exactly the tools whose names start with its name, in every
  category.
\<close>

lemma remove_extension_lookup:
  assumes "remove_extension io pm ext = Some pm'"
  shows "get_permission n pm' q = (if starts_with q ext then None else get_permission n pm q)"
  using write_config_map [OF assms [unfolded remove_extension_def]]
  by (cases "permission_map pm n") (simp_all add: get_permission_def level_in_retain)

text \<open>What the program may do to the permissions while it runs, one after the other.\<close>

datatype permission_change =
    SetUserLevel str permission_level
  | SetSmartLevel str permission_level
  | ApplyAnnotations "tool list"
  | RemoveExtension str

definition make_change :: "yaml_io \<Rightarrow> permission_change \<Rightarrow> permission_manager \<Rightarrow> permission_manager option" where
  "make_change io c pm = (case c of
     SetUserLevel p l \<Rightarrow> update_user_permission io pm p l
   | SetSmartLevel p l \<Rightarrow> update_smart_approve_permission io pm p l
   | ApplyAnnotations tools \<Rightarrow> manager_apply_tool_annotations io pm tools
   | RemoveExtension ext \<Rightarrow> remove_extension io pm ext)"

fun make_changes :: "yaml_io \<Rightarrow> permission_change list \<Rightarrow> permission_manager \<Rightarrow> permission_manager option" where
  "make_changes io [] pm = Some pm"
| "make_changes io (c # cs) pm = Option.bind (make_change io c pm) (make_changes io cs)"

text \<open>What a change says of a tool in a category, and what a run of changes leaves of what was there.\<close>

definition said_of :: "permission_change \<Rightarrow> str \<Rightarrow> str \<Rightarrow> permission_level option option" where
  "said_of c n q = (case c of
     SetUserLevel p l \<Rightarrow> if n = USER_PERMISSION \<and> q = p then Some (Some l) else None
   | SetSmartLevel p l \<Rightarrow> if n = SMART_APPROVE_PERMISSION \<and> q = p then Some (Some l) else None
   | ApplyAnnotations tools \<Rightarrow>
       if n = SMART_APPROVE_PERMISSION \<and> (\<exists>t\<in>set tools. tool_title t = q \<and> read_only_hint t = Some (Some False))
       then Some (Some AskBefore) else None
   | RemoveExtension ext \<Rightarrow> if starts_with q ext then Some None else None)"

fun level_after :: "permission_change list \<Rightarrow> str \<Rightarrow> str \<Rightarrow> permission_level option \<Rightarrow> permission_level option" where
  "level_after [] n q old = old"
| "level_after (c # cs) n q old =
     level_after cs n q (case said_of c n q of Some l \<Rightarrow> l | None \<Rightarrow> old)"

lemma make_change_lookup:
  "make_change io c pm = Some pm' \<Longrightarrow>
   get_permission n pm' q = (case said_of c n q of Some l \<Rightarrow> l | None \<Rightarrow> get_permission n pm q)"
  using update_permission_get [of io USER_PERMISSION pm _ _ pm' n q]
    update_permission_get [of io SMART_APPROVE_PERMISSION pm _ _ pm' n q]
    annotations_ask_before [of io pm _ pm' n q] remove_extension_lookup [of io pm _ pm' n q]
  by (cases c) (auto simp: make_change_def said_of_def update_user_permission_def update_smart_approve_permission_def)

lemma make_changes_lookup:
  "make_changes io cs pm = Some pm' \<Longrightarrow> get_permission n pm' q = level_after cs n q (get_permission n pm q)"
proof (induction cs arbitrary: pm)
  case (Cons c cs)
  then obtain pm1 where "make_change io c pm = Some pm1" "make_changes io cs pm1 = Some pm'"
    by (auto simp: bind_eq_Some_conv)
  with Cons.IH show ?case by (simp add: make_change_lookup)
qed simp

text \<open>The file holds what the manager knows, as soon as it was read or written once.\<close>

definition on_file :: "yaml_io \<Rightarrow> permission_manager \<Rightarrow> bool" where
  "on_file io pm = (case config_file pm of
     FileText y \<Rightarrow> parse_yaml io y = Some (permission_map pm)
   | NoFile \<Rightarrow> permission_map pm = (\<lambda>_. None)
   | UnreadableFile \<Rightarrow> False)"

definition yaml_reads_back :: "yaml_io \<Rightarrow> bool" where
  "yaml_reads_back io = (\<forall>m y. print_yaml io m = Some y \<longrightarrow> parse_yaml io y = Some m)"

lemma manager_new_on_file: "manager_new io file mkdir_ok w = Some pm \<Longrightarrow> on_file io pm"
  by (auto simp: manager_new_def on_file_def split: permission_file.splits if_splits)

lemma write_config_on_file: "yaml_reads_back io \<Longrightarrow> write_config io m pm = Some pm' \<Longrightarrow> on_file io pm'"
  by (auto simp: write_config_def on_file_def yaml_reads_back_def split: option.splits if_splits)

lemma make_change_on_file: "yaml_reads_back io \<Longrightarrow> on_file io pm \<Longrightarrow> make_change io c pm = Some pm' \<Longrightarrow> on_file io pm'"
  by (cases c)
     (auto simp: make_change_def update_user_permission_def update_smart_approve_permission_def update_permission_def
       manager_apply_tool_annotations_def bulk_update_smart_approve_permissions_def remove_extension_def Let_def
       intro: write_config_on_file split: if_splits)

lemma make_changes_on_file:
  "yaml_reads_back io \<Longrightarrow> on_file io pm \<Longrightarrow> make_changes io cs pm = Some pm' \<Longrightarrow> on_file io pm'"
  by (induction cs arbitrary: pm) (auto simp: bind_eq_Some_conv intro: make_change_on_file)

lemma on_file_restart:
  "on_file io pm \<Longrightarrow> \<exists>pm'. manager_new io (config_file pm) True w = Some pm' \<and> permission_map pm' = permission_map pm"
  by (auto simp: on_file_def manager_new_def split: permission_file.splits)

text \<open>
  C39. Permissions survive a restart: take a manager that was started on any file, and any run of changes that
  could be written. A manager started on the file they leave answers every lookup with what the last change
  that says something of the tool in that category has set, or has forgotten, and with the answer before the
  changes where none does. The YAML crate reads back what it prints.
\<close>

theorem permissions_survive_restart:
  assumes "yaml_reads_back io"
    and "manager_new io file mkdir_ok w = Some pm" and "make_changes io cs pm = Some pm'"
  shows "\<exists>pm''. manager_new io (config_file pm') True w' = Some pm''
     \<and> (\<forall>n q. get_permission n pm'' q = level_after cs n q (get_permission n pm q))"
proof -
  have "on_file io pm'"
    using make_changes_on_file [OF assms(1) manager_new_on_file [OF assms(2)] assms(3)] .
  then obtain pm'' where "manager_new io (config_file pm') True w' = Some pm''" "permission_map pm'' = permission_map pm'"
    using on_file_restart by blast
  then show ?thesis using make_changes_lookup [OF assms(3)] by (simp add: get_permission_def)
qed

text \<open>A file that is there but cannot be read or parsed stops the program at its start.\<close>

lemma bad_file_panics:
  "manager_new io UnreadableFile mkdir_ok w = None"
  "parse_yaml io t = None \<Longrightarrow> manager_new io (FileText t) mkdir_ok w = None"
  by (simp_all add: manager_new_def)

text \<open>
  The two vocabularies agree: the approval modes and decisions are in bijection with the engine
  modes and the permission levels, the canonical names parse back, and only the full-access names
  parse to the mode that approves everything.
\<close>

lemma approval_vocabulary:
  "to_goose_mode (from_goose_mode g) = g \<and> from_goose_mode (to_goose_mode m) = m
   \<and> from_permission_level (to_permission_level d) = d \<and> to_permission_level (from_permission_level l) = l
   \<and> parse_approval_mode (mode_label m) = Some m
   \<and> (parse_approval_mode v = Some ModeFull \<longleftrightarrow> normalize_mode v \<in> set full_names)
   \<and> (auto_approves_everything (to_goose_mode m) \<longleftrightarrow> is_yolo m)"
proof (intro conjI)
  show "to_goose_mode (from_goose_mode g) = g" by (cases g) (simp_all add: to_goose_mode_def from_goose_mode_def)
  show "from_goose_mode (to_goose_mode m) = m" by (cases m) (simp_all add: to_goose_mode_def from_goose_mode_def)
  show "from_permission_level (to_permission_level d) = d"
    by (cases d) (simp_all add: from_permission_level_def to_permission_level_def)
  show "to_permission_level (from_permission_level l) = l"
    by (cases l) (simp_all add: from_permission_level_def to_permission_level_def)
  show "parse_approval_mode (mode_label m) = Some m"
    by (cases m) (simp_all add: parse_approval_mode_def mode_label_def normalize_mode_def trim_def
        trim_start_def trim_end_def is_ws_def to_ascii_lowercase_def ascii_lower_def Let_def
        chat_names_def ask_names_def auto_names_def full_names_def)
  have "set full_names \<inter> (set chat_names \<union> set ask_names \<union> set auto_names) = {}"
    by (simp add: chat_names_def ask_names_def auto_names_def full_names_def)
  then show "parse_approval_mode v = Some ModeFull \<longleftrightarrow> normalize_mode v \<in> set full_names"
    by (auto simp: parse_approval_mode_def Let_def)
  show "auto_approves_everything (to_goose_mode m) \<longleftrightarrow> is_yolo m"
    by (cases m) (simp_all add: auto_approves_everything_def to_goose_mode_def is_yolo_def)
qed

text \<open>The configured posture replaces the caller's mode in both directions: it can widen it.\<close>

lemma resolve_mode_widens: "resolve_mode (Some (lit ''yolo'')) Chat = Auto"
  by (simp add: resolve_mode_def approval_from_config_def parse_approval_mode_def normalize_mode_def trim_def
        trim_start_def trim_end_def is_ws_def to_ascii_lowercase_def ascii_lower_def Let_def
        chat_names_def ask_names_def auto_names_def full_names_def to_goose_mode_def)

section \<open>Witnesses\<close>

definition shell_name :: str where "shell_name = lit ''developer__shell''"

definition sample_map :: permission_map where
  "sample_map = [USER_PERMISSION \<mapsto> \<lparr>always_allow = [], ask_before = [], never_allow = [shell_name]\<rparr>]"

definition one_map_yaml :: "permission_map \<Rightarrow> yaml_io" where
  "one_map_yaml m = \<lparr>print_yaml = (\<lambda>x. if x = m then Some (lit ''m'') else None),
     parse_yaml = (\<lambda>t. if t = lit ''m'' then Some m else None)\<rparr>"

definition fresh_manager :: permission_manager where
  "fresh_manager = \<lparr>permission_map = (\<lambda>_. None), config_file = NoFile, writable = True\<rparr>"

definition sample_manager :: permission_manager where
  "sample_manager = \<lparr>permission_map = sample_map, config_file = FileText (lit ''m''), writable = True\<rparr>"

lemma sample_update:
  "update_permission (one_map_yaml sample_map) USER_PERMISSION fresh_manager shell_name NeverAllow = Some sample_manager"
  by (simp add: update_permission_def write_config_def one_map_yaml_def sample_map_def fresh_manager_def
      sample_manager_def set_level_def push_level_def retain_config_def entry_or_default_def empty_config_def)

lemma update_permission_lookup_witness:
  "get_permission USER_PERMISSION sample_manager shell_name = Some NeverAllow"
  using update_permission_lookup [OF sample_update, of USER_PERMISSION shell_name] by simp

definition annotated_map :: permission_map where
  "annotated_map = [USER_PERMISSION \<mapsto> \<lparr>always_allow = [], ask_before = [], never_allow = [shell_name]\<rparr>,
     SMART_APPROVE_PERMISSION \<mapsto> \<lparr>always_allow = [], ask_before = [shell_name], never_allow = []\<rparr>]"

definition two_map_yaml :: yaml_io where
  "two_map_yaml = \<lparr>print_yaml = (\<lambda>x. if x = sample_map then Some (lit ''m'') else if x = annotated_map then Some (lit ''n'') else None),
     parse_yaml = (\<lambda>t. if t = lit ''m'' then Some sample_map else if t = lit ''n'' then Some annotated_map else None)\<rparr>"

lemma two_changes:
  "make_changes two_map_yaml [SetUserLevel shell_name NeverAllow,
     ApplyAnnotations [\<lparr>tool_title = shell_name, read_only_hint = Some (Some False)\<rparr>]] fresh_manager
   = Some \<lparr>permission_map = annotated_map, config_file = FileText (lit ''n''), writable = True\<rparr>"
proof -
  have d: "USER_PERMISSION \<noteq> SMART_APPROVE_PERMISSION" by (simp add: USER_PERMISSION_def SMART_APPROVE_PERMISSION_def)
  have n: "annotated_map \<noteq> sample_map"
    using d by (auto simp: annotated_map_def sample_map_def fun_eq_iff intro!: exI [of _ SMART_APPROVE_PERMISSION])
  have m: "[USER_PERMISSION \<mapsto> \<lparr>always_allow = [], ask_before = [], never_allow = [shell_name]\<rparr>] = sample_map"
    "sample_map(SMART_APPROVE_PERMISSION \<mapsto> \<lparr>always_allow = [], ask_before = [shell_name], never_allow = []\<rparr>) = annotated_map"
    "sample_map SMART_APPROVE_PERMISSION = None"
    using d by (simp_all add: sample_map_def annotated_map_def)
  show ?thesis
    using n by (simp add: make_change_def update_user_permission_def update_permission_def write_config_def fresh_manager_def
        manager_apply_tool_annotations_def bulk_update_smart_approve_permissions_def set_level_def push_level_def
        retain_config_def entry_or_default_def empty_config_def m two_map_yaml_def)
qed

theorem permissions_survive_restart_witness:
  "\<exists>pm. manager_new two_map_yaml (FileText (lit ''n'')) True True = Some pm
     \<and> get_permission USER_PERMISSION pm shell_name = Some NeverAllow
     \<and> get_permission SMART_APPROVE_PERMISSION pm shell_name = Some AskBefore"
proof -
  have d: "USER_PERMISSION \<noteq> SMART_APPROVE_PERMISSION" by (simp add: USER_PERMISSION_def SMART_APPROVE_PERMISSION_def)
  have y: "yaml_reads_back two_map_yaml" by (simp add: yaml_reads_back_def two_map_yaml_def)
  have f: "manager_new two_map_yaml NoFile True True = Some fresh_manager" by (simp add: manager_new_def fresh_manager_def)
  from permissions_survive_restart [OF y f two_changes] show ?thesis
    using d by (fastforce simp: said_of_def)
qed

lemma annotations_ask_before_witness:
  "get_permission SMART_APPROVE_PERMISSION (sample_manager\<lparr>permission_map :=
      [SMART_APPROVE_PERMISSION \<mapsto> \<lparr>always_allow = [], ask_before = [shell_name], never_allow = []\<rparr>]\<rparr>)
     shell_name = Some AskBefore"
proof -
  let ?m = "[SMART_APPROVE_PERMISSION \<mapsto> \<lparr>always_allow = [], ask_before = [shell_name], never_allow = []\<rparr>]"
  have "manager_apply_tool_annotations (one_map_yaml ?m) fresh_manager
      [\<lparr>tool_title = shell_name, read_only_hint = Some (Some False)\<rparr>]
      = Some (sample_manager\<lparr>permission_map := ?m\<rparr>)"
    by (simp add: manager_apply_tool_annotations_def bulk_update_smart_approve_permissions_def
        write_config_def one_map_yaml_def fresh_manager_def sample_manager_def set_level_def push_level_def
        retain_config_def entry_or_default_def empty_config_def)
  from annotations_ask_before [OF this, of SMART_APPROVE_PERMISSION shell_name] show ?thesis by simp
qed

lemma remove_extension_lookup_witness:
  "get_permission USER_PERMISSION (sample_manager\<lparr>permission_map := [USER_PERMISSION \<mapsto> empty_config]\<rparr>)
     shell_name = None"
proof -
  let ?m = "[USER_PERMISSION \<mapsto> empty_config]"
  have "map_option (retain_config (\<lambda>p. \<not> starts_with p (lit ''developer''))) \<circ> sample_map = ?m"
    by (auto simp: fun_eq_iff sample_map_def retain_config_def empty_config_def shell_name_def starts_with_def)
  then have "remove_extension (one_map_yaml ?m) sample_manager (lit ''developer'')
      = Some (sample_manager\<lparr>permission_map := ?m\<rparr>)"
    by (simp add: remove_extension_def write_config_def one_map_yaml_def sample_manager_def comp_def)
  from remove_extension_lookup [OF this, of USER_PERMISSION shell_name] show ?thesis
    by (simp add: shell_name_def starts_with_def)
qed

end
