(* ===== verification/ToolInspection.thy ===== *)
theory ToolInspection
  imports Permissions Complex_Main
begin

text \<open>
  \<open>crates/bharatcode-core/src/tool_inspection.rs\<close> and \<open>tool_monitor.rs\<close>: the manager that runs the
  tool inspectors, the mixing of their results into the permission decisions, and the inspector
  that limits repeated calls. Tool requests are compared by their ids.
\<close>

section \<open>Results\<close>

datatype inspection_action = Allow | Deny | RequireApproval "str option"

text \<open>Confidences, floating-point numbers in the source, are rational numbers.\<close>

record inspection_result =
  tool_request_id :: str
  action :: inspection_action
  reason :: str
  confidence :: rat
  inspector_name :: str
  finding_id :: "str option"

record permission_check_result =
  approved :: "tool_request list"
  needs_approval :: "tool_request list"
  denied :: "tool_request list"

section \<open>The manager\<close>

text \<open>An inspector over a state \<open>'w\<close>: it may change the state and may fail.\<close>

record 'w tool_inspector =
  inspector :: str
  is_enabled :: bool
  inspect :: "'w \<Rightarrow> tool_request list \<Rightarrow> message list \<Rightarrow> goose_mode \<Rightarrow> 'w \<times> (str, inspection_result list) result"

definition add_inspector :: "'w tool_inspector list \<Rightarrow> 'w tool_inspector \<Rightarrow> 'w tool_inspector list" where
  "add_inspector is i = is @ [i]"

fun inspect_tools ::
    "'w tool_inspector list \<Rightarrow> 'w \<Rightarrow> tool_request list \<Rightarrow> message list \<Rightarrow> goose_mode \<Rightarrow> 'w \<times> inspection_result list" where
  "inspect_tools [] w reqs msgs mode = (w, [])"
| "inspect_tools (i # is) w reqs msgs mode =
     (if \<not> is_enabled i then inspect_tools is w reqs msgs mode
      else (let (w1, r) = inspect i w reqs msgs mode;
                (w2, rest) = inspect_tools is w1 reqs msgs mode
            in (w2, (case r of Ok results \<Rightarrow> results | Err _ \<Rightarrow> []) @ rest)))"

definition inspector_names :: "'w tool_inspector list \<Rightarrow> str list" where
  "inspector_names is = map inspector is"

section \<open>Mixing results into decisions\<close>

definition has_id :: "str \<Rightarrow> tool_request \<Rightarrow> bool" where
  "has_id i r = (request_id r = i)"

text \<open>The requests by id; a later list overwrites an earlier one.\<close>

definition request_map :: "permission_check_result \<Rightarrow> str \<Rightarrow> tool_request option" where
  "request_map p = map_of (rev (map (\<lambda>r. (request_id r, r)) (approved p @ needs_approval p @ denied p)))"

definition push_new :: "str \<Rightarrow> tool_request option \<Rightarrow> tool_request list \<Rightarrow> tool_request list" where
  "push_new i r rs = (case r of None \<Rightarrow> rs | Some q \<Rightarrow> if list_ex (has_id i) rs then rs else rs @ [q])"

definition without :: "str \<Rightarrow> tool_request list \<Rightarrow> tool_request list" where
  "without i rs = filter (\<lambda>r. \<not> has_id i r) rs"

definition apply_result ::
    "(str \<Rightarrow> tool_request option) \<Rightarrow> inspection_result \<Rightarrow> permission_check_result \<Rightarrow> permission_check_result" where
  "apply_result m res p = (let i = tool_request_id res in
     case action res of
       Deny \<Rightarrow> p\<lparr>approved := without i (approved p), needs_approval := without i (needs_approval p),
                 denied := push_new i (m i) (denied p)\<rparr>
     | RequireApproval _ \<Rightarrow> p\<lparr>approved := without i (approved p),
                 needs_approval := push_new i (m i) (needs_approval p)\<rparr>
     | Allow \<Rightarrow> p)"

definition apply_inspection_results_to_permissions ::
    "permission_check_result \<Rightarrow> inspection_result list \<Rightarrow> permission_check_result" where
  "apply_inspection_results_to_permissions p rs =
     (if rs = [] then p else fold (apply_result (request_map p)) rs p)"

definition get_security_finding_id_from_results :: "str \<Rightarrow> inspection_result list \<Rightarrow> str option" where
  "get_security_finding_id_from_results i rs =
     Option.bind (List.find (\<lambda>r. tool_request_id r = i \<and> inspector_name r = lit ''security'') rs) finding_id"

text \<open>\<open>deny_unattended_approvals\<close> of \<open>agents/agent.rs\<close>.\<close>

definition deny_unattended_approvals :: "permission_check_result \<Rightarrow> permission_check_result" where
  "deny_unattended_approvals p = p\<lparr>denied := denied p @ needs_approval p, needs_approval := []\<rparr>"

section \<open>Repetition\<close>

record internal_tool_call =
  call_name :: str
  parameters :: json

definition internal_call :: "call_params \<Rightarrow> internal_tool_call" where
  "internal_call c = \<lparr>call_name = tool_name c,
     parameters = (case arguments c of Some m \<Rightarrow> JObject m | None \<Rightarrow> JNull)\<rparr>"

record repetition_inspector =
  max_repetitions :: "nat option"
  last_call :: "internal_tool_call option"
  repeat_count :: nat
  call_counts :: "str \<Rightarrow> nat option"

definition new_repetition :: "nat option \<Rightarrow> repetition_inspector" where
  "new_repetition m = \<lparr>max_repetitions = m, last_call = None, repeat_count = 0, call_counts = (\<lambda>_. None)\<rparr>"

definition count_call :: "str \<Rightarrow> repetition_inspector \<Rightarrow> repetition_inspector" where
  "count_call n s = s\<lparr>call_counts := (call_counts s)(n :=
     Some ((case call_counts s n of Some k \<Rightarrow> k | None \<Rightarrow> 0) + 1))\<rparr>"

definition check_tool_call :: "call_params \<Rightarrow> repetition_inspector \<Rightarrow> repetition_inspector \<times> bool" where
  "check_tool_call c s0 = (let ic = internal_call c; s = count_call (call_name ic) s0 in
     case max_repetitions s of
       None \<Rightarrow> (s\<lparr>last_call := Some ic, repeat_count := 1\<rparr>, True)
     | Some m \<Rightarrow>
         if last_call s = Some ic then
           (if m < repeat_count s + 1 then (s\<lparr>repeat_count := repeat_count s + 1\<rparr>, False)
            else (s\<lparr>last_call := Some ic, repeat_count := repeat_count s + 1\<rparr>, True))
         else (s\<lparr>last_call := Some ic, repeat_count := 1\<rparr>, True))"

definition reset_repetition :: "repetition_inspector \<Rightarrow> repetition_inspector" where
  "reset_repetition s = s\<lparr>last_call := None, repeat_count := 0, call_counts := (\<lambda>_. None)\<rparr>"

definition repetition_result :: "tool_request \<Rightarrow> call_params \<Rightarrow> inspection_result" where
  "repetition_result r c = \<lparr>tool_request_id = request_id r, action = Deny,
     reason = lit ''Tool '' @ quoted (tool_name c) @ lit '' has exceeded maximum repetitions'',
     confidence = 1, inspector_name = lit ''repetition'', finding_id = Some (lit ''REP-001'')\<rparr>"

text \<open>Each request is checked on a copy of the inspector; the inspector itself is not changed.\<close>

definition inspect_repetition :: "repetition_inspector \<Rightarrow> tool_request list \<Rightarrow> inspection_result list" where
  "inspect_repetition s reqs = List.map_filter (\<lambda>r. case tool_call r of
     Err _ \<Rightarrow> None
   | Ok c \<Rightarrow> if snd (check_tool_call c (s\<lparr>max_repetitions := max_repetitions s\<rparr>)) then None
             else Some (repetition_result r c)) reqs"

section \<open>What an inspector of the list finds is among the results\<close>

lemma inspect_tools_has:
  assumes "i \<in> set is" and "is_enabled i" and ok: "\<And>w. \<exists>rs. snd (inspect i w reqs msgs mode) = Ok rs \<and> Q rs"
  shows "\<exists>rs. Q rs \<and> set rs \<subseteq> set (snd (inspect_tools is w reqs msgs mode))"
  using assms(1)
proof (induction "is" arbitrary: w)
  case (Cons j js)
  show ?case
  proof (cases "is_enabled j")
    case True
    obtain w1 r where j: "inspect j w reqs msgs mode = (w1, r)" by force
    obtain w2 rest where rest: "inspect_tools js w1 reqs msgs mode = (w2, rest)" by force
    show ?thesis
    proof (cases "j = i")
      case True
      with j ok [of w] obtain rs where "r = Ok rs" "Q rs" by auto
      with \<open>is_enabled j\<close> j rest show ?thesis by auto
    next
      case False
      with Cons have "\<exists>rs. Q rs \<and> set rs \<subseteq> set (snd (inspect_tools js w1 reqs msgs mode))" by simp
      with \<open>is_enabled j\<close> j rest show ?thesis by auto
    qed
  next
    case False
    with Cons assms(2) show ?thesis by auto
  qed
qed simp

lemma inspect_tools_includes:
  assumes "i \<in> set is" and "is_enabled i" and "\<And>w. snd (inspect i w reqs msgs mode) = Ok rs"
  shows "set rs \<subseteq> set (snd (inspect_tools is w reqs msgs mode))"
  using inspect_tools_has [of i "is" reqs msgs mode "\<lambda>qs. qs = rs"] assms by auto

section \<open>What mixing does\<close>

text \<open>A result that overrides an approval.\<close>

definition overrides :: "inspection_result list \<Rightarrow> str \<Rightarrow> bool" where
  "overrides rs i = list_ex (\<lambda>r. tool_request_id r = i \<and> action r \<noteq> Allow) rs"

definition denies :: "inspection_result list \<Rightarrow> str \<Rightarrow> bool" where
  "denies rs i = list_ex (\<lambda>r. tool_request_id r = i \<and> action r = Deny) rs"

lemma approved_fold:
  "approved (fold (apply_result m) rs p) = filter (\<lambda>q. \<not> overrides rs (request_id q)) (approved p)"
proof (induction rs arbitrary: p)
  case (Cons r rs)
  then show ?case
    by (cases "action r")
      (auto simp: apply_result_def without_def has_id_def overrides_def Let_def intro!: filter_cong)
qed (simp add: overrides_def)

lemma approved_applied:
  "approved (apply_inspection_results_to_permissions p rs)
     = filter (\<lambda>q. \<not> overrides rs (request_id q)) (approved p)"
  by (simp add: apply_inspection_results_to_permissions_def approved_fold overrides_def)

definition ids :: "tool_request list \<Rightarrow> str set" where
  "ids rs = request_id ` set rs"

lemma ids_without: "ids (without i rs) = ids rs - {i}"
  by (auto simp: ids_def without_def has_id_def)

lemma ids_push_new:
  assumes "\<And>q. r = Some q \<Longrightarrow> request_id q = i"
  shows "ids (push_new i r rs) = (if r = None then ids rs else insert i (ids rs))"
  using assms by (auto simp: ids_def push_new_def has_id_def list_ex_iff split: option.splits)

lemma request_map_id: "\<forall>i q. request_map p i = Some q \<longrightarrow> request_id q = i"
  by (auto simp: request_map_def dest!: map_of_SomeD)

lemma request_map_known: "request_map p i \<noteq> None \<longleftrightarrow> i \<in> ids (approved p) \<union> ids (needs_approval p) \<union> ids (denied p)"
  by (auto simp: request_map_def map_of_eq_None_iff ids_def image_iff)

text \<open>One result keeps the set of known requests, and a denial stays.\<close>

lemma apply_result_ids:
  assumes "\<forall>i q. m i = Some q \<longrightarrow> request_id q = i"
    and "\<And>i. m i \<noteq> None \<longleftrightarrow> i \<in> ids (approved p) \<union> ids (needs_approval p) \<union> ids (denied p)"
  shows "ids (approved (apply_result m r p)) \<union> ids (needs_approval (apply_result m r p)) \<union> ids (denied (apply_result m r p))
       = ids (approved p) \<union> ids (needs_approval p) \<union> ids (denied p)
     \<and> ids (denied (apply_result m r p))
       = ids (denied p) \<union> (if action r = Deny \<and> m (tool_request_id r) \<noteq> None then {tool_request_id r} else {})"
proof (cases "action r")
  case Deny
  with assms(2) [of "tool_request_id r"] show ?thesis
    by (auto simp: apply_result_def Let_def ids_without ids_push_new assms(1))
next
  case (RequireApproval x)
  with assms(2) [of "tool_request_id r"] show ?thesis
    by (auto simp: apply_result_def Let_def ids_without ids_push_new assms(1))
qed (simp add: apply_result_def Let_def)

lemma fold_apply_ids:
  assumes "\<forall>i q. m i = Some q \<longrightarrow> request_id q = i"
    and "\<And>i. m i \<noteq> None \<longleftrightarrow> i \<in> ids (approved p) \<union> ids (needs_approval p) \<union> ids (denied p)"
  shows "ids (approved (fold (apply_result m) rs p)) \<union> ids (needs_approval (fold (apply_result m) rs p))
         \<union> ids (denied (fold (apply_result m) rs p))
       = ids (approved p) \<union> ids (needs_approval p) \<union> ids (denied p)
     \<and> ids (denied (fold (apply_result m) rs p)) = ids (denied p) \<union> {i. denies rs i \<and> m i \<noteq> None}"
  using assms(2)
proof (induction rs arbitrary: p)
  case (Cons r rs)
  note s = apply_result_ids [where m = m and p = p and r = r, OF assms(1) Cons.prems]
  have "m i \<noteq> None \<longleftrightarrow> i \<in> ids (approved (apply_result m r p)) \<union> ids (needs_approval (apply_result m r p))
      \<union> ids (denied (apply_result m r p))" for i
    unfolding s [THEN conjunct1] by (rule Cons.prems)
  note IH = Cons.IH [of "apply_result m r p", OF this]
  show ?case
  proof
    show "ids (approved (fold (apply_result m) (r # rs) p)) \<union> ids (needs_approval (fold (apply_result m) (r # rs) p))
        \<union> ids (denied (fold (apply_result m) (r # rs) p))
      = ids (approved p) \<union> ids (needs_approval p) \<union> ids (denied p)"
      using trans [OF IH [THEN conjunct1] s [THEN conjunct1]] by simp
    have "ids (denied (fold (apply_result m) (r # rs) p)) = ids (denied p)
        \<union> (if action r = Deny \<and> m (tool_request_id r) \<noteq> None then {tool_request_id r} else {})
        \<union> {i. denies rs i \<and> m i \<noteq> None}"
      using IH [THEN conjunct2] s [THEN conjunct2] by simp
    then show "ids (denied (fold (apply_result m) (r # rs) p))
        = ids (denied p) \<union> {i. denies (r # rs) i \<and> m i \<noteq> None}"
      by (auto simp: denies_def)
  qed
qed (simp add: denies_def)

section \<open>Properties of the mixing\<close>

text \<open>
  C36. The inspectors can only restrict: after mixing, the approved requests are those that were
  approved and that no result denies or sends to the user, in the same order; no request is lost or
  invented; and the denied requests are those denied before and those a result denies.
\<close>

theorem mixing_restricts:
  "approved (apply_inspection_results_to_permissions p rs)
     = filter (\<lambda>q. \<not> overrides rs (request_id q)) (approved p)
   \<and> ids (approved (apply_inspection_results_to_permissions p rs))
       \<union> ids (needs_approval (apply_inspection_results_to_permissions p rs))
       \<union> ids (denied (apply_inspection_results_to_permissions p rs))
     = ids (approved p) \<union> ids (needs_approval p) \<union> ids (denied p)
   \<and> ids (denied (apply_inspection_results_to_permissions p rs))
     = ids (denied p) \<union> {i \<in> ids (approved p) \<union> ids (needs_approval p) \<union> ids (denied p). denies rs i}"
proof (cases "rs = []")
  case True
  then show ?thesis
    by (simp add: apply_inspection_results_to_permissions_def overrides_def denies_def)
next
  case False
  let ?f = "fold (apply_result (request_map p)) rs p"
  note f = fold_apply_ids [where m = "request_map p" and p = p and rs = rs, OF request_map_id request_map_known]
  have "{i. denies rs i \<and> request_map p i \<noteq> None}
      = {i \<in> ids (approved p) \<union> ids (needs_approval p) \<union> ids (denied p). denies rs i}"
    unfolding request_map_known by blast
  with f [THEN conjunct2] have "ids (denied ?f) = ids (denied p)
      \<union> {i \<in> ids (approved p) \<union> ids (needs_approval p) \<union> ids (denied p). denies rs i}"
    by (rule back_subst [of "\<lambda>x. ids (denied ?f) = ids (denied p) \<union> x"])
  with f [THEN conjunct1] approved_fold [of "request_map p" rs p] show ?thesis
    using False by (simp add: apply_inspection_results_to_permissions_def del: Un_iff)
qed

definition ask_result :: "string \<Rightarrow> str \<Rightarrow> inspection_result" where
  "ask_result n i = \<lparr>tool_request_id = i, action = RequireApproval None, reason = [], confidence = 10,
     inspector_name = lit n, finding_id = None\<rparr>"

definition bare_request :: "string \<Rightarrow> tool_request" where
  "bare_request i = \<lparr>request_id = lit i, tool_call = Ok \<lparr>tool_name = lit ''t'', arguments = None\<rparr>,
     request_metadata = None, tool_meta = None\<rparr>"

text \<open>
  A denial is not final: when an inspector that runs later asks for approval, the denied request is
  also queued for the user's approval, and would run if the user agrees.
\<close>

lemma denied_request_asked_again:
  "apply_inspection_results_to_permissions
     \<lparr>approved = [], needs_approval = [], denied = [bare_request ''1'']\<rparr> [ask_result ''security'' (lit ''1'')]
   = \<lparr>approved = [], needs_approval = [bare_request ''1''], denied = [bare_request ''1'']\<rparr>"
  by (simp add: apply_inspection_results_to_permissions_def apply_result_def ask_result_def without_def
      push_new_def request_map_def bare_request_def has_id_def Let_def)

section \<open>Properties of the repetition limit\<close>

fun check_calls :: "call_params list \<Rightarrow> repetition_inspector \<Rightarrow> bool list" where
  "check_calls [] s = []"
| "check_calls (c # cs) s = (let (s', ok) = check_tool_call c s in ok # check_calls cs s')"

text \<open>The length of the run of equal calls that ends at each position.\<close>

fun run_lengths :: "internal_tool_call option \<Rightarrow> nat \<Rightarrow> call_params list \<Rightarrow> nat list" where
  "run_lengths lst k [] = []"
| "run_lengths lst k (c # cs) =
     (let n = (if lst = Some (internal_call c) then k + 1 else 1)
      in n # run_lengths (Some (internal_call c)) n cs)"

lemma check_calls_run_lengths:
  assumes "max_repetitions s = Some m"
  shows "0 < m \<Longrightarrow> check_calls cs s = map (\<lambda>n. n \<le> m) (run_lengths (last_call s) (repeat_count s) cs)"
  using assms
proof (induction cs arbitrary: s)
  case (Cons c cs)
  then show ?case
    by (auto simp: check_tool_call_def count_call_def Let_def not_less)
qed simp

text \<open>
  The repetition limit counts runs: with a positive limit \<open>m\<close>, of a sequence of calls exactly
  those are refused that come after \<open>m\<close> or more equal calls in a row, and a different call starts a
  new run.
\<close>

lemma repetition_limit:
  assumes "0 < m"
  shows "check_calls cs (new_repetition (Some m)) = map (\<lambda>n. n \<le> m) (run_lengths None 0 cs)"
  using check_calls_run_lengths [of "new_repetition (Some m)" m cs] assms
  by (simp add: new_repetition_def)

definition bare_call :: call_params where
  "bare_call = \<lparr>tool_name = lit ''t'', arguments = None\<rparr>"

lemma repetition_limit_witness:
  "check_calls [bare_call, bare_call, bare_call] (new_repetition (Some 2)) = [True, True, False]"
  using repetition_limit [of 2 "[bare_call, bare_call, bare_call]"] by (simp add: Let_def)

text \<open>
  The agent creates the inspector without a limit and only calls \<open>inspect\<close>, which refuses nothing then,
  and never more than the state it was given says.
\<close>

lemma inspect_repetition_unlimited: "inspect_repetition (new_repetition None) reqs = []"
  by (induction reqs)
    (auto simp: inspect_repetition_def List.map_filter_simps check_tool_call_def count_call_def
      new_repetition_def Let_def split: sum.splits)

end
