(* ===== verification/PermissionInspector.thy ===== *)
theory PermissionInspector
  imports ToolInspection
begin

text \<open>
  \<open>crates/bharatcode-core/src/permission/permission_judge.rs\<close> and \<open>permission_inspector.rs\<close>: which
  tool calls a model may judge read-only, and the inspector that decides for each tool request
  whether it runs, is refused or is shown to the user. The JSON printer of \<open>serde_json\<close> and the
  provider (the model that judges) are parameters.
\<close>

section \<open>The judge\<close>

definition ARGUMENTS_BUDGET :: nat where "ARGUMENTS_BUDGET = 600"
definition READ_ONLY_JUDGE_TOOL :: str where
  "READ_ONLY_JUDGE_TOOL = lit ''platform__tool_by_tool_permission''"
definition MANAGE_EXTENSIONS_TOOL_NAME_COMPLETE :: str where
  "MANAGE_EXTENSIONS_TOOL_NAME_COMPLETE = lit ''extensionmanager__manage_extensions''"

definition judgeable_arguments :: "(json_object \<Rightarrow> str option) \<Rightarrow> tool_request \<Rightarrow> str option" where
  "judgeable_arguments ser r = (case tool_call r of
     Err _ \<Rightarrow> None
   | Ok c \<Rightarrow> Option.bind (case arguments c of Some a \<Rightarrow> ser a | None \<Rightarrow> Some (lit ''{}''))
       (\<lambda>t. if length t \<le> ARGUMENTS_BUDGET then Some t else None))"

definition is_argument_sensitive :: "(json_object \<Rightarrow> str option) \<Rightarrow> tool_request \<Rightarrow> bool" where
  "is_argument_sensitive ser r = (case tool_call r of
     Err _ \<Rightarrow> True
   | Ok c \<Rightarrow> judgeable_arguments ser r = None
       \<or> (case arguments c of Some a \<Rightarrow> a \<noteq> [] | None \<Rightarrow> False))"

definition describe_call :: "(json_object \<Rightarrow> str option) \<Rightarrow> tool_request \<Rightarrow> str option" where
  "describe_call ser r = (case tool_call r of
     Err _ \<Rightarrow> None
   | Ok c \<Rightarrow> map_option (\<lambda>a. lit ''- id: '' @ request_id r @ [newline] @ lit ''  tool: '' @ tool_name c
       @ [newline] @ lit ''  arguments: '' @ a) (judgeable_arguments ser r))"

definition judge_prompt_head :: str where
  "judge_prompt_head = lit ''Here are the tool calls:'' @ [newline, newline]"

definition judge_prompt_tail :: str where
  "judge_prompt_tail = [newline, newline]
     @ lit ''Decide, for each call, whether it is strictly read-only as invoked with those exact arguments. ''
     @ [newline, newline] @ lit ''Guidelines for Read-Only Operations: ''
     @ [newline] @ lit ''- Read-only operations do not modify any data or state, locally or remotely. ''
     @ [newline] @ lit ''- Examples include file reading, SELECT queries in SQL, and directory listing. ''
     @ [newline] @ lit ''- Write operations include INSERT, UPDATE, DELETE, file writing, and any command ''
     @ lit ''that installs, deletes, moves, pushes, or sends something. ''
     @ [newline] @ lit ''- The same tool can be read-only in one call and destructive in the next: judge ''
     @ lit ''the arguments, not the tool name. ''
     @ [newline, newline] @ lit ''Return the ids of the calls that qualify as read-only:''"

definition create_check_messages ::
    "(json_object \<Rightarrow> str option) \<Rightarrow> int \<Rightarrow> tool_request list \<Rightarrow> message list" where
  "create_check_messages ser now reqs = [message_new User now [mk_text (judge_prompt_head
     @ join_with [newline] (List.map_filter (describe_call ser) reqs) @ judge_prompt_tail)]]"

definition read_only_ids_of :: "message_content \<Rightarrow> str list option" where
  "read_only_ids_of c = (case c of
     ToolRequest r \<Rightarrow> (case tool_call r of
       Err _ \<Rightarrow> None
     | Ok t \<Rightarrow> if tool_name t \<noteq> READ_ONLY_JUDGE_TOOL then None
         else Option.bind (arguments t) (\<lambda>a. case map_of a (lit ''read_only_call_ids'') of
           Some (JArray xs) \<Rightarrow> Some (List.map_filter json_as_str xs)
         | _ \<Rightarrow> None))
   | _ \<Rightarrow> None)"

definition extract_read_only_call_ids :: "message \<Rightarrow> str list option" where
  "extract_read_only_call_ids m = first_some read_only_ids_of (content m)"

text \<open>
  The provider answers the check messages with a message or an error (\<open>None\<close>). It is only asked when
  some call can be judged.
\<close>

record judge_env =
  to_json :: "json_object \<Rightarrow> str option"
  complete :: "message list \<Rightarrow> message option"
  clock :: int

definition judgeable_ids :: "judge_env \<Rightarrow> tool_request list \<Rightarrow> str set" where
  "judgeable_ids env reqs = set (map request_id (filter (\<lambda>r. judgeable_arguments (to_json env) r \<noteq> None) reqs))"

definition detect_read_only_calls :: "judge_env \<Rightarrow> tool_request list \<Rightarrow> str set" where
  "detect_read_only_calls env reqs =
     (if judgeable_ids env reqs = {} then {}
      else case complete env (create_check_messages (to_json env) (clock env) reqs) of
        None \<Rightarrow> {}
      | Some m \<Rightarrow> set (case extract_read_only_call_ids m of Some xs \<Rightarrow> xs | None \<Rightarrow> [])
          \<inter> judgeable_ids env reqs)"

section \<open>The inspector\<close>

record permission_inspector =
  manager :: permission_manager
  readonly_tools :: "str set"

definition inspector_new :: "permission_manager \<Rightarrow> permission_inspector" where
  "inspector_new pm = \<lparr>manager = pm, readonly_tools = {}\<rparr>"

definition apply_tool_annotations :: "yaml_io \<Rightarrow> permission_inspector \<Rightarrow> tool list \<Rightarrow> permission_inspector option" where
  "apply_tool_annotations io ins tools =
     map_option (\<lambda>pm. \<lparr>manager = pm,
         readonly_tools = set (map tool_title (filter (\<lambda>t. read_only_hint t = Some (Some True)) tools))\<rparr>)
       (manager_apply_tool_annotations io (manager ins) tools)"

definition is_readonly_annotated_tool :: "permission_inspector \<Rightarrow> str \<Rightarrow> bool" where
  "is_readonly_annotated_tool ins n = (n \<in> readonly_tools ins)"

text \<open>The decision for one well-formed request: skipped, taken, or left to the judge.\<close>

datatype verdict = Skip | Decide inspection_action | Candidate

definition action_of_level :: "permission_level \<Rightarrow> inspection_action" where
  "action_of_level l = (case l of
     AlwaysAllow \<Rightarrow> Allow | NeverAllow \<Rightarrow> Deny | AskBefore \<Rightarrow> RequireApproval None)"

definition extension_warning :: str where
  "extension_warning = lit ''Extension management requires approval for security''"

definition decide ::
    "(json_object \<Rightarrow> str option) \<Rightarrow> permission_inspector \<Rightarrow> goose_mode \<Rightarrow> tool_request \<Rightarrow> str \<Rightarrow> verdict" where
  "decide ser ins mode r n = (case mode of
     Chat \<Rightarrow> Skip
   | Auto \<Rightarrow> Decide Allow
   | _ \<Rightarrow> (case get_user_permission (manager ins) n of
       Some l \<Rightarrow> Decide (action_of_level l)
     | None \<Rightarrow>
         if n = MANAGE_EXTENSIONS_TOOL_NAME_COMPLETE then Decide (RequireApproval (Some extension_warning))
         else if mode = Approve then Decide (RequireApproval None)
         else if is_readonly_annotated_tool ins n then Decide Allow
         else (case get_smart_approve_permission (manager ins) n of
             Some NeverAllow \<Rightarrow> Decide Deny
           | Some AskBefore \<Rightarrow> Decide (RequireApproval None)
           | Some AlwaysAllow \<Rightarrow> if is_argument_sensitive ser r then Candidate else Decide Allow
           | None \<Rightarrow> Candidate)))"

definition decision_reason :: "permission_inspector \<Rightarrow> goose_mode \<Rightarrow> str \<Rightarrow> inspection_action \<Rightarrow> str" where
  "decision_reason ins mode n a = (case a of
     Allow \<Rightarrow>
       if mode = Auto then lit ''Auto mode - all tools approved''
       else if is_readonly_annotated_tool ins n then lit ''Tool annotated as read-only''
       else if mode = SmartApprove then lit ''SmartApprove cached as read-only''
       else lit ''User permission allows this tool''
   | Deny \<Rightarrow> lit ''User permission denies this tool''
   | RequireApproval _ \<Rightarrow>
       if n = MANAGE_EXTENSIONS_TOOL_NAME_COMPLETE then lit ''Extension management requires user approval''
       else lit ''Tool requires user approval'')"

definition permission_name :: str where "permission_name = lit ''permission''"

definition permission_result :: "tool_request \<Rightarrow> inspection_action \<Rightarrow> str \<Rightarrow> inspection_result" where
  "permission_result r a why = \<lparr>tool_request_id = request_id r, action = a, reason = why, confidence = 1,
     inspector_name = permission_name, finding_id = None\<rparr>"

definition verdict_of ::
    "(json_object \<Rightarrow> str option) \<Rightarrow> permission_inspector \<Rightarrow> goose_mode \<Rightarrow> tool_request \<Rightarrow> verdict" where
  "verdict_of ser ins mode r = (case tool_call r of Err _ \<Rightarrow> Skip | Ok c \<Rightarrow> decide ser ins mode r (tool_name c))"

definition call_name_of :: "tool_request \<Rightarrow> str" where
  "call_name_of r = (case tool_call r of Ok c \<Rightarrow> tool_name c | Err _ \<Rightarrow> [])"

text \<open>The first loop: the results taken at once, and the candidates for the judge.\<close>

definition first_results ::
    "(json_object \<Rightarrow> str option) \<Rightarrow> permission_inspector \<Rightarrow> goose_mode \<Rightarrow> tool_request list \<Rightarrow> inspection_result list" where
  "first_results ser ins mode reqs = List.map_filter (\<lambda>r. case verdict_of ser ins mode r of
     Decide a \<Rightarrow> Some (permission_result r a (decision_reason ins mode (call_name_of r) a))
   | _ \<Rightarrow> None) reqs"

definition candidates ::
    "(json_object \<Rightarrow> str option) \<Rightarrow> permission_inspector \<Rightarrow> goose_mode \<Rightarrow> tool_request list \<Rightarrow> tool_request list" where
  "candidates ser ins mode reqs = filter (\<lambda>r. verdict_of ser ins mode r = Candidate) reqs"

text \<open>The second loop: verdicts of the judge, cached by name where the arguments do not matter.\<close>

definition judged_result :: "str set \<Rightarrow> tool_request \<Rightarrow> inspection_result" where
  "judged_result detected r =
     (if request_id r \<in> detected then permission_result r Allow (lit ''LLM detected as read-only'')
      else permission_result r (RequireApproval None) (lit ''Tool requires user approval''))"

definition cache_update :: "(json_object \<Rightarrow> str option) \<Rightarrow> str set \<Rightarrow> tool_request \<Rightarrow> (str \<times> permission_level) option" where
  "cache_update ser detected r = (if is_argument_sensitive ser r then None else case tool_call r of
     Err _ \<Rightarrow> None
   | Ok c \<Rightarrow> Some (tool_name c, if request_id r \<in> detected then AlwaysAllow else AskBefore))"

fun cache_verdicts :: "yaml_io \<Rightarrow> permission_manager \<Rightarrow> (str \<times> permission_level) list \<Rightarrow> permission_manager option" where
  "cache_verdicts io pm [] = Some pm"
| "cache_verdicts io pm ((n, l) # us) =
     (case update_smart_approve_permission io pm n l of None \<Rightarrow> None | Some pm' \<Rightarrow> cache_verdicts io pm' us)"

text \<open>\<open>has_provider\<close> is false while the agent has no provider; a panic of the manager is \<open>None\<close>.\<close>

definition judged_ids :: "judge_env \<Rightarrow> bool \<Rightarrow> tool_request list \<Rightarrow> str set" where
  "judged_ids env has_provider cands =
     (if cands = [] \<or> \<not> has_provider then {} else detect_read_only_calls env cands)"

definition inspect_permissions ::
    "yaml_io \<Rightarrow> judge_env \<Rightarrow> bool \<Rightarrow> permission_inspector \<Rightarrow> tool_request list
      \<Rightarrow> goose_mode \<Rightarrow> (permission_inspector \<times> inspection_result list) option" where
  "inspect_permissions io env has_provider ins reqs mode =
     (let cands = candidates (to_json env) ins mode reqs;
          detected = judged_ids env has_provider cands
      in map_option (\<lambda>pm. (ins\<lparr>manager := pm\<rparr>,
             first_results (to_json env) ins mode reqs @ map (judged_result detected) cands))
           (cache_verdicts io (manager ins) (List.map_filter (cache_update (to_json env) detected) cands)))"

section \<open>From results to decisions\<close>

definition add_baseline ::
    "inspection_result list \<Rightarrow> tool_request \<Rightarrow> permission_check_result \<Rightarrow> permission_check_result" where
  "add_baseline prs r p = (case List.find (\<lambda>x. tool_request_id x = request_id r) prs of
     Some x \<Rightarrow> (case action x of
         Allow \<Rightarrow> p\<lparr>approved := approved p @ [r]\<rparr>
       | Deny \<Rightarrow> p\<lparr>denied := denied p @ [r]\<rparr>
       | RequireApproval _ \<Rightarrow> p\<lparr>needs_approval := needs_approval p @ [r]\<rparr>)
   | None \<Rightarrow> p\<lparr>needs_approval := needs_approval p @ [r]\<rparr>)"

definition from_permission :: "inspection_result \<Rightarrow> bool" where
  "from_permission x = (inspector_name x = permission_name)"

definition process_inspection_results ::
    "tool_request list \<Rightarrow> inspection_result list \<Rightarrow> permission_check_result" where
  "process_inspection_results reqs results =
     (let base = fold (add_baseline (filter from_permission results)) reqs
          \<lparr>approved = [], needs_approval = [], denied = []\<rparr>;
          others = filter (\<lambda>x. \<not> from_permission x) results
      in if others = [] then base else apply_inspection_results_to_permissions base others)"

section \<open>Who may run without asking\<close>

lemma cache_verdicts_updates: "cache_verdicts io pm us = smart_table.updates io pm us"
  by (induction us arbitrary: pm) (auto split: option.splits)

lemma cache_verdicts_user:
  "cache_verdicts io pm us = Some pm' \<Longrightarrow> get_user_permission pm' n = get_user_permission pm n"
proof (induction us arbitrary: pm)
  case (Cons u us)
  obtain m l where u: "u = (m, l)" by force
  with Cons.prems obtain pm1 where p1: "update_smart_approve_permission io pm m l = Some pm1"
    "cache_verdicts io pm1 us = Some pm'" by (auto split: option.splits)
  have "get_user_permission pm1 n = get_user_permission pm n"
    using update_permission_get [OF p1(1) [unfolded update_smart_approve_permission_def], of USER_PERMISSION n]
    by (simp add: get_user_permission_def USER_PERMISSION_def SMART_APPROVE_PERMISSION_def)
  with Cons.IH [OF p1(2)] show ?case by simp
qed simp

text \<open>
  The judge saw a call and named it: there is a question to the provider with one text, in which the call's id, tool and
  complete printed arguments stand, and the provider's answer to it calls the judge tool with this id among
  its read-only ones.
\<close>

definition printed_arguments :: "judge_env \<Rightarrow> call_params \<Rightarrow> str \<Rightarrow> bool" where
  "printed_arguments env c t = (case arguments c of Some a \<Rightarrow> to_json env a = Some t | None \<Rightarrow> t = lit ''{}'')"

definition lists_call :: "str \<Rightarrow> str \<Rightarrow> str \<Rightarrow> str \<Rightarrow> bool" where
  "lists_call txt i n args = (\<exists>before after. txt = before @ (lit ''- id: '' @ i @ [newline] @ lit ''  tool: '' @ n @ [newline]
     @ lit ''  arguments: '' @ args) @ after)"

definition names_read_only :: "message \<Rightarrow> str \<Rightarrow> bool" where
  "names_read_only answer i = (\<exists>q args ids. ToolRequest q \<in> set (content answer)
     \<and> tool_call q = Ok \<lparr>tool_name = READ_ONLY_JUDGE_TOOL, arguments = Some args\<rparr>
     \<and> map_of args (lit ''read_only_call_ids'') = Some (JArray ids) \<and> JString i \<in> set ids)"

definition shown_and_named :: "judge_env \<Rightarrow> tool_request \<Rightarrow> call_params \<Rightarrow> bool" where
  "shown_and_named env r c = (\<exists>printed txt answer. printed_arguments env c printed \<and> length printed \<le> ARGUMENTS_BUDGET
     \<and> lists_call txt (request_id r) (tool_name c) printed
     \<and> complete env [message_new User (clock env) [mk_text txt]] = Some answer \<and> names_read_only answer (request_id r))"

text \<open>The grounds on which a call runs without asking the user.\<close>

definition granted ::
    "judge_env \<Rightarrow> bool \<Rightarrow> permission_inspector \<Rightarrow> goose_mode \<Rightarrow> tool_request \<Rightarrow> call_params \<Rightarrow> bool" where
  "granted env has_provider ins mode r c =
     (mode = Auto
      \<or> mode \<in> {Approve, SmartApprove} \<and> get_user_permission (manager ins) (tool_name c) = Some AlwaysAllow
      \<or> mode = SmartApprove \<and> get_user_permission (manager ins) (tool_name c) = None
        \<and> tool_name c \<noteq> MANAGE_EXTENSIONS_TOOL_NAME_COMPLETE
        \<and> (is_readonly_annotated_tool ins (tool_name c)
           \<or> get_smart_approve_permission (manager ins) (tool_name c) = Some AlwaysAllow
             \<and> (arguments c = None \<or> arguments c = Some [])
           \<or> get_smart_approve_permission (manager ins) (tool_name c) \<in> {None, Some AlwaysAllow}
             \<and> has_provider \<and> shown_and_named env r c))"

lemma verdict_Decide_Allow:
  assumes "verdict_of (to_json env) ins mode r = Decide Allow"
  shows "\<exists>c. tool_call r = Ok c \<and> granted env hp ins mode r c"
proof -
  obtain c where c: "tool_call r = Ok c" and d: "decide (to_json env) ins mode r (tool_name c) = Decide Allow"
    using assms by (auto simp: verdict_of_def split: sum.splits)
  have "granted env hp ins mode r c"
    using d c
    by (cases mode; cases "get_user_permission (manager ins) (tool_name c)";
        cases "get_smart_approve_permission (manager ins) (tool_name c)")
      (auto simp: decide_def granted_def action_of_level_def is_argument_sensitive_def
        split: permission_level.splits if_splits option.splits)
  with c show ?thesis by blast
qed

lemma verdict_Candidate:
  assumes "verdict_of ser ins mode r = Candidate"
  shows "mode = SmartApprove \<and> (\<exists>c. tool_call r = Ok c \<and> get_user_permission (manager ins) (tool_name c) = None
    \<and> tool_name c \<noteq> MANAGE_EXTENSIONS_TOOL_NAME_COMPLETE
    \<and> get_smart_approve_permission (manager ins) (tool_name c) \<in> {None, Some AlwaysAllow})"
proof -
  obtain c where c: "tool_call r = Ok c" and d: "decide ser ins mode r (tool_name c) = Candidate"
    using assms by (auto simp: verdict_of_def split: sum.splits)
  then show ?thesis
    by (cases mode; cases "get_user_permission (manager ins) (tool_name c)";
        cases "get_smart_approve_permission (manager ins) (tool_name c)")
      (auto simp: decide_def split: permission_level.splits if_splits)
qed

lemma read_only_ids_of_Some:
  assumes "read_only_ids_of k = Some named"
  obtains q a xs where "k = ToolRequest q" "tool_call q = Ok \<lparr>tool_name = READ_ONLY_JUDGE_TOOL, arguments = Some a\<rparr>"
    "map_of a (lit ''read_only_call_ids'') = Some (JArray xs)" "named = List.map_filter json_as_str xs"
proof -
  obtain q where q: "k = ToolRequest q" using assms by (cases k) (simp_all add: read_only_ids_of_def)
  obtain t where t: "tool_call q = Ok t" using assms by (cases "tool_call q") (simp_all add: read_only_ids_of_def q)
  have n: "tool_name t = READ_ONLY_JUDGE_TOOL" using assms by (simp add: read_only_ids_of_def q t split: if_splits)
  obtain a where a: "arguments t = Some a" using assms by (cases "arguments t") (simp_all add: read_only_ids_of_def q t n)
  obtain v where v: "map_of a (lit ''read_only_call_ids'') = Some v"
    using assms by (cases "map_of a (lit ''read_only_call_ids'')") (simp_all add: read_only_ids_of_def q t n a del: lit_Cons)
  obtain xs where "v = JArray xs" "named = List.map_filter json_as_str xs"
    using assms by (cases v) (simp_all add: read_only_ids_of_def q t n a v del: lit_Cons)
  moreover have "t = \<lparr>tool_name = READ_ONLY_JUDGE_TOOL, arguments = Some a\<rparr>" using n a by (cases t) simp
  ultimately show ?thesis using that q t v by blast
qed

lemma extracted_ids_named:
  assumes "extract_read_only_call_ids answer = Some named" "i \<in> set named"
  shows "names_read_only answer i"
proof -
  obtain k where k: "k \<in> set (content answer)" "read_only_ids_of k = Some named"
    using first_some_Some [OF assms(1) [unfolded extract_read_only_call_ids_def]] by (rule bexE)
  from k(2) show ?thesis
  proof (rule read_only_ids_of_Some)
    fix q a xs
    assume q: "k = ToolRequest q" "tool_call q = Ok \<lparr>tool_name = READ_ONLY_JUDGE_TOOL, arguments = Some a\<rparr>"
      "map_of a (lit ''read_only_call_ids'') = Some (JArray xs)" "named = List.map_filter json_as_str xs"
    have "JString i \<in> set xs" using assms(2) q(4) by (auto simp: List.map_filter_def elim: json_as_str.elims)
    then show ?thesis unfolding names_read_only_def using k(1) q by blast
  qed
qed

lemma detected_shown:
  assumes "request_id r \<in> judged_ids env hp cands" and "r \<in> set cands" and "distinct (map request_id cands)"
    and c: "tool_call r = Ok c"
  shows "hp \<and> shown_and_named env r c"
proof -
  let ?q = "create_check_messages (to_json env) (clock env) cands"
  have hp: hp and j: "request_id r \<in> judgeable_ids env cands"
    and "\<exists>m named. complete env ?q = Some m \<and> extract_read_only_call_ids m = Some named \<and> request_id r \<in> set named"
    using assms(1) by (auto simp: judged_ids_def detect_read_only_calls_def split: if_splits option.splits)
  then obtain m named where m: "complete env ?q = Some m" "extract_read_only_call_ids m = Some named" "request_id r \<in> set named" by blast
  from j obtain q where "q \<in> set cands" "judgeable_arguments (to_json env) q \<noteq> None" "request_id q = request_id r"
    by (auto simp: judgeable_ids_def)
  then have "judgeable_arguments (to_json env) r \<noteq> None" using assms(2,3) by (metis distinct_map inj_onD)
  then obtain t where t: "judgeable_arguments (to_json env) r = Some t" by blast
  then have p: "printed_arguments env c t" "length t \<le> ARGUMENTS_BUDGET"
    using c by (auto simp: judgeable_arguments_def printed_arguments_def bind_eq_Some_conv simp del: lit_Cons split: option.splits if_splits)
  let ?d = "lit ''- id: '' @ request_id r @ [newline] @ lit ''  tool: '' @ tool_name c @ [newline] @ lit ''  arguments: '' @ t"
  have "describe_call (to_json env) r = Some ?d" by (simp add: describe_call_def c t)
  then have "?d \<in> set (List.map_filter (describe_call (to_json env)) cands)"
    using assms(2) unfolding List.map_filter_def by force
  from join_with_member [OF this, of "[newline]"] obtain a b
    where ab: "join_with [newline] (List.map_filter (describe_call (to_json env)) cands) = a @ ?d @ b" by blast
  let ?txt = "judge_prompt_head @ (a @ ?d @ b) @ judge_prompt_tail"
  have "?q = [message_new User (clock env) [mk_text ?txt]]" unfolding create_check_messages_def ab ..
  moreover have "lists_call ?txt (request_id r) (tool_name c) t"
    unfolding lists_call_def by (rule exI [of _ "judge_prompt_head @ a"], rule exI [of _ "b @ judge_prompt_tail"]) simp
  ultimately show ?thesis
    using hp p m(1) extracted_ids_named [OF m(2,3)] unfolding shown_and_named_def by metis
qed

lemma allowed_grounds:
  assumes "inspect_permissions io env hp ins reqs mode = Some (ins', results)"
    and "distinct (map request_id reqs)" and "x \<in> set results" and "action x = Allow"
  shows "\<exists>r\<in>set reqs. request_id r = tool_request_id x \<and> (\<exists>c. tool_call r = Ok c
    \<and> granted env hp ins mode r c)"
proof -
  let ?c = "candidates (to_json env) ins mode reqs"
  let ?d = "judged_ids env hp ?c"
  have "x \<in> set (first_results (to_json env) ins mode reqs) \<or> x \<in> set (map (judged_result ?d) ?c)"
    using assms(1,3) by (auto simp: inspect_permissions_def Let_def)
  then show ?thesis
  proof
    assume "x \<in> set (first_results (to_json env) ins mode reqs)"
    then obtain r where "r \<in> set reqs" "verdict_of (to_json env) ins mode r = Decide Allow"
        "tool_request_id x = request_id r"
      using assms(4) by (auto simp: first_results_def List.map_filter_def permission_result_def split: verdict.splits)
    with verdict_Decide_Allow show ?thesis by metis
  next
    assume "x \<in> set (map (judged_result ?d) ?c)"
    then obtain r where r: "r \<in> set ?c" "x = judged_result ?d r" by auto
    then have d: "request_id r \<in> ?d" "tool_request_id x = request_id r"
      using assms(4) by (auto simp: judged_result_def permission_result_def split: if_splits)
    have "distinct (map request_id ?c)"
      using assms(2) by (auto simp: candidates_def distinct_map intro: inj_on_subset)
    note j = detected_shown [OF d(1) r(1) this]
    from r(1) have "r \<in> set reqs" "verdict_of (to_json env) ins mode r = Candidate"
      by (auto simp: candidates_def)
    with verdict_Candidate [of "to_json env" ins mode r] j d show ?thesis
      by (fastforce simp: granted_def)
  qed
qed

text \<open>
  The cache holds no verdict about arguments: an inspection changes no permission the user set,
  and a tool newly recorded as always allowed was called without arguments.
\<close>

lemma inspect_permissions_cache:
  assumes "inspect_permissions io env hp ins reqs mode = Some (ins', results)"
  shows "get_user_permission (manager ins') n = get_user_permission (manager ins) n
    \<and> (get_smart_approve_permission (manager ins') n = Some AlwaysAllow
       \<longrightarrow> get_smart_approve_permission (manager ins) n = Some AlwaysAllow
         \<or> (\<exists>r\<in>set reqs. \<exists>c. tool_call r = Ok c \<and> tool_name c = n \<and> (arguments c = None \<or> arguments c = Some [])))"
proof -
  let ?c = "candidates (to_json env) ins mode reqs"
  let ?us = "List.map_filter (cache_update (to_json env) (judged_ids env hp ?c)) ?c"
  have u: "cache_verdicts io (manager ins) ?us = Some (manager ins')"
    using assms by (auto simp: inspect_permissions_def Let_def)
  have "\<exists>r\<in>set reqs. \<exists>c. tool_call r = Ok c \<and> tool_name c = n \<and> (arguments c = None \<or> arguments c = Some [])"
    if "(n, AlwaysAllow) \<in> set ?us"
  proof -
    from that obtain r where "r \<in> set ?c" "cache_update (to_json env) (judged_ids env hp ?c) r = Some (n, AlwaysAllow)"
      by (auto simp: List.map_filter_def)
    then show ?thesis
      by (auto simp: cache_update_def is_argument_sensitive_def candidates_def
          split: if_splits sum.splits option.splits intro!: bexI [of _ r])
  qed
  with u cache_verdicts_user [OF u, of n] smart_table.get_updates_Some [of io "manager ins" ?us "manager ins'" n AlwaysAllow]
  show ?thesis by (auto simp: cache_verdicts_updates)
qed

section \<open>The final decision\<close>

lemma baseline_fold:
  "fold (add_baseline prs) reqs p =
     \<lparr>approved = approved p @ filter (\<lambda>r. case List.find (\<lambda>x. tool_request_id x = request_id r) prs of
        Some x \<Rightarrow> action x = Allow | None \<Rightarrow> False) reqs,
      needs_approval = needs_approval p @ filter (\<lambda>r. case List.find (\<lambda>x. tool_request_id x = request_id r) prs of
        Some x \<Rightarrow> (case action x of RequireApproval _ \<Rightarrow> True | _ \<Rightarrow> False) | None \<Rightarrow> True) reqs,
      denied = denied p @ filter (\<lambda>r. case List.find (\<lambda>x. tool_request_id x = request_id r) prs of
        Some x \<Rightarrow> action x = Deny | None \<Rightarrow> False) reqs\<rparr>"
proof (induction reqs arbitrary: p)
  case (Cons r reqs)
  then show ?case
    by (cases "List.find (\<lambda>x. tool_request_id x = request_id r) prs")
      (auto simp: add_baseline_def split: inspection_action.splits)
qed simp

text \<open>The permission inspector's decision on a request, and whether another inspector objects.\<close>

definition permission_action :: "inspection_result list \<Rightarrow> tool_request \<Rightarrow> inspection_action option" where
  "permission_action results r =
     map_option action (List.find (\<lambda>x. tool_request_id x = request_id r) (filter from_permission results))"

definition objected :: "inspection_result list \<Rightarrow> tool_request \<Rightarrow> bool" where
  "objected results r = overrides (filter (\<lambda>x. \<not> from_permission x) results) (request_id r)"

lemma approved_decided:
  "approved (process_inspection_results reqs results)
     = filter (\<lambda>r. permission_action results r = Some Allow \<and> \<not> objected results r) reqs"
proof -
  let ?o = "filter (\<lambda>x. \<not> from_permission x) results"
  let ?b = "fold (add_baseline (filter from_permission results)) reqs \<lparr>approved = [], needs_approval = [], denied = []\<rparr>"
  have b: "approved ?b = filter (\<lambda>r. permission_action results r = Some Allow) reqs"
    unfolding baseline_fold
    by (auto simp: permission_action_def intro!: filter_cong split: option.splits)
  have "approved (process_inspection_results reqs results)
      = filter (\<lambda>r. \<not> overrides ?o (request_id r)) (approved ?b)"
    by (simp add: process_inspection_results_def approved_applied Let_def overrides_def)
  then show ?thesis by (simp add: b objected_def)
qed

text \<open>
  The decision of the agent: a request runs without asking exactly when the permission inspector
  allowed it and no other inspector denies it or asks for approval; a request without a decision is
  never among the approved ones, and the order of the requests is kept.
\<close>

lemma process_results_approved:
  "approved (process_inspection_results reqs results)
     = filter (\<lambda>r. permission_action results r = Some Allow \<and> \<not> objected results r) reqs"
  by (rule approved_decided)

text \<open>
  C1. Who runs without asking, end to end: when the ids of the requests are distinct and the
  permission inspector's results are among those of all inspectors, a request the agent runs without
  asking is well formed, no other inspector objects to it, and it has grounds: the mode approves
  everything, or the user always allows its tool, or in the smart mode its tool is annotated
  read-only, or was judged read-only and the call takes no arguments, or the provider's answer to a
  question that lists this very call with its complete arguments names it. In the approve mode only the user's own
  permission counts, in the chat mode nothing does, and only the user grants extension management.
\<close>

theorem runs_without_asking:
  assumes "inspect_permissions io env hp ins reqs mode = Some (ins', results)"
    and "distinct (map request_id reqs)" and "filter from_permission all_results = results"
    and "r \<in> set (approved (process_inspection_results reqs all_results))"
  shows "\<exists>c. tool_call r = Ok c \<and> \<not> objected all_results r
    \<and> granted env hp ins mode r c"
proof -
  have r: "r \<in> set reqs" "permission_action all_results r = Some Allow" "\<not> objected all_results r"
    using assms(4) by (auto simp: approved_decided)
  then obtain x where f: "List.find (\<lambda>x. tool_request_id x = request_id r) results = Some x"
    and a: "action x = Allow"
    by (auto simp: permission_action_def assms(3))
  from f have x: "x \<in> set results" "tool_request_id x = request_id r" by (auto simp: find_Some_iff)
  obtain q c where q: "q \<in> set reqs" "request_id q = request_id r" "tool_call q = Ok c"
    "granted env hp ins mode q c"
    using allowed_grounds [OF assms(1,2) x(1) a] x(2) by auto
  have "q = r" using assms(2) q(1,2) r(1) by (meson distinct_map inj_onD)
  with q r(3) show ?thesis by blast
qed

section \<open>Witnesses\<close>

definition list_request :: tool_request where
  "list_request = \<lparr>request_id = lit ''1'', tool_call = Ok \<lparr>tool_name = lit ''list'', arguments = None\<rparr>,
     request_metadata = None, tool_meta = None\<rparr>"

definition big_request :: tool_request where
  "big_request = \<lparr>request_id = lit ''1'', tool_call = Ok \<lparr>tool_name = lit ''shell'',
     arguments = Some [(lit ''command'', JString (lit ''rm''))]\<rparr>, request_metadata = None, tool_meta = None\<rparr>"

text \<open>A printer that prints any object with entries as a text beyond the budget.\<close>

definition long_json :: "json_object \<Rightarrow> str option" where
  "long_json a = Some (if a = [] then lit ''{}'' else replicate 700 120)"

definition naming_one :: judge_env where
  "naming_one = \<lparr>to_json = long_json, complete = (\<lambda>_. Some (message_new Assistant 0 [mk_tool_request (lit ''j'')
     (Ok \<lparr>tool_name = READ_ONLY_JUDGE_TOOL,
       arguments = Some [(lit ''read_only_call_ids'', JArray [JString (lit ''1'')])]\<rparr>)])), clock = 0\<rparr>"

definition list_map :: permission_map where
  "list_map = [SMART_APPROVE_PERMISSION \<mapsto> \<lparr>always_allow = [lit ''list''], ask_before = [], never_allow = []\<rparr>]"

definition list_manager :: permission_manager where
  "list_manager = \<lparr>permission_map = list_map, config_file = FileText (lit ''m''), writable = True\<rparr>"

lemma judge_names_one: "detect_read_only_calls naming_one (list_request # rs) = {lit ''1''}"
proof -
  have "lit ''1'' \<in> judgeable_ids naming_one (list_request # rs)"
    by (simp add: judgeable_ids_def judgeable_arguments_def list_request_def ARGUMENTS_BUDGET_def)
  then show ?thesis
    by (auto simp: detect_read_only_calls_def naming_one_def extract_read_only_call_ids_def
        read_only_ids_of_def mk_tool_request_def message_new_def List.map_filter_simps)
qed

lemma list_cached:
  "update_smart_approve_permission (one_map_yaml list_map) fresh_manager (lit ''list'') AlwaysAllow = Some list_manager"
  by (simp add: update_smart_approve_permission_def update_permission_def write_config_def one_map_yaml_def
      list_map_def fresh_manager_def list_manager_def set_level_def push_level_def retain_config_def
      entry_or_default_def empty_config_def)

lemma fresh_candidate:
  "tool_call r = Ok c \<Longrightarrow> tool_name c \<noteq> MANAGE_EXTENSIONS_TOOL_NAME_COMPLETE \<Longrightarrow>
   verdict_of ser (inspector_new fresh_manager) SmartApprove r = Candidate"
  by (simp add: verdict_of_def decide_def inspector_new_def fresh_manager_def get_user_permission_def
      get_smart_approve_permission_def get_permission_def is_readonly_annotated_tool_def)

lemma list_candidate: "verdict_of ser (inspector_new fresh_manager) SmartApprove list_request = Candidate"
  by (rule fresh_candidate, simp add: list_request_def, simp add: MANAGE_EXTENSIONS_TOOL_NAME_COMPLETE_def)

lemma big_candidate: "verdict_of ser (inspector_new fresh_manager) SmartApprove big_request = Candidate"
  by (rule fresh_candidate, simp add: big_request_def, simp add: MANAGE_EXTENSIONS_TOOL_NAME_COMPLETE_def)

lemma list_cache_update: "cache_update long_json {lit ''1''} list_request = Some (lit ''list'', AlwaysAllow)"
  by (simp add: cache_update_def is_argument_sensitive_def judgeable_arguments_def list_request_def
      ARGUMENTS_BUDGET_def)

lemma big_cache_update: "cache_update long_json {lit ''1''} big_request = None"
  by (simp add: cache_update_def is_argument_sensitive_def judgeable_arguments_def big_request_def
      ARGUMENTS_BUDGET_def long_json_def)

lemma list_inspected:
  "inspect_permissions (one_map_yaml list_map) naming_one True (inspector_new fresh_manager) [list_request] SmartApprove
     = Some (inspector_new list_manager, [permission_result list_request Allow (lit ''LLM detected as read-only'')])"
proof -
  have "candidates long_json (inspector_new fresh_manager) SmartApprove [list_request] = [list_request]"
    by (simp add: candidates_def list_candidate)
  moreover have "first_results long_json (inspector_new fresh_manager) SmartApprove [list_request] = []"
    by (simp add: first_results_def list_candidate List.map_filter_simps)
  moreover have "to_json naming_one = long_json" by (simp add: naming_one_def)
  moreover have "request_id list_request = lit ''1''" by (simp add: list_request_def)
  ultimately show ?thesis
    using judge_names_one [of "[]"] list_cache_update list_cached
    by (simp add: inspect_permissions_def judged_ids_def judged_result_def List.map_filter_simps
        inspector_new_def Let_def del: lit_Cons)
qed

theorem runs_without_asking_witness:
  "approved (process_inspection_results [list_request]
       [permission_result list_request Allow (lit ''LLM detected as read-only'')]) = [list_request]
   \<and> (\<exists>c. tool_call list_request = Ok c
     \<and> granted naming_one True (inspector_new fresh_manager) SmartApprove list_request c)"
proof -
  let ?x = "permission_result list_request Allow (lit ''LLM detected as read-only'')"
  have f: "from_permission ?x" by (simp add: from_permission_def permission_result_def)
  then have a: "approved (process_inspection_results [list_request] [?x]) = [list_request]"
    by (simp add: approved_decided permission_action_def objected_def overrides_def)
      (simp add: permission_result_def)
  from a have "list_request \<in> set (approved (process_inspection_results [list_request] [?x]))" by simp
  from runs_without_asking [OF list_inspected _ _ this] f a show ?thesis by fastforce
qed

lemma inspect_permissions_cache_witness:
  "get_smart_approve_permission list_manager (lit ''list'') = Some AlwaysAllow
   \<and> (\<exists>r\<in>set [list_request]. \<exists>c. tool_call r = Ok c \<and> tool_name c = lit ''list''
        \<and> (arguments c = None \<or> arguments c = Some []))"
proof -
  have a: "get_smart_approve_permission list_manager (lit ''list'') = Some AlwaysAllow"
    by (simp add: get_smart_approve_permission_def get_permission_def list_manager_def list_map_def level_in_def)
  moreover have "get_smart_approve_permission fresh_manager (lit ''list'') = None"
    by (simp add: get_smart_approve_permission_def get_permission_def fresh_manager_def)
  ultimately show ?thesis
    using inspect_permissions_cache [OF list_inspected, of "lit ''list''"]
    by (simp add: inspector_new_def del: lit_Cons)
qed

text \<open>
  Without distinct ids the guard of the judge fails: a call whose arguments were too long to be shown
  shares the id of a judged one and is allowed on its verdict.
\<close>

lemma unseen_call_allowed:
  "judgeable_arguments long_json big_request = None
   \<and> inspect_permissions (one_map_yaml list_map) naming_one True (inspector_new fresh_manager)
       [list_request, big_request] SmartApprove
     = Some (inspector_new list_manager, [permission_result list_request Allow (lit ''LLM detected as read-only''),
         permission_result big_request Allow (lit ''LLM detected as read-only'')])"
proof
  show "judgeable_arguments long_json big_request = None"
    by (simp add: judgeable_arguments_def big_request_def ARGUMENTS_BUDGET_def long_json_def)
  have "candidates long_json (inspector_new fresh_manager) SmartApprove [list_request, big_request]
      = [list_request, big_request]"
    by (simp add: candidates_def list_candidate big_candidate)
  moreover have "first_results long_json (inspector_new fresh_manager) SmartApprove [list_request, big_request] = []"
    by (simp add: first_results_def list_candidate big_candidate List.map_filter_simps)
  moreover have "to_json naming_one = long_json" by (simp add: naming_one_def)
  moreover have "request_id list_request = lit ''1''" "request_id big_request = lit ''1''"
    by (simp_all add: list_request_def big_request_def)
  ultimately show "inspect_permissions (one_map_yaml list_map) naming_one True (inspector_new fresh_manager)
       [list_request, big_request] SmartApprove
     = Some (inspector_new list_manager, [permission_result list_request Allow (lit ''LLM detected as read-only''),
         permission_result big_request Allow (lit ''LLM detected as read-only'')])"
    using judge_names_one [of "[big_request]"] list_cache_update big_cache_update list_cached
    by (simp add: inspect_permissions_def judged_ids_def judged_result_def List.map_filter_simps
        inspector_new_def Let_def del: lit_Cons)
qed

end
