(* ===== verification/PermissionStore.thy ===== *)
theory PermissionStore
  imports Message
begin

text \<open>
  \<open>crates/bharatcode-core/src/permission/permission_store.rs\<close>: remembered permissions of single tool
  calls, keyed by the tool's name and a hash of the arguments, with an expiry. The hash (\<open>blake3\<close>
  over the printed arguments), the printers and the clock are parameters; \<open>None\<close> is a panic of
  \<open>unwrap\<close> on a malformed tool call.
\<close>

record tool_permission_record =
  rec_tool :: str
  allowed :: bool
  context_hash :: str
  readable_context :: "str option"
  timestamp :: int
  expiry :: "int option"

type_synonym permissions = "str \<Rightarrow> tool_permission_record list option"

text \<open>
  The store and its directory: the file \<open>tool_permissions.json\<close> and the temporary file beside it.
  \<open>serde\<close> prints and reads the permissions; the three flags are the outcomes of the system calls.
\<close>

record store_env =
  hash_arguments :: "json_object option \<Rightarrow> str"
  readable :: "tool_request \<Rightarrow> str"
  print_store :: "permissions \<Rightarrow> str option"
  parse_store :: "str \<Rightarrow> permissions option"
  mkdir_ok :: bool
  write_ok :: bool
  rename_ok :: bool

record permission_store =
  permissions :: permissions
  store_file :: "str option"
  temp_file :: "str option"

definition store_new :: "str option \<Rightarrow> permission_store" where
  "store_new file = \<lparr>permissions = (\<lambda>_. None), store_file = file, temp_file = None\<rparr>"

text \<open>\<open>save\<close>: the new state of the directory and whether it succeeded.\<close>

definition save_store :: "store_env \<Rightarrow> permission_store \<Rightarrow> permission_store \<times> bool" where
  "save_store env s =
     (if \<not> mkdir_ok env then (s, False)
      else case print_store env (permissions s) of
        None \<Rightarrow> (s, False)
      | Some t \<Rightarrow>
          if \<not> write_ok env then (s, False)
          else if \<not> rename_ok env then (s\<lparr>temp_file := Some t\<rparr>, False)
          else (s\<lparr>store_file := Some t, temp_file := None\<rparr>, True))"

definition unexpired :: "int \<Rightarrow> tool_permission_record \<Rightarrow> bool" where
  "unexpired now r = (case expiry r of None \<Rightarrow> True | Some e \<Rightarrow> now < e)"

definition permission_key :: "store_env \<Rightarrow> call_params \<Rightarrow> str" where
  "permission_key env c = tool_name c @ lit '':'' @ hash_arguments env (arguments c)"

text \<open>\<open>rfind\<close>: the last record that is not expired.\<close>

definition latest :: "int \<Rightarrow> tool_permission_record list \<Rightarrow> bool option" where
  "latest now rs = map_option allowed (List.find (unexpired now) (rev rs))"

definition check_permission :: "store_env \<Rightarrow> int \<Rightarrow> permission_store \<Rightarrow> tool_request \<Rightarrow> bool option option" where
  "check_permission env now s r = (case tool_call r of
     Err _ \<Rightarrow> None
   | Ok c \<Rightarrow> Some (Option.bind (permissions s (permission_key env c)) (latest now)))"

text \<open>\<open>i64\<close> arithmetic, wrapping as in a release build; a duration's seconds are an \<open>u64\<close>.\<close>

definition wrap_i64 :: "int \<Rightarrow> int" where
  "wrap_i64 n = (n + 9223372036854775808) mod 18446744073709551616 - 9223372036854775808"

definition add_record :: "str \<Rightarrow> tool_permission_record \<Rightarrow> permissions \<Rightarrow> permissions" where
  "add_record k r m = m(k := Some ((case m k of Some rs \<Rightarrow> rs | None \<Rightarrow> []) @ [r]))"

definition new_record :: "store_env \<Rightarrow> int \<Rightarrow> tool_request \<Rightarrow> call_params \<Rightarrow> bool \<Rightarrow> nat option \<Rightarrow> tool_permission_record" where
  "new_record env now r c a d = \<lparr>rec_tool = tool_name c, allowed = a,
     context_hash = hash_arguments env (arguments c), readable_context = Some (readable env r), timestamp = now,
     expiry = map_option (\<lambda>secs. wrap_i64 (now + wrap_i64 (int secs))) d\<rparr>"

definition record_permission ::
    "store_env \<Rightarrow> int \<Rightarrow> permission_store \<Rightarrow> tool_request \<Rightarrow> bool \<Rightarrow> nat option \<Rightarrow> (permission_store \<times> bool) option" where
  "record_permission env now s r a d = (case tool_call r of
     Err _ \<Rightarrow> None
   | Ok c \<Rightarrow> Some (save_store env (s\<lparr>permissions :=
       add_record (permission_key env c) (new_record env now r c a d) (permissions s)\<rparr>)))"

text \<open>\<open>retain\<close>: expired records go, and keys without records; only a lost key makes it save.\<close>

definition retain_unexpired :: "int \<Rightarrow> permissions \<Rightarrow> permissions" where
  "retain_unexpired now m k = (case m k of
     None \<Rightarrow> None
   | Some rs \<Rightarrow> (let rs' = filter (unexpired now) rs in if rs' = [] then None else Some rs'))"

definition cleanup_expired :: "store_env \<Rightarrow> int \<Rightarrow> permission_store \<Rightarrow> permission_store \<times> bool" where
  "cleanup_expired env now s =
     (let m' = retain_unexpired now (permissions s); s' = s\<lparr>permissions := m'\<rparr>
      in if \<exists>k. permissions s k \<noteq> None \<and> m' k = None then save_store env s' else (s', True))"

text \<open>\<open>load\<close>: a new store without a file; \<open>Err\<close> when the file does not parse or cleaning fails.\<close>

definition load_store :: "store_env \<Rightarrow> int \<Rightarrow> str option \<Rightarrow> (unit, permission_store) result" where
  "load_store env now file = (case file of
     None \<Rightarrow> Ok (store_new None)
   | Some t \<Rightarrow> (case parse_store env t of
       None \<Rightarrow> Err ()
     | Some m \<Rightarrow> (case cleanup_expired env now ((store_new file)\<lparr>permissions := m\<rparr>) of
         (s, True) \<Rightarrow> Ok s | (_, False) \<Rightarrow> Err ())))"

section \<open>Laws\<close>

lemma save_permissions: "permissions (fst (save_store env s)) = permissions s"
  by (simp add: save_store_def split: option.splits)

lemma latest_snoc: "latest now (rs @ [r]) = (if unexpired now r then Some (allowed r) else latest now rs)"
  by (simp add: latest_def)

lemma find_filter: "(\<And>x. P x \<Longrightarrow> Q x) \<Longrightarrow> List.find P (filter Q xs) = List.find P xs"
  by (induction xs) auto

lemma latest_filter:
  assumes "now \<le> later"
  shows "latest later (filter (unexpired now) rs) = latest later rs"
proof -
  have "unexpired later x \<Longrightarrow> unexpired now x" for x
    using assms by (auto simp: unexpired_def split: option.splits)
  then show ?thesis by (simp add: latest_def rev_filter find_filter)
qed

section \<open>Properties\<close>

text \<open>
  A recorded decision is the one found: from then on, until it expires, the same call gets it,
  whatever was recorded before; after its expiry the older decisions count again; calls with another
  key keep theirs. This holds even where writing the file fails.
\<close>

lemma record_then_check:
  assumes "record_permission env now s r a d = Some (s', ok)" and "tool_call r = Ok c" and "tool_call q = Ok c'"
  shows "check_permission env later s' q =
    (if permission_key env c' = permission_key env c \<and> unexpired later (new_record env now r c a d)
     then Some (Some a) else check_permission env later s q)"
proof -
  have "permissions s' = add_record (permission_key env c) (new_record env now r c a d) (permissions s)"
    using assms(1,2) save_permissions [of env] by (auto simp: record_permission_def dest!: arg_cong [of _ _ fst])
  moreover have "allowed (new_record env now r c a d) = a" by (simp add: new_record_def)
  ultimately show ?thesis
    using assms(3)
    by (auto simp: check_permission_def add_record_def latest_snoc split: option.splits)
      (simp_all add: latest_def)
qed

text \<open>
  Cleaning up is invisible: no check at the time of the cleanup or later has another answer,
  whether or not the file could be written.
\<close>

lemma cleanup_invisible:
  assumes "now \<le> later"
  shows "check_permission env later (fst (cleanup_expired env now s)) r = check_permission env later s r"
proof -
  have p: "permissions (fst (cleanup_expired env now s)) = retain_unexpired now (permissions s)"
    by (simp add: cleanup_expired_def Let_def save_permissions)
  have "Option.bind (retain_unexpired now (permissions s) k) (latest later) = Option.bind (permissions s k) (latest later)" for k
  proof (cases "permissions s k")
    case (Some rs)
    have "latest later rs = None" if "filter (unexpired now) rs = []"
      using latest_filter [OF assms, of rs] that by (simp add: latest_def)
    with Some latest_filter [OF assms, of rs] show ?thesis
      by (simp add: retain_unexpired_def Let_def)
  qed (simp add: retain_unexpired_def)
  then show ?thesis by (simp add: check_permission_def p split: sum.splits)
qed

text \<open>
  The file is replaced as a whole: after a save, successful or not, it holds the text it had or
  the complete new text, and the new one exactly when the save reports success.
\<close>

lemma save_atomic:
  assumes "save_store env s = (s', ok)"
  shows "if ok then store_file s' = print_store env (permissions s) \<and> store_file s' \<noteq> None
         else store_file s' = store_file s"
  using assms by (auto simp: save_store_def split: option.splits if_splits)

section \<open>Witnesses\<close>

definition plain_env :: store_env where
  "plain_env = \<lparr>hash_arguments = (\<lambda>_. lit ''h''), readable = (\<lambda>_. []), print_store = (\<lambda>_. Some (lit ''p'')),
     parse_store = (\<lambda>_. None), mkdir_ok = True, write_ok = True, rename_ok = True\<rparr>"

definition plain_call :: call_params where "plain_call = \<lparr>tool_name = lit ''t'', arguments = None\<rparr>"

definition plain_request :: tool_request where
  "plain_request = \<lparr>request_id = lit ''1'', tool_call = Ok plain_call, request_metadata = None, tool_meta = None\<rparr>"

lemma record_then_check_witness:
  "\<exists>s'. record_permission plain_env 100 (store_new None) plain_request True (Some 60) = Some (s', True)
     \<and> check_permission plain_env 159 s' plain_request = Some (Some True)
     \<and> check_permission plain_env 160 s' plain_request = Some None"
proof -
  have "\<exists>s'. record_permission plain_env 100 (store_new None) plain_request True (Some 60) = Some (s', True)"
    by (simp add: record_permission_def plain_request_def save_store_def plain_env_def)
  then obtain s' where s': "record_permission plain_env 100 (store_new None) plain_request True (Some 60) = Some (s', True)"
    by blast
  have "tool_call plain_request = Ok plain_call" by (simp add: plain_request_def)
  note r = record_then_check [OF s' this this]
  have "expiry (new_record plain_env 100 plain_request plain_call True (Some 60)) = Some 160"
    by (simp add: new_record_def wrap_i64_def)
  then have e: "unexpired 159 (new_record plain_env 100 plain_request plain_call True (Some 60))"
      "\<not> unexpired 160 (new_record plain_env 100 plain_request plain_call True (Some 60))"
    by (simp_all add: unexpired_def)
  have "check_permission plain_env t (store_new None) plain_request = Some None" for t
    by (simp add: check_permission_def plain_request_def store_new_def)
  then have "check_permission plain_env 159 s' plain_request = Some (Some True)"
      "check_permission plain_env 160 s' plain_request = Some None"
    using r [of 159] r [of 160] e by simp_all
  with s' show ?thesis by blast
qed

lemma cleanup_invisible_witness:
  "check_permission plain_env 7 (fst (cleanup_expired plain_env 5 (store_new None))) plain_request = Some None"
  using cleanup_invisible [of 5 7 plain_env "store_new None" plain_request]
  by (simp add: check_permission_def plain_request_def store_new_def)

lemma save_atomic_witness:
  "store_file (fst (save_store plain_env (store_new None))) = Some (lit ''p'')"
  using save_atomic [of plain_env "store_new None" "fst (save_store plain_env (store_new None))" True]
  by (simp add: save_store_def plain_env_def)

end
