(* ===== verification/ConfirmationRouter.thy ===== *)
theory ConfirmationRouter
  imports Prelude
begin

text \<open>
  \<open>crates/bharatcode-core/src/agents/tool_confirmation_router.rs\<close>: the tasks that wait for the user
  to confirm a tool call, by request id. A \<open>oneshot\<close> channel of \<open>tokio\<close> is an entry of a list: its
  receiver waits, was dropped, got the confirmation, or lost its sender. The confirmation types are
  those of \<open>crates/bharatcode-providers/src/permission.rs\<close>.
\<close>

datatype permission = PermAlwaysAllow | AllowOnce | PermCancel | DenyOnce | AlwaysDeny
datatype principal_type = PrincipalExtension | PrincipalTool

record permission_confirmation =
  principal :: principal_type
  granted_permission :: permission

datatype channel = Waiting | ReceiverDropped | Delivered permission_confirmation | SenderDropped

text \<open>The \<open>HashMap\<close> of pending senders is an association list with distinct keys.\<close>

record router =
  pending :: "(str \<times> nat) list"
  channels :: "channel list"

definition router_new :: router where "router_new = \<lparr>pending = [], channels = []\<rparr>"

definition is_closed :: "router \<Rightarrow> nat \<Rightarrow> bool" where
  "is_closed s i = (channels s ! i = ReceiverDropped)"

definition without_key :: "str \<Rightarrow> (str \<times> nat) list \<Rightarrow> (str \<times> nat) list" where
  "without_key k m = filter (\<lambda>x. fst x \<noteq> k) m"

text \<open>Inserting over an entry drops the sender that was there.\<close>

definition drop_sender :: "nat option \<Rightarrow> channel list \<Rightarrow> channel list" where
  "drop_sender i cs = (case i of
     Some n \<Rightarrow> if cs ! n = Waiting then cs[n := SenderDropped] else cs | None \<Rightarrow> cs)"

definition register :: "str \<Rightarrow> router \<Rightarrow> router \<times> nat" where
  "register k s = (let open_ones = filter (\<lambda>x. \<not> is_closed s (snd x)) (pending s); n = length (channels s) in
     (\<lparr>pending = (k, n) # without_key k open_ones,
       channels = drop_sender (map_of open_ones k) (channels s) @ [Waiting]\<rparr>, n))"

definition deliver :: "str \<Rightarrow> permission_confirmation \<Rightarrow> router \<Rightarrow> router \<times> bool" where
  "deliver k c s = (case map_of (pending s) k of
     None \<Rightarrow> (s, False)
   | Some n \<Rightarrow>
       if is_closed s n then (s\<lparr>pending := without_key k (pending s)\<rparr>, False)
       else (s\<lparr>pending := without_key k (pending s), channels := (channels s)[n := Delivered c]\<rparr>, True))"

text \<open>A waiting task is cancelled: its receiver is dropped.\<close>

definition drop_receiver :: "nat \<Rightarrow> router \<Rightarrow> router" where
  "drop_receiver n s = (if n < length (channels s) \<and> channels s ! n = Waiting
     then s\<lparr>channels := (channels s)[n := ReceiverDropped]\<rparr> else s)"

inductive router_step :: "router \<Rightarrow> router \<Rightarrow> bool" where
  register_step: "router_step s (fst (register k s))"
| deliver_step: "router_step s (fst (deliver k c s))"
| cancel_step: "router_step s (drop_receiver n s)"

inductive_cases router_step_cases: "router_step s s'"

section \<open>Laws\<close>

definition router_inv :: "router \<Rightarrow> bool" where
  "router_inv s = (distinct (map fst (pending s)) \<and> distinct (map snd (pending s))
     \<and> (\<forall>x\<in>set (pending s). snd x < length (channels s) \<and> channels s ! snd x \<in> {Waiting, ReceiverDropped})
     \<and> (\<forall>n < length (channels s). channels s ! n = Waiting \<longrightarrow> n \<in> snd ` set (pending s)))"

lemma distinct_map_filter_snd: "distinct (map f xs) \<Longrightarrow> distinct (map f (filter P xs))"
  by (simp add: distinct_map inj_on_def)

lemma drop_sender_length [simp]: "length (drop_sender i cs) = length cs"
  by (simp add: drop_sender_def split: option.splits)

lemma drop_sender_nth:
  "n < length cs \<Longrightarrow> drop_sender i cs ! n = (if i = Some n \<and> cs ! n = Waiting then SenderDropped else cs ! n)"
  by (cases i; cases "i = Some n") (auto simp: drop_sender_def nth_list_update)

lemma router_inv_register:
  assumes inv: "router_inv s"
  shows "router_inv (fst (register k s))"
proof -
  let ?o = "filter (\<lambda>x. \<not> is_closed s (snd x)) (pending s)"
  let ?n = "length (channels s)"
  have o: "distinct (map fst ?o)" "distinct (map snd ?o)"
    using inv by (auto simp: router_inv_def intro: distinct_map_filter_snd)
  have b: "snd x < ?n \<and> channels s ! snd x = Waiting" if "x \<in> set ?o" for x
    using inv that by (auto simp: router_inv_def is_closed_def)
  have w: "n \<in> snd ` set ?o" if n: "n < ?n" "channels s ! n = Waiting" for n
  proof -
    obtain x where "x \<in> set (pending s)" "snd x = n" using inv n by (auto simp: router_inv_def)
    with n(2) show ?thesis by (auto simp: is_closed_def intro!: image_eqI [of _ snd x])
  qed
  have kept: "map_of ?o k \<noteq> Some (snd x)" if x: "x \<in> set ?o" "fst x \<noteq> k" for x
  proof
    assume "map_of ?o k = Some (snd x)"
    then have "(k, snd x) \<in> set ?o" by (rule map_of_SomeD)
    with o(2) x(1) have "(k, snd x) = x" unfolding distinct_map by (metis inj_onD snd_conv)
    with x(2) show False by (metis fst_conv)
  qed
  have wd: "distinct (map fst (without_key k ?o))" "distinct (map snd (without_key k ?o))"
    unfolding without_key_def by (rule distinct_map_filter_snd, rule o)+
  have "k \<notin> fst ` set (without_key k ?o)" by (auto simp: without_key_def)
  moreover have "?n \<notin> snd ` set (without_key k ?o)" using b by (force simp: without_key_def)
  ultimately have "distinct (map fst ((k, ?n) # without_key k ?o))" "distinct (map snd ((k, ?n) # without_key k ?o))"
    using wd by simp_all
  moreover have "snd x < Suc ?n \<and> (drop_sender (map_of ?o k) (channels s) @ [Waiting]) ! snd x \<in> {Waiting, ReceiverDropped}"
    if "x \<in> set ((k, ?n) # without_key k ?o)" for x
    using that b [of x] kept [of x] by (auto simp: without_key_def nth_append drop_sender_nth)
  moreover have "n \<in> snd ` set ((k, ?n) # without_key k ?o)"
    if "n < Suc ?n" "(drop_sender (map_of ?o k) (channels s) @ [Waiting]) ! n = Waiting" for n
  proof (cases "n = ?n")
    case False
    with that have n: "n < ?n" "channels s ! n = Waiting" "map_of ?o k \<noteq> Some n"
      by (auto simp: nth_append drop_sender_nth split: if_splits)
    from w [OF n(1,2)] obtain x where x: "x \<in> set ?o" "snd x = n" by auto
    with n(3) o(1) have "fst x \<noteq> k" by (auto simp: map_of_eq_Some_iff)
    with x show ?thesis by (auto simp: without_key_def)
  qed simp
  ultimately show ?thesis
    by (simp only: register_def router_inv_def Let_def fst_conv router.simps length_append drop_sender_length)
      (simp only: list.size One_nat_def add_Suc_right add_0_right, blast)
qed

lemma router_inv_deliver:
  assumes inv: "router_inv s"
  shows "router_inv (fst (deliver k c s))"
proof (cases "map_of (pending s) k")
  case (Some n)
  then have kn: "(k, n) \<in> set (pending s)" by (rule map_of_SomeD)
  with inv have n: "n < length (channels s)" "channels s ! n \<in> {Waiting, ReceiverDropped}"
    by (auto simp: router_inv_def)
  have d: "distinct (map snd (pending s))" "distinct (map fst (pending s))"
    using inv by (simp_all add: router_inv_def)
  have other: "snd x \<noteq> n" if "x \<in> set (pending s)" "fst x \<noteq> k" for x
    using d(1) kn that unfolding distinct_map by (metis fst_conv inj_onD snd_conv)
  have keyed: "fst x = k \<Longrightarrow> snd x = n" if "x \<in> set (pending s)" for x
    using d(2) kn that unfolding distinct_map by (metis fst_conv inj_onD snd_conv)
  have kept: "m \<in> snd ` set (without_key k (pending s))" if m: "m < length (channels s)" "channels s ! m = Waiting" "m \<noteq> n" for m
  proof -
    obtain x where x: "x \<in> set (pending s)" "snd x = m" using inv m(1,2) by (auto simp: router_inv_def)
    with keyed [of x] m(3) have "fst x \<noteq> k" by auto
    with x show ?thesis by (auto simp: without_key_def)
  qed
  have only: "a = k" if "(a, n) \<in> set (pending s)" for a
    using other [OF that] by auto
  have p: "distinct (map fst (without_key k (pending s)))" "distinct (map snd (without_key k (pending s)))"
    using d by (auto simp: without_key_def intro: distinct_map_filter_snd)
  show ?thesis
  proof (cases "is_closed s n")
    case True
    then have "channels s ! n \<noteq> Waiting" by (simp add: is_closed_def)
    with True Some p kept inv show ?thesis
      by (auto simp: deliver_def router_inv_def without_key_def)
  next
    case False
    with Some p kept inv n show ?thesis
      by (auto simp: deliver_def router_inv_def nth_list_update without_key_def dest: only)
  qed
qed (use inv in \<open>simp add: deliver_def\<close>)

lemma router_inv_cancel: "router_inv s \<Longrightarrow> router_inv (drop_receiver n s)"
  by (auto simp: drop_receiver_def router_inv_def nth_list_update)

lemma router_inv_steps:
  assumes "router_step\<^sup>*\<^sup>* router_new s"
  shows "router_inv s"
  using assms
proof (induction rule: rtranclp_induct)
  case base
  then show ?case by (simp add: router_inv_def router_new_def)
next
  case (step s t)
  from step(2,3) show ?case
    by (auto elim!: router_step_cases simp: router_inv_register router_inv_deliver router_inv_cancel)
qed

lemma delivered_step:
  assumes "router_step s t" and "router_inv s" and "n < length (channels s)" and "channels s ! n = Delivered c"
  shows "n < length (channels t) \<and> channels t ! n = Delivered c"
  using assms(1)
proof (cases rule: router_step.cases)
  case (register_step k)
  with assms(3,4) show ?thesis by (simp add: register_def Let_def nth_append drop_sender_nth)
next
  case (deliver_step k d)
  have "map_of (pending s) k \<noteq> Some n"
    using assms(2,4) by (force simp: router_inv_def dest: map_of_SomeD)
  with assms(3,4) deliver_step show ?thesis by (auto simp: deliver_def split: option.splits)
next
  case (cancel_step m)
  with assms(3,4) show ?thesis by (auto simp: drop_receiver_def nth_list_update)
qed

section \<open>Properties\<close>

text \<open>
  No waiting task is forgotten: in every reachable state each pending id has a channel of its
  own whose receiver waits or was dropped, and every task that still waits is pending under some id.
\<close>

lemma router_reachable_inv:
  assumes "router_step\<^sup>*\<^sup>* router_new s"
  shows "distinct (map fst (pending s)) \<and> distinct (map snd (pending s))
     \<and> (\<forall>x\<in>set (pending s). snd x < length (channels s) \<and> channels s ! snd x \<in> {Waiting, ReceiverDropped})
     \<and> (\<forall>n < length (channels s). channels s ! n = Waiting \<longrightarrow> n \<in> snd ` set (pending s))"
  using router_inv_steps [OF assms] by (simp add: router_inv_def)

text \<open>
  C31. A confirmation reaches exactly the task that asked: in a reachable state a delivery reports
  success exactly when a waiting task is pending under the id; then this task alone gets it, the id
  is free again, and no later step takes the confirmation back.
\<close>

theorem deliver_exactly_once:
  assumes "router_step\<^sup>*\<^sup>* router_new s"
  shows "(snd (deliver k c s) \<longleftrightarrow> (\<exists>n. (k, n) \<in> set (pending s) \<and> channels s ! n = Waiting))
    \<and> (\<forall>n. (k, n) \<in> set (pending s) \<longrightarrow> channels s ! n = Waiting \<longrightarrow>
        channels (fst (deliver k c s)) = (channels s)[n := Delivered c]
        \<and> k \<notin> fst ` set (pending (fst (deliver k c s)))
        \<and> (\<forall>t. router_step\<^sup>*\<^sup>* (fst (deliver k c s)) t \<longrightarrow> channels t ! n = Delivered c))"
proof -
  have inv: "router_inv s" using router_inv_steps [OF assms] .
  have m: "map_of (pending s) k = Some n \<longleftrightarrow> (k, n) \<in> set (pending s)" for n
    using inv by (simp add: router_inv_def)
  have wait: "channels s ! n = Waiting \<longleftrightarrow> \<not> is_closed s n" if "(k, n) \<in> set (pending s)" for n
    using inv that by (force simp: router_inv_def is_closed_def)
  have stays: "channels t ! n = Delivered c"
    if n: "(k, n) \<in> set (pending s)" "channels s ! n = Waiting" and t: "router_step\<^sup>*\<^sup>* (fst (deliver k c s)) t" for n t
  proof -
    have l: "n < length (channels s)" using inv n(1) by (force simp: router_inv_def)
    have "channels (fst (deliver k c s)) = (channels s)[n := Delivered c]"
      using m [of n] wait [of n] n by (simp add: deliver_def)
    with l have start: "n < length (channels (fst (deliver k c s))) \<and> channels (fst (deliver k c s)) ! n = Delivered c"
      by simp
    have reach: "router_step\<^sup>*\<^sup>* router_new (fst (deliver k c s))"
      using assms router_step.deliver_step [of s k c] by (rule rtranclp.rtrancl_into_rtrancl)
    from t have "n < length (channels t) \<and> channels t ! n = Delivered c"
    proof (induction rule: rtranclp_induct)
      case (step x y)
      have "router_inv x" by (rule router_inv_steps) (rule rtranclp_trans [OF reach step(1)])
      with delivered_step [OF step(2)] step(3) show ?case by blast
    qed (rule start)
    then show ?thesis ..
  qed
  show ?thesis
  proof (cases "map_of (pending s) k")
    case None
    with m show ?thesis by (auto simp: deliver_def)
  next
    case (Some n)
    have n: "(k, n) \<in> set (pending s)" "\<And>j. (k, j) \<in> set (pending s) \<longleftrightarrow> j = n"
      using m Some by (metis option.inject)+
    have "deliver k c s = (if is_closed s n then (s\<lparr>pending := without_key k (pending s)\<rparr>, False)
        else (s\<lparr>pending := without_key k (pending s), channels := (channels s)[n := Delivered c]\<rparr>, True))"
      by (simp add: deliver_def Some)
    moreover have "k \<notin> fst ` set (without_key k (pending s))" by (auto simp: without_key_def)
    ultimately show ?thesis using n wait [OF n(1)] stays [OF n(1)] by auto
  qed
qed

section \<open>Witnesses\<close>

definition yes :: permission_confirmation where
  "yes = \<lparr>principal = PrincipalTool, granted_permission = AllowOnce\<rparr>"

definition one_waiting :: router where "one_waiting = fst (register (lit ''r'') router_new)"

lemma one_waiting_reached: "router_step\<^sup>*\<^sup>* router_new one_waiting"
  unfolding one_waiting_def by (rule r_into_rtranclp) (rule router_step.register_step)

lemma router_reachable_inv_witness:
  "pending one_waiting = [(lit ''r'', 0)] \<and> distinct (map fst (pending one_waiting))"
proof
  show "pending one_waiting = [(lit ''r'', 0)]"
    by (simp add: one_waiting_def register_def router_new_def without_key_def Let_def)
  show "distinct (map fst (pending one_waiting))"
    using router_reachable_inv [OF one_waiting_reached] by blast
qed

theorem deliver_exactly_once_witness:
  "snd (deliver (lit ''r'') yes one_waiting) \<and> \<not> snd (deliver (lit ''q'') yes one_waiting)
   \<and> channels (fst (deliver (lit ''r'') yes one_waiting)) = [Delivered yes]"
proof -
  have w: "pending one_waiting = [(lit ''r'', 0)]" "channels one_waiting = [Waiting]"
    by (simp_all add: one_waiting_def register_def router_new_def without_key_def drop_sender_def Let_def)
  from deliver_exactly_once [OF one_waiting_reached, of "lit ''r''" yes]
    deliver_exactly_once [OF one_waiting_reached, of "lit ''q''" yes] w
  show ?thesis by auto
qed

end
