(* ===== verification/EventBus.thy ===== *)
theory EventBus
  imports Prelude
begin

text \<open>
  \<open>crates/bharatcode-server/src/session_event_bus.rs\<close>: the numbered events of a session, the replay
  buffer for clients that reconnect, and the registry of the active request. \<open>publish\<close> takes two
  atomic steps (number and buffer under the lock, then broadcast), \<open>subscribe\<close> as well (open the
  receiver, then snapshot the buffer), so they interleave. The broadcast channel of \<open>tokio\<close> is the
  log of what was sent, of which the last \<open>BROADCAST_CAPACITY\<close> can still be read; a receiver reads on from the point
  where it was opened, and is told when it has fallen behind. What the task of a client does with the events is
  \<open>session_events\<close> in \<open>routes/session_events.rs\<close>.
\<close>

definition BROADCAST_CAPACITY :: nat where "BROADCAST_CAPACITY = 256"
definition REPLAY_BUFFER_CAPACITY :: nat where "REPLAY_BUFFER_CAPACITY = 512"

datatype subscribe_error = ClientTooFarBehind

record 'e session_event =
  seq :: nat
  event_request :: "str option"
  event :: 'e

text \<open>\<open>history\<close> (every event ever numbered) is only there to state properties.\<close>

record 'e event_bus =
  buffer :: "'e session_event list"
  next_seq :: nat
  in_flight :: "'e session_event list"
  sent :: "'e session_event list"
  history :: "'e session_event list"

definition new_bus :: "'e event_bus" where
  "new_bus = \<lparr>buffer = [], next_seq = 1, in_flight = [], sent = [], history = []\<rparr>"

definition evict :: "'a list \<Rightarrow> 'a list" where
  "evict buf = drop (length buf - REPLAY_BUFFER_CAPACITY) buf"

text \<open>\<open>publish\<close>: the step under the lock and the broadcast after it.\<close>

definition assign_event :: "str option \<Rightarrow> 'e \<Rightarrow> 'e event_bus \<Rightarrow> 'e session_event \<times> 'e event_bus" where
  "assign_event r e b = (let ev = \<lparr>seq = next_seq b, event_request = r, event = e\<rparr> in
     (ev, b\<lparr>buffer := evict (buffer b @ [ev]), next_seq := next_seq b + 1, in_flight := in_flight b @ [ev],
            history := history b @ [ev]\<rparr>))"

definition broadcast_event :: "'e session_event \<Rightarrow> 'e event_bus \<Rightarrow> 'e event_bus" where
  "broadcast_event ev b = b\<lparr>in_flight := remove1 ev (in_flight b), sent := sent b @ [ev]\<rparr>"

definition publish :: "str option \<Rightarrow> 'e \<Rightarrow> 'e event_bus \<Rightarrow> nat \<times> 'e event_bus" where
  "publish r e b = (let (ev, b1) = assign_event r e b in (seq ev, broadcast_event ev b1))"

text \<open>\<open>subscribe\<close>: the receiver starts at the end of the log; then the buffer is read.\<close>

definition open_receiver :: "'e event_bus \<Rightarrow> nat" where "open_receiver b = length (sent b)"

definition snapshot :: "nat option \<Rightarrow> 'e event_bus \<Rightarrow> (subscribe_error, 'e session_event list \<times> nat) result" where
  "snapshot last_event_id b =
     (let buf = buffer b;
          buf_max = (if buf = [] then 0 else seq (last buf));
          buf_min = (if buf = [] then 0 else seq (hd buf));
          last_id = (case last_event_id of Some n \<Rightarrow> n | None \<Rightarrow> 0)
      in if 0 < last_id \<and> 0 < buf_min \<and> last_id < buf_min then Err ClientTooFarBehind
         else (let events = filter (\<lambda>e. last_id < seq e) buf;
                   max_seq = (if events = [] then min last_id buf_max else seq (last events))
               in Ok (events, max_seq)))"

definition subscribe :: "nat option \<Rightarrow> 'e event_bus \<Rightarrow> (subscribe_error, 'e session_event list \<times> nat \<times> nat) result" where
  "subscribe last_event_id b = (let rx = open_receiver b in
     case snapshot last_event_id b of Err e \<Rightarrow> Err e | Ok (events, max_seq) \<Rightarrow> Ok (events, max_seq, rx))"

text \<open>
  \<open>recv\<close> of a receiver at position \<open>pos\<close> of the log: the next event, or nothing yet, or how many events it missed
  because they are no longer among the ones the channel keeps.
\<close>

datatype 'e received = Received "'e session_event" | Lagged nat | Pending

definition recv :: "nat \<Rightarrow> 'e event_bus \<Rightarrow> 'e received" where
  "recv pos b = (let unread = length (sent b) - pos in
     if unread = 0 then Pending
     else if BROADCAST_CAPACITY < unread then Lagged (unread - BROADCAST_CAPACITY)
     else Received (sent b ! pos))"

text \<open>
  The task of a connected client: where its receiver is, the frames it has sent so far, the number below which events
  were replayed, and why it ended, if it has. Heartbeats and the list of active requests are no events.
\<close>

datatype stream_end = LaggedBehind | Disconnected

record 'e sse_client =
  position :: nat
  frames :: "'e session_event list"
  replay_max_seq :: nat
  ended :: "stream_end option"

definition start_client :: "'e session_event list \<times> nat \<times> nat \<Rightarrow> 'e sse_client" where
  "start_client sub = (case sub of (replay, max_seq, rx) \<Rightarrow>
     \<lparr>position = rx, frames = replay, replay_max_seq = max_seq, ended = None\<rparr>)"

definition forward :: "'e event_bus \<Rightarrow> 'e sse_client \<Rightarrow> 'e sse_client" where
  "forward b c = (if ended c \<noteq> None then c
     else case recv (position c) b of
       Received e \<Rightarrow> c\<lparr>position := position c + 1, frames := (if seq e \<le> replay_max_seq c then frames c else frames c @ [e])\<rparr>
     | Lagged n \<Rightarrow> c\<lparr>ended := Some LaggedBehind\<rparr>
     | Pending \<Rightarrow> c)"

section \<open>Interleavings\<close>

inductive bus_step :: "'e event_bus \<Rightarrow> 'e event_bus \<Rightarrow> bool" where
  assign: "bus_step b (snd (assign_event r e b))"
| broadcast: "ev \<in> set (in_flight b) \<Longrightarrow> bus_step b (broadcast_event ev b)"

inductive_cases bus_step_cases: "bus_step b b'"

abbreviation bus_steps :: "'e event_bus \<Rightarrow> 'e event_bus \<Rightarrow> bool" where
  "bus_steps \<equiv> bus_step\<^sup>*\<^sup>*"

text \<open>A client among the publishers: its task may take a step at any time, and it may go away.\<close>

inductive client_step :: "'e event_bus \<times> 'e sse_client \<Rightarrow> 'e event_bus \<times> 'e sse_client \<Rightarrow> bool" where
  publisher: "bus_step b b' \<Longrightarrow> client_step (b, c) (b', c)"
| task: "client_step (b, c) (b, forward b c)"
| leave: "ended c = None \<Longrightarrow> client_step (b, c) (b, c\<lparr>ended := Some Disconnected\<rparr>)"

inductive_cases client_step_cases: "client_step (b, c) (b', c')"

abbreviation client_steps :: "'e event_bus \<times> 'e sse_client \<Rightarrow> 'e event_bus \<times> 'e sse_client \<Rightarrow> bool" where
  "client_steps \<equiv> client_step\<^sup>*\<^sup>*"

definition bus_inv :: "'e event_bus \<Rightarrow> bool" where
  "bus_inv b = (next_seq b = length (history b) + 1
     \<and> (\<forall>i < length (history b). seq (history b ! i) = i + 1)
     \<and> buffer b = evict (history b)
     \<and> distinct (sent b @ in_flight b) \<and> set (sent b) \<union> set (in_flight b) = set (history b))"

lemma bus_inv_new: "bus_inv new_bus"
  by (simp add: bus_inv_def new_bus_def evict_def)

lemma history_seq_inj:
  assumes "bus_inv b" and "e \<in> set (history b)" and "f \<in> set (history b)" and "seq e = seq f"
  shows "e = f"
  using assms by (auto simp: bus_inv_def in_set_conv_nth)

lemma seq_bounds: "bus_inv b \<Longrightarrow> e \<in> set (history b) \<Longrightarrow> 0 < seq e \<and> seq e < next_seq b"
  by (auto simp: bus_inv_def in_set_conv_nth)

lemma evict_append: "evict (evict xs @ [x]) = evict (xs @ [x])"
  by (cases "length xs \<le> 512") (simp_all add: evict_def REPLAY_BUFFER_CAPACITY_def Suc_diff_le [symmetric])

lemma bus_inv_assign: "bus_inv b \<Longrightarrow> bus_inv (snd (assign_event r e b))"
proof -
  assume inv: "bus_inv b"
  then have "\<lparr>seq = next_seq b, event_request = r, event = e\<rparr> \<notin> set (history b)"
    using seq_bounds [OF inv] by fastforce
  with inv show ?thesis
    by (auto simp: bus_inv_def assign_event_def Let_def evict_append nth_append less_Suc_eq)
qed

lemma bus_inv_broadcast:
  assumes "bus_inv b" and "ev \<in> set (in_flight b)"
  shows "bus_inv (broadcast_event ev b)"
  using assms by (auto simp: bus_inv_def broadcast_event_def distinct_remove1 set_remove1_eq)

lemma bus_inv_step: "bus_step b b' \<Longrightarrow> bus_inv b \<Longrightarrow> bus_inv b'"
  by (erule bus_step_cases) (simp_all add: bus_inv_assign bus_inv_broadcast)

lemma bus_inv_steps: "bus_steps b b' \<Longrightarrow> bus_inv b \<Longrightarrow> bus_inv b'"
  by (induction rule: rtranclp_induct) (auto intro: bus_inv_step)

text \<open>The logs only grow, and what is sent later was in flight or was numbered later.\<close>

definition extends :: "'e event_bus \<Rightarrow> 'e event_bus \<Rightarrow> bool" where
  "extends b b' = (\<exists>h s. history b' = history b @ h \<and> sent b' = sent b @ s)"

lemma extends_step: "bus_step b b' \<Longrightarrow> extends b b'"
  by (erule bus_step_cases) (auto simp: extends_def assign_event_def broadcast_event_def Let_def)

lemma extends_steps: "bus_steps b b' \<Longrightarrow> extends b b'"
proof (induction rule: rtranclp_induct)
  case (step y z)
  with extends_step [OF step(2)] show ?case by (auto simp: extends_def)
qed (simp add: extends_def)

section \<open>What the buffer holds\<close>

text \<open>The events evicted so far.\<close>

definition evicted :: "'e event_bus \<Rightarrow> nat" where
  "evicted b = length (history b) - REPLAY_BUFFER_CAPACITY"

lemma buffer_drop: "bus_inv b \<Longrightarrow> buffer b = drop (evicted b) (history b)"
  by (simp add: bus_inv_def evict_def evicted_def)

lemma buffer_iff:
  assumes "bus_inv b"
  shows "e \<in> set (buffer b) \<longleftrightarrow> e \<in> set (history b) \<and> evicted b < seq e"
proof
  assume "e \<in> set (buffer b)"
  then obtain i where i: "i < length (history b) - evicted b" "e = history b ! (evicted b + i)"
    using buffer_drop [OF assms] by (auto simp: in_set_conv_nth)
  then show "e \<in> set (history b) \<and> evicted b < seq e"
    using assms by (auto simp: bus_inv_def)
next
  assume e: "e \<in> set (history b) \<and> evicted b < seq e"
  then obtain i where i: "i < length (history b)" "e = history b ! i" by (auto simp: in_set_conv_nth)
  then have "seq e = i + 1" using assms by (simp add: bus_inv_def)
  with e i have "e = drop (evicted b) (history b) ! (i - evicted b)" "i - evicted b < length (drop (evicted b) (history b))"
    by auto
  then show "e \<in> set (buffer b)"
    using buffer_drop [OF assms] by (metis nth_mem)
qed

lemma buffer_ends:
  assumes "bus_inv b" and "buffer b \<noteq> []"
  shows "seq (hd (buffer b)) = evicted b + 1" and "seq (last (buffer b)) = length (history b)"
proof -
  have l: "evicted b < length (history b)" using assms(2) buffer_drop [OF assms(1)] by auto
  have s: "\<And>i. i < length (history b) \<Longrightarrow> seq (history b ! i) = i + 1" using assms(1) by (simp add: bus_inv_def)
  from l s show "seq (hd (buffer b)) = evicted b + 1"
    by (simp add: buffer_drop [OF assms(1)] hd_drop_conv_nth)
  from l s show "seq (last (buffer b)) = length (history b)"
    by (simp add: buffer_drop [OF assms(1)] last_conv_nth)
qed

lemma buffer_empty: "bus_inv b \<Longrightarrow> buffer b = [] \<longleftrightarrow> history b = []"
  by (cases "history b") (auto simp: buffer_drop evicted_def REPLAY_BUFFER_CAPACITY_def)

lemma snapshot_error:
  assumes "bus_inv b"
  shows "snapshot (Some n) b = Err ClientTooFarBehind \<longleftrightarrow> 0 < n \<and> n \<le> evicted b"
  using assms buffer_ends [OF assms] buffer_empty [OF assms]
  by (auto simp: snapshot_def Let_def evicted_def)

lemma buffer_sorted: "bus_inv b \<Longrightarrow> sorted_wrt (\<lambda>e f. seq e < seq f) (buffer b)"
proof -
  assume inv: "bus_inv b"
  then have "\<And>i. i < length (history b) \<Longrightarrow> seq (history b ! i) = i + 1" by (simp add: bus_inv_def)
  then show ?thesis unfolding buffer_drop [OF inv] by (auto simp: sorted_wrt_iff_nth_less)
qed

lemma sorted_last_max:
  assumes "sorted_wrt (\<lambda>e f. seq e < seq f) xs" and "x \<in> set xs"
  shows "seq x \<le> seq (last xs)"
  using assms by (induction xs) (auto simp: order_less_imp_le)

lemma sorted_seq_distinct: "sorted_wrt (\<lambda>e f. seq e < seq f) xs \<Longrightarrow> distinct xs"
  by (induction xs) auto

lemma snapshot_ok:
  assumes inv: "bus_inv b" and s: "snapshot l b = Ok (events, mx)"
    and n: "n = (case l of Some k \<Rightarrow> k | None \<Rightarrow> 0)" and known: "n < next_seq b"
  shows "events = filter (\<lambda>e. n < seq e) (buffer b)" and "\<forall>e\<in>set events. seq e \<le> mx"
    and "n \<le> mx" and "mx < next_seq b" and "n = 0 \<or> evicted b \<le> n \<or> history b = []"
proof -
  show ev: "events = filter (\<lambda>e. n < seq e) (buffer b)"
    using s n by (auto simp: snapshot_def Let_def split: if_splits)
  have mx: "mx = (if events = [] then min n (if buffer b = [] then 0 else seq (last (buffer b))) else seq (last events))"
    using s n by (auto simp: snapshot_def Let_def split: if_splits)
  have sorted: "sorted_wrt (\<lambda>e f. seq e < seq f) events"
    unfolding ev by (rule sorted_wrt_filter) (rule buffer_sorted [OF inv])
  show "\<forall>e\<in>set events. seq e \<le> mx"
    using mx sorted_last_max [OF sorted] by auto
  have lasts: "n < seq (last events)" "seq (last events) < next_seq b" if "events \<noteq> []"
  proof -
    have "last events \<in> set (buffer b)" "n < seq (last events)"
      using that last_in_set [OF that] unfolding ev by simp_all
    then show "n < seq (last events)" "seq (last events) < next_seq b"
      using buffer_iff [OF inv] seq_bounds [OF inv] by auto
  qed
  have bm: "n \<le> (if buffer b = [] then 0 else seq (last (buffer b)))"
    using known buffer_ends [OF inv] buffer_empty [OF inv] inv by (auto simp: bus_inv_def)
  show "n \<le> mx" "mx < next_seq b"
    using mx lasts bm known by (auto simp: less_imp_le)
  show "n = 0 \<or> evicted b \<le> n \<or> history b = []"
    using s n snapshot_error [OF inv, of n] by (cases l) auto
qed

section \<open>Properties of the bus\<close>

text \<open>
  What the task of a client has done: its frames are the replay and what it has read of the log since, but for the
  events the replay covers; and it has fallen behind only if more is unread than the channel keeps.
\<close>

definition client_inv :: "'e session_event list \<Rightarrow> nat \<Rightarrow> nat \<Rightarrow> 'e event_bus \<Rightarrow> 'e sse_client \<Rightarrow> bool" where
  "client_inv replay mx rx b c \<longleftrightarrow> rx \<le> position c \<and> position c \<le> length (sent b) \<and> replay_max_seq c = mx
     \<and> frames c = replay @ filter (\<lambda>e. mx < seq e) (drop rx (take (position c) (sent b)))
     \<and> (ended c = Some LaggedBehind \<longrightarrow> BROADCAST_CAPACITY < length (sent b) - position c)"

lemma client_inv_start: "rx \<le> length (sent b) \<Longrightarrow> client_inv replay mx rx b (start_client (replay, mx, rx))"
  by (simp add: client_inv_def start_client_def)

lemma client_inv_forward:
  assumes "client_inv replay mx rx b c"
  shows "client_inv replay mx rx b (forward b c)"
proof (cases "ended c = None")
  case True
  show ?thesis
  proof (cases "recv (position c) b")
    case (Received e)
    then have p: "position c < length (sent b)" "sent b ! position c = e" by (auto simp: recv_def Let_def split: if_splits)
    have "drop rx (take (position c + 1) (sent b)) = drop rx (take (position c) (sent b)) @ [e]"
      using assms p by (simp add: client_inv_def take_Suc_conv_app_nth)
    then show ?thesis using assms p True by (auto simp: client_inv_def forward_def Received)
  next
    case (Lagged n)
    then have "BROADCAST_CAPACITY < length (sent b) - position c" by (auto simp: recv_def Let_def split: if_splits)
    then show ?thesis using assms True by (simp add: client_inv_def forward_def Lagged)
  qed (use assms in \<open>simp add: forward_def\<close>)
qed (use assms in \<open>simp add: forward_def\<close>)

lemma client_inv_extends:
  assumes "client_inv replay mx rx b c" "extends b b'"
  shows "client_inv replay mx rx b' c"
proof -
  obtain t where "sent b' = sent b @ t" using assms(2) by (auto simp: extends_def)
  then show ?thesis using assms(1) by (auto simp: client_inv_def)
qed

lemma client_step_inv:
  "client_step (b, c) (b', c') \<Longrightarrow> bus_steps b b' \<and> (client_inv replay mx rx b c \<longrightarrow> client_inv replay mx rx b' c')"
proof (erule client_step_cases)
  assume "c' = c" "bus_step b b'"
  then show ?thesis using client_inv_extends [OF _ extends_step] by blast
next
  assume "b' = b" "c' = forward b c"
  then show ?thesis by (simp add: client_inv_forward)
next
  assume "b' = b" "c' = c\<lparr>ended := Some Disconnected\<rparr>"
  then show ?thesis by (simp add: client_inv_def)
qed

lemma client_steps_inv:
  "client_steps (b, c) (b', c') \<Longrightarrow> bus_steps b b' \<and> (client_inv replay mx rx b c \<longrightarrow> client_inv replay mx rx b' c')"
proof (induction rule: rtranclp_induct2)
  case (step b1 c1 b2 c2)
  then show ?case using client_step_inv [OF step(2), of replay mx rx] by (meson rtranclp_trans)
qed simp

text \<open>The replay and the part \<open>q\<close> of the log read since the receiver was opened.\<close>

lemma read_events:
  assumes "bus_steps new_bus b0" and "bus_steps b0 b1" and "bus_steps b1 b2"
    and "snapshot l b1 = Ok (replay, mx)" and "n = (case l of Some k \<Rightarrow> k | None \<Rightarrow> 0)"
    and "n < next_seq b1" and "0 < n \<or> length (history b1) \<le> REPLAY_BUFFER_CAPACITY"
    and log: "sent b2 = sent b0 @ q @ t"
  shows "distinct (replay @ filter (\<lambda>e. mx < seq e) q)
    \<and> set (replay @ filter (\<lambda>e. mx < seq e) q)
      = {e \<in> set (history b2). n < seq e \<and> (e \<in> set (history b1) \<or> e \<in> set (sent b0 @ q))}"
proof -
  have i0: "bus_inv b0" using bus_inv_steps [OF assms(1) bus_inv_new] .
  have i1: "bus_inv b1" using bus_inv_steps [OF assms(2) i0] .
  have i2: "bus_inv b2" using bus_inv_steps [OF assms(3) i1] .
  note ok = snapshot_ok [OF i1 assms(4,5,6)]
  obtain h1 where h1: "history b2 = history b1 @ h1" using extends_steps [OF assms(3)] by (auto simp: extends_def)
  obtain h0 where h0: "history b1 = history b0 @ h0" using extends_steps [OF assms(2)] by (auto simp: extends_def)
  have new: "next_seq b1 \<le> seq e" if e: "e \<in> set (history b2)" "e \<notin> set (history b1)" for e
  proof -
    obtain i where i: "i < length (history b2)" "e = history b2 ! i" using e by (auto simp: in_set_conv_nth)
    with e h1 have "length (history b1) \<le> i" by (auto simp: nth_append split: if_splits)
    with i i1 i2 show ?thesis by (simp add: bus_inv_def)
  qed
  have sent0: "e \<in> set (history b1)" if "e \<in> set (sent b0)" for e
    using that i0 h0 by (auto simp: bus_inv_def)
  have q: "set q \<subseteq> set (history b2)" using i2 log by (auto simp: bus_inv_def)
  have r: "set replay = {e \<in> set (history b1). n < seq e}"
    using ok(1,5) assms(7) by (auto simp: buffer_iff [OF i1] evicted_def)
  have "set (filter (\<lambda>e. mx < seq e) q) \<subseteq> {e \<in> set (history b2). n < seq e \<and> e \<in> set (sent b0 @ q)}"
    using ok(3) q by auto
  moreover have "e \<in> set replay" if "e \<in> set (history b1)" "n < seq e" for e using that r by simp
  moreover have "e \<in> set (filter (\<lambda>e. mx < seq e) q)"
    if "e \<in> set (history b2)" "e \<notin> set (history b1)" "e \<in> set (sent b0 @ q)" for e
    using that new [OF that(1,2)] ok(4) sent0 [of e] by auto
  moreover have "set replay \<subseteq> {e \<in> set (history b2). n < seq e \<and> e \<in> set (history b1)}"
    using r h1 by auto
  ultimately have "set (replay @ filter (\<lambda>e. mx < seq e) q)
      = {e \<in> set (history b2). n < seq e \<and> (e \<in> set (history b1) \<or> e \<in> set (sent b0 @ q))}"
    unfolding set_append [of replay] by blast
  moreover have "distinct (replay @ filter (\<lambda>e. mx < seq e) q)"
  proof -
    have "distinct replay" unfolding ok(1) using sorted_seq_distinct [OF buffer_sorted [OF i1]] by simp
    moreover have "distinct q" using i2 log by (auto simp: bus_inv_def)
    ultimately show ?thesis using ok(2) by auto
  qed
  ultimately show ?thesis by blast
qed

text \<open>A task that is not behind reads the log to its end.\<close>

lemma forward_keeps_up:
  "ended d = None \<Longrightarrow> position d \<le> length (sent b) \<Longrightarrow> length (sent b) - position d \<le> BROADCAST_CAPACITY \<Longrightarrow>
   ended (forward b d) = None \<and> position (forward b d) = min (position d + 1) (length (sent b))"
  by (auto simp: forward_def recv_def Let_def min_def)

lemma catch_up:
  assumes "ended c = None" "position c \<le> length (sent b)" "length (sent b) - position c \<le> BROADCAST_CAPACITY"
  shows "ended ((forward b ^^ k) c) = None \<and> position ((forward b ^^ k) c) = min (position c + k) (length (sent b))"
proof (induction k)
  case (Suc k)
  then show ?case using assms forward_keeps_up [of "(forward b ^^ k) c" b] by (auto simp: min_def)
qed (simp add: assms)

lemma forward_inv: "client_inv replay mx rx b c \<Longrightarrow> client_inv replay mx rx b ((forward b ^^ k) c)"
  by (induction k) (simp_all add: client_inv_forward)

text \<open>
  C8. A subscriber loses nothing and sees nothing twice, as long as it keeps up: in any interleaving of publishers with
  the two steps of \<open>subscribe\<close> and with the task of the client, when the snapshot succeeds for an id the session has
  issued (or for none, while nothing was evicted), the frames of the client are at every moment exactly the events after
  that id that were numbered before the snapshot or stand in the part of the log it has read, each once. Its stream is
  cut for lagging only when more events are unread than the channel keeps; otherwise, unless it went away, its next
  steps bring it every event that has been broadcast.
\<close>

theorem subscriber_loses_nothing:
  assumes "bus_steps new_bus b0" and "bus_steps b0 b1"
    and "snapshot l b1 = Ok (replay, mx)" and "n = (case l of Some k \<Rightarrow> k | None \<Rightarrow> 0)"
    and "n < next_seq b1" and "0 < n \<or> length (history b1) \<le> REPLAY_BUFFER_CAPACITY"
    and "client_steps (b1, start_client (replay, mx, open_receiver b0)) (b2, c)"
  shows "distinct (frames c)
    \<and> set (frames c) = {e \<in> set (history b2). n < seq e \<and> (e \<in> set (history b1) \<or> e \<in> set (take (position c) (sent b2)))}
    \<and> (ended c = Some LaggedBehind \<longrightarrow> BROADCAST_CAPACITY < length (sent b2) - position c)
    \<and> (ended c = None \<and> length (sent b2) - position c \<le> BROADCAST_CAPACITY \<longrightarrow>
        (let c' = (forward b2 ^^ (length (sent b2) - position c)) c in ended c' = None \<and> distinct (frames c')
         \<and> set (frames c') = {e \<in> set (history b2). n < seq e \<and> (e \<in> set (history b1) \<or> e \<in> set (sent b2))}))"
proof -
  let ?rx = "open_receiver b0"
  obtain s0 where s0: "sent b1 = sent b0 @ s0" using extends_steps [OF assms(2)] by (auto simp: extends_def)
  have steps: "bus_steps b1 b2" and inv: "client_inv replay mx ?rx b2 c"
    using client_steps_inv [OF assms(7), of replay mx ?rx] client_inv_start [of ?rx b1 replay mx] s0
    by (simp_all add: open_receiver_def)
  obtain s1 where "sent b2 = sent b1 @ s1" using extends_steps [OF steps] by (auto simp: extends_def)
  with s0 have log: "sent b2 = sent b0 @ s0 @ s1" by simp
  have exact: "distinct (frames d) \<and> set (frames d)
      = {e \<in> set (history b2). n < seq e \<and> (e \<in> set (history b1) \<or> e \<in> set (take (position d) (sent b2)))}"
    if d: "client_inv replay mx ?rx b2 d" for d
  proof -
    have "length (sent b0) \<le> position d" using d by (simp add: client_inv_def open_receiver_def)
    then obtain q where t: "take (position d) (sent b2) = sent b0 @ q" by (simp add: log)
    then have q: "drop ?rx (take (position d) (sent b2)) = q" by (simp add: open_receiver_def)
    have "sent b2 = take (position d) (sent b2) @ drop (position d) (sent b2)" by simp
    then have "sent b2 = sent b0 @ q @ drop (position d) (sent b2)" unfolding t by simp
    from read_events [OF assms(1,2) steps assms(3-6) this] d show ?thesis
      unfolding t by (simp add: client_inv_def q)
  qed
  have caught: "ended c' = None \<and> distinct (frames c')
      \<and> set (frames c') = {e \<in> set (history b2). n < seq e \<and> (e \<in> set (history b1) \<or> e \<in> set (sent b2))}"
    if "ended c = None" "length (sent b2) - position c \<le> BROADCAST_CAPACITY"
      and "c' = (forward b2 ^^ (length (sent b2) - position c)) c" for c'
  proof -
    have p: "position c \<le> length (sent b2)" using inv by (simp add: client_inv_def)
    have "ended c' = None" "position c' = length (sent b2)"
      using catch_up [OF that(1) p that(2)] p by (simp_all add: that(3))
    then show ?thesis using exact [OF forward_inv [OF inv, of "length (sent b2) - position c"]] by (simp add: that(3))
  qed
  show ?thesis
  proof (intro conjI impI)
    show "BROADCAST_CAPACITY < length (sent b2) - position c" if "ended c = Some LaggedBehind"
      using inv that by (simp add: client_inv_def)
  qed (use exact [OF inv] caught in \<open>simp_all add: Let_def\<close>)
qed

text \<open>
  A client that reconnects can lose an event all the same: broadcasts can be out of order, so a client that has got the
  second event before the first one asks for what follows the second, and the first is neither replayed nor, when it is
  broadcast, forwarded.
\<close>

lemma reordered_event_lost:
  "let e1 = \<lparr>seq = 1, event_request = None, event = x\<rparr>; e2 = \<lparr>seq = 2, event_request = None, event = y\<rparr>;
     numbered = snd (assign_event None y (snd (assign_event None x new_bus)));
     overtaken = broadcast_event e2 numbered; b = broadcast_event e1 overtaken
   in frames (forward overtaken (start_client ([], 0, open_receiver numbered))) = [e2]
     \<and> subscribe (Some 2) overtaken = Ok ([], 2, open_receiver overtaken)
     \<and> frames (forward b (start_client ([], 2, open_receiver overtaken))) = []"
  by (simp add: Let_def assign_event_def broadcast_event_def new_bus_def evict_def REPLAY_BUFFER_CAPACITY_def
      start_client_def forward_def recv_def open_receiver_def BROADCAST_CAPACITY_def subscribe_def snapshot_def)

text \<open>
  C40. When a client is told it is too far behind: exactly when its id was evicted from the buffer.
  Events are really missing only when the event after it was evicted too: a client whose last event
  is the newest evicted one has missed nothing and is turned away.
\<close>

theorem too_far_behind:
  assumes "bus_steps new_bus b"
  shows "(snapshot (Some n) b = Err ClientTooFarBehind \<longleftrightarrow>
      0 < n \<and> n + REPLAY_BUFFER_CAPACITY \<le> length (history b))
    \<and> ((\<exists>e\<in>set (history b). n < seq e \<and> e \<notin> set (buffer b)) \<longleftrightarrow>
      n + REPLAY_BUFFER_CAPACITY < length (history b))"
proof -
  have inv: "bus_inv b" using bus_inv_steps [OF assms bus_inv_new] .
  have "(\<exists>e\<in>set (history b). n < seq e \<and> e \<notin> set (buffer b)) \<longleftrightarrow> n < evicted b"
  proof
    assume "\<exists>e\<in>set (history b). n < seq e \<and> e \<notin> set (buffer b)"
    then show "n < evicted b" using buffer_iff [OF inv] by fastforce
  next
    assume n: "n < evicted b"
    then have "n < length (history b)" by (simp add: evicted_def)
    with inv have "history b ! n \<in> set (history b)" "seq (history b ! n) = n + 1" by (auto simp: bus_inv_def)
    with n buffer_iff [OF inv] show "\<exists>e\<in>set (history b). n < seq e \<and> e \<notin> set (buffer b)"
      by (intro bexI [of _ "history b ! n"]) auto
  qed
  moreover have "n \<le> evicted b \<longleftrightarrow> n + REPLAY_BUFFER_CAPACITY \<le> length (history b)" if "0 < n"
    using that by (auto simp: evicted_def)
  ultimately show ?thesis
    using snapshot_error [OF inv, of n] by (auto simp: evicted_def)
qed

text \<open>
  The numbers are assigned in order, the broadcasts need not be: a publisher may be overtaken
  between its two steps, and a live receiver then sees event 2 before event 1.
\<close>

lemma broadcast_out_of_order:
  "\<exists>b :: unit event_bus. bus_steps new_bus b \<and> map seq (sent b) = [2, 1]"
proof -
  let ?e1 = "\<lparr>seq = 1, event_request = None, event = ()\<rparr>" and ?e2 = "\<lparr>seq = 2, event_request = None, event = ()\<rparr>"
  let ?b2 = "snd (assign_event None () (snd (assign_event None () new_bus)))"
  have "bus_steps new_bus ?b2"
    by (meson bus_step.assign r_into_rtranclp rtranclp.rtrancl_into_rtrancl)
  moreover have "bus_step ?b2 (broadcast_event ?e2 ?b2)"
    by (rule bus_step.broadcast) (simp add: assign_event_def new_bus_def Let_def)
  moreover have "bus_step (broadcast_event ?e2 ?b2) (broadcast_event ?e1 (broadcast_event ?e2 ?b2))"
    by (rule bus_step.broadcast) (simp add: assign_event_def broadcast_event_def new_bus_def Let_def)
  moreover have "map seq (sent (broadcast_event ?e1 (broadcast_event ?e2 ?b2))) = [2, 1]"
    by (simp add: assign_event_def broadcast_event_def new_bus_def Let_def)
  ultimately show ?thesis by (meson rtranclp.rtrancl_into_rtrancl)
qed

section \<open>Witnesses\<close>

text \<open>One event published before a client with no last id subscribes, one after.\<close>

definition one_event :: "nat event_bus" where "one_event = snd (publish None 7 new_bus)"
definition two_events :: "nat event_bus" where "two_events = snd (publish None 8 one_event)"

lemma publish_steps: "bus_steps b (snd (publish r e b))"
proof -
  have "bus_step b (snd (assign_event r e b))" by (rule bus_step.assign)
  moreover have "bus_step (snd (assign_event r e b)) (snd (publish r e b))"
    unfolding publish_def
    by (simp add: assign_event_def Let_def) (rule bus_step.broadcast, simp)
  ultimately show ?thesis by (meson rtranclp.rtrancl_into_rtrancl rtranclp.rtrancl_refl)
qed

lemmas bus_eval = publish_def assign_event_def broadcast_event_def new_bus_def evict_def
  REPLAY_BUFFER_CAPACITY_def one_event_def two_events_def Let_def

definition one_replayed :: "nat sse_client" where
  "one_replayed = start_client ([\<lparr>seq = 1, event_request = None, event = 7\<rparr>], 1, open_receiver one_event)"

theorem subscriber_loses_nothing_witness:
  "let c = forward two_events one_replayed in map seq (frames c) = [1, 2] \<and> ended c = None \<and> distinct (frames c)
     \<and> set (frames c) = {e \<in> set (history two_events). 0 < seq e \<and> (e \<in> set (history one_event) \<or> e \<in> set (take 2 (sent two_events)))}"
proof -
  let ?c = "forward two_events one_replayed"
  let ?replay = "[\<lparr>seq = 1, event_request = None, event = 7\<rparr>]"
  have snap: "snapshot None one_event = Ok (?replay, 1)" by (simp add: snapshot_def bus_eval)
  have b: "bus_steps new_bus one_event" "bus_steps one_event two_events"
    unfolding one_event_def two_events_def by (rule publish_steps)+
  have "client_steps (one_event, one_replayed) (b', one_replayed)" if "bus_steps one_event b'" for b'
    using that by (induction rule: rtranclp_induct) (auto intro: rtranclp.rtrancl_into_rtrancl client_step.publisher)
  then have "client_steps (one_event, one_replayed) (two_events, ?c)"
    using b(2) by (meson client_step.task rtranclp.rtrancl_into_rtrancl)
  then have steps: "client_steps (one_event, start_client (?replay, 1, open_receiver one_event)) (two_events, ?c)"
    by (simp only: one_replayed_def)
  have c: "position ?c = 2" "map seq (frames ?c) = [1, 2]" "ended ?c = None"
    by (simp_all add: one_replayed_def start_client_def forward_def recv_def open_receiver_def BROADCAST_CAPACITY_def bus_eval)
  have "0 < next_seq one_event" "(0 :: nat) < 0 \<or> length (history one_event) \<le> REPLAY_BUFFER_CAPACITY"
    by (simp_all add: bus_eval)
  from subscriber_loses_nothing [OF b(1) rtranclp.rtrancl_refl snap _ this steps] c show ?thesis
    by (simp add: Let_def)
qed

theorem too_far_behind_witness:
  "snapshot (Some 3) one_event \<noteq> Err ClientTooFarBehind
   \<and> \<not> (\<exists>e\<in>set (history one_event). 3 < seq e \<and> e \<notin> set (buffer one_event))"
proof -
  have "bus_steps new_bus one_event" unfolding one_event_def by (rule publish_steps)
  from too_far_behind [OF this, of 3] show ?thesis by (simp add: bus_eval)
qed

section \<open>The active request\<close>

text \<open>The registered requests with their tokens, and the tokens that were cancelled.\<close>

record registry =
  active_requests :: "(str \<times> nat) list"
  cancelled_tokens :: "nat set"
  next_token :: nat

definition new_registry :: registry where
  "new_registry = \<lparr>active_requests = [], cancelled_tokens = {}, next_token = 0\<rparr>"

definition active_request_ids :: "registry \<Rightarrow> str list" where
  "active_request_ids s = map fst (active_requests s)"

definition live_requests :: "registry \<Rightarrow> (str \<times> nat) list" where
  "live_requests s = filter (\<lambda>x. snd x \<notin> cancelled_tokens s) (active_requests s)"

definition try_register_request :: "str \<Rightarrow> registry \<Rightarrow> registry \<times> (str, nat) result" where
  "try_register_request i s =
     (if live_requests s \<noteq> []
      then (s\<lparr>active_requests := live_requests s\<rparr>, Err (lit ''Session already has an active request''))
      else (s\<lparr>active_requests := [(i, next_token s)], next_token := next_token s + 1\<rparr>, Ok (next_token s)))"

definition cancel_request :: "str \<Rightarrow> registry \<Rightarrow> registry \<times> bool" where
  "cancel_request i s = (case map_of (active_requests s) i of
     Some t \<Rightarrow> (s\<lparr>cancelled_tokens := insert t (cancelled_tokens s)\<rparr>, True)
   | None \<Rightarrow> (s, False))"

definition cleanup_request :: "str \<Rightarrow> registry \<Rightarrow> registry" where
  "cleanup_request i s = s\<lparr>active_requests := filter (\<lambda>x. fst x \<noteq> i) (active_requests s)\<rparr>"

text \<open>The drop of a \<open>RequestGuard\<close>.\<close>

record request_guard =
  guarded :: str
  disarmed :: bool

definition drop_guard :: "request_guard \<Rightarrow> registry \<Rightarrow> registry" where
  "drop_guard g s = (if disarmed g then s else cleanup_request (guarded g) s)"

datatype registry_op = TryRegister str | CancelRequest str | DropGuard request_guard

definition run_op :: "registry_op \<Rightarrow> registry \<Rightarrow> registry" where
  "run_op p s = (case p of
     TryRegister i \<Rightarrow> fst (try_register_request i s)
   | CancelRequest i \<Rightarrow> fst (cancel_request i s)
   | DropGuard g \<Rightarrow> drop_guard g s)"

lemma filter_le_one: "length xs \<le> 1 \<Longrightarrow> length (filter P xs) \<le> 1"
  by (rule order_trans [OF length_filter_le])

lemma live_step: "length (live_requests s) \<le> 1 \<Longrightarrow> length (live_requests (run_op p s)) \<le> 1"
proof (cases p)
  case (TryRegister i)
  assume "length (live_requests s) \<le> 1"
  then show ?thesis
    using TryRegister
    by (auto simp: run_op_def try_register_request_def live_requests_def
        intro: order_trans [OF length_filter_le])
next
  case (CancelRequest i)
  assume l: "length (live_requests s) \<le> 1"
  have "live_requests (fst (cancel_request i s))
      = filter (\<lambda>x. snd x \<notin> cancelled_tokens (fst (cancel_request i s))) (live_requests s)"
    by (auto simp: cancel_request_def live_requests_def intro!: filter_cong split: option.splits)
  with filter_le_one [OF l] show ?thesis by (simp add: CancelRequest run_op_def)
next
  case (DropGuard g)
  assume l: "length (live_requests s) \<le> 1"
  have "live_requests (cleanup_request i s) = filter (\<lambda>x. fst x \<noteq> i) (live_requests s)" for i
    by (auto simp: cleanup_request_def live_requests_def conj_commute)
  with l filter_le_one [OF l] show ?thesis by (simp add: DropGuard run_op_def drop_guard_def)
qed

text \<open>
  One request at a time: after any sequence of registrations, cancellations and guard drops at
  most one registered request is not cancelled, and a registration succeeds exactly when there is
  none.
\<close>

lemma one_active_request:
  "length (live_requests (fold run_op ops new_registry)) \<le> 1
   \<and> (is_ok (snd (try_register_request i (fold run_op ops new_registry)))
      \<longleftrightarrow> live_requests (fold run_op ops new_registry) = [])"
proof
  have "length (live_requests (fold run_op ops s)) \<le> 1" if "length (live_requests s) \<le> 1" for s
    using that by (induction ops arbitrary: s) (simp_all add: live_step [unfolded One_nat_def])
  then show "length (live_requests (fold run_op ops new_registry)) \<le> 1"
    by (simp add: new_registry_def live_requests_def)
qed (simp add: try_register_request_def)

text \<open>
  The guard removes the request by its id, not by its token: when an id is registered again after a
  cancellation, the guard of the cancelled task removes the new registration, and a third request is
  accepted while the second is neither cancelled nor finished.
\<close>

lemma stale_guard_frees_session:
  fixes r :: str and q :: str
  shows "fold run_op [TryRegister r, CancelRequest r, TryRegister r,
      DropGuard \<lparr>guarded = r, disarmed = False\<rparr>, TryRegister q] new_registry
   = \<lparr>active_requests = [(q, 2)], cancelled_tokens = {0}, next_token = 3\<rparr>"
  by (simp add: run_op_def try_register_request_def cancel_request_def drop_guard_def cleanup_request_def
      new_registry_def live_requests_def)

end
