(* ===== verification/ThinkFilter.thy ===== *)
theory ThinkFilter
  imports Prelude
begin

text \<open>
  The filter that separates a model's reasoning from its answer while the text streams in
  (\<open>bharatcode-providers/src/thinking.rs\<close>): tags \<open><think>\<close> and \<open><thinking>\<close>, nested, with
  attributes or self-closing, possibly cut anywhere by the chunks of the stream. A position in the
  buffer is modelled by the text before it and the text from it on; every position the code uses is
  that of an ASCII character.
\<close>

section \<open>Tags\<close>

datatype think_tag = OpenTag | CloseTag | SelfClosing

definition is_ascii_alphabetic :: "uchar \<Rightarrow> bool" where
  "is_ascii_alphabetic c = ((65 \<le> c \<and> c \<le> 90) \<or> (97 \<le> c \<and> c \<le> 122))"

definition is_ascii_whitespace :: "uchar \<Rightarrow> bool" where
  "is_ascii_whitespace c = (c \<in> {9, 10, 12, 13, 32})"

definition is_think_name :: "str \<Rightarrow> bool" where
  "is_think_name n =
     (eq_ignore_ascii_case n (lit ''think'') \<or> eq_ignore_ascii_case n (lit ''thinking''))"

definition is_quote :: "uchar \<Rightarrow> bool" where "is_quote c = (c = 34 \<or> c = 39)"

text \<open>The scan for the end of an opening tag: the open quote, the last byte that is not white.\<close>

fun scan_open :: "uchar option \<Rightarrow> uchar option \<Rightarrow> str \<Rightarrow> (think_tag \<times> str) option" where
  "scan_open quote last_non_ws [] = None"
| "scan_open quote last_non_ws (b # s) = (case quote of
     Some q \<Rightarrow> scan_open (if b = q then None else Some q) last_non_ws s
   | None \<Rightarrow>
       if is_quote b then scan_open (Some b) (Some b) s
       else if b = 62 then Some (if last_non_ws = Some 47 then SelfClosing else OpenTag, s)
       else if \<not> is_ascii_whitespace b then scan_open None (Some b) s
       else scan_open None last_non_ws s)"

text \<open>The tag the text starts with, and the text after it.\<close>

definition parse_think_tag :: "str \<Rightarrow> (think_tag \<times> str) option" where
  "parse_think_tag s = (case s of [] \<Rightarrow> None | c # r \<Rightarrow>
     if c \<noteq> 60 then None
     else (let is_close = (r \<noteq> [] \<and> hd r = 47);
               r1 = (if is_close then tl r else r);
               name = takeWhile is_ascii_alphabetic r1;
               r2 = dropWhile is_ascii_alphabetic r1
           in if name = [] \<or> \<not> is_think_name name then None
              else if is_close then
                (case dropWhile is_ascii_whitespace r2 of
                   b # r3 \<Rightarrow> if b = 62 then Some (CloseTag, r3) else None
                 | [] \<Rightarrow> None)
              else (case r2 of
                  b # _ \<Rightarrow> if b = 62 \<or> b = 47 \<or> is_ascii_whitespace b then scan_open None None r2 else None
                | [] \<Rightarrow> None)))"

fun unquoted_gt :: "uchar option \<Rightarrow> str \<Rightarrow> bool" where
  "unquoted_gt quote [] = False"
| "unquoted_gt quote (b # s) = (case quote of
     Some q \<Rightarrow> unquoted_gt (if b = q then None else Some q) s
   | None \<Rightarrow> if is_quote b then unquoted_gt (Some b) s else b = 62 \<or> unquoted_gt None s)"

definition contains_unquoted_gt :: "str \<Rightarrow> bool" where
  "contains_unquoted_gt s = unquoted_gt None s"

text \<open>
  The two regular expressions: a first \<open>t\<close>, the longest match of \<open>hinking\<close>, and what is left must be
  empty, start with white space or be one slash (or be white, in a closing tag). The matching of
  letters is that of \<open>(?i)\<close>, which folds the Kelvin sign with \<open>k\<close>.
\<close>

definition same_letter :: "uchar \<Rightarrow> uchar \<Rightarrow> bool" where
  "same_letter l c = (ascii_lower c = l \<or> l = 107 \<and> c = 8490)"

fun skip_letters :: "str \<Rightarrow> str \<Rightarrow> str" where
  "skip_letters (l # ls) (c # s) = (if same_letter l c then skip_letters ls s else c # s)"
| "skip_letters _ s = s"

definition open_re :: "str \<Rightarrow> bool" where
  "open_re s = (case s of c # d # r \<Rightarrow> c = 60 \<and> same_letter 116 d
     \<and> (let q = skip_letters (lit ''hinking'') r in q = [] \<or> is_ws (hd q) \<or> q = [47]) | _ \<Rightarrow> False)"

definition close_re :: "str \<Rightarrow> bool" where
  "close_re s = (case s of c # e # d # r \<Rightarrow> c = 60 \<and> e = 47 \<and> same_letter 116 d
     \<and> list_all is_ws (skip_letters (lit ''hinking'') r) | _ \<Rightarrow> False)"

definition is_possible_partial_think_tag :: "str \<Rightarrow> bool" where
  "is_possible_partial_think_tag s = (\<not> contains_unquoted_gt s \<and> (open_re s \<or> close_re s))"

section \<open>The filter\<close>

text \<open>The first event: the text before it, the tag and the text after it, or the tail to be kept.\<close>

datatype buffer_event = TagEvent str think_tag str | PartialEvent str str

fun next_event :: "bool \<Rightarrow> str \<Rightarrow> str \<Rightarrow> buffer_event option" where
  "next_event inside pre [] = None"
| "next_event inside pre (c # s) =
     (if c \<noteq> 60 then next_event inside (pre @ [c]) s
      else (case parse_think_tag (c # s) of
          Some (kind, rest) \<Rightarrow>
            if inside \<or> kind \<noteq> CloseTag then Some (TagEvent pre kind rest)
            else next_event inside (pre @ [c]) s
        | None \<Rightarrow>
            if \<not> contains_unquoted_gt (c # s) \<and> is_possible_partial_think_tag (c # s)
            then Some (PartialEvent pre (c # s))
            else next_event inside (pre @ [c]) s))"

definition next_buffer_event :: "str \<Rightarrow> bool \<Rightarrow> buffer_event option" where
  "next_buffer_event buf inside = next_event inside [] buf"

record think_filter =
  buffer :: str
  inside_think :: bool
  think_depth :: nat

definition new_filter :: think_filter where
  "new_filter = \<lparr>buffer = [], inside_think = False, think_depth = 0\<rparr>"

record filter_out =
  out_content :: str
  out_thinking :: str

definition emit :: "bool \<Rightarrow> str \<Rightarrow> filter_out \<Rightarrow> filter_out" where
  "emit inside t out = (if inside then out\<lparr>out_thinking := out_thinking out @ t\<rparr>
     else out\<lparr>out_content := out_content out @ t\<rparr>)"

definition enter_tag :: "think_tag \<Rightarrow> str \<Rightarrow> think_filter \<Rightarrow> think_filter" where
  "enter_tag kind rest f = (case kind of
     OpenTag \<Rightarrow> \<lparr>buffer = rest, inside_think = True, think_depth = think_depth f + 1\<rparr>
   | CloseTag \<Rightarrow> \<lparr>buffer = rest, inside_think = (0 < think_depth f - 1), think_depth = think_depth f - 1\<rparr>
   | SelfClosing \<Rightarrow> f\<lparr>buffer := rest\<rparr>)"

lemma scan_open_shorter: "scan_open q l s = Some (k, r) \<Longrightarrow> length r < length s"
  by (induction q l s rule: scan_open.induct) (auto split: option.splits if_splits)

lemma parse_think_tag_shorter:
  assumes "parse_think_tag s = Some (k, r)"
  shows "length r < length s"
proof -
  obtain c t where s: "s = c # t" using assms by (cases s) (auto simp: parse_think_tag_def)
  have "length (dropWhile is_ascii_whitespace (dropWhile is_ascii_alphabetic (tl t))) \<le> length t"
    using length_dropWhile_le [of is_ascii_whitespace "dropWhile is_ascii_alphabetic (tl t)"]
      length_dropWhile_le [of is_ascii_alphabetic "tl t"] by simp
  moreover have "length (dropWhile is_ascii_alphabetic t) \<le> length t" by (rule length_dropWhile_le)
  ultimately show ?thesis
    using assms unfolding s
    by (auto simp: parse_think_tag_def Let_def dest!: scan_open_shorter split: if_splits list.splits)
qed

lemma next_event_shorter: "next_event inside pre s = Some (TagEvent p k r) \<Longrightarrow> length r < length s"
  by (induction inside pre s rule: next_event.induct)
    (auto split: if_splits option.splits dest: parse_think_tag_shorter)

function process_buffer :: "filter_out \<Rightarrow> think_filter \<Rightarrow> think_filter \<times> filter_out" where
  "process_buffer out f = (case next_buffer_event (buffer f) (inside_think f) of
     Some (TagEvent pre kind rest) \<Rightarrow>
       process_buffer (emit (inside_think f) pre out) (enter_tag kind rest f)
   | Some (PartialEvent pre tail) \<Rightarrow> (f\<lparr>buffer := tail\<rparr>, emit (inside_think f) pre out)
   | None \<Rightarrow> (f\<lparr>buffer := []\<rparr>, emit (inside_think f) (buffer f) out))"
  by pat_completeness auto
termination
  by (relation "measure (length \<circ> buffer \<circ> snd)")
    (auto simp: enter_tag_def next_buffer_event_def dest: next_event_shorter split: think_tag.splits)

declare process_buffer.simps [simp del]

definition no_output :: filter_out where "no_output = \<lparr>out_content = [], out_thinking = []\<rparr>"

definition push_chunk :: "think_filter \<Rightarrow> str \<Rightarrow> think_filter \<times> filter_out" where
  "push_chunk f chunk = process_buffer no_output (f\<lparr>buffer := buffer f @ chunk\<rparr>)"

definition finish_filter :: "think_filter \<Rightarrow> filter_out" where
  "finish_filter f = (let (f', out) = process_buffer no_output f in
     if buffer f' \<noteq> [] then emit (inside_think f') (buffer f') out else out)"

definition join_out :: "filter_out \<Rightarrow> filter_out \<Rightarrow> filter_out" where
  "join_out a b = \<lparr>out_content = out_content a @ out_content b, out_thinking = out_thinking a @ out_thinking b\<rparr>"

definition split_think_blocks :: "str \<Rightarrow> str \<times> str" where
  "split_think_blocks text = (let (f, out) = push_chunk new_filter text;
       all = join_out out (finish_filter f)
     in (out_content all, out_thinking all))"

section \<open>Thinking effort\<close>

datatype thinking_effort = EffortOff | EffortLow | EffortMedium | EffortHigh | EffortMax

text \<open>\<open>lower\<close> is \<open>str::to_lowercase\<close>, the Unicode lower casing of the standard library.\<close>

definition parse_effort :: "(str \<Rightarrow> str) \<Rightarrow> str \<Rightarrow> (str, thinking_effort) result" where
  "parse_effort lower s = (let t = lower s in
     if t \<in> {lit ''off'', lit ''disabled'', lit ''none''} then Ok EffortOff
     else if t = lit ''low'' then Ok EffortLow
     else if t \<in> {lit ''medium'', lit ''med''} then Ok EffortMedium
     else if t = lit ''high'' then Ok EffortHigh
     else if t \<in> {lit ''max'', lit ''xhigh''} then Ok EffortMax
     else Err (lit ''unknown thinking effort: '' @ quoted t))"

definition show_effort :: "thinking_effort \<Rightarrow> str" where
  "show_effort e = (case e of EffortOff \<Rightarrow> lit ''off'' | EffortLow \<Rightarrow> lit ''low''
     | EffortMedium \<Rightarrow> lit ''medium'' | EffortHigh \<Rightarrow> lit ''high'' | EffortMax \<Rightarrow> lit ''max'')"

section \<open>Cutting a text in two\<close>

text \<open>
  A tail of the text seen so far that may still become a tag although the filter does not hold it
  back: a lone \<open><\<close> or \<open></\<close>, which the regular expressions reject because they want a \<open>t\<close>, and an
  opening tag with more after a slash that follows its name at once.
\<close>

definition loose :: "str \<Rightarrow> bool" where
  "loose s = (s = [60] \<or> s = [60, 47] \<or>
     (case s of [] \<Rightarrow> False | c # r \<Rightarrow> let r2 = dropWhile is_ascii_alphabetic r in
        c = 60 \<and> is_think_name (takeWhile is_ascii_alphabetic r) \<and> r2 \<noteq> [] \<and> hd r2 = 47 \<and> tl r2 \<noteq> []
        \<and> \<not> unquoted_gt None r2))"

definition cut_ok :: "str \<Rightarrow> bool" where
  "cut_ok s = list_all (\<lambda>t. \<not> loose t) (suffixes s)"

lemma cut_ok_iff: "cut_ok s \<longleftrightarrow> (\<forall>t. suffix t s \<longrightarrow> \<not> loose t)"
  by (simp add: cut_ok_def list_all_iff set_suffixes_eq)

lemma cut_ok_suffix: "cut_ok s \<Longrightarrow> suffix t s \<Longrightarrow> cut_ok t"
  unfolding cut_ok_iff by (blast intro: suffix_order.trans)

lemma alphabetic_plain: "is_ascii_alphabetic c \<Longrightarrow> \<not> is_quote c \<and> c \<noteq> 62 \<and> c \<noteq> 47 \<and> c \<noteq> 60 \<and> \<not> is_ascii_whitespace c"
  by (auto simp: is_ascii_alphabetic_def is_quote_def is_ascii_whitespace_def)

lemma unquoted_gt_append: "unquoted_gt q s \<Longrightarrow> unquoted_gt q (s @ b)"
  by (induction q s rule: unquoted_gt.induct) (auto split: option.splits if_splits)

lemma unquoted_gt_plain:
  "list_all (\<lambda>c. \<not> is_quote c \<and> c \<noteq> 62) p \<Longrightarrow> unquoted_gt None (p @ s) = unquoted_gt None s"
  by (induction p) auto

lemma scan_open_gt: "(scan_open q l s = None) = (\<not> unquoted_gt q s)"
  by (induction q l s rule: scan_open.induct) (auto split: option.splits if_splits)

lemma scan_open_append: "scan_open q l s = Some (k, r) \<Longrightarrow> scan_open q l (s @ b) = Some (k, r @ b)"
  by (induction q l s rule: scan_open.induct) (auto split: option.splits if_splits)

lemma takeWhile_append_stop: "dropWhile P s \<noteq> [] \<Longrightarrow> takeWhile P (s @ b) = takeWhile P s"
  by (induction s) auto

lemma dropWhile_append_stop: "dropWhile P s \<noteq> [] \<Longrightarrow> dropWhile P (s @ b) = dropWhile P s @ b"
  by (induction s) auto

lemma is_think_name_cases: "is_think_name n \<longleftrightarrow>
    to_ascii_lowercase n = lit ''think'' \<or> to_ascii_lowercase n = lit ''thinking''"
  by (auto simp: is_think_name_def eq_ignore_ascii_case_def to_ascii_lowercase_def ascii_lower_def)

lemma is_think_name_Nil [simp]: "\<not> is_think_name []"
  by (simp add: is_think_name_cases to_ascii_lowercase_def)

text \<open>The parts of a tag: the mark of a closing tag, the name, and the text after the name.\<close>

definition tag_close :: "str \<Rightarrow> bool" where "tag_close r = (r \<noteq> [] \<and> hd r = 47)"
definition tag_body :: "str \<Rightarrow> str" where "tag_body r = (if tag_close r then tl r else r)"
definition tag_name :: "str \<Rightarrow> str" where "tag_name r = takeWhile is_ascii_alphabetic (tag_body r)"
definition tag_rest :: "str \<Rightarrow> str" where "tag_rest r = dropWhile is_ascii_alphabetic (tag_body r)"

lemma tag_split: "tag_body r = tag_name r @ tag_rest r"
  by (simp add: tag_name_def tag_rest_def)

lemma tag_name_alphabetic: "list_all is_ascii_alphabetic (tag_name r)"
  by (auto simp: tag_name_def list_all_iff dest: set_takeWhileD)

lemma parse_think_tag_alt:
  "parse_think_tag (c # r) =
     (if c \<noteq> 60 \<or> \<not> is_think_name (tag_name r) then None
      else if tag_close r then
        (case dropWhile is_ascii_whitespace (tag_rest r) of
           b # r3 \<Rightarrow> if b = 62 then Some (CloseTag, r3) else None | [] \<Rightarrow> None)
      else if tag_rest r \<noteq> [] \<and> (hd (tag_rest r) \<in> {62, 47} \<or> is_ascii_whitespace (hd (tag_rest r)))
      then scan_open None None (tag_rest r) else None)"
proof -
  have "(if r \<noteq> [] \<and> hd r = 47 then tl r else r) = tag_body r" by (simp add: tag_body_def tag_close_def)
  then have "parse_think_tag (c # r) = (if c \<noteq> 60 then None
      else if tag_name r = [] \<or> \<not> is_think_name (tag_name r) then None
      else if tag_close r then
        (case dropWhile is_ascii_whitespace (tag_rest r) of
           b # r3 \<Rightarrow> if b = 62 then Some (CloseTag, r3) else None | [] \<Rightarrow> None)
      else (case tag_rest r of
          b # _ \<Rightarrow> if b = 62 \<or> b = 47 \<or> is_ascii_whitespace b then scan_open None None (tag_rest r) else None
        | [] \<Rightarrow> None))"
    by (simp only: parse_think_tag_def list.case Let_def tag_name_def tag_rest_def tag_close_def)
  then show ?thesis by (cases "tag_rest r") auto
qed

lemma tag_append:
  assumes "tag_rest r \<noteq> []"
  shows "tag_close (r @ b) = tag_close r" "tag_name (r @ b) = tag_name r" "tag_rest (r @ b) = tag_rest r @ b"
proof -
  show c: "tag_close (r @ b) = tag_close r"
    using assms by (cases r) (auto simp: tag_close_def tag_rest_def tag_body_def)
  have "tag_body (r @ b) = tag_body r @ b"
    using assms c by (cases r) (auto simp: tag_body_def tag_close_def tag_rest_def)
  with assms show "tag_name (r @ b) = tag_name r" "tag_rest (r @ b) = tag_rest r @ b"
    by (simp_all add: tag_name_def tag_rest_def takeWhile_append_stop dropWhile_append_stop)
qed

lemma parse_think_tag_append:
  assumes "parse_think_tag s = Some (k, r)"
  shows "parse_think_tag (s @ b) = Some (k, r @ b)"
proof -
  obtain c t where s: "s = c # t" using assms by (cases s) (auto simp: parse_think_tag_def)
  have ne: "tag_rest t \<noteq> []"
    using assms by (auto simp: s parse_think_tag_alt split: if_splits list.splits)
  show ?thesis
  proof (cases "tag_close t")
    case True
    with assms have "dropWhile is_ascii_whitespace (tag_rest t) = 62 # r" "k = CloseTag" "c = 60"
        "is_think_name (tag_name t)"
      by (auto simp: s parse_think_tag_alt split: if_splits list.splits)
    with True ne show ?thesis
      by (simp add: s parse_think_tag_alt tag_append dropWhile_append_stop)
  next
    case False
    with assms ne show ?thesis
      by (auto simp: s parse_think_tag_alt tag_append scan_open_append split: if_splits)
  qed
qed

lemma skip_letters_prefix: "prefix (map ascii_lower p) ls \<Longrightarrow> skip_letters ls p = []"
  by (induction ls p rule: skip_letters.induct) (auto simp: same_letter_def)

lemma skip_letters_append: "skip_letters ls r \<noteq> [] \<Longrightarrow> skip_letters ls (r @ b) = skip_letters ls r @ b"
  by (induction ls r rule: skip_letters.induct) (auto split: if_splits)

lemma skip_letters_name:
  assumes "map ascii_lower n = ls"
  shows "skip_letters (ls @ ls') (n @ r) = skip_letters ls' r"
  using assms by (induction n arbitrary: ls) (auto simp: same_letter_def)


text \<open>What \<open>loose\<close> excludes is exactly what the two regular expressions miss.\<close>

lemma loose_alt:
  "loose (c # r) = (c = 60 \<and> (r = [] \<or> r = [47] \<or>
     \<not> tag_close r \<and> is_think_name (tag_name r) \<and> tag_rest r \<noteq> [] \<and> hd (tag_rest r) = 47
       \<and> tl (tag_rest r) \<noteq> [] \<and> \<not> unquoted_gt None (tag_rest r)))"
proof -
  have "takeWhile is_ascii_alphabetic r = [] \<or> \<not> is_think_name []" "tag_close r \<Longrightarrow> takeWhile is_ascii_alphabetic r = []"
    by (auto simp: tag_close_def is_ascii_alphabetic_def neq_Nil_conv)
  then show ?thesis
    by (cases "tag_close r") (auto simp: loose_def Let_def tag_name_def tag_rest_def tag_body_def)
qed

definition holds :: "str \<Rightarrow> bool" where
  "holds s = is_possible_partial_think_tag s"

lemma holds_shrinks:
  assumes "holds (s @ b)" and "s \<noteq> []" and "\<not> loose s"
  shows "holds s"
proof -
  obtain c r where s: "s = c # r" using assms(2) by (cases s) auto
  have gt: "\<not> contains_unquoted_gt s"
    using assms(1) unquoted_gt_append [of None s b]
    by (auto simp: holds_def is_possible_partial_think_tag_def contains_unquoted_gt_def)
  have c: "c = 60" using assms(1) s
    by (auto simp: holds_def is_possible_partial_think_tag_def open_re_def close_re_def split: list.splits)
  then have r: "r \<noteq> []" "r \<noteq> [47]" using assms(3) by (auto simp: s loose_def)
  then obtain d r1 where d: "r = d # r1" by (cases r) auto
  consider "open_re (s @ b)" | "close_re (s @ b)"
    using assms(1) by (auto simp: holds_def is_possible_partial_think_tag_def)
  then show ?thesis
  proof cases
    case 1
    have "open_re s"
    proof (cases "skip_letters (lit ''hinking'') r1 = []")
      case True
      with 1 show ?thesis by (simp add: s c d open_re_def)
    next
      case False
      with 1 skip_letters_append [OF False, of b] show ?thesis
        by (cases "skip_letters (lit ''hinking'') r1") (auto simp: s c d open_re_def Let_def)
    qed
    with gt show ?thesis by (simp add: holds_def is_possible_partial_think_tag_def)
  next
    case 2
    then have "d = 47" by (auto simp: s d close_re_def split: list.splits)
    with r d obtain e r2 where e: "r1 = e # r2" by (cases r1) auto
    have "close_re s"
    proof (cases "skip_letters (lit ''hinking'') r2 = []")
      case True
      with 2 show ?thesis by (simp add: s c d e close_re_def)
    next
      case False
      with 2 skip_letters_append [OF False, of b] show ?thesis by (auto simp: s c d e close_re_def)
    qed
    with gt show ?thesis by (simp add: holds_def is_possible_partial_think_tag_def)
  qed
qed

lemma think_name_letters:
  assumes "map ascii_lower (n @ x) \<in> {lit ''think'', lit ''thinking''}" and "n \<noteq> []"
  shows "same_letter 116 (hd n) \<and> skip_letters (lit ''hinking'') (tl n) = []"
proof -
  obtain d m where n: "n = d # m" using assms(2) by (cases n) auto
  have "ascii_lower d = 116" "prefix (map ascii_lower m) (lit ''hinking'')"
    using assms(1) by (auto simp: n Cons_eq_append_conv append_eq_Cons_conv)
  then show ?thesis by (simp add: n same_letter_def skip_letters_prefix)
qed


lemma think_name_then:
  assumes "is_think_name n" and "r = [] \<or> ascii_lower (hd r) \<noteq> 105"
  shows "n \<noteq> [] \<and> same_letter 116 (hd n) \<and> skip_letters (lit ''hinking'') (tl n @ r) = r"
proof -
  obtain d m where n: "n = d # m" using assms(1) by (cases n) auto
  have d: "ascii_lower d = 116" and
    m: "map ascii_lower m = lit ''hink'' \<or> map ascii_lower m = lit ''hinking''"
    using assms(1) by (auto simp: n is_think_name_cases to_ascii_lowercase_def)
  have "skip_letters (lit ''ing'') r = r"
    using assms(2) by (cases r) (auto simp: same_letter_def)
  with m skip_letters_name [of m "lit ''hink''" "lit ''ing''" r] skip_letters_name [of m "lit ''hinking''" "[]" r]
  have "skip_letters (lit ''hinking'') (m @ r) = r" by auto
  with d show ?thesis by (simp add: n same_letter_def)
qed

lemma gt_tag: "unquoted_gt None (60 # r) = unquoted_gt None (tag_rest r)"
proof -
  have "list_all (\<lambda>c. \<not> is_quote c \<and> c \<noteq> 62) (tag_name r)"
    using tag_name_alphabetic [of r] alphabetic_plain by (auto simp: list_all_iff)
  note p = unquoted_gt_plain [OF this, of "tag_rest r", folded tag_split]
  have "unquoted_gt None r = unquoted_gt None (tag_body r)"
    by (cases r) (auto simp: tag_body_def tag_close_def is_quote_def)
  with p show ?thesis by (simp add: is_quote_def)
qed

lemma cut_name_holds:
  assumes "parse_think_tag (60 # r @ b) = Some (k, t)" and "tag_rest r = []" and "r \<noteq> []" and "r \<noteq> [47]"
  shows "holds (60 # r)"
proof -
  let ?n = "tag_body r"
  have al: "takeWhile is_ascii_alphabetic ?n = ?n"
    using assms(2) by (metis append_Nil2 tag_name_def tag_split)
  have n: "?n \<noteq> []" using assms(3,4) by (cases r) (auto simp: tag_body_def tag_close_def)
  have c: "tag_close (r @ b) = tag_close r" using assms(3) by (simp add: tag_close_def)
  then have "tag_name (r @ b) = ?n @ takeWhile is_ascii_alphabetic b"
    using assms(3) al by (cases r) (auto simp: tag_name_def tag_body_def tag_close_def takeWhile_append)
  moreover have "is_think_name (tag_name (r @ b))"
    using assms(1) by (auto simp: parse_think_tag_alt split: if_splits)
  ultimately have l: "same_letter 116 (hd ?n) \<and> skip_letters (lit ''hinking'') (tl ?n) = []"
    using n by (intro think_name_letters [of _ "takeWhile is_ascii_alphabetic b"])
      (auto simp: is_think_name_cases to_ascii_lowercase_def)
  have "open_re (60 # r) \<or> close_re (60 # r)"
  proof (cases "tag_close r")
    case True
    with l n show ?thesis by (cases r; cases "tl r") (auto simp: tag_body_def tag_close_def close_re_def)
  next
    case False
    with l n show ?thesis by (cases r) (auto simp: tag_body_def open_re_def)
  qed
  with assms(2) show ?thesis
    by (simp add: holds_def is_possible_partial_think_tag_def contains_unquoted_gt_def gt_tag del: unquoted_gt.simps(2))
qed

lemma cut_tag_holds:
  assumes "parse_think_tag (s @ b) = Some (k, t)" and "parse_think_tag s = None" and "s \<noteq> []" and "\<not> loose s"
  shows "holds s"
proof -
  obtain r where s: "s = 60 # r"
    using assms(1,3) by (cases s) (auto simp: parse_think_tag_alt split: if_splits)
  have r: "r \<noteq> []" "r \<noteq> [47]" using assms(4) by (auto simp: s loose_def)
  show ?thesis
  proof (cases "tag_rest r = []")
    case True
    with cut_name_holds assms(1) r show ?thesis by (simp add: s)
  next
    case ne: False
    have name: "is_think_name (tag_name r)"
      using assms(1) ne by (auto simp: s parse_think_tag_alt tag_append split: if_splits)
    show ?thesis
    proof (cases "tag_close r")
      case True
      have "dropWhile is_ascii_whitespace (tag_rest r) = []"
        using assms(1,2) ne True name dropWhile_append_stop [of is_ascii_whitespace "tag_rest r" b]
        by (cases "dropWhile is_ascii_whitespace (tag_rest r)")
          (auto simp: s parse_think_tag_alt tag_append split: if_splits)
      then have w: "list_all is_ascii_whitespace (tag_rest r)" by (simp add: dropWhile_eq_Nil_conv list_all_iff)
      have "\<not> unquoted_gt None x" if "list_all is_ascii_whitespace x" for x
        using that by (induction x) (auto simp: is_ascii_whitespace_def is_quote_def)
      with w have gt: "\<not> unquoted_gt None (tag_rest r)" by blast
      from w ne have "ascii_lower (hd (tag_rest r)) \<noteq> 105"
        by (cases "tag_rest r") (auto simp: is_ascii_whitespace_def ascii_lower_def)
      with think_name_then [OF name, of "tag_rest r"] w
      have "close_re (60 # 47 # tag_name r @ tag_rest r)"
        by (cases "tag_name r")
          (auto simp: close_re_def list_all_iff is_ascii_whitespace_def is_ws_def)
      moreover have "r = 47 # tag_name r @ tag_rest r"
        using True tag_split [of r] by (cases r) (auto simp: tag_body_def tag_close_def)
      ultimately have "close_re (60 # r)" by simp
      with gt show ?thesis
        by (simp add: s holds_def is_possible_partial_think_tag_def contains_unquoted_gt_def gt_tag del: unquoted_gt.simps(2))
    next
      case False
      have gt: "\<not> unquoted_gt None (tag_rest r)"
        using assms(1,2) ne False name scan_open_gt [of None None "tag_rest r"]
        by (auto simp: s parse_think_tag_alt tag_append split: if_splits)
      obtain x y where x: "tag_rest r = x # y" using ne by (cases "tag_rest r") auto
      with gt have "x \<noteq> 62" by (auto simp: is_quote_def)
      with assms(1) ne False name x have b: "x = 47 \<or> is_ascii_whitespace x"
        by (auto simp: s parse_think_tag_alt tag_append split: if_splits)
      then have "ascii_lower x \<noteq> 105" by (auto simp: is_ascii_whitespace_def ascii_lower_def)
      with think_name_then [OF name, of "tag_rest r"] x
      have l: "tag_name r \<noteq> []" "same_letter 116 (hd (tag_name r))"
        "skip_letters (lit ''hinking'') (tl (tag_name r) @ tag_rest r) = tag_rest r" by auto
      have "is_ws x \<or> tag_rest r = [47]"
        using b assms(4) False name gt x
        by (auto simp: s loose_alt is_ascii_whitespace_def is_ws_def simp del: unquoted_gt.simps)
      then have "open_re (60 # r)"
        using l x False tag_split [of r]
        by (cases "tag_name r") (auto simp: tag_body_def open_re_def Let_def)
      with gt show ?thesis
        by (simp add: s holds_def is_possible_partial_think_tag_def contains_unquoted_gt_def gt_tag del: unquoted_gt.simps(2))
    qed
  qed
qed


fun add_before :: "str \<Rightarrow> buffer_event \<Rightarrow> buffer_event" where
  "add_before p (TagEvent q k r) = TagEvent (p @ q) k r"
| "add_before p (PartialEvent q h) = PartialEvent (p @ q) h"

lemma next_event_before: "next_event inside (p @ pre) s = map_option (add_before p) (next_event inside pre s)"
proof (induction s arbitrary: pre)
  case (Cons c s)
  from Cons.IH [of "pre @ [c]"] show ?case by (cases "parse_think_tag (c # s)") (auto split: prod.splits)
qed simp

lemma next_event_append:
  assumes "cut_ok s"
  shows "next_event inside pre (s @ b) = (case next_event inside pre s of
      Some (TagEvent p k r) \<Rightarrow> Some (TagEvent p k (r @ b))
    | Some (PartialEvent p h) \<Rightarrow> next_event inside p (h @ b)
    | None \<Rightarrow> next_event inside (pre @ s) b)"
  using assms
proof (induction s arbitrary: pre)
  case (Cons c s)
  have ok: "cut_ok s" using Cons.prems by (rule cut_ok_suffix) (simp add: suffix_ConsI)
  have nl: "\<not> loose (c # s)" using Cons.prems by (simp add: cut_ok_iff)
  note IH = Cons.IH [OF ok, of "pre @ [c]"]
  show ?case
  proof (cases "c = 60")
    case False
    with IH show ?thesis by (simp split: option.split buffer_event.split)
  next
    case c: True
    show ?thesis
    proof (cases "parse_think_tag (c # s)")
      case (Some kr)
      obtain k r where kr: "kr = (k, r)" by force
      have "parse_think_tag ((c # s) @ b) = Some (k, r @ b)"
        using Some kr by (intro parse_think_tag_append) simp
      with Some kr c IH show ?thesis by (cases inside) (simp_all split: option.split buffer_event.split)
    next
      case None
      show ?thesis
      proof (cases "holds (c # s)")
        case True
        with None c show ?thesis by (simp add: holds_def is_possible_partial_think_tag_def)
      next
        case False
        have "parse_think_tag ((c # s) @ b) = None"
          using cut_tag_holds [OF _ None _ nl] False by (cases "parse_think_tag ((c # s) @ b)") auto
        moreover have "\<not> holds ((c # s) @ b)"
          using holds_shrinks [of "c # s" b] nl False by auto
        ultimately have "next_event inside pre (c # s @ b) = next_event inside (pre @ [c]) (s @ b)"
          "next_event inside pre (c # s) = next_event inside (pre @ [c]) s"
          using None c False by (auto simp: holds_def is_possible_partial_think_tag_def)
        with IH show ?thesis by (simp split: option.split buffer_event.split del: next_event.simps)
      qed
    qed
  qed
qed simp

lemma scan_open_suffix: "scan_open q l s = Some (k, r) \<Longrightarrow> suffix r s"
  by (induction q l s rule: scan_open.induct)
    (auto split: option.splits if_splits simp: suffix_ConsI)

lemma parse_think_tag_suffix:
  assumes "parse_think_tag s = Some (k, r)"
  shows "suffix r s"
proof -
  obtain c t where s: "s = c # t" using assms by (cases s) (auto simp: parse_think_tag_def)
  have b: "suffix (tag_body t) t"
    by (cases t) (auto simp: tag_body_def suffix_def tag_close_def intro: exI [of _ "[47]"])
  have t: "suffix (tag_rest t) t"
    using b suffix_dropWhile [of is_ascii_alphabetic "tag_body t"] suffix_order.trans
    unfolding tag_rest_def by blast
  have "suffix r (tag_rest t)"
  proof (cases "tag_close t")
    case True
    with assms have "dropWhile is_ascii_whitespace (tag_rest t) = 62 # r"
      by (auto simp: s parse_think_tag_alt split: if_splits list.splits)
    with suffix_dropWhile [of is_ascii_whitespace "tag_rest t"] show ?thesis
      by (metis suffix_ConsD)
  next
    case False
    with assms show ?thesis
      by (auto simp: s parse_think_tag_alt split: if_splits dest: scan_open_suffix)
  qed
  with t s show ?thesis by (meson suffix_ConsI suffix_order.trans)
qed

lemma next_event_tag_suffix: "next_event inside pre s = Some (TagEvent p k r) \<Longrightarrow> suffix r s"
  by (induction inside pre s rule: next_event.induct)
    (auto split: if_splits option.splits dest: parse_think_tag_suffix simp: suffix_ConsI)

lemma next_event_parts: "next_event inside pre s = Some (PartialEvent p h) \<Longrightarrow> p @ h = pre @ s"
  by (induction inside pre s rule: next_event.induct) (auto split: if_splits option.splits)

lemma emit_append: "emit i (p @ q) out = emit i q (emit i p out)"
  by (simp add: emit_def)

lemma process_buffer_before:
  assumes "next_buffer_event (p @ u) (inside_think f) = map_option (add_before p) (next_buffer_event u (inside_think f))"
  shows "process_buffer out (f\<lparr>buffer := p @ u\<rparr>) = process_buffer (emit (inside_think f) p out) (f\<lparr>buffer := u\<rparr>)"
proof (cases "next_buffer_event u (inside_think f)")
  case None
  with assms show ?thesis
    by (simp add: process_buffer.simps [of _ "f\<lparr>buffer := p @ u\<rparr>"] process_buffer.simps [of _ "f\<lparr>buffer := u\<rparr>"] emit_append)
next
  case (Some e)
  have et: "enter_tag k r (f\<lparr>buffer := x\<rparr>) = enter_tag k r f" for k r x
    by (simp add: enter_tag_def split: think_tag.splits)
  from Some assms et show ?thesis
    by (cases e)
      (simp_all add: process_buffer.simps [of _ "f\<lparr>buffer := p @ u\<rparr>"] process_buffer.simps [of _ "f\<lparr>buffer := u\<rparr>"] emit_append)
qed

lemma process_buffer_append:
  assumes "cut_ok (buffer f)" and "process_buffer out f = (f1, o1)"
  shows "process_buffer out (f\<lparr>buffer := buffer f @ b\<rparr>) = process_buffer o1 (f1\<lparr>buffer := buffer f1 @ b\<rparr>)"
  using assms
proof (induction out f rule: process_buffer.induct)
  case (1 out f)
  let ?i = "inside_think f" and ?s = "buffer f"
  note ap = next_event_append [OF "1.prems"(1), of ?i "[]" b, folded next_buffer_event_def]
  show ?case
  proof (cases "next_buffer_event ?s ?i")
    case None
    then have r: "f1 = f\<lparr>buffer := []\<rparr>" "o1 = emit ?i ?s out"
      using "1.prems"(2) by (simp_all add: process_buffer.simps [of out f])
    have "next_buffer_event (?s @ b) ?i = map_option (add_before ?s) (next_buffer_event b ?i)"
      using ap None next_event_before [of ?i ?s "[]" b] by (simp add: next_buffer_event_def)
    from process_buffer_before [of ?s b f, OF this] r show ?thesis by simp
  next
    case (Some e)
    show ?thesis
    proof (cases e)
      case (TagEvent p k r)
      have pr: "process_buffer (emit ?i p out) (enter_tag k r f) = (f1, o1)"
        using "1.prems"(2) Some TagEvent by (simp add: process_buffer.simps [of out f])
      have "suffix r ?s" using Some TagEvent by (simp add: next_buffer_event_def next_event_tag_suffix)
      then have ok: "cut_ok (buffer (enter_tag k r f))"
        using "1.prems"(1) cut_ok_suffix by (simp add: enter_tag_def split: think_tag.splits)
      have e: "enter_tag k (r @ b) (f\<lparr>buffer := ?s @ b\<rparr>)
          = (enter_tag k r f)\<lparr>buffer := buffer (enter_tag k r f) @ b\<rparr>"
        by (simp add: enter_tag_def split: think_tag.splits)
      from "1.IH" [OF Some TagEvent ok pr] ap Some TagEvent e show ?thesis
        by (simp add: process_buffer.simps [of out "f\<lparr>buffer := ?s @ b\<rparr>"])
    next
      case (PartialEvent p h)
      then have r: "f1 = f\<lparr>buffer := h\<rparr>" "o1 = emit ?i p out"
        using "1.prems"(2) Some by (simp_all add: process_buffer.simps [of out f])
      have s: "?s = p @ h" using next_event_parts Some PartialEvent by (fastforce simp: next_buffer_event_def)
      have "next_buffer_event (?s @ b) ?i = map_option (add_before p) (next_buffer_event (h @ b) ?i)"
        using ap Some PartialEvent next_event_before [of ?i p "[]" "h @ b"] by (simp add: next_buffer_event_def)
      with process_buffer_before [of p "h @ b" f] r s show ?thesis by simp
    qed
  qed
qed

lemma join_out_assoc: "join_out (join_out a b) c = join_out a (join_out b c)"
  by (simp add: join_out_def)

lemma join_no_output [simp]: "join_out a no_output = a" "join_out no_output a = a"
  by (simp_all add: join_out_def no_output_def)

lemma emit_join: "emit i t (join_out a b) = join_out a (emit i t b)"
  by (simp add: emit_def join_out_def)

lemma process_buffer_join:
  "process_buffer (join_out a out) f = (fst (process_buffer out f), join_out a (snd (process_buffer out f)))"
proof (induction out f rule: process_buffer.induct)
  case (1 out f)
  show ?case
  proof (cases "next_buffer_event (buffer f) (inside_think f)")
    case None
    then show ?thesis
      by (simp add: process_buffer.simps [of out f] process_buffer.simps [of "join_out a out" f] emit_join)
  next
    case (Some e)
    with 1 show ?thesis
      by (cases e)
        (simp_all add: process_buffer.simps [of out f] process_buffer.simps [of "join_out a out" f] emit_join)
  qed
qed

text \<open>A stream: the chunks are pushed in turn and what they give is collected; then it is finished.\<close>

definition push_chunks :: "str list \<Rightarrow> think_filter \<times> filter_out" where
  "push_chunks cs = foldl (\<lambda>(f, out) c. let (f', out') = push_chunk f c in (f', join_out out out'))
     (new_filter, no_output) cs"

definition stream_think_blocks :: "str list \<Rightarrow> str \<times> str" where
  "stream_think_blocks cs = (let (f, out) = push_chunks cs; all = join_out out (finish_filter f)
     in (out_content all, out_thinking all))"

lemma push_chunks_whole:
  assumes "list_all (\<lambda>k. cut_ok (concat (take k cs))) [0..<length cs]"
  shows "push_chunks cs = push_chunk new_filter (concat cs)"
  using assms
proof (induction cs rule: rev_induct)
  case Nil
  then show ?case
    by (simp add: push_chunks_def push_chunk_def process_buffer.simps new_filter_def next_buffer_event_def
        emit_def no_output_def)
next
  case (snoc c cs)
  have ok: "cut_ok (concat cs)" using snoc.prems by simp
  have "list_all (\<lambda>k. cut_ok (concat (take k cs))) [0..<length cs]"
    using snoc.prems by (simp add: list_all_iff)
  from snoc.IH [OF this] have IH: "push_chunks cs = push_chunk new_filter (concat cs)" .
  obtain f out where f: "push_chunk new_filter (concat cs) = (f, out)" by force
  have "process_buffer no_output (new_filter\<lparr>buffer := concat cs @ c\<rparr>)
      = process_buffer out (f\<lparr>buffer := buffer f @ c\<rparr>)"
    using process_buffer_append [of "new_filter\<lparr>buffer := concat cs\<rparr>" no_output f out c] ok f
    by (simp add: push_chunk_def new_filter_def)
  also have "\<dots> = (fst (push_chunk f c), join_out out (snd (push_chunk f c)))"
    using process_buffer_join [of out no_output "f\<lparr>buffer := buffer f @ c\<rparr>"] by (simp add: push_chunk_def)
  finally have "push_chunk new_filter (concat cs @ c) = (fst (push_chunk f c), join_out out (snd (push_chunk f c)))"
    by (simp add: push_chunk_def new_filter_def)
  with IH f show ?case by (simp add: push_chunks_def split: prod.splits)
qed


section \<open>Properties\<close>

text \<open>
  C26. However a stream is cut into chunks, provided no chunk ends in one of the tails the filter
  overlooks, streaming it separates reasoning and answer exactly as the whole text is separated.
\<close>
theorem stream_think_blocks_whole:
  assumes "list_all (\<lambda>k. cut_ok (concat (take k cs))) [0..<length cs]"
  shows "stream_think_blocks cs = split_think_blocks (concat cs)"
  using push_chunks_whole [OF assms]
  by (simp add: stream_think_blocks_def split_think_blocks_def)

theorem stream_think_blocks_whole_witness:
  "stream_think_blocks [lit ''a<thi'', lit ''nk>s</th'', lit ''ink>b''] = split_think_blocks (lit ''a<think>s</think>b'')"
proof -
  have "list_all (\<lambda>k. cut_ok (concat (take k [lit ''a<thi'', lit ''nk>s</th'', lit ''ink>b''])))
      [0..<length [lit ''a<thi'', lit ''nk>s</th'', lit ''ink>b'']]"
    by (simp add: upt_rec cut_ok_def loose_def is_think_name_cases to_ascii_lowercase_def
        is_ascii_alphabetic_def ascii_lower_def Let_def is_quote_def)
  from stream_think_blocks_whole [OF this] show ?thesis by simp
qed

text \<open>The state of the filter between chunks.\<close>

definition filter_ok :: "think_filter \<Rightarrow> bool" where
  "filter_ok f = (inside_think f = (0 < think_depth f))"

lemma enter_tag_ok: "filter_ok f \<Longrightarrow> filter_ok (enter_tag k r f)"
  by (auto simp: filter_ok_def enter_tag_def split: think_tag.splits)

lemma next_event_holds: "next_event inside pre s = Some (PartialEvent p h) \<Longrightarrow> holds h"
  by (induction inside pre s rule: next_event.induct)
    (auto simp: holds_def is_possible_partial_think_tag_def split: if_splits option.splits)

lemma process_buffer_ok:
  "filter_ok f \<Longrightarrow> process_buffer out f = (f', out') \<Longrightarrow> filter_ok f' \<and> (buffer f' = [] \<or> holds (buffer f'))"
proof (induction out f rule: process_buffer.induct)
  case (1 out f)
  show ?case
  proof (cases "next_buffer_event (buffer f) (inside_think f)")
    case None
    with "1.prems" show ?thesis by (auto simp: process_buffer.simps [of out f] filter_ok_def)
  next
    case (Some e)
    show ?thesis
    proof (cases e)
      case (TagEvent p k r)
      with Some "1.prems" "1.IH" [OF Some TagEvent] show ?thesis
        by (simp add: process_buffer.simps [of out f] enter_tag_ok)
    next
      case (PartialEvent p h)
      with Some "1.prems" show ?thesis
        by (auto simp: process_buffer.simps [of out f] filter_ok_def next_buffer_event_def dest: next_event_holds)
    qed
  qed
qed

text \<open>
  Between chunks the filter is inside a block exactly when the depth of open tags is positive, and it
  holds back nothing but a tail that may still become a tag.
\<close>
lemma push_chunks_state:
  "filter_ok (fst (push_chunks cs)) \<and> (buffer (fst (push_chunks cs)) = [] \<or> is_possible_partial_think_tag (buffer (fst (push_chunks cs))))"
proof (induction cs rule: rev_induct)
  case Nil
  then show ?case by (simp add: push_chunks_def new_filter_def filter_ok_def)
next
  case (snoc c cs)
  obtain f out where f: "push_chunks cs = (f, out)" by force
  obtain f' out' where f': "push_chunk f c = (f', out')" by force
  have "filter_ok (f\<lparr>buffer := buffer f @ c\<rparr>)" using snoc.IH f by (simp add: filter_ok_def)
  from process_buffer_ok [OF this] f' have "filter_ok f' \<and> (buffer f' = [] \<or> holds (buffer f'))"
    by (simp add: push_chunk_def)
  moreover have "push_chunks (cs @ [c]) = (f', join_out out out')"
    using f f' by (simp add: push_chunks_def)
  ultimately show ?case by (simp add: holds_def)
qed

text \<open>A text without \<open><\<close> is all answer, and none of it is held back.\<close>

lemma next_event_plain: "60 \<notin> set s \<Longrightarrow> next_event inside pre s = None"
  by (induction s arbitrary: pre) auto

lemma split_think_blocks_plain: "60 \<notin> set s \<Longrightarrow> split_think_blocks s = (s, [])"
  by (simp add: split_think_blocks_def push_chunk_def finish_filter_def process_buffer.simps
      new_filter_def next_buffer_event_def next_event_plain emit_def no_output_def join_out_def)

lemmas think_eval = push_chunks_def push_chunk_def finish_filter_def process_buffer.simps new_filter_def
  next_buffer_event_def emit_def no_output_def join_out_def parse_think_tag_alt tag_close_def tag_body_def
  tag_name_def tag_rest_def is_think_name_cases to_ascii_lowercase_def is_ascii_alphabetic_def ascii_lower_def
  is_ascii_whitespace_def is_possible_partial_think_tag_def contains_unquoted_gt_def open_re_def close_re_def
  same_letter_def is_quote_def enter_tag_def Let_def is_ws_def

text \<open>A chunk that ends in a lone \<open><\<close> lets the reasoning through as answer.\<close>

lemma lone_bracket_leaks:
  "stream_think_blocks [lit ''<'', lit ''think>s</think>b''] = (lit ''<think>s</think>b'', [])
   \<and> split_think_blocks (lit ''<think>s</think>b'') = (lit ''b'', lit ''s'')"
  by (simp add: stream_think_blocks_def split_think_blocks_def think_eval)

text \<open>So does a chunk that ends in the attributes after \<open><think/\<close>.\<close>

lemma slash_attributes_leak:
  "stream_think_blocks [lit ''<think/ '', lit ''a>s</think>b''] = (lit ''<think/ a>s</think>b'', [])
   \<and> split_think_blocks (lit ''<think/ a>s</think>b'') = (lit ''b'', lit ''s'')"
  by (simp add: stream_think_blocks_def split_think_blocks_def think_eval)

text \<open>The names of the effort levels parse back.\<close>

lemma parse_show_effort:
  assumes "\<And>e. lower (show_effort e) = show_effort e"
  shows "parse_effort lower (show_effort e) = Ok e"
  using assms [of e] by (cases e) (simp_all add: parse_effort_def show_effort_def)

end
