(* ===== verification/StreamingBuffer.thy ===== *)
theory StreamingBuffer
  imports Prelude
begin

text \<open>
  The buffer that holds back unfinished markdown while an answer streams to the terminal
  (\<open>bharatcode-cli/src/session/streaming_buffer.rs\<close>), and the truncation of long code blocks in what
  it lets through. Positions are numbers of characters; the positions the code computes are byte
  offsets of ASCII characters or ends of tokens, so both name the same place.
\<close>

section \<open>Searching\<close>

text \<open>\<open>str::find\<close> with a string pattern.\<close>

fun find_str :: "str \<Rightarrow> str \<Rightarrow> nat option" where
  "find_str [] p = (if p = [] then Some 0 else None)"
| "find_str (c # s) p = (if starts_with (c # s) p then Some 0 else map_option Suc (find_str s p))"

text \<open>\<open>str::find\<close> with a character.\<close>

definition find_char :: "uchar \<Rightarrow> str \<Rightarrow> nat option" where
  "find_char c s = (if c \<in> set s then Some (length (takeWhile (\<lambda>x. x \<noteq> c) s)) else None)"

definition run_length :: "uchar \<Rightarrow> str \<Rightarrow> nat" where
  "run_length c s = length (takeWhile (\<lambda>x. x = c) s)"

section \<open>Truncating long code blocks\<close>

definition DEFAULT_MAX_CODE_BLOCK_LINES :: nat where "DEFAULT_MAX_CODE_BLOCK_LINES = 50"
definition DEFAULT_TRUNCATED_SHOW_LINES :: nat where "DEFAULT_TRUNCATED_SHOW_LINES = 20"

definition parse_positive_lines :: "str \<Rightarrow> nat option" where
  "parse_positive_lines v = (case parse_unsigned (2 ^ 64 - 1) v of
     Some n \<Rightarrow> if 0 < n then Some n else None | None \<Rightarrow> None)"

type_synonym environment = "str \<Rightarrow> str option"

definition max_code_block_lines :: "environment \<Rightarrow> nat option" where
  "max_code_block_lines env =
     (if (case env (lit ''BHARATCODE_NO_CODE_TRUNCATION'') of
            Some v \<Rightarrow> v = lit ''1'' \<or> eq_ignore_ascii_case v (lit ''true'') | None \<Rightarrow> False)
      then None
      else Some (case Option.bind (env (lit ''BHARATCODE_MAX_CODE_BLOCK_LINES'')) parse_positive_lines of
            Some n \<Rightarrow> n | None \<Rightarrow> DEFAULT_MAX_CODE_BLOCK_LINES))"

definition truncated_show_lines :: "environment \<Rightarrow> nat" where
  "truncated_show_lines env =
     (case Option.bind (env (lit ''BHARATCODE_TRUNCATED_SHOW_LINES'')) parse_positive_lines of
        Some n \<Rightarrow> n | None \<Rightarrow> DEFAULT_TRUNCATED_SHOW_LINES)"

definition find_opening_fence :: "str \<Rightarrow> (nat \<times> uchar \<times> nat) option" where
  "find_opening_fence content =
     (case (case (find_str content (lit ''```''), find_str content (lit ''~~~'')) of
         (Some a, Some b) \<Rightarrow> if a \<le> b then Some (a, 96) else Some (b, 126)
       | (Some a, None) \<Rightarrow> Some (a, 96)
       | (None, Some b) \<Rightarrow> Some (b, 126)
       | (None, None) \<Rightarrow> None) of
        Some (pos, ch) \<Rightarrow> Some (pos, ch, run_length ch (drop pos content)) | None \<Rightarrow> None)"

text \<open>The text of a line, up to its line feed or the end.\<close>

definition first_line :: "str \<Rightarrow> str" where
  "first_line s = takeWhile (\<lambda>c. c \<noteq> newline) s"

definition closes_fence :: "uchar \<Rightarrow> nat \<Rightarrow> str \<Rightarrow> bool" where
  "closes_fence fence_char min_len line = (let fence_count = run_length fence_char line in
     min_len \<le> fence_count \<and> trim (first_line (drop fence_count line)) = [])"

fun find_closing_fence :: "str \<Rightarrow> uchar \<Rightarrow> nat \<Rightarrow> nat option" where
  "find_closing_fence [] fence_char min_len = None"
| "find_closing_fence (c # region) fence_char min_len =
     (if c = newline \<and> closes_fence fence_char min_len region then Some 0
      else map_option Suc (find_closing_fence region fence_char min_len))"

text \<open>
  The parts of the first code block: the text up to its first line, its lines up to the line feed
  before the closing fence, and the rest from the closing fence on.
\<close>

definition code_block :: "str \<Rightarrow> (str \<times> str \<times> str) option" where
  "code_block content = (case find_opening_fence content of None \<Rightarrow> None
   | Some (open_pos, fence_char, fence_len) \<Rightarrow>
       let after_fence = open_pos + fence_len in
       (case find_char newline (drop after_fence content) of None \<Rightarrow> None
        | Some newline_pos \<Rightarrow>
            let code_start = after_fence + newline_pos + 1; code_region = drop code_start content in
            (case find_closing_fence code_region fence_char fence_len of None \<Rightarrow> None
             | Some close_offset \<Rightarrow>
                 Some (take code_start content, take close_offset code_region,
                   drop (code_start + close_offset + 1) content))))"

text \<open>\<open>save\<close> is the creation of the temporary file: the path of the file written, if it could be.\<close>

definition truncation_note :: "(str \<Rightarrow> str option) \<Rightarrow> str \<Rightarrow> nat \<Rightarrow> str" where
  "truncation_note save code remaining = lit ''... ('' @ show_nat remaining @ lit '' more lines''
     @ (case save code of Some p \<Rightarrow> [32, 8594, 32] @ p | None \<Rightarrow> []) @ lit '')''"

definition truncate_code_blocks_with :: "(str \<Rightarrow> str option) \<Rightarrow> str \<Rightarrow> nat \<Rightarrow> nat \<Rightarrow> str" where
  "truncate_code_blocks_with save content max_lines show_lines =
     (case code_block content of None \<Rightarrow> content
      | Some (before, code, rest) \<Rightarrow>
          let lines = str_lines code in
          if length lines \<le> max_lines then content
          else
            let shown = min (min show_lines max_lines) (length lines);
                truncated = join_with [newline] (take shown lines)
            in before @ truncated @ [newline] @ truncation_note save code (length lines - shown)
                 @ [newline] @ rest)"

definition truncate_code_blocks :: "environment \<Rightarrow> (str \<Rightarrow> str option) \<Rightarrow> str \<Rightarrow> str" where
  "truncate_code_blocks env save content = (case max_code_block_lines env of None \<Rightarrow> content
     | Some max_lines \<Rightarrow> truncate_code_blocks_with save content max_lines (truncated_show_lines env))"

section \<open>Tokens of a line\<close>

text \<open>The alternatives of the regular expression in their order; the first that matches wins.\<close>

definition is_special :: "uchar \<Rightarrow> bool" where
  "is_special c = (c \<in> {92, 42, 95, 96, 126, 91, 93, 33, 40, 41})"

definition token_length :: "str \<Rightarrow> nat" where
  "token_length s = (case s of [] \<Rightarrow> 0 | c # r \<Rightarrow>
     if c = 92 \<and> r \<noteq> [] \<and> hd r \<noteq> newline then 2
     else if c = 96 then run_length 96 s
     else if starts_with s (lit ''***'') then 3
     else if starts_with s (lit ''**'') then 2
     else if c = 42 then 1
     else if starts_with s (lit ''___'') then 3
     else if starts_with s (lit ''__'') then 2
     else if c = 95 then 1
     else if starts_with s (lit ''~~'') then 2
     else if starts_with s (lit ''!['') then 2
     else if starts_with s (lit '']('') then 2
     else if c \<in> {91, 93, 41} then 1
     else if \<not> is_special c then length (takeWhile (\<lambda>x. \<not> is_special x) s)
     else 1)"

lemma run_length_pos: "s \<noteq> [] \<Longrightarrow> hd s = c \<Longrightarrow> 0 < run_length c s"
  by (cases s) (auto simp: run_length_def)

lemma token_length_pos: "s \<noteq> [] \<Longrightarrow> 0 < token_length s"
  using run_length_pos [of s 96] by (cases s) (auto simp: token_length_def)

function tokens :: "str \<Rightarrow> str list" where
  "tokens [] = []"
| "tokens (c # s) = take (token_length (c # s)) (c # s) # tokens (drop (token_length (c # s)) (c # s))"
  by pat_completeness auto
termination
  by (relation "measure length") (use token_length_pos in \<open>auto simp: diff_less\<close>)

section \<open>The state of the scan\<close>

record parse_state =
  in_code_block :: bool
  code_fence_char :: uchar
  code_fence_len :: nat
  in_table :: bool
  pending_heading :: bool
  in_inline_code :: bool
  inline_code_len :: nat
  in_bold :: bool
  in_italic :: bool
  in_strikethrough :: bool
  in_link_text :: bool
  in_link_url :: bool
  in_image_alt :: bool

definition default_state :: parse_state where
  "default_state = \<lparr>in_code_block = False, code_fence_char = 0, code_fence_len = 0, in_table = False,
     pending_heading = False, in_inline_code = False, inline_code_len = 0, in_bold = False,
     in_italic = False, in_strikethrough = False, in_link_text = False, in_link_url = False,
     in_image_alt = False\<rparr>"

definition is_clean :: "parse_state \<Rightarrow> bool" where
  "is_clean st = (\<not> in_code_block st \<and> \<not> in_table st \<and> \<not> pending_heading st \<and> \<not> in_inline_code st
     \<and> \<not> in_bold st \<and> \<not> in_italic st \<and> \<not> in_strikethrough st \<and> \<not> in_link_text st
     \<and> \<not> in_link_url st \<and> \<not> in_image_alt st)"

text \<open>The three marks of emphasis toggle together.\<close>

definition toggle_both :: "parse_state \<Rightarrow> parse_state" where
  "toggle_both st =
     (if in_bold st \<and> in_italic st then st\<lparr>in_bold := False, in_italic := False\<rparr>
      else if in_bold st then st\<lparr>in_italic := \<not> in_italic st\<rparr>
      else if in_italic st then st\<lparr>in_bold := \<not> in_bold st\<rparr>
      else st\<lparr>in_bold := True, in_italic := True\<rparr>)"

definition process_inline_token :: "parse_state \<Rightarrow> str \<Rightarrow> parse_state" where
  "process_inline_token st t =
     (if starts_with t [92] \<and> length t = 2 then st
      else if starts_with t [96] then
        (if in_inline_code st then
           (if length t = inline_code_len st then st\<lparr>in_inline_code := False, inline_code_len := 0\<rparr> else st)
         else st\<lparr>in_inline_code := True, inline_code_len := length t\<rparr>)
      else if in_inline_code st then st
      else if t = lit ''***'' \<or> t = lit ''___'' then toggle_both st
      else if t = lit ''**'' \<or> t = lit ''__'' then st\<lparr>in_bold := \<not> in_bold st\<rparr>
      else if t = lit ''*'' \<or> t = lit ''_'' then st\<lparr>in_italic := \<not> in_italic st\<rparr>
      else if t = lit ''~~'' then st\<lparr>in_strikethrough := \<not> in_strikethrough st\<rparr>
      else if t = lit ''!['' then st\<lparr>in_image_alt := True\<rparr>
      else if t = lit ''['' then
        (if \<not> in_link_text st \<and> \<not> in_image_alt st then st\<lparr>in_link_text := True\<rparr> else st)
      else if t = lit ''](''  then
        (if in_link_text st then st\<lparr>in_link_text := False, in_link_url := True\<rparr>
         else if in_image_alt st then st\<lparr>in_image_alt := False, in_link_url := True\<rparr> else st)
      else if t = lit '')'' then (if in_link_url st then st\<lparr>in_link_url := False\<rparr> else st)
      else st)"

text \<open>The length of the fence line, through its line feed.\<close>

definition line_through :: "str \<Rightarrow> nat" where
  "line_through s = (case find_char newline s of Some n \<Rightarrow> n + 1 | None \<Rightarrow> length s)"

definition check_code_fence :: "str \<Rightarrow> parse_state \<Rightarrow> parse_state \<times> nat option" where
  "check_code_fence line st = (case trim_start line of [] \<Rightarrow> (st, None)
   | fence_char # r \<Rightarrow>
       if fence_char \<noteq> 96 \<and> fence_char \<noteq> 126 then (st, None)
       else (let fence_len = run_length fence_char (fence_char # r);
                 after_fence = drop fence_len (fence_char # r)
             in if fence_len < 3 then (st, None)
                else if in_code_block st then
                  (if fence_char = code_fence_char st \<and> code_fence_len st \<le> fence_len
                      \<and> (after_fence = [] \<or> hd after_fence = newline \<or> trim after_fence = [])
                   then (st\<lparr>in_code_block := False, code_fence_char := 0, code_fence_len := 0\<rparr>,
                         Some (line_through line))
                   else (st, None))
                else (st\<lparr>in_code_block := True, code_fence_char := fence_char, code_fence_len := fence_len\<rparr>,
                      Some (line_through line))))"

text \<open>Whether the line opens a heading: one to six marks, then a blank, a line feed or the end.\<close>

definition opens_heading :: "str \<Rightarrow> bool" where
  "opens_heading s = (starts_with s [35] \<and> run_length 35 s \<le> 6
     \<and> (let after_hashes = drop (run_length 35 s) s in
          after_hashes = [] \<or> hd after_hashes = 32 \<or> hd after_hashes = newline))"

definition process_line_start :: "parse_state \<Rightarrow> str \<Rightarrow> parse_state \<times> nat option" where
  "process_line_start st remaining =
     (case check_code_fence remaining (st\<lparr>pending_heading := False\<rparr>) of
        (st1, Some n) \<Rightarrow> (st1, Some n)
      | (st1, None) \<Rightarrow>
          if in_code_block st1 then (st1, None)
          else if opens_heading remaining then (st1\<lparr>pending_heading := True\<rparr>, None)
          else if starts_with remaining [124] then (st1\<lparr>in_table := True\<rparr>, None)
          else if (starts_with remaining [newline] \<or> remaining = []) \<and> in_table st1
          then (st1\<lparr>in_table := False\<rparr>, Some 1)
          else (st1\<lparr>in_table := False\<rparr>, None))"

section \<open>The safe end\<close>

text \<open>
  The tokens of a line from position \<open>pos\<close> on, with the last position at which nothing was open.
\<close>

fun scan_tokens :: "parse_state \<Rightarrow> nat \<Rightarrow> nat \<Rightarrow> str list \<Rightarrow> parse_state \<times> nat" where
  "scan_tokens st last_safe pos [] = (st, last_safe)"
| "scan_tokens st last_safe pos (t # ts) =
     (let st1 = process_inline_token st t; pos1 = pos + length t
      in scan_tokens st1 (if is_clean st1 then pos1 else last_safe) pos1 ts)"

definition scan_line :: "parse_state \<Rightarrow> nat \<Rightarrow> nat \<Rightarrow> str \<Rightarrow> parse_state \<times> nat" where
  "scan_line st last_safe pos line =
     (let (st1, safe1) = scan_tokens st last_safe pos (tokens line)
      in if line \<noteq> [] \<and> last line = newline then
           (let st2 = st1\<lparr>pending_heading := False\<rparr>
            in (st2, if is_clean st2 then pos + length line else safe1))
         else (st1, safe1))"

lemma line_through_pos: "s \<noteq> [] \<Longrightarrow> 0 < line_through s"
  by (simp add: line_through_def split: option.splits)

lemma check_code_fence_pos: "check_code_fence s st = (st', Some n) \<Longrightarrow> 0 < n"
  by (cases s) (auto simp: check_code_fence_def line_through_pos Let_def split: list.splits if_splits)

lemma process_line_start_pos: "process_line_start st s = (st', Some n) \<Longrightarrow> 0 < n"
  by (auto simp: process_line_start_def split: prod.splits option.splits if_splits
      dest!: check_code_fence_pos)

text \<open>One turn of the loop at a position inside the buffer: the state, the last safe position, the next position.\<close>

definition scan_step :: "str \<Rightarrow> parse_state \<Rightarrow> nat \<Rightarrow> nat \<Rightarrow> parse_state \<times> nat \<times> nat" where
  "scan_step buf st last_safe pos =
     (let remaining = drop pos buf;
          at_line_start = (pos = 0 \<or> buf ! (pos - 1) = newline);
          (st1, jump) = (if at_line_start then process_line_start st remaining else (st, None))
      in (case jump of
            Some n \<Rightarrow> (st1, if is_clean st1 then pos + n else last_safe, pos + n)
          | None \<Rightarrow>
              if in_code_block st1 then (st1, last_safe, pos + line_through remaining)
              else
                let (st2, safe2) = scan_line st1 last_safe pos (take (line_through remaining) remaining)
                in (st2, safe2, pos + line_through remaining)))"

lemma scan_step_advances:
  assumes "scan_step buf st last_safe pos = (st', safe', pos')" and "pos < length buf"
  shows "pos < pos'"
  using assms line_through_pos [of "drop pos buf"] process_line_start_pos [of st "drop pos buf"]
  by (auto simp: scan_step_def Let_def split: prod.splits option.splits if_splits)

function find_safe_from :: "str \<Rightarrow> parse_state \<Rightarrow> nat \<Rightarrow> nat \<Rightarrow> nat" where
  "find_safe_from buf st last_safe pos =
     (if length buf \<le> pos then last_safe
      else (case scan_step buf st last_safe pos of
        (st', safe', pos') \<Rightarrow> find_safe_from buf st' safe' pos'))"
  by pat_completeness auto
termination
  by (relation "measure (\<lambda>(buf, st, last_safe, pos). length buf - pos)")
    (auto simp: not_le dest: scan_step_advances split: prod.splits intro!: diff_less_mono2)

declare find_safe_from.simps [simp del]

definition find_safe_end :: "str \<Rightarrow> nat" where
  "find_safe_end buf = find_safe_from buf default_state 0 0"

section \<open>The buffer\<close>

record markdown_buffer =
  md_buffer :: str

definition markdown_new :: markdown_buffer where
  "markdown_new = \<lparr>md_buffer = []\<rparr>"

definition markdown_push ::
    "environment \<Rightarrow> (str \<Rightarrow> str option) \<Rightarrow> markdown_buffer \<Rightarrow> str \<Rightarrow> markdown_buffer \<times> str option" where
  "markdown_push env save m chunk =
     (let buf = md_buffer m @ chunk; safe_end = find_safe_end buf
      in if 0 < safe_end
         then (\<lparr>md_buffer = drop safe_end buf\<rparr>, Some (truncate_code_blocks env save (take safe_end buf)))
         else (\<lparr>md_buffer = buf\<rparr>, None))"

definition markdown_flush :: "markdown_buffer \<Rightarrow> markdown_buffer \<times> str" where
  "markdown_flush m = (\<lparr>md_buffer = []\<rparr>, md_buffer m)"

section \<open>Nothing is lost\<close>

lemma concat_tokens: "concat (tokens s) = s"
  by (induction s rule: tokens.induct) auto

lemma line_through_le: "line_through s \<le> length s"
proof (cases "newline \<in> set s")
  case True
  then have "1 \<le> length (dropWhile (\<lambda>x. x \<noteq> newline) s)" by (auto simp: Suc_le_eq dropWhile_eq_Nil_conv)
  moreover have "length s = length (takeWhile (\<lambda>x. x \<noteq> newline) s) + length (dropWhile (\<lambda>x. x \<noteq> newline) s)"
    by (metis length_append takeWhile_dropWhile_id)
  ultimately show ?thesis using True by (simp add: line_through_def find_char_def del: length_greater_0_conv)
qed (simp add: line_through_def find_char_def)

lemma check_code_fence_le: "check_code_fence s st = (st', Some n) \<Longrightarrow> n \<le> length s"
  by (auto simp: check_code_fence_def line_through_le Let_def split: list.splits if_splits)

lemma process_line_start_le: "process_line_start st s = (st', Some n) \<Longrightarrow> s \<noteq> [] \<Longrightarrow> n \<le> length s"
  by (cases s) (auto simp: process_line_start_def split: prod.splits option.splits if_splits
      dest!: check_code_fence_le)

lemma scan_tokens_le: "snd (scan_tokens st last_safe pos ts) \<le> max last_safe (pos + length (concat ts))"
proof (induction ts arbitrary: st last_safe pos)
  case (Cons t ts)
  from Cons.IH [of "process_inline_token st t" "pos + length t" "pos + length t"]
    Cons.IH [of "process_inline_token st t" last_safe "pos + length t"]
  show ?case by (auto simp: Let_def)
qed simp

lemma scan_line_le: "snd (scan_line st last_safe pos line) \<le> max last_safe (pos + length line)"
  using scan_tokens_le [of st last_safe pos "tokens line"]
  by (auto simp: scan_line_def Let_def concat_tokens split: prod.splits)

lemma scan_step_le:
  assumes "scan_step buf st last_safe pos = (st', safe', pos')" and "pos < length buf" and "last_safe \<le> length buf"
  shows "safe' \<le> length buf \<and> pos' \<le> length buf"
proof -
  let ?r = "drop pos buf"
  let ?line = "take (line_through ?r) ?r"
  have "line_through ?r \<le> length ?r" by (rule line_through_le)
  moreover have "snd (scan_line st1 last_safe pos ?line) \<le> max last_safe (pos + length ?line)" for st1
    by (rule scan_line_le)
  moreover have "n \<le> length ?r" if "process_line_start st ?r = (st1, Some n)" for st1 n
    using process_line_start_le [OF that] assms(2) by simp
  ultimately show ?thesis
    using assms
    by (auto simp: scan_step_def Let_def split: prod.splits option.splits if_splits)
      (metis (no_types, lifting) fst_conv snd_conv add.commute le_diff_conv2 less_imp_le max.bounded_iff le_trans)+
qed

lemma find_safe_from_done: "length buf \<le> pos \<Longrightarrow> find_safe_from buf st safe pos = safe"
  by (simp add: find_safe_from.simps)

lemma find_safe_from_step:
  "scan_step buf st safe pos = (st', safe', pos') \<Longrightarrow> pos < length buf \<Longrightarrow>
     find_safe_from buf st safe pos = find_safe_from buf st' safe' pos'"
  by (simp add: find_safe_from.simps [of buf st safe pos])

lemma last_before: "pre \<noteq> [] \<Longrightarrow> (pre @ r) ! (length pre - 1) = last pre"
  by (simp add: nth_append last_conv_nth)

lemma find_safe_from_le: "last_safe \<le> length buf \<Longrightarrow> find_safe_from buf st last_safe pos \<le> length buf"
proof (induction buf st last_safe pos rule: find_safe_from.induct)
  case (1 buf st last_safe pos)
  obtain st' safe' pos' where s: "scan_step buf st last_safe pos = (st', safe', pos')" by (metis prod_cases3)
  with 1 scan_step_le [OF s] show ?case
    by (simp add: find_safe_from.simps [of buf st last_safe pos])
qed

lemma find_safe_end_le: "find_safe_end buf \<le> length buf"
  by (simp add: find_safe_end_def find_safe_from_le)

text \<open>A stream: what the pushes emit, then what the flush gives.\<close>

fun markdown_pushes ::
    "environment \<Rightarrow> (str \<Rightarrow> str option) \<Rightarrow> markdown_buffer \<Rightarrow> str list \<Rightarrow> markdown_buffer \<times> str list" where
  "markdown_pushes env save m [] = (m, [])"
| "markdown_pushes env save m (c # cs) =
     (let (m1, out) = markdown_push env save m c; (m2, outs) = markdown_pushes env save m1 cs
      in (m2, (case out of Some t \<Rightarrow> [t] | None \<Rightarrow> []) @ outs))"

theorem markdown_stream_lossless:
  "\<exists>pieces. snd (markdown_pushes env save m cs) = List.map (truncate_code_blocks env save) pieces
     \<and> concat pieces @ md_buffer (fst (markdown_pushes env save m cs)) = md_buffer m @ concat cs
     \<and> [] \<notin> set pieces"
proof (induction cs arbitrary: m)
  case Nil
  then show ?case by simp
next
  case (Cons c cs)
  let ?buf = "md_buffer m @ c"
  let ?m1 = "fst (markdown_push env save m c)"
  from Cons.IH [of ?m1] obtain ps where
    ps: "snd (markdown_pushes env save ?m1 cs) = List.map (truncate_code_blocks env save) ps"
      "concat ps @ md_buffer (fst (markdown_pushes env save ?m1 cs)) = md_buffer ?m1 @ concat cs" "[] \<notin> set ps"
    by blast
  show ?case
  proof (cases "0 < find_safe_end ?buf")
    case True
    then have p: "markdown_push env save m c = (\<lparr>md_buffer = drop (find_safe_end ?buf) ?buf\<rparr>,
        Some (truncate_code_blocks env save (take (find_safe_end ?buf) ?buf)))"
      by (simp add: markdown_push_def Let_def)
    obtain m2 outs where m2: "markdown_pushes env save ?m1 cs = (m2, outs)" by force
    have "?buf @ concat cs = take (find_safe_end ?buf) ?buf @ drop (find_safe_end ?buf) ?buf @ concat cs"
      by (metis append_assoc append_take_drop_id)
    moreover have "take (find_safe_end ?buf) ?buf \<noteq> []" using True find_safe_end_le [of ?buf] by fastforce
    ultimately show ?thesis
      using ps p m2 by (intro exI [of _ "take (find_safe_end ?buf) ?buf # ps"]) (simp del: take_append drop_append)
  next
    case False
    with ps show ?thesis
      by (intro exI [of _ ps]) (auto simp: markdown_push_def Let_def split: prod.splits)
  qed
qed

section \<open>What truncation keeps\<close>

lemma find_closing_fence_at:
  "find_closing_fence r c k = Some n \<Longrightarrow>
     \<exists>rest. r = take n r @ newline # rest \<and> closes_fence c k rest \<and> length (take n r) = n"
proof (induction r arbitrary: n)
  case (Cons x r)
  then show ?case by (cases "x = newline \<and> closes_fence c k r") auto
qed simp

lemma code_block_parts:
  assumes "code_block content = Some (before, code, rest)"
  obtains p c k where "content = before @ code @ newline # rest"
    and "find_opening_fence content = Some (p, c, k)" and "closes_fence c k rest"
proof -
  obtain p c k n m where o: "find_opening_fence content = Some (p, c, k)"
    and n: "find_char newline (drop (p + k) content) = Some n"
    and m: "find_closing_fence (drop (p + k + n + 1) content) c k = Some m"
    and parts: "before = take (p + k + n + 1) content" "code = take m (drop (p + k + n + 1) content)"
      "rest = drop (p + k + n + 1 + m + 1) content"
    using assms by (auto simp: code_block_def Let_def split: option.splits prod.splits)
  from find_closing_fence_at [OF m] obtain rest' where
    r: "drop (p + k + n + 1) content = code @ newline # rest'" and c: "closes_fence c k rest'"
    and l: "length code = m"
    unfolding parts(2) by blast
  have "rest = drop (m + 1) (drop (p + k + n + 1) content)"
    by (simp add: parts(3) add.commute add.left_commute)
  also have "\<dots> = rest'" unfolding r by (simp add: l [symmetric])
  finally have "rest = rest'" .
  moreover have "content = before @ drop (p + k + n + 1) content" by (simp add: parts(1))
  ultimately show thesis using r c o that by metis
qed


text \<open>
  Either nothing changes, or the first code block has too many lines: then all of it is saved, its first
  lines are shown with a note of how many are left out, and the text around it stays, the closing fence
  included.
\<close>
theorem truncate_code_blocks_with_parts:
  "truncate_code_blocks_with save content m k = content \<or>
   (\<exists>before code rest pos c n shown. find_opening_fence content = Some (pos, c, n)
      \<and> content = before @ code @ newline # rest \<and> closes_fence c n rest
      \<and> m < length (str_lines code) \<and> shown = min k m
      \<and> truncate_code_blocks_with save content m k
          = before @ join_with [newline] (take shown (str_lines code)) @ [newline]
            @ truncation_note save code (length (str_lines code) - shown) @ newline # rest)"
proof (cases "code_block content")
  case None
  then show ?thesis by (simp add: truncate_code_blocks_with_def)
next
  case (Some t)
  obtain before code rest where t: "t = (before, code, rest)" by (cases t)
  obtain p c n where parts: "content = before @ code @ newline # rest"
    "find_opening_fence content = Some (p, c, n)" "closes_fence c n rest"
    using code_block_parts Some t by blast
  show ?thesis
  proof (cases "length (str_lines code) \<le> m")
    case True
    with Some t show ?thesis by (simp add: truncate_code_blocks_with_def Let_def)
  next
    case False
    then have "min (min k m) (length (str_lines code)) = min k m" by simp
    with Some t False have "truncate_code_blocks_with save content m k =
        before @ join_with [newline] (take (min k m) (str_lines code)) @ [newline]
        @ truncation_note save code (length (str_lines code) - min k m) @ newline # rest"
      by (simp only: truncate_code_blocks_with_def Let_def option.case prod.case if_False append_Cons append_Nil)
    moreover have "m < length (str_lines code)" using False by simp
    ultimately show ?thesis using parts by (intro disjI2) metis
  qed
qed

section \<open>A code block is let through whole\<close>

text \<open>A line that is not blank and does not start like the fence.\<close>

definition inner_line :: "str \<Rightarrow> bool" where
  "inner_line l = (newline \<notin> set l \<and> trim_start l \<noteq> [] \<and> hd (trim_start l) \<noteq> 96)"

definition unlines :: "str list \<Rightarrow> str" where
  "unlines ls = concat (map (\<lambda>l. l @ [newline]) ls)"

lemma unlines_simps [simp]: "unlines [] = []" "unlines (l # ls) = l @ newline # unlines ls"
  by (simp_all add: unlines_def)

lemma unlines_append: "unlines (xs @ ys) = unlines xs @ unlines ys"
  by (simp add: unlines_def)

definition in_fence :: "nat \<Rightarrow> parse_state" where
  "in_fence k = default_state\<lparr>in_code_block := True, code_fence_char := 96, code_fence_len := k\<rparr>"

lemma trim_start_append: "trim_start l \<noteq> [] \<Longrightarrow> trim_start (l @ r) = trim_start l @ r"
  by (induction l) (auto simp: trim_start_def)

lemma run_length_replicate: "r = [] \<or> hd r \<noteq> c \<Longrightarrow> run_length c (replicate k c @ r) = k"
  by (cases r) (auto simp: run_length_def takeWhile_append)

lemma line_through_first: "newline \<notin> set l \<Longrightarrow> line_through (l @ newline # r) = length l + 1"
  by (auto simp: line_through_def find_char_def takeWhile_append)

lemma line_through_last: "newline \<notin> set l \<Longrightarrow> line_through l = length l"
  by (simp add: line_through_def find_char_def)

lemma check_inner:
  assumes "trim_start s = [] \<or> hd (trim_start s) \<noteq> 96"
  shows "check_code_fence s (in_fence k) = (in_fence k, None)"
  using assms by (cases "trim_start s") (auto simp: check_code_fence_def in_fence_def Let_def)

lemma process_inner:
  assumes "check_code_fence s (in_fence k) = (in_fence k, None)"
  shows "process_line_start (in_fence k) s = (in_fence k, None)"
proof -
  have "(in_fence k)\<lparr>pending_heading := False\<rparr> = in_fence k" by (simp add: in_fence_def default_state_def)
  with assms show ?thesis by (simp add: process_line_start_def in_fence_def)
qed

lemma scan_inner:
  assumes "check_code_fence r (in_fence k) = (in_fence k, None)" and "pre \<noteq> []" and "last pre = newline"
  shows "scan_step (pre @ r) (in_fence k) safe (length pre) = (in_fence k, safe, length pre + line_through r)"
proof -
  have "(pre @ r) ! (length pre - 1) = newline" using assms(2,3) by (simp add: nth_append last_conv_nth)
  with process_inner [OF assms(1)] show ?thesis
    by (simp add: scan_step_def Let_def) (simp add: in_fence_def)
qed

lemma scan_inner_lines:
  assumes "list_all inner_line ls" and "pre \<noteq> []" and "last pre = newline"
  shows "find_safe_from (pre @ unlines ls @ r) (in_fence k) safe (length pre)
    = find_safe_from (pre @ unlines ls @ r) (in_fence k) safe (length (pre @ unlines ls))"
  using assms
proof (induction ls arbitrary: pre)
  case (Cons l ls)
  let ?r = "l @ newline # unlines ls @ r"
  have l: "newline \<notin> set l" "trim_start l \<noteq> []" "hd (trim_start l) \<noteq> 96"
    using Cons.prems(1) by (simp_all add: inner_line_def)
  then have "scan_step (pre @ ?r) (in_fence k) safe (length pre) = (in_fence k, safe, length pre + length l + 1)"
    using scan_inner [of ?r k pre] Cons.prems by (simp add: check_inner trim_start_append line_through_first)
  then have "find_safe_from (pre @ ?r) (in_fence k) safe (length pre)
      = find_safe_from (pre @ ?r) (in_fence k) safe (length (pre @ l @ [newline]))"
    by (simp add: find_safe_from.simps [of "pre @ ?r" _ _ "length pre"])
  with Cons.IH [of "pre @ l @ [newline]"] Cons.prems show ?case by simp
qed simp

lemma check_opening:
  assumes "3 \<le> k" and "info = [] \<or> hd info \<noteq> 96"
  shows "process_line_start default_state (replicate k 96 @ info)
    = (in_fence k, Some (line_through (replicate k 96 @ info)))"
proof -
  obtain j where k: "k = Suc j" using assms(1) by (cases k) auto
  have "run_length 96 (replicate k 96 @ info) = k" using assms(2) by (rule run_length_replicate)
  moreover have "trim_start (replicate k 96 @ info) = replicate k 96 @ info"
    by (simp add: k trim_start_def is_ws_def)
  ultimately show ?thesis using assms(1)
    by (simp add: process_line_start_def check_code_fence_def Let_def k in_fence_def default_state_def)
qed

lemma scan_opening:
  assumes "3 \<le> k" and "info = [] \<or> hd info \<noteq> 96"
  shows "find_safe_end (replicate k 96 @ info)
    = find_safe_from (replicate k 96 @ info) (in_fence k) 0 (line_through (replicate k 96 @ info))"
proof -
  have "scan_step (replicate k 96 @ info) default_state 0 0
      = (in_fence k, 0, line_through (replicate k 96 @ info))"
    using check_opening [OF assms] by (simp add: scan_step_def Let_def is_clean_def in_fence_def)
  with assms(1) show ?thesis
    by (simp add: find_safe_end_def find_safe_from.simps [of "replicate k 96 @ info" default_state])
qed


lemma opening_line:
  assumes "3 \<le> k" and "newline \<notin> set info" and "info = [] \<or> hd info \<noteq> 96"
  shows "find_safe_end (replicate k 96 @ info @ newline # r)
    = find_safe_from (replicate k 96 @ info @ newline # r) (in_fence k) 0 (length (replicate k 96 @ info @ [newline]))"
proof -
  have "info @ newline # r = [] \<or> hd (info @ newline # r) \<noteq> 96" using assms(3) by (cases info) auto
  moreover have "line_through (replicate k 96 @ info @ newline # r) = k + length info + 1"
    using line_through_first [of "replicate k 96 @ info" r] assms(2) by simp
  ultimately show ?thesis using scan_opening [OF assms(1)] by simp
qed

lemma body_held:
  assumes "3 \<le> k" and "newline \<notin> set info" and "info = [] \<or> hd info \<noteq> 96" and "list_all inner_line ls"
    and "newline \<notin> set p" and "check_code_fence p (in_fence k) = (in_fence k, None)"
  shows "find_safe_end (replicate k 96 @ info @ newline # unlines ls @ p) = 0"
proof -
  let ?o = "replicate k 96 @ info @ [newline]"
  let ?b = "?o @ unlines ls"
  have l: "?b \<noteq> []" "last ?b = newline" by (cases ls rule: rev_cases; simp add: unlines_append)+
  have "find_safe_end (?b @ p) = find_safe_from (?b @ p) (in_fence k) 0 (length ?b)"
    using opening_line [OF assms(1-3), of "unlines ls @ p"] scan_inner_lines [OF assms(4), of ?o p k 0] by simp
  also have "\<dots> = 0"
  proof (cases "p = []")
    case True
    then show ?thesis by (simp add: find_safe_from.simps)
  next
    case False
    have "scan_step (?b @ p) (in_fence k) 0 (length ?b) = (in_fence k, 0, length (?b @ p))"
      using scan_inner [OF assms(6) l] assms(5) by (simp add: line_through_last)
    from find_safe_from_step [OF this] False show ?thesis by (simp add: find_safe_from_done)
  qed
  finally show ?thesis by simp
qed

lemma block_complete:
  assumes "3 \<le> k" and "newline \<notin> set info" and "info = [] \<or> hd info \<noteq> 96" and "list_all inner_line ls"
  shows "find_safe_end (replicate k 96 @ info @ newline # unlines ls @ replicate k 96 @ [newline])
    = length (replicate k 96 @ info @ newline # unlines ls @ replicate k 96 @ [newline])"
proof -
  let ?o = "replicate k 96 @ info @ [newline]" and ?c = "replicate k 96 @ [newline]"
  let ?b = "?o @ unlines ls"
  have l: "?b \<noteq> []" "last ?b = newline" by (cases ls rule: rev_cases; simp add: unlines_append)+
  obtain j where k: "k = Suc j" using assms(1) by (cases k) auto
  have "run_length 96 ?c = k" by (rule run_length_replicate) simp
  moreover have "trim_start ?c = ?c" by (simp add: k trim_start_def is_ws_def)
  moreover have "line_through ?c = k + 1" using line_through_first [of "replicate k 96" "[]"] by simp
  ultimately have "process_line_start (in_fence k) ?c = (default_state, Some (k + 1))"
    using assms(1)
    by (simp add: process_line_start_def check_code_fence_def Let_def k in_fence_def default_state_def)
  moreover have "(?b @ ?c) ! (length ?b - 1) = newline" using last_before [OF l(1)] l(2) by (simp del: append_assoc)
  moreover have "drop (length ?b) (?b @ ?c) = ?c" by (simp del: append_assoc)
  ultimately have s: "scan_step (?b @ ?c) (in_fence k) 0 (length ?b) = (default_state, length (?b @ ?c), length (?b @ ?c))"
    by (simp add: scan_step_def Let_def is_clean_def default_state_def del: append_assoc drop_append)
  have "find_safe_end (?b @ ?c) = find_safe_from (?b @ ?c) (in_fence k) 0 (length ?b)"
    using opening_line [OF assms(1-3), of "unlines ls @ ?c"] scan_inner_lines [OF assms(4), of ?o ?c k 0] by simp
  also have "\<dots> = length (?b @ ?c)"
    using find_safe_from_step [OF s] by (simp add: find_safe_from_done)
  finally show ?thesis by simp
qed

lemma tokens_ticks: "0 < j \<Longrightarrow> tokens (replicate j 96) = [replicate j 96]"
proof -
  assume "0 < j"
  then obtain i where j: "j = Suc i" by (cases j) auto
  have "token_length (replicate j 96) = j"
    using run_length_replicate [of "[]" 96 j] by (simp add: j token_length_def)
  then show ?thesis by (simp add: j)
qed

lemma few_ticks_held: "j < 3 \<Longrightarrow> find_safe_end (replicate j 96) = 0"
proof (cases "j = 0")
  case True
  then show ?thesis by (simp add: find_safe_end_def find_safe_from.simps)
next
  case False
  assume "j < 3"
  obtain i where j: "j = Suc i" using False by (cases j) auto
  let ?s = "replicate j 96" and ?st = "default_state\<lparr>in_inline_code := True, inline_code_len := j\<rparr>"
  have "run_length 96 ?s = j" using run_length_replicate [of "[]" 96 j] by simp
  moreover have "trim_start ?s = ?s" by (simp add: j trim_start_def is_ws_def)
  ultimately have "process_line_start default_state ?s = (default_state, None)"
    using \<open>j < 3\<close>
    by (simp add: process_line_start_def check_code_fence_def Let_def j default_state_def opens_heading_def
        starts_with_def)
  moreover have "line_through ?s = j" by (simp add: line_through_last)
  moreover have "tokens ?s = [?s]" using False by (simp add: tokens_ticks)
  moreover have "process_inline_token default_state ?s = ?st"
    by (simp add: process_inline_token_def starts_with_def j default_state_def)
  moreover have "scan_line default_state 0 0 ?s = (?st, 0)"
    using calculation(3,4) False by (simp add: scan_line_def is_clean_def default_state_def)
  ultimately have "scan_step ?s default_state 0 0 = (?st, 0, j)"
    by (simp add: scan_step_def Let_def) (simp add: default_state_def)
  from find_safe_from_step [OF this] j show ?thesis by (simp add: find_safe_end_def find_safe_from_done)
qed


text \<open>Whatever is cut off a code block before its closing fence is complete is held back.\<close>

lemma prefix_unlines:
  assumes "list_all inner_line ls" and "prefix q (unlines ls)"
  shows "\<exists>i p. q = unlines (take i ls) @ p \<and> newline \<notin> set p \<and> (trim_start p = [] \<or> hd (trim_start p) \<noteq> 96)"
  using assms
proof (induction ls arbitrary: q)
  case Nil
  then show ?case by simp
next
  case (Cons l ls)
  then have l: "newline \<notin> set l" "trim_start l \<noteq> []" "hd (trim_start l) \<noteq> 96" by (simp_all add: inner_line_def)
  from Cons.prems(2) consider "prefix q l" | q' where "q = (l @ [newline]) @ q'" "prefix q' (unlines ls)"
    using prefix_append [of q "l @ [newline]" "unlines ls"] by auto
  then show ?case
  proof cases
    case 1
    then obtain r where r: "l = q @ r" by (auto simp: prefix_def)
    then have "trim_start q = [] \<or> hd (trim_start q) = hd (trim_start l)"
      by (cases "trim_start q") (auto simp: trim_start_append)
    with l r show ?thesis by (intro exI [of _ 0] exI [of _ q]) auto
  next
    case 2
    from Cons.IH [OF _ 2(2)] Cons.prems(1) obtain i p where
      "q' = unlines (take i ls) @ p" "newline \<notin> set p" "trim_start p = [] \<or> hd (trim_start p) \<noteq> 96" by auto
    with 2(1) show ?thesis by (intro exI [of _ "Suc i"] exI [of _ p]) simp
  qed
qed

lemma check_few_ticks: "j < k \<Longrightarrow> check_code_fence (replicate j 96) (in_fence k) = (in_fence k, None)"
proof (cases j)
  case (Suc i)
  moreover assume "j < k"
  moreover have "run_length 96 (replicate j 96) = j" using run_length_replicate [of "[]" 96 j] by simp
  moreover have "trim_start (replicate j 96) = replicate j 96" by (simp add: Suc trim_start_def is_ws_def)
  ultimately show ?thesis by (simp add: check_code_fence_def in_fence_def Let_def)
qed (simp add: check_code_fence_def)

definition unfinished_block :: "nat \<Rightarrow> str \<Rightarrow> str list \<Rightarrow> str" where
  "unfinished_block k info ls = replicate k 96 @ info @ newline # unlines ls @ replicate (k - 1) 96"

lemma prefix_replicate: "prefix q (replicate n x) \<Longrightarrow> \<exists>j \<le> n. q = replicate j x"
  by (metis append_eq_conv_conj length_replicate min.cobounded2 prefix_def prefix_length_le take_replicate)

lemma unfinished_block_held:
  assumes "3 \<le> k" and "newline \<notin> set info" and "info = [] \<or> hd info \<noteq> 96" and "list_all inner_line ls"
    and "prefix q (unfinished_block k info ls)"
  shows "find_safe_end q = 0"
proof -
  let ?body = "unlines ls @ replicate (k - 1) 96"
  let ?t = "(info @ [newline]) @ ?body"
  have "prefix q (replicate k 96 @ ?t)" using assms(5) by (simp add: unfinished_block_def)
  then consider "prefix q (replicate k 96)" | u where "q = replicate k 96 @ u" "prefix u ?t"
    using prefix_append [of q "replicate k 96" ?t] by blast
  then consider j where "q = replicate j 96"
    | i where "q = replicate k 96 @ i" "prefix i info"
    | b where "q = replicate k 96 @ info @ newline # b" "prefix b ?body"
  proof cases
    case 1
    then obtain j where "q = replicate j 96" using prefix_replicate [of q k 96] by blast
    then show thesis by (rule that(1))
  next
    case 2
    then consider "prefix u (info @ [newline])" | b where "u = (info @ [newline]) @ b" "prefix b ?body"
      using prefix_append [of u "info @ [newline]" ?body] by blast
    then show thesis
    proof cases
      case 1
      then show thesis using 2(1) that(2) [of u] that(3) [of "[]"] by (auto simp: prefix_snoc)
    next
      case (2 b)
      then show thesis using \<open>q = replicate k 96 @ u\<close> that(3) by simp
    qed
  qed
  then show ?thesis
  proof cases
    case 1
    then show ?thesis
      using few_ticks_held [of j] scan_opening [of j "[]"]
      by (cases "j < 3") (auto simp: line_through_last find_safe_from_done)
  next
    case 2
    then have "newline \<notin> set i" "i = [] \<or> hd i \<noteq> 96" using assms(2,3) by (auto simp: prefix_def)
    with 2 scan_opening [OF assms(1), of i] show ?thesis
      by (simp add: line_through_last find_safe_from_done)
  next
    case 3
    then have "prefix b (unlines ls) \<or> (\<exists>u. b = unlines ls @ u \<and> prefix u (replicate (k - 1) 96))"
      by (simp add: prefix_append)
    then obtain i p where "b = unlines (take i ls) @ p" "newline \<notin> set p"
      "check_code_fence p (in_fence k) = (in_fence k, None)"
    proof
      assume "prefix b (unlines ls)"
      from prefix_unlines [OF assms(4) this] obtain i p where
        "b = unlines (take i ls) @ p" "newline \<notin> set p" "trim_start p = [] \<or> hd (trim_start p) \<noteq> 96" by blast
      then show thesis using that [OF _ _ check_inner] by simp
    next
      assume "\<exists>u. b = unlines ls @ u \<and> prefix u (replicate (k - 1) 96)"
      then obtain u where u: "b = unlines ls @ u" "prefix u (replicate (k - 1) 96)" by blast
      then obtain j where j: "j \<le> k - 1" "u = replicate j 96" using prefix_replicate [OF u(2)] by blast
      with u(1) have "b = unlines (take (length ls) ls) @ replicate j 96" by simp
      moreover have "check_code_fence (replicate j 96) (in_fence k) = (in_fence k, None)"
        using assms(1) j(1) by (intro check_few_ticks) simp
      ultimately show thesis using that [of "length ls" "replicate j 96"] by simp
    qed
    moreover have "list_all inner_line (take i ls)" using assms(4) by (auto simp: list_all_iff dest: in_set_takeD)
    ultimately show ?thesis using body_held [OF assms(1-3)] 3(1) by simp
  qed
qed


lemma markdown_pushes_held:
  assumes "\<And>q. prefix q (md_buffer m @ concat cs) \<Longrightarrow> find_safe_end q = 0"
  shows "markdown_pushes env save m cs = (\<lparr>md_buffer = md_buffer m @ concat cs\<rparr>, [])"
  using assms
proof (induction cs arbitrary: m)
  case (Cons c cs)
  have "find_safe_end (md_buffer m @ c) = 0" using Cons.prems [of "md_buffer m @ c"] by simp
  then have "markdown_push env save m c = (\<lparr>md_buffer = md_buffer m @ c\<rparr>, None)"
    by (simp add: markdown_push_def)
  with Cons.IH [of "\<lparr>md_buffer = md_buffer m @ c\<rparr>"] Cons.prems show ?case by simp
qed (simp add: markdown_new_def)

lemma markdown_pushes_append:
  "markdown_pushes env save m (xs @ ys) =
     (let (m1, out1) = markdown_pushes env save m xs; (m2, out2) = markdown_pushes env save m1 ys
      in (m2, out1 @ out2))"
  by (induction xs arbitrary: m) (simp_all add: Let_def split: prod.splits)



lemmas markdown_eval = find_safe_end_def find_safe_from.simps scan_step_def scan_line_def process_line_start_def
  check_code_fence_def default_state_def is_clean_def trim_start_def trim_def trim_end_def is_ws_def run_length_def
  line_through_def find_char_def opens_heading_def starts_with_def token_length_def is_special_def
  process_inline_token_def Let_def

text \<open>
  A blank line before a fence without a language counts as the fence, so the fence line counts as its end:
  the code is let through unfinished and the closing fence opens a block that stays open.
\<close>

lemma blank_line_opens_block:
  "find_safe_end (newline # lit ''```'' @ [newline] @ lit ''c'') = 6"
  "find_safe_end (lit ''```'' @ [newline] @ lit ''then **more** text'') = 0"
  by (simp_all add: markdown_eval)

text \<open>A blank line before the closing fence ends the block, and the closing fence opens another.\<close>

lemma blank_line_closes_block:
  "find_safe_end (lit ''```r'' @ [newline] @ lit ''c'' @ [newline, newline] @ lit ''```'' @ [newline] @ lit ''t'') = 8"
  by (simp add: markdown_eval)

text \<open>A fence of tildes that is cut after its first tilde is let through as text.\<close>

lemma lone_tilde_let_through: "find_safe_end (lit ''~'') = 1"
  by (simp add: markdown_eval)

text \<open>
  The closing fence of an empty block is not seen, so the text after it is truncated as its code.
\<close>

lemma empty_block_swallows_text:
  "truncate_code_blocks_with save
     (lit ''```'' @ [newline] @ lit ''```'' @ [newline] @ lit ''a'' @ [newline] @ lit ''b'' @ [newline] @ lit ''```'') 2 1
   = lit ''```'' @ [newline] @ lit ''```'' @ [newline]
     @ truncation_note save (lit ''```'' @ [newline] @ lit ''a'' @ [newline] @ lit ''b'') 2 @ [newline] @ lit ''```''"
  by (simp add: truncate_code_blocks_with_def code_block_def find_opening_fence_def markdown_eval str_lines_def
      closes_fence_def first_line_def strip_cr_def numeral_2_eq_2)

end
