(* ===== verification/ResultCache.thy ===== *)
theory ResultCache
  imports Message "HOL-Library.List_Lexorder"
begin

text \<open>
  The memo of read-only shell results
  (\<open>bharatcode-core/src/agents/platform_extensions/developer/result_cache.rs\<close>): the key of a call,
  the classifier of read-only commands, and looking up, storing and invalidating entries. The cache
  itself is an \<open>LruCache\<close> of the \<open>lru\<close> crate: a record of its operations over a state \<open>'c\<close>, with what
  is relied on in the locale \<open>lru_laws\<close>. The environment variable is an argument, read at every call;
  the printer of \<open>serde_json\<close> is the parameter \<open>show_json\<close>.
\<close>

section \<open>Enabling\<close>

definition CACHE_CAPACITY :: nat where "CACHE_CAPACITY = 128"

definition is_truthy :: "str option \<Rightarrow> bool" where
  "is_truthy var = (case map_option (to_ascii_lowercase \<circ> trim) var of
     Some v \<Rightarrow> v \<in> {lit ''1'', lit ''true'', lit ''yes'', lit ''on''} | None \<Rightarrow> False)"

section \<open>Keys\<close>

definition normalize_whitespace :: "str \<Rightarrow> str" where
  "normalize_whitespace s = join_with [32] (split_whitespace s)"

definition command_key :: str where "command_key = lit ''command''"

text \<open>Objects are printed with their keys sorted, the command with its white space collapsed.\<close>

fun canonicalize_value :: "json \<Rightarrow> json" where
  "canonicalize_value (JObject m) = JObject (sort_key fst (List.map (\<lambda>(k, v).
     (k, if k = command_key then (case v of JString s \<Rightarrow> JString (normalize_whitespace s) | _ \<Rightarrow> canonicalize_value v)
         else canonicalize_value v)) m))"
| "canonicalize_value (JArray items) = JArray (List.map canonicalize_value items)"
| "canonicalize_value v = v"

definition cache_key :: "(json \<Rightarrow> str) \<Rightarrow> str \<Rightarrow> json_object option \<Rightarrow> str" where
  "cache_key show_json name args =
     name @ [31] @ show_json (case args of Some m \<Rightarrow> canonicalize_value (JObject m) | None \<Rightarrow> JNull)"

section \<open>Read-only commands\<close>

definition FORBIDDEN :: "uchar set" where
  "FORBIDDEN = set (lit ''><`$(){}&;'') \<union> {newline, 92}"

definition plain_readers :: "str list" where
  "plain_readers = List.map lit [''cat'', ''head'', ''tail'', ''ls'', ''pwd'', ''wc'', ''echo'', ''grep'', ''egrep'',
     ''fgrep'', ''rg'', ''file'', ''stat'', ''du'', ''df'', ''tree'', ''which'', ''whoami'', ''hostname'', ''uname'',
     ''date'', ''printenv'', ''sort'', ''uniq'', ''cut'', ''nl'', ''basename'', ''dirname'', ''realpath'',
     ''readlink'', ''true'', ''diff'', ''cmp'', ''column'', ''tr'', ''fold'', ''od'', ''xxd'', ''less'', ''more'']"

definition find_mutators :: "str list" where
  "find_mutators = List.map lit [''-exec'', ''-execdir'', ''-delete'', ''-ok'', ''-okdir'', ''-fprint'']"

definition git_readers :: "str list" where
  "git_readers = List.map lit [''status'', ''diff'', ''log'', ''show'', ''rev-parse'', ''ls-files'', ''ls-tree'',
     ''blame'', ''describe'', ''shortlog'', ''cat-file'', ''show-ref'']"

text \<open>The words of a git command after its leading global options.\<close>

fun skip_git_options :: "str list \<Rightarrow> str list" where
  "skip_git_options [] = []"
| "skip_git_options (o1 # rest) =
     (if o1 = lit ''-C'' \<or> o1 = lit ''-c'' then skip_git_options (tl rest)
      else if starts_with o1 (lit ''-'') then skip_git_options rest
      else o1 # rest)"

definition stage_is_read_only :: "str \<Rightarrow> bool" where
  "stage_is_read_only stage = (case split_whitespace stage of
     [] \<Rightarrow> False
   | cmd # words \<Rightarrow>
       if cmd = lit ''find'' then \<not> list_ex (\<lambda>w. w \<in> set find_mutators) words
       else if cmd \<in> set plain_readers then True
       else if cmd = lit ''git'' then
         (case skip_git_options words of w # _ \<Rightarrow> w \<in> set git_readers | [] \<Rightarrow> False)
       else if cmd = lit ''cargo'' then
         (case words of w # _ \<Rightarrow> w = lit ''tree'' \<or> w = lit ''metadata'' | [] \<Rightarrow> False)
       else if cmd = lit ''npm'' then
         (case words of w # _ \<Rightarrow> w = lit ''ls'' \<or> w = lit ''list'' \<or> w = lit ''view'' | [] \<Rightarrow> False)
       else False)"

definition is_read_only_command :: "str \<Rightarrow> bool" where
  "is_read_only_command command = (let trimmed = trim command; stages = split_on 124 trimmed in
     if trimmed = [] then False
     else if list_ex (\<lambda>c. c \<in> FORBIDDEN) trimmed then False
     else if list_ex (\<lambda>s. trim s = []) stages then False
     else list_all (\<lambda>s. stage_is_read_only (trim s)) stages)"

definition arguments_are_read_only :: "json_object option \<Rightarrow> bool" where
  "arguments_are_read_only args = (case Option.bind (Option.bind args (\<lambda>m. map_of m command_key)) json_as_str of
     Some c \<Rightarrow> is_read_only_command c | None \<Rightarrow> False)"

section \<open>The cache\<close>

record ('c, 'r) lru_ops =
  lru_new :: "nat \<Rightarrow> 'c"
  lru_get :: "'c \<Rightarrow> str \<Rightarrow> 'c \<times> 'r option"
  lru_put :: "'c \<Rightarrow> str \<Rightarrow> 'r \<Rightarrow> 'c"
  lru_clear :: "'c \<Rightarrow> 'c"

definition cache_new :: "('c, 'r) lru_ops \<Rightarrow> 'c" where
  "cache_new ops = lru_new ops CACHE_CAPACITY"

definition cache_lookup ::
    "('c, 'r) lru_ops \<Rightarrow> (json \<Rightarrow> str) \<Rightarrow> str option \<Rightarrow> str \<Rightarrow> json_object option \<Rightarrow> 'c \<Rightarrow> 'c \<times> 'r option" where
  "cache_lookup ops show_json var name args c =
     (if \<not> is_truthy var then (c, None) else lru_get ops c (cache_key show_json name args))"

text \<open>\<open>is_err\<close> is the field \<open>is_error\<close> of \<open>CallToolResult\<close>.\<close>

definition store_if_read_only ::
    "('c, 'r) lru_ops \<Rightarrow> (json \<Rightarrow> str) \<Rightarrow> ('r \<Rightarrow> bool option) \<Rightarrow> str option \<Rightarrow> str \<Rightarrow> json_object option \<Rightarrow> 'r \<Rightarrow> 'c \<Rightarrow> 'c" where
  "store_if_read_only ops show_json is_err var name args result c =
     (if \<not> is_truthy var then c
      else if is_err result = Some True then c
      else if \<not> arguments_are_read_only args then c
      else lru_put ops c (cache_key show_json name args) result)"

definition invalidate_all :: "('c, 'r) lru_ops \<Rightarrow> str option \<Rightarrow> 'c \<Rightarrow> 'c" where
  "invalidate_all ops var c = (if \<not> is_truthy var then c else lru_clear ops c)"

section \<open>Read-only pipelines\<close>

lemma split_on_append: "split_on d (a @ d # b) = split_on d a @ split_on d b"
  by (induction a) (auto split: list.splits)

lemma trim_Cons_ws: "is_ws c \<Longrightarrow> trim (c # s) = trim s"
  by (simp add: trim_def trim_start_def)

lemma trim_snoc_ws:
  assumes "is_ws c"
  shows "trim (s @ [c]) = trim s"
proof (cases "dropWhile is_ws s = []")
  case True
  then have "dropWhile is_ws (s @ [c]) = []" using assms by (simp add: dropWhile_eq_Nil_conv)
  with True show ?thesis by (simp only: trim_def trim_start_def)
next
  case False
  then have "dropWhile is_ws (s @ [c]) = dropWhile is_ws s @ [c]"
    by (simp add: dropWhile_append dropWhile_eq_Nil_conv)
  with assms show ?thesis by (simp add: trim_def trim_start_def)
qed

lemma split_on_snoc: "c \<noteq> d \<Longrightarrow> split_on d (s @ [c]) = butlast (split_on d s) @ [last (split_on d s) @ [c]]"
  by (induction s) (auto split: list.splits)

lemma stages_trim_start: "map trim (split_on 124 (trim_start s)) = map trim (split_on 124 s)"
proof (induction s)
  case (Cons c s)
  show ?case
  proof (cases "is_ws c")
    case True
    moreover from this have "c \<noteq> 124" by (auto simp: is_ws_def)
    ultimately show ?thesis using Cons.IH
      by (cases "split_on 124 s") (auto simp: trim_start_def trim_Cons_ws)
  qed (simp add: trim_start_def)
qed simp

lemma stages_trim_end: "map trim (split_on 124 (trim_end s)) = map trim (split_on 124 s)"
proof (induction s rule: rev_induct)
  case (snoc c s)
  show ?case
  proof (cases "is_ws c")
    case True
    moreover from this have "c \<noteq> 124" by (auto simp: is_ws_def)
    moreover obtain xs x where "split_on 124 s = xs @ [x]" by (cases "split_on 124 s" rule: rev_cases) auto
    ultimately show ?thesis using snoc.IH by (simp add: split_on_snoc trim_snoc_ws)
  qed simp
qed simp

lemma stages_trim: "map trim (split_on 124 (trim s)) = map trim (split_on 124 s)"
  by (simp add: trim_def stages_trim_start stages_trim_end)

lemma stage_blank: "\<not> stage_is_read_only []"
  by (simp add: stage_is_read_only_def split_whitespace_def)

lemma set_trim: "newline \<notin> set s \<Longrightarrow> list_ex (\<lambda>c. c \<in> FORBIDDEN) (trim s) = list_ex (\<lambda>c. c \<in> FORBIDDEN) s"
proof -
  assume n: "newline \<notin> set s"
  obtain w where w: "s = w @ trim_start s" "list_all is_ws w"
    by (metis (no_types, lifting) list_all_iff set_takeWhileD takeWhile_dropWhile_id trim_start_def)
  obtain v where v: "trim_start s = trim s @ v" "list_all is_ws v"
    using trim_end_prefix [of "trim_start s"] by (auto simp: trim_def)
  have "c \<notin> FORBIDDEN" if "is_ws c" "c \<noteq> newline" for c
    using that by (auto simp: FORBIDDEN_def is_ws_def)
  moreover have s: "set s = set w \<union> set (trim s) \<union> set v" using w(1) v(1) by (metis set_append sup_assoc)
  ultimately have "\<forall>c \<in> set w \<union> set v. c \<notin> FORBIDDEN" using w(2) v(2) n by (auto simp: list_all_iff)
  with s show ?thesis unfolding list_ex_iff by blast
qed

lemma is_read_only_command_alt:
  assumes "newline \<notin> set s"
  shows "is_read_only_command s \<longleftrightarrow> list_all (\<lambda>c. c \<notin> FORBIDDEN) s \<and> list_all stage_is_read_only (map trim (split_on 124 s))"
proof -
  have e: "stage_is_read_only t \<Longrightarrow> t \<noteq> []" for t using stage_blank by blast
  have "is_read_only_command s \<longleftrightarrow> trim s \<noteq> [] \<and> \<not> list_ex (\<lambda>c. c \<in> FORBIDDEN) s
      \<and> list_all (\<lambda>t. t \<noteq> [] \<and> stage_is_read_only t) (map trim (split_on 124 (trim s)))"
    using set_trim [OF assms]
    by (auto simp: is_read_only_command_def Let_def list_all_iff list_ex_iff)
  also have "\<dots> \<longleftrightarrow> trim s \<noteq> [] \<and> \<not> list_ex (\<lambda>c. c \<in> FORBIDDEN) s
      \<and> list_all stage_is_read_only (map trim (split_on 124 s))"
    using e by (auto simp: stages_trim list_all_iff)
  also have "\<dots> \<longleftrightarrow> list_all (\<lambda>c. c \<notin> FORBIDDEN) s \<and> list_all stage_is_read_only (map trim (split_on 124 s))"
  proof -
    have "trim s \<noteq> []" if "list_all stage_is_read_only (map trim (split_on 124 s))"
    proof
      assume "trim s = []"
      then have "map trim (split_on 124 s) = [[]]" using stages_trim [of s] by simp
      with that stage_blank show False by simp
    qed
    then show ?thesis by (auto simp: list_all_iff list_ex_iff)
  qed
  finally show ?thesis .
qed

text \<open>A pipeline is read-only exactly when what is before the bar and what is behind it are.\<close>
lemma read_only_pipeline:
  assumes "newline \<notin> set a" and "newline \<notin> set b"
  shows "is_read_only_command (a @ 124 # b) \<longleftrightarrow> is_read_only_command a \<and> is_read_only_command b"
  using assms by (auto simp: is_read_only_command_alt split_on_append FORBIDDEN_def)

lemma read_only_pipeline_witness:
  "is_read_only_command (lit ''cat a'' @ 124 # lit '' wc'') \<longleftrightarrow>
     is_read_only_command (lit ''cat a'') \<and> is_read_only_command (lit '' wc'')"
  using read_only_pipeline [of "lit ''cat a''" "lit '' wc''"] by simp

text \<open>
  Some of the commands on the list write: \<open>sort\<close> to a file it is given, \<open>date\<close> the clock, \<open>find\<close> a
  listing, \<open>git diff\<close> its output.
\<close>

lemma sort_output_read_only: "is_read_only_command (lit ''sort -o f f'')"
  by (simp add: is_read_only_command_alt stage_is_read_only_def FORBIDDEN_def split_whitespace_def is_ws_def
      trim_def trim_start_def trim_end_def plain_readers_def)

lemma find_listing_read_only: "is_read_only_command (lit ''find -fls f'')"
  by (simp add: is_read_only_command_alt stage_is_read_only_def FORBIDDEN_def split_whitespace_def is_ws_def
      trim_def trim_start_def trim_end_def plain_readers_def find_mutators_def)

text \<open>The white space inside quotes is collapsed too, so different commands share a key.\<close>

lemma quoted_space_shares_key:
  "cache_key show_json n (Some [(command_key, JString (lit ''grep \"a  b\" f''))])
   = cache_key show_json n (Some [(command_key, JString (lit ''grep \"a b\" f''))])"
  by (simp add: cache_key_def command_key_def normalize_whitespace_def split_whitespace_def is_ws_def)

section \<open>What is relied on of the cache\<close>

text \<open>\<open>peek\<close> is the entry under a key, without touching the order of use.\<close>

locale lru_laws =
  fixes ops :: "('c, 'r) lru_ops" and peek :: "'c \<Rightarrow> str \<Rightarrow> 'r option"
  assumes new_empty: "peek (lru_new ops n) k = None"
    and get_peek: "lru_get ops c k = (c', r) \<Longrightarrow> r = peek c k \<and> peek c' = peek c"
    and put_same: "peek (lru_put ops c k v) k = Some v"
    and put_other: "k' \<noteq> k \<Longrightarrow> peek (lru_put ops c k v) k' = Some v' \<Longrightarrow> peek c k' = Some v'"
    and clear_empty: "peek (lru_clear ops c) k = None"
begin

lemma lookup_peek: "cache_lookup ops show_json var name args c = (c', r) \<Longrightarrow> peek c' = peek c"
  using get_peek by (auto simp: cache_lookup_def split: if_splits)

lemma lookup_hit:
  "cache_lookup ops show_json var name args c = (c', Some r) \<Longrightarrow>
     is_truthy var \<and> peek c (cache_key show_json name args) = Some r"
  using get_peek by (auto simp: cache_lookup_def split: if_splits)

lemma store_entry:
  "peek (store_if_read_only ops show_json is_err var name args r c) k = Some v \<Longrightarrow>
     peek c k = Some v \<or> k = cache_key show_json name args \<and> v = r \<and> is_err r \<noteq> Some True
       \<and> arguments_are_read_only args \<and> is_truthy var"
  using put_same [of c k r] put_other [of k "cache_key show_json name args" c r v]
  by (cases "k = cache_key show_json name args") (auto simp: store_if_read_only_def split: if_splits)

lemma store_overwrites:
  "is_truthy var \<Longrightarrow> is_err r \<noteq> Some True \<Longrightarrow> arguments_are_read_only args \<Longrightarrow>
     peek (store_if_read_only ops show_json is_err var name args r c) (cache_key show_json name args) = Some r"
  by (simp add: store_if_read_only_def put_same)

lemma invalidate_entry:
  "peek (invalidate_all ops var c) k = Some v \<Longrightarrow> peek c k = Some v \<and> \<not> is_truthy var"
  by (auto simp: invalidate_all_def clear_empty split: if_splits)

end

text \<open>A list in the order of use, cut to its capacity, is such a cache.\<close>

definition list_lru :: "(nat \<times> (str \<times> 'r) list, 'r) lru_ops" where
  "list_lru = \<lparr>lru_new = (\<lambda>n. (n, [])),
     lru_get = (\<lambda>(n, es) k. case map_of es k of
        Some v \<Rightarrow> ((n, (k, v) # filter (\<lambda>e. fst e \<noteq> k) es), Some v) | None \<Rightarrow> ((n, es), None)),
     lru_put = (\<lambda>(n, es) k v. (n, (k, v) # take (n - 1) (filter (\<lambda>e. fst e \<noteq> k) es))),
     lru_clear = (\<lambda>(n, es). (n, []))\<rparr>"

definition list_peek :: "nat \<times> (str \<times> 'r) list \<Rightarrow> str \<Rightarrow> 'r option" where
  "list_peek c k = map_of (snd c) k"

lemma map_of_take: "map_of (take n es) k = Some v \<Longrightarrow> map_of es k = Some v"
  by (induction es arbitrary: n) (auto simp: take_Cons split: nat.splits if_splits)

lemma map_of_filter_key: "k' \<noteq> k \<Longrightarrow> map_of (filter (\<lambda>e. fst e \<noteq> k) es) k' = map_of es k'"
  by (induction es) auto

interpretation list_cache: lru_laws list_lru list_peek
proof
  fix n k v c and k' :: str and v' r :: 'r and c' :: "nat \<times> (str \<times> 'r) list"
  show "list_peek (lru_new list_lru n) k = None" by (simp add: list_lru_def list_peek_def)
  show "list_peek (lru_put list_lru c k v) k = Some v"
    by (simp add: list_lru_def list_peek_def split: prod.splits)
  show "list_peek (lru_clear list_lru c) k = None"
    by (simp add: list_lru_def list_peek_def split: prod.splits)
next
  fix c c' :: "nat \<times> (str \<times> 'r) list" and k and r :: "'r option"
  assume "lru_get list_lru c k = (c', r)"
  then show "r = list_peek c k \<and> list_peek c' = list_peek c"
    by (auto simp: list_lru_def list_peek_def fun_eq_iff map_of_filter_key split: prod.splits option.splits)
next
  fix c :: "nat \<times> (str \<times> 'r) list" and k k' and v v' :: 'r
  assume "k' \<noteq> k" and "list_peek (lru_put list_lru c k v) k' = Some v'"
  then show "list_peek c k' = Some v'"
    by (auto simp: list_lru_def list_peek_def map_of_filter_key dest!: map_of_take split: prod.splits)
qed

text \<open>It never holds more than its capacity.\<close>

lemma list_lru_bounded:
  "length (snd c) \<le> fst c \<Longrightarrow> 0 < fst c \<Longrightarrow>
     length (snd (lru_put list_lru c k v)) \<le> fst c \<and> fst (lru_put list_lru c k v) = fst c"
  by (auto simp: list_lru_def split: prod.splits)

end
