(* ===== verification/RegexEngine.thy ===== *)
theory RegexEngine
  imports Prelude "HOL-Library.Code_Target_Nat"
begin

text \<open>
  The interface to the \<open>regex\<close> crate and a model of its documented behaviour. The security components
  quote their patterns verbatim and call the crate through the record \<open>regex_engine\<close>, which is a
  parameter of every definition that matches; \<open>documented_engine\<close> parses the part of the syntax that
  these patterns use and matches by backtracking, alternatives and repetitions in the order the
  documentation gives them, and instantiates the parameter where a statement evaluates a pattern.
\<close>

section \<open>The interface\<close>

text \<open>A match: where it starts and ends, and where its numbered groups do.\<close>

record regex_match =
  m_start :: nat
  m_end :: nat
  m_groups :: "(nat \<times> nat \<times> nat) list"

record regex_engine =
  rx_is_match :: "str \<Rightarrow> str \<Rightarrow> bool"
  rx_find_iter :: "str \<Rightarrow> str \<Rightarrow> regex_match list"

definition slice :: "str \<Rightarrow> nat \<Rightarrow> nat \<Rightarrow> str" where
  "slice s a b = take (b - a) (drop a s)"

definition m_text :: "str \<Rightarrow> regex_match \<Rightarrow> str" where
  "m_text s m = slice s (m_start m) (m_end m)"

definition m_group :: "str \<Rightarrow> regex_match \<Rightarrow> nat \<Rightarrow> str option" where
  "m_group s m n = map_option (\<lambda>(a, b). slice s a b) (map_of (m_groups m) n)"

text \<open>A pattern of the source, written with a percent sign for each backslash.\<close>

definition pat :: "string \<Rightarrow> str" where
  "pat s = List.map (\<lambda>c. if c = 37 then 92 else c) (lit s)"

section \<open>Patterns\<close>

text \<open>
  A set of characters is given by ranges and perl classes; the flag of \<open>Chars\<close> is that of \<open>(?i)\<close>, the
  second one negation.
\<close>

datatype char_item = Rng uchar uchar | White bool | WordChar bool | Digit bool

datatype rx =
    Empty
  | Chars bool bool "char_item list"
  | Cat rx rx
  | Alt rx rx
  | Rep bool nat "nat option" rx
  | Group nat rx
  | WordBoundary
  | AtStart
  | AtEnd

text \<open>The characters that are letters or digits of a script other than ASCII are those of the Unicode tables.\<close>

record unicode_tables =
  uni_word :: "uchar \<Rightarrow> bool"
  uni_digit :: "uchar \<Rightarrow> bool"

definition word_char :: "unicode_tables \<Rightarrow> uchar \<Rightarrow> bool" where
  "word_char u c = ((48 \<le> c \<and> c \<le> 57) \<or> (65 \<le> c \<and> c \<le> 90) \<or> (97 \<le> c \<and> c \<le> 122) \<or> c = 95
     \<or> (128 \<le> c \<and> uni_word u c))"

definition digit_char :: "unicode_tables \<Rightarrow> uchar \<Rightarrow> bool" where
  "digit_char u c = ((48 \<le> c \<and> c \<le> 57) \<or> (128 \<le> c \<and> uni_digit u c))"

fun in_item :: "unicode_tables \<Rightarrow> char_item \<Rightarrow> uchar \<Rightarrow> bool" where
  "in_item u (Rng a b) c = (a \<le> c \<and> c \<le> b)"
| "in_item u (White p) c = (is_ws c = p)"
| "in_item u (WordChar p) c = (word_char u c = p)"
| "in_item u (Digit p) c = (digit_char u c = p)"

text \<open>The simple case folding of ASCII: the other case, the Kelvin sign and the long s.\<close>

definition case_variants :: "uchar \<Rightarrow> uchar list" where
  "case_variants c =
     (if 65 \<le> c \<and> c \<le> 90 then [c, c + 32] else if 97 \<le> c \<and> c \<le> 122 then [c, c - 32]
      else if c = 8490 then [c, 75, 107] else if c = 383 then [c, 83, 115] else [c])
     @ (if c = 75 \<or> c = 107 then [8490] else if c = 83 \<or> c = 115 then [383] else [])"

definition char_in :: "unicode_tables \<Rightarrow> bool \<Rightarrow> bool \<Rightarrow> char_item list \<Rightarrow> uchar \<Rightarrow> bool" where
  "char_in u ci neg items c =
     (list_ex (\<lambda>d. list_ex (\<lambda>i. in_item u i d) items) (if ci then case_variants c else [c]) \<noteq> neg)"

section \<open>Matching\<close>

text \<open>A state: the character before, the position, the text from it on, the groups so far.\<close>

type_synonym mstate = "uchar option \<times> nat \<times> str \<times> (nat \<times> nat \<times> nat) list"

text \<open>
  Repetition: at least \<open>lo\<close> and at most \<open>hi\<close> times, more first when it is greedy. An iteration beyond
  the required ones must consume something. The fuel is the text left plus the required iterations.
\<close>

fun repeat_match ::
    "(mstate \<Rightarrow> mstate list) \<Rightarrow> bool \<Rightarrow> nat \<Rightarrow> nat \<Rightarrow> nat option \<Rightarrow> mstate \<Rightarrow> mstate list" where
  "repeat_match f greedy 0 lo hi st = (if lo = 0 then [st] else [])"
| "repeat_match f greedy (Suc n) lo hi st =
     (if hi = Some 0 then [st]
      else
        let next = (if lo = 0 then filter (\<lambda>st'. fst (snd st) < fst (snd st')) (f st) else f st);
            deeper = concat (List.map (repeat_match f greedy n (lo - 1) (map_option (\<lambda>h. h - 1) hi)) next)
        in if lo \<noteq> 0 then deeper else if greedy then deeper @ [st] else st # deeper)"

definition at_boundary :: "unicode_tables \<Rightarrow> uchar option \<Rightarrow> str \<Rightarrow> bool" where
  "at_boundary u prev rest =
     ((case prev of None \<Rightarrow> False | Some c \<Rightarrow> word_char u c) \<noteq> (rest \<noteq> [] \<and> word_char u (hd rest)))"

primrec run :: "unicode_tables \<Rightarrow> rx \<Rightarrow> mstate \<Rightarrow> mstate list" where
  "run u Empty st = [st]"
| "run u (Chars ci neg items) st = (case st of (prev, pos, rest, gs) \<Rightarrow>
     (case rest of [] \<Rightarrow> [] | c # rest' \<Rightarrow>
        if char_in u ci neg items c then [(Some c, pos + 1, rest', gs)] else []))"
| "run u (Cat r1 r2) st = concat (List.map (run u r2) (run u r1 st))"
| "run u (Alt r1 r2) st = run u r1 st @ run u r2 st"
| "run u (Rep greedy lo hi r) st =
     repeat_match (run u r) greedy (length (fst (snd (snd st))) + lo + 1) lo hi st"
| "run u (Group n r) st = (case st of (prev, pos, rest, gs) \<Rightarrow>
     List.map (\<lambda>(prev', pos', rest', gs'). (prev', pos', rest', (n, pos, pos') # gs')) (run u r st))"
| "run u WordBoundary st = (case st of (prev, pos, rest, gs) \<Rightarrow> if at_boundary u prev rest then [st] else [])"
| "run u AtStart st = (case st of (prev, pos, rest, gs) \<Rightarrow> if prev = None then [st] else [])"
| "run u AtEnd st = (case st of (prev, pos, rest, gs) \<Rightarrow> if rest = [] then [st] else [])"

text \<open>The leftmost match from a position on, and among the matches that start there the first.\<close>

fun find_from :: "unicode_tables \<Rightarrow> rx \<Rightarrow> uchar option \<Rightarrow> nat \<Rightarrow> str \<Rightarrow> (regex_match \<times> mstate) option" where
  "find_from u r prev pos [] = (case run u r (prev, pos, [], []) of
     [] \<Rightarrow> None | st # _ \<Rightarrow> (case st of (prev', pos', rest', gs) \<Rightarrow>
       Some (\<lparr>m_start = pos, m_end = pos', m_groups = gs\<rparr>, st)))"
| "find_from u r prev pos (c # rest) = (case run u r (prev, pos, c # rest, []) of
     [] \<Rightarrow> find_from u r (Some c) (pos + 1) rest
   | st # _ \<Rightarrow> (case st of (prev', pos', rest', gs) \<Rightarrow>
       Some (\<lparr>m_start = pos, m_end = pos', m_groups = gs\<rparr>, st)))"

text \<open>All matches, each after the end of the one before; an empty match moves on by a character.\<close>

fun find_all :: "unicode_tables \<Rightarrow> rx \<Rightarrow> nat \<Rightarrow> uchar option \<Rightarrow> nat \<Rightarrow> str \<Rightarrow> regex_match list" where
  "find_all u r 0 prev pos s = []"
| "find_all u r (Suc n) prev pos s = (case find_from u r prev pos s of
     None \<Rightarrow> []
   | Some (m, (prev', pos', rest', gs)) \<Rightarrow>
       m # (if m_start m < m_end m then find_all u r n prev' pos' rest'
            else (case rest' of [] \<Rightarrow> [] | c # rest'' \<Rightarrow> find_all u r n (Some c) (pos' + 1) rest'')))"

section \<open>Reading patterns\<close>

text \<open>
  The syntax: alternation, concatenation, greedy and lazy repetition with bounds, groups, classes,
  escapes, anchors and the flag \<open>(?i)\<close> in front. Reading a term returns the text after it and the number of the next group.
\<close>

definition any_char :: "rx" where "any_char = Chars False True [Rng 10 10]"

definition escape_items :: "uchar \<Rightarrow> char_item list" where
  "escape_items c = (if c = 115 then [White True] else if c = 83 then [White False]
     else if c = 119 then [WordChar True] else if c = 87 then [WordChar False]
     else if c = 100 then [Digit True] else if c = 68 then [Digit False]
     else if c = 110 then [Rng 10 10] else if c = 114 then [Rng 13 13] else if c = 116 then [Rng 9 9]
     else [Rng c c])"

definition hex_value :: "uchar \<Rightarrow> nat" where
  "hex_value c = (if c \<le> 57 then c - 48 else if c \<le> 70 then c - 55 else c - 87)"

text \<open>An escape after its backslash: the characters it stands for and the text after it.\<close>

definition read_escape :: "str \<Rightarrow> (char_item list \<times> str) option" where
  "read_escape s = (case s of [] \<Rightarrow> None | c # r \<Rightarrow>
     if c = 120 then (case r of a # b # r' \<Rightarrow> let v = 16 * hex_value a + hex_value b in Some ([Rng v v], r') | _ \<Rightarrow> None)
     else Some (escape_items c, r))"

text \<open>The items of a class up to its closing bracket. A dash stands for itself next to a bracket.\<close>

function (sequential) read_class :: "bool \<Rightarrow> str \<Rightarrow> (char_item list \<times> str) option" where
  "read_class first [] = None"
| "read_class first (c # s) =
     (if c = 93 \<and> \<not> first then Some ([], s)
      else if c = 92 then
        (case read_escape s of None \<Rightarrow> None | Some (items, s') \<Rightarrow>
           if length s' \<le> length s then map_option (\<lambda>(is, t). (items @ is, t)) (read_class False s') else None)
      else (case s of
         d # e # s' \<Rightarrow>
           if d = 45 \<and> e \<noteq> 93 \<and> e \<noteq> 92 then map_option (\<lambda>(is, t). (Rng c e # is, t)) (read_class False s')
           else map_option (\<lambda>(is, t). (Rng c c # is, t)) (read_class False s)
       | _ \<Rightarrow> map_option (\<lambda>(is, t). (Rng c c # is, t)) (read_class False s)))"
  by pat_completeness auto
termination by (relation "measure (\<lambda>(first, s). length s)") auto

fun read_number :: "str \<Rightarrow> nat \<Rightarrow> nat \<times> str" where
  "read_number [] n = (n, [])"
| "read_number (c # s) n = (if is_digit c then read_number s (10 * n + (c - 48)) else (n, c # s))"

text \<open>The bounds of a repetition, if one follows.\<close>

definition read_bounds :: "str \<Rightarrow> ((nat \<times> nat option) \<times> str) option" where
  "read_bounds s = (case s of [] \<Rightarrow> None | c # r \<Rightarrow>
     if c = 42 then Some ((0, None), r)
     else if c = 43 then Some ((1, None), r)
     else if c = 63 then Some ((0, Some 1), r)
     else if c = 123 then
       (case read_number r 0 of
          (lo, d # r1) \<Rightarrow>
            if d = 125 then Some ((lo, Some lo), r1)
            else if d = 44 then
              (case r1 of e # r2 \<Rightarrow> if e = 125 then Some ((lo, None), r2)
                 else (case read_number r1 0 of (hi, f # r3) \<Rightarrow> if f = 125 then Some ((lo, Some hi), r3) else None
                       | _ \<Rightarrow> None)
               | [] \<Rightarrow> None)
            else None
        | _ \<Rightarrow> None)
     else None)"

definition read_repetition :: "rx \<Rightarrow> str \<Rightarrow> rx \<times> str" where
  "read_repetition r s = (case read_bounds s of
     None \<Rightarrow> (r, s)
   | Some ((lo, hi), s') \<Rightarrow>
       (case s' of c # s'' \<Rightarrow> if c = 63 then (Rep False lo hi r, s'') else (Rep True lo hi r, s')
        | [] \<Rightarrow> (Rep True lo hi r, s')))"

text \<open>The text after the marks of a group: whether it counts, and the rest.\<close>

definition read_group_open :: "str \<Rightarrow> bool \<times> str" where
  "read_group_open s =
     (if starts_with s (lit ''?:'') then (False, drop 2 s)
      else if starts_with s (lit ''?P<'') then (True, drop 1 (dropWhile (\<lambda>c. c \<noteq> 62) s))
      else (True, s))"

text \<open>
  Alternatives up to a closing parenthesis or the end; each reads factors until a bar. The fuel is the
  length of the pattern, which every recursive call but one per group has less of.
\<close>

fun read_alt :: "nat \<Rightarrow> bool \<Rightarrow> nat \<Rightarrow> rx \<Rightarrow> str \<Rightarrow> (rx \<times> nat \<times> str) option" where
  "read_alt 0 ci n acc s = None"
| "read_alt (Suc k) ci n acc s = (case s of [] \<Rightarrow> Some (acc, n, [])
   | c # r \<Rightarrow>
       if c = 41 then Some (acc, n, s)
       else if c = 124 then
         (case read_alt k ci n Empty r of None \<Rightarrow> None | Some (r2, n', s') \<Rightarrow> Some (Alt acc r2, n', s'))
       else if c = 40 then
         (let (counts, body) = read_group_open r in
            (case read_alt k ci (if counts then n + 1 else n) Empty body of
               Some (g, n', d # s') \<Rightarrow>
                 (let (g', s'') = read_repetition (if counts then Group n g else g) s'
                  in read_alt k ci n' (Cat acc g') s'')
             | _ \<Rightarrow> None))
       else
         (case (if c = 91 then
                  (let neg = (r \<noteq> [] \<and> hd r = 94)
                   in map_option (\<lambda>(is, t). (Chars ci neg is, t)) (read_class True (if neg then tl r else r)))
                else if c = 92 then
                  (if r \<noteq> [] \<and> hd r = 98 then Some (WordBoundary, tl r)
                   else map_option (\<lambda>(is, t). (Chars ci False is, t)) (read_escape r))
                else if c = 46 then Some (any_char, r)
                else if c = 94 then Some (AtStart, r)
                else if c = 36 then Some (AtEnd, r)
                else Some (Chars ci False [Rng c c], r)) of
            None \<Rightarrow> None
          | Some (f, s') \<Rightarrow> (let (f', s'') = read_repetition f s' in read_alt k ci n (Cat acc f') s'')))"

definition read_regex :: "str \<Rightarrow> rx option" where
  "read_regex p = (let ci = starts_with p (lit ''(?i)''); q = (if ci then drop 4 p else p)
     in (case read_alt (2 * length q + 1) ci 1 Empty q of
       Some (r, n, []) \<Rightarrow> Some r | _ \<Rightarrow> None))"

section \<open>The documented engine\<close>

definition doc_is_match :: "unicode_tables \<Rightarrow> str \<Rightarrow> str \<Rightarrow> bool" where
  "doc_is_match u p s = (case read_regex p of None \<Rightarrow> False
     | Some r \<Rightarrow> find_from u r None 0 s \<noteq> None)"

definition doc_find_iter :: "unicode_tables \<Rightarrow> str \<Rightarrow> str \<Rightarrow> regex_match list" where
  "doc_find_iter u p s = (case read_regex p of None \<Rightarrow> []
     | Some r \<Rightarrow> find_all u r (length s + 1) None 0 s)"

definition documented_engine :: "unicode_tables \<Rightarrow> regex_engine" where
  "documented_engine u = \<lparr>rx_is_match = doc_is_match u, rx_find_iter = doc_find_iter u\<rparr>"

definition ascii_tables :: unicode_tables where
  "ascii_tables = \<lparr>uni_word = (\<lambda>_. False), uni_digit = (\<lambda>_. False)\<rparr>"

section \<open>Evaluation\<close>

text \<open>The functions with fuel, unfolded when the fuel is a numeral.\<close>

lemmas read_alt_numeral = read_alt.simps(2) [of "pred_numeral k" for k, folded numeral_eq_Suc]
lemmas repeat_match_numeral = repeat_match.simps(2) [of _ _ "pred_numeral k" for k, folded numeral_eq_Suc]
lemmas find_all_numeral = find_all.simps(2) [of _ _ "pred_numeral k" for k, folded numeral_eq_Suc]

lemmas parse_eval = read_regex_def pat_def starts_with_def Let_def read_escape_def escape_items_def
  hex_value_def read_bounds_def read_repetition_def read_group_open_def any_char_def is_digit_def read_alt_numeral

lemmas run_eval = char_in_def case_variants_def word_char_def at_boundary_def is_ws_def ascii_tables_def
  digit_char_def repeat_match_numeral find_all_numeral

end
