(* ===== verification/ShellHarden.thy ===== *)
theory ShellHarden
  imports RegexEngine
begin

text \<open>
  The opt-in pre-flight of shell commands (\<open>bharatcode-core/src/security/shell_harden.rs\<close>): the mode
  read from the environment, the ordered list of patterns with their severities, and the assessment.
  The regular expressions are matched by the engine \<open>rx\<close>.
\<close>

definition HARDEN_ENV :: str where "HARDEN_ENV = lit ''BHARATCODE_HARDEN''"

datatype harden_mode = HardenOff | HardenWarn | HardenStrict

datatype risk = Safe | Warned str | Blocked str

definition risk_reason :: "risk \<Rightarrow> str option" where
  "risk_reason r = (case r of Safe \<Rightarrow> None | Warned s \<Rightarrow> Some s | Blocked s \<Rightarrow> Some s)"

text \<open>\<open>var\<close> is the value of the variable.\<close>

definition harden_mode_of :: "str option \<Rightarrow> harden_mode" where
  "harden_mode_of var = (case map_option (to_ascii_lowercase \<circ> trim) var of
     Some v \<Rightarrow> if v = lit ''warn'' then HardenWarn
       else if v = lit ''strict'' \<or> v = lit ''block'' then HardenStrict else HardenOff
   | None \<Rightarrow> HardenOff)"

datatype severity = SevWarn | SevCritical

record harden_pattern =
  hp_regex :: str
  hp_severity :: severity
  hp_reason :: str

definition rm_reason :: str where
  "rm_reason = lit ''destructive recursive remove targeting the filesystem root or home directory''"

definition harden_patterns :: "harden_pattern list" where
  "harden_patterns = [
     \<lparr>hp_regex = pat ''(?:curl|wget|fetch)%b[^|]*%|%s*(?:sudo%s+)?(?:sh|bash|zsh|dash|ksh)%b'',
      hp_severity = SevCritical,
      hp_reason = lit ''pipe-to-shell: a downloaded payload is piped directly into a shell interpreter''\<rparr>,
     \<lparr>hp_regex = pat ''base64%b[^|]*(?:-d|--decode|-D)[^|]*%|%s*(?:sudo%s+)?(?:sh|bash|zsh|dash|ksh)%b'',
      hp_severity = SevCritical,
      hp_reason = lit ''pipe-to-shell: base64-decoded data is piped directly into a shell interpreter''\<rparr>,
     \<lparr>hp_regex = pat (''%brm%s+(?:--?[a-zA-Z][%w-]*%s+)*--?[a-zA-Z]*[rR][a-zA-Z]*[fF][a-zA-Z]*%s+''
        @ ''(?:--?[a-zA-Z][%w-]*%s+)*(?:--%s+)?(?:/|~|%$HOME)(?:%s|/|$)''),
      hp_severity = SevCritical, hp_reason = rm_reason\<rparr>,
     \<lparr>hp_regex = pat (''%brm%s+(?:--?[a-zA-Z][%w-]*%s+)*--?[a-zA-Z]*[fF][a-zA-Z]*[rR][a-zA-Z]*%s+''
        @ ''(?:--?[a-zA-Z][%w-]*%s+)*(?:--%s+)?(?:/|~|%$HOME)(?:%s|/|$)''),
      hp_severity = SevCritical, hp_reason = rm_reason\<rparr>,
     \<lparr>hp_regex = pat ''%bchmod%b[^|;&]*%b(?:777|0777|a=rwx|a%+rwx|o%+w)%b'',
      hp_severity = SevWarn, hp_reason = lit ''world-writable permissions granted via chmod''\<rparr>,
     \<lparr>hp_regex = pat ''(?:>>?|%btee%b)%s*(?:-a%s+)?/(?:etc|boot|sys|proc|usr|bin|sbin|lib|lib64)/'',
      hp_severity = SevWarn, hp_reason = lit ''write redirected into a protected system directory''\<rparr>]"

definition risk_of :: "harden_mode \<Rightarrow> harden_pattern \<Rightarrow> risk" where
  "risk_of m p = (case hp_severity p of
     SevCritical \<Rightarrow> if m = HardenStrict then Blocked (hp_reason p) else Warned (hp_reason p)
   | SevWarn \<Rightarrow> Warned (hp_reason p))"

text \<open>The first pattern that matches decides.\<close>

definition assess_with_mode :: "regex_engine \<Rightarrow> str \<Rightarrow> harden_mode \<Rightarrow> risk" where
  "assess_with_mode rx cmd m =
     (if m = HardenOff then Safe
      else (case find (\<lambda>p. rx_is_match rx (hp_regex p) cmd) harden_patterns of
        Some p \<Rightarrow> risk_of m p | None \<Rightarrow> Safe))"

definition assess :: "regex_engine \<Rightarrow> str option \<Rightarrow> str \<Rightarrow> risk" where
  "assess rx var cmd = assess_with_mode rx cmd (harden_mode_of var)"

section \<open>What is blocked\<close>

text \<open>
  A command is refused exactly in strict mode and when one of the critical patterns matches it, and then
  it is noticed in warning mode too; nothing is noticed when the pre-flight is off.
\<close>
theorem assess_blocks_iff:
  "((\<exists>why. assess_with_mode rx cmd m = Blocked why) \<longleftrightarrow>
      m = HardenStrict \<and> list_ex (\<lambda>p. hp_severity p = SevCritical \<and> rx_is_match rx (hp_regex p) cmd) harden_patterns)
   \<and> (assess_with_mode rx cmd m = Safe \<longleftrightarrow>
      \<not> (m \<noteq> HardenOff \<and> list_ex (\<lambda>p. rx_is_match rx (hp_regex p) cmd) harden_patterns))
   \<and> risk_reason (assess_with_mode rx cmd HardenWarn) = risk_reason (assess_with_mode rx cmd HardenStrict)"
  by (cases m) (auto simp: assess_with_mode_def harden_patterns_def risk_of_def risk_reason_def)

text \<open>The removal of the root directory is refused in strict mode; with the two flags apart it passes.\<close>

lemma rm_root_blocked:
  "assess_with_mode (documented_engine ascii_tables) (lit ''rm -rf /'') HardenStrict = Blocked rm_reason"
  by code_simp

lemma rm_split_flags_pass:
  "assess_with_mode (documented_engine ascii_tables) (lit ''rm -r -f /'') HardenStrict = Safe"
  by code_simp

text \<open>So does the removal of everything below the root.\<close>

lemma rm_star_passes:
  "assess_with_mode (documented_engine ascii_tables) (lit ''rm -rf /*'') HardenStrict = Safe"
  by code_simp

end
