(* ===== verification/Redact.thy ===== *)
theory Redact
  imports RegexEngine Message
begin

text \<open>
  The opt-in redaction of secrets in what a shell command printed
  (\<open>bharatcode-core/src/agents/platform_extensions/developer/redact.rs\<close>, \<open>redact_shell_result\<close> of
  \<open>developer/mod.rs\<close>). The patterns are applied in order, each to what the ones before left; a pattern with
  the group \<open>keep\<close>, its only group, keeps what that group matched.
\<close>

definition REDACTED :: str where "REDACTED = lit ''[REDACTED]''"

definition REDACT_ENV :: str where "REDACT_ENV = lit ''BHARATCODE_REDACT''"

definition redact_enabled :: "str option \<Rightarrow> bool" where
  "redact_enabled var = (case map_option (to_ascii_lowercase \<circ> trim) var of
     Some v \<Rightarrow> v \<in> {lit ''1'', lit ''true'', lit ''yes'', lit ''on''} | None \<Rightarrow> False)"

definition redact_patterns :: "str list" where
  "redact_patterns = [
     pat ''%b(?:AKIA|ASIA|AGPA|AIDA|AROA|AIPA|ANPA|ANVA|ABIA|ACCA)[0-9A-Z]{16}%b'',
     pat ''%bgh[pousr]_[A-Za-z0-9]{36,255}%b'',
     pat ''%bgithub_pat_[A-Za-z0-9_]{22,255}%b'',
     pat ''%bxox[baprs]-[A-Za-z0-9-]{10,}%b'',
     pat ''%bAIza[0-9A-Za-z_%-]{35}%b'',
     pat ''%b(?:sk|rk)_(?:live|test)_[0-9A-Za-z]{16,}%b'',
     pat ''-----BEGIN (?:RSA |EC |DSA |OPENSSH |PGP |ENCRYPTED )?PRIVATE KEY-----'',
     pat ''(?i)(?P<keep>%b(?:bearer|authorization:%s*bearer)%s+)[A-Za-z0-9._%-]{16,}'',
     pat (''(?i)(?P<keep>%b(?:api[_-]?key|secret[_-]?key|access[_-]?token|auth[_-]?token|client[_-]?secret''
       @ ''|secret|token|passwd|password)%b%s*[:=]%s*)[\"']?[A-Za-z0-9._%-/+]{12,}[\"']?''),
     pat ''(?P<keep>%b[A-Z][A-Z0-9_]*(?:KEY|TOKEN|SECRET|PASSWORD|PASSWD)%s*=%s*)[\"']?[A-Za-z0-9._%-/+]{8,}[\"']?'']"

text \<open>What stands for a match: the kept group, if there is one, and the sentinel.\<close>

definition replacement :: "str \<Rightarrow> regex_match \<Rightarrow> str" where
  "replacement text m = (case m_group text m 1 of Some keep \<Rightarrow> keep @ REDACTED | None \<Rightarrow> REDACTED)"

text \<open>\<open>Regex::replace_all\<close>: the text between the matches stays.\<close>

fun splice_matches :: "str \<Rightarrow> nat \<Rightarrow> regex_match list \<Rightarrow> str" where
  "splice_matches text pos [] = drop pos text"
| "splice_matches text pos (m # ms) =
     slice text pos (m_start m) @ replacement text m @ splice_matches text (m_end m) ms"

definition redact_one :: "regex_engine \<Rightarrow> str \<Rightarrow> str \<times> nat \<Rightarrow> str \<times> nat" where
  "redact_one rx p = (\<lambda>(text, count). let ms = rx_find_iter rx p text in
     (splice_matches text 0 ms, count + length ms))"

definition redact_counted :: "regex_engine \<Rightarrow> str \<Rightarrow> str \<times> nat" where
  "redact_counted rx input = fold (redact_one rx) redact_patterns (input, 0)"

definition redact :: "regex_engine \<Rightarrow> str \<Rightarrow> str" where
  "redact rx input = fst (redact_counted rx input)"

definition redact_block :: "regex_engine \<Rightarrow> mcp_content \<Rightarrow> mcp_content" where
  "redact_block rx b = (case raw b of RawText t \<Rightarrow> b\<lparr>raw := RawText (redact rx t)\<rparr> | _ \<Rightarrow> b)"

definition redact_field :: "regex_engine \<Rightarrow> str \<times> json \<Rightarrow> str \<times> json" where
  "redact_field rx = (\<lambda>(k, v). (k, case v of
     JString s \<Rightarrow> if k = lit ''stdout'' \<or> k = lit ''stderr'' then JString (redact rx s) else v | _ \<Rightarrow> v))"

definition redact_shell_result :: "regex_engine \<Rightarrow> str option \<Rightarrow> call_tool_result \<Rightarrow> call_tool_result" where
  "redact_shell_result rx var result =
     (if \<not> redact_enabled var then result
      else result\<lparr>result_content := List.map (redact_block rx) (result_content result),
        structured_content := (case structured_content result of
          Some (JObject m) \<Rightarrow> Some (JObject (List.map (redact_field rx) m)) | sc \<Rightarrow> sc)\<rparr>)"

section \<open>What redaction does\<close>

text \<open>
  Where the engine finds nothing the text stays, and the count says whether anything was replaced.
\<close>

lemma redact_one_step:
  "redact_one rx p (t, n) = (splice_matches t 0 (rx_find_iter rx p t), n + length (rx_find_iter rx p t))"
  by (simp add: redact_one_def Let_def)

lemma fold_redact_count: "snd (fold (redact_one rx) ps (t, n)) \<ge> n"
proof (induction ps arbitrary: t n)
  case (Cons p ps)
  have "n + length (rx_find_iter rx p t) \<le> snd (fold (redact_one rx) ps (splice_matches t 0 (rx_find_iter rx p t), n + length (rx_find_iter rx p t)))"
    by (rule Cons.IH)
  then show ?case by (simp add: redact_one_step)
qed simp

lemma fold_redact_none:
  "snd (fold (redact_one rx) ps (t, n)) = n \<Longrightarrow> fold (redact_one rx) ps (t, n) = (t, n) \<and> (\<forall>p \<in> set ps. rx_find_iter rx p t = [])"
proof (induction ps arbitrary: t n)
  case (Cons p ps)
  let ?ms = "rx_find_iter rx p t"
  have "n + length ?ms \<le> n"
    using Cons.prems fold_redact_count [of "n + length ?ms" rx ps "splice_matches t 0 ?ms"]
    by (simp add: redact_one_step)
  then have ms: "?ms = []" by simp
  with Cons show ?case by (simp add: redact_one_step)
qed simp

lemma redact_counted_none:
  "snd (redact_counted rx t) = 0 \<longleftrightarrow> (\<forall>p \<in> set redact_patterns. rx_find_iter rx p t = [])"
proof
  assume "snd (redact_counted rx t) = 0"
  then show "\<forall>p \<in> set redact_patterns. rx_find_iter rx p t = []"
    using fold_redact_none unfolding redact_counted_def by blast
next
  have "fold (redact_one rx) ps (t, n) = (t, n)" if "\<forall>p \<in> set ps. rx_find_iter rx p t = []" for ps n
    using that by (induction ps) (simp_all add: redact_one_step)
  moreover assume "\<forall>p \<in> set redact_patterns. rx_find_iter rx p t = []"
  ultimately show "snd (redact_counted rx t) = 0" by (simp add: redact_counted_def)
qed

lemma redact_untouched: "snd (redact_counted rx t) = 0 \<Longrightarrow> redact rx t = t"
  using fold_redact_none [of rx redact_patterns t 0] by (simp add: redact_counted_def redact_def)

end
