(* ===== verification/EditTool.thy ===== *)
theory EditTool
  imports PatchDisk Message
begin

text \<open>
  The developer tools that read, write, edit and patch files
  (\<open>bharatcode-core/src/agents/platform_extensions/developer/edit.rs\<close> and \<open>apply_patch.rs\<close>), over the
  file operations of \<open>PatchDisk\<close>. Positions are numbers of characters. A slice out of range is \<open>None\<close>.
  \<open>show_path\<close> and \<open>show_error\<close> print a path and the error of a patch; \<open>here\<close> is the current directory, if
  it is known.
\<close>

section \<open>Tool results\<close>

definition text_block :: "str \<Rightarrow> mcp_content" where
  "text_block s = \<lparr>raw = RawText s, content_audience = None\<rparr>"

definition tool_error :: "str \<Rightarrow> call_tool_result" where
  "tool_error msg = \<lparr>result_content = [text_block msg], structured_content = None, is_error = Some True, result_meta = None\<rparr>"

definition tool_success :: "str \<Rightarrow> call_tool_result" where
  "tool_success msg = \<lparr>result_content = [text_block msg], structured_content = None, is_error = Some False, result_meta = None\<rparr>"

section \<open>Messages\<close>

definition NO_MATCH_PREVIEW_LINES :: nat where "NO_MATCH_PREVIEW_LINES = 20"

text \<open>\<open>&lines[start..end]\<close>.\<close>

definition list_slice :: "'a list \<Rightarrow> nat \<Rightarrow> nat \<Rightarrow> 'a list option" where
  "list_slice xs a b = (if a \<le> b \<and> b \<le> length xs then Some (take (b - a) (drop a xs)) else None)"

text \<open>\<open>str::match_indices\<close>: the positions of the matches that do not overlap, from the left.\<close>

function match_indices :: "nat \<Rightarrow> str \<Rightarrow> str \<Rightarrow> nat list" where
  "match_indices pos body p =
     (if p = [] then [pos..<pos + length body + 1]
      else (case body of [] \<Rightarrow> []
        | c # s \<Rightarrow> (case strip_prefix body p of
            Some rest \<Rightarrow> pos # match_indices (pos + length p) rest p
          | None \<Rightarrow> match_indices (pos + 1) s p)))"
  by pat_completeness auto
termination
  by (relation "measure (\<lambda>(pos, body, p). length body)") (auto simp: Cons_eq_append_conv)

declare match_indices.simps [simp del]

text \<open>\<open>str::replacen\<close> with a count of one.\<close>

fun replace_first :: "str \<Rightarrow> str \<Rightarrow> str \<Rightarrow> str" where
  "replace_first body before after = (case strip_prefix body before of
     Some rest \<Rightarrow> after @ rest
   | None \<Rightarrow> (case body of [] \<Rightarrow> [] | c # s \<Rightarrow> c # replace_first s before after))"

declare replace_first.simps [simp del]

definition count_lines_before :: "str \<Rightarrow> nat \<Rightarrow> nat" where
  "count_lines_before body pos = length (filter (\<lambda>c. c = newline) (take pos body)) + 1"

definition get_line_context :: "str \<Rightarrow> nat \<Rightarrow> nat \<Rightarrow> str option" where
  "get_line_context body target_line context =
     (let lines = str_lines body; start = target_line - (context + 1);
          stop = min (target_line + context) (length lines)
      in map_option (join_with [newline]) (list_slice lines start stop))"

fun find_similar_from :: "str \<Rightarrow> str \<Rightarrow> nat \<Rightarrow> str list \<Rightarrow> str option option" where
  "find_similar_from body first_line i [] = Some None"
| "find_similar_from body first_line i (line # ls) =
     (if contains_str line first_line \<or> contains_str first_line (trim line)
      then map_option Some (get_line_context body (i + 1) 2)
      else find_similar_from body first_line (i + 1) ls)"

text \<open>The outer option is a panic, the inner one the result of the function.\<close>

definition find_similar_context :: "str \<Rightarrow> str \<Rightarrow> str option option" where
  "find_similar_context body search = (case str_lines search of [] \<Rightarrow> Some None
   | l # _ \<Rightarrow> if trim l = [] then Some None else find_similar_from body (trim l) 0 (str_lines body))"

definition pad_left :: "nat \<Rightarrow> str \<Rightarrow> str" where
  "pad_left w s = replicate (w - length s) 32 @ s"

fun numbered_lines :: "nat \<Rightarrow> str list \<Rightarrow> str list" where
  "numbered_lines i [] = []"
| "numbered_lines i (l # ls) = (pad_left 4 (show_nat (i + 1)) @ lit '': '' @ l) # numbered_lines (i + 1) ls"

definition build_file_preview :: "str \<Rightarrow> nat \<Rightarrow> str" where
  "build_file_preview body max_lines =
     (if body = [] then lit ''(file is empty)''
      else
        let lines = str_lines body; preview_end = min (length lines) max_lines;
            preview = join_with [newline] (numbered_lines 0 (take preview_end lines))
        in preview @ (if preview_end < length lines
           then [newline] @ lit ''... ('' @ show_nat (length lines - preview_end) @ lit '' more lines)'' else []))"

definition fenced :: "str \<Rightarrow> str" where
  "fenced s = lit ''```'' @ [newline] @ s @ [newline] @ lit ''```''"

definition no_match_message :: "str \<Rightarrow> str \<Rightarrow> str option" where
  "no_match_message body before = map_option (\<lambda>suggestion.
     lit ''No match found for the specified text.''
     @ (case suggestion of Some hint \<Rightarrow> [newline, newline] @ lit ''Did you mean:'' @ [newline] @ fenced hint | None \<Rightarrow> [])
     @ [newline, newline] @ lit ''File preview:'' @ [newline] @ fenced (build_file_preview body NO_MATCH_PREVIEW_LINES))
   (find_similar_context body before)"

text \<open>One of the first two matches, with its number and the lines around it.\<close>

definition match_message :: "str \<Rightarrow> nat \<Rightarrow> nat \<Rightarrow> str option" where
  "match_message body i pos = (let line_num = count_lines_before body pos in
     map_option (\<lambda>ctx. [newline] @ lit ''Match '' @ show_nat i @ lit '' (line '' @ show_nat line_num @ lit ''):''
       @ [newline] @ fenced ctx) (get_line_context body line_num 1))"

definition many_matches_message :: "str \<Rightarrow> nat list \<Rightarrow> str option" where
  "many_matches_message body ps =
     (case (match_message body 1 (ps ! 0), match_message body 2 (ps ! 1)) of
        (Some a, Some b) \<Rightarrow> Some (lit ''Found '' @ show_nat (length ps)
          @ lit '' matches. Please provide more context to identify a unique match:'' @ [newline] @ a @ b
          @ (if 2 < length ps then [newline, newline] @ lit ''...and '' @ show_nat (length ps - 2) @ lit '' more'' else []))
      | _ \<Rightarrow> None)"

text \<open>The replacement, an error message, or a panic (\<open>None\<close>).\<close>

definition string_replace :: "str \<Rightarrow> str \<Rightarrow> str \<Rightarrow> (str, str) result option" where
  "string_replace body before after = (let ps = match_indices 0 body before in
     if ps = [] then map_option Err (no_match_message body before)
     else if length ps = 1 then Some (Ok (replace_first body before after))
     else map_option Err (many_matches_message body ps))"

section \<open>Reading a range of lines\<close>

text \<open>\<open>split_inclusive\<close>: each line with its line feed.\<close>

fun split_inclusive :: "str \<Rightarrow> str list" where
  "split_inclusive [] = []"
| "split_inclusive (c # s) =
     (if c = newline then [c] # split_inclusive s
      else (case split_inclusive s of [] \<Rightarrow> [[c]] | l # ls \<Rightarrow> (c # l) # ls))"

definition apply_line_limit :: "str \<Rightarrow> nat option \<Rightarrow> nat option \<Rightarrow> str option" where
  "apply_line_limit body line limit =
     (if line = None \<and> limit = None then Some body
      else
        let lines = split_inclusive body;
            start = min (case line of Some l \<Rightarrow> l - 1 | None \<Rightarrow> 0) (length lines);
            stop = min (case limit of Some l \<Rightarrow> start + l | None \<Rightarrow> length lines) (length lines)
        in map_option concat (list_slice lines start stop))"

section \<open>The tools\<close>

record file_env =
  show_path :: "fpath \<Rightarrow> str"
  show_error :: "apply_patch_error \<Rightarrow> str"
  here :: "fpath option"

definition working_path :: "file_env \<Rightarrow> fpath option \<Rightarrow> fpath" where
  "working_path env wd = (case wd of Some d \<Rightarrow> d
   | None \<Rightarrow> (case here env of Some d \<Rightarrow> d | None \<Rightarrow> parse_path (lit ''.'')))"

definition resolve_path :: "file_env \<Rightarrow> fpath option \<Rightarrow> str \<Rightarrow> fpath" where
  "resolve_path env wd p = resolve (working_path env wd) p"

definition failed_to :: "string \<Rightarrow> str \<Rightarrow> str \<Rightarrow> call_tool_result" where
  "failed_to what name e = tool_error (lit ''Failed to '' @ lit what @ lit '' '' @ name @ lit '': '' @ e)"

definition file_read :: "'w disk_ops \<Rightarrow> file_env \<Rightarrow> str \<Rightarrow> nat option \<Rightarrow> nat option \<Rightarrow> fpath option \<Rightarrow> 'w \<Rightarrow> call_tool_result option" where
  "file_read ops env name line limit wd w = (case read_to_string ops w (resolve_path env wd name) of
     Ok body \<Rightarrow> map_option tool_success (apply_line_limit body line limit)
   | Err e \<Rightarrow> Some (failed_to ''read'' name e))"

definition write_after_dirs :: "'w disk_ops \<Rightarrow> str \<Rightarrow> str \<Rightarrow> fpath \<Rightarrow> 'w \<Rightarrow> 'w \<times> call_tool_result" where
  "write_after_dirs ops name text p w = (let is_new = \<not> path_exists ops w p in
     case write_file ops w p text of
       (w', None) \<Rightarrow> (w', tool_success ((if is_new then lit ''Created'' else lit ''Wrote'') @ lit '' '' @ name
          @ lit '' ('' @ show_nat (length (str_lines text)) @ lit '' lines)''))
     | (w', Some e) \<Rightarrow> (w', failed_to ''write'' name e))"

definition file_write :: "'w disk_ops \<Rightarrow> file_env \<Rightarrow> str \<Rightarrow> str \<Rightarrow> fpath option \<Rightarrow> 'w \<Rightarrow> 'w \<times> call_tool_result" where
  "file_write ops env name text wd w = (let p = resolve_path env wd name in
     case parent_path p of
       Some d \<Rightarrow>
         if \<not> empty_path d \<and> \<not> path_exists ops w d
         then (case create_dir_all ops w d of
            (w', Some e) \<Rightarrow> (w', failed_to ''create directory'' (show_path env d) e)
          | (w', None) \<Rightarrow> write_after_dirs ops name text p w')
         else write_after_dirs ops name text p w
     | None \<Rightarrow> write_after_dirs ops name text p w)"

definition file_edit :: "'w disk_ops \<Rightarrow> file_env \<Rightarrow> str \<Rightarrow> str \<Rightarrow> str \<Rightarrow> fpath option \<Rightarrow> 'w \<Rightarrow> ('w \<times> call_tool_result) option" where
  "file_edit ops env name before after wd w = (let p = resolve_path env wd name in
     case read_to_string ops w p of
       Err e \<Rightarrow> Some (w, failed_to ''read'' name e)
     | Ok body \<Rightarrow> (case string_replace body before after of
          None \<Rightarrow> None
        | Some (Err msg) \<Rightarrow> Some (w, tool_error msg)
        | Some (Ok new) \<Rightarrow> (case write_file ops w p new of
             (w', None) \<Rightarrow> Some (w', tool_success (lit ''Edited '' @ name @ lit '' ('' @ show_nat (length (str_lines before))
                @ lit '' lines -> '' @ show_nat (length (str_lines after)) @ lit '' lines)''))
           | (w', Some e) \<Rightarrow> Some (w', failed_to ''write'' name e))))"

definition apply_patch_tool :: "'w disk_ops \<Rightarrow> file_env \<Rightarrow> str \<Rightarrow> fpath option \<Rightarrow> 'w \<Rightarrow> 'w \<times> call_tool_result" where
  "apply_patch_tool ops env patch wd w = (case apply_patch_to_disk ops patch (working_path env wd) w of
     (w', Ok summary) \<Rightarrow> (w', tool_success (render_summary summary))
   | (w', Err e) \<Rightarrow> (w', tool_error (lit ''Failed to apply patch: '' @ show_error env e)))"

section \<open>The edit replaces the one place\<close>

text \<open>The first place where the text occurs, and what is before and behind it.\<close>

definition first_place :: "str \<Rightarrow> str \<Rightarrow> str \<Rightarrow> str \<Rightarrow> bool" where
  "first_place p c pre post = (c = pre @ p @ post \<and> list_all (\<lambda>k. \<not> starts_with (drop k c) p) [0..<length pre])"

lemma first_placeI: "c = pre @ p @ post \<Longrightarrow> (\<And>k. k < length pre \<Longrightarrow> \<not> starts_with (drop k c) p) \<Longrightarrow> first_place p c pre post"
  unfolding first_place_def list_all_iff set_upt by simp

lemma first_placeD:
  assumes "first_place p c pre post"
  shows "c = pre @ p @ post" "k < length pre \<Longrightarrow> \<not> starts_with (drop k c) p"
  using assms unfolding first_place_def list_all_iff set_upt by (blast, metis atLeastLessThan_iff zero_le)

lemma first_place_Cons:
  assumes "\<not> starts_with (x # c) p" and "first_place p c pre post"
  shows "first_place p (x # c) (x # pre) post"
proof (rule first_placeI)
  show "x # c = (x # pre) @ p @ post" using first_placeD(1) [OF assms(2)] by simp
  show "\<not> starts_with (drop k (x # c)) p" if "k < length (x # pre)" for k
    using that assms(1) first_placeD(2) [OF assms(2)] by (cases k) simp_all
qed

lemma first_place_exists:
  assumes "p \<noteq> []" and "contains_str c p"
  obtains pre post where "first_place p c pre post"
    and "\<And>pos. match_indices pos c p = (pos + length pre) # match_indices (pos + length pre + length p) post p"
    and "\<And>a. replace_first c p a = pre @ a @ post"
  using assms(2)
proof (induction c arbitrary: thesis)
  case Nil
  with assms(1) show ?case by simp
next
  case (Cons x c)
  show ?case
  proof (cases "strip_prefix (x # c) p")
    case (Some r)
    then have "first_place p (x # c) [] r" by (intro first_placeI) simp_all
    then show ?thesis
      using Some assms(1) Cons.prems(1) [of "[]" r]
      by (simp add: match_indices.simps [of _ "x # c"] replace_first.simps [of "x # c"] del: strip_prefix_Some)
  next
    case None
    then have ns: "\<not> starts_with (x # c) p" by (simp add: starts_with_def)
    with Cons.prems have "contains_str c p" by simp
    with Cons.IH obtain pre post where fp: "first_place p c pre post"
      "\<And>pos. match_indices pos c p = (pos + length pre) # match_indices (pos + length pre + length p) post p"
      "\<And>a. replace_first c p a = pre @ a @ post" by blast
    show ?thesis
      using None assms(1) fp(2,3) first_place_Cons [OF ns fp(1)]
      by (intro Cons.prems(1) [of "x # pre" post])
        (simp_all add: match_indices.simps [of _ "x # c"] replace_first.simps [of "x # c"])
  qed
qed

lemma match_indices_none: "p \<noteq> [] \<Longrightarrow> \<not> contains_str c p \<Longrightarrow> match_indices pos c p = []"
proof (induction c arbitrary: pos)
  case (Cons x c)
  then show ?case
    by (cases "strip_prefix (x # c) p") (auto simp: match_indices.simps [of _ "x # c"] starts_with_def)
qed (simp add: match_indices.simps)

lemma first_place_unique:
  assumes "first_place p c pre post" and "first_place p c pre' post'"
  shows "pre = pre' \<and> post = post'"
proof -
  have s: "starts_with (drop (length pre) c) p" "starts_with (drop (length pre') c) p"
    by (subst first_placeD(1) [OF assms(1)]; simp add: starts_with_iff)
      (subst first_placeD(1) [OF assms(2)]; simp add: starts_with_iff)
  then have "\<not> length pre < length pre'" "\<not> length pre' < length pre"
    using first_placeD(2) [OF assms(1)] first_placeD(2) [OF assms(2)] by blast+
  then have "length pre = length pre'" by simp
  with first_placeD(1) [OF assms(1)] first_placeD(1) [OF assms(2)] show ?thesis by simp
qed

lemma match_indices_Nil: "p \<noteq> [] \<Longrightarrow> match_indices pos c p = [] \<longleftrightarrow> \<not> contains_str c p"
  using first_place_exists [of p c] match_indices_none [of p c pos]
  by (metis list.distinct(1))

lemma string_replace_single:
  assumes "before \<noteq> []"
  shows "(length (match_indices 0 c before) = 1 \<and> replace_first c before after = new)
    \<longleftrightarrow> (\<exists>pre post. first_place before c pre post \<and> \<not> contains_str post before \<and> new = pre @ after @ post)"
proof (cases "contains_str c before")
  case True
  from first_place_exists [OF assms this] obtain pre post where
    fp: "first_place before c pre post"
    and m: "\<And>pos. match_indices pos c before = (pos + length pre) # match_indices (pos + length pre + length before) post before"
    and r: "\<And>a. replace_first c before a = pre @ a @ post" by metis
  have "length (match_indices 0 c before) = 1 \<longleftrightarrow> \<not> contains_str post before"
    using m [of 0] match_indices_Nil [OF assms] by simp
  moreover have "pre' = pre \<and> post' = post" if "first_place before c pre' post'" for pre' post'
    using first_place_unique [OF that fp] .
  ultimately show ?thesis using fp r [of after] by blast
next
  case False
  then have "\<not> first_place before c pre post" for pre post
    using contains_place [of pre before post] first_placeD(1) [of before c pre post] by auto
  then show ?thesis using match_indices_none [OF assms False] by simp
qed

text \<open>
  The one place of a text: it stands there, and wherever else it stands it starts behind that place's start
  and before its end. A text that cannot overlap itself stands nowhere else.
\<close>

definition one_place :: "str \<Rightarrow> str \<Rightarrow> str \<Rightarrow> str \<Rightarrow> bool" where
  "one_place c p pre post = (c = pre @ p @ post
     \<and> (\<forall>pre' post'. c = pre' @ p @ post' \<longrightarrow> length pre \<le> length pre' \<and> length pre' < length pre + length p))"

lemma contains_places: "contains_str c p \<longleftrightarrow> (\<exists>pre post. c = pre @ p @ post)"
proof
  show "contains_str c p \<Longrightarrow> \<exists>pre post. c = pre @ p @ post"
  proof (induction c)
    case (Cons x c)
    show ?case
    proof (cases "starts_with (x # c) p")
      case True
      then obtain post where "x # c = [] @ p @ post" unfolding starts_with_iff prefix_def by auto
      then show ?thesis by blast
    next
      case False
      with Cons obtain pre post where "x # c = (x # pre) @ p @ post" by auto
      then show ?thesis by blast
    qed
  qed (auto simp: starts_with_def)
qed (auto intro: contains_place)

lemma one_place_iff:
  assumes "p \<noteq> []"
  shows "one_place c p pre post \<longleftrightarrow> first_place p c pre post \<and> \<not> contains_str post p" (is "?l \<longleftrightarrow> ?r")
proof
  assume one: ?l
  then have c: "c = pre @ p @ post" by (simp add: one_place_def)
  have "\<not> starts_with (drop k c) p" if "k < length pre" for k
  proof
    assume "starts_with (drop k c) p"
    then obtain rest where "drop k c = p @ rest" unfolding starts_with_iff prefix_def by auto
    then have "c = take k c @ p @ rest" by (metis append_take_drop_id)
    with one have "length pre \<le> length (take k c)" unfolding one_place_def by blast
    with that show False by simp
  qed
  moreover have "\<not> contains_str post p"
  proof
    assume "contains_str post p"
    then obtain a b where "post = a @ p @ b" unfolding contains_places by blast
    with c have "c = (pre @ p @ a) @ p @ b" by simp
    with one have "length (pre @ p @ a) < length pre + length p" unfolding one_place_def by blast
    then show False by simp
  qed
  ultimately show ?r using c by (simp add: first_placeI)
next
  assume r: ?r
  then have c: "c = pre @ p @ post" by (simp add: first_placeD)
  have "length pre \<le> length pre' \<and> length pre' < length pre + length p" if o: "c = pre' @ p @ post'" for pre' post'
  proof
    have "starts_with (drop (length pre') c) p" by (simp add: o starts_with_iff)
    then show "length pre \<le> length pre'" using first_placeD(2) [of p c pre post "length pre'"] r by force
    show "length pre' < length pre + length p"
    proof (rule ccontr)
      assume "\<not> length pre' < length pre + length p"
      then have "post = drop (length pre + length p) pre' @ p @ post'"
        using arg_cong [OF o, of "drop (length pre + length p)"] c by simp
      then show False using r contains_places by blast
    qed
  qed
  with c show ?l by (simp add: one_place_def)
qed

lemma string_replace_places:
  assumes "before \<noteq> []"
  shows "string_replace c before after = Some (Ok new) \<longleftrightarrow>
     (\<exists>pre post. one_place c before pre post \<and> new = pre @ after @ post)"
proof -
  have "string_replace c before after = Some (Ok new) \<longleftrightarrow> length (match_indices 0 c before) = 1 \<and> replace_first c before after = new"
    by (auto simp: string_replace_def Let_def)
  then show ?thesis using string_replace_single [OF assms, of c after new] one_place_iff [OF assms] by simp
qed

section \<open>No panic\<close>

lemma length_str_lines: "length (filter (\<lambda>c. c = newline) s) \<le> length (str_lines s)"
proof -
  have "length (split_on newline s) = length (filter (\<lambda>c. c = newline) s) + 1"
    by (induction s) (auto split: list.splits)
  then show ?thesis by (simp add: str_lines_def Let_def)
qed

lemma get_line_context_some:
  assumes "t \<le> length (str_lines s) + 1"
  shows "\<exists>c. get_line_context s t k = Some c"
  using assms by (auto simp: get_line_context_def list_slice_def Let_def)

lemma count_lines_le: "count_lines_before s pos \<le> length (str_lines s) + 1"
proof -
  have "length (filter (\<lambda>c. c = newline) (take pos s)) \<le> length (filter (\<lambda>c. c = newline) s)"
    by (metis append_take_drop_id filter_append length_append le_add1)
  with length_str_lines [of s] show ?thesis by (simp add: count_lines_before_def)
qed

lemma find_similar_from_some:
  "i + length ls \<le> length (str_lines s) \<Longrightarrow> find_similar_from s f i ls \<noteq> None"
proof (induction ls arbitrary: i)
  case (Cons l ls)
  then show ?case using get_line_context_some [of "i + 1" s 2] by auto
qed simp

lemma find_similar_context_some: "find_similar_context s t \<noteq> None"
  using find_similar_from_some [of 0 "str_lines s" s] by (auto simp: find_similar_context_def split: list.splits)

lemma match_message_some: "\<exists>m. match_message s i pos = Some m"
  using get_line_context_some [OF count_lines_le [of s pos], of 1] by (auto simp: match_message_def Let_def)

lemma string_replace_total: "string_replace c before after \<noteq> None"
proof -
  obtain sugg where "find_similar_context c before = Some sugg" using find_similar_context_some by blast
  then have "no_match_message c before \<noteq> None" by (simp add: no_match_message_def)
  moreover have "many_matches_message c ps \<noteq> None" for ps
    using match_message_some [of c 1 "ps ! 0"] match_message_some [of c 2 "ps ! 1"]
    by (auto simp: many_matches_message_def)
  ultimately show ?thesis by (simp add: string_replace_def Let_def)
qed

text \<open>
  An edit either fails with a message or replaces a text that is not empty at the first place where it occurs,
  provided it does not occur again behind that place; it never reads out of range.
\<close>
theorem string_replace_one_place:
  assumes "before \<noteq> []"
  shows "string_replace c before after = Some (Ok new) \<longleftrightarrow>
     (\<exists>pre post. first_place before c pre post \<and> \<not> contains_str post before \<and> new = pre @ after @ post)"
    (is "?l \<longleftrightarrow> ?r")
proof -
  have "?l \<longleftrightarrow> length (match_indices 0 c before) = 1 \<and> replace_first c before after = new"
    by (auto simp: string_replace_def Let_def)
  then show ?thesis using string_replace_single [OF assms] by simp
qed


theorem string_replace_one_place_witness:
  "lit ''ab'' \<noteq> [] \<and> string_replace (lit ''xaby'') (lit ''ab'') (lit ''c'') = Some (Ok (lit ''xcy''))"
proof -
  have "first_place (lit ''ab'') (lit ''xaby'') (lit ''x'') (lit ''y'') \<and> \<not> contains_str (lit ''y'') (lit ''ab'')
      \<and> lit ''xcy'' = lit ''x'' @ lit ''c'' @ lit ''y''"
    by (simp add: first_place_def starts_with_def)
  then have "string_replace (lit ''xaby'') (lit ''ab'') (lit ''c'') = Some (Ok (lit ''xcy''))"
    by (intro string_replace_one_place [THEN iffD2], simp) (rule exI [of _ "lit ''x''"], rule exI [of _ "lit ''y''"], simp)
  then show ?thesis by simp
qed

text \<open>The text asked for is unique only as matches that do not overlap are counted.\<close>

lemma overlapping_match_not_seen:
  "string_replace (lit ''aaa'') (lit ''aa'') (lit ''b'') = Some (Ok (lit ''ba''))"
  by (simp add: string_replace_def match_indices.simps replace_first.simps)

text \<open>A blank line of the file is taken to be similar to any text.\<close>

lemma blank_line_is_similar:
  "find_similar_context (newline # lit ''a'') (lit ''zz'') = Some (Some (newline # lit ''a''))"
  by (simp add: find_similar_context_def get_line_context_def list_slice_def str_lines_def trim_def trim_start_def
      trim_end_def is_ws_def strip_cr_def Let_def starts_with_def)

section \<open>Reading and writing\<close>

lemma concat_split_inclusive: "concat (split_inclusive s) = s"
  by (induction s) (auto split: list.splits)

lemma apply_line_limit_lines:
  "apply_line_limit s line limit = Some (concat ((case limit of Some n \<Rightarrow> take n | None \<Rightarrow> id)
     (drop (case line of Some l \<Rightarrow> l - 1 | None \<Rightarrow> 0) (split_inclusive s))))"
proof (cases "line = None \<and> limit = None")
  case True
  then show ?thesis by (simp add: apply_line_limit_def concat_split_inclusive)
next
  case False
  let ?ls = "split_inclusive s"
  have "take (min (min a (length ?ls) + n) (length ?ls) - min a (length ?ls)) (drop (min a (length ?ls)) ?ls)
      = take n (drop a ?ls)" for a n
    by (cases "a \<le> length ?ls"; cases "a + n \<le> length ?ls") (auto simp: min_def)
  moreover have "take (length ?ls - min a (length ?ls)) (drop (min a (length ?ls)) ?ls) = drop a ?ls" for a
    by (auto simp: min_def)
  ultimately show ?thesis
    using False by (auto simp: apply_line_limit_def list_slice_def Let_def split: option.splits)
qed

context disk_laws begin

lemma file_edit_cases:
  assumes "file_edit ops env name before after wd w = Some (w', r)" and "is_error r = Some False"
  obtains t new where "read_to_string ops w (resolve_path env wd name) = Ok t"
    and "string_replace t before after = Some (Ok new)"
    and "write_file ops w (resolve_path env wd name) new = (w', None)"
  using assms
  by (auto simp: file_edit_def failed_to_def tool_error_def Let_def
      split: sum.splits option.splits prod.splits)

lemma file_edit_effect:
  assumes "before \<noteq> []" and "file_edit ops env name before after wd w = Some (w', r)" and "is_error r = Some False"
  shows "\<exists>t pre post. read_to_string ops w (resolve_path env wd name) = Ok t \<and> one_place t before pre post
     \<and> read_to_string ops w' (resolve_path env wd name) = Ok (pre @ after @ post)"
proof -
  obtain t new where t: "read_to_string ops w (resolve_path env wd name) = Ok t"
    and n: "string_replace t before after = Some (Ok new)"
    and w: "write_file ops w (resolve_path env wd name) new = (w', None)"
    using file_edit_cases [OF assms(2,3)] .
  from n obtain pre post where "one_place t before pre post" "new = pre @ after @ post"
    using string_replace_places [OF assms(1)] by blast
  with t write_read [OF w] show ?thesis by blast
qed

lemma file_edit_frame:
  assumes "file_edit ops env name before after wd w = Some (w', r)"
    and "canon q \<noteq> canon (resolve_path env wd name)"
  shows "read_to_string ops w' q = read_to_string ops w q"
  using assms write_frame [OF _ assms(2)]
  by (auto simp: file_edit_def Let_def split: sum.splits option.splits prod.splits)

lemma file_write_effect:
  assumes "file_write ops env name text wd w = (w', r)" and "is_error r = Some False"
  shows "read_to_string ops w' (resolve_path env wd name) = Ok text"
  using assms
  by (auto simp: file_write_def write_after_dirs_def failed_to_def tool_error_def Let_def
      split: option.splits prod.splits if_splits dest: write_read)

end

lemma file_edit_refused:
  assumes "before \<noteq> []" and "file_edit ops env name before after wd w = Some (w', r)" and "is_error r \<noteq> Some False"
  shows "w' = w \<and> (\<forall>t pre post. read_to_string ops w (resolve_path env wd name) = Ok t \<longrightarrow> \<not> one_place t before pre post)
     \<or> (\<exists>new e. write_file ops w (resolve_path env wd name) new = (w', Some e))"
proof (cases "read_to_string ops w (resolve_path env wd name)")
  case (Inr t)
  show ?thesis
  proof (cases "\<exists>pre post. one_place t before pre post")
    case True
    then obtain pre post where "one_place t before pre post" by blast
    then have "string_replace t before after = Some (Ok (pre @ after @ post))"
      using string_replace_places [OF assms(1)] by blast
    with assms(2,3) Inr show ?thesis
      by (auto simp: file_edit_def tool_success_def Let_def split: prod.splits option.splits)
  next
    case False
    then have "string_replace t before after \<noteq> Some (Ok new)" for new
      using string_replace_places [OF assms(1)] by blast
    with assms(2) Inr False show ?thesis
      by (auto simp: file_edit_def Let_def split: prod.splits option.splits sum.splits)
  qed
qed (use assms(2) in \<open>simp add: file_edit_def\<close>)

lemma file_edit_total: "file_edit ops env name before after wd w \<noteq> None"
  using string_replace_total
  by (auto simp: file_edit_def Let_def simp del: not_None_eq split: sum.splits option.splits prod.splits)

text \<open>
  C27. The edit tool always answers. Given a text to replace that is not empty, where it reports success that
  text stood in the file at one place, which every other place where it stands overlaps from behind, and the
  file now reads the same with the new text there; no other file changes. Where it reports an error, the file
  could not be read or the text has no such one place, and nothing at all has changed, or the write itself
  failed.
\<close>
theorem edit_tool_effect:
  assumes "disk_laws ops canon" and "before \<noteq> []"
  shows "\<exists>w' r. file_edit ops env name before after wd w = Some (w', r)
     \<and> (\<forall>q. canon q \<noteq> canon (resolve_path env wd name) \<longrightarrow> read_to_string ops w' q = read_to_string ops w q)
     \<and> (if is_error r = Some False
        then \<exists>t pre post. read_to_string ops w (resolve_path env wd name) = Ok t \<and> one_place t before pre post
          \<and> read_to_string ops w' (resolve_path env wd name) = Ok (pre @ after @ post)
        else w' = w \<and> (\<forall>t pre post. read_to_string ops w (resolve_path env wd name) = Ok t \<longrightarrow> \<not> one_place t before pre post)
          \<or> (\<exists>new e. write_file ops w (resolve_path env wd name) new = (w', Some e)))"
proof -
  obtain w' r where e: "file_edit ops env name before after wd w = Some (w', r)"
    using file_edit_total by fast
  then show ?thesis
    using disk_laws.file_edit_effect [OF assms e] file_edit_refused [OF assms(2) e]
      disk_laws.file_edit_frame [OF assms(1) e] by auto
qed

definition sample_env :: file_env where
  "sample_env = \<lparr>show_path = (\<lambda>p. []), show_error = (\<lambda>e. []), here = None\<rparr>"

theorem edit_tool_effect_witness:
  "\<exists>w' r pre post. file_edit mem_ops sample_env name_f (lit ''b'') (lit ''c'') (Some sample_cwd) sample_disk = Some (w', r)
     \<and> is_error r = Some False
     \<and> read_to_string mem_ops w' (at_cwd ''f'') = Ok (pre @ lit ''c'' @ post)"
proof -
  have p: "resolve_path sample_env (Some sample_cwd) name_f = at_cwd ''f''"
    by (simp add: resolve_path_def working_path_def resolve_sample)
  have t: "read_to_string mem_ops sample_disk (at_cwd ''f'') = Ok sample_file"
    using sample_disk_dirs by (simp add: mem_ops_def mem_read_def resolve_sample)
  have n: "string_replace sample_file (lit ''b'') (lit ''c'') = Some (Ok (lit ''a'' @ [newline] @ lit ''c''))"
    by (simp add: string_replace_def match_indices.simps replace_first.simps sample_file_def)
  obtain w1 where wr: "write_file mem_ops sample_disk (at_cwd ''f'') (lit ''a'' @ [newline] @ lit ''c'') = (w1, None)"
    using sample_disk_dirs by (simp add: mem_ops_def mem_write_def resolve_sample)
  obtain w' r where e: "file_edit mem_ops sample_env name_f (lit ''b'') (lit ''c'') (Some sample_cwd) sample_disk = Some (w', r)"
    and ok: "is_error r = Some False"
    using wr by (auto simp add: file_edit_def p t n [simplified] tool_success_def Let_def)
  from edit_tool_effect [OF mem.disk_laws_axioms, of "lit ''b''" sample_env name_f "lit ''c''" "Some sample_cwd" sample_disk] e ok
  have "\<exists>pre post. read_to_string mem_ops w' (at_cwd ''f'') = Ok (pre @ lit ''c'' @ post)"
    by (simp add: p del: lit_Cons lit_Nil) (metis lit_Cons list.distinct(1))
  with e ok show ?thesis by blast
qed

end
