(* ===== verification/DeveloperTools.thy ===== *)
theory DeveloperTools
  imports ResultCache ShellHarden Redact EditTool
begin

text \<open>
  The dispatch of the developer tools (\<open>call_tool\<close> of
  \<open>bharatcode-core/src/agents/platform_extensions/developer/mod.rs\<close>) with everything it does around the
  tools: the result cache, the pre-flight of shell commands, redaction, and which tools invalidate the
  cache. The tools themselves are operations of the record \<open>tool_env\<close> over a world \<open>'w\<close>, which holds
  the files and the environment variables; a call has the working directory of its session.
\<close>

section \<open>Dispatch\<close>

record ('w, 'p) tool_env =
  getenv :: "'w \<Rightarrow> str \<Rightarrow> str option"
  parse_shell :: "json_object option \<Rightarrow> (str, 'p) result"
  shell_command :: "'p \<Rightarrow> str"
  run_shell :: "'p \<Rightarrow> fpath option \<Rightarrow> 'w \<Rightarrow> 'w \<times> call_tool_result"
  is_cancelled :: "'w \<Rightarrow> bool"
  disk :: "'w disk_ops"
  files :: file_env
  parse_write :: "json_object option \<Rightarrow> (str, str \<times> str) result"
  parse_edit :: "json_object option \<Rightarrow> (str, str \<times> str \<times> str) result"
  parse_patch_args :: "json_object option \<Rightarrow> (str, str) result"
  run_other :: "str \<Rightarrow> json_object option \<Rightarrow> fpath option \<Rightarrow> 'w \<Rightarrow> 'w \<times> call_tool_result"

definition TOOL_CACHE_ENV :: str where "TOOL_CACHE_ENV = lit ''BHARATCODE_TOOL_CACHE''"

definition shell_error_result :: "str \<Rightarrow> call_tool_result" where
  "shell_error_result msg = (tool_error msg)\<lparr>structured_content :=
     Some (JObject [(lit ''stdout'', JString []), (lit ''stderr'', JString msg)])\<rparr>"

definition add_advisory :: "str \<Rightarrow> call_tool_result \<Rightarrow> call_tool_result" where
  "add_advisory note r = r\<lparr>result_content := text_block note # result_content r\<rparr>"

definition blocked_message :: "str \<Rightarrow> str" where
  "blocked_message why = lit ''Command blocked by security pre-flight: '' @ why
     @ lit ''. Set BHARATCODE_HARDEN=warn to downgrade to an advisory, or BHARATCODE_HARDEN=off to disable.''"

definition advisory_message :: "str \<Rightarrow> str" where
  "advisory_message why = lit ''Security advisory: '' @ why @ lit ''.''"

definition shell_name :: str where "shell_name = lit ''shell''"

text \<open>Running a shell command: what the pre-flight refuses is not run.\<close>

definition run_checked ::
    "regex_engine \<Rightarrow> ('w, 'p) tool_env \<Rightarrow> 'p \<Rightarrow> fpath option \<Rightarrow> 'w \<Rightarrow> (call_tool_result, 'w \<times> call_tool_result) result" where
  "run_checked rx env p wd w =
     (case assess rx (getenv env w HARDEN_ENV) (shell_command env p) of
        Blocked why \<Rightarrow> Err (shell_error_result (blocked_message why))
      | a \<Rightarrow>
          (let (w1, r) = run_shell env p wd w;
               r1 = redact_shell_result rx (getenv env w1 REDACT_ENV) r
           in Ok (w1, case a of Warned why \<Rightarrow> add_advisory (advisory_message why) r1 | _ \<Rightarrow> r1)))"

definition call_shell ::
    "('c, call_tool_result) lru_ops \<Rightarrow> (json \<Rightarrow> str) \<Rightarrow> regex_engine \<Rightarrow> ('w, 'p) tool_env \<Rightarrow>
       fpath option \<Rightarrow> json_object option \<Rightarrow> 'c \<times> 'w \<Rightarrow> ('c \<times> 'w) \<times> call_tool_result" where
  "call_shell ops show_json rx env wd args = (\<lambda>(c, w).
     (case cache_lookup ops show_json (getenv env w TOOL_CACHE_ENV) shell_name args c of
        (c1, Some hit) \<Rightarrow> ((c1, w), hit)
      | (c1, None) \<Rightarrow>
          (case parse_shell env args of
             Err e \<Rightarrow> ((c1, w), shell_error_result (lit ''Error: '' @ e))
           | Ok p \<Rightarrow>
               (case run_checked rx env p wd w of
                  Err refused \<Rightarrow> ((c1, w), refused)
                | Ok (w1, r) \<Rightarrow>
                    let var = getenv env w1 TOOL_CACHE_ENV in
                    if is_cancelled env w1 then ((invalidate_all ops var c1, w1), r)
                    else if arguments_are_read_only args
                    then ((store_if_read_only ops show_json is_error var shell_name args r c1, w1), r)
                    else ((invalidate_all ops var c1, w1), r)))))"

definition writing_tools :: "str list" where
  "writing_tools = List.map lit [''write'', ''edit'', ''apply_patch'']"

text \<open>The tools that write files, once their arguments are read; an edit always gives a result (\<open>file_edit_total\<close>).\<close>

definition run_writing ::
    "('w, 'p) tool_env \<Rightarrow> str \<Rightarrow> json_object option \<Rightarrow> fpath option \<Rightarrow> 'w \<Rightarrow> (str, 'w \<times> call_tool_result) result" where
  "run_writing env name args wd w =
     (if name = lit ''write'' then
        map_sum id (\<lambda>(p, t). file_write (disk env) (files env) p t wd w) (parse_write env args)
      else if name = lit ''edit'' then
        map_sum id (\<lambda>(p, before, after). the (file_edit (disk env) (files env) p before after wd w)) (parse_edit env args)
      else
        map_sum id (\<lambda>p. apply_patch_tool (disk env) (files env) p wd w) (parse_patch_args env args))"

definition plain_tools :: "str list" where
  "plain_tools = List.map lit [''tree'', ''read_lines'', ''editor_locator'', ''read_image'', ''web_search'',
     ''rename_symbol'', ''delegate'', ''git_advanced'', ''verify_compliance'', ''run_script'', ''build_info'']"

text \<open>
  A tool of \<open>plain_tools\<close> reports its own errors, those of its arguments included, and leaves the cache alone.
\<close>

definition call_developer_tool ::
    "('c, call_tool_result) lru_ops \<Rightarrow> (json \<Rightarrow> str) \<Rightarrow> regex_engine \<Rightarrow> ('w, 'p) tool_env \<Rightarrow>
       fpath option \<Rightarrow> str \<Rightarrow> json_object option \<Rightarrow> 'c \<times> 'w \<Rightarrow> ('c \<times> 'w) \<times> call_tool_result" where
  "call_developer_tool ops show_json rx env wd name args st =
     (if name = shell_name then call_shell ops show_json rx env wd args st
      else if name \<in> set writing_tools then
        (case run_writing env name args wd (snd st) of
           Err e \<Rightarrow> (st, tool_error (lit ''Error: '' @ e))
         | Ok (w, r) \<Rightarrow>
             ((invalidate_all ops (getenv env (snd st) TOOL_CACHE_ENV) (fst st), w), r))
      else if name \<in> set plain_tools then
        (let (w, r) = run_other env name args wd (snd st) in ((fst st, w), r))
      else (st, tool_error (lit ''Error: Unknown tool: '' @ name)))"

section \<open>Where a cached result comes from\<close>

text \<open>
  A call made in a world; between two calls the world may change in any way. \<open>serves\<close>: the shell command
  of the call was run with a result that may be stored. \<open>clears\<close>: the call drops all entries.
\<close>

record 'w tool_use =
  use_dir :: "fpath option"
  use_name :: str
  use_args :: "json_object option"
  use_world :: 'w

definition cache_on :: "('w, 'p) tool_env \<Rightarrow> 'w \<Rightarrow> bool" where
  "cache_on env w = is_truthy (getenv env w TOOL_CACHE_ENV)"

definition ran :: "regex_engine \<Rightarrow> ('w, 'p) tool_env \<Rightarrow> 'w tool_use \<Rightarrow> ('w \<times> call_tool_result) option" where
  "ran rx env u = (case parse_shell env (use_args u) of Err _ \<Rightarrow> None
     | Ok p \<Rightarrow> (case run_checked rx env p (use_dir u) (use_world u) of Err _ \<Rightarrow> None | Ok x \<Rightarrow> Some x))"

definition serves :: "regex_engine \<Rightarrow> ('w, 'p) tool_env \<Rightarrow> 'w tool_use \<Rightarrow> call_tool_result \<Rightarrow> bool" where
  "serves rx env u r = (use_name u = shell_name \<and> arguments_are_read_only (use_args u) \<and> is_error r \<noteq> Some True
     \<and> (\<exists>w1. ran rx env u = Some (w1, r) \<and> \<not> is_cancelled env w1))"

definition call_use ::
    "('c, call_tool_result) lru_ops \<Rightarrow> (json \<Rightarrow> str) \<Rightarrow> regex_engine \<Rightarrow> ('w, 'p) tool_env \<Rightarrow>
       'w tool_use \<Rightarrow> 'c \<Rightarrow> 'c" where
  "call_use ops show_json rx env u c =
     fst (fst (call_developer_tool ops show_json rx env (use_dir u) (use_name u) (use_args u) (c, use_world u)))"

definition clears :: "regex_engine \<Rightarrow> ('w, 'p) tool_env \<Rightarrow> 'w tool_use \<Rightarrow> bool" where
  "clears rx env u =
     (if use_name u = shell_name
      then \<not> arguments_are_read_only (use_args u)
        \<and> (case ran rx env u of Some (w1, r) \<Rightarrow> cache_on env w1 | None \<Rightarrow> False)
      else use_name u \<in> set writing_tools \<and> is_ok (run_writing env (use_name u) (use_args u) (use_dir u) (use_world u))
        \<and> cache_on env (use_world u))"

text \<open>\<open>answered\<close>: the call is a shell command whose result is served from the cache.\<close>

definition answered ::
    "('c, call_tool_result) lru_ops \<Rightarrow> (json \<Rightarrow> str) \<Rightarrow> ('w, 'p) tool_env \<Rightarrow> 'w tool_use \<Rightarrow> 'c \<Rightarrow> bool" where
  "answered ops show_json env u c = (use_name u = shell_name
     \<and> snd (cache_lookup ops show_json (getenv env (use_world u) TOOL_CACHE_ENV) shell_name (use_args u) c) \<noteq> None)"

fun use_log ::
    "('c, call_tool_result) lru_ops \<Rightarrow> (json \<Rightarrow> str) \<Rightarrow> regex_engine \<Rightarrow> ('w, 'p) tool_env \<Rightarrow>
       'c \<Rightarrow> 'w tool_use list \<Rightarrow> ('w tool_use \<times> bool) list" where
  "use_log ops show_json rx env c [] = []"
| "use_log ops show_json rx env c (u # us) =
     (u, answered ops show_json env u c) # use_log ops show_json rx env (call_use ops show_json rx env u c) us"

definition use_all ::
    "('c, call_tool_result) lru_ops \<Rightarrow> (json \<Rightarrow> str) \<Rightarrow> regex_engine \<Rightarrow> ('w, 'p) tool_env \<Rightarrow>
       'c \<Rightarrow> 'w tool_use list \<Rightarrow> 'c" where
  "use_all ops show_json rx env c us = foldl (\<lambda>c u. call_use ops show_json rx env u c) c us"

lemma use_log_snoc:
  "use_log ops show_json rx env c (us @ [u]) =
     use_log ops show_json rx env c us @ [(u, answered ops show_json env u (use_all ops show_json rx env c us))]"
  by (induction us arbitrary: c) (simp_all add: use_all_def)

text \<open>A cache of tool results.\<close>

locale tool_cache = lru_laws ops peek
  for ops :: "('c, call_tool_result) lru_ops" and peek :: "'c \<Rightarrow> str \<Rightarrow> call_tool_result option"
begin

lemma call_use_entry:
  assumes "peek (call_use ops show_json rx env u c) k = Some r"
  shows "peek c k = Some r \<and> (answered ops show_json env u c \<or> \<not> clears rx env u)
    \<or> \<not> answered ops show_json env u c \<and> serves rx env u r \<and> k = cache_key show_json shell_name (use_args u)"
proof (cases "use_name u = shell_name")
  case True
  obtain c1 hit where l: "cache_lookup ops show_json (getenv env (use_world u) TOOL_CACHE_ENV) shell_name (use_args u) c = (c1, hit)"
    by force
  then have p: "peek c1 = peek c" by (rule lookup_peek)
  show ?thesis
  proof (cases hit)
    case (Some h)
    with True l p assms show ?thesis
      by (simp add: call_use_def call_developer_tool_def call_shell_def answered_def)
  next
    case None
    show ?thesis
    proof (cases "ran rx env u")
      case r: None
      with True l None p assms show ?thesis
        by (auto simp: call_use_def call_developer_tool_def call_shell_def ran_def clears_def Let_def split: sum.splits)
    next
      case (Some x)
      obtain w1 res where x: "x = (w1, res)" by force
      from Some x obtain sp where sp: "parse_shell env (use_args u) = Ok sp"
        "run_checked rx env sp (use_dir u) (use_world u) = Ok (w1, res)"
        by (auto simp: ran_def split: sum.splits)
      let ?var = "getenv env w1 TOOL_CACHE_ENV"
      have c: "call_use ops show_json rx env u c =
          (if is_cancelled env w1 then invalidate_all ops ?var c1
           else if arguments_are_read_only (use_args u)
           then store_if_read_only ops show_json is_error ?var shell_name (use_args u) res c1
           else invalidate_all ops ?var c1)"
        using True l None sp by (simp add: call_use_def call_developer_tool_def call_shell_def Let_def)
      show ?thesis
      proof (cases "\<not> is_cancelled env w1 \<and> arguments_are_read_only (use_args u)")
        case ro: True
        then have "peek (store_if_read_only ops show_json is_error ?var shell_name (use_args u) res c1) k = Some r"
          using assms c by simp
        from store_entry [OF this] True ro Some x l None p show ?thesis
          by (auto simp: serves_def answered_def clears_def)
      next
        case False
        then have "peek (invalidate_all ops ?var c1) k = Some r" using assms c by (auto split: if_splits)
        from invalidate_entry [OF this] False True Some x p show ?thesis
          by (auto simp: clears_def cache_on_def)
      qed
    qed
  qed
next
  case False
  show ?thesis
  proof (cases "use_name u \<in> set writing_tools \<and> is_ok (run_writing env (use_name u) (use_args u) (use_dir u) (use_world u))")
    case True
    then have "call_use ops show_json rx env u c = invalidate_all ops (getenv env (use_world u) TOOL_CACHE_ENV) c"
      using False by (auto simp: call_use_def call_developer_tool_def is_ok_def Let_def split: sum.splits prod.splits)
    with assms have "peek (invalidate_all ops (getenv env (use_world u) TOOL_CACHE_ENV) c) k = Some r" by simp
    from invalidate_entry [OF this] False show ?thesis by (simp add: clears_def cache_on_def)
  next
    case w: False
    then have "call_use ops show_json rx env u c = c"
      using False by (auto simp: call_use_def call_developer_tool_def is_ok_def Let_def split: sum.splits prod.splits)
    with assms False w show ?thesis by (auto simp: clears_def)
  qed
qed

lemma entry_source:
  "peek (use_all ops show_json rx env (cache_new ops) us) k = Some r \<Longrightarrow>
   \<exists>pre x post. use_log ops show_json rx env (cache_new ops) us = pre @ (x, False) # post \<and> serves rx env x r
     \<and> k = cache_key show_json shell_name (use_args x)
     \<and> list_all (\<lambda>(y, hit). \<not> hit \<longrightarrow> \<not> clears rx env y) post"
proof (induction us arbitrary: r rule: rev_induct)
  case Nil
  then show ?case by (simp add: use_all_def cache_new_def new_empty)
next
  case (snoc u us)
  let ?c = "use_all ops show_json rx env (cache_new ops) us"
  from snoc.prems have "peek (call_use ops show_json rx env u ?c) k = Some r" by (simp add: use_all_def)
  then consider "peek ?c k = Some r" "answered ops show_json env u ?c \<or> \<not> clears rx env u"
    | "\<not> answered ops show_json env u ?c" "serves rx env u r" "k = cache_key show_json shell_name (use_args u)"
    using call_use_entry by blast
  then show ?case
  proof cases
    case 1
    from snoc.IH [OF 1(1)] obtain pre x post where
      "use_log ops show_json rx env (cache_new ops) us = pre @ (x, False) # post" "serves rx env x r"
      "k = cache_key show_json shell_name (use_args x)" "list_all (\<lambda>(y, hit). \<not> hit \<longrightarrow> \<not> clears rx env y) post" by blast
    moreover from this(1) have "use_log ops show_json rx env (cache_new ops) (us @ [u])
        = pre @ (x, False) # (post @ [(u, answered ops show_json env u ?c)])" by (simp add: use_log_snoc)
    moreover from calculation(4) 1(2) have
      "list_all (\<lambda>(y, hit). \<not> hit \<longrightarrow> \<not> clears rx env y) (post @ [(u, answered ops show_json env u ?c)])" by auto
    ultimately show ?thesis by blast
  next
    case 2
    then show ?thesis
      by (intro exI [of _ "use_log ops show_json rx env (cache_new ops) us"] exI [of _ u] exI [of _ "[]"])
        (simp add: use_log_snoc)
  qed
qed

end

interpretation list_tools: tool_cache list_lru list_peek
  by unfold_locales

section \<open>What is read and what writes\<close>

text \<open>
  A plain pipeline, by the text of the command: none of the characters that redirect, substitute, group, chain or
  escape, and at the head of every stage one of the programs that are listed as readers.
\<close>

definition SHELL_SPECIALS :: str where
  "SHELL_SPECIALS = lit ''><`$(){}&;'' @ [newline, 92]"

definition READER_PROGRAMS :: "str list" where
  "READER_PROGRAMS = plain_readers @ List.map lit [''find'', ''git'', ''cargo'', ''npm'']"

definition plain_pipeline :: "str \<Rightarrow> bool" where
  "plain_pipeline s = (set (trim s) \<inter> set SHELL_SPECIALS = {}
     \<and> list_all (\<lambda>t. case split_whitespace (trim t) of [] \<Rightarrow> False | w # _ \<Rightarrow> w \<in> set READER_PROGRAMS) (split_on 124 (trim s)))"

definition reads_only :: "json_object option \<Rightarrow> bool" where
  "reads_only args = (\<exists>m s. args = Some m \<and> map_of m (lit ''command'') = Some (JString s) \<and> plain_pipeline s)"

text \<open>A command that was run: its arguments could be read and the pre-flight let it pass.\<close>

definition command_ran :: "regex_engine \<Rightarrow> ('w, 'p) tool_env \<Rightarrow> 'w tool_use \<Rightarrow> 'w \<Rightarrow> call_tool_result \<Rightarrow> bool" where
  "command_ran rx env u w1 r = (use_name u = lit ''shell''
     \<and> (\<exists>p. parse_shell env (use_args u) = Ok p \<and> run_checked rx env p (use_dir u) (use_world u) = Ok (w1, r)))"

text \<open>
  A call that may have written while the cache was on: a command that is not a plain pipeline of readers and was
  run, or one of the three tools that write files, with arguments it could read.
\<close>

definition may_have_written :: "regex_engine \<Rightarrow> ('w, 'p) tool_env \<Rightarrow> 'w tool_use \<Rightarrow> bool" where
  "may_have_written rx env u =
     (\<not> reads_only (use_args u) \<and> (\<exists>w1 r. command_ran rx env u w1 r \<and> cache_on env w1)
      \<or> (use_name u = lit ''write'' \<and> is_ok (parse_write env (use_args u))
         \<or> use_name u = lit ''edit'' \<and> is_ok (parse_edit env (use_args u))
         \<or> use_name u = lit ''apply_patch'' \<and> is_ok (parse_patch_args env (use_args u))) \<and> cache_on env (use_world u))"

lemma stage_reader: "stage_is_read_only t \<Longrightarrow> case split_whitespace t of [] \<Rightarrow> False | w # _ \<Rightarrow> w \<in> set READER_PROGRAMS"
  by (auto simp: stage_is_read_only_def READER_PROGRAMS_def simp del: lit_Cons split: list.splits if_splits)

lemma read_only_plain: "is_read_only_command s \<Longrightarrow> plain_pipeline s"
proof -
  assume s: "is_read_only_command s"
  have "set SHELL_SPECIALS = FORBIDDEN" by (auto simp: SHELL_SPECIALS_def FORBIDDEN_def)
  moreover have "\<not> list_ex (\<lambda>c. c \<in> FORBIDDEN) (trim s)" "list_all (\<lambda>t. stage_is_read_only (trim t)) (split_on 124 (trim s))"
    using s by (simp_all add: is_read_only_command_def Let_def split: if_splits)
  ultimately show ?thesis unfolding plain_pipeline_def
    by (auto simp: list_ex_iff list_all_iff dest!: stage_reader)
qed

lemma arguments_read_only_plain: "arguments_are_read_only args \<Longrightarrow> reads_only args"
proof -
  assume "arguments_are_read_only args"
  then obtain m v s where "args = Some m" "map_of m command_key = Some v" "json_as_str v = Some s" "is_read_only_command s"
    by (auto simp: arguments_are_read_only_def bind_eq_Some_conv split: option.splits)
  moreover from this(3) have "v = JString s" by (cases v) simp_all
  ultimately show ?thesis using read_only_plain unfolding reads_only_def command_key_def by blast
qed

lemma command_ran_iff: "command_ran rx env u w1 r \<longleftrightarrow> use_name u = shell_name \<and> ran rx env u = Some (w1, r)"
  by (auto simp: command_ran_def shell_name_def ran_def simp del: lit_Cons split: sum.splits)

lemma may_have_written_clears: "may_have_written rx env u \<Longrightarrow> clears rx env u"
proof -
  assume m: "may_have_written rx env u"
  have n: "lit ''write'' \<noteq> shell_name" "lit ''edit'' \<noteq> shell_name" "lit ''apply_patch'' \<noteq> shell_name"
    "lit ''edit'' \<noteq> lit ''write''" "lit ''apply_patch'' \<noteq> lit ''write''" "lit ''apply_patch'' \<noteq> lit ''edit''"
    by (simp_all add: shell_name_def)
  have ok: "is_ok (map_sum id f x) = is_ok x" for f :: "'x \<Rightarrow> 'y" and x :: "(str, 'x) result"
    by (cases x) (simp_all add: is_ok_def)
  from m consider (shell) w1 r where "\<not> reads_only (use_args u)" "command_ran rx env u w1 r" "cache_on env w1"
    | (tool) "use_name u \<noteq> shell_name" "use_name u \<in> set writing_tools" "cache_on env (use_world u)"
        "is_ok (run_writing env (use_name u) (use_args u) (use_dir u) (use_world u))"
    unfolding may_have_written_def by (auto simp: n writing_tools_def run_writing_def ok simp del: lit_Cons)
  then show ?thesis
  proof cases
    case shell
    then show ?thesis using arguments_read_only_plain by (auto simp: command_ran_iff clears_def)
  qed (simp add: clears_def)
qed

text \<open>
  C10. A result served from the cache is the one of an earlier command with the same key that was run, a plain
  pipeline of readers, whose result is not an error and which was not cancelled; and since then, of the calls that
  were not answered from the cache themselves, none was another command that was run and none was a write, an edit
  or a patch with arguments it could read, while the cache was on. Other tools that write, the working directory,
  and what changes behind the tools are not looked at.
\<close>
theorem cached_result_source:
  assumes "lru_laws ops peek"
    and "snd (cache_lookup ops show_json var (lit ''shell'') args (use_all ops show_json rx env (cache_new ops) us)) = Some r"
  shows "\<exists>pre x post. use_log ops show_json rx env (cache_new ops) us = pre @ (x, False) # post
     \<and> (\<exists>w1. command_ran rx env x w1 r \<and> \<not> is_cancelled env w1) \<and> reads_only (use_args x) \<and> is_error r \<noteq> Some True
     \<and> cache_key show_json (lit ''shell'') args = cache_key show_json (lit ''shell'') (use_args x)
     \<and> list_all (\<lambda>(y, hit). hit \<or> \<not> may_have_written rx env y) post"
proof -
  let ?c = "use_all ops show_json rx env (cache_new ops) us"
  obtain c' where "cache_lookup ops show_json var shell_name args ?c = (c', Some r)"
    using assms(2) unfolding shell_name_def by (metis prod.collapse)
  from lru_laws.lookup_hit [OF assms(1) this] have "peek ?c (cache_key show_json shell_name args) = Some r" by simp
  from tool_cache.entry_source [OF tool_cache.intro [OF assms(1)] this] obtain pre x post where
    x: "use_log ops show_json rx env (cache_new ops) us = pre @ (x, False) # post" "serves rx env x r"
      "cache_key show_json shell_name args = cache_key show_json shell_name (use_args x)"
      "list_all (\<lambda>(y, hit). \<not> hit \<longrightarrow> \<not> clears rx env y) post" by blast
  have "list_all (\<lambda>(y, hit). hit \<or> \<not> may_have_written rx env y) post"
    using x(4) by (rule list.pred_mono_strong) (auto dest: may_have_written_clears)
  moreover have "\<exists>w1. command_ran rx env x w1 r \<and> \<not> is_cancelled env w1" "reads_only (use_args x)" "is_error r \<noteq> Some True"
    using x(2) arguments_read_only_plain [of "use_args x"] unfolding serves_def command_ran_iff by blast+
  ultimately show ?thesis using x(1,3) unfolding shell_name_def by blast
qed


section \<open>Examples\<close>

text \<open>
  A small world: one file, whose text a shell command prints after the working directory and a tool replaces.
\<close>

definition printed :: "str \<Rightarrow> call_tool_result" where
  "printed s = \<lparr>result_content = [text_block s], structured_content = None, is_error = None, result_meta = None\<rparr>"

definition small_disk :: "str disk_ops" where
  "small_disk = \<lparr>read_to_string = (\<lambda>w p. Ok w), write_file = (\<lambda>w p t. (t, None)), remove_file = (\<lambda>w p. ([], None)),
     path_exists = (\<lambda>w p. True), create_dir_all = (\<lambda>w p. (w, None))\<rparr>"

definition small_env :: "(str, str) tool_env" where
  "small_env = \<lparr>getenv = (\<lambda>w k. if k = TOOL_CACHE_ENV then Some (lit ''1'') else None),
     parse_shell = (\<lambda>args. case Option.bind (Option.bind args (\<lambda>m. map_of m command_key)) json_as_str of
       Some s \<Rightarrow> Ok s | None \<Rightarrow> Err (lit ''Missing arguments'')),
     shell_command = (\<lambda>p. p),
     run_shell = (\<lambda>p wd w. (w, printed ((case wd of Some d \<Rightarrow> concat (comps d) | None \<Rightarrow> []) @ w))),
     is_cancelled = (\<lambda>w. False), disk = small_disk,
     files = \<lparr>show_path = (\<lambda>p. []), show_error = (\<lambda>e. []), here = None\<rparr>,
     parse_write = (\<lambda>args. Err []), parse_edit = (\<lambda>args. Err []), parse_patch_args = (\<lambda>args. Err []),
     run_other = (\<lambda>n args wd w. (lit ''new'', printed []))\<rparr>"

definition no_matches :: regex_engine where
  "no_matches = \<lparr>rx_is_match = (\<lambda>_ _. False), rx_find_iter = (\<lambda>_ _. [])\<rparr>"

definition cat_args :: "json_object option" where
  "cat_args = Some [(command_key, JString (lit ''cat f''))]"

lemmas small_eval = call_developer_tool_def call_shell_def cache_lookup_def list_lru_def small_env_def
  TOOL_CACHE_ENV_def is_truthy_def trim_def trim_start_def trim_end_def is_ws_def to_ascii_lowercase_def
  ascii_lower_def cat_args_def command_key_def cache_key_def run_checked_def assess_def assess_with_mode_def
  harden_mode_of_def HARDEN_ENV_def REDACT_ENV_def redact_shell_result_def redact_enabled_def
  arguments_are_read_only_def is_read_only_command_def FORBIDDEN_def stage_is_read_only_def plain_readers_def
  split_whitespace_def store_if_read_only_def invalidate_all_def printed_def cache_new_def CACHE_CAPACITY_def
  writing_tools_def plain_tools_def shell_name_def Let_def normalize_whitespace_def

definition call_small :: "fpath option \<Rightarrow> str \<Rightarrow> json_object option \<Rightarrow> (nat \<times> (str \<times> call_tool_result) list) \<times> str
    \<Rightarrow> ((nat \<times> (str \<times> call_tool_result) list) \<times> str) \<times> call_tool_result" where
  "call_small wd name args st = call_developer_tool list_lru (\<lambda>j. case j of JObject m \<Rightarrow> concat (List.map (\<lambda>(k, v).
     case v of JString t \<Rightarrow> t | _ \<Rightarrow> []) m) | _ \<Rightarrow> []) no_matches small_env wd name args st"

text \<open>Renaming a symbol rewrites files but leaves the cache: the file is then shown as it was before.\<close>

lemma rename_leaves_cache_stale:
  "snd (call_small None shell_name cat_args
     (fst (call_small None (lit ''rename_symbol'') None
       (fst (call_small None shell_name cat_args (cache_new list_lru, lit ''old'')))))) = printed (lit ''old'')"
  by (simp add: call_small_def small_eval)

text \<open>The working directory is not part of the key: another directory gets the result of the first.\<close>

lemma directory_not_in_key:
  "snd (call_small (Some (parse_path (lit ''b''))) shell_name cat_args
     (fst (call_small (Some (parse_path (lit ''a''))) shell_name cat_args (cache_new list_lru, [])))) = printed (lit ''a'')"
  by (simp add: call_small_def small_eval parse_path_def starts_with_def)

text \<open>
  A line feed is collapsed like a blank, so a second command after it is answered with the result of a
  read-only command that names it as an argument, and is not run.
\<close>

lemma second_command_not_run:
  "cache_key show_json n (Some [(command_key, JString (lit ''cat a'' @ newline # lit ''rm b''))])
     = cache_key show_json n (Some [(command_key, JString (lit ''cat a rm b''))])
   \<and> is_read_only_command (lit ''cat a rm b'') \<and> \<not> is_read_only_command (lit ''cat a'' @ newline # lit ''rm b'')"
  by (simp add: small_eval)

theorem cached_result_source_witness:
  "\<exists>pre x post. use_log list_lru (\<lambda>_. []) no_matches small_env (cache_new list_lru)
       [\<lparr>use_dir = None, use_name = shell_name, use_args = cat_args, use_world = lit ''t''\<rparr>] = pre @ (x, False) # post
     \<and> (\<exists>w1. command_ran no_matches small_env x w1 (printed (lit ''t''))) \<and> reads_only (use_args x)
     \<and> list_all (\<lambda>(y, hit). hit \<or> \<not> may_have_written no_matches small_env y) post"
proof -
  have "snd (cache_lookup list_lru (\<lambda>_. []) (Some (lit ''1'')) shell_name cat_args
      (use_all list_lru (\<lambda>_. []) no_matches small_env (cache_new list_lru)
        [\<lparr>use_dir = None, use_name = shell_name, use_args = cat_args, use_world = lit ''t''\<rparr>])) = Some (printed (lit ''t''))"
    by (simp add: use_all_def call_use_def small_eval)
  from cached_result_source [OF list_cache.lru_laws_axioms this [unfolded shell_name_def]] show ?thesis
    unfolding shell_name_def by blast
qed

end
