(* ===== verification/Residency.thy ===== *)
theory Residency
  imports Prelude
begin

text \<open>
  Where a model request may go: the offline switch (\<open>bharatcode-core/src/offline.rs\<close>) and the
  data-residency guard (\<open>bharatcode-core/src/residency.rs\<close>), composed in the policy that every provider
  request is screened with. The configuration file and the environment are the functions of the record
  \<open>settings\<close>; \<open>url_host\<close> is the host that \<open>Url::parse\<close> of the \<open>url\<close> crate finds, if it does.
\<close>

section \<open>Settings\<close>

record settings =
  env_var :: "str \<Rightarrow> str option"
  config_bool :: "str \<Rightarrow> bool option"
  config_string :: "str \<Rightarrow> str option"
  url_host :: "str \<Rightarrow> str option"

definition OFFLINE_MODE_KEY :: str where "OFFLINE_MODE_KEY = lit ''BHARATCODE_OFFLINE''"
definition RESIDENCY_MODE_KEY :: str where "RESIDENCY_MODE_KEY = lit ''BHARATCODE_RESIDENCY''"
definition RESIDENCY_ALLOWLIST_KEY :: str where "RESIDENCY_ALLOWLIST_KEY = lit ''BHARATCODE_RESIDENCY_ALLOWLIST''"

definition LOCAL_HOSTS :: "str list" where
  "LOCAL_HOSTS = List.map lit [''localhost'', ''127.0.0.1'', ''::1'', ''[::1]'', ''0.0.0.0'']"

definition ALWAYS_ALLOWED :: "str list" where
  "ALWAYS_ALLOWED = List.map lit [''localhost'', ''127.0.0.1'', ''::1'', ''[::1]'']"

definition parse_flag :: "str \<Rightarrow> bool option" where
  "parse_flag v = (let t = to_ascii_lowercase (trim v) in
     if t \<in> set (List.map lit [''1'', ''true'', ''on'', ''yes'', ''enable'', ''enabled'']) then Some True
     else if t \<in> set (List.map lit [''0'', ''false'', ''off'', ''no'', ''disable'', ''disabled'', '''']) then Some False
     else None)"

definition is_offline :: "settings \<Rightarrow> bool" where
  "is_offline cfg = (case Option.bind (env_var cfg OFFLINE_MODE_KEY) parse_flag of
     Some flag \<Rightarrow> flag
   | None \<Rightarrow> (case config_bool cfg OFFLINE_MODE_KEY of Some b \<Rightarrow> b | None \<Rightarrow> False))"

datatype residency_mode = ResidencyOff | ResidencyWarn | ResidencyStrict

definition parse_residency :: "str \<Rightarrow> residency_mode" where
  "parse_residency v = (let t = to_ascii_lowercase (trim v) in
     if t = lit ''warn'' \<or> t = lit ''warning'' then ResidencyWarn
     else if t \<in> set (List.map lit [''strict'', ''block'', ''on'', ''enforce'']) then ResidencyStrict
     else ResidencyOff)"

definition configured_residency :: "settings \<Rightarrow> residency_mode" where
  "configured_residency cfg = (case config_string cfg RESIDENCY_MODE_KEY of
     Some v \<Rightarrow> parse_residency v | None \<Rightarrow> ResidencyOff)"

definition effective_residency_mode :: "settings \<Rightarrow> residency_mode" where
  "effective_residency_mode cfg = (if is_offline cfg then ResidencyStrict else configured_residency cfg)"

section \<open>Hosts\<close>

text \<open>\<open>str::trim_matches\<close> with a character and \<open>rsplit_once\<close>.\<close>

definition trim_char :: "uchar \<Rightarrow> str \<Rightarrow> str" where
  "trim_char c s = rev (dropWhile (\<lambda>x. x = c) (rev (dropWhile (\<lambda>x. x = c) s)))"

definition before_last :: "uchar \<Rightarrow> str \<Rightarrow> str" where
  "before_last c s = (if c \<in> set s then rev (tl (dropWhile (\<lambda>x. x \<noteq> c) (rev s))) else s)"

text \<open>\<open>Ipv4Addr::from_str\<close> and \<open>is_loopback\<close>.\<close>

definition parse_octet :: "str \<Rightarrow> nat option" where
  "parse_octet s = (if s \<noteq> [] \<and> length s \<le> 3 \<and> list_all is_digit s \<and> (length s = 1 \<or> hd s \<noteq> 48)
     then (case parse_unsigned 255 s of Some n \<Rightarrow> Some n | None \<Rightarrow> None) else None)"

definition is_ipv4_loopback :: "str \<Rightarrow> bool" where
  "is_ipv4_loopback s = (case List.map parse_octet (split_on 46 s) of
     [Some a, Some b, Some c, Some d] \<Rightarrow> a = 127 | _ \<Rightarrow> False)"

definition host_is_local :: "str \<Rightarrow> bool" where
  "host_is_local h = (let host = to_ascii_lowercase (trim_char 46 (trim h)) in
     host \<noteq> [] \<and> (host \<in> set LOCAL_HOSTS \<or> host = lit ''localhost'' \<or> ends_with host (lit ''.localhost'')
       \<or> is_ipv4_loopback host))"

text \<open>The host of an endpoint without scheme, path and port; the two guards differ in a wildcard.\<close>

definition after_scheme :: "str \<Rightarrow> str" where
  "after_scheme s = (case split_once s (lit ''://'') of Some (_, r) \<Rightarrow> r | None \<Rightarrow> s)"

definition before_path :: "str \<Rightarrow> str" where
  "before_path s = takeWhile (\<lambda>c. c \<noteq> 47) s"

definition without_port :: "str \<Rightarrow> str" where
  "without_port s = (if starts_with s [91] then s else before_last 58 s)"

definition offline_host :: "settings \<Rightarrow> str \<Rightarrow> str option" where
  "offline_host cfg endpoint = (let t = trim endpoint in
     if t = [] then None
     else (case url_host cfg t of Some h \<Rightarrow> Some (to_ascii_lowercase h)
       | None \<Rightarrow> (let host = to_ascii_lowercase (trim_char 46 (without_port (before_path (after_scheme t))))
           in if host \<noteq> [] then Some host else None)))"

text \<open>\<open>trim_start_matches\<close> of the wildcard strips it as often as it is there.\<close>

fun strip_wildcards :: "str \<Rightarrow> str" where
  "strip_wildcards (a # b # s) = (if a = 42 \<and> b = 46 then strip_wildcards s else a # b # s)"
| "strip_wildcards s = s"

definition normalize_host_entry :: "str \<Rightarrow> str" where
  "normalize_host_entry e =
     to_ascii_lowercase (trim_char 46 (strip_wildcards (without_port (before_path (after_scheme (trim e))))))"

fun split_entries :: "str \<Rightarrow> str \<Rightarrow> str list" where
  "split_entries acc [] = [rev acc]"
| "split_entries acc (c # s) =
     (if c = 44 \<or> is_ws c then rev acc # split_entries [] s else split_entries (c # acc) s)"

definition parse_allowlist :: "str \<Rightarrow> str list" where
  "parse_allowlist v = filter (\<lambda>s. s \<noteq> []) (List.map normalize_host_entry (split_entries [] v))"

definition configured_allowlist :: "settings \<Rightarrow> str list" where
  "configured_allowlist cfg = (case config_string cfg RESIDENCY_ALLOWLIST_KEY of
     Some v \<Rightarrow> parse_allowlist v | None \<Rightarrow> [])"

definition residency_host :: "settings \<Rightarrow> str \<Rightarrow> str option" where
  "residency_host cfg endpoint = (let t = trim endpoint in
     if t = [] then None
     else (case url_host cfg t of Some h \<Rightarrow> Some (to_ascii_lowercase h)
       | None \<Rightarrow> (let host = normalize_host_entry t in if host \<noteq> [] then Some host else None)))"

definition host_is_allowed :: "str \<Rightarrow> str list \<Rightarrow> bool" where
  "host_is_allowed h allowlist = (let host = to_ascii_lowercase (trim_char 46 h) in
     host \<in> set ALWAYS_ALLOWED \<or> list_ex (\<lambda>e. host = e \<or> ends_with host (46 # e)) allowlist)"

section \<open>The guards\<close>

datatype egress_error = OfflineNonLocal str | OfflineNoHost str | ResidencyNoHost str | ResidencyNotAllowed str

definition offline_guard :: "settings \<Rightarrow> str \<Rightarrow> egress_error option" where
  "offline_guard cfg endpoint =
     (if \<not> is_offline cfg then None
      else (case offline_host cfg endpoint of
        Some host \<Rightarrow> if host_is_local host then None else Some (OfflineNonLocal host)
      | None \<Rightarrow> Some (OfflineNoHost endpoint)))"

definition residency_guard :: "settings \<Rightarrow> str \<Rightarrow> residency_mode \<Rightarrow> egress_error option" where
  "residency_guard cfg endpoint mode =
     (if mode = ResidencyOff then None
      else (case residency_host cfg endpoint of
        None \<Rightarrow> if mode = ResidencyStrict then Some (ResidencyNoHost endpoint) else None
      | Some host \<Rightarrow>
          if host_is_allowed host (configured_allowlist cfg) then None
          else (case mode of ResidencyStrict \<Rightarrow> Some (ResidencyNotAllowed host) | _ \<Rightarrow> None)))"

definition enforce_egress_policy :: "settings \<Rightarrow> str \<Rightarrow> egress_error option" where
  "enforce_egress_policy cfg endpoint = (case offline_guard cfg endpoint of
     Some e \<Rightarrow> Some e
   | None \<Rightarrow> residency_guard cfg endpoint (effective_residency_mode cfg))"

fun assert_no_egress :: "settings \<Rightarrow> str list \<Rightarrow> egress_error option" where
  "assert_no_egress cfg [] = None"
| "assert_no_egress cfg (e # es) =
     (if \<not> is_offline cfg then None
      else (case offline_guard cfg e of Some err \<Rightarrow> Some err | None \<Rightarrow> assert_no_egress cfg es))"

record offline_status =
  offline_enabled :: bool
  effective_residency :: residency_mode
  telemetry_enabled :: bool

definition residency_is_strict :: "offline_status \<Rightarrow> bool" where
  "residency_is_strict s = (effective_residency s = ResidencyStrict)"

definition is_no_egress :: "offline_status \<Rightarrow> bool" where
  "is_no_egress s = (offline_enabled s \<and> residency_is_strict s \<and> \<not> telemetry_enabled s)"

definition current_offline_status :: "settings \<Rightarrow> bool \<Rightarrow> offline_status" where
  "current_offline_status cfg telemetry = \<lparr>offline_enabled = is_offline cfg,
     effective_residency = effective_residency_mode cfg, telemetry_enabled = telemetry\<rparr>"

definition status_line :: "offline_status \<Rightarrow> str" where
  "status_line s =
     (if \<not> offline_enabled s
      then lit ''Offline mode: OFF (set '' @ OFFLINE_MODE_KEY @ lit ''=1 to enable no-egress mode)''
      else
        let residency = (if residency_is_strict s then lit ''residency=strict'' else lit ''residency=unknown'');
            telemetry = (if \<not> telemetry_enabled s then lit ''telemetry=off'' else lit ''telemetry=ON'')
        in lit ''Offline mode: ON '' @ [8212]
           @ (if is_no_egress s
              then lit '' no egress (local endpoints only; '' @ residency @ lit ''; '' @ telemetry @ lit '')''
              else lit '' local endpoints only; '' @ residency @ lit ''; '' @ telemetry
                @ lit '' (warning: telemetry is enabled and should be off)''))"

section \<open>What the policy lets through\<close>

lemma residency_guard_allows:
  "residency_guard cfg e ResidencyStrict = None \<longleftrightarrow>
     (\<exists>h. residency_host cfg e = Some h \<and> host_is_allowed h (configured_allowlist cfg))"
  by (auto simp: residency_guard_def split: option.splits)

lemma offline_guard_allows:
  "is_offline cfg \<Longrightarrow> offline_guard cfg e = None \<longleftrightarrow> (\<exists>h. offline_host cfg e = Some h \<and> host_is_local h)"
  by (auto simp: offline_guard_def split: option.splits)

lemma trim_char_edges: "\<exists>m n. s = replicate m c @ trim_char c s @ replicate n c"
proof -
  let ?t = "dropWhile (\<lambda>x. x = c) s"
  have "takeWhile (\<lambda>x. x = c) s = replicate (length (takeWhile (\<lambda>x. x = c) s)) c" for s
    by (metis (full_types) replicate_length_same set_takeWhileD)
  then obtain m n where "takeWhile (\<lambda>x. x = c) s = replicate m c"
    "takeWhile (\<lambda>x. x = c) (rev ?t) = replicate n c" by metis
  then have "s = replicate m c @ ?t" "rev ?t = replicate n c @ rev (trim_char c s)"
    using takeWhile_dropWhile_id [of "\<lambda>x. x = c" s] takeWhile_dropWhile_id [of "\<lambda>x. x = c" "rev ?t"]
    by (simp_all add: trim_char_def)
  then show ?thesis by (metis rev_append rev_replicate rev_rev_ident append_assoc)
qed

lemma ascii_lower_ws: "is_ws (ascii_lower c) = is_ws c"
  by (auto simp: ascii_lower_def is_ws_def)

lemma allowed_host_trim:
  assumes "to_ascii_lowercase (trim_char 46 h) \<in> set ALWAYS_ALLOWED"
  shows "trim h = h"
proof -
  obtain m n where h: "h = replicate m 46 @ trim_char 46 h @ replicate n 46" using trim_char_edges by blast
  have "\<forall>c \<in> set (to_ascii_lowercase (trim_char 46 h)). \<not> is_ws c"
    using assms by (auto simp: ALWAYS_ALLOWED_def is_ws_def)
  then have "\<forall>c \<in> set (trim_char 46 h). \<not> is_ws c" by (simp add: to_ascii_lowercase_def ascii_lower_ws)
  moreover have "set h \<subseteq> insert 46 (set (trim_char 46 h))" using arg_cong [OF h, of set] by (auto split: if_splits)
  moreover have "\<not> is_ws 46" by (simp add: is_ws_def)
  ultimately have "\<forall>c \<in> set h. \<not> is_ws c" by blast
  then have "h = [] \<or> \<not> is_ws (hd h) \<and> \<not> is_ws (last h)" by (cases "h = []") simp_all
  then show ?thesis by (rule trim_id)
qed

lemma lower_trim_lower: "to_ascii_lowercase (trim_char 46 (to_ascii_lowercase h)) = to_ascii_lowercase (trim_char 46 h)"
proof -
  have d: "dropWhile (\<lambda>x. x = 46) (map ascii_lower s) = map ascii_lower (dropWhile (\<lambda>x. x = 46) s)" for s
    by (induction s) (auto simp: ascii_lower_def)
  have i: "ascii_lower (ascii_lower c) = ascii_lower c" for c by (simp add: ascii_lower_def)
  show ?thesis by (simp add: trim_char_def to_ascii_lowercase_def d rev_map i)
qed

text \<open>
  With the switch on and no allowlist, a request to an endpoint with a host passes exactly when the host, but
  for case and dots around it, is one of four loopback names; an endpoint from which no host can be read never
  passes.
\<close>

lemma offline_policy_loopback_only:
  assumes "is_offline cfg" and "config_string cfg RESIDENCY_ALLOWLIST_KEY = None" and "trim endpoint \<noteq> []"
    and "url_host cfg (trim endpoint) = Some h"
  shows "enforce_egress_policy cfg endpoint = None \<longleftrightarrow> to_ascii_lowercase (trim_char 46 h) \<in> set ALWAYS_ALLOWED"
proof -
  let ?h = "to_ascii_lowercase h"
  have hosts: "offline_host cfg endpoint = Some ?h" "residency_host cfg endpoint = Some ?h"
    using assms(3,4) by (simp_all add: offline_host_def residency_host_def)
  have "enforce_egress_policy cfg endpoint = None \<longleftrightarrow> host_is_local ?h \<and> host_is_allowed ?h []"
    using assms(1,2) hosts offline_guard_allows [OF assms(1), of endpoint] residency_guard_allows [of cfg endpoint]
    by (auto simp: enforce_egress_policy_def effective_residency_mode_def configured_allowlist_def split: option.splits)
  also have "host_is_allowed ?h [] \<longleftrightarrow> to_ascii_lowercase (trim_char 46 h) \<in> set ALWAYS_ALLOWED"
    by (simp add: host_is_allowed_def lower_trim_lower)
  also have "host_is_local ?h \<and> to_ascii_lowercase (trim_char 46 h) \<in> set ALWAYS_ALLOWED
      \<longleftrightarrow> to_ascii_lowercase (trim_char 46 h) \<in> set ALWAYS_ALLOWED"
  proof -
    have "host_is_local ?h" if a: "to_ascii_lowercase (trim_char 46 h) \<in> set ALWAYS_ALLOWED"
    proof -
      have "trim ?h = ?h" by (rule allowed_host_trim) (simp add: lower_trim_lower a)
      moreover have "set ALWAYS_ALLOWED \<subseteq> set LOCAL_HOSTS" "[] \<notin> set ALWAYS_ALLOWED"
        by (auto simp: ALWAYS_ALLOWED_def LOCAL_HOSTS_def)
      ultimately show ?thesis using a by (auto simp: host_is_local_def lower_trim_lower Let_def)
    qed
    then show ?thesis by blast
  qed
  finally show ?thesis .
qed

definition offline_settings :: settings where
  "offline_settings = \<lparr>env_var = (\<lambda>k. if k = OFFLINE_MODE_KEY then Some (lit ''1'') else None),
     config_bool = (\<lambda>_. None), config_string = (\<lambda>_. None),
     url_host = (\<lambda>u. if u = lit ''http://127.0.0.2/v1'' then Some (lit ''127.0.0.2'') else None)\<rparr>"

lemma offline_settings_on: "is_offline offline_settings"
  by (simp add: is_offline_def offline_settings_def parse_flag_def trim_def trim_start_def trim_end_def is_ws_def
      to_ascii_lowercase_def ascii_lower_def Let_def)

lemma example_trim: "trim (lit ''http://127.0.0.2/v1'') = lit ''http://127.0.0.2/v1''"
  by (simp add: trim_def trim_start_def trim_end_def is_ws_def)

lemma offline_policy_loopback_only_witness:
  "enforce_egress_policy offline_settings (lit ''http://127.0.0.2/v1'') \<noteq> None"
proof -
  have "config_string offline_settings RESIDENCY_ALLOWLIST_KEY = None" "trim (lit ''http://127.0.0.2/v1'') \<noteq> []"
    "url_host offline_settings (trim (lit ''http://127.0.0.2/v1'')) = Some (lit ''127.0.0.2'')"
    by (simp_all only: example_trim) (simp_all add: offline_settings_def)
  from offline_policy_loopback_only [OF offline_settings_on this] show ?thesis
    by (simp add: to_ascii_lowercase_def trim_char_def ascii_lower_def ALWAYS_ALLOWED_def)
qed

text \<open>
  That host is local for the offline guard: it is the strict residency mode, which knows fewer loopback names,
  that refuses it.
\<close>

lemma loopback_refused_offline:
  "host_is_local (lit ''127.0.0.2'')"
  "offline_guard offline_settings (lit ''http://127.0.0.2/v1'') = None"
proof -
  show l: "host_is_local (lit ''127.0.0.2'')"
    by (simp add: host_is_local_def to_ascii_lowercase_def trim_char_def trim_def trim_start_def trim_end_def
        is_ws_def ascii_lower_def is_ipv4_loopback_def parse_octet_def parse_unsigned_def is_digit_def Let_def)
  have "offline_host offline_settings (lit ''http://127.0.0.2/v1'') = Some (lit ''127.0.0.2'')"
    unfolding offline_host_def example_trim Let_def
    by (simp add: offline_settings_def to_ascii_lowercase_def ascii_lower_def)
  with l show "offline_guard offline_settings (lit ''http://127.0.0.2/v1'') = None"
    using offline_guard_allows [OF offline_settings_on] by blast
qed

text \<open>A value of the variable that is neither on nor off leaves the decision to the configuration file.\<close>

lemma unrecognised_flag_may_be_on:
  "parse_flag (lit ''maybe'') = None"
  "env_var cfg OFFLINE_MODE_KEY = Some (lit ''maybe'') \<Longrightarrow> config_bool cfg OFFLINE_MODE_KEY = Some True \<Longrightarrow> is_offline cfg"
proof -
  show p: "parse_flag (lit ''maybe'') = None"
    by (simp add: parse_flag_def trim_def trim_start_def trim_end_def is_ws_def to_ascii_lowercase_def ascii_lower_def Let_def)
  assume "env_var cfg OFFLINE_MODE_KEY = Some (lit ''maybe'')" "config_bool cfg OFFLINE_MODE_KEY = Some True"
  with p show "is_offline cfg" by (simp add: is_offline_def)
qed

end
