(* ===== verification/SecurityPatterns.thy ===== *)
theory SecurityPatterns
  imports RegexEngine "HOL-Library.Product_Lexorder" Complex_Main
begin

text \<open>
  \<open>crates/bharatcode-core/src/security/patterns.rs\<close>: the patterns of dangerous shell commands, the search for
  them and the order of what is found. Regular expressions are matched by an engine that is a parameter.
  Positions count characters, not bytes; only their order is used.
\<close>

section \<open>Patterns\<close>

datatype risk_level = Low | Medium | High | Critical

text \<open>The derived order of the levels.\<close>

fun risk_rank :: "risk_level \<Rightarrow> nat" where
  "risk_rank Low = 0"
| "risk_rank Medium = 1"
| "risk_rank High = 2"
| "risk_rank Critical = 3"

lemma risk_rank_inject [simp]: "risk_rank r = risk_rank s \<longleftrightarrow> r = s"
  by (cases r; cases s) simp_all

instantiation risk_level :: linorder
begin
definition less_eq_risk_level :: "risk_level \<Rightarrow> risk_level \<Rightarrow> bool" where
  "less_eq_risk_level r s = (risk_rank r \<le> risk_rank s)"
definition less_risk_level :: "risk_level \<Rightarrow> risk_level \<Rightarrow> bool" where
  "less_risk_level r s = (risk_rank r < risk_rank s)"
instance
  by standard (auto simp: less_eq_risk_level_def less_risk_level_def)
end

datatype threat_category = FileSystemDestruction | RemoteCodeExecution | DataExfiltration
  | SystemModification | NetworkAccess | ProcessManipulation | PrivilegeEscalation | CommandInjection

record threat =
  threat_name :: str
  threat_pattern :: str
  threat_description :: str
  risk_level :: risk_level
  category :: threat_category

text \<open>The literals of the source are rounded to \<open>f32\<close>.\<close>

definition confidence_score :: "(rat \<Rightarrow> rat) \<Rightarrow> risk_level \<Rightarrow> rat" where
  "confidence_score f32 r = f32 (case r of Critical \<Rightarrow> 95 / 100 | High \<Rightarrow> 75 / 100
     | Medium \<Rightarrow> 60 / 100 | Low \<Rightarrow> 45 / 100)"

definition THREAT_PATTERNS :: "threat list" where
  "THREAT_PATTERNS = [
    \<lparr>threat_name = lit ''rm_rf_root_bare'',
      threat_pattern = pat (''rm%s+(-[rRfF]+%s+)*(-[rRfF]+|--recursive|--force|--no-preserve-root)(%s+(-[rRfF]+|--recu''
        @ ''rsive|--force|--no-preserve-root))*%s+['')
        @ [39]
        @ pat ''%x22]?/(%*)?[''
        @ [39]
        @ pat ''%x22]?(%s|[;&|]|$)'',
      threat_description = lit ''Recursive deletion of root filesystem'',
      risk_level = Critical, category = FileSystemDestruction\<rparr>,
    \<lparr>threat_name = lit ''rm_rf_home_or_root'',
      threat_pattern = pat (''rm%s+((--[a-zA-Z][a-zA-Z%-]*|--|-[a-zA-Z]+)%s+)*(-[a-zA-Z]*[rR][a-zA-Z]*|--recursive|--d''
        @ ''ir|-d)(%s+(--[a-zA-Z][a-zA-Z%-]*|--|-[a-zA-Z]+))*%s+['')
        @ [39]
        @ pat ''%x22]?(~|%$HOME|%$%{HOME%}|/home|/root)/?(%*)?[''
        @ [39]
        @ pat ''%x22]?(%s|[;&|]|$)'',
      threat_description = lit ''Recursive deletion of home or root directory'',
      risk_level = Critical, category = FileSystemDestruction\<rparr>,
    \<lparr>threat_name = lit ''dd_destruction'',
      threat_pattern = pat ''dd%s+.*if=/dev/(zero|random|urandom).*of=/dev/[sh]d[a-z]'',
      threat_description = lit ''Disk destruction using dd command'',
      risk_level = Critical, category = FileSystemDestruction\<rparr>,
    \<lparr>threat_name = lit ''format_drive'',
      threat_pattern = pat ''(format|mkfs%.[a-z]+)%s+[/%%]dev[/%%][sh]d[a-z]'',
      threat_description = lit ''Formatting system drives'',
      risk_level = Critical, category = FileSystemDestruction\<rparr>,
    \<lparr>threat_name = lit ''curl_bash_execution'',
      threat_pattern = pat ''(curl|wget)%s+.*%|%s*(bash|sh|zsh|fish|csh|tcsh)'',
      threat_description = lit ''Remote script execution via curl/wget piped to shell'',
      risk_level = Critical, category = RemoteCodeExecution\<rparr>,
    \<lparr>threat_name = lit ''bash_process_substitution'',
      threat_pattern = pat ''bash%s*<%s*%(%s*(curl|wget)'',
      threat_description = lit ''Bash process substitution with remote content'',
      risk_level = High, category = RemoteCodeExecution\<rparr>,
    \<lparr>threat_name = lit ''python_remote_exec'',
      threat_pattern = pat ''python[23]?%s+-c%s+.*urllib|requests.*exec'',
      threat_description = lit ''Python remote code execution'',
      risk_level = High, category = RemoteCodeExecution\<rparr>,
    \<lparr>threat_name = lit ''powershell_download_exec'',
      threat_pattern = pat ''powershell.*DownloadString.*Invoke-Expression'',
      threat_description = lit ''PowerShell remote script execution'',
      risk_level = High, category = RemoteCodeExecution\<rparr>,
    \<lparr>threat_name = lit ''ssh_key_exfiltration'',
      threat_pattern = pat ''(curl|wget).*-d.*%.ssh/(id_rsa|id_ed25519|id_ecdsa)'',
      threat_description = lit ''SSH key exfiltration'',
      risk_level = High, category = DataExfiltration\<rparr>,
    \<lparr>threat_name = lit ''password_file_access'',
      threat_pattern = pat ''(cat|grep|awk|sed).*(/etc/shadow|%.password)'',
      threat_description = lit ''Password/shadow file access'',
      risk_level = High, category = DataExfiltration\<rparr>,
    \<lparr>threat_name = lit ''history_exfiltration'',
      threat_pattern = pat ''(curl|wget).*-d.*%.(bash_history|zsh_history|history)'',
      threat_description = lit ''Command history exfiltration'',
      risk_level = High, category = DataExfiltration\<rparr>,
    \<lparr>threat_name = lit ''crontab_modification'',
      threat_pattern = pat ''(crontab%s+-e|echo.*>.*crontab|.*>%s*/var/spool/cron)'',
      threat_description = lit ''Crontab modification for persistence'',
      risk_level = High, category = SystemModification\<rparr>,
    \<lparr>threat_name = lit ''systemd_service_creation'',
      threat_pattern = pat ''systemctl.*enable|.*%.service.*>/etc/systemd'',
      threat_description = lit ''Systemd service creation'',
      risk_level = High, category = SystemModification\<rparr>,
    \<lparr>threat_name = lit ''hosts_file_modification'',
      threat_pattern = pat ''echo.*>(>?)%s*(/etc/hosts|hosts%.txt)|echo.*%|%s*(sudo%s+)?tee%s+(-a%s+)?/etc/hosts'',
      threat_description = lit ''Hosts file modification'',
      risk_level = Medium, category = SystemModification\<rparr>,
    \<lparr>threat_name = lit ''netcat_listener'',
      threat_pattern = pat ''nc%s+(-l|-p)%s+%d+'',
      threat_description = lit ''Netcat listener creation'',
      risk_level = High, category = NetworkAccess\<rparr>,
    \<lparr>threat_name = lit ''reverse_shell'',
      threat_pattern = pat ''(nc|netcat|bash|sh).*-e%s*(bash|sh|/bin/bash|/bin/sh)'',
      threat_description = lit ''Reverse shell creation'',
      risk_level = Critical, category = NetworkAccess\<rparr>,
    \<lparr>threat_name = lit ''ssh_tunnel'',
      threat_pattern = pat ''ssh%s+.*-[LRD]%s+%d+:'',
      threat_description = lit ''SSH tunnel creation'',
      risk_level = Medium, category = NetworkAccess\<rparr>,
    \<lparr>threat_name = lit ''kill_security_process'',
      threat_pattern = pat ''kill(all)?%s+.*%b(antivirus|firewall|defender|security|monitor)%b'',
      threat_description = lit ''Killing security processes'',
      risk_level = High, category = ProcessManipulation\<rparr>,
    \<lparr>threat_name = lit ''process_injection'',
      threat_pattern = pat ''gdb%s+.*attach|ptrace.*PTRACE_POKETEXT'',
      threat_description = lit ''Process injection techniques'',
      risk_level = High, category = ProcessManipulation\<rparr>,
    \<lparr>threat_name = lit ''sudo_without_password'',
      threat_pattern = pat ''echo.*NOPASSWD.*>.*sudoers'',
      threat_description = lit ''Sudo privilege escalation'',
      risk_level = Critical, category = PrivilegeEscalation\<rparr>,
    \<lparr>threat_name = lit ''suid_binary_creation'',
      threat_pattern = pat ''chmod%s+[47][0-7][0-7][0-7]|chmod%s+%+s'',
      threat_description = lit ''SUID binary creation'',
      risk_level = High, category = PrivilegeEscalation\<rparr>,
    \<lparr>threat_name = lit ''encoded_commands'',
      threat_pattern = pat ''(base64|hex|url).*decode.*%|%s*(bash|sh)'',
      threat_description = lit ''Encoded command execution'',
      risk_level = High, category = CommandInjection\<rparr>,
    \<lparr>threat_name = lit ''base64_encoded_shell'',
      threat_pattern = pat ''(echo|printf)%s+[A-Za-z0-9+/=]{20,}%s*%|%s*base64%s+-d%s*%|%s*(bash|sh|zsh)'',
      threat_description = lit ''Base64 encoded shell commands'',
      risk_level = High, category = CommandInjection\<rparr>,
    \<lparr>threat_name = lit ''hex_encoded_commands'',
      threat_pattern = pat ''(echo|printf)%s+[0-9a-fA-F%%x]{20,}%s*%|%s*(xxd|od).*%|%s*(bash|sh)'',
      threat_description = lit ''Hex encoded command execution'',
      risk_level = High, category = CommandInjection\<rparr>,
    \<lparr>threat_name = lit ''eval_with_variables'',
      threat_pattern = pat ''eval%s+%$[A-Za-z_][A-Za-z0-9_]*|%beval%s+.*%$%{'',
      threat_description = lit ''Eval with variable substitution'',
      risk_level = High, category = CommandInjection\<rparr>,
    \<lparr>threat_name = lit ''indirect_command_execution'',
      threat_pattern = pat ''%$%([^)]*%$%([^)]*%)[^)]*%)|`[^`]*`[^`]*`'',
      threat_description = lit ''Nested command substitution'',
      risk_level = Low, category = CommandInjection\<rparr>,
    \<lparr>threat_name = lit ''unicode_obfuscation'',
      threat_pattern = pat ''(%%u[0-9a-fA-F]{4}|%%U[0-9a-fA-F]{8}){3,}'',
      threat_description = lit ''Unicode character obfuscation (3+ consecutive escapes)'',
      risk_level = Medium, category = CommandInjection\<rparr>,
    \<lparr>threat_name = lit ''docker_privileged_exec'',
      threat_pattern = pat ''docker%s+(run|exec).*--privileged'',
      threat_description = lit ''Docker privileged container execution'',
      risk_level = High, category = PrivilegeEscalation\<rparr>,
    \<lparr>threat_name = lit ''container_escape'',
      threat_pattern = pat ''(chroot|unshare|nsenter).*--mount|--pid|--net'',
      threat_description = lit ''Container escape techniques'',
      risk_level = High, category = PrivilegeEscalation\<rparr>,
    \<lparr>threat_name = lit ''kernel_module_manipulation'',
      threat_pattern = pat ''(insmod|rmmod|modprobe).*%.ko'',
      threat_description = lit ''Kernel module manipulation'',
      risk_level = Critical, category = SystemModification\<rparr>,
    \<lparr>threat_name = lit ''memory_dump'',
      threat_pattern = pat ''(gcore|gdb.*dump|/proc/[0-9]+/mem)'',
      threat_description = lit ''Memory dumping techniques'',
      risk_level = High, category = DataExfiltration\<rparr>,
    \<lparr>threat_name = lit ''log_manipulation'',
      threat_pattern = pat (''(truncate.*log|rm%s+((--[a-zA-Z][a-zA-Z%-]*|--|-[a-zA-Z]+)%s+)*/var/log(/|%s|[;&|]|$)|ec''
        @ ''ho%s*>%s*/var/log)''),
      threat_description = lit ''Log file manipulation or deletion'',
      risk_level = Medium, category = SystemModification\<rparr>,
    \<lparr>threat_name = lit ''file_timestamp_manipulation'',
      threat_pattern = pat ''touch%s+-[amt]%s+|utimes|futimes'',
      threat_description = lit ''File timestamp manipulation'',
      risk_level = Low, category = SystemModification\<rparr>,
    \<lparr>threat_name = lit ''steganography_tools'',
      threat_pattern = pat ''%b(steghide|outguess|jphide|steganos)%b'',
      threat_description = lit ''Steganography tools usage'',
      risk_level = Medium, category = DataExfiltration\<rparr>,
    \<lparr>threat_name = lit ''network_scanning'',
      threat_pattern = pat ''%b(nmap|masscan|zmap|unicornscan)%b.*-[sS]'',
      threat_description = lit ''Network scanning tools'',
      risk_level = Medium, category = NetworkAccess\<rparr>,
    \<lparr>threat_name = lit ''password_cracking_tools'',
      threat_pattern = pat ''%bjohn%s+--[a-z]|%b(hashcat|hydra|medusa|brutespray)%b'',
      threat_description = lit ''Password cracking tools'',
      risk_level = High, category = PrivilegeEscalation\<rparr>]"

section \<open>The search\<close>

record pattern_match =
  match_threat :: threat
  matched_text :: str
  start_pos :: nat
  end_pos :: nat

text \<open>A pattern that does not compile is left out; all are matched without regard to case.\<close>

definition compiled :: "threat \<Rightarrow> str" where
  "compiled t = lit ''(?i)'' @ threat_pattern t"

definition matches_of :: "regex_engine \<Rightarrow> (str \<Rightarrow> bool) \<Rightarrow> str \<Rightarrow> threat \<Rightarrow> pattern_match list" where
  "matches_of rx compiles s t =
     (if compiles (compiled t) \<and> rx_is_match rx (compiled t) s
      then List.map (\<lambda>m. \<lparr>match_threat = t, matched_text = m_text s m, start_pos = m_start m, end_pos = m_end m\<rparr>)
        (rx_find_iter rx (compiled t) s)
      else [])"

definition sort_position :: "pattern_match \<Rightarrow> nat \<times> nat" where
  "sort_position m = (risk_rank Critical - risk_rank (risk_level (match_threat m)), start_pos m)"

definition scan_for_patterns :: "regex_engine \<Rightarrow> (str \<Rightarrow> bool) \<Rightarrow> str \<Rightarrow> pattern_match list" where
  "scan_for_patterns rx compiles s =
     sort_key sort_position (concat (List.map (matches_of rx compiles s) THREAT_PATTERNS))"

definition get_max_risk_level :: "pattern_match list \<Rightarrow> risk_level option" where
  "get_max_risk_level ms = (case List.map (\<lambda>m. risk_level (match_threat m)) ms of
     [] \<Rightarrow> None | r # rs \<Rightarrow> Some (fold max rs r))"

definition has_critical_threats :: "pattern_match list \<Rightarrow> bool" where
  "has_critical_threats ms = list_ex (\<lambda>m. risk_level (match_threat m) \<in> {Critical, High}) ms"

section \<open>What is found\<close>

lemma scan_for_patterns_set:
  "set (scan_for_patterns rx compiles s) = (\<Union>t\<in>set THREAT_PATTERNS. set (matches_of rx compiles s t))"
  by (simp add: scan_for_patterns_def)

lemma fold_max_Max: "fold max rs (r :: risk_level) = Max (insert r (set rs))"
proof (induction rs arbitrary: r)
  case (Cons a rs)
  then show ?case by (cases "rs = []") (simp_all add: max.commute max.left_commute insert_commute)
qed simp

lemma get_max_risk_level_iff:
  "get_max_risk_level ms = Some r \<longleftrightarrow>
     (\<exists>m\<in>set ms. risk_level (match_threat m) = r) \<and> (\<forall>m\<in>set ms. risk_level (match_threat m) \<le> r)"
proof (cases ms)
  case (Cons m ms')
  let ?R = "(\<lambda>m. risk_level (match_threat m)) ` set ms"
  have "get_max_risk_level ms = Some (Max ?R)"
    using Cons by (simp add: get_max_risk_level_def fold_max_Max)
  moreover have "Max ?R = r \<longleftrightarrow> r \<in> ?R \<and> (\<forall>x\<in>?R. x \<le> r)"
    using Cons by (intro Max_eq_iff) auto
  ultimately show ?thesis by auto
qed (simp add: get_max_risk_level_def)

text \<open>The first match is one of the greatest risk, and of those the first in the text.\<close>

lemma first_match_riskiest:
  assumes "scan_for_patterns rx compiles s = m # ms" and "n \<in> set ms"
  shows "risk_level (match_threat n) \<le> risk_level (match_threat m)
    \<and> (risk_level (match_threat n) = risk_level (match_threat m) \<longrightarrow> start_pos m \<le> start_pos n)"
proof -
  have "sorted (List.map sort_position (m # ms))"
    unfolding assms(1) [symmetric] scan_for_patterns_def by (rule sorted_sort_key)
  then have "sort_position m \<le> sort_position n" using assms(2) by auto
  moreover have "risk_rank (risk_level (match_threat m)) \<le> 3" "risk_rank (risk_level (match_threat n)) \<le> 3"
    by (cases "risk_level (match_threat m)"; simp) (cases "risk_level (match_threat n)"; simp)
  ultimately show ?thesis
    by (auto simp: sort_position_def less_eq_risk_level_def less_eq_prod_def less_prod_def)
qed

end
