(* ===== verification/SecurityScanner.thy ===== *)
theory SecurityScanner
  imports ToolInspection SecurityPatterns Conversation
begin

text \<open>
  \<open>crates/bharatcode-core/src/security/scanner.rs\<close>, \<open>mod.rs\<close> and \<open>security_inspector.rs\<close>: the scan of shell
  calls by patterns or a classifier model, corrected by a classifier of the conversation, and the inspector
  that asks the user about what it finds. The classifiers, the configuration, the environment and the JSON crate
  are parameters; \<open>f32\<close> rounds a number to single precision. The two scans of a call are joined in the source
  and run one after the other here.
\<close>

section \<open>The scanner\<close>

definition USER_SCAN_LIMIT :: nat where "USER_SCAN_LIMIT = 10"

datatype classifier_type = CommandClassifier | PromptClassifier

record 'c scanner =
  command_classifier :: "'c option"
  prompt_classifier :: "'c option"

record ('w, 'c) scan_env =
  scan_regex :: regex_engine
  pattern_compiles :: "str \<Rightarrow> bool"
  f32 :: "rat \<Rightarrow> rat"
  arguments_json :: "json_object \<Rightarrow> str option"
  show_percent :: "rat \<Rightarrow> str"
  env_var :: "'w \<Rightarrow> str \<Rightarrow> str option"
  bool_param :: "'w \<Rightarrow> str \<Rightarrow> bool option"
  string_param :: "'w \<Rightarrow> str \<Rightarrow> str option"
  secret_param :: "'w \<Rightarrow> str \<Rightarrow> str option"
  number_param :: "'w \<Rightarrow> str \<Rightarrow> rat option"
  from_model_name :: "str \<Rightarrow> 'c option"
  from_endpoint :: "str \<Rightarrow> str option \<Rightarrow> 'c option"
  from_model_type :: "str \<Rightarrow> 'c option"
  classify :: "'c \<Rightarrow> str \<Rightarrow> 'w \<Rightarrow> 'w \<times> (str, rat) result"
  new_finding :: "'w \<Rightarrow> 'w \<times> str"
  scanner_cell :: "'w \<Rightarrow> 'c scanner option"
  set_scanner :: "'c scanner \<Rightarrow> 'w \<Rightarrow> 'w"

definition get_override :: "('w, 'c) scan_env \<Rightarrow> 'w \<Rightarrow> str \<Rightarrow> bool option" where
  "get_override env w key = Option.bind (env_var env w key) (\<lambda>v.
     if v = lit ''true'' then Some True else if v = lit ''false'' then Some False else None)"

definition flag :: "('w, 'c) scan_env \<Rightarrow> 'w \<Rightarrow> str \<Rightarrow> bool" where
  "flag env w key = (bool_param env w key = Some True)"

definition overridden :: "('w, 'c) scan_env \<Rightarrow> 'w \<Rightarrow> str \<Rightarrow> str \<Rightarrow> bool" where
  "overridden env w override key = (case get_override env w override of Some b \<Rightarrow> b | None \<Rightarrow> flag env w key)"

definition is_prompt_injection_detection_enabled :: "('w, 'c) scan_env \<Rightarrow> 'w \<Rightarrow> bool" where
  "is_prompt_injection_detection_enabled env w =
     overridden env w (lit ''SECURITY_PROMPT_ENABLED_OVERRIDE'') (lit ''SECURITY_PROMPT_ENABLED'')"

definition classifier_enabled :: "('w, 'c) scan_env \<Rightarrow> 'w \<Rightarrow> classifier_type \<Rightarrow> bool" where
  "classifier_enabled env w ct = (case ct of
     CommandClassifier \<Rightarrow> overridden env w (lit ''SECURITY_COMMAND_CLASSIFIER_ENABLED_OVERRIDE'')
       (lit ''SECURITY_COMMAND_CLASSIFIER_ENABLED'')
   | PromptClassifier \<Rightarrow> flag env w (lit ''SECURITY_PROMPT_CLASSIFIER_ENABLED''))"

definition is_ml_scanning_enabled :: "('w, 'c) scan_env \<Rightarrow> 'w \<Rightarrow> bool" where
  "is_ml_scanning_enabled env w =
     (classifier_enabled env w PromptClassifier \<or> classifier_enabled env w CommandClassifier)"

definition classifier_key :: "classifier_type \<Rightarrow> str \<Rightarrow> str" where
  "classifier_key ct part = lit ''SECURITY_''
     @ (case ct of CommandClassifier \<Rightarrow> lit ''COMMAND'' | PromptClassifier \<Rightarrow> lit ''PROMPT'')
     @ lit ''_CLASSIFIER_'' @ part"

definition not_blank :: "str option \<Rightarrow> str option" where
  "not_blank s = Option.bind s (\<lambda>s. if trim s = [] then None else Some s)"

definition create_classifier :: "('w, 'c) scan_env \<Rightarrow> 'w \<Rightarrow> classifier_type \<Rightarrow> 'c option" where
  "create_classifier env w ct =
     (if \<not> classifier_enabled env w ct then None
      else case not_blank (string_param env w (classifier_key ct (lit ''MODEL''))) of
        Some model \<Rightarrow> from_model_name env model
      | None \<Rightarrow> (case not_blank (string_param env w (classifier_key ct (lit ''ENDPOINT''))) of
          Some url \<Rightarrow> from_endpoint env url (not_blank (secret_param env w (classifier_key ct (lit ''TOKEN''))))
        | None \<Rightarrow> if ct = CommandClassifier then from_model_type env (lit ''command'') else None))"

definition new_scanner :: "'c scanner" where
  "new_scanner = \<lparr>command_classifier = None, prompt_classifier = None\<rparr>"

definition with_ml_detection :: "('w, 'c) scan_env \<Rightarrow> 'w \<Rightarrow> 'c scanner option" where
  "with_ml_detection env w =
     (let c = create_classifier env w CommandClassifier; p = create_classifier env w PromptClassifier
      in if c = None \<and> p = None then None else Some \<lparr>command_classifier = c, prompt_classifier = p\<rparr>)"

text \<open>The scanner is made once, with what is configured at that time.\<close>

definition get_scanner :: "('w, 'c) scan_env \<Rightarrow> 'w \<Rightarrow> 'w \<times> 'c scanner" where
  "get_scanner env w = (case scanner_cell env w of
     Some s \<Rightarrow> (w, s)
   | None \<Rightarrow> (let s = (if is_ml_scanning_enabled env w
          then (case with_ml_detection env w of Some s \<Rightarrow> s | None \<Rightarrow> new_scanner) else new_scanner)
        in (set_scanner env s w, s)))"

definition get_threshold_from_config :: "('w, 'c) scan_env \<Rightarrow> 'w \<Rightarrow> rat" where
  "get_threshold_from_config env w = f32 env
     (case number_param env w (lit ''SECURITY_PROMPT_THRESHOLD'') of Some t \<Rightarrow> t | None \<Rightarrow> 8 / 10)"

section \<open>Scanning a call\<close>

record detailed_scan =
  scan_confidence :: rat
  pattern_matches :: "pattern_match list"
  ml_confidence :: "rat option"

record scan_result =
  is_malicious :: bool
  result_confidence :: rat
  explanation :: str
  scanned :: bool

definition is_shell_tool_name :: "str \<Rightarrow> bool" where
  "is_shell_tool_name n = (n = lit ''shell'')"

definition extract_tool_content :: "('w, 'c) scan_env \<Rightarrow> call_params \<Rightarrow> str" where
  "extract_tool_content env call =
     (case Option.bind (Option.bind (arguments call) (\<lambda>a. map_of a (lit ''command''))) json_as_str of
        Some cmd \<Rightarrow> cmd
      | None \<Rightarrow> lit ''Tool: '' @ tool_name call
          @ (case Option.bind (arguments call) (arguments_json env) of Some j \<Rightarrow> newline # j | None \<Rightarrow> []))"

definition scan_with_classifier :: "('w, 'c) scan_env \<Rightarrow> 'c \<Rightarrow> str \<Rightarrow> 'w \<Rightarrow> 'w \<times> rat option" where
  "scan_with_classifier env c s w = (case classify env c s w of
     (w', Ok conf) \<Rightarrow> (w', Some conf) | (w', Err _) \<Rightarrow> (w', None))"

definition pattern_based_scanning :: "('w, 'c) scan_env \<Rightarrow> str \<Rightarrow> rat \<times> pattern_match list" where
  "pattern_based_scanning env s = (let ms = scan_for_patterns (scan_regex env) (pattern_compiles env) s
     in (case get_max_risk_level ms of None \<Rightarrow> 0 | Some r \<Rightarrow> confidence_score (f32 env) r, ms))"

definition pattern_result :: "('w, 'c) scan_env \<Rightarrow> str \<Rightarrow> detailed_scan" where
  "pattern_result env s = (case pattern_based_scanning env s of
     (conf, ms) \<Rightarrow> \<lparr>scan_confidence = conf, pattern_matches = ms, ml_confidence = None\<rparr>)"

definition analyze_text :: "('w, 'c) scan_env \<Rightarrow> 'c scanner \<Rightarrow> str \<Rightarrow> 'w \<Rightarrow> 'w \<times> detailed_scan" where
  "analyze_text env sc s w = (case command_classifier sc of
     None \<Rightarrow> (w, pattern_result env s)
   | Some c \<Rightarrow> (case scan_with_classifier env c s w of
       (w', Some conf) \<Rightarrow> (w', \<lparr>scan_confidence = conf, pattern_matches = [], ml_confidence = Some conf\<rparr>)
     | (w', None) \<Rightarrow> (w', pattern_result env s)))"

text \<open>The texts of the last user messages, the newest first.\<close>

definition extract_user_messages :: "message list \<Rightarrow> nat \<Rightarrow> str list" where
  "extract_user_messages msgs limit = filter (\<lambda>s. s \<noteq> [])
     (List.map (\<lambda>m. join_with [newline] (List.map_filter as_text (content m)))
       (take limit (filter (\<lambda>m. effective_role m = EffUser) (rev msgs))))"

fun scan_prompts :: "('w, 'c) scan_env \<Rightarrow> 'c \<Rightarrow> str list \<Rightarrow> rat \<Rightarrow> 'w \<Rightarrow> 'w \<times> rat" where
  "scan_prompts env c [] acc w = (w, acc)"
| "scan_prompts env c (s # ss) acc w = (case scan_with_classifier env c s w of
     (w', r) \<Rightarrow> scan_prompts env c ss (max (case r of Some x \<Rightarrow> x | None \<Rightarrow> 0) acc) w')"

definition scan_conversation :: "('w, 'c) scan_env \<Rightarrow> 'c scanner \<Rightarrow> message list \<Rightarrow> 'w \<Rightarrow> 'w \<times> rat option" where
  "scan_conversation env sc msgs w = (case prompt_classifier sc of
     None \<Rightarrow> (w, None)
   | Some c \<Rightarrow> (let texts = extract_user_messages msgs USER_SCAN_LIMIT in
       if texts = [] then (w, None)
       else (case scan_prompts env c texts 0 w of (w', conf) \<Rightarrow> (w', Some conf))))"

definition combine_confidences :: "(rat \<Rightarrow> rat) \<Rightarrow> rat \<Rightarrow> rat option \<Rightarrow> rat" where
  "combine_confidences r tool context = (case context of
     None \<Rightarrow> tool
   | Some c \<Rightarrow>
       if tool < r (3 / 10) then tool
       else if c < r (3 / 10) then r (tool * r (9 / 10))
       else if r (8 / 10) < tool \<and> r (8 / 10) < c then min (r (max tool c * r (105 / 100))) 1
       else r (r (tool * r (8 / 10)) + r (c * r (2 / 10))))"

fun show_risk :: "risk_level \<Rightarrow> str" where
  "show_risk Low = lit ''Low''"
| "show_risk Medium = lit ''Medium''"
| "show_risk High = lit ''High''"
| "show_risk Critical = lit ''Critical''"

definition build_explanation :: "('w, 'c) scan_env \<Rightarrow> detailed_scan \<Rightarrow> rat \<Rightarrow> str \<Rightarrow> str" where
  "build_explanation env d threshold tool_content =
     (if scan_confidence d < threshold then lit ''No security threats detected''
      else
        let shown = (case split_once tool_content [newline] of Some (_, args) \<Rightarrow> args | None \<Rightarrow> tool_content);
            command = newline # newline # lit ''Command:'' @ newline # safe_truncate shown 300
        in case pattern_matches d of
             m # _ \<Rightarrow> lit ''Pattern-based detection: '' @ threat_description (match_threat m)
               @ lit '' (Risk: '' @ show_risk (risk_level (match_threat m)) @ lit '')'' @ newline # lit ''Found: ''
               @ quoted (safe_truncate (matched_text m) 50) @ command
           | [] \<Rightarrow> (case ml_confidence d of
               Some c \<Rightarrow> lit ''Security threat detected (confidence: '' @ show_percent env (f32 env (c * 100)) @ lit ''%)'' @ command
             | None \<Rightarrow> lit ''Security threat detected'' @ command))"

definition analyze_tool_call_with_context ::
    "('w, 'c) scan_env \<Rightarrow> 'c scanner \<Rightarrow> call_params \<Rightarrow> message list \<Rightarrow> 'w \<Rightarrow> 'w \<times> scan_result" where
  "analyze_tool_call_with_context env sc call msgs w =
     (if \<not> is_shell_tool_name (tool_name call)
      then (w, \<lparr>is_malicious = False, result_confidence = 0,
              explanation = lit ''Tool call skipped: only shell commands are scanned'', scanned = False\<rparr>)
      else
        let tool_content = extract_tool_content env call;
            (w1, tool) = analyze_text env sc tool_content w;
            (w2, context) = scan_conversation env sc msgs w1;
            threshold = get_threshold_from_config env w2;
            final = combine_confidences (f32 env) (scan_confidence tool) context
        in (w2, \<lparr>is_malicious = threshold \<le> final, result_confidence = final,
              explanation = build_explanation env (tool\<lparr>scan_confidence := final\<rparr>) threshold tool_content,
              scanned = True\<rparr>))"

section \<open>The inspector\<close>

record security_result =
  finding_malicious :: bool
  finding_confidence :: rat
  finding_explanation :: str
  should_ask_user :: bool
  security_finding :: str
  security_request :: str

definition judge_request ::
    "('w, 'c) scan_env \<Rightarrow> 'c scanner \<Rightarrow> message list \<Rightarrow> tool_request \<Rightarrow> 'w \<Rightarrow> 'w \<times> security_result list" where
  "judge_request env sc msgs r w = (case tool_call r of
     Err _ \<Rightarrow> (w, [])
   | Ok call \<Rightarrow> (case analyze_tool_call_with_context env sc call msgs w of (w1, res) \<Rightarrow>
       if \<not> is_malicious res then (w1, [])
       else (case new_finding env w1 of (w2, u) \<Rightarrow>
         (w2, if get_threshold_from_config env w1 < result_confidence res
            then [\<lparr>finding_malicious = True, finding_confidence = result_confidence res,
                   finding_explanation = explanation res, should_ask_user = True,
                   security_finding = lit ''SEC-'' @ u, security_request = request_id r\<rparr>]
            else []))))"

fun judge_requests ::
    "('w, 'c) scan_env \<Rightarrow> 'c scanner \<Rightarrow> message list \<Rightarrow> tool_request list \<Rightarrow> 'w \<Rightarrow> 'w \<times> security_result list" where
  "judge_requests env sc msgs [] w = (w, [])"
| "judge_requests env sc msgs (r # rs) w =
     (let (w1, xs) = judge_request env sc msgs r w; (w2, ys) = judge_requests env sc msgs rs w1 in (w2, xs @ ys))"

definition analyze_tool_requests ::
    "('w, 'c) scan_env \<Rightarrow> tool_request list \<Rightarrow> message list \<Rightarrow> 'w \<Rightarrow> 'w \<times> security_result list" where
  "analyze_tool_requests env reqs msgs w =
     (if \<not> is_prompt_injection_detection_enabled env w then (w, [])
      else case get_scanner env w of (w1, sc) \<Rightarrow> judge_requests env sc msgs reqs w1)"

definition filter_malicious_tool_calls ::
    "('w, 'c) scan_env \<Rightarrow> message list \<Rightarrow> permission_check_result \<Rightarrow> 'w \<Rightarrow> 'w \<times> security_result list" where
  "filter_malicious_tool_calls env msgs p w = analyze_tool_requests env (approved p @ needs_approval p) msgs w"

definition convert_security_result :: "security_result \<Rightarrow> str \<Rightarrow> inspection_result" where
  "convert_security_result s i = \<lparr>tool_request_id = i,
     action = (if finding_malicious s \<and> should_ask_user s
       then RequireApproval (Some ([128274] @ lit '' Security Alert'' @ [newline, newline] @ finding_explanation s
         @ [newline, newline] @ lit ''Finding ID: '' @ security_finding s))
       else Allow),
     reason = finding_explanation s, confidence = finding_confidence s, inspector_name = lit ''security'',
     finding_id = Some (security_finding s)\<rparr>"

definition inspect_security ::
    "('w, 'c) scan_env \<Rightarrow> 'w \<Rightarrow> tool_request list \<Rightarrow> message list \<Rightarrow> 'w \<times> (str, inspection_result list) result" where
  "inspect_security env w reqs msgs = (case analyze_tool_requests env reqs msgs w of
     (w', ss) \<Rightarrow> (w', Ok (List.map (\<lambda>s. convert_security_result s (security_request s)) ss)))"

text \<open>The inspector as the manager runs it, which asks first whether it is enabled.\<close>

definition security_inspector :: "('w, 'c) scan_env \<Rightarrow> 'w \<Rightarrow> 'w tool_inspector" where
  "security_inspector env w0 = \<lparr>inspector = lit ''security'',
     is_enabled = is_prompt_injection_detection_enabled env w0,
     inspect = (\<lambda>w reqs msgs mode. inspect_security env w reqs msgs)\<rparr>"


section \<open>Confidence and rounding\<close>

text \<open>
  The rounding to single precision moves a number between a hundredth and two by at most half a unit in the
  last place of the numbers below two.
\<close>

definition single_precision :: "(rat \<Rightarrow> rat) \<Rightarrow> bool" where
  "single_precision r = (\<forall>x. 1 / 100 \<le> x \<and> x \<le> 2 \<longrightarrow> \<bar>r x - x\<bar> \<le> 1 / 2 ^ 24)"

lemma single_precision_bounds:
  assumes "single_precision r" "1 / 100 \<le> x" "x \<le> 2"
  shows "x - 1 / 1000000 \<le> r x" "r x \<le> x + 1 / 1000000"
proof -
  have "\<bar>r x - x\<bar> \<le> 1 / 2 ^ 24" using assms by (simp add: single_precision_def)
  then have "x - 1 / 2 ^ 24 \<le> r x \<and> r x \<le> x + 1 / 2 ^ 24" by linarith
  then show "x - 1 / 1000000 \<le> r x" "r x \<le> x + 1 / 1000000" by simp_all
qed

text \<open>A critical pattern stays above the default threshold, whatever the classifier of the conversation says.\<close>

lemma critical_confidence:
  assumes r: "single_precision r" and c: "\<And>c. context = Some c \<Longrightarrow> 0 \<le> c \<and> c \<le> 1"
  shows "r (8 / 10) < combine_confidences r (confidence_score r Critical) context"
proof -
  note b = single_precision_bounds [OF r]
  let ?t = "confidence_score r Critical"
  have t: "949 / 1000 \<le> ?t" "?t \<le> 951 / 1000" using b [of "95 / 100"] by (simp_all add: confidence_score_def)
  have k3: "299 / 1000 \<le> r (3 / 10)" "r (3 / 10) \<le> 301 / 1000" using b [of "3 / 10"] by simp_all
  have k8: "799 / 1000 \<le> r (8 / 10)" "r (8 / 10) \<le> 8001 / 10000" using b [of "8 / 10"] by simp_all
  have k9: "899 / 1000 \<le> r (9 / 10)" "r (9 / 10) \<le> 1" using b [of "9 / 10"] by simp_all
  have k2: "199 / 1000 \<le> r (2 / 10)" "r (2 / 10) \<le> 201 / 1000" using b [of "2 / 10"] by simp_all
  have k5: "1049 / 1000 \<le> r (105 / 100)" "r (105 / 100) \<le> 1051 / 1000" using b [of "105 / 100"] by simp_all
  show ?thesis
  proof (cases "context")
    case None
    then show ?thesis using t k8 by (simp add: combine_confidences_def)
  next
    case (Some c)
    with c have c: "0 \<le> c" "c \<le> 1" by auto
    consider "c < r (3 / 10)" | "r (3 / 10) \<le> c" "r (8 / 10) < c" | "r (3 / 10) \<le> c" "c \<le> r (8 / 10)" by linarith
    then show ?thesis
    proof cases
      case 1
      have "949 / 1000 * (899 / 1000) \<le> ?t * r (9 / 10)" "?t * r (9 / 10) \<le> 951 / 1000 * 1"
        using t k9 by ((intro mult_mono; simp)+)
      then have "r (8 / 10) < r (?t * r (9 / 10))" using b [of "?t * r (9 / 10)"] k8 by simp
      then show ?thesis using 1 Some t k3 by (simp add: combine_confidences_def)
    next
      case 2
      have "949 / 1000 * (1049 / 1000) \<le> max ?t c * r (105 / 100)" "max ?t c * r (105 / 100) \<le> 1 * (1051 / 1000)"
        using t k5 c by ((intro mult_mono; simp add: max_def)+)
      then have "r (8 / 10) < r (max ?t c * r (105 / 100))" using b [of "max ?t c * r (105 / 100)"] k8 by simp
      then show ?thesis using 2 Some t k3 k8 by (simp add: combine_confidences_def)
    next
      case 3
      have "949 / 1000 * (799 / 1000) \<le> ?t * r (8 / 10)" "?t * r (8 / 10) \<le> 951 / 1000 * (8001 / 10000)"
        using t k8 by ((intro mult_mono; simp)+)
      then have x: "758 / 1000 \<le> r (?t * r (8 / 10))" "r (?t * r (8 / 10)) \<le> 762 / 1000"
        using b [of "?t * r (8 / 10)"] by simp_all
      have "299 / 1000 * (199 / 1000) \<le> c * r (2 / 10)" "c * r (2 / 10) \<le> 1 * (201 / 1000)"
        using 3 k3 k2 c by ((intro mult_mono; simp)+)
      then have "59 / 1000 \<le> r (c * r (2 / 10))" "r (c * r (2 / 10)) \<le> 202 / 1000"
        using b [of "c * r (2 / 10)"] by simp_all
      with x have "r (8 / 10) < r (r (?t * r (8 / 10)) + r (c * r (2 / 10)))"
        using b [of "r (?t * r (8 / 10)) + r (c * r (2 / 10))"] k8 by simp
      then show ?thesis using 3 Some t k3 by (simp add: combine_confidences_def)
    qed
  qed
qed

section \<open>Critical commands\<close>

text \<open>A classifier answers with a probability.\<close>

definition probabilities :: "('w, 'c) scan_env \<Rightarrow> bool" where
  "probabilities env = (\<forall>c s w w' x. classify env c s w = (w', Ok x) \<longrightarrow> 0 \<le> x \<and> x \<le> 1)"

lemma scan_prompts_range:
  assumes "probabilities env" and "0 \<le> acc" "acc \<le> 1"
  shows "0 \<le> snd (scan_prompts env c ss acc w) \<and> snd (scan_prompts env c ss acc w) \<le> 1"
  using assms(2,3)
proof (induction ss arbitrary: acc w)
  case (Cons s ss)
  obtain w' r where r: "scan_with_classifier env c s w = (w', r)" by force
  then have "0 \<le> (case r of Some x \<Rightarrow> x | None \<Rightarrow> 0) \<and> (case r of Some x \<Rightarrow> x | None \<Rightarrow> 0) \<le> 1"
    using assms(1) by (auto simp: probabilities_def scan_with_classifier_def split: prod.splits sum.splits)
  with Cons r show ?case by simp
qed simp

lemma scan_conversation_range:
  assumes "probabilities env" and "scan_conversation env sc msgs w = (w', Some x)"
  shows "0 \<le> x \<and> x \<le> 1"
proof -
  obtain c where c: "scan_prompts env c (extract_user_messages msgs USER_SCAN_LIMIT) 0 w = (w', x)"
    using assms(2) by (auto simp: scan_conversation_def Let_def split: option.splits if_splits prod.splits)
  show ?thesis using scan_prompts_range [OF assms(1), of 0 c "extract_user_messages msgs USER_SCAN_LIMIT" w] c by simp
qed

lemma pattern_result_critical:
  assumes "t \<in> set THREAT_PATTERNS" "risk_level t = Critical"
    and "matches_of (scan_regex env) (pattern_compiles env) s t \<noteq> []"
  shows "scan_confidence (pattern_result env s) = confidence_score (f32 env) Critical"
proof -
  let ?ms = "scan_for_patterns (scan_regex env) (pattern_compiles env) s"
  obtain m where "m \<in> set (matches_of (scan_regex env) (pattern_compiles env) s t)"
    using assms(3) by (meson list.set_sel(1))
  with assms(1,2) have "m \<in> set ?ms" "risk_level (match_threat m) = Critical"
    by (auto simp: scan_for_patterns_set matches_of_def split: if_splits)
  moreover have "r \<le> Critical" for r by (cases r) (simp_all add: less_eq_risk_level_def)
  ultimately have "get_max_risk_level ?ms = Some Critical"
    unfolding get_max_risk_level_iff by blast
  then show ?thesis by (simp add: pattern_result_def pattern_based_scanning_def Let_def)
qed

text \<open>A shell call with a critical command, scanned by patterns, is reported.\<close>

definition critical_call :: "('w, 'c) scan_env \<Rightarrow> call_params \<Rightarrow> bool" where
  "critical_call env call = (is_shell_tool_name (tool_name call) \<and> list_ex (\<lambda>t. risk_level t = Critical
     \<and> matches_of (scan_regex env) (pattern_compiles env) (extract_tool_content env call) t \<noteq> []) THREAT_PATTERNS)"

lemma judge_request_critical:
  assumes "tool_call r = Ok call" "critical_call env call" "command_classifier sc = None"
    and "single_precision (f32 env)" and "\<And>w. number_param env w (lit ''SECURITY_PROMPT_THRESHOLD'') = None"
    and "probabilities env"
  shows "\<exists>s. snd (judge_request env sc msgs r w) = [s] \<and> finding_malicious s \<and> should_ask_user s
    \<and> security_request s = request_id r"
proof -
  let ?c = "extract_tool_content env call"
  obtain t where t: "t \<in> set THREAT_PATTERNS" "risk_level t = Critical"
    "matches_of (scan_regex env) (pattern_compiles env) ?c t \<noteq> []"
    using assms(2) by (auto simp: critical_call_def list_ex_iff)
  have threshold: "get_threshold_from_config env v = f32 env (8 / 10)" for v
    using assms(5) [of v] by (simp add: get_threshold_from_config_def)
  obtain w1 ctx where sc: "scan_conversation env sc msgs w = (w1, ctx)" by force
  obtain w2 res where res: "analyze_tool_call_with_context env sc call msgs w = (w2, res)" by force
  have "result_confidence res = combine_confidences (f32 env) (confidence_score (f32 env) Critical) ctx
      \<and> is_malicious res = (f32 env (8 / 10) \<le> result_confidence res)"
    using res sc assms(2,3) pattern_result_critical [OF t]
    by (auto simp: analyze_tool_call_with_context_def analyze_text_def critical_call_def threshold Let_def
        split: prod.splits)
  moreover have "0 \<le> c \<and> c \<le> 1" if "ctx = Some c" for c
    using scan_conversation_range [OF assms(6)] sc that by blast
  ultimately have "f32 env (8 / 10) < result_confidence res" "is_malicious res"
    using critical_confidence [OF assms(4), of "ctx"] by auto
  then show ?thesis
    using assms(1) res by (auto simp: judge_request_def threshold split: prod.splits)
qed

lemma judge_requests_member:
  assumes "r \<in> set reqs" and "\<And>w. \<exists>s. snd (judge_request env sc msgs r w) = [s] \<and> P s"
  shows "\<exists>s\<in>set (snd (judge_requests env sc msgs reqs w)). P s"
  using assms(1)
proof (induction reqs arbitrary: w)
  case (Cons q qs)
  obtain w1 xs where x: "judge_request env sc msgs q w = (w1, xs)" by force
  obtain w2 ys where y: "judge_requests env sc msgs qs w1 = (w2, ys)" by force
  show ?case
  proof (cases "q = r")
    case True
    with assms(2) [of w] x y show ?thesis by auto
  next
    case False
    with Cons have "\<exists>s\<in>set (snd (judge_requests env sc msgs qs w1)). P s" by simp
    with x y show ?thesis by auto
  qed
qed simp

text \<open>
  C12. A shell call whose command a critical pattern matches does not run unasked: where scanning is on, with the
  default threshold, and no command classifier speaks instead of the patterns, the pipeline the inspector is
  part of never approves it, whatever the conversation and its classifier.
\<close>

theorem critical_command_asked:
  assumes "security_inspector env w0 \<in> set is" and "\<And>w. is_prompt_injection_detection_enabled env w"
    and "r \<in> set reqs" and "tool_call r = Ok call" and "critical_call env call"
    and "single_precision (f32 env)" and "\<And>w. number_param env w (lit ''SECURITY_PROMPT_THRESHOLD'') = None"
    and "\<And>w. command_classifier (snd (get_scanner env w)) = None"
    and "probabilities env"
  shows "request_id r \<notin> ids (approved (apply_inspection_results_to_permissions p
    (snd (inspect_tools is w reqs msgs mode))))"
proof -
  let ?Q = "\<lambda>rs. overrides rs (request_id r)"
  have "\<exists>rs. snd (inspect (security_inspector env w0) v reqs msgs mode) = Ok rs \<and> ?Q rs" for v
  proof -
    obtain w1 sc where sc: "get_scanner env v = (w1, sc)" by force
    have "\<exists>s. snd (judge_request env sc msgs r u) = [s] \<and> finding_malicious s \<and> should_ask_user s
        \<and> security_request s = request_id r" for u
      using judge_request_critical [OF assms(4,5) _ assms(6,7,9)] assms(8) [of v] sc by simp
    then obtain s where "s \<in> set (snd (judge_requests env sc msgs reqs w1))" "finding_malicious s"
      "should_ask_user s" "security_request s = request_id r"
      using judge_requests_member [OF assms(3), of env sc msgs
          "\<lambda>s. finding_malicious s \<and> should_ask_user s \<and> security_request s = request_id r"] by blast
    then show ?thesis
      using sc assms(2) [of v]
      by (auto simp: security_inspector_def inspect_security_def analyze_tool_requests_def overrides_def
          list_ex_iff convert_security_result_def case_prod_beta intro!: bexI [of _ s])
  qed
  then obtain rs where "?Q rs" "set rs \<subseteq> set (snd (inspect_tools is w reqs msgs mode))"
    using inspect_tools_has [OF assms(1), of reqs msgs mode ?Q w] assms(2) [of w0]
    by (auto simp: security_inspector_def)
  then have "overrides (snd (inspect_tools is w reqs msgs mode)) (request_id r)"
    by (auto simp: overrides_def list_ex_iff)
  then show ?thesis by (auto simp: approved_applied ids_def)
qed

text \<open>An engine that matches the pattern of a deletion of the root, and a scanner by patterns alone.\<close>

definition root_deletion :: regex_engine where
  "root_deletion = \<lparr>rx_is_match = (\<lambda>p s. s = lit ''rm -rf /''),
     rx_find_iter = (\<lambda>p s. [\<lparr>m_start = 0, m_end = length s, m_groups = []\<rparr>])\<rparr>"

definition pattern_env :: "regex_engine \<Rightarrow> (unit, unit) scan_env" where
  "pattern_env rx = \<lparr>scan_regex = rx, pattern_compiles = (\<lambda>_. True), f32 = id, arguments_json = (\<lambda>_. None),
     show_percent = (\<lambda>_. []), env_var = (\<lambda>_ _. None),
     bool_param = (\<lambda>_ k. if k = lit ''SECURITY_PROMPT_ENABLED'' then Some True else None),
     string_param = (\<lambda>_ _. None), secret_param = (\<lambda>_ _. None), number_param = (\<lambda>_ _. None),
     from_model_name = (\<lambda>_. None), from_endpoint = (\<lambda>_ _. None), from_model_type = (\<lambda>_. None),
     classify = (\<lambda>_ _ w. (w, Err [])), new_finding = (\<lambda>w. (w, [])), scanner_cell = (\<lambda>_. None),
     set_scanner = (\<lambda>_ w. w)\<rparr>"

definition shell_request :: "string \<Rightarrow> tool_request" where
  "shell_request s = \<lparr>request_id = lit ''1'', tool_call = Ok \<lparr>tool_name = lit ''shell'',
     arguments = Some [(lit ''command'', JString (lit s))]\<rparr>, request_metadata = None, tool_meta = None\<rparr>"

lemma pattern_env_settings:
  "is_prompt_injection_detection_enabled (pattern_env rx) w" "snd (get_scanner (pattern_env rx) w) = new_scanner"
  by (simp_all add: is_prompt_injection_detection_enabled_def overridden_def get_override_def flag_def pattern_env_def
      get_scanner_def is_ml_scanning_enabled_def classifier_enabled_def)

theorem critical_command_asked_witness:
  "lit ''1'' \<notin> ids (approved (apply_inspection_results_to_permissions
     \<lparr>approved = [shell_request ''rm -rf /''], needs_approval = [], denied = []\<rparr>
     (snd (inspect_tools [security_inspector (pattern_env root_deletion) ()] () [shell_request ''rm -rf /''] [] Auto))))"
proof -
  have "critical_call (pattern_env root_deletion) \<lparr>tool_name = lit ''shell'',
      arguments = Some [(lit ''command'', JString (lit ''rm -rf /''))]\<rparr>"
    by (simp add: critical_call_def is_shell_tool_name_def extract_tool_content_def matches_of_def root_deletion_def
        pattern_env_def THREAT_PATTERNS_def)
  moreover have "probabilities (pattern_env root_deletion)" "single_precision (f32 (pattern_env root_deletion))"
    "number_param (pattern_env root_deletion) v k = None" for v k
    by (simp_all add: pattern_env_def probabilities_def single_precision_def)
  ultimately show ?thesis
    using critical_command_asked [of "pattern_env root_deletion" "()"
      "[security_inspector (pattern_env root_deletion) ()]" "shell_request ''rm -rf /''" "[shell_request ''rm -rf /'']"
      "\<lparr>tool_name = lit ''shell'', arguments = Some [(lit ''command'', JString (lit ''rm -rf /''))]\<rparr>"
      "\<lparr>approved = [shell_request ''rm -rf /''], needs_approval = [], denied = []\<rparr>" "()" "[]" Auto]
    by (simp add: pattern_env_settings new_scanner_def shell_request_def)
qed

section \<open>What is not asked about\<close>

text \<open>
  By patterns alone and with the default threshold nothing but critical commands is reported: those of a high
  risk, which \<open>has_critical_threats\<close> counts in, run without a question.
\<close>

lemma only_critical_reported:
  assumes "scanner = new_scanner" "tool_call r = Ok call" "\<not> critical_call env call"
    and "single_precision (f32 env)" and "\<And>w. number_param env w (lit ''SECURITY_PROMPT_THRESHOLD'') = None"
  shows "judge_request env scanner msgs r w = (w, [])"
proof (cases "is_shell_tool_name (tool_name call)")
  case True
  let ?ms = "scan_for_patterns (scan_regex env) (pattern_compiles env) (extract_tool_content env call)"
  note b = single_precision_bounds [OF assms(4)]
  have "get_max_risk_level ?ms \<noteq> Some Critical"
  proof
    assume "get_max_risk_level ?ms = Some Critical"
    then obtain m t where "m \<in> set (matches_of (scan_regex env) (pattern_compiles env) (extract_tool_content env call) t)"
      "t \<in> set THREAT_PATTERNS" "risk_level (match_threat m) = Critical"
      by (auto simp: get_max_risk_level_iff scan_for_patterns_set)
    then have "critical_call env call"
      using True by (auto simp: critical_call_def list_ex_iff matches_of_def intro!: bexI [of _ t] split: if_splits)
    with assms(3) show False by simp
  qed
  then have "scan_confidence (pattern_result env (extract_tool_content env call)) < f32 env (8 / 10)"
    using b [of "8 / 10"] b [of "75 / 100"] b [of "60 / 100"] b [of "45 / 100"]
    by (auto simp: pattern_result_def pattern_based_scanning_def confidence_score_def Let_def
        split: option.split risk_level.splits)
  then show ?thesis
    using True assms(1,2) assms(5) [of w]
    by (simp add: judge_request_def analyze_tool_call_with_context_def analyze_text_def scan_conversation_def
        new_scanner_def combine_confidences_def get_threshold_from_config_def Let_def)
qed (use assms(2) in \<open>simp add: judge_request_def analyze_tool_call_with_context_def\<close>)

text \<open>A conversation that is a little suspicious lowers the confidence more than a harmless one.\<close>

lemma suspicion_lowers_confidence:
  "combine_confidences id (95 / 100) (Some (3 / 10)) < combine_confidences id (95 / 100) (Some (29 / 100))"
  by (simp add: combine_confidences_def)

text \<open>Only a tool named \<open>shell\<close> is scanned, whatever runs commands under another name.\<close>

lemma other_shell_unscanned:
  "tool_call r = Ok call \<Longrightarrow> tool_name call = lit ''bash'' \<Longrightarrow> judge_request env sc msgs r w = (w, [])"
  by (simp add: judge_request_def analyze_tool_call_with_context_def is_shell_tool_name_def)

end
