(* ===== verification/AdversaryInspector.thy ===== *)
theory AdversaryInspector
  imports ToolInspection
begin

text \<open>
  \<open>crates/bharatcode-core/src/security/adversary_inspector.rs\<close>: the inspector that shows a call to a reviewing
  model with the rules of a file. The file, the provider, upper case, the JSON crate, the printing of errors and
  the clock are parameters.
\<close>

section \<open>Configuration\<close>

record adversary_config =
  reviewed_tools :: "str list"
  review_rules :: str

definition DEFAULT_TOOLS :: "str list" where
  "DEFAULT_TOOLS = [lit ''shell'', lit ''computercontroller__automation_script'']"

definition DEFAULT_RULES :: str where
  "DEFAULT_RULES = join_with [newline] (map lit [
     ''BLOCK if the command:'',
     ''- Exfiltrates data (curl/wget posting to unknown URLs, piping secrets out)'',
     ''- Is destructive beyond the project scope (rm -rf /, modifying system files)'',
     ''- Installs malware or runs obfuscated code'',
     ''- Attempts to escalate privileges unnecessarily'',
     ''- Downloads and executes untrusted remote scripts'',
     '''',
     ''ALLOW if the command is a normal development operation, even if it modifies files,'',
     ''installs packages, runs tests, uses git, etc. Most commands are fine.''])
     @ newline # lit ''Err on the side of ALLOW '' @ 8212 # lit '' only block truly dangerous things.''"

definition MAX_RECENT_USER_MESSAGES :: nat where "MAX_RECENT_USER_MESSAGES = 4"

definition default_config :: adversary_config where
  "default_config = \<lparr>reviewed_tools = DEFAULT_TOOLS, review_rules = DEFAULT_RULES\<rparr>"

text \<open>The tools of a line \<open>tools:\<close>; the last such line counts.\<close>

definition listed_tools :: "str \<Rightarrow> str list" where
  "listed_tools value = filter (\<lambda>t. t \<noteq> []) (map trim (split_on 44 value))"

definition frontmatter_tools :: "str \<Rightarrow> str list option" where
  "frontmatter_tools s = fold (\<lambda>l tools. case strip_prefix (trim l) (lit ''tools:'') of
     Some value \<Rightarrow> Some (listed_tools value) | None \<Rightarrow> tools) (str_lines s) None"

definition parse_adversary_md :: "str \<Rightarrow> adversary_config" where
  "parse_adversary_md text = (let t = trim text in
     if t = [] then default_config
     else case split_once t (newline # lit ''---'') of
       Some (frontmatter, rest) \<Rightarrow>
         \<lparr>reviewed_tools = (case frontmatter_tools frontmatter of Some ts \<Rightarrow> ts | None \<Rightarrow> DEFAULT_TOOLS),
          review_rules = (let r = trim rest in if r = [] then DEFAULT_RULES else r)\<rparr>
     | None \<Rightarrow> \<lparr>reviewed_tools = DEFAULT_TOOLS, review_rules = t\<rparr>)"

record 'w adversary_env =
  adversary_md :: "'w \<Rightarrow> (str, str) result option"
  config_cell :: "'w \<Rightarrow> adversary_config option option"
  set_config :: "adversary_config option \<Rightarrow> 'w \<Rightarrow> 'w"
  pretty_arguments :: "json_object \<Rightarrow> str option"
  show_call_error :: "error_data \<Rightarrow> str"
  uppercase :: "str \<Rightarrow> str"
  review_now :: "'w \<Rightarrow> int"
  has_provider :: "'w \<Rightarrow> bool"
  review :: "str \<Rightarrow> message list \<Rightarrow> 'w \<Rightarrow> 'w \<times> (str, message) result"

text \<open>The configuration is read once; without the file there is none.\<close>

definition get_config :: "'w adversary_env \<Rightarrow> 'w \<Rightarrow> 'w \<times> adversary_config option" where
  "get_config env w = (case config_cell env w of
     Some c \<Rightarrow> (w, c)
   | None \<Rightarrow> (let c = (case adversary_md env w of
          None \<Rightarrow> None
        | Some (Err _) \<Rightarrow> Some default_config
        | Some (Ok text) \<Rightarrow> Some (parse_adversary_md text))
       in (set_config env c w, c)))"

section \<open>The question\<close>

definition should_review :: "adversary_config \<Rightarrow> tool_request \<Rightarrow> bool" where
  "should_review c r = (case tool_call r of
     Ok call \<Rightarrow> tool_name call \<in> set (reviewed_tools c) | Err _ \<Rightarrow> False)"

definition format_tool_call :: "'w adversary_env \<Rightarrow> tool_request \<Rightarrow> str" where
  "format_tool_call env r = (case tool_call r of
     Ok call \<Rightarrow> (let s = lit ''Tool: '' @ tool_name call in
       case arguments call of
         None \<Rightarrow> s
       | Some args \<Rightarrow> (case Option.bind (map_of args (lit ''command'')) json_as_str of
           Some cmd \<Rightarrow> s @ [32, 8212] @ lit '' command: '' @ cmd
         | None \<Rightarrow> (case pretty_arguments env args of
             Some j \<Rightarrow> s @ newline # lit ''Arguments: '' @ j | None \<Rightarrow> s)))
   | Err e \<Rightarrow> lit ''(malformed tool call: '' @ show_call_error env e @ lit '')'')"

definition message_text :: "message \<Rightarrow> str" where
  "message_text m = join_with [newline] (List.map_filter as_text (content m))"

definition extract_recent_user_messages :: "message list \<Rightarrow> nat \<Rightarrow> str list" where
  "extract_recent_user_messages msgs n = rev (take n (filter (\<lambda>t. t \<noteq> [])
     (map message_text (filter (\<lambda>m. role m = User) (rev msgs)))))"

definition extract_original_task :: "message list \<Rightarrow> str" where
  "extract_original_task msgs = (case find (\<lambda>m. role m = User \<and> message_text m \<noteq> []) msgs of
     Some m \<Rightarrow> safe_truncate (message_text m) 500 | None \<Rightarrow> lit ''(unknown)'')"

fun numbered :: "nat \<Rightarrow> str list \<Rightarrow> str" where
  "numbered i [] = []"
| "numbered i (m # ms) = show_nat i @ lit ''. '' @ safe_truncate m 200 @ newline # numbered (i + 1) ms"

definition history_section :: "str list \<Rightarrow> str" where
  "history_section ms = (if ms = [] then []
     else lit ''Recent user messages (oldest first):'' @ newline # numbered 1 ms @ [newline])"

definition review_question :: "str \<Rightarrow> str \<Rightarrow> str list \<Rightarrow> str \<Rightarrow> str" where
  "review_question description task recent rules =
     lit ''The user'' @ [39] @ lit ''s original task: '' @ task @ [newline, newline] @ history_section recent
     @ lit ''The tool call to review:'' @ newline # lit ''```'' @ newline # description @ newline # lit ''```''
     @ [newline, newline] @ rules @ [newline, newline]
     @ lit ''Respond with a single word on the first line: ALLOW or BLOCK'' @ newline
     # lit ''Then on the next line, a brief reason.''"

definition REVIEW_PROMPT :: str where
  "REVIEW_PROMPT = lit ''You are an adversarial security reviewer, protecting the user in case the other agent is rogue. An AI coding agent is about to execute a tool call. Your ONLY job: decide if this tool call is safe given the user'' @ [39] @ lit ''s task and rules. Respond with ALLOW or BLOCK on the first line, then a brief reason on the next line.''"

section \<open>The answer\<close>

definition says_block :: "'w adversary_env \<Rightarrow> str \<Rightarrow> bool" where
  "says_block env output = (let u = uppercase env output in
     starts_with u (lit ''BLOCK'') \<or> contains_str u (newline # lit ''BLOCK''))"

definition review_reason :: "str \<Rightarrow> str" where
  "review_reason output = trim (join_with [32] (drop 1 (str_lines output)))"

definition read_verdict :: "'w adversary_env \<Rightarrow> str \<Rightarrow> bool \<times> str" where
  "read_verdict env output = (let t = trim output; why = review_reason t in
     if says_block env t then (False, if why = [] then lit ''Blocked by adversary'' else why) else (True, why))"

definition consult_llm ::
    "'w adversary_env \<Rightarrow> str \<Rightarrow> str \<Rightarrow> str list \<Rightarrow> str \<Rightarrow> 'w \<Rightarrow> 'w \<times> (str, bool \<times> str) result" where
  "consult_llm env description task recent rules w =
     (if \<not> has_provider env w then (w, Ok (True, lit ''No provider available''))
      else case review env REVIEW_PROMPT
          [message_new User (review_now env w) [mk_text (review_question description task recent rules)]] w of
        (w', Err e) \<Rightarrow> (w', Err (lit ''Adversary LLM call failed: '' @ e))
      | (w', Ok m) \<Rightarrow> (w', Ok (read_verdict env (message_text m))))"

definition adversary_result :: "tool_request \<Rightarrow> inspection_action \<Rightarrow> str \<Rightarrow> rat \<Rightarrow> inspection_result" where
  "adversary_result r a why c = \<lparr>tool_request_id = request_id r, action = a, reason = why, confidence = c,
     inspector_name = lit ''adversary'', finding_id = None\<rparr>"

definition verdict_result :: "tool_request \<Rightarrow> (str, bool \<times> str) result \<Rightarrow> inspection_result" where
  "verdict_result r v = (case v of
     Ok (True, why) \<Rightarrow> adversary_result r Allow (lit ''Adversary: '' @ why) 1
   | Ok (False, why) \<Rightarrow> adversary_result r Deny ([128737, 65039] @ lit '' Adversary blocked: '' @ why) 1
   | Err e \<Rightarrow> adversary_result r Allow (lit ''Adversary error (fail-open): '' @ e) 0)"

fun review_each ::
    "'w adversary_env \<Rightarrow> adversary_config \<Rightarrow> str \<Rightarrow> str list \<Rightarrow> tool_request list \<Rightarrow> 'w \<Rightarrow> 'w \<times> inspection_result list" where
  "review_each env c task recent [] w = (w, [])"
| "review_each env c task recent (r # rs) w =
     (if \<not> should_review c r then review_each env c task recent rs w
      else (let (w1, v) = consult_llm env (format_tool_call env r) task recent (review_rules c) w;
                (w2, xs) = review_each env c task recent rs w1
            in (w2, verdict_result r v # xs)))"

definition inspect_adversary ::
    "'w adversary_env \<Rightarrow> 'w \<Rightarrow> tool_request list \<Rightarrow> message list \<Rightarrow> 'w \<times> (str, inspection_result list) result" where
  "inspect_adversary env w reqs msgs = (case get_config env w of
     (w1, None) \<Rightarrow> (w1, Ok [])
   | (w1, Some c) \<Rightarrow> (case review_each env c (extract_original_task msgs)
          (extract_recent_user_messages msgs MAX_RECENT_USER_MESSAGES) reqs w1 of (w2, rs) \<Rightarrow> (w2, Ok rs)))"

definition adversary_inspector :: "'w adversary_env \<Rightarrow> 'w \<Rightarrow> 'w tool_inspector" where
  "adversary_inspector env w0 = \<lparr>inspector = lit ''adversary'', is_enabled = (snd (get_config env w0) \<noteq> None),
     inspect = (\<lambda>w reqs msgs mode. inspect_adversary env w reqs msgs)\<rparr>"

section \<open>What a review does\<close>

text \<open>One result for every call of a listed tool, in order, and none for another.\<close>

lemma review_each_ids:
  "map tool_request_id (snd (review_each env c task recent rs w)) = map request_id (filter (should_review c) rs)"
  by (induction rs arbitrary: w)
    (auto simp: verdict_result_def adversary_result_def case_prod_beta split: sum.splits bool.splits)

text \<open>
  A review only denies with an answer of the model that says so: without a provider or with a failed call
  nothing is denied, and no review asks the user.
\<close>

lemma review_each_denial:
  assumes "x \<in> set (snd (review_each env c task recent rs w))" and "action x \<noteq> Allow"
  shows "\<exists>r\<in>set rs. \<exists>v v' m. should_review c r \<and> tool_request_id x = request_id r \<and> action x = Deny
    \<and> has_provider env v \<and> (\<exists>q. review env REVIEW_PROMPT q v = (v', Ok m)) \<and> says_block env (trim (message_text m))"
  using assms(1)
proof (induction rs arbitrary: w)
  case (Cons r rs)
  obtain w1 v where v: "consult_llm env (format_tool_call env r) task recent (review_rules c) w = (w1, v)" by force
  show ?case
  proof (cases "should_review c r \<and> x = verdict_result r v")
    case True
    with assms(2) obtain why where "v = Ok (False, why)"
      by (auto simp: verdict_result_def adversary_result_def split: sum.splits bool.splits)
    with v have "has_provider env w \<and> (\<exists>q v' m. review env REVIEW_PROMPT q w = (v', Ok m)
        \<and> says_block env (trim (message_text m)))"
      by (auto simp: consult_llm_def read_verdict_def Let_def split: if_splits prod.splits sum.splits)
    with True \<open>v = Ok (False, why)\<close> show ?thesis
      by (auto simp: verdict_result_def adversary_result_def)
  next
    case False
    with Cons.prems v have "x \<in> set (snd (review_each env c task recent rs w1))
        \<or> x \<in> set (snd (review_each env c task recent rs w))"
      by (auto simp: case_prod_beta split: if_splits)
    with Cons.IH show ?thesis by (metis list.set_intros(2))
  qed
qed simp

text \<open>What the reviewer blocks is denied by the pipeline.\<close>

lemma blocked_call_denied:
  assumes "verdict_result r (Ok (False, why)) \<in> set rs"
    and "request_id r \<in> ids (approved p) \<union> ids (needs_approval p) \<union> ids (denied p)"
  shows "request_id r \<in> ids (denied (apply_inspection_results_to_permissions p rs))"
proof -
  have "denies rs (request_id r)"
    using assms(1) by (auto simp: denies_def list_ex_iff verdict_result_def adversary_result_def intro!: bexI)
  moreover from assms(1) have "rs \<noteq> []" by auto
  moreover have "request_map p (request_id r) \<noteq> None" using assms(2) request_map_known by blast
  ultimately show ?thesis
    using fold_apply_ids [where m = "request_map p" and p = p and rs = rs, OF request_map_id request_map_known]
    by (auto simp: apply_inspection_results_to_permissions_def)
qed

text \<open>An allowing answer whose reason begins a line with the word is read as a refusal.\<close>

lemma allowing_answer_blocks:
  "read_verdict (env\<lparr>uppercase := id\<rparr>) (lit ''ALLOW'' @ newline # lit ''BLOCK rules do not apply'')
     = (False, lit ''BLOCK rules do not apply'')"
  by (simp add: read_verdict_def says_block_def review_reason_def str_lines_def strip_cr_def trim_def trim_start_def
      trim_end_def is_ws_def starts_with_def Let_def)

text \<open>A list of tools that is empty turns the review off.\<close>

lemma empty_tools_review_nothing:
  "reviewed_tools (parse_adversary_md (lit ''tools:'' @ newline # lit ''---'' @ newline # lit ''BLOCK'')) = []"
  by (simp add: parse_adversary_md_def frontmatter_tools_def listed_tools_def str_lines_def strip_cr_def trim_def
      trim_start_def trim_end_def is_ws_def Let_def)

text \<open>Without a line of tools more than the shell is reviewed.\<close>

lemma default_tools_reviewed:
  "split_once (trim s) (newline # lit ''---'') = None \<Longrightarrow> reviewed_tools (parse_adversary_md s) = DEFAULT_TOOLS"
  by (simp add: parse_adversary_md_def default_config_def Let_def)

end
