(* ===== verification/ProviderRetry.thy ===== *)
theory ProviderRetry
  imports ToolRetry
begin

text \<open>
  The retry of provider calls (\<open>bharatcode-providers/src/retry.rs\<close>) with the errors it looks at
  (\<open>errors.rs\<close>). A provider is a record of operations over a state \<open>'w\<close>, which also holds the environment
  variables; the delay of an attempt is drawn at random and computed in floating point, so it is an
  operation too (\<open>delay_for\<close>). \<open>'m\<close> is the type of the multiplier. A run also records the errors it
  retried, the credentials it refreshed and the delays it slept.
\<close>

section \<open>Errors\<close>

datatype provider_error =
    Authentication str
  | ContextLengthExceeded str
  | RateLimitExceeded str "duration option"
  | ServerError str
  | NetworkError str
  | RequestFailed str
  | ExecutionError str
  | UsageError str
  | NotImplemented str
  | EndpointNotFound str
  | CreditsExhausted str "str option"
  | Refusal str "str option"

fun telemetry_type :: "provider_error \<Rightarrow> str" where
  "telemetry_type (Authentication _) = lit ''auth''"
| "telemetry_type (ContextLengthExceeded _) = lit ''context_length''"
| "telemetry_type (RateLimitExceeded _ _) = lit ''rate_limit''"
| "telemetry_type (ServerError _) = lit ''server''"
| "telemetry_type (NetworkError _) = lit ''network''"
| "telemetry_type (RequestFailed _) = lit ''request''"
| "telemetry_type (ExecutionError _) = lit ''execution''"
| "telemetry_type (UsageError _) = lit ''usage''"
| "telemetry_type (NotImplemented _) = lit ''not_implemented''"
| "telemetry_type (EndpointNotFound _) = lit ''endpoint_not_found''"
| "telemetry_type (CreditsExhausted _ _) = lit ''credits_exhausted''"
| "telemetry_type (Refusal _ _) = lit ''refusal''"

definition is_endpoint_not_found :: "provider_error \<Rightarrow> bool" where
  "is_endpoint_not_found e = (case e of EndpointNotFound _ \<Rightarrow> True | _ \<Rightarrow> False)"

definition is_authentication :: "provider_error \<Rightarrow> bool" where
  "is_authentication e = (case e of Authentication _ \<Rightarrow> True | _ \<Rightarrow> False)"

section \<open>Configuration\<close>

definition USIZE_MAX :: nat where "USIZE_MAX = U64_MAX"

record 'm retry_config =
  max_retries :: nat
  initial_interval_ms :: nat
  backoff_multiplier :: 'm
  max_interval_ms :: nat
  transient_only :: bool

definition default_retry_config :: "'m \<Rightarrow> 'm retry_config" where
  "default_retry_config m = \<lparr>max_retries = 3, initial_interval_ms = 1000, backoff_multiplier = m,
     max_interval_ms = 30000, transient_only = True\<rparr>"

definition new_retry_config :: "nat \<Rightarrow> nat \<Rightarrow> 'm \<Rightarrow> nat \<Rightarrow> 'm retry_config" where
  "new_retry_config n i m x = (default_retry_config m)\<lparr>max_retries := n, initial_interval_ms := i,
     backoff_multiplier := m, max_interval_ms := x\<rparr>"

definition retry_request_failed :: "'m retry_config \<Rightarrow> 'm retry_config" where
  "retry_request_failed c = c\<lparr>transient_only := False\<rparr>"

definition ENV_RETRY_MAX :: str where "ENV_RETRY_MAX = lit ''BHARATCODE_RETRY_MAX''"
definition ENV_RETRY_BASE_MS :: str where "ENV_RETRY_BASE_MS = lit ''BHARATCODE_RETRY_BASE_MS''"
definition ENV_RETRY_MAX_MS :: str where "ENV_RETRY_MAX_MS = lit ''BHARATCODE_RETRY_MAX_MS''"
definition SKIP_BACKOFF_ENV :: str where "SKIP_BACKOFF_ENV = lit ''BHARATCODE_PROVIDER_SKIP_BACKOFF''"

definition ENV_MAX_ATTEMPTS_CAP :: nat where "ENV_MAX_ATTEMPTS_CAP = 10"

definition parse_retry_env :: "(str \<Rightarrow> str option) \<Rightarrow> nat \<Rightarrow> str \<Rightarrow> nat option" where
  "parse_retry_env var limit key = Option.bind (var key) (\<lambda>s. parse_unsigned limit (trim s))"

definition with_env_overrides :: "(str \<Rightarrow> str option) \<Rightarrow> 'm retry_config \<Rightarrow> 'm retry_config" where
  "with_env_overrides var c =
     (let c1 = (case parse_retry_env var USIZE_MAX ENV_RETRY_MAX of
            Some n \<Rightarrow> c\<lparr>max_retries := clamp 1 ENV_MAX_ATTEMPTS_CAP n - 1\<rparr> | None \<Rightarrow> c);
          c2 = (case parse_retry_env var U64_MAX ENV_RETRY_BASE_MS of
            Some n \<Rightarrow> c1\<lparr>initial_interval_ms := max n 1\<rparr> | None \<Rightarrow> c1);
          c3 = (case parse_retry_env var U64_MAX ENV_RETRY_MAX_MS of
            Some n \<Rightarrow> c2\<lparr>max_interval_ms := n\<rparr> | None \<Rightarrow> c2)
      in c3\<lparr>max_interval_ms := max (max_interval_ms c3) (initial_interval_ms c3)\<rparr>)"

definition should_retry :: "provider_error \<Rightarrow> 'm retry_config \<Rightarrow> bool" where
  "should_retry e c = (case e of
     RateLimitExceeded _ _ \<Rightarrow> True
   | ServerError _ \<Rightarrow> True
   | NetworkError _ \<Rightarrow> True
   | RequestFailed _ \<Rightarrow> \<not> transient_only c
   | _ \<Rightarrow> False)"

section \<open>The loops\<close>

record ('w, 'm, 'a) provider_env =
  operation :: "'w \<Rightarrow> 'w \<times> (provider_error, 'a) result"
  refresh_credentials :: "'w \<Rightarrow> 'w \<times> (provider_error, unit) result"
  delay_for :: "'m retry_config \<Rightarrow> nat \<Rightarrow> 'w \<Rightarrow> duration"
  sleep_for :: "duration \<Rightarrow> 'w \<Rightarrow> 'w"
  variable :: "'w \<Rightarrow> str \<Rightarrow> str option"

record ('w, 'a) provider_run =
  answer :: "(provider_error, 'a) result"
  end_world :: 'w
  failures :: "provider_error list"
  refreshes :: "bool list"
  delays :: "duration list"

definition ends :: "'w \<Rightarrow> (provider_error, 'a) result \<Rightarrow> ('w, 'a) provider_run" where
  "ends w r = \<lparr>answer = r, end_world = w, failures = [], refreshes = [], delays = []\<rparr>"

definition retry_delay_of :: "('w, 'm, 'a) provider_env \<Rightarrow> 'm retry_config \<Rightarrow> provider_error \<Rightarrow> nat \<Rightarrow> 'w \<Rightarrow> duration" where
  "retry_delay_of env c e n w = (case e of RateLimitExceeded _ (Some d) \<Rightarrow> d | _ \<Rightarrow> delay_for env c n w)"

definition skip_backoff :: "('w, 'm, 'a) provider_env \<Rightarrow> 'w \<Rightarrow> bool" where
  "skip_backoff env w = (variable env w SKIP_BACKOFF_ENV = Some (lit ''true''))"

function retry_operation_from :: "('w, 'm, 'a) provider_env \<Rightarrow> 'm retry_config \<Rightarrow> nat \<Rightarrow> 'w \<Rightarrow> ('w, 'a) provider_run" where
  "retry_operation_from env c n w = (case operation env w of
     (w1, Ok v) \<Rightarrow> ends w1 (Ok v)
   | (w1, Err e) \<Rightarrow>
       if should_retry e c \<and> n < max_retries c
       then (let d = retry_delay_of env c e (n + 1) w1;
                 r = retry_operation_from env c (n + 1) (sleep_for env d w1)
             in r\<lparr>failures := e # failures r, delays := d # delays r\<rparr>)
       else ends w1 (Err e))"
  by pat_completeness auto
termination by (relation "measure (\<lambda>(env, c, n, w). max_retries c - n)") auto

declare retry_operation_from.simps [simp del]

definition retry_operation :: "('w, 'm, 'a) provider_env \<Rightarrow> 'm retry_config \<Rightarrow> 'w \<Rightarrow> ('w, 'a) provider_run" where
  "retry_operation env c w = retry_operation_from env c 0 w"

text \<open>One more attempt after the delay, unless the backoff is skipped.\<close>

definition back_off :: "('w, 'm, 'a) provider_env \<Rightarrow> duration \<Rightarrow> 'w \<Rightarrow> 'w \<times> duration list" where
  "back_off env d w = (if skip_backoff env w then (w, []) else (sleep_for env d w, [d]))"

text \<open>
  Credentials are refreshed once. When that fails the error is returned: an authentication error is none that
  \<open>should_retry\<close> lets the code behind the refresh retry.
\<close>

function with_retry_from :: "('w, 'm, 'a) provider_env \<Rightarrow> 'm retry_config \<Rightarrow> bool \<Rightarrow> nat \<Rightarrow> 'w \<Rightarrow> ('w, 'a) provider_run" where
  "with_retry_from env c auth_retried n w = (case operation env w of
     (w1, Ok v) \<Rightarrow> ends w1 (Ok v)
   | (w1, Err e) \<Rightarrow>
       if is_authentication e \<and> \<not> auth_retried
       then (case refresh_credentials env w1 of
           (w2, Ok _) \<Rightarrow> (let r = with_retry_from env c True n w2
              in r\<lparr>failures := e # failures r, refreshes := True # refreshes r\<rparr>)
         | (w2, Err _) \<Rightarrow> (ends w2 (Err e))\<lparr>refreshes := [False]\<rparr>)
       else if should_retry e c \<and> n < max_retries c
       then (let d = retry_delay_of env c e (n + 1) w1; (w2, ds) = back_off env d w1;
                 r = with_retry_from env c auth_retried (n + 1) w2
             in r\<lparr>failures := e # failures r, delays := ds @ delays r\<rparr>)
       else ends w1 (Err e))"
  by pat_completeness auto
termination
  by (relation "measure (\<lambda>(env, c, a, n, w). (max_retries c - n) + (if a then 0 else 1))") auto

declare with_retry_from.simps [simp del]

definition with_retry_config :: "('w, 'm, 'a) provider_env \<Rightarrow> 'm retry_config \<Rightarrow> 'w \<Rightarrow> ('w, 'a) provider_run" where
  "with_retry_config env c w = with_retry_from env c False 0 w"

definition with_retry :: "('w, 'm, 'a) provider_env \<Rightarrow> 'm retry_config \<Rightarrow> 'w \<Rightarrow> ('w, 'a) provider_run" where
  "with_retry env c w = with_retry_config env (with_env_overrides (variable env w) c) w"

section \<open>Laws\<close>

lemma authentication_not_retried: "is_authentication e \<Longrightarrow> \<not> should_retry e c"
  by (cases e) (simp_all add: is_authentication_def should_retry_def)

lemma env_overrides_bound:
  "parse_retry_env var USIZE_MAX ENV_RETRY_MAX = Some n \<Longrightarrow> max_retries (with_env_overrides var c) = clamp 1 10 n - 1"
  by (auto simp: with_env_overrides_def ENV_MAX_ATTEMPTS_CAP_def Let_def split: option.splits)

lemma env_overrides_intervals:
  "initial_interval_ms (with_env_overrides var c) \<le> max_interval_ms (with_env_overrides var c)"
  by (simp add: with_env_overrides_def Let_def)

text \<open>What a run looks like after \<open>n\<close> retries; \<open>auth\<close>: the credentials have been refreshed before.\<close>

definition within :: "'m retry_config \<Rightarrow> bool \<Rightarrow> nat \<Rightarrow> ('w, 'a) provider_run \<Rightarrow> bool" where
  "within c auth n r = (let retried = filter (\<lambda>e. \<not> is_authentication e) (failures r);
       refreshed = filter is_authentication (failures r) in
     list_all (\<lambda>e. should_retry e c) retried \<and> length retried \<le> max_retries c - n
     \<and> length (delays r) \<le> length retried
     \<and> refreshes r \<in> (if auth then {[]} else {[], [True], [False]})
     \<and> length refreshed = length (filter id (refreshes r))
     \<and> (case answer r of Ok _ \<Rightarrow> False \<notin> set (refreshes r)
        | Err e \<Rightarrow> (should_retry e c \<longrightarrow> length retried = max_retries c - n)
            \<and> (is_authentication e \<longrightarrow> auth \<or> refreshes r \<noteq> [])
            \<and> (False \<in> set (refreshes r) \<longrightarrow> is_authentication e)))"

lemma within_ends:
  "(case v of Ok _ \<Rightarrow> True | Err e \<Rightarrow> \<not> (should_retry e c \<and> n < max_retries c) \<and> (is_authentication e \<longrightarrow> auth))
   \<Longrightarrow> within c auth n (ends w v)"
  by (auto simp: within_def ends_def Let_def split: sum.splits)

lemma with_retry_from_within: "within c auth n (with_retry_from env c auth n w)"
proof (induction env c auth n w rule: with_retry_from.induct)
  case (1 env c auth n w)
  obtain w1 res where o: "operation env w = (w1, res)" by force
  note step = with_retry_from.simps [of env c auth n w]
  show ?case
  proof (cases res)
    case (Inr v)
    with o show ?thesis by (simp add: step within_ends)
  next
    case (Inl e)
    consider (auth) "is_authentication e" "\<not> auth"
      | (retry) "\<not> (is_authentication e \<and> \<not> auth)" "should_retry e c \<and> n < max_retries c"
      | (stop) "\<not> (is_authentication e \<and> \<not> auth)" "\<not> (should_retry e c \<and> n < max_retries c)" by blast
    then show ?thesis
    proof cases
      case auth
      obtain w2 f where rf: "refresh_credentials env w1 = (w2, f)" by force
      show ?thesis
      proof (cases f)
        case (Inl x)
        then have "with_retry_from env c auth n w = (ends w2 (Err e))\<lparr>refreshes := [False]\<rparr>"
          using o \<open>res = Err e\<close> auth rf by (subst step) simp
        with auth show ?thesis by (simp add: within_def ends_def authentication_not_retried)
      next
        case (Inr u)
        have "within c True n (with_retry_from env c True n w2)"
          using "1.IH"(1) [OF o [symmetric] \<open>res = Err e\<close> _ rf [symmetric] Inr] auth by simp
        moreover have "with_retry_from env c auth n w = (let r = with_retry_from env c True n w2
            in r\<lparr>failures := e # failures r, refreshes := True # refreshes r\<rparr>)"
          using o \<open>res = Err e\<close> auth rf Inr by (subst step) simp
        ultimately show ?thesis
          using auth by (auto simp: within_def Let_def split: sum.splits)
      qed
    next
      case retry
      obtain w2 ds where b: "back_off env (retry_delay_of env c e (n + 1) w1) w1 = (w2, ds)" by force
      then have "length ds \<le> 1" by (auto simp: back_off_def split: if_splits)
      moreover have "within c auth (n + 1) (with_retry_from env c auth (n + 1) w2)"
        using "1.IH"(2) [OF o [symmetric] Inl retry _ b [symmetric]] by simp
      moreover have ne: "\<not> is_authentication e" using retry authentication_not_retried by blast
      moreover have "with_retry_from env c auth n w = (let r = with_retry_from env c auth (n + 1) w2
          in r\<lparr>failures := e # failures r, delays := ds @ delays r\<rparr>)"
        using o Inl retry b ne by (subst step) simp
      ultimately show ?thesis
        using retry by (auto simp: within_def Let_def split: sum.splits)
    next
      case stop
      with o Inl show ?thesis by (auto simp: step intro!: within_ends)
    qed
  qed
qed

text \<open>
  C34. A call of a provider always ends. It retries only failures that are worth it, at most as often as
  configured, and at most nine times where the environment sets the number of attempts; it refreshes the
  credentials at most once, for an authentication error, whatever the number of retries left; and an error it
  returns is not worth a retry or no retry is left, and no authentication error before a refresh.
\<close>
theorem with_retry_contract:
  "within (with_env_overrides (variable env w) c) False 0 (with_retry env c w)
   \<and> (case parse_retry_env (variable env w) USIZE_MAX ENV_RETRY_MAX of
        Some n \<Rightarrow> length (failures (with_retry env c w)) \<le> 10
      | None \<Rightarrow> length (failures (with_retry env c w)) \<le> max_retries c + 1)"
proof -
  let ?c = "with_env_overrides (variable env w) c"
  have w: "within ?c False 0 (with_retry env c w)"
    by (simp add: with_retry_def with_retry_config_def with_retry_from_within)
  have "length (failures (with_retry env c w)) = length (filter (\<lambda>e. \<not> is_authentication e) (failures (with_retry env c w)))
      + length (filter is_authentication (failures (with_retry env c w)))"
    by (simp add: add.commute sum_length_filter_compl)
  moreover have "length (filter is_authentication (failures (with_retry env c w))) \<le> 1"
    using w by (auto simp: within_def Let_def)
  moreover have "length (filter (\<lambda>e. \<not> is_authentication e) (failures (with_retry env c w))) \<le> max_retries ?c"
    using w by (simp add: within_def Let_def)
  ultimately have "length (failures (with_retry env c w)) \<le> max_retries ?c + 1" by linarith
  moreover have "max_retries ?c = max_retries c" if "parse_retry_env (variable env w) USIZE_MAX ENV_RETRY_MAX = None"
    using that by (simp add: with_env_overrides_def Let_def split: option.splits)
  moreover have "max_retries ?c \<le> 9" if "parse_retry_env (variable env w) USIZE_MAX ENV_RETRY_MAX = Some n" for n
    using env_overrides_bound [OF that, of c] by (auto simp: clamp_def)
  ultimately show ?thesis using w by (fastforce split: option.splits)
qed

text \<open>The other loop is the same one without credentials to refresh, where no backoff is skipped.\<close>

lemma retry_operation_equivalent:
  "(\<And>w. \<not> skip_backoff env w) \<Longrightarrow> retry_operation_from env c n w = with_retry_from env c True n w"
proof (induction env c n w rule: retry_operation_from.induct)
  case (1 env c n w)
  then show ?case
    by (auto simp: retry_operation_from.simps [of env c n w] with_retry_from.simps [of env c True n w] back_off_def Let_def
        split: prod.splits sum.splits)
qed

text \<open>The delay a provider asks for is slept whatever its length: the configured ceiling does not apply to it.\<close>

lemma provider_delay_uncapped:
  "retry_delay_of env c (RateLimitExceeded m (Some d)) n w = d"
  by (simp add: retry_delay_of_def)

end
