(* ===== verification/TokenUsage.thy ===== *)
theory TokenUsage
  imports Prelude "HOL-Library.Word"
begin

text \<open>
  The token counts of provider calls (\<open>bharatcode-providers/src/conversation/token_usage.rs\<close>). A count is
  an \<open>i32\<close>, a word of 32 bits read as signed. The sum of two counts is the sum of the words: this is
  what the code computes where overflow is not checked, and what it panics on where it is.
\<close>

type_synonym i32 = "32 word"

definition I32_MAX :: int where "I32_MAX = 2147483647"
definition I32_MIN :: int where "I32_MIN = -2147483648"

definition saturating_add :: "i32 \<Rightarrow> i32 \<Rightarrow> i32" where
  "saturating_add a b = word_of_int (max I32_MIN (min I32_MAX (sint a + sint b)))"

record usage =
  input_tokens :: "i32 option"
  output_tokens :: "i32 option"
  total_tokens :: "i32 option"
  cache_read_input_tokens :: "i32 option"
  cache_write_input_tokens :: "i32 option"

definition sum_optionals :: "i32 option \<Rightarrow> i32 option \<Rightarrow> i32 option" where
  "sum_optionals a b = (case (a, b) of
     (Some x, Some y) \<Rightarrow> Some (x + y)
   | (Some x, None) \<Rightarrow> Some x
   | (None, Some y) \<Rightarrow> Some y
   | (None, None) \<Rightarrow> None)"

definition new_usage :: "i32 option \<Rightarrow> i32 option \<Rightarrow> i32 option \<Rightarrow> usage" where
  "new_usage input output total_count =
     (let calculated = (if total_count = None
        then (case (input, output) of
            (Some i, Some u) \<Rightarrow> Some (saturating_add i u)
          | (Some i, None) \<Rightarrow> Some i
          | (None, Some u) \<Rightarrow> Some u
          | (None, None) \<Rightarrow> None)
        else total_count)
      in \<lparr>input_tokens = input, output_tokens = output, total_tokens = calculated,
          cache_read_input_tokens = None, cache_write_input_tokens = None\<rparr>)"

definition with_cache_tokens :: "i32 option \<Rightarrow> i32 option \<Rightarrow> usage \<Rightarrow> usage" where
  "with_cache_tokens r w u = u\<lparr>cache_read_input_tokens := r, cache_write_input_tokens := w\<rparr>"

definition from_cache_exclusive_input ::
    "i32 option \<Rightarrow> i32 option \<Rightarrow> i32 option \<Rightarrow> i32 option \<Rightarrow> i32 option \<Rightarrow> usage" where
  "from_cache_exclusive_input input output total_count r w =
     (let cache_tokens = saturating_add (case r of Some n \<Rightarrow> n | None \<Rightarrow> 0) (case w of Some n \<Rightarrow> n | None \<Rightarrow> 0)
      in with_cache_tokens r w (new_usage (map_option (\<lambda>v. saturating_add v cache_tokens) input) output
           (map_option (\<lambda>v. saturating_add v cache_tokens) total_count)))"

definition add_usage :: "usage \<Rightarrow> usage \<Rightarrow> usage" where
  "add_usage a b = with_cache_tokens
     (sum_optionals (cache_read_input_tokens a) (cache_read_input_tokens b))
     (sum_optionals (cache_write_input_tokens a) (cache_write_input_tokens b))
     (new_usage (sum_optionals (input_tokens a) (input_tokens b)) (sum_optionals (output_tokens a) (output_tokens b))
       (sum_optionals (total_tokens a) (total_tokens b)))"

definition default_usage :: usage where
  "default_usage = \<lparr>input_tokens = None, output_tokens = None, total_tokens = None,
     cache_read_input_tokens = None, cache_write_input_tokens = None\<rparr>"

text \<open>\<open>'s\<close>: the statistics of a call, which are only passed on.\<close>

record 's provider_usage =
  model :: str
  usage_of :: usage
  stats :: "'s option"

definition new_provider_usage :: "str \<Rightarrow> usage \<Rightarrow> 's provider_usage" where
  "new_provider_usage m u = \<lparr>model = m, usage_of = u, stats = None\<rparr>"

definition with_stats :: "'s \<Rightarrow> 's provider_usage \<Rightarrow> 's provider_usage" where
  "with_stats s p = p\<lparr>stats := Some s\<rparr>"

definition combine_with :: "'s provider_usage \<Rightarrow> 's provider_usage \<Rightarrow> 's provider_usage" where
  "combine_with p q = \<lparr>model = model p, usage_of = add_usage (usage_of p) (usage_of q),
     stats = (case stats p of Some s \<Rightarrow> Some s | None \<Rightarrow> stats q)\<rparr>"

section \<open>Saturating addition\<close>

lemma sint_i32: "I32_MIN \<le> sint (a :: i32) \<and> sint a \<le> I32_MAX"
  using sint_greater_eq [of a] sint_less [of a] by (simp add: I32_MIN_def I32_MAX_def)

lemma sint_in_range: "I32_MIN \<le> n \<Longrightarrow> n \<le> I32_MAX \<Longrightarrow> sint (word_of_int n :: i32) = n"
  by (simp add: I32_MIN_def I32_MAX_def signed_take_bit_int_eq_self sint_sbintrunc')

lemma sint_saturating_add: "sint (saturating_add a b) = max I32_MIN (min I32_MAX (sint a + sint b))"
  unfolding saturating_add_def by (rule sint_in_range) (simp_all add: I32_MIN_def I32_MAX_def)

lemma saturating_add_exact:
  "I32_MIN \<le> sint a + sint b \<Longrightarrow> sint a + sint b \<le> I32_MAX \<Longrightarrow> saturating_add a b = a + b"
  by (simp add: saturating_add_def)

section \<open>Sums\<close>

text \<open>A total is known wherever a part is: what the constructors give.\<close>

definition usage_wf :: "usage \<Rightarrow> bool" where
  "usage_wf u = (total_tokens u = None \<longrightarrow> input_tokens u = None \<and> output_tokens u = None)"

lemmas usage_defs = new_usage_def with_cache_tokens_def add_usage_def sum_optionals_def default_usage_def Let_def

lemma new_usage_wf: "usage_wf (with_cache_tokens r w (new_usage i u t))"
  by (simp add: usage_wf_def usage_defs split: option.splits)

lemma add_usage_wf: "usage_wf (add_usage a b)"
  by (simp add: add_usage_def new_usage_wf)

lemma sum_optionals_assoc: "sum_optionals (sum_optionals a b) c = sum_optionals a (sum_optionals b c)"
  by (simp add: sum_optionals_def split: option.splits)

lemma sum_optionals_comm: "sum_optionals a b = sum_optionals b a"
  by (simp add: sum_optionals_def add.commute split: option.splits)

lemma sum_optionals_None: "sum_optionals a b = None \<longleftrightarrow> a = None \<and> b = None"
  by (simp add: sum_optionals_def split: option.splits)

text \<open>The sum of usages with known totals is the sum of the counts, field by field.\<close>

lemma add_usage_parts:
  "input_tokens (add_usage a b) = sum_optionals (input_tokens a) (input_tokens b)"
  "output_tokens (add_usage a b) = sum_optionals (output_tokens a) (output_tokens b)"
  "cache_read_input_tokens (add_usage a b) = sum_optionals (cache_read_input_tokens a) (cache_read_input_tokens b)"
  "cache_write_input_tokens (add_usage a b) = sum_optionals (cache_write_input_tokens a) (cache_write_input_tokens b)"
  by (simp_all add: add_usage_def with_cache_tokens_def new_usage_def Let_def)

lemma add_usage_total:
  "usage_wf a \<Longrightarrow> usage_wf b \<Longrightarrow> total_tokens (add_usage a b) = sum_optionals (total_tokens a) (total_tokens b)"
  by (auto simp: add_usage_def with_cache_tokens_def new_usage_def usage_wf_def sum_optionals_None Let_def
      sum_optionals_def split: option.splits)

lemma usage_eqI:
  "input_tokens a = input_tokens b \<Longrightarrow> output_tokens a = output_tokens b \<Longrightarrow> total_tokens a = total_tokens b
   \<Longrightarrow> cache_read_input_tokens a = cache_read_input_tokens b
   \<Longrightarrow> cache_write_input_tokens a = cache_write_input_tokens b \<Longrightarrow> a = (b :: usage)"
  by (cases a; cases b) simp

lemma sum_optionals_zero: "sum_optionals None a = a" "sum_optionals a None = a"
  by (simp_all add: sum_optionals_def split: option.splits)

text \<open>
  C35. Usages made by the constructors can be accumulated in any order and grouping, and stay such usages: the
  sums form a commutative monoid whose unit is the default.
\<close>
theorem usage_accumulates:
  assumes "usage_wf a" and "usage_wf b" and "usage_wf c"
  shows "add_usage (add_usage a b) c = add_usage a (add_usage b c) \<and> add_usage a b = add_usage b a
     \<and> add_usage default_usage a = a \<and> usage_wf (add_usage a b)"
proof -
  have d: "usage_wf default_usage" by (simp add: usage_wf_def default_usage_def)
  note laws = add_usage_parts add_usage_total add_usage_wf sum_optionals_assoc sum_optionals_zero
  have "add_usage (add_usage a b) c = add_usage a (add_usage b c)"
    using assms by (intro usage_eqI) (simp_all add: laws)
  moreover have "add_usage a b = add_usage b a"
    using assms by (intro usage_eqI) (simp_all add: laws sum_optionals_comm)
  moreover have "add_usage default_usage a = a"
    using assms d by (intro usage_eqI) (simp_all add: laws, simp_all add: default_usage_def sum_optionals_zero)
  ultimately show ?thesis by (simp add: add_usage_wf)
qed

theorem usage_accumulates_witness:
  "usage_wf (new_usage (Some 1) (Some 2) None) \<and> usage_wf default_usage \<and>
   add_usage (new_usage (Some 1) (Some 2) None) default_usage = add_usage default_usage (new_usage (Some 1) (Some 2) None)"
proof -
  have w: "usage_wf (new_usage (Some 1) (Some 2) None)" "usage_wf default_usage"
    by (simp_all add: usage_wf_def usage_defs)
  with usage_accumulates [OF w w(2)] show ?thesis by simp
qed

text \<open>Where the total of a usage that was read from outside is missing, the parts of it are lost in the sum.\<close>

lemma missing_total_lost:
  "total_tokens (add_usage (default_usage\<lparr>input_tokens := Some 5\<rparr>) (new_usage (Some 1) None None)) = Some 1"
  by (simp add: usage_defs)

text \<open>The sum wraps around, although the constructors saturate.\<close>

lemma sum_wraps:
  "total_tokens (add_usage (new_usage (Some (word_of_int I32_MAX)) None None) (new_usage (Some 1) None None))
     = Some (word_of_int I32_MIN)"
  by (simp add: usage_defs I32_MAX_def I32_MIN_def)

section \<open>Cache tokens\<close>

text \<open>
  Where a provider reports the cached tokens apart from its input, they are counted once: counts that are not
  negative stay so, the input holds the part read from and written to the cache, as long as it is not at the
  limit of its width, and the total holds the input and the output.
\<close>
lemma cache_tokens_folded:
  assumes "0 \<le> sint i" and "0 \<le> sint u" and "0 \<le> sint r" and "0 \<le> sint w"
  shows "\<exists>i' t'. input_tokens (from_cache_exclusive_input (Some i) (Some u) None (Some r) (Some w)) = Some i'
     \<and> total_tokens (from_cache_exclusive_input (Some i) (Some u) None (Some r) (Some w)) = Some t'
     \<and> sint i' = min I32_MAX (sint i + sint r + sint w)
     \<and> sint t' = min I32_MAX (sint i + sint r + sint w + sint u)"
  using assms sint_i32 [of i] sint_i32 [of u] sint_i32 [of r] sint_i32 [of w]
  by (simp add: from_cache_exclusive_input_def usage_defs sint_saturating_add) (auto simp: I32_MIN_def I32_MAX_def)

lemma cache_tokens_folded_witness:
  "\<exists>i' t'. input_tokens (from_cache_exclusive_input (Some 5) (Some 1) None (Some 2) (Some 3)) = Some i'
     \<and> total_tokens (from_cache_exclusive_input (Some 5) (Some 1) None (Some 2) (Some 3)) = Some t'
     \<and> sint i' = 10 \<and> sint t' = 11"
proof -
  have "0 \<le> sint (5 :: i32)" "0 \<le> sint (1 :: i32)" "0 \<le> sint (2 :: i32)" "0 \<le> sint (3 :: i32)" by simp_all
  from cache_tokens_folded [OF this] show ?thesis by (simp add: I32_MAX_def)
qed

end
