(* ===== verification/StreamGuard.thy ===== *)
theory StreamGuard
  imports ProviderRetry TokenUsage Message RegexEngine
begin

text \<open>
  How long the agent waits for a provider: the guard of \<open>crates/bharatcode-core/src/providers/deadline.rs\<close> that
  races every wait against the cancellation of the turn and a budget of silence, and the chain of fallback models
  of \<open>providers/fallback.rs\<close> and \<open>stream_with_fallback\<close> in \<open>agents/reply_parts.rs\<close>.
  Time is counted in milliseconds.
\<close>

section \<open>Aborts\<close>

definition CANCELLED_MARKER :: str where "CANCELLED_MARKER = lit ''bharatcode.abort.cancelled''"
definition DEADLINE_MARKER :: str where "DEADLINE_MARKER = lit ''bharatcode.abort.deadline''"

definition marked_with :: "provider_error \<Rightarrow> str \<Rightarrow> bool" where
  "marked_with e marker = (case e of RequestFailed msg \<Rightarrow> starts_with msg marker | _ \<Rightarrow> False)"

definition is_cancelled_error :: "provider_error \<Rightarrow> bool" where
  "is_cancelled_error e = marked_with e CANCELLED_MARKER"

definition is_deadline :: "provider_error \<Rightarrow> bool" where
  "is_deadline e = marked_with e DEADLINE_MARKER"

definition is_abort :: "provider_error \<Rightarrow> bool" where
  "is_abort e = (is_cancelled_error e \<or> is_deadline e)"

definition cancelled_error :: provider_error where
  "cancelled_error = RequestFailed (CANCELLED_MARKER @ lit '': request cancelled'')"

definition deadline_error :: "nat \<Rightarrow> provider_error" where
  "deadline_error secs = RequestFailed (DEADLINE_MARKER @ lit '': provider made no progress for '' @ show_nat secs
     @ lit ''s (adjust or disable with BHARATCODE_PROVIDER_DEADLINE_SECS)'')"

section \<open>The budget\<close>

definition DEFAULT_PROVIDER_TIMEOUT_SECS :: nat where "DEFAULT_PROVIDER_TIMEOUT_SECS = 600"
definition MAX_DEADLINE_SECS :: nat where "MAX_DEADLINE_SECS = 24 * 60 * 60"

definition parse_deadline :: "str \<Rightarrow> nat option" where
  "parse_deadline txt = (case parse_unsigned U64_MAX (trim txt) of
     None \<Rightarrow> Some DEFAULT_PROVIDER_TIMEOUT_SECS
   | Some secs \<Rightarrow> if secs = 0 then None else Some (min secs MAX_DEADLINE_SECS))"

definition request_deadline :: "str option \<Rightarrow> nat option" where
  "request_deadline var = (case var of Some txt \<Rightarrow> parse_deadline txt | None \<Rightarrow> Some DEFAULT_PROVIDER_TIMEOUT_SECS)"

section \<open>Races\<close>

text \<open>
  The token of a turn, when there is one, is cancelled at some time or never. A future is the time it takes
  from now on and what it gives, or nothing when it never completes. A race is won, aborted, or goes on forever.
\<close>

record stream_guard =
  deadline :: "nat option"
  cancel :: "nat option option"

type_synonym 'a future = "(nat \<times> 'a) option"

datatype 'a raced = Won 'a nat | Aborted provider_error nat | Parked

definition cancelled_from :: "stream_guard \<Rightarrow> nat \<Rightarrow> nat option" where
  "cancelled_from g now = map_option (max now) (Option.bind (cancel g) id)"

text \<open>The first of these to be ready, and of those ready together the one named first: token, future, sleep.\<close>

definition no_later :: "nat \<Rightarrow> nat option \<Rightarrow> bool" where
  "no_later a b = (case b of Some t \<Rightarrow> a \<le> t | None \<Rightarrow> True)"

definition select :: "nat option \<Rightarrow> nat \<Rightarrow> 'a future \<Rightarrow> nat option \<Rightarrow> 'a raced" where
  "select token now fut budget =
     (let out = map_option (\<lambda>(d, _). now + d) fut; sleep = map_option (\<lambda>b. now + 1000 * b) budget in
      case (token, fut, budget) of
        (Some c, _, _) \<Rightarrow>
          if no_later c out \<and> no_later c sleep then Aborted cancelled_error c
          else (case (fut, budget) of
              (Some (d, x), _) \<Rightarrow> if no_later (now + d) sleep then Won x (now + d)
                else Aborted (deadline_error (the budget)) (the sleep)
            | (None, Some b) \<Rightarrow> Aborted (deadline_error b) (the sleep)
            | (None, None) \<Rightarrow> Parked)
      | (None, Some (d, x), _) \<Rightarrow> if no_later (now + d) sleep then Won x (now + d)
          else Aborted (deadline_error (the budget)) (the sleep)
      | (None, None, Some b) \<Rightarrow> Aborted (deadline_error b) (now + 1000 * b)
      | (None, None, None) \<Rightarrow> Parked)"

definition race :: "stream_guard \<Rightarrow> nat \<Rightarrow> 'a future \<Rightarrow> 'a raced" where
  "race g now fut = select (cancelled_from g now) now fut (deadline g)"

definition race_cancellation :: "stream_guard \<Rightarrow> nat \<Rightarrow> 'a future \<Rightarrow> 'a raced" where
  "race_cancellation g now fut = select (cancelled_from g now) now fut None"

definition check :: "stream_guard \<Rightarrow> nat \<Rightarrow> (provider_error, unit) result" where
  "check g now = (case cancel g of
     Some (Some c) \<Rightarrow> if c \<le> now then Err cancelled_error else Ok ()
   | _ \<Rightarrow> Ok ())"

text \<open>A request under the guard: its own result, or the abort, and when; nothing when it never ends.\<close>

definition guarded :: "stream_guard \<Rightarrow> nat \<Rightarrow> (provider_error, 'a) result future \<Rightarrow> ((provider_error, 'a) result \<times> nat) option" where
  "guarded g now fut = (case race g now fut of
     Won r t \<Rightarrow> Some (r, t) | Aborted e t \<Rightarrow> Some (Err e, t) | Parked \<Rightarrow> None)"

section \<open>Guarded streams\<close>

type_synonym 's stream_item = "(provider_error, message option \<times> 's provider_usage option) result"

fun is_action :: "message_content \<Rightarrow> bool" where
  "is_action (ActionRequired _) = True"
| "is_action _ = False"

definition item_requests_user_action :: "'s stream_item \<Rightarrow> bool" where
  "item_requests_user_action i = (case i of Ok (Some m, _) \<Rightarrow> list_ex is_action (content m) | _ \<Rightarrow> False)"

text \<open>
  A stream is its items, each with the time the provider takes for it, and the time until its end, or nothing
  when it falls silent. The reader asks for the next item as soon as it has one. What comes out are items with
  their times, and when the stream is over, if ever.
\<close>

definition next_item :: "stream_guard \<Rightarrow> bool \<Rightarrow> nat \<Rightarrow> 'a future \<Rightarrow> 'a raced" where
  "next_item g waiting now fut = (if waiting then race_cancellation g now fut else race g now fut)"

fun guard_items ::
    "stream_guard \<Rightarrow> bool \<Rightarrow> nat \<Rightarrow> (nat \<times> 's stream_item) list \<Rightarrow> nat option \<Rightarrow> (nat \<times> 's stream_item) list \<times> nat option" where
  "guard_items g waiting now [] close = (case next_item g waiting now (map_option (\<lambda>d. (d, ())) close) of
     Won _ t \<Rightarrow> ([], Some t) | Aborted e t \<Rightarrow> ([(t, Err e)], Some t) | Parked \<Rightarrow> ([], None))"
| "guard_items g waiting now ((d, i) # is) close = (case next_item g waiting now (Some (d, i)) of
     Won x t \<Rightarrow> (case guard_items g (item_requests_user_action x) t is close of (out, e) \<Rightarrow> ((t, x) # out, e))
   | Aborted e t \<Rightarrow> ([(t, Err e)], Some t)
   | Parked \<Rightarrow> ([], None))"

definition guard_stream ::
    "stream_guard \<Rightarrow> nat \<Rightarrow> (nat \<times> 's stream_item) list \<Rightarrow> nat option \<Rightarrow> (nat \<times> 's stream_item) list \<times> nat option" where
  "guard_stream g now items close = guard_items g False now items close"

section \<open>Fallback models\<close>

record fallback_target =
  target_provider :: "str option"
  target_model :: str

definition parse_entry :: "str \<Rightarrow> fallback_target option" where
  "parse_entry txt = (let entry = trim txt in
     if entry = [] then None
     else case split_once entry [47] of
         Some (p, m) \<Rightarrow> (let p = trim p; m = trim m in
           if m = [] then None else Some \<lparr>target_provider = (if p = [] then None else Some p), target_model = m\<rparr>)
       | None \<Rightarrow> Some \<lparr>target_provider = None, target_model = entry\<rparr>)"

definition parse_fallback_chain :: "str \<Rightarrow> fallback_target list" where
  "parse_fallback_chain txt = List.map_filter parse_entry (split_on 44 txt)"

definition fallback_chain_from_env :: "str option \<Rightarrow> fallback_target list" where
  "fallback_chain_from_env var = (case var of Some txt \<Rightarrow> parse_fallback_chain txt | None \<Rightarrow> [])"

definition is_overloaded_message :: "str \<Rightarrow> bool" where
  "is_overloaded_message msg = (let lower = to_ascii_lowercase msg in
     contains_str lower (lit ''overloaded'') \<or> contains_str lower (lit ''overload''))"

fun is_fallback_worthy :: "provider_error \<Rightarrow> bool" where
  "is_fallback_worthy (RateLimitExceeded _ _) = True"
| "is_fallback_worthy (ServerError _) = True"
| "is_fallback_worthy (RequestFailed msg) = is_overloaded_message msg"
| "is_fallback_worthy _ = False"

text \<open>
  The providers: the stream one is asked for, which may never come, the building of another one by name, and
  the variable with the chain. The whole may never return.
\<close>

record ('w, 'p, 't) fallback_env =
  provider_stream :: "'p \<Rightarrow> 'w \<Rightarrow> 'w \<times> (provider_error, 't) result future"
  provider_name :: "'p \<Rightarrow> str"
  create_with_named_model :: "str \<Rightarrow> str \<Rightarrow> 'w \<Rightarrow> 'w \<times> nat \<times> (str, 'p) result"
  chain_var :: "str option"

fun try_chain ::
    "('w, 'p, 't) fallback_env \<Rightarrow> stream_guard \<Rightarrow> str \<Rightarrow> fallback_target list \<Rightarrow> provider_error \<Rightarrow> nat \<Rightarrow> 'w \<Rightarrow>
     ('w \<times> nat \<times> (provider_error, 't) result) option" where
  "try_chain env g primary [] err now w = Some (w, now, Err err)"
| "try_chain env g primary (t # ts) err now w =
     (if \<not> is_fallback_worthy err then Some (w, now, Err err)
      else case check g now of
          Err e \<Rightarrow> Some (w, now, Err e)
        | Ok _ \<Rightarrow> (case create_with_named_model env (case target_provider t of Some p \<Rightarrow> p | None \<Rightarrow> primary) (target_model t) w of
              (w1, d, Err _) \<Rightarrow> try_chain env g primary ts err (now + d) w1
            | (w1, d, Ok p) \<Rightarrow> (case provider_stream env p w1 of
                (w2, fut) \<Rightarrow> (case guarded g (now + d) fut of
                    None \<Rightarrow> None
                  | Some (Ok s, now') \<Rightarrow> Some (w2, now', Ok s)
                  | Some (Err e, now') \<Rightarrow> if is_abort e then Some (w2, now', Err e)
                      else try_chain env g primary ts e now' w2))))"

definition stream_with_fallback ::
    "('w, 'p, 't) fallback_env \<Rightarrow> stream_guard \<Rightarrow> 'p \<Rightarrow> nat \<Rightarrow> 'w \<Rightarrow> ('w \<times> nat \<times> (provider_error, 't) result) option" where
  "stream_with_fallback env g p now w = (case provider_stream env p w of (w1, fut) \<Rightarrow>
     (case guarded g now fut of
        None \<Rightarrow> None
      | Some (Ok s, t) \<Rightarrow> Some (w1, t, Ok s)
      | Some (Err e, t) \<Rightarrow>
          (let chain = fallback_chain_from_env (chain_var env) in
           if chain = [] \<or> is_abort e \<or> \<not> is_fallback_worthy e then Some (w1, t, Err e)
           else try_chain env g (provider_name env p) chain e t w1)))"

section \<open>Laws of the guard\<close>

text \<open>A race lost to the budget or the token is over by then.\<close>

fun raced_by :: "'a raced \<Rightarrow> nat \<Rightarrow> bool" where
  "raced_by (Won _ t) b = (t \<le> b)"
| "raced_by (Aborted _ t) b = (t \<le> b)"
| "raced_by Parked b = False"

lemma race_within_budget: "deadline g = Some b \<Longrightarrow> raced_by (race g now fut) (now + 1000 * b)"
  by (auto simp: race_def select_def no_later_def Let_def split: option.splits)

lemma race_over_when_cancelled:
  "cancel g = Some (Some c) \<Longrightarrow> raced_by (race g now fut) (max now c) \<and> raced_by (race_cancellation g now fut) (max now c)"
  by (auto simp: race_def race_cancellation_def select_def cancelled_from_def no_later_def Let_def split: option.splits)

lemma waiting_never_stalls: "race_cancellation g now fut = Aborted e t \<Longrightarrow> e = cancelled_error"
  by (auto simp: race_cancellation_def select_def no_later_def Let_def split: option.splits if_splits)

lemma race_not_early: "case race g now fut of Won _ t \<Rightarrow> now \<le> t | Aborted _ t \<Rightarrow> now \<le> t | Parked \<Rightarrow> True"
  by (auto simp: race_def select_def no_later_def cancelled_from_def Let_def split: option.splits raced.splits if_splits)

lemma race_won_kept:
  "race g now fut = Won x t \<Longrightarrow> \<exists>d. fut = Some (d, x) \<and> t = now + d"
  by (auto simp: race_def select_def no_later_def Let_def split: option.splits if_splits prod.splits)

text \<open>
  C33. A stream under a budget is over, whatever the provider does: every item and the end come within the
  budget of the one before, as long as none of them asks the user for something.
\<close>
theorem guarded_stream_ends:
  assumes "deadline g = Some b" "\<forall>(d, i) \<in> set items. \<not> item_requests_user_action i"
  shows "\<exists>t. snd (guard_stream g now items close) = Some t \<and> t \<le> now + 1000 * b * Suc (length items)
    \<and> (\<forall>(t', i) \<in> set (fst (guard_stream g now items close)). t' \<le> t)"
proof -
  have "\<exists>t. snd (guard_items g False now items close) = Some t \<and> now \<le> t \<and> t \<le> now + 1000 * b * Suc (length items)
      \<and> (\<forall>(t', i) \<in> set (fst (guard_items g False now items close)). t' \<le> t)"
    using assms(2)
  proof (induction items arbitrary: now)
    case Nil
    show ?case
      using race_within_budget [OF assms(1), of now "map_option (\<lambda>d. (d, ())) close"]
        race_not_early [where g = g and now = now and fut = "map_option (\<lambda>d. (d, ())) close"]
      by (cases "race g now (map_option (\<lambda>d. (d, ())) close)") (auto simp: next_item_def)
  next
    case (Cons x xs)
    obtain d i where x: "x = (d, i)" by (cases x)
    have r: "raced_by (race g now (Some (d, i))) (now + 1000 * b)" by (rule race_within_budget [OF assms(1)])
    note n = race_not_early [where g = g and now = now and fut = "Some (d, i)"]
    show ?case
    proof (cases "race g now (Some (d, i))")
      case (Won y t)
      have y: "y = i" using race_won_kept [OF Won] by simp
      have a: "\<not> item_requests_user_action i" using Cons.prems by (simp add: x)
      have p: "\<forall>(d, i) \<in> set xs. \<not> item_requests_user_action i" using Cons.prems by simp
      obtain u where u: "snd (guard_items g False t xs close) = Some u" "t \<le> u" "u \<le> t + 1000 * b * Suc (length xs)"
        "\<forall>(t', i) \<in> set (fst (guard_items g False t xs close)). t' \<le> u"
        using Cons.IH [OF p, of t] by blast
      show ?thesis
        using Won r n u a by (cases "guard_items g False t xs close") (auto simp: x y next_item_def)
    next
      case (Aborted e t)
      then show ?thesis using r n by (auto simp: x next_item_def)
    next
      case Parked
      then show ?thesis using r by simp
    qed
  qed
  then show ?thesis by (auto simp: guard_stream_def)
qed

text \<open>Once the turn is cancelled the stream is over, also while it waits for the user.\<close>

lemma cancelled_stream_ends:
  assumes "cancel g = Some (Some c)"
  shows "\<exists>t. snd (guard_items g waiting now items close) = Some t \<and> t \<le> max now c"
proof (induction items arbitrary: now waiting)
  case Nil
  have "raced_by (next_item g waiting now fut) (max now c)" for fut :: "unit future"
    using race_over_when_cancelled [OF assms, where now = now and fut = fut] by (auto simp: next_item_def)
  from this [of "map_option (\<lambda>d. (d, ())) close"] show ?case
    by (cases "next_item g waiting now (map_option (\<lambda>d. (d, ())) close)") auto
next
  case (Cons x xs)
  obtain d i where x: "x = (d, i)" by (cases x)
  have r: "raced_by (next_item g waiting now (Some (d, i))) (max now c)"
    using race_over_when_cancelled [OF assms, where now = now and fut = "Some (d, i)"] by (auto simp: next_item_def)
  show ?case
  proof (cases "next_item g waiting now (Some (d, i))")
    case (Won y t)
    then have "t \<le> max now c" using r by simp
    then show ?thesis
      using Won Cons.IH [of "item_requests_user_action y" t] by (cases "guard_items g (item_requests_user_action y) t xs close") (auto simp: x)
  qed (use r x in auto)
qed

text \<open>A provider that keeps its pace is not disturbed.\<close>

definition in_time :: "stream_guard \<Rightarrow> nat \<Rightarrow> bool" where
  "in_time g d = (case deadline g of Some b \<Rightarrow> d \<le> 1000 * b | None \<Rightarrow> True)"

lemma next_item_in_time:
  "cancel g \<in> {None, Some None} \<Longrightarrow> in_time g d \<Longrightarrow> next_item g waiting now (Some (d, x)) = Won x (now + d)"
  by (auto simp: next_item_def race_def race_cancellation_def select_def cancelled_from_def no_later_def in_time_def
      Let_def split: option.splits)

lemma guard_transparent:
  assumes "cancel g \<in> {None, Some None}" "list_all (in_time g) (map fst items)" "in_time g end_delay"
  shows "map snd (fst (guard_items g waiting now items (Some end_delay))) = map snd items
    \<and> snd (guard_items g waiting now items (Some end_delay)) = Some (now + sum_list (map fst items) + end_delay)"
  using assms(2)
proof (induction items arbitrary: now waiting)
  case Nil
  then show ?case using next_item_in_time [OF assms(1,3), of waiting now "()"] by simp
next
  case (Cons x xs)
  obtain d i where x: "x = (d, i)" by (cases x)
  have n: "next_item g waiting now (Some (d, i)) = Won i (now + d)"
    using Cons.prems by (intro next_item_in_time [OF assms(1)]) (simp add: x)
  show ?case
    using Cons.IH [of "item_requests_user_action i" "now + d"] Cons.prems
    by (cases "guard_items g (item_requests_user_action i) (now + d) xs (Some end_delay)") (simp add: x n add.assoc)
qed

section \<open>Laws of the fallback\<close>

text \<open>An abort is never a reason to ask another model, so a cancelled or stalled turn is not sent again.\<close>

lemma contains_after_digits:
  "list_all is_digit ds \<Longrightarrow> p \<noteq> [] \<Longrightarrow> \<not> is_digit (hd p) \<Longrightarrow> contains_str (ds @ s) p = contains_str s p"
  by (induction ds; cases p) (auto simp: starts_with_iff)

lemma show_nat_digits: "list_all is_digit (show_nat n)"
proof (induction n rule: show_nat.induct)
  case (1 n)
  then show ?case by (subst show_nat.simps) (auto simp: is_digit_def [of "48 + _"])
qed

lemma lower_digits: "list_all is_digit ds \<Longrightarrow> to_ascii_lowercase ds = ds"
  by (induction ds) (auto simp: to_ascii_lowercase_def ascii_lower_def is_digit_def)

lemma aborts_not_worthy: "\<not> is_fallback_worthy cancelled_error" "\<not> is_fallback_worthy (deadline_error b)"
proof -
  show "\<not> is_fallback_worthy cancelled_error"
    by (simp add: cancelled_error_def CANCELLED_MARKER_def is_overloaded_message_def to_ascii_lowercase_def ascii_lower_def
        starts_with_def)
  have "to_ascii_lowercase (DEADLINE_MARKER @ lit '': provider made no progress for '' @ show_nat b
      @ lit ''s (adjust or disable with BHARATCODE_PROVIDER_DEADLINE_SECS)'')
    = lit ''bharatcode.abort.deadline: provider made no progress for '' @ show_nat b
      @ lit ''s (adjust or disable with bharatcode_provider_deadline_secs)''"
    using lower_digits [OF show_nat_digits, of b] by (simp add: to_ascii_lowercase_def DEADLINE_MARKER_def ascii_lower_def)
  then show "\<not> is_fallback_worthy (deadline_error b)"
    by (simp add: deadline_error_def is_overloaded_message_def starts_with_def contains_after_digits show_nat_digits is_digit_def)
qed

text \<open>With a budget the creation of a stream always comes to a result, however many models are asked.\<close>

lemma guarded_returns: "deadline g = Some b \<Longrightarrow> guarded g now fut \<noteq> None"
  using race_within_budget [of g b now fut] by (auto simp: guarded_def split: raced.splits)

lemma try_chain_returns: "deadline g = Some b \<Longrightarrow> try_chain env g primary ts err now w \<noteq> None"
proof (induction ts arbitrary: err now w)
  case (Cons t ts)
  show ?case
    using Cons by (auto simp: guarded_returns [OF Cons.prems] split: sum.splits prod.splits option.splits)
qed simp

theorem stream_creation_returns:
  assumes "deadline g = Some b"
  shows "\<exists>r. stream_with_fallback env g p now w = Some r"
  using try_chain_returns [OF assms, of env "provider_name env p"]
  by (auto simp: stream_with_fallback_def Let_def guarded_returns [OF assms] split: prod.splits option.splits sum.splits)

text \<open>A turn that is already cancelled asks nobody but the provider of its own stream, and gets the abort.\<close>

lemma guarded_cancelled:
  "cancel g = Some (Some c) \<Longrightarrow> c \<le> now \<Longrightarrow> guarded g now fut = Some (Err cancelled_error, now)"
  by (auto simp: guarded_def race_def select_def cancelled_from_def no_later_def Let_def max_def split: option.splits)

lemma cancelled_turn_not_resent:
  assumes "cancel g = Some (Some c)" "c \<le> now"
  shows "stream_with_fallback env g p now w = Some (fst (provider_stream env p w), now, Err cancelled_error)"
  by (simp add: stream_with_fallback_def guarded_cancelled [OF assms] aborts_not_worthy Let_def split: prod.splits)

text \<open>A chain is read back from the list that names it.\<close>

definition show_target :: "fallback_target \<Rightarrow> str" where
  "show_target t = (case target_provider t of Some p \<Rightarrow> p @ [47] @ target_model t | None \<Rightarrow> target_model t)"

definition trimmed :: "str \<Rightarrow> bool" where
  "trimmed s = (s \<noteq> [] \<and> \<not> is_ws (hd s) \<and> \<not> is_ws (last s) \<and> 44 \<notin> set s)"

definition plain_target :: "fallback_target \<Rightarrow> bool" where
  "plain_target t = (trimmed (target_model t)
     \<and> (case target_provider t of Some p \<Rightarrow> trimmed p \<and> 47 \<notin> set p | None \<Rightarrow> 47 \<notin> set (target_model t)))"

lemma split_once_slash: "47 \<notin> set a \<Longrightarrow> split_once (a @ 47 # b) [47] = Some (a, b)"
  by (induction a) (auto simp: strip_prefix_None)

lemma split_once_no_slash: "47 \<notin> set a \<Longrightarrow> split_once a [47] = None"
  by (induction a) (auto simp: strip_prefix_None split: option.splits)

lemma parse_show_target: "plain_target t \<Longrightarrow> parse_entry (show_target t) = Some t"
proof -
  assume p: "plain_target t"
  show ?thesis
  proof (cases "target_provider t")
    case None
    then show ?thesis using p
      by (simp add: parse_entry_def show_target_def plain_target_def trimmed_def trim_id split_once_no_slash Let_def)
  next
    case (Some q)
    have "trim (q @ 47 # target_model t) = q @ 47 # target_model t"
      using p Some by (intro trim_id) (auto simp: plain_target_def trimmed_def)
    then show ?thesis using p Some
      by (simp add: parse_entry_def show_target_def plain_target_def trimmed_def trim_id split_once_slash Let_def)
  qed
qed

theorem fallback_chain_roundtrip:
  assumes "ts \<noteq> []" "list_all plain_target ts"
  shows "parse_fallback_chain (join_with [44] (map show_target ts)) = ts"
proof -
  have "\<forall>s \<in> set (map show_target ts). 44 \<notin> set s"
    using assms(2) by (auto simp: list_all_iff plain_target_def trimmed_def show_target_def split: option.splits)
  then have "split_on 44 (join_with [44] (map show_target ts)) = map show_target ts"
    using assms(1) by (simp add: split_on_join)
  moreover have "List.map_filter parse_entry (map show_target ts) = ts"
    using assms(2) by (induction ts) (simp_all add: parse_show_target map_filter_simps)
  ultimately show ?thesis by (simp add: parse_fallback_chain_def)
qed

section \<open>Examples\<close>

text \<open>A provider that answers once and then falls silent.\<close>

theorem guarded_stream_ends_witness:
  "let g = \<lparr>deadline = Some 20, cancel = None\<rparr>; out = guard_stream g 0 [(5, Ok (None, None :: unit provider_usage option))] None
   in out = ([(5, Ok (None, None)), (20005, Err (deadline_error 20))], Some 20005)
     \<and> (\<exists>t. snd out = Some t \<and> t \<le> 40000 \<and> (\<forall>(t', i) \<in> set (fst out). t' \<le> t))"
proof -
  let ?g = "\<lparr>deadline = Some 20, cancel = None\<rparr>"
  let ?items = "[(5, Ok (None, None :: unit provider_usage option))]"
  have "guard_stream ?g 0 ?items None = ([(5, Ok (None, None)), (20005, Err (deadline_error 20))], Some 20005)"
    by (simp add: guard_stream_def next_item_def race_def select_def cancelled_from_def no_later_def item_requests_user_action_def)
  moreover have "\<forall>(d, i) \<in> set ?items. \<not> item_requests_user_action i" by (simp add: item_requests_user_action_def)
  from guarded_stream_ends [OF _ this, of ?g 20 0 None]
  have "\<exists>t. snd (guard_stream ?g 0 ?items None) = Some t \<and> t \<le> 40000
      \<and> (\<forall>(t', i) \<in> set (fst (guard_stream ?g 0 ?items None)). t' \<le> t)"
    by simp
  ultimately show ?thesis unfolding Let_def by metis
qed

theorem fallback_chain_roundtrip_witness:
  "parse_fallback_chain (lit ''anthropic/claude,gpt-4o'')
     = [\<lparr>target_provider = Some (lit ''anthropic''), target_model = lit ''claude''\<rparr>, \<lparr>target_provider = None, target_model = lit ''gpt-4o''\<rparr>]"
  using fallback_chain_roundtrip [of "[\<lparr>target_provider = Some (lit ''anthropic''), target_model = lit ''claude''\<rparr>,
      \<lparr>target_provider = None, target_model = lit ''gpt-4o''\<rparr>]"]
  by (simp add: plain_target_def trimmed_def show_target_def is_ws_def)

end
