(* ===== verification/JsonRepair.thy ===== *)
theory JsonRepair
  imports Message
begin

text \<open>
  \<open>crates/bharatcode-providers/src/json.rs\<close>: reading a JSON text a model has written, with repairs where it
  does not parse: closing what a truncation left open, escaping control characters. The parser of the
  \<open>serde_json\<close> crate is a parameter.
\<close>

section \<open>Truncated texts\<close>

text \<open>The state of the scan: within a string, after a backslash in it, the closers that are due, last first.\<close>

record json_scan =
  in_string :: bool
  escape_next :: bool
  closers :: str

definition scan_start :: json_scan where
  "scan_start = \<lparr>in_string = False, escape_next = False, closers = []\<rparr>"

definition scan_char :: "json_scan \<Rightarrow> uchar \<Rightarrow> json_scan" where
  "scan_char st c =
     (if in_string st then
        (if escape_next st then st\<lparr>escape_next := False\<rparr>
         else if c = 92 then st\<lparr>escape_next := True\<rparr>
         else if c = 34 then st\<lparr>in_string := False\<rparr>
         else st)
      else if c = 34 then st\<lparr>in_string := True\<rparr>
      else if c = 123 then st\<lparr>closers := 125 # closers st\<rparr>
      else if c = 91 then st\<lparr>closers := 93 # closers st\<rparr>
      else if c = 125 \<or> c = 93 then
        (case closers st of d # ds \<Rightarrow> if d = c then st\<lparr>closers := ds\<rparr> else st | [] \<Rightarrow> st)
      else st)"

definition scan_json :: "str \<Rightarrow> json_scan" where
  "scan_json s = foldl scan_char scan_start s"

definition repair_truncated_json :: "str \<Rightarrow> str" where
  "repair_truncated_json s = (let st = scan_json s in
     s @ (if in_string st then (if escape_next st then [92] else []) @ [34] else []) @ closers st)"

section \<open>Control characters\<close>

definition hex_digit :: "nat \<Rightarrow> uchar" where
  "hex_digit n = (if n < 10 then 48 + n else 87 + n)"

text \<open>\<open>format!("\\u{:04x}", c)\<close>, for a character below 32.\<close>

definition unicode_escape :: "uchar \<Rightarrow> str" where
  "unicode_escape c = [92, 117, 48, 48, hex_digit (c div 16), hex_digit (c mod 16)]"

definition escape_char :: "uchar \<Rightarrow> str" where
  "escape_char c =
     (if c < 32 then
        (if c = 8 then [92, 98] else if c = 12 then [92, 102] else if c = 10 then [92, 110]
         else if c = 13 then [92, 114] else if c = 9 then [92, 116] else unicode_escape c)
      else [c])"

definition json_escape_control_chars_in_string :: "str \<Rightarrow> str" where
  "json_escape_control_chars_in_string s = concat (map escape_char s)"

definition safely_parse_json :: "(str \<Rightarrow> ('e, json) result) \<Rightarrow> str \<Rightarrow> ('e, json) result" where
  "safely_parse_json parse s = (case parse s of
     Ok v \<Rightarrow> Ok v
   | Err _ \<Rightarrow> (case parse (repair_truncated_json s) of
       Ok v \<Rightarrow> Ok v
     | Err _ \<Rightarrow> (case parse (json_escape_control_chars_in_string s) of
         Ok v \<Rightarrow> Ok v
       | Err _ \<Rightarrow> parse (repair_truncated_json (json_escape_control_chars_in_string s)))))"

section \<open>What a repair does\<close>

lemma scan_json_append: "scan_json (s @ t) = foldl scan_char (scan_json s) t"
  by (simp add: scan_json_def)

text \<open>Only closing brackets are ever due, and a backslash is pending only within a string.\<close>

definition scan_ok :: "json_scan \<Rightarrow> bool" where
  "scan_ok st = (set (closers st) \<subseteq> {125, 93} \<and> (escape_next st \<longrightarrow> in_string st))"

lemma scan_char_ok: "scan_ok st \<Longrightarrow> scan_ok (scan_char st c)"
  by (auto simp: scan_ok_def scan_char_def split: list.splits)

lemma scan_json_ok: "scan_ok (scan_json s)"
proof -
  have "scan_ok st \<Longrightarrow> scan_ok (foldl scan_char st s)" for st
    by (induction s arbitrary: st) (simp_all add: scan_char_ok)
  then show ?thesis by (simp add: scan_json_def scan_ok_def scan_start_def)
qed

lemma scan_closer:
  assumes "\<not> in_string st" "closers st = d # ds" "d = 125 \<or> d = 93"
  shows "scan_char st d = st\<lparr>closers := ds\<rparr>"
  unfolding scan_char_def assms(2) using assms(1,3) by auto

lemma scan_closers:
  "set cs \<subseteq> {125, 93} \<Longrightarrow> \<not> in_string st \<Longrightarrow> closers st = cs \<Longrightarrow> foldl scan_char st cs = st\<lparr>closers := []\<rparr>"
proof (induction cs arbitrary: st)
  case (Cons c cs)
  then have "scan_char st c = st\<lparr>closers := cs\<rparr>" by (intro scan_closer) simp_all
  with Cons.prems(1,2) Cons.IH [of "st\<lparr>closers := cs\<rparr>"] show ?case by simp
next
  case Nil
  then show ?case by (cases st) simp
qed

text \<open>A repaired text has every string and every bracket closed.\<close>

lemma repair_closes: "scan_json (repair_truncated_json s) = scan_start"
proof -
  let ?st = "scan_json s"
  have ok: "set (closers ?st) \<subseteq> {125, 93}" "escape_next ?st \<longrightarrow> in_string ?st"
    using scan_json_ok [of s] by (auto simp: scan_ok_def)
  let ?tail = "if in_string ?st then (if escape_next ?st then [92] else []) @ [34] else []"
  have closed: "foldl scan_char ?st ?tail = ?st\<lparr>in_string := False, escape_next := False\<rparr>"
    using ok(2) by (cases ?st) (auto simp: scan_char_def)
  have "scan_json (repair_truncated_json s) = foldl scan_char (foldl scan_char ?st ?tail) (closers ?st)"
    by (simp add: repair_truncated_json_def scan_json_append Let_def)
  also have "\<dots> = ?st\<lparr>in_string := False, escape_next := False, closers := []\<rparr>"
    unfolding closed using ok(1) by (subst scan_closers) simp_all
  finally show ?thesis by (cases ?st) (simp add: scan_start_def)
qed

text \<open>A text that is closed is left as it is, so a repair is done once.\<close>

lemma repair_keeps_closed: "scan_json s = scan_start \<Longrightarrow> repair_truncated_json s = s"
  by (simp add: repair_truncated_json_def scan_start_def)

lemma repair_idempotent: "repair_truncated_json (repair_truncated_json s) = repair_truncated_json s"
  by (rule repair_keeps_closed) (rule repair_closes)

lemma hex_digit_printable: "32 \<le> hex_digit n"
  by (simp add: hex_digit_def)

lemma escape_char_printable: "list_all (\<lambda>c. 32 \<le> c) (escape_char d)"
  by (simp add: escape_char_def unicode_escape_def hex_digit_printable)

lemma escape_leaves_no_control: "list_all (\<lambda>c. 32 \<le> c) (json_escape_control_chars_in_string s)"
  by (induction s) (simp_all add: json_escape_control_chars_in_string_def escape_char_printable)

lemma escape_keeps_printable: "list_all (\<lambda>c. 32 \<le> c) s \<Longrightarrow> json_escape_control_chars_in_string s = s"
  by (induction s) (simp_all add: json_escape_control_chars_in_string_def escape_char_def)

text \<open>What parses is never repaired, and what a repair yields parses.\<close>

lemma safely_parse_valid: "parse s = Ok v \<Longrightarrow> safely_parse_json parse s = Ok v"
  by (simp add: safely_parse_json_def)

lemma safely_parse_source:
  "safely_parse_json parse s = Ok v \<Longrightarrow>
   \<exists>t\<in>{s, repair_truncated_json s, json_escape_control_chars_in_string s,
       repair_truncated_json (json_escape_control_chars_in_string s)}. parse t = Ok v"
  by (auto simp: safely_parse_json_def split: sum.splits)

text \<open>
  The escapes are put outside strings as well: a text with a raw line feed within a string and another between
  two members gets a backslash where only white space may stand, so no candidate is its repair.
\<close>

lemma line_feed_between_members_escaped:
  "json_escape_control_chars_in_string (lit ''{'' @ [34, 97, 10, 34] @ lit '':1,'' @ [10, 34, 98, 34] @ lit '':2}'')
     = lit ''{'' @ [34, 97, 92, 110, 34] @ lit '':1,'' @ [92, 110, 34, 98, 34] @ lit '':2}''"
  by (simp add: json_escape_control_chars_in_string_def escape_char_def)

end
