(* ===== verification/OpenAiResponse.thy ===== *)
theory OpenAiResponse
  imports JsonRepair ThinkFilter TokenUsage ProviderRetry ToolRetry "HOL-Library.AList"
begin

text \<open>
  The answers of OpenAI-compatible services, \<open>crates/bharatcode-providers/src/formats/openai.rs\<close>: a whole
  answer as a message, and a stream of lines as a stream of messages, with reasoning, inline thinking, tool
  calls whose arguments arrive in pieces, and token counts. The \<open>serde_json\<close> crate, \<open>rmcp\<close>'s \<open>object\<close>, the
  printing of errors and the clock are parameters.
\<close>

section \<open>Parameters\<close>

record 'e openai_io =
  parse_json :: "str \<Rightarrow> ('e, json) result"
  show_json_error :: "'e \<Rightarrow> str"
  rmcp_object :: "json \<Rightarrow> json_object"
  show_debug :: "str \<Rightarrow> str"
  as_i64 :: "json \<Rightarrow> int option"

section \<open>Token counts\<close>

definition as_i32 :: "'e openai_io \<Rightarrow> json option \<Rightarrow> i32 option" where
  "as_i32 io v = map_option word_of_int (Option.bind v (as_i64 io))"

definition or_else :: "'a option \<Rightarrow> 'a option \<Rightarrow> 'a option" where
  "or_else a b = (case a of Some x \<Rightarrow> Some x | None \<Rightarrow> b)"

definition is_object :: "json \<Rightarrow> bool" where
  "is_object v = (case v of JObject _ \<Rightarrow> True | _ \<Rightarrow> False)"

definition get_usage :: "'e openai_io \<Rightarrow> json \<Rightarrow> usage" where
  "get_usage io v =
     (let u = (case json_get v (lit ''usage'') of Some n \<Rightarrow> if is_object n then n else v | None \<Rightarrow> v);
          count = (\<lambda>k. as_i32 io (json_get u k));
          input = or_else (count (lit ''prompt_tokens'')) (count (lit ''prompt_eval_count''));
          output = or_else (count (lit ''completion_tokens'')) (count (lit ''eval_count''));
          cache_read = or_else (count (lit ''cache_read_input_tokens''))
            (as_i32 io (Option.bind (json_get u (lit ''prompt_tokens_details'')) (\<lambda>d. json_get d (lit ''cached_tokens''))));
          cache_write = count (lit ''cache_creation_input_tokens'');
          all = or_else (count (lit ''total_tokens'')) (case (input, output) of
            (Some i, Some t) \<Rightarrow> Some (saturating_add i t) | _ \<Rightarrow> None)
      in with_cache_tokens cache_read cache_write (new_usage input output all))"

section \<open>A whole answer\<close>

definition is_name_char :: "uchar \<Rightarrow> bool" where
  "is_name_char c = ((97 \<le> c \<and> c \<le> 122) \<or> (65 \<le> c \<and> c \<le> 90) \<or> (48 \<le> c \<and> c \<le> 57) \<or> c = 95 \<or> c = 45)"

definition sanitize_function_name :: "str \<Rightarrow> str" where
  "sanitize_function_name s = map (\<lambda>c. if is_name_char c then c else 95) s"

definition is_valid_function_name :: "str \<Rightarrow> bool" where
  "is_valid_function_name s = (s \<noteq> [] \<and> list_all is_name_char s)"

definition str_at :: "json \<Rightarrow> str \<Rightarrow> str" where
  "str_at v k = (case Option.bind (json_get v k) json_as_str of Some s \<Rightarrow> s | None \<Rightarrow> [])"

definition json_at :: "json \<Rightarrow> str \<Rightarrow> json" where
  "json_at v k = (case json_get v k of Some x \<Rightarrow> x | None \<Rightarrow> JNull)"

definition standard_fields :: "str list" where
  "standard_fields = [lit ''id'', lit ''function'', lit ''type'', lit ''index'']"

definition call_metadata :: "json \<Rightarrow> json_object option" where
  "call_metadata v = (case v of
     JObject m \<Rightarrow> (let rest = filter (\<lambda>(k, _). k \<notin> set standard_fields) m in if rest = [] then None else Some rest)
   | _ \<Rightarrow> None)"

definition tool_error :: "int \<Rightarrow> str \<Rightarrow> error_data" where
  "tool_error code msg = \<lparr>err_code = code, err_message = msg, err_data = None\<rparr>"

definition invalid_name_error :: "str \<Rightarrow> error_data" where
  "invalid_name_error n = tool_error INVALID_REQUEST (lit ''The provided function name '' @ quoted n
     @ lit '' had invalid characters, it must match this regex [a-zA-Z0-9_-]+'')"

definition response_call :: "'e openai_io \<Rightarrow> json \<Rightarrow> message_content" where
  "response_call io v =
     (let i = str_at v (lit ''id''); f = json_at v (lit ''function''); n = str_at f (lit ''name'');
          raw_arguments = str_at f (lit ''arguments'');
          arguments = (if raw_arguments = [] then lit ''{}'' else raw_arguments);
          call = (if \<not> is_valid_function_name n then Err (invalid_name_error n)
            else case safely_parse_json (parse_json io) arguments of
              Ok params \<Rightarrow> Ok \<lparr>tool_name = n, arguments = Some (rmcp_object io params)\<rparr>
            | Err e \<Rightarrow> Err (tool_error INVALID_PARAMS (lit ''Could not interpret tool use parameters for id '' @ i
                @ lit '': '' @ show_json_error io e @ lit ''. Raw arguments: '' @ quoted arguments)))
      in mk_tool_request_with_metadata i call (call_metadata v))"

definition first_message :: "json \<Rightarrow> json option" where
  "first_message response = (case json_get response (lit ''choices'') of
     Some (JArray (c # _)) \<Rightarrow> json_get c (lit ''message'') | _ \<Rightarrow> None)"

text \<open>Reasoning first, then inline thinking where there was none, the text, the calls.\<close>

definition response_reasoning :: "json \<Rightarrow> message_content list" where
  "response_reasoning m =
     (case or_else (json_get m (lit ''reasoning_content'')) (json_get m (lit ''reasoning'')) of
        Some (JString s) \<Rightarrow> if s = [] then [] else [mk_thinking s []]
      | _ \<Rightarrow> [])"

definition response_text :: "bool \<Rightarrow> json \<Rightarrow> message_content list" where
  "response_text structured m = (case json_get m (lit ''content'') of
     Some (JString s) \<Rightarrow> (case split_think_blocks s of (cleaned, inline) \<Rightarrow>
       (if \<not> structured \<and> inline \<noteq> [] then [mk_thinking inline []] else [])
       @ (if cleaned = [] then [] else [mk_text cleaned]))
   | _ \<Rightarrow> [])"

definition response_calls :: "'e openai_io \<Rightarrow> json \<Rightarrow> message_content list" where
  "response_calls io m = (case json_get m (lit ''tool_calls'') of
     Some (JArray cs) \<Rightarrow> map (response_call io) cs | _ \<Rightarrow> [])"

definition response_to_message :: "'e openai_io \<Rightarrow> int \<Rightarrow> json \<Rightarrow> (str, message) result" where
  "response_to_message io now response = (case first_message response of
     None \<Rightarrow> Err (case json_get response (lit ''error'') of
         Some e \<Rightarrow> lit ''API error: '' @ (case Option.bind (json_get e (lit ''message'')) json_as_str of
           Some s \<Rightarrow> s | None \<Rightarrow> lit ''Unknown error'')
       | None \<Rightarrow> lit ''No message in API response. This may indicate a quota limit or other restriction.'')
   | Some m \<Rightarrow> (let reasoning = response_reasoning m in
       Ok (message_new Assistant now
         (reasoning @ response_text (reasoning \<noteq> []) m @ response_calls io m))))"

section \<open>Lines and chunks of a stream\<close>

record tool_delta =
  delta_index :: "int option"
  delta_id :: "str option"
  delta_name :: "str option"
  delta_arguments :: str
  delta_extra :: "json_object option"

record content_part =
  part_type :: str
  part_text :: "str option"
  part_signature :: "str option"

datatype delta_content = StringContent str | PartsContent "content_part list"

record delta =
  delta_text :: "delta_content option"
  delta_calls :: "tool_delta list option"
  delta_details :: "json list option"
  delta_reasoning :: "str option"
  delta_reasoning_content :: "str option"

record streaming_choice =
  choice_delta :: delta
  finish_reason :: "str option"

record streaming_chunk =
  choices :: "streaming_choice list"
  chunk_id :: "str option"
  chunk_usage :: "json option"
  chunk_model :: "str option"

definition nonempty :: "str option \<Rightarrow> str option" where
  "nonempty s = (case s of Some t \<Rightarrow> if t = [] then None else Some t | None \<Rightarrow> None)"

definition reasoning_text :: "delta \<Rightarrow> str option" where
  "reasoning_text d = or_else (nonempty (delta_reasoning_content d)) (nonempty (delta_reasoning d))"

definition extract_content_and_signature :: "delta_content option \<Rightarrow> str option \<times> str option" where
  "extract_content_and_signature c = (case c of
     None \<Rightarrow> (None, None)
   | Some (StringContent s) \<Rightarrow> (Some s, None)
   | Some (PartsContent ps) \<Rightarrow> (let ts = filter (\<lambda>p. part_type p = lit ''text'') ps in
       (nonempty (Some (concat (List.map_filter part_text ts))), first_some part_signature ts)))"

definition strip_data_prefix :: "str \<Rightarrow> str option" where
  "strip_data_prefix l = map_option trim
     (or_else (strip_prefix l (lit ''data: '')) (strip_prefix l (lit ''data:'')))"

definition stream_decode_error :: "str \<Rightarrow> provider_error" where
  "stream_decode_error e = NetworkError (lit ''Stream decode error: '' @ e)"

definition message_or :: "json \<Rightarrow> str \<Rightarrow> str" where
  "message_or v d = (case Option.bind (json_get v (lit ''message'')) json_as_str of Some s \<Rightarrow> s | None \<Rightarrow> d)"

definition chunk_error :: "'e openai_io \<Rightarrow> str \<Rightarrow> 'e \<Rightarrow> provider_error" where
  "chunk_error io l e = stream_decode_error (lit ''Failed to parse streaming chunk: '' @ show_json_error io e
     @ lit '': '' @ show_debug io l)"

text \<open>\<open>read_chunk\<close> is the derived deserialisation of a chunk.\<close>

definition parse_streaming_chunk ::
    "'e openai_io \<Rightarrow> (json \<Rightarrow> ('e, streaming_chunk) result) \<Rightarrow> str \<Rightarrow> (provider_error, streaming_chunk) result" where
  "parse_streaming_chunk io read_chunk l = (case parse_json io l of
     Err e \<Rightarrow> Err (chunk_error io l e)
   | Ok v \<Rightarrow> (case json_get v (lit ''error'') of
       Some e \<Rightarrow> Err (ServerError (message_or e (lit ''Unknown server error'')))
     | None \<Rightarrow>
         if Option.bind (json_get v (lit ''object'')) json_as_str = Some (lit ''error'')
         then Err (ServerError (message_or v (lit ''Unknown server error'')))
         else map_sum (chunk_error io l) id (read_chunk v)))"

definition extract_usage_with_output_tokens ::
    "'e openai_io \<Rightarrow> streaming_chunk \<Rightarrow> str option \<Rightarrow> 's provider_usage option" where
  "extract_usage_with_output_tokens io ch fallback =
     Option.bind (chunk_usage ch) (\<lambda>u. Option.bind (or_else (chunk_model ch) fallback) (\<lambda>m.
       let p = new_provider_usage m (get_usage io u)
       in if output_tokens (usage_of p) = None then None else Some p))"

section \<open>The stream\<close>

type_synonym line = "(str, str) result"

datatype stream_error = StreamFailed str | ChunkFailed provider_error

record stream_state =
  details :: "json list"
  reasoning_content :: str
  think :: think_filter
  saw_structured :: bool
  yielded_len :: nat
  last_signature :: "str option"
  pending_inline :: str
  last_model :: "str option"

definition stream_start :: stream_state where
  "stream_start = \<lparr>details = [], reasoning_content = [], think = new_filter, saw_structured = False,
     yielded_len = 0, last_signature = None, pending_inline = [], last_model = None\<rparr>"

definition note_model :: "streaming_chunk \<Rightarrow> stream_state \<Rightarrow> stream_state" where
  "note_model ch st = (case chunk_model ch of Some m \<Rightarrow> st\<lparr>last_model := Some m\<rparr> | None \<Rightarrow> st)"

definition note_reasoning :: "streaming_chunk \<Rightarrow> stream_state \<Rightarrow> stream_state" where
  "note_reasoning ch st = (case choices ch of
     [] \<Rightarrow> st
   | c # _ \<Rightarrow> (let d = choice_delta c;
       st = st\<lparr>details := details st @ (case delta_details d of Some xs \<Rightarrow> xs | None \<Rightarrow> [])\<rparr>
     in case reasoning_text d of
          None \<Rightarrow> st
        | Some rc \<Rightarrow> st\<lparr>reasoning_content := reasoning_content st @ rc, saw_structured := True, pending_inline := []\<rparr>))"

text \<open>The calls in progress by index: identifier, name, arguments so far, other fields.\<close>

type_synonym call_data = "str \<times> str \<times> str \<times> json_object option"
type_synonym calls = "(int \<times> call_data) list"

definition open_call :: "tool_delta \<Rightarrow> calls \<Rightarrow> calls" where
  "open_call d m = (case (delta_index d, delta_id d, delta_name d) of
     (Some i, Some x, Some n) \<Rightarrow> AList.update i (x, n, delta_arguments d, delta_extra d) m
   | _ \<Rightarrow> m)"

definition merge_extra :: "json_object option \<Rightarrow> json_object option \<Rightarrow> json_object option" where
  "merge_extra old new = (case (old, new) of
     (None, Some e) \<Rightarrow> Some e
   | (Some e, Some e') \<Rightarrow> Some (e @ filter (\<lambda>(k, _). k \<notin> fst ` set e) e')
   | (e, None) \<Rightarrow> e)"

definition extend_call :: "tool_delta \<Rightarrow> calls \<Rightarrow> calls" where
  "extend_call d m = (case delta_index d of
     None \<Rightarrow> m
   | Some i \<Rightarrow> (case map_of m i of
       Some (x, n, args, extra) \<Rightarrow> AList.update i (x, n, args @ delta_arguments d, merge_extra extra (delta_extra d)) m
     | None \<Rightarrow> open_call d m))"

definition deltas_of :: "streaming_chunk \<Rightarrow> tool_delta list" where
  "deltas_of ch = (case choices ch of [] \<Rightarrow> []
   | c # _ \<Rightarrow> (case delta_calls (choice_delta c) of Some ds \<Rightarrow> ds | None \<Rightarrow> []))"

datatype 's collected =
    Collected "line list" stream_state calls "'s provider_usage option"
  | Ended "line list" stream_state
  | Broken stream_error

text \<open>The inner loop: lines are read until a chunk ends the calls.\<close>

fun collect_calls ::
    "'e openai_io \<Rightarrow> (json \<Rightarrow> ('e, streaming_chunk) result) \<Rightarrow> line list \<Rightarrow> stream_state \<Rightarrow> calls \<Rightarrow>
     's provider_usage option \<Rightarrow> 's collected" where
  "collect_calls io rd [] st m u = Collected [] st m u"
| "collect_calls io rd (Err e # ls) st m u = Broken (StreamFailed e)"
| "collect_calls io rd (Ok s # ls) st m u = (case strip_data_prefix s of
     None \<Rightarrow> collect_calls io rd ls st m u
   | Some l \<Rightarrow>
       if l = lit ''[DONE]'' then Ended ls st
       else (case parse_streaming_chunk io rd l of
         Err e \<Rightarrow> Broken (ChunkFailed e)
       | Ok ch \<Rightarrow>
           (let st = note_model ch st;
                u = or_else (extract_usage_with_output_tokens io ch (last_model st)) u
            in case choices ch of
                 [] \<Rightarrow> Collected ls st m u
               | c # _ \<Rightarrow> (let st = note_reasoning ch st; m = fold extend_call (deltas_of ch) m
                   in if finish_reason c \<noteq> None then Collected ls st m u
                      else collect_calls io rd ls st m u))))"

type_synonym 's emitted = "message option \<times> 's provider_usage option"

definition identified :: "streaming_chunk \<Rightarrow> message \<Rightarrow> message" where
  "identified ch m = (case chunk_id ch of Some i \<Rightarrow> with_id i m | None \<Rightarrow> m)"

definition GEMINI_THOUGHT_SIGNATURE_KEY :: str where
  "GEMINI_THOUGHT_SIGNATURE_KEY = lit ''thoughtSignature''"

definition json_insert :: "str \<Rightarrow> json \<Rightarrow> json_object \<Rightarrow> json_object" where
  "json_insert k v m = AList.update k v m"

definition call_fields :: "str option \<Rightarrow> json_object option \<Rightarrow> json_object option" where
  "call_fields sig extra = (case sig of
     Some s \<Rightarrow> Some (json_insert GEMINI_THOUGHT_SIGNATURE_KEY (JString s) (case extra of Some e \<Rightarrow> e | None \<Rightarrow> []))
   | None \<Rightarrow> (case extra of Some e \<Rightarrow> if e = [] then None else Some e | None \<Rightarrow> None))"

definition streamed_call :: "'e openai_io \<Rightarrow> str option \<Rightarrow> call_data \<Rightarrow> message_content" where
  "streamed_call io sig d = (case d of (i, n, args, extra) \<Rightarrow>
     mk_tool_request_with_metadata i
       (case (if args = [] then Ok (JObject []) else safely_parse_json (parse_json io) args) of
          Ok params \<Rightarrow> Ok \<lparr>tool_name = n, arguments = Some (rmcp_object io params)\<rparr>
        | Err e \<Rightarrow> Err (tool_error INVALID_PARAMS (lit ''Could not interpret tool use parameters for id '' @ i
            @ lit '': '' @ show_json_error io e)))
       (call_fields sig extra))"

definition sorted_calls :: "calls \<Rightarrow> call_data list" where
  "sorted_calls m = map snd (sort_key fst m)"

text \<open>What comes out when the calls of a chunk are complete: held text and thinking first, then the calls.\<close>

definition flushed :: "int \<Rightarrow> streaming_chunk \<Rightarrow> str \<Rightarrow> str \<Rightarrow> 's emitted list" where
  "flushed now ch text thoughts =
     (let cs = (if text = [] then [] else [mk_text text]) @ (if thoughts = [] then [] else [mk_thinking thoughts []])
      in if cs = [] then [] else [(Some (identified ch (message_new Assistant now cs)), None)])"

definition emit_calls ::
    "'e openai_io \<Rightarrow> int \<Rightarrow> streaming_chunk \<Rightarrow> calls \<Rightarrow> 's provider_usage option \<Rightarrow> stream_state \<Rightarrow>
     's emitted list \<times> stream_state" where
  "emit_calls io now ch m u st =
     (let (f, out) = push_chunk (think st) [];
          held = (if saw_structured st then [] else pending_inline st @ out_thinking out);
          unyielded = drop (yielded_len st) (reasoning_content st);
          cs = (if unyielded = [] then [] else [mk_thinking unyielded []])
            @ map (streamed_call io (last_signature st)) (sorted_calls m)
      in (flushed now ch (out_content out) held @ [(Some (identified ch (message_new Assistant now cs)), u)],
          st\<lparr>think := f, pending_inline := [], reasoning_content := [], yielded_len := 0\<rparr>))"

definition text_chunk ::
    "int \<Rightarrow> streaming_chunk \<Rightarrow> streaming_choice \<Rightarrow> 's provider_usage option \<Rightarrow> stream_state \<Rightarrow>
     's emitted list \<times> stream_state" where
  "text_chunk now ch c u st =
     (let (shown, st) = (case reasoning_text (choice_delta c) of
            Some r \<Rightarrow> ([mk_thinking r (case last_signature st of Some s \<Rightarrow> s | None \<Rightarrow> [])],
                       st\<lparr>yielded_len := length (reasoning_content st)\<rparr>)
          | None \<Rightarrow> ([], st));
          (text, sig) = extract_content_and_signature (delta_text (choice_delta c));
          st = (case sig of Some s \<Rightarrow> st\<lparr>last_signature := Some s\<rparr> | None \<Rightarrow> st);
          (cs, st) = (case text of
            None \<Rightarrow> (shown, st)
          | Some t \<Rightarrow> (case push_chunk (think st) t of (f, out) \<Rightarrow>
              (shown @ (if out_content out = [] then [] else [mk_text (out_content out)]),
               st\<lparr>think := f, pending_inline := pending_inline st
                  @ (if saw_structured st then [] else out_thinking out)\<rparr>)))
      in (if cs \<noteq> [] then [(Some (identified ch (message_new Assistant now cs)),
                             if finish_reason c \<noteq> None then u else None)]
          else if u \<noteq> None then [(None, u)] else [], st))"

text \<open>The end of the stream: what the filter still holds, and inline thinking where no other came.\<close>

definition stream_end :: "int \<Rightarrow> stream_state \<Rightarrow> 's emitted list" where
  "stream_end now st =
     (let out = finish_filter (think st);
          held = (if saw_structured st then [] else pending_inline st @ out_thinking out);
          cs = (if out_content out = [] then [] else [mk_text (out_content out)])
            @ (if held = [] then [] else [mk_thinking held []])
      in if cs = [] then [] else [(Some (message_new Assistant now cs), None)])"

text \<open>
  The outer loop over the lines; the clock is read as a function of the lines that are left. The result is
  what was emitted and, where the stream fails, the error.
\<close>

lemma collect_calls_shorter:
  "collect_calls io rd ls st m u = Collected ls' st' m' u' \<Longrightarrow> length ls' \<le> length ls"
proof (induction io rd ls st m u rule: collect_calls.induct)
  case (3 io rd s ls st m u)
  then show ?case
    by (fastforce simp: Let_def split: option.splits if_splits sum.splits list.splits)
qed simp_all

function stream_lines ::
    "'e openai_io \<Rightarrow> (json \<Rightarrow> ('e, streaming_chunk) result) \<Rightarrow> (nat \<Rightarrow> int) \<Rightarrow> line list \<Rightarrow> stream_state \<Rightarrow>
     's emitted list \<times> stream_error option" where
  "stream_lines io rd clock [] st = (stream_end (clock 0) st, None)"
| "stream_lines io rd clock (Err e # ls) st = ([], Some (StreamFailed e))"
| "stream_lines io rd clock (Ok s # ls) st = (case strip_data_prefix s of
     None \<Rightarrow> stream_lines io rd clock ls st
   | Some l \<Rightarrow>
       if l = lit ''[DONE]'' then (stream_end (clock (length ls)) st, None)
       else if l = [] then stream_lines io rd clock ls st
       else (case parse_streaming_chunk io rd l of
         Err e \<Rightarrow> ([], Some (ChunkFailed e))
       | Ok ch \<Rightarrow>
           (let st = note_reasoning ch (note_model ch st);
                u = extract_usage_with_output_tokens io ch (last_model st)
            in case choices ch of
                 [] \<Rightarrow> (case stream_lines io rd clock ls st of (out, e) \<Rightarrow> ((None, u) # out, e))
               | c # _ \<Rightarrow>
                   if deltas_of ch \<noteq> [] then
                     (case (if finish_reason c = Some (lit ''tool_calls'')
                            then Collected ls st (fold open_call (deltas_of ch) []) u
                            else collect_calls io rd ls st (fold open_call (deltas_of ch) []) u) of
                        Broken e \<Rightarrow> ([], Some e)
                      | Ended ls' st' \<Rightarrow> (stream_end (clock (length ls')) st', None)
                      | Collected ls' st' m' u' \<Rightarrow>
                          (case emit_calls io (clock (length ls')) ch m' u' st' of (now_out, st'') \<Rightarrow>
                           (case stream_lines io rd clock ls' st'' of (out, e) \<Rightarrow> (now_out @ out, e))))
                   else if delta_text (choice_delta c) \<noteq> None \<or> reasoning_text (choice_delta c) \<noteq> None then
                     (case text_chunk (clock (length ls)) ch c u st of (now_out, st') \<Rightarrow>
                      (case stream_lines io rd clock ls st' of (out, e) \<Rightarrow> (now_out @ out, e)))
                   else (case stream_lines io rd clock ls st of (out, e) \<Rightarrow>
                     ((if u \<noteq> None then [(None, u)] else []) @ out, e)))))"
  by pat_completeness auto
termination
  by (relation "measure (\<lambda>(io, rd, clock, ls, st). length ls)")
    (auto split: if_splits dest!: sym [of "Collected _ _ _ _"] dest: collect_calls_shorter simp: less_Suc_eq_le)

section \<open>How calls are put together\<close>

text \<open>
  What a list of deltas says of one call: the first delta with its index, an identifier and a name opens it,
  every later delta with its index adds a piece of the arguments.
\<close>

definition opens :: "tool_delta \<Rightarrow> bool" where
  "opens d = (delta_index d \<noteq> None \<and> delta_id d \<noteq> None \<and> delta_name d \<noteq> None)"

definition opened_call :: "tool_delta \<Rightarrow> call_data" where
  "opened_call d = (the (delta_id d), the (delta_name d), delta_arguments d, delta_extra d)"

definition add_pieces :: "int \<Rightarrow> tool_delta list \<Rightarrow> call_data \<Rightarrow> call_data" where
  "add_pieces i ds c = (case c of (x, n, args, extra) \<Rightarrow>
     (let own = filter (\<lambda>d. delta_index d = Some i) ds
      in (x, n, args @ concat (map delta_arguments own), fold (\<lambda>d e. merge_extra e (delta_extra d)) own extra)))"

fun assembled :: "int \<Rightarrow> tool_delta list \<Rightarrow> call_data option" where
  "assembled i [] = None"
| "assembled i (d # ds) = (if delta_index d = Some i \<and> opens d
     then Some (add_pieces i ds (opened_call d)) else assembled i ds)"

definition opened_indices :: "tool_delta list \<Rightarrow> int list" where
  "opened_indices ds = sort (remdups (map (the \<circ> delta_index) (filter opens ds)))"

lemma open_call_opens: "open_call d m = (if opens d then AList.update (the (delta_index d)) (opened_call d) m else m)"
  by (auto simp: open_call_def opens_def opened_call_def split: option.splits)

lemma add_pieces_Nil [simp]: "add_pieces i [] c = c"
  by (cases c) (simp add: add_pieces_def)

lemma add_pieces_Cons:
  "add_pieces i (d # ds) (x, n, args, extra) = (if delta_index d = Some i
     then add_pieces i ds (x, n, args @ delta_arguments d, merge_extra extra (delta_extra d))
     else add_pieces i ds (x, n, args, extra))"
  by (simp add: add_pieces_def Let_def)

lemma extend_call_lookup:
  "map_of (extend_call d m) i =
     (if delta_index d = Some i
      then (case map_of m i of
              Some (x, n, args, extra) \<Rightarrow> Some (x, n, args @ delta_arguments d, merge_extra extra (delta_extra d))
            | None \<Rightarrow> if opens d then Some (opened_call d) else None)
      else map_of m i)"
  by (auto simp: extend_call_def open_call_opens update_conv' opens_def opened_call_def split: option.splits)

lemma fold_extend_lookup:
  "map_of (fold extend_call ds m) i = (case map_of m i of Some c \<Rightarrow> Some (add_pieces i ds c) | None \<Rightarrow> assembled i ds)"
proof (induction ds arbitrary: m)
  case Nil
  then show ?case by (simp split: option.splits)
next
  case (Cons d ds)
  show ?case
    by (auto simp: Cons.IH extend_call_lookup add_pieces_Cons opens_def split: option.splits)
qed

lemma distinct_update [simp]: "distinct (map fst m) \<Longrightarrow> distinct (map fst (AList.update k v m))"
  by (rule distinct_update)

lemma open_call_distinct [simp]: "distinct (map fst m) \<Longrightarrow> distinct (map fst (open_call d m))"
  by (simp add: open_call_opens)

lemma extend_call_distinct [simp]: "distinct (map fst m) \<Longrightarrow> distinct (map fst (extend_call d m))"
  by (auto simp: extend_call_def split: option.splits)

lemma fold_extend_distinct: "distinct (map fst m) \<Longrightarrow> distinct (map fst (fold extend_call ds m))"
  by (induction ds arbitrary: m) simp_all

lemma extend_call_keys:
  "fst ` set (extend_call d m) = fst ` set m \<union> (if opens d then {the (delta_index d)} else {})"
proof -
  have "dom (map_of (extend_call d m)) = dom (map_of m) \<union> (if opens d then {the (delta_index d)} else {})"
    by (auto simp: dom_def extend_call_lookup opens_def opened_call_def split: option.splits if_splits)
  then show ?thesis by (simp only: dom_map_of_conv_image_fst)
qed

lemma fold_extend_keys:
  "fst ` set (fold extend_call ds m) = fst ` set m \<union> set (map (the \<circ> delta_index) (filter opens ds))"
  by (induction ds arbitrary: m) (auto simp: extend_call_keys)

text \<open>In one chunk without a repeated index, opening and extending are the same.\<close>

lemma fold_open_extend:
  assumes "distinct (map delta_index (filter opens ds))" "\<forall>d \<in> set ds. opens d"
    and "\<forall>d \<in> set ds. the (delta_index d) \<notin> fst ` set m"
  shows "fold open_call ds m = fold extend_call ds m"
  using assms
proof (induction ds arbitrary: m)
  case (Cons d ds)
  have new: "map_of m (the (delta_index d)) = None" and o: "opens d"
    using Cons.prems by (auto simp: map_of_eq_None_iff)
  then have same: "extend_call d m = open_call d m"
    by (auto simp: extend_call_def opens_def)
  have "the (delta_index e) \<notin> fst ` set (open_call d m)" if "e \<in> set ds" for e
  proof -
    have "opens e" "delta_index e \<noteq> delta_index d" "the (delta_index e) \<notin> fst ` set m"
      using Cons.prems that by (auto simp: image_iff)
    then show ?thesis using o extend_call_keys [of d m] by (auto simp: same opens_def)
  qed
  then show ?case using Cons same by simp
qed simp

lemma sorted_calls_lookup:
  assumes "distinct (map fst m)"
  shows "sorted_calls m = map (\<lambda>i. the (map_of m i)) (sort (map fst m))"
proof -
  have "map fst (sort_key fst m) = sort (map fst m)"
    by (rule sorted_distinct_set_unique) (use assms in \<open>simp_all add: distinct_map\<close>)
  moreover have "map snd (sort_key fst m) = map (\<lambda>i. the (map_of m i)) (map fst (sort_key fst m))"
    using assms by (auto intro!: map_cong simp: map_of_is_SomeI)
  ultimately show ?thesis by (simp add: sorted_calls_def)
qed

lemma sorted_calls_assembled:
  "sorted_calls (fold extend_call ds []) = map (\<lambda>i. the (assembled i ds)) (opened_indices ds)"
proof -
  have d: "distinct (map fst (fold extend_call ds []))"
    by (rule fold_extend_distinct) simp
  have "sort (map fst (fold extend_call ds [])) = opened_indices ds"
    unfolding opened_indices_def
    by (rule sorted_distinct_set_unique) (use d fold_extend_keys [of ds "[]"] in auto)
  then show ?thesis using sorted_calls_lookup [OF d] by (simp add: fold_extend_lookup)
qed

lemma stream_lines_calls:
  assumes "strip_data_prefix s = Some l" "l \<noteq> []" "l \<noteq> lit ''[DONE]''" "parse_streaming_chunk io rd l = Ok ch"
    "choices ch = c # cs" "deltas_of ch \<noteq> []"
  shows "stream_lines io rd clock (Ok s # ls) st =
    (let st1 = note_reasoning ch (note_model ch st); u = extract_usage_with_output_tokens io ch (last_model st1) in
     case (if finish_reason c = Some (lit ''tool_calls'') then Collected ls st1 (fold open_call (deltas_of ch) []) u
           else collect_calls io rd ls st1 (fold open_call (deltas_of ch) []) u) of
       Broken e \<Rightarrow> ([], Some e)
     | Ended ls' st' \<Rightarrow> (stream_end (clock (length ls')) st', None)
     | Collected ls' st' m' u' \<Rightarrow>
         (case emit_calls io (clock (length ls')) ch m' u' st' of (now_out, st'') \<Rightarrow>
          (case stream_lines io rd clock ls' st'' of (out, e) \<Rightarrow> (now_out @ out, e))))"
  by (simp only: stream_lines.simps assms(1,4,5) option.case sum.case list.case if_not_P [OF assms(2)]
      if_not_P [OF assms(3)] if_P [OF assms(6)] Let_def)

definition requests :: "message \<Rightarrow> message_content list" where
  "requests m = filter (\<lambda>c. as_tool_request c \<noteq> None) (content m)"

lemma requests_of_calls:
  "requests (identified ch (message_new Assistant now
      ((if b then [] else [mk_thinking t s]) @ map (streamed_call io sig) xs))) = map (streamed_call io sig) xs"
  by (simp add: requests_def identified_def with_id_def message_new_def mk_thinking_def streamed_call_def
      mk_tool_request_with_metadata_def filter_map o_def split: option.splits prod.splits)

lemma emit_calls_requests:
  obtains pre msg st'' where "emit_calls io now ch m u st = (pre @ [(Some msg, u)], st'')"
    "requests msg = map (streamed_call io (last_signature st)) (sorted_calls m)"
  using that requests_of_calls
  by (fastforce simp: emit_calls_def Let_def split: prod.splits)

text \<open>
  The chunk a line brings, and the lines between the first calls and the chunk that ends them: each brings
  nothing, or a chunk whose choice has no finish reason.
\<close>

definition line_chunk :: "'e openai_io \<Rightarrow> (json \<Rightarrow> ('e, streaming_chunk) result) \<Rightarrow> str \<Rightarrow> streaming_chunk option" where
  "line_chunk io rd s = (case strip_data_prefix s of
     None \<Rightarrow> None
   | Some l \<Rightarrow> if l = [] \<or> l = lit ''[DONE]'' then None
       else (case parse_streaming_chunk io rd l of Err e \<Rightarrow> None | Ok ch \<Rightarrow> Some ch))"

definition goes_on_calling :: "'e openai_io \<Rightarrow> (json \<Rightarrow> ('e, streaming_chunk) result) \<Rightarrow> str \<Rightarrow> bool" where
  "goes_on_calling io rd s = (strip_data_prefix s = None
     \<or> (\<exists>ch c cs. line_chunk io rd s = Some ch \<and> choices ch = c # cs \<and> finish_reason c = None))"

definition chunks_in :: "'e openai_io \<Rightarrow> (json \<Rightarrow> ('e, streaming_chunk) result) \<Rightarrow> str list \<Rightarrow> streaming_chunk list" where
  "chunks_in io rd ts = List.map_filter (line_chunk io rd) ts"

definition noted :: "streaming_chunk list \<Rightarrow> stream_state \<Rightarrow> stream_state" where
  "noted chs st = fold (\<lambda>ch st. note_reasoning ch (note_model ch st)) chs st"

lemma line_chunk_Some:
  "line_chunk io rd s = Some ch \<Longrightarrow>
   \<exists>l. strip_data_prefix s = Some l \<and> l \<noteq> [] \<and> l \<noteq> lit ''[DONE]'' \<and> parse_streaming_chunk io rd l = Ok ch"
  by (auto simp: line_chunk_def simp del: lit_Cons split: option.splits if_splits sum.splits)

lemma collect_calls_skip: "strip_data_prefix s = None \<Longrightarrow> collect_calls io rd (Ok s # ls) st m u = collect_calls io rd ls st m u"
  by simp

lemma collect_calls_chunk:
  assumes "line_chunk io rd s = Some ch" "choices ch = c # cs"
  shows "\<exists>u'. collect_calls io rd (Ok s # ls) st m u =
    (if finish_reason c \<noteq> None
     then Collected ls (note_reasoning ch (note_model ch st)) (fold extend_call (deltas_of ch) m) u'
     else collect_calls io rd ls (note_reasoning ch (note_model ch st)) (fold extend_call (deltas_of ch) m) u')"
proof -
  from assms(1) obtain l where l: "strip_data_prefix s = Some l" "l \<noteq> []" "l \<noteq> lit ''[DONE]''"
    "parse_streaming_chunk io rd l = Ok ch" by (blast dest: line_chunk_Some)
  show ?thesis
    by (intro exI [of _ "or_else (extract_usage_with_output_tokens io ch (last_model (note_model ch st))) u"])
       (simp only: collect_calls.simps l option.case sum.case list.case assms(2) if_False Let_def)
qed

lemma collect_calls_gathers:
  assumes "list_all (goes_on_calling io rd) mid" "line_chunk io rd end_line = Some ch" "choices ch = c # cs" "finish_reason c \<noteq> None"
  shows "\<exists>u'. collect_calls io rd (map Ok mid @ Ok end_line # ls) st m u
    = Collected ls (noted (chunks_in io rd mid @ [ch]) st)
        (fold extend_call (concat (map deltas_of (chunks_in io rd mid @ [ch]))) m) u'"
  using assms(1)
proof (induction mid arbitrary: st m u)
  case Nil
  show ?case
    using collect_calls_chunk [OF assms(2,3), of ls st m u] assms(4)
    by (simp add: chunks_in_def noted_def map_filter_simps)
next
  case (Cons t mid)
  show ?case
  proof (cases "strip_data_prefix t = None")
    case True
    then have "line_chunk io rd t = None" by (simp add: line_chunk_def)
    with True Cons.IH [of st m u] Cons.prems show ?thesis
      by (simp only: collect_calls_skip list.map append_Cons chunks_in_def map_filter_simps option.case list.pred_inject)
  next
    case False
    with Cons.prems obtain d k ks where d: "line_chunk io rd t = Some d" "choices d = k # ks" "finish_reason k = None"
      by (auto simp: goes_on_calling_def)
    from collect_calls_chunk [OF d(1,2), of "map Ok mid @ Ok end_line # ls" st m u] d(3) obtain u1 where
      "collect_calls io rd (Ok t # map Ok mid @ Ok end_line # ls) st m u
       = collect_calls io rd (map Ok mid @ Ok end_line # ls) (note_reasoning d (note_model d st)) (fold extend_call (deltas_of d) m) u1"
      by auto
    with Cons.IH [of "note_reasoning d (note_model d st)" "fold extend_call (deltas_of d) m" u1] Cons.prems d(1)
    show ?thesis by (simp add: chunks_in_def noted_def map_filter_simps del: collect_calls.simps)
  qed
qed

text \<open>
  C14. A streamed answer whose calls arrive in pieces: where the first event with calls brings the index, the
  identifier and the name of each of its calls, with no index twice, and the events behind it go on until one has a
  finish reason, one message comes out with one request for each index that was opened, in ascending order, its
  identifier and name those of its first event and its arguments the pieces of that index in the order they came.
\<close>

theorem streamed_calls_assembled:
  assumes "line_chunk io rd s = Some ch" "choices ch = c # cs" "deltas_of ch \<noteq> []"
    "finish_reason c \<noteq> Some (lit ''tool_calls'')"
    "distinct (map delta_index (deltas_of ch))" "\<forall>d \<in> set (deltas_of ch). opens d"
    "list_all (goes_on_calling io rd) mid"
    "line_chunk io rd end_line = Some ch'" "choices ch' = c' # cs'" "finish_reason c' \<noteq> None"
    "chs = ch # chunks_in io rd mid @ [ch']" "ds = concat (map deltas_of chs)"
  shows "\<exists>pre msg (u :: 's provider_usage option) post. fst (stream_lines io rd clock (Ok s # map Ok mid @ Ok end_line # ls) st) = pre @ (Some msg, u) # post
    \<and> requests msg = map (\<lambda>i. streamed_call io (last_signature (noted chs st)) (the (assembled i ds))) (opened_indices ds)"
proof -
  let ?st1 = "note_reasoning ch (note_model ch st)"
  obtain l where l: "strip_data_prefix s = Some l" "l \<noteq> []" "l \<noteq> lit ''[DONE]''" "parse_streaming_chunk io rd l = Ok ch"
    using assms(1) by (blast dest: line_chunk_Some)
  define ms where "ms = fold extend_call (concat (map deltas_of (chunks_in io rd mid @ [ch']))) (fold open_call (deltas_of ch) [])"
  obtain u' :: "'s provider_usage option" where col: "collect_calls io rd (map Ok mid @ Ok end_line # ls) ?st1 (fold open_call (deltas_of ch) [])
      (extract_usage_with_output_tokens io ch (last_model ?st1))
    = Collected ls (noted (chunks_in io rd mid @ [ch']) ?st1) ms u'"
    unfolding ms_def using collect_calls_gathers [OF assms(7-10)] by blast
  have st: "noted (chunks_in io rd mid @ [ch']) ?st1 = noted chs st" by (simp add: noted_def assms(11))
  have "fold open_call (deltas_of ch) [] = fold extend_call (deltas_of ch) []"
    by (rule fold_open_extend) (use assms(5,6) in \<open>auto simp: distinct_map intro: inj_on_subset\<close>)
  then have m: "ms = fold extend_call ds []" by (simp add: ms_def assms(11,12))
  obtain pre msg st'' where e: "emit_calls io (clock (length ls)) ch ms u' (noted chs st) = (pre @ [(Some msg, u')], st'')"
    and r: "requests msg = map (streamed_call io (last_signature (noted chs st))) (sorted_calls ms)"
    by (rule emit_calls_requests)
  have "\<exists>post. fst (stream_lines io rd clock (Ok s # map Ok mid @ Ok end_line # ls) st) = pre @ (Some msg, u') # post"
    using assms(4) by (simp add: stream_lines_calls [OF l assms(2,3)] col st Let_def e
        del: stream_lines.simps split: prod.splits)
  moreover have "requests msg = map (\<lambda>i. streamed_call io (last_signature (noted chs st)) (the (assembled i ds))) (opened_indices ds)"
    by (simp only: r m sorted_calls_assembled map_map o_def)
  ultimately show ?thesis by blast
qed

text \<open>Two calls: the second is opened first, and the chunk that ends the calls brings the rest of both.\<close>

definition sample_delta :: "int \<Rightarrow> string \<Rightarrow> string \<Rightarrow> tool_delta" where
  "sample_delta i n a = \<lparr>delta_index = Some i, delta_id = (if n = [] then None else Some (lit n)),
     delta_name = (if n = [] then None else Some (lit n)), delta_arguments = lit a, delta_extra = None\<rparr>"

definition sample_chunk :: "tool_delta list \<Rightarrow> string option \<Rightarrow> streaming_chunk" where
  "sample_chunk ds f = \<lparr>choices = [\<lparr>choice_delta = \<lparr>delta_text = None, delta_calls = Some ds, delta_details = None,
     delta_reasoning = None, delta_reasoning_content = None\<rparr>, finish_reason = map_option lit f\<rparr>],
     chunk_id = None, chunk_usage = None, chunk_model = None\<rparr>"

definition sample_io :: "unit openai_io" where
  "sample_io = \<lparr>parse_json = \<lambda>s. Ok (JString s), show_json_error = \<lambda>_. [], rmcp_object = \<lambda>v. [([], v)],
     show_debug = id, as_i64 = \<lambda>_. None\<rparr>"

definition sample_read :: "json \<Rightarrow> (unit, streaming_chunk) result" where
  "sample_read v = Ok (if v = JString (lit ''a'')
     then sample_chunk [sample_delta 1 ''grep'' ''{'', sample_delta 0 ''ls'' ''[''] None
     else sample_chunk [sample_delta 0 [] '']'', sample_delta 1 [] ''}''] (Some ''tool_calls''))"

theorem streamed_calls_assembled_witness:
  "\<exists>pre msg u post. fst (stream_lines sample_io sample_read (\<lambda>_. 0) [Ok (lit ''data: a''), Ok (lit ''data: b'')] stream_start)
       = pre @ (Some msg, u :: unit provider_usage option) # post
     \<and> requests msg = [streamed_call sample_io None (lit ''ls'', lit ''ls'', lit ''[]'', None),
                      streamed_call sample_io None (lit ''grep'', lit ''grep'', lit ''{}'', None)]"
proof -
  let ?a = "sample_chunk [sample_delta 1 ''grep'' ''{'', sample_delta 0 ''ls'' ''[''] None"
  let ?rest = "[sample_delta 0 [] '']'', sample_delta 1 [] ''}'']"
  let ?b = "sample_chunk ?rest (Some ''tool_calls'')"
  note defs = sample_chunk_def sample_delta_def deltas_of_def opens_def parse_streaming_chunk_def sample_io_def
    sample_read_def
  have "strip_prefix (lit ''data: a'') (lit ''data: '') = Some (lit ''a'')"
    "strip_prefix (lit ''data: b'') (lit ''data: '') = Some (lit ''b'')" by simp_all
  moreover have "trim (lit ''a'') = lit ''a''" "trim (lit ''b'') = lit ''b''"
    by (rule trim_id; simp add: is_ws_def)+
  ultimately have s: "strip_data_prefix (lit ''data: a'') = Some (lit ''a'')"
    "strip_data_prefix (lit ''data: b'') = Some (lit ''b'')"
    by (simp_all only: strip_data_prefix_def or_else_def option.case option.map)
  have ch: "line_chunk sample_io sample_read (lit ''data: a'') = Some ?a"
    "line_chunk sample_io sample_read (lit ''data: b'') = Some ?b"
    unfolding line_chunk_def s option.case by (simp_all add: defs)
  have p: "choices ?a = [hd (choices ?a)]" "deltas_of ?a \<noteq> []" "finish_reason (hd (choices ?a)) \<noteq> Some (lit ''tool_calls'')"
    "distinct (map delta_index (deltas_of ?a))" "\<forall>d \<in> set (deltas_of ?a). opens d"
    "list_all (goes_on_calling sample_io sample_read) []"
    "choices ?b = [hd (choices ?b)]" "finish_reason (hd (choices ?b)) \<noteq> None"
    by (simp_all add: defs)
  have d: "concat (map deltas_of (?a # chunks_in sample_io sample_read [] @ [?b])) = deltas_of ?a @ ?rest"
    by (simp add: chunks_in_def map_filter_simps) (simp add: defs)
  have o: "opened_indices (deltas_of ?a @ ?rest) = [0, 1]"
    by (simp add: defs opened_indices_def)
  have t: "assembled 0 (deltas_of ?a @ ?rest) = Some (lit ''ls'', lit ''ls'', lit ''[]'', None)"
    "assembled 1 (deltas_of ?a @ ?rest) = Some (lit ''grep'', lit ''grep'', lit ''{}'', None)"
    by (simp_all add: defs opened_call_def add_pieces_def merge_extra_def)
  have l: "last_signature (noted (?a # chunks_in sample_io sample_read [] @ [?b]) stream_start) = None"
    by (simp add: defs chunks_in_def noted_def map_filter_simps note_model_def note_reasoning_def reasoning_text_def
        nonempty_def or_else_def stream_start_def)
  show ?thesis
    using streamed_calls_assembled [OF ch(1) p(1-6) ch(2) p(7,8) refl refl, of "\<lambda>_. 0" "[]" stream_start]
    by (simp only: d o t l) (simp only: list.map t option.sel append_Nil)
qed

text \<open>It does not matter how a service cuts the arguments of a call into pieces.\<close>

theorem pieces_may_be_cut_anywhere:
  "extend_call (d\<lparr>delta_arguments := b, delta_extra := None\<rparr>) (extend_call (d\<lparr>delta_arguments := a\<rparr>) m)
     = extend_call (d\<lparr>delta_arguments := a @ b\<rparr>) m"
  by (auto simp: extend_call_def open_call_def merge_extra_def update_conv' split: option.splits)

text \<open>Inside the calls the end marker drops them: nothing that was collected is emitted.\<close>

lemma done_inside_calls_drops_them:
  assumes "collect_calls io rd ls (note_reasoning ch (note_model ch st)) (fold open_call (deltas_of ch) [])
       (extract_usage_with_output_tokens io ch (last_model (note_reasoning ch (note_model ch st))) :: 's provider_usage option)
     = Ended ls' st'"
    "strip_data_prefix s = Some l" "l \<noteq> []" "l \<noteq> lit ''[DONE]''" "parse_streaming_chunk io rd l = Ok ch"
    "choices ch = c # cs" "deltas_of ch \<noteq> []" "finish_reason c \<noteq> Some (lit ''tool_calls'')"
    "(Some msg, v :: 's provider_usage option) \<in> set (fst (stream_lines io rd clock (Ok s # ls) st))"
  shows "requests msg = []"
proof -
  have "stream_lines io rd clock (Ok s # ls) st = (stream_end (clock (length ls')) st' :: 's emitted list, None)"
    by (simp only: stream_lines_calls [OF assms(2-7)] Let_def if_not_P [OF assms(8)] assms(1) collected.case(2))
  then show ?thesis using assms(9)
    by (auto simp: stream_end_def Let_def requests_def message_new_def mk_text_def mk_thinking_def split: if_splits)
qed

end
