(* ===== verification/Images.thy ===== *)
theory Images
  imports Message ProviderRetry
begin

text \<open>
  Images in messages, \<open>crates/bharatcode-providers/src/images.rs\<close>: how an image is sent, and how a path to an
  image is found in a text and its file loaded. The file system and the base64 crate are the record \<open>image_io\<close>.
  Offsets are in characters; where the source measures bytes, \<open>byte_len\<close> does.
\<close>

datatype image_format = OpenAiImages | AnthropicImages

text \<open>\<open>read_head\<close>: a file opened and one read into eight zero bytes; \<open>None\<close> where either fails.\<close>

record image_io =
  is_file :: "str \<Rightarrow> bool"
  read_head :: "str \<Rightarrow> nat list option"
  read_file :: "str \<Rightarrow> (str, nat list) result"
  encode_base64 :: "nat list \<Rightarrow> str"
  lowercase_of :: "str \<Rightarrow> str"

definition convert_image :: "image_content \<Rightarrow> image_format \<Rightarrow> json" where
  "convert_image i f = (case f of
     OpenAiImages \<Rightarrow> JObject [(lit ''type'', JString (lit ''image_url'')),
       (lit ''image_url'', JObject [(lit ''url'', JString (lit ''data:'' @ mime_type i @ lit '';base64,'' @ image_data i))])]
   | AnthropicImages \<Rightarrow> JObject [(lit ''type'', JString (lit ''image'')),
       (lit ''source'', JObject [(lit ''type'', JString (lit ''base64'')), (lit ''media_type'', JString (mime_type i)),
         (lit ''data'', JString (image_data i))])])"

section \<open>Finding a path\<close>

definition EXTENSIONS :: "str list" where
  "EXTENSIONS = [lit ''.png'', lit ''.jpg'', lit ''.jpeg'']"

definition MAX_PATH_LEN :: nat where "MAX_PATH_LEN = 4096"

definition find_ascii_ci :: "str \<Rightarrow> str \<Rightarrow> nat \<Rightarrow> nat option" where
  "find_ascii_ci h n from =
     (if n = [] \<or> length h < length n \<or> length h - length n < from then None
      else find (\<lambda>i. eq_ignore_ascii_case (take (length n) (drop i h)) n) [from..<Suc (length h - length n)])"

text \<open>The first end of an extension at or after \<open>from\<close>.\<close>

definition extension_end :: "str \<Rightarrow> nat \<Rightarrow> nat option" where
  "extension_end t from =
     (case List.map_filter (\<lambda>e. map_option (\<lambda>i. i + length e) (find_ascii_ci t e from)) EXTENSIONS of
        [] \<Rightarrow> None | n # ns \<Rightarrow> Some (min_list (n # ns)))"

definition is_path_boundary :: "uchar \<Rightarrow> bool" where
  "is_path_boundary c = (is_ws c \<or> c = 34 \<or> c = 39)"

definition terminated_at :: "str \<Rightarrow> nat \<Rightarrow> bool" where
  "terminated_at t n = (case drop n t of [] \<Rightarrow> True | c # _ \<Rightarrow> c = 47 \<or> is_path_boundary c)"

definition is_image_file :: "image_io \<Rightarrow> str \<Rightarrow> bool" where
  "is_image_file io p = (case read_head io p of
     Some (a # b # c # d # _) \<Rightarrow> (a, b, c, d) = (137, 80, 78, 71) \<or> (a, b, c) = (255, 216, 255)
       \<or> (a, b, c, d) = (71, 73, 70, 56)
   | _ \<Rightarrow> False)"

definition piece :: "str \<Rightarrow> nat \<Rightarrow> nat \<Rightarrow> str" where
  "piece t a b = take (b - a) (drop a t)"

text \<open>A slash after a boundary, at most 4096 bytes before the end, from which the text is an image file's path.\<close>

definition path_starts :: "image_io \<Rightarrow> str \<Rightarrow> nat \<Rightarrow> nat \<Rightarrow> bool" where
  "path_starts io t stop start =
     (t ! start = 47 \<and> byte_len (piece t start stop) \<le> MAX_PATH_LEN
      \<and> (start = 0 \<or> is_path_boundary (t ! (start - 1)))
      \<and> is_file io (piece t start stop) \<and> is_image_file io (piece t start stop))"

definition extend_best :: "(nat \<times> str) option \<Rightarrow> nat \<Rightarrow> str \<Rightarrow> (nat \<times> str) option" where
  "extend_best best start candidate = (case best of
     None \<Rightarrow> Some (start, candidate)
   | Some (first, _) \<Rightarrow> if start = first then Some (start, candidate) else best)"

definition consider_end :: "image_io \<Rightarrow> str \<Rightarrow> nat \<Rightarrow> (nat \<times> str) option \<Rightarrow> (nat \<times> str) option" where
  "consider_end io t stop best =
     (if terminated_at t stop
      then (case find (path_starts io t stop) [0..<stop] of
          Some start \<Rightarrow> extend_best best start (piece t start stop) | None \<Rightarrow> best)
      else best)"

lemma find_ascii_ci_bounds: "find_ascii_ci h n from = Some i \<Longrightarrow> from \<le> i \<and> i + length n \<le> length h \<and> n \<noteq> []"
  by (auto simp: find_ascii_ci_def find_Some_iff split: if_splits simp del: upt_Suc dest!: find_Some_mem)

lemma extension_end_bounds: "extension_end t from = Some n \<Longrightarrow> from < n \<and> n \<le> length t"
proof -
  assume e: "extension_end t from = Some n"
  let ?ns = "List.map_filter (\<lambda>e. map_option (\<lambda>i. i + length e) (find_ascii_ci t e from)) EXTENSIONS"
  have "?ns \<noteq> []" "n = min_list ?ns" using e by (auto simp: extension_end_def split: list.splits)
  then have "n \<in> set ?ns" by (metis min_list_Min Min_in finite_set set_empty)
  then obtain x i where "find_ascii_ci t x from = Some i" "n = i + length x"
    by (auto simp: map_filter_def)
  then show ?thesis using find_ascii_ci_bounds [of t x "from" i] by (cases x) auto
qed

function detect_from :: "image_io \<Rightarrow> str \<Rightarrow> nat \<Rightarrow> (nat \<times> str) option \<Rightarrow> (nat \<times> str) option" where
  "detect_from io t from best =
     (if from < length t
      then (case extension_end t from of
          None \<Rightarrow> best
        | Some stop \<Rightarrow> detect_from io t stop (consider_end io t stop best))
      else best)"
  by pat_completeness auto
termination
  by (relation "measure (\<lambda>(io, t, from, best). length t - from)") (auto dest!: extension_end_bounds)

declare detect_from.simps [simp del]

definition detect_image_path :: "image_io \<Rightarrow> str \<Rightarrow> str option" where
  "detect_image_path io t = map_option snd (detect_from io t 0 None)"

section \<open>Loading\<close>

text \<open>\<open>Path::extension\<close>.\<close>

definition path_extension :: "str \<Rightarrow> str option" where
  "path_extension p = (case filter (\<lambda>c. c \<noteq> [] \<and> c \<noteq> [46]) (split_on 47 p) of
     [] \<Rightarrow> None
   | cs \<Rightarrow> (let parts = split_on 46 (last cs) in
       if last cs = [46, 46] \<or> length parts = 1 \<or> (length parts = 2 \<and> hd parts = []) then None
       else Some (last parts)))"

definition request_failed :: "string \<Rightarrow> provider_error" where
  "request_failed s = RequestFailed (lit s)"

definition image_mime :: "image_io \<Rightarrow> str \<Rightarrow> (provider_error, str) result" where
  "image_mime io p = (case path_extension p of
     None \<Rightarrow> Err (request_failed ''Unknown image format'')
   | Some e \<Rightarrow> (let l = lowercase_of io e in
       if l = lit ''png'' then Ok (lit ''image/png'')
       else if l = lit ''jpg'' \<or> l = lit ''jpeg'' then Ok (lit ''image/jpeg'')
       else Err (request_failed ''Unsupported image format'')))"

definition load_image_file :: "image_io \<Rightarrow> str \<Rightarrow> (provider_error, image_content) result" where
  "load_image_file io p =
     (if \<not> is_image_file io p then Err (request_failed ''File is not a valid image'')
      else case read_file io p of
        Err e \<Rightarrow> Err (RequestFailed (lit ''Failed to read image file: '' @ e))
      | Ok bytes \<Rightarrow> (case image_mime io p of
          Err e \<Rightarrow> Err e
        | Ok m \<Rightarrow> Ok \<lparr>image_data = encode_base64 io bytes, mime_type = m, image_audience = None\<rparr>))"

section \<open>What is found\<close>

definition image_path_in :: "image_io \<Rightarrow> str \<Rightarrow> nat \<times> str \<Rightarrow> bool" where
  "image_path_in io t c = (case c of (start, p) \<Rightarrow>
     (\<exists>stop. start < stop \<and> stop \<le> length t \<and> p = piece t start stop \<and> path_starts io t stop start \<and> terminated_at t stop))"

lemma consider_end_keeps:
  "stop \<le> length t \<Longrightarrow> pred_option (image_path_in io t) best \<Longrightarrow> pred_option (image_path_in io t) (consider_end io t stop best)"
  by (fastforce simp: consider_end_def extend_best_def image_path_in_def find_Some_iff split: option.splits dest: find_Some_mem)

lemma detect_from_keeps:
  "pred_option (image_path_in io t) best \<Longrightarrow> pred_option (image_path_in io t) (detect_from io t from best)"
proof (induction io t "from" best rule: detect_from.induct)
  case (1 io t "from" best)
  show ?case
  proof (cases "from < length t \<and> extension_end t from \<noteq> None")
    case True
    then obtain stop where s: "extension_end t from = Some stop" and f: "from < length t" by auto
    then have "pred_option (image_path_in io t) (consider_end io t stop best)"
      using consider_end_keeps [OF _ "1.prems"] extension_end_bounds by blast
    from "1.IH" [OF f s this] show ?thesis by (subst detect_from.simps) (simp add: f s)
  next
    case False
    then show ?thesis using "1.prems" by (subst detect_from.simps) (auto split: option.splits)
  qed
qed

text \<open>Only an image file the text names by an absolute path between boundaries is taken.\<close>

lemma detected_path_is_image:
  assumes "detect_image_path io t = Some p"
  shows "\<exists>a b. t = a @ p @ b \<and> hd p = 47 \<and> is_file io p \<and> is_image_file io p \<and> byte_len p \<le> MAX_PATH_LEN
    \<and> (a = [] \<or> is_path_boundary (last a)) \<and> (b = [] \<or> hd b = 47 \<or> is_path_boundary (hd b))"
proof -
  obtain start where "detect_from io t 0 None = Some (start, p)"
    using assms by (auto simp: detect_image_path_def)
  then have "image_path_in io t (start, p)" using detect_from_keeps [of io t None 0] by simp
  then obtain stop where s: "start < stop" "stop \<le> length t" "p = piece t start stop" "path_starts io t stop start"
      "terminated_at t stop"
    by (auto simp: image_path_in_def)
  have "t = take start t @ p @ drop stop t"
    by (metis s(1,3) append_take_drop_id drop_drop le_add_diff_inverse2 less_imp_le piece_def)
  moreover have "hd p = t ! start" using s by (simp add: piece_def hd_drop_conv_nth)
  moreover have "start = 0 \<or> last (take start t) = t ! (start - 1)"
    using s by (cases start) (simp_all add: take_Suc_conv_app_nth)
  ultimately show ?thesis
    using s by (intro exI [of _ "take start t"] exI [of _ "drop stop t"])
      (auto simp: path_starts_def terminated_at_def split: list.splits)
qed

end
