(* ===== verification/CanonicalNames.thy ===== *)
theory CanonicalNames
  imports Prelude
begin

text \<open>
  Model names, \<open>crates/bharatcode-providers/src/canonical/name_builder.rs\<close> and \<open>registry.rs\<close>: how the many
  spellings of a model are brought to the one the registry of known models has. The regular expressions are
  written out as functions on texts; \<open>digit\<close> and \<open>lower\<close> are the Unicode tables behind their \<open>\d\<close> and behind
  \<open>str::to_lowercase\<close>.
\<close>

section \<open>Version suffixes\<close>

text \<open>\<open>-(\d)-(\d)(-|@|$)\<close>, replaced with \<open>-$1.$2$3\<close>; matches do not overlap.\<close>

definition version_at :: "(uchar \<Rightarrow> bool) \<Rightarrow> str \<Rightarrow> (str \<times> str) option" where
  "version_at digit s = (case s of
     m # a # n # b # r \<Rightarrow>
       if m = 45 \<and> digit a \<and> n = 45 \<and> digit b
       then (case r of [] \<Rightarrow> Some ([45, a, 46, b], [])
             | c # r' \<Rightarrow> if c = 45 \<or> c = 64 then Some ([45, a, 46, b, c], r') else None)
       else None
   | _ \<Rightarrow> None)"

lemma version_at_shorter: "version_at digit s = Some (v, r) \<Longrightarrow> length r < length s \<and> length v + length r = length s"
  by (auto simp: version_at_def split: list.splits if_splits)

function normalize_version :: "(uchar \<Rightarrow> bool) \<Rightarrow> str \<Rightarrow> str" where
  "normalize_version digit s = (case s of [] \<Rightarrow> []
   | c # r \<Rightarrow> (case version_at digit s of
       Some (v, r') \<Rightarrow> v @ normalize_version digit r' | None \<Rightarrow> c # normalize_version digit r))"
  by pat_completeness auto
termination
  by (relation "measure (\<lambda>(d, s). length s)") (auto dest: version_at_shorter)

declare normalize_version.simps [simp del]

text \<open>
  A pattern that is anchored at the end and has a fixed length is a test of the last characters;
  replacing it with nothing drops them.
\<close>

datatype suffix_char = Exactly uchar | AnyDigit

definition char_fits :: "(uchar \<Rightarrow> bool) \<Rightarrow> suffix_char \<Rightarrow> uchar \<Rightarrow> bool" where
  "char_fits digit p c = (case p of Exactly d \<Rightarrow> c = d | AnyDigit \<Rightarrow> digit c)"

definition suffix_of :: "string \<Rightarrow> suffix_char list" where
  "suffix_of s = map (\<lambda>c. if c = CHR ''d'' then AnyDigit else Exactly (of_char c)) s"

definition STRIP_PATTERNS :: "suffix_char list list" where
  "STRIP_PATTERNS = [map Exactly (lit ''-latest''), suffix_of ''-dddddddd'', suffix_of ''@dddddddd'', suffix_of ''-dddd'',
     suffix_of ''-dddd-dd-dd'', map Exactly (lit ''-bedrock'')]"

definition has_suffix :: "(uchar \<Rightarrow> bool) \<Rightarrow> suffix_char list \<Rightarrow> str \<Rightarrow> bool" where
  "has_suffix digit p s = (length p \<le> length s \<and> list_all2 (char_fits digit) p (drop (length s - length p) s))"

definition strip_pattern :: "(uchar \<Rightarrow> bool) \<Rightarrow> suffix_char list \<Rightarrow> str \<Rightarrow> str" where
  "strip_pattern digit p s = (if has_suffix digit p s then take (length s - length p) s else s)"

definition strip_round :: "(uchar \<Rightarrow> bool) \<Rightarrow> str \<Rightarrow> str" where
  "strip_round digit s = fold (strip_pattern digit) STRIP_PATTERNS s"

lemma strip_pattern_prefix: "prefix (strip_pattern digit p s) s"
  by (auto simp: strip_pattern_def take_is_prefix)

lemma fold_strip_prefix: "prefix (fold (strip_pattern digit) ps s) s"
  by (induction ps arbitrary: s) (simp_all, meson prefix_order.trans strip_pattern_prefix)

lemma strip_round_prefix: "prefix (strip_round digit s) s"
  by (simp only: strip_round_def fold_strip_prefix)

lemma strip_round_shorter: "strip_round digit s \<noteq> s \<Longrightarrow> length (strip_round digit s) < length s"
  by (metis prefix_length_less strict_prefixI strip_round_prefix)

function strip_suffixes :: "(uchar \<Rightarrow> bool) \<Rightarrow> str \<Rightarrow> str" where
  "strip_suffixes digit s = (if strip_round digit s = s then s else strip_suffixes digit (strip_round digit s))"
  by pat_completeness auto
termination
  by (relation "measure (\<lambda>(d, s). length s)") (auto intro: strip_round_shorter)

declare strip_suffixes.simps [simp del]

definition strip_version_suffix :: "(uchar \<Rightarrow> bool) \<Rightarrow> str \<Rightarrow> str" where
  "strip_version_suffix digit m = strip_suffixes digit (normalize_version digit m)"

definition canonical_name :: "(uchar \<Rightarrow> bool) \<Rightarrow> str \<Rightarrow> str \<Rightarrow> str" where
  "canonical_name digit provider m = provider @ lit ''/'' @ strip_version_suffix digit m"

section \<open>Providers\<close>

definition is_meta_provider :: "str \<Rightarrow> bool" where
  "is_meta_provider p = (p \<in> {lit ''databricks'', lit ''tetrate'', lit ''bedrock'', lit ''azure''})"

definition provider_names :: "(str \<times> str) list" where
  "provider_names = [(lit ''xai'', lit ''x-ai''), (lit ''azure_openai'', lit ''azure''), (lit ''aws_bedrock'', lit ''amazon-bedrock''),
     (lit ''gcp_vertex_ai'', lit ''google-vertex''), (lit ''gemini_oauth'', lit ''google''), (lit ''zhipu'', lit ''zhipuai''),
     (lit ''novita'', lit ''novita-ai''), (lit ''opencode_go'', lit ''opencode-go''), (lit ''ollama_cloud'', lit ''ollama-cloud'')]"

definition map_provider_name :: "str \<Rightarrow> str" where
  "map_provider_name p = (case map_of provider_names p of Some n \<Rightarrow> n | None \<Rightarrow> p)"

text \<open>The first word of the list that the name has, at its start or anywhere, gives the provider.\<close>

datatype name_test = StartsWith str | Contains str

definition name_fits :: "str \<Rightarrow> name_test \<Rightarrow> bool" where
  "name_fits m t = (case t of StartsWith p \<Rightarrow> starts_with m p | Contains p \<Rightarrow> contains_str m p)"

definition provider_tests :: "(name_test list \<times> str) list" where
  "provider_tests =
     [([Contains (lit ''claude'')], lit ''anthropic''),
      ([StartsWith (lit ''gpt-''), StartsWith (lit ''o1''), StartsWith (lit ''o3''), StartsWith (lit ''o4''),
        StartsWith (lit ''chatgpt-'')], lit ''openai''),
      ([StartsWith (lit ''gemini-''), StartsWith (lit ''gemma-'')], lit ''google''),
      ([Contains (lit ''llama'')], lit ''meta-llama''),
      ([StartsWith (lit ''mistral''), StartsWith (lit ''mixtral''), StartsWith (lit ''codestral''), StartsWith (lit ''ministral''),
        StartsWith (lit ''pixtral''), StartsWith (lit ''devstral''), StartsWith (lit ''voxtral'')], lit ''mistralai''),
      ([Contains (lit ''deepseek'')], lit ''deepseek''), ([Contains (lit ''qwen'')], lit ''qwen''),
      ([Contains (lit ''grok'')], lit ''x-ai''), ([Contains (lit ''jamba'')], lit ''ai21''),
      ([Contains (lit ''command'')], lit ''cohere'')]"

definition infer_provider_from_model :: "(str \<Rightarrow> str) \<Rightarrow> str \<Rightarrow> str option" where
  "infer_provider_from_model lower m =
     first_some (\<lambda>(ts, p). if list_ex (name_fits (lower m)) ts then Some p else None) provider_tests"

section \<open>Spellings\<close>

text \<open>
  \<open>claude-([0-9.-]+)-size\<close> and \<open>claude-size-([0-9.-]+)\<close>, each the leftmost match and there the longest
  version.
\<close>

definition is_version_char :: "uchar \<Rightarrow> bool" where
  "is_version_char c = ((48 \<le> c \<and> c \<le> 57) \<or> c = 46 \<or> c = 45)"

definition forward_at :: "str \<Rightarrow> str \<Rightarrow> str option" where
  "forward_at model_size s = Option.bind (strip_prefix s (lit ''claude-'')) (\<lambda>r.
     map_option (\<lambda>n. take n r)
       (find (\<lambda>n. starts_with (drop n r) (lit ''-'' @ model_size)) (rev [1..<Suc (length (takeWhile is_version_char r))])))"

definition reverse_at :: "str \<Rightarrow> str \<Rightarrow> str option" where
  "reverse_at model_size s = Option.bind (strip_prefix s (lit ''claude-'' @ model_size @ lit ''-'')) (\<lambda>r.
     let v = takeWhile is_version_char r in if v = [] then None else Some v)"

fun leftmost :: "(str \<Rightarrow> 'a option) \<Rightarrow> str \<Rightarrow> 'a option" where
  "leftmost f [] = f []"
| "leftmost f (c # s) = (case f (c # s) of Some x \<Rightarrow> Some x | None \<Rightarrow> leftmost f s)"

definition swap_claude_word_order :: "str \<Rightarrow> str option" where
  "swap_claude_word_order m =
     (if \<not> starts_with m (lit ''claude-'') then None
      else first_some (\<lambda>size. case leftmost (forward_at size) m of
          Some v \<Rightarrow> Some (lit ''claude-'' @ size @ lit ''-'' @ v)
        | None \<Rightarrow> map_option (\<lambda>v. lit ''claude-'' @ v @ lit ''-'' @ size) (leftmost (reverse_at size) m))
        [lit ''sonnet'', lit ''opus'', lit ''haiku''])"

definition model_patterns :: "str list" where
  "model_patterns = [lit ''claude-'', lit ''gpt-'', lit ''gemini-'', lit ''gemma-'', lit ''o1-'', lit ''o1'', lit ''o3-'',
     lit ''o3'', lit ''o4-'', lit ''llama-'', lit ''mistral-'', lit ''mixtral-'', lit ''chatgpt-'', lit ''deepseek-'',
     lit ''qwen-'', lit ''grok-'', lit ''jamba-'', lit ''command-'', lit ''codestral'', lit ''ministral-'', lit ''pixtral-'',
     lit ''devstral-'']"

text \<open>\<open>str::find\<close> as a number of bytes, and \<open>str::get(n..)\<close>.\<close>

fun find_bytes :: "str \<Rightarrow> str \<Rightarrow> nat option" where
  "find_bytes [] p = (if p = [] then Some 0 else None)"
| "find_bytes (c # s) p = (if starts_with (c # s) p then Some 0
     else map_option (\<lambda>n. n + utf8_size c) (find_bytes s p))"

fun get_from_byte :: "str \<Rightarrow> nat \<Rightarrow> str option" where
  "get_from_byte [] n = (if n = 0 then Some [] else None)"
| "get_from_byte (c # s) n = (if n = 0 then Some (c # s)
     else if utf8_size c \<le> n then get_from_byte s (n - utf8_size c) else None)"

definition strip_common_prefixes :: "(str \<Rightarrow> str) \<Rightarrow> str \<Rightarrow> str" where
  "strip_common_prefixes lower m =
     (case List.map_filter (find_bytes (lower m)) model_patterns of
        [] \<Rightarrow> m
      | n # ns \<Rightarrow> (case get_from_byte m (min_list (n # ns)) of Some r \<Rightarrow> r | None \<Rightarrow> m))"

definition known_providers :: "str list" where
  "known_providers = [lit ''anthropic'', lit ''openai'', lit ''google'', lit ''meta-llama'', lit ''mistralai'', lit ''cohere'',
     lit ''ai21'', lit ''amazon'', lit ''deepseek'', lit ''qwen'', lit ''x-ai'', lit ''nvidia'', lit ''microsoft'', lit ''perplexity'']"

definition extract_provider_prefix :: "str \<Rightarrow> (str \<times> str) option" where
  "extract_provider_prefix m =
     first_some (\<lambda>p. map_option (Pair p) (strip_prefix m (p @ lit ''-''))) known_providers"

section \<open>The registry\<close>

text \<open>A known model is its identifier, \<open>provider/model\<close>, and what the registry says of it.\<close>

type_synonym 'c registry = "str \<times> str \<Rightarrow> (str \<times> 'c) option"

definition empty_registry :: "'c registry" where "empty_registry = (\<lambda>_. None)"

definition register :: "str \<Rightarrow> str \<Rightarrow> str \<times> 'c \<Rightarrow> 'c registry \<Rightarrow> 'c registry" where
  "register p m c r = r((p, m) \<mapsto> c)"

definition register_model :: "str \<times> 'c \<Rightarrow> 'c registry \<Rightarrow> 'c registry" where
  "register_model c r = (case split_once (fst c) (lit ''/'') of Some (p, m) \<Rightarrow> register p m c r | None \<Rightarrow> r)"

definition registry_of :: "(str \<times> 'c) list \<Rightarrow> 'c registry" where
  "registry_of cs = fold register_model cs empty_registry"

definition first_known :: "'c registry \<Rightarrow> (str \<times> str) list \<Rightarrow> str option" where
  "first_known reg keys = map_option fst (first_some reg keys)"

text \<open>What is looked up by the provider's own name, and the models inferred from the spelling.\<close>

definition direct_keys :: "(uchar \<Rightarrow> bool) \<Rightarrow> str \<Rightarrow> str \<Rightarrow> (str \<times> str) list" where
  "direct_keys digit provider m =
     (if provider = lit ''gcp_vertex_ai'' \<or> \<not> is_meta_provider provider
      then [(map_provider_name provider, strip_version_suffix digit m), (map_provider_name provider, m)] else [])"

definition inferred_key :: "(uchar \<Rightarrow> bool) \<Rightarrow> (str \<Rightarrow> str) \<Rightarrow> str \<Rightarrow> (str \<times> str) list" where
  "inferred_key digit lower m = (case infer_provider_from_model lower m of
     Some p \<Rightarrow> [(p, strip_version_suffix digit m)] | None \<Rightarrow> [])"

definition inferred_keys :: "(uchar \<Rightarrow> bool) \<Rightarrow> (str \<Rightarrow> str) \<Rightarrow> str \<Rightarrow> (str \<times> str) list" where
  "inferred_keys digit lower m =
     (let stripped = strip_common_prefixes lower m
      in (case swap_claude_word_order stripped of Some w \<Rightarrow> inferred_key digit lower w | None \<Rightarrow> [])
         @ inferred_key digit lower stripped @ inferred_key digit lower m
         @ (case extract_provider_prefix stripped of Some (p, r) \<Rightarrow> [(p, strip_version_suffix digit r)] | None \<Rightarrow> []))"

definition map_to_canonical_model ::
    "(uchar \<Rightarrow> bool) \<Rightarrow> (str \<Rightarrow> str) \<Rightarrow> str \<Rightarrow> str \<Rightarrow> 'c registry \<Rightarrow> str option" where
  "map_to_canonical_model digit lower provider m reg =
     (case first_known reg (direct_keys digit provider m) of
        Some i \<Rightarrow> Some i
      | None \<Rightarrow> if provider = lit ''gcp_vertex_ai'' \<and> starts_with m (lit ''gemini-'') then None
                else first_known reg (inferred_keys digit lower m))"

section \<open>Laws\<close>

lemma strip_suffixes_fixed: "strip_round digit (strip_suffixes digit s) = strip_suffixes digit s"
  by (induction digit s rule: strip_suffixes.induct) (subst (1 2) strip_suffixes.simps, simp)

lemma strip_suffixes_prefix: "prefix (strip_suffixes digit s) s"
proof (induction digit s rule: strip_suffixes.induct)
  case (1 digit s)
  then show ?case using strip_round_prefix [of digit s]
    by (subst strip_suffixes.simps) (auto intro: prefix_order.trans)
qed

lemma fold_strip_fixed:
  "fold (strip_pattern digit) ps s = s \<Longrightarrow> p \<in> set ps \<Longrightarrow> strip_pattern digit p s = s"
proof (induction ps)
  case (Cons q ps)
  have "prefix (fold (strip_pattern digit) ps (strip_pattern digit q s)) (strip_pattern digit q s)"
    by (rule fold_strip_prefix)
  then have "strip_pattern digit q s = s"
    using Cons.prems strip_pattern_prefix [of digit q s] by (simp add: prefix_order.antisym)
  then show ?case using Cons by auto
qed simp

text \<open>A stripped name ends with no suffix of the list: neither a date nor \<open>-latest\<close> nor \<open>-bedrock\<close>.\<close>

theorem stripped_name_has_no_suffix:
  "list_all (\<lambda>p. \<not> has_suffix digit p (strip_version_suffix digit m)) STRIP_PATTERNS"
proof -
  let ?s = "strip_version_suffix digit m"
  have f: "fold (strip_pattern digit) STRIP_PATTERNS ?s = ?s"
    using strip_suffixes_fixed [of digit] by (simp add: strip_version_suffix_def strip_round_def)
  have "\<not> has_suffix digit p ?s" if "p \<in> set STRIP_PATTERNS" for p
  proof
    assume h: "has_suffix digit p ?s"
    have "p \<noteq> []" using that by (auto simp: STRIP_PATTERNS_def suffix_of_def)
    then have "length (strip_pattern digit p ?s) < length ?s"
      using h by (auto simp: strip_pattern_def has_suffix_def intro!: diff_less)
    then show False using fold_strip_fixed [OF f that] by simp
  qed
  then show ?thesis by (simp add: list_all_iff)
qed

lemma normalize_version_length: "length (normalize_version digit s) = length s"
proof (induction digit s rule: normalize_version.induct)
  case (1 digit s)
  then show ?case
    by (subst normalize_version.simps) (auto split: list.splits option.splits dest: version_at_shorter)
qed

lemma stripped_name_no_longer: "length (strip_version_suffix digit m) \<le> length m"
  using prefix_length_le [OF strip_suffixes_prefix] by (metis normalize_version_length strip_version_suffix_def)

lemma split_once_Some: "split_once s p = Some (a, b) \<Longrightarrow> s = a @ p @ b"
  by (induction s arbitrary: a) (auto split: option.splits if_splits)

lemma register_models_keys:
  assumes "\<And>k c. r k = Some c \<Longrightarrow> split_once (fst c) (lit ''/'') = Some k \<and> c \<in> A" "set cs \<subseteq> A"
    and "fold register_model cs r k = Some c"
  shows "split_once (fst c) (lit ''/'') = Some k \<and> c \<in> A"
  using assms
proof (induction cs arbitrary: r)
  case (Cons x xs)
  have "split_once (fst d) (lit ''/'') = Some j \<and> d \<in> A" if "register_model x r j = Some d" for j d
    using Cons.prems(1) [of j d] Cons.prems(2) that
    by (auto simp: register_model_def register_def simp del: lit_Cons split: option.splits if_splits)
  from Cons.IH [OF this] Cons.prems(2,3) show ?case by simp
qed simp

lemma registry_of_keys: "registry_of cs k = Some c \<Longrightarrow> split_once (fst c) (lit ''/'') = Some k \<and> c \<in> set cs"
  unfolding registry_of_def
  by (rule register_models_keys [of empty_registry "set cs" cs]) (simp_all add: empty_registry_def del: lit_Cons)

lemma first_known_found:
  assumes "first_known reg ks = Some i"
  obtains k c where "k \<in> set ks" "reg k = Some c" "i = fst c"
proof -
  obtain c where "first_some reg ks = Some c" "i = fst c" using assms by (auto simp: first_known_def)
  then show ?thesis using that first_some_Some [of reg ks c] by blast
qed

lemma canonical_model_key:
  assumes "map_to_canonical_model digit lower provider m reg = Some i"
  obtains k c where "k \<in> set (direct_keys digit provider m @ inferred_keys digit lower m)" "reg k = Some c" "i = fst c"
proof -
  have "first_known reg (direct_keys digit provider m) = Some i \<or> first_known reg (inferred_keys digit lower m) = Some i"
    using assms by (auto simp: map_to_canonical_model_def split: option.splits if_splits)
  then show ?thesis by (metis first_known_found that UnCI set_append)
qed

text \<open>
  A name is only ever mapped to a model of the registry, under the provider's own name or under the
  provider and the spelling that were inferred; and what is looked up under the identifier is found.
\<close>

lemma canonical_model_is_registered:
  assumes "map_to_canonical_model digit lower provider m (registry_of cs) = Some i"
  shows "i \<in> fst ` set cs
    \<and> (\<exists>k \<in> set (direct_keys digit provider m @ inferred_keys digit lower m). i = fst k @ lit ''/'' @ snd k)"
proof -
  obtain k c where k: "k \<in> set (direct_keys digit provider m @ inferred_keys digit lower m)"
      and c: "registry_of cs k = Some c" "i = fst c"
    using assms by (rule canonical_model_key)
  have "split_once i (lit ''/'') = Some (fst k, snd k)" "c \<in> set cs"
    using registry_of_keys [OF c(1)] c(2) by simp_all
  then show ?thesis using k c(2) by (blast dest: split_once_Some)
qed

lemma canonical_model_found:
  assumes "map_to_canonical_model digit lower provider m (registry_of cs) = Some i"
  obtains k c where "split_once i (lit ''/'') = Some k" "registry_of cs k = Some c" "fst c = i"
  using assms by (rule canonical_model_key) (use registry_of_keys that in blast)

text \<open>
  The patterns \<open>o1\<close> and \<open>o3\<close> are looked for anywhere, also at the end of another word: the name of a foreign
  model is cut there and given to another provider.
\<close>

lemma o1_inside_a_word_is_cut:
  "strip_common_prefixes to_ascii_lowercase (lit ''demo1-command-r'') = lit ''o1-command-r''"
  "infer_provider_from_model to_ascii_lowercase (lit ''o1-command-r'') = Some (lit ''openai'')"
  by (simp_all add: strip_common_prefixes_def model_patterns_def to_ascii_lowercase_def ascii_lower_def starts_with_def
      utf8_size_def map_filter_def infer_provider_from_model_def provider_tests_def name_fits_def)

end
