(* ===== verification/ModelConfig.thy ===== *)
theory ModelConfig
  imports CanonicalNames ThinkFilter TokenUsage RegexEngine Message "HOL-Library.AList"
begin

text \<open>
  The configuration of a model, \<open>crates/bharatcode-providers/src/model.rs\<close>, with what it needs of
  \<open>canonical.rs\<close>, \<open>canonical/model.rs\<close> and of \<open>formats/openai.rs\<close>: limits and reasoning from the registry,
  request parameters, the effort suffix of a name. Floating point numbers are a type \<open>'f\<close> that is only passed
  on; \<open>rx\<close> is the regular expression engine, \<open>lower\<close> \<open>str::to_lowercase\<close>, \<open>digit\<close> the table behind \<open>\d\<close>.
\<close>

section \<open>Known models\<close>

record 'f pricing =
  price_input :: "'f option"
  price_output :: "'f option"
  price_cache_read :: "'f option"
  price_cache_write :: "'f option"

definition no_pricing :: "'f pricing" where
  "no_pricing = \<lparr>price_input = None, price_output = None, price_cache_read = None, price_cache_write = None\<rparr>"

record limit =
  limit_context :: nat
  limit_output :: "nat option"

text \<open>A registered model without its identifier, in the fields that the configuration reads.\<close>

record 'f canonical_model =
  canonical_reasoning :: "bool option"
  cost :: "'f pricing"
  limit_of :: limit

definition is_local_provider :: "str \<Rightarrow> bool" where
  "is_local_provider p = (p \<in> {lit ''ollama'', lit ''local''})"

text \<open>The text tables and the registry that lookups use.\<close>

record 'f name_env =
  name_digit :: "uchar \<Rightarrow> bool"
  name_lower :: "str \<Rightarrow> str"
  bundled :: "'f canonical_model registry"

definition maybe_get_canonical_model :: "'f name_env \<Rightarrow> str \<Rightarrow> str \<Rightarrow> 'f canonical_model option" where
  "maybe_get_canonical_model env provider m =
     Option.bind (map_to_canonical_model (name_digit env) (name_lower env) provider m (bundled env)) (\<lambda>i.
     Option.bind (split_once i (lit ''/'')) (\<lambda>k.
     map_option (\<lambda>(_, c). if is_local_provider provider then c\<lparr>cost := no_pricing\<rparr> else c) (bundled env k)))"

section \<open>Reasoning models\<close>

definition RESPONSES_MODEL :: str where
  "RESPONSES_MODEL = pat ''(?i)(?:^|[-/])(?:o%d+(?:$|-)|gpt-5(?:$|[-.]))''"

definition is_openai_responses_model :: "regex_engine \<Rightarrow> str \<Rightarrow> bool" where
  "is_openai_responses_model rx m = rx_is_match rx RESPONSES_MODEL m"

definition EFFORT_SUFFIX :: str where
  "EFFORT_SUFFIX = pat ''(?i)^(?P<base>.+)-(?P<effort>none|low|medium|high|xhigh)$''"

text \<open>The groups \<open>base\<close> and \<open>effort\<close> are the first and the second.\<close>

definition extract_reasoning_effort :: "regex_engine \<Rightarrow> str \<Rightarrow> str \<times> str option" where
  "extract_reasoning_effort rx m =
     (if \<not> is_openai_responses_model rx m then (m, None)
      else case rx_find_iter rx EFFORT_SUFFIX m of
          c # _ \<Rightarrow> (case (m_group m c 1, m_group m c 2) of
              (Some base, Some effort) \<Rightarrow> (base, Some (to_ascii_lowercase effort)) | _ \<Rightarrow> (m, None))
        | [] \<Rightarrow> (m, None))"

section \<open>The configuration\<close>

definition DEFAULT_CONTEXT_LIMIT :: nat where "DEFAULT_CONTEXT_LIMIT = 128000"

record 'f model_fields =
  model_name :: str
  context_limit :: "nat option"
  temperature :: "'f option"
  max_tokens :: "i32 option"
  toolshim :: bool
  toolshim_model :: "str option"
  request_params :: "json_object option"
  reasoning :: "bool option"

datatype 'f model_config = ModelConfig (fields: "'f model_fields") (fast_model_config: "'f model_config option")

abbreviation update_fields :: "('f model_fields \<Rightarrow> 'f model_fields) \<Rightarrow> 'f model_config \<Rightarrow> 'f model_config" where
  "update_fields f c \<equiv> ModelConfig (f (fields c)) (fast_model_config c)"

definition thinking_effort_key :: str where "thinking_effort_key = lit ''thinking_effort''"

definition param :: "'f model_fields \<Rightarrow> str \<Rightarrow> json option" where
  "param m k = Option.bind (request_params m) (\<lambda>ps. map_of ps k)"

definition set_param :: "str \<Rightarrow> json \<Rightarrow> 'f model_fields \<Rightarrow> 'f model_fields" where
  "set_param k v m = m\<lparr>request_params :=
     Some (AList.update k v (case request_params m of Some ps \<Rightarrow> ps | None \<Rightarrow> []))\<rparr>"

definition suffix_effort :: "str \<Rightarrow> thinking_effort option" where
  "suffix_effort s = map_of [(lit ''none'', EffortOff), (lit ''low'', EffortLow), (lit ''medium'', EffortMedium),
     (lit ''high'', EffortHigh), (lit ''xhigh'', EffortMax)] s"

definition normalize_effort_suffix :: "regex_engine \<Rightarrow> 'f model_fields \<Rightarrow> 'f model_fields" where
  "normalize_effort_suffix rx m =
     (if \<not> is_openai_responses_model rx (model_name m) then m
      else let parts = split_on 45 (model_name m) in
        case suffix_effort (last parts) of
          None \<Rightarrow> m
        | Some e \<Rightarrow> (let m' = m\<lparr>model_name := join_with (lit ''-'') (butlast parts)\<rparr> in
            if param m thinking_effort_key = None then set_param thinking_effort_key (JString (show_effort e)) m' else m'))"

definition plain_fields :: "str \<Rightarrow> 'f model_fields" where
  "plain_fields n = \<lparr>model_name = n, context_limit = None, temperature = None, max_tokens = None, toolshim = False,
     toolshim_model = None, request_params = None, reasoning = None\<rparr>"

definition new_model_config :: "regex_engine \<Rightarrow> str \<Rightarrow> 'f model_config" where
  "new_model_config rx n = ModelConfig (normalize_effort_suffix rx (plain_fields n)) None"

definition canonical_of :: "'f name_env \<Rightarrow> regex_engine \<Rightarrow> str \<Rightarrow> str \<Rightarrow> 'f canonical_model option" where
  "canonical_of env rx provider m = (case maybe_get_canonical_model env provider m of
     Some c \<Rightarrow> Some c
   | None \<Rightarrow> (let base = fst (extract_reasoning_effort rx m) in
       if base \<noteq> m then maybe_get_canonical_model env provider base else None))"

definition keep_or :: "'a option \<Rightarrow> 'a option \<Rightarrow> 'a option" where
  "keep_or old new = (case old of Some x \<Rightarrow> Some x | None \<Rightarrow> new)"

text \<open>The output limit is cut to 32 bits, as \<open>as i32\<close> does.\<close>

definition output_tokens_of :: "limit \<Rightarrow> i32 option" where
  "output_tokens_of l = (case limit_output l of
     Some n \<Rightarrow> if n < limit_context l then Some (word_of_nat n) else None | None \<Rightarrow> None)"

definition with_canonical_limits :: "'f name_env \<Rightarrow> regex_engine \<Rightarrow> str \<Rightarrow> 'f model_config \<Rightarrow> 'f model_config" where
  "with_canonical_limits env rx provider c = (case canonical_of env rx provider (model_name (fields c)) of
     None \<Rightarrow> c
   | Some k \<Rightarrow> update_fields (\<lambda>m. m
       \<lparr>context_limit := keep_or (context_limit m) (Some (limit_context (limit_of k))),
        max_tokens := keep_or (max_tokens m) (output_tokens_of (limit_of k)),
        reasoning := keep_or (reasoning m) (canonical_reasoning k)\<rparr>) c)"

definition with_context_limit :: "nat option \<Rightarrow> 'f model_config \<Rightarrow> 'f model_config" where
  "with_context_limit l = update_fields (\<lambda>m. if l \<noteq> None then m\<lparr>context_limit := l\<rparr> else m)"

definition with_temperature :: "'f option \<Rightarrow> 'f model_config \<Rightarrow> 'f model_config" where
  "with_temperature t = update_fields (\<lambda>m. m\<lparr>temperature := t\<rparr>)"

definition with_max_tokens :: "i32 option \<Rightarrow> 'f model_config \<Rightarrow> 'f model_config" where
  "with_max_tokens t = update_fields (\<lambda>m. m\<lparr>max_tokens := t\<rparr>)"

text \<open>A default reaches the fast model, and its fast model, too.\<close>

primrec with_default :: "('f model_fields \<Rightarrow> 'f model_fields) \<Rightarrow> 'f model_config \<Rightarrow> 'f model_config" where
  "with_default f (ModelConfig m fast) = ModelConfig (f m) (map_option (with_default f) fast)"

definition with_default_context_limit :: "nat option \<Rightarrow> 'f model_config \<Rightarrow> 'f model_config" where
  "with_default_context_limit l = with_default (\<lambda>m. m\<lparr>context_limit := keep_or (context_limit m) l\<rparr>)"

definition with_default_max_tokens :: "i32 option \<Rightarrow> 'f model_config \<Rightarrow> 'f model_config" where
  "with_default_max_tokens t = with_default (\<lambda>m. m\<lparr>max_tokens := keep_or (max_tokens m) t\<rparr>)"

definition with_toolshim :: "bool \<Rightarrow> 'f model_config \<Rightarrow> 'f model_config" where
  "with_toolshim b = update_fields (\<lambda>m. m\<lparr>toolshim := b\<rparr>)"

definition with_toolshim_model :: "str option \<Rightarrow> 'f model_config \<Rightarrow> 'f model_config" where
  "with_toolshim_model n = update_fields (\<lambda>m. m\<lparr>toolshim_model := n\<rparr>)"

definition with_fast_model_config :: "'f model_config \<Rightarrow> 'f model_config \<Rightarrow> 'f model_config" where
  "with_fast_model_config f c = ModelConfig (fields c) (Some f)"

definition with_fast :: "'f name_env \<Rightarrow> regex_engine \<Rightarrow> str \<Rightarrow> str \<Rightarrow> 'f model_config \<Rightarrow> 'f model_config" where
  "with_fast env rx n provider = with_fast_model_config (with_canonical_limits env rx provider (new_model_config rx n))"

definition with_merged_request_params :: "json_object \<Rightarrow> 'f model_fields \<Rightarrow> 'f model_fields" where
  "with_merged_request_params ps m = m\<lparr>request_params := Some (case request_params m of
     Some old \<Rightarrow> fold (\<lambda>(k, v). AList.update k v) ps old | None \<Rightarrow> ps)\<rparr>"

definition with_thinking_effort :: "thinking_effort \<Rightarrow> 'f model_fields \<Rightarrow> 'f model_fields" where
  "with_thinking_effort e = set_param thinking_effort_key (JString (show_effort e))"

definition thinking_effort :: "(str \<Rightarrow> str) \<Rightarrow> 'f model_fields \<Rightarrow> thinking_effort option" where
  "thinking_effort lower m = Option.bind (Option.bind (param m thinking_effort_key) json_as_str) (\<lambda>s.
     case parse_effort lower s of Ok e \<Rightarrow> Some e | Err _ \<Rightarrow> None)"

definition with_default_thinking_effort ::
    "(str \<Rightarrow> str) \<Rightarrow> thinking_effort option \<Rightarrow> 'f model_config \<Rightarrow> 'f model_config" where
  "with_default_thinking_effort lower e = with_default (\<lambda>m. case (thinking_effort lower m, e) of
     (None, Some d) \<Rightarrow> with_thinking_effort d m | _ \<Rightarrow> m)"

definition with_inherited_session_settings_from ::
    "'f model_config option \<Rightarrow> json_object option \<Rightarrow> 'f model_config \<Rightarrow> 'f model_config" where
  "with_inherited_session_settings_from previous ps = update_fields (\<lambda>m.
     let m = (case previous of
         Some p \<Rightarrow> (case (param m thinking_effort_key, param (fields p) thinking_effort_key) of
             (None, Some v) \<Rightarrow> set_param thinking_effort_key v m | _ \<Rightarrow> m)
       | None \<Rightarrow> m)
     in case ps of Some ps \<Rightarrow> with_merged_request_params ps m | None \<Rightarrow> m)"

definition use_fast_model :: "'f model_config \<Rightarrow> 'f model_config" where
  "use_fast_model c = (case fast_model_config c of Some f \<Rightarrow> f | None \<Rightarrow> c)"

definition context_limit_of :: "'f model_config \<Rightarrow> nat" where
  "context_limit_of c = (case context_limit (fields c) of Some n \<Rightarrow> n | None \<Rightarrow> DEFAULT_CONTEXT_LIMIT)"

definition max_output_tokens :: "'f model_config \<Rightarrow> i32" where
  "max_output_tokens c = (case max_tokens (fields c) of Some n \<Rightarrow> n | None \<Rightarrow> 4096)"

definition is_gemini3_reasoning_model_name :: "(str \<Rightarrow> str) \<Rightarrow> str \<Rightarrow> bool" where
  "is_gemini3_reasoning_model_name lower n = (let l = lower n in
     starts_with l (lit ''gemini-3'') \<or> contains_str l (lit ''/gemini-3'') \<or> contains_str l (lit ''-gemini-3''))"

definition is_reasoning_model :: "regex_engine \<Rightarrow> (str \<Rightarrow> str) \<Rightarrow> 'f model_config \<Rightarrow> bool" where
  "is_reasoning_model rx lower c = (let m = fields c in case reasoning m of
     Some r \<Rightarrow> r
   | None \<Rightarrow> is_openai_responses_model rx (model_name m) \<or> contains_str (lower (model_name m)) (lit ''claude'')
       \<or> is_gemini3_reasoning_model_name lower (model_name m))"

section \<open>Laws\<close>

text \<open>A registered model is found under its identifier, and a local one costs nothing.\<close>

lemma canonical_model_of_bundled:
  assumes "bundled env = registry_of cs"
    "map_to_canonical_model (name_digit env) (name_lower env) provider m (registry_of cs) = Some i"
  shows "\<exists>c. (i, c) \<in> set cs \<and> maybe_get_canonical_model env provider m
    = Some (if is_local_provider provider then c\<lparr>cost := no_pricing\<rparr> else c)"
proof -
  obtain k x where k: "split_once i (lit ''/'') = Some k" "registry_of cs k = Some x" "fst x = i"
    using assms(2) by (rule canonical_model_found)
  then have "x \<in> set cs" using registry_of_keys by blast
  moreover have "maybe_get_canonical_model env provider m
      = Some (if is_local_provider provider then snd x\<lparr>cost := no_pricing\<rparr> else snd x)"
    using assms k by (simp add: maybe_get_canonical_model_def split: prod.splits del: lit_Cons)
  ultimately show ?thesis using k(3) by (intro exI [of _ "snd x"]) auto
qed

text \<open>The limits a configuration has are kept, and no limit beyond 31 bits comes out of a smaller context.\<close>

lemma with_canonical_limits_keeps:
  "context_limit (fields c) \<noteq> None \<Longrightarrow> context_limit (fields (with_canonical_limits env rx p c)) = context_limit (fields c)"
  "max_tokens (fields c) \<noteq> None \<Longrightarrow> max_tokens (fields (with_canonical_limits env rx p c)) = max_tokens (fields c)"
  "reasoning (fields c) \<noteq> None \<Longrightarrow> reasoning (fields (with_canonical_limits env rx p c)) = reasoning (fields c)"
  by (auto simp: with_canonical_limits_def keep_or_def split: option.splits)

lemma output_tokens_below_context:
  assumes "output_tokens_of l = Some w" "limit_context l \<le> 2 ^ 31"
  shows "0 \<le> sint w \<and> sint w < int (limit_context l)"
proof -
  obtain n where n: "w = word_of_nat n" "n < limit_context l"
    using assms(1) by (auto simp: output_tokens_of_def split: option.splits if_splits)
  then have "sint w = int n" using assms(2) by (simp add: signed_of_nat signed_take_bit_int_eq_self)
  then show ?thesis using n by simp
qed

lemma param_set_param [simp]: "param (set_param k v m) j = (if j = k then Some v else param m j)"
  by (simp add: param_def set_param_def update_conv' split: option.splits)

lemma effort_roundtrip: "lower (show_effort e) = show_effort e \<Longrightarrow> parse_effort lower (show_effort e) = Ok e"
  by (cases e) (simp_all add: show_effort_def parse_effort_def)

text \<open>An effort that is set is the one that is read, and a default does not overrule it.\<close>

lemma thinking_effort_set:
  "lower (show_effort e) = show_effort e \<Longrightarrow> thinking_effort lower (with_thinking_effort e m) = Some e"
  by (simp add: thinking_effort_def with_thinking_effort_def effort_roundtrip)

lemma default_effort_does_not_overrule:
  "thinking_effort lower (fields c) \<noteq> None \<Longrightarrow> fields (with_default_thinking_effort lower d c) = fields c"
  by (cases c) (auto simp: with_default_thinking_effort_def)

lemma inherited_effort:
  assumes "param (fields c) thinking_effort_key = None"
  shows "param (fields (with_inherited_session_settings_from (Some p) None c)) thinking_effort_key
    = param (fields p) thinking_effort_key"
  using assms by (simp add: with_inherited_session_settings_from_def split: option.splits)

end
