(* ===== verification/OpenAiRequest.thy ===== *)
theory OpenAiRequest
  imports OpenAiResponse Images ModelConfig
begin

text \<open>
  Requests to OpenAI-compatible services, \<open>crates/bharatcode-providers/src/formats/openai.rs\<close>: messages and
  tools as JSON, the merging of the calls of one turn, the repair of tool schemas, the payload. Printing of
  JSON and of errors, base64, the file system and the regular expressions are parameters; the
  order of an object's members carries no meaning.
\<close>

section \<open>Parameters\<close>

record request_io =
  images :: image_io
  decode_base64 :: "str \<Rightarrow> nat list option"
  print_object :: "json_object \<Rightarrow> str option"
  show_error :: "error_data \<Rightarrow> str"

section \<open>Messages\<close>

definition is_reserved_request_param_key :: "str \<Rightarrow> bool" where
  "is_reserved_request_param_key k = (k \<in> {lit ''messages'', lit ''model'', lit ''stream'', lit ''stream_options''})"

definition merge_reasoning_text :: "str \<Rightarrow> str \<Rightarrow> str" where
  "merge_reasoning_text p s =
     (if p = [] then s else if s = [] then p else if starts_with s p then s else if ends_with p s then p else p @ s)"

definition json_text :: "str \<Rightarrow> json" where
  "json_text s = JObject [(lit ''type'', JString (lit ''text'')), (lit ''text'', JString s)]"

definition tool_message :: "str \<Rightarrow> str \<Rightarrow> json" where
  "tool_message c i = JObject [(lit ''role'', JString (lit ''tool'')), (lit ''content'', JString c), (lit ''tool_call_id'', JString i)]"

definition call_json :: "request_io \<Rightarrow> str \<Rightarrow> call_params \<Rightarrow> json_object" where
  "call_json io i p =
     [(lit ''id'', JString i), (lit ''type'', JString (lit ''function'')),
      (lit ''function'', JObject [(lit ''name'', JString (sanitize_function_name (tool_name p))),
        (lit ''arguments'', JString (case arguments p of
           Some a \<Rightarrow> (case print_object io a of Some s \<Rightarrow> s | None \<Rightarrow> lit ''{}'') | None \<Rightarrow> lit ''{}''))])]"

definition insert_all :: "json_object \<Rightarrow> json_object \<Rightarrow> json_object" where
  "insert_all new old = fold (\<lambda>(k, v). json_insert k v) new old"

text \<open>What is gathered from the contents of one message.\<close>

record gathered =
  calls_out :: "json list"
  out_messages :: "json list"
  content_array :: "json list"
  non_text :: bool
  reasoning_out :: str

definition nothing_gathered :: gathered where
  "nothing_gathered = \<lparr>calls_out = [], out_messages = [], content_array = [], non_text = False, reasoning_out = []\<rparr>"

definition add_part :: "json \<Rightarrow> gathered \<Rightarrow> gathered" where
  "add_part j g = g\<lparr>content_array := content_array g @ [j]\<rparr>"

definition add_output :: "json list \<Rightarrow> gathered \<Rightarrow> gathered" where
  "add_output js g = g\<lparr>out_messages := out_messages g @ js\<rparr>"

definition add_text :: "request_io \<Rightarrow> image_format \<Rightarrow> role \<Rightarrow> str \<Rightarrow> gathered \<Rightarrow> gathered" where
  "add_text io fmt r t g =
     (if t = [] then g
      else case (if r = User then detect_image_path (images io) t else None) of
        None \<Rightarrow> add_part (json_text t) g
      | Some p \<Rightarrow> (case load_image_file (images io) p of
          Ok i \<Rightarrow> add_part (convert_image i fmt) (add_part (json_text t) (g\<lparr>non_text := True\<rparr>))
        | Err _ \<Rightarrow> add_part (json_text t) g))"

definition image_placeholder :: str where
  "image_placeholder = lit ''This tool result included an image that is uploaded in the next message.''"

definition result_text :: "request_io \<Rightarrow> mcp_content \<Rightarrow> str" where
  "result_text io c = (case raw c of
     RawImage _ _ \<Rightarrow> image_placeholder
   | RawResource r \<Rightarrow> extract_text_from_resource (decode_base64 io) r
   | RawText t \<Rightarrow> t
   | _ \<Rightarrow> [])"

definition image_messages :: "image_format \<Rightarrow> mcp_content list \<Rightarrow> json list" where
  "image_messages fmt cs = List.map_filter (\<lambda>c. case raw c of
     RawImage d m \<Rightarrow> Some (JObject [(lit ''role'', JString (lit ''user'')),
       (lit ''content'', JArray [convert_image \<lparr>image_data = d, mime_type = m, image_audience = None\<rparr> fmt])])
   | _ \<Rightarrow> None) cs"

definition add_result :: "request_io \<Rightarrow> image_format \<Rightarrow> tool_response \<Rightarrow> gathered \<Rightarrow> gathered" where
  "add_result io fmt r = (case tool_result r of
     Ok res \<Rightarrow> add_output
       (tool_message (join_with (lit '' '') (map (result_text io) (result_content res))) (response_id r)
        # image_messages fmt (result_content res))
   | Err e \<Rightarrow> add_output [tool_message (lit ''The tool call returned the following error:'' @ newline # show_error io e) (response_id r)])"

definition add_call :: "request_io \<Rightarrow> str \<Rightarrow> (error_data, call_params) result \<Rightarrow> json_object option \<Rightarrow> gathered \<Rightarrow> gathered" where
  "add_call io i c meta g = (case c of
     Ok p \<Rightarrow> g\<lparr>calls_out := calls_out g
       @ [JObject (case meta of Some m \<Rightarrow> insert_all m (call_json io i p) | None \<Rightarrow> call_json io i p)]\<rparr>
   | Err e \<Rightarrow> add_output [tool_message (lit ''Error: '' @ show_error io e) i] g)"

definition add_image :: "image_format \<Rightarrow> role \<Rightarrow> image_content \<Rightarrow> gathered \<Rightarrow> gathered" where
  "add_image fmt r i g =
     (if r = User then add_part (convert_image i fmt) (g\<lparr>non_text := True\<rparr>)
      else add_part (json_text (lit ''[Image content removed - not supported in assistant messages]'')) g)"

definition gather :: "request_io \<Rightarrow> image_format \<Rightarrow> role \<Rightarrow> message_content \<Rightarrow> gathered \<Rightarrow> gathered" where
  "gather io fmt r c g = (case c of
     Text t \<Rightarrow> add_text io fmt r (text_str t) g
   | Thinking t \<Rightarrow> g\<lparr>reasoning_out := reasoning_out g @ thinking t\<rparr>
   | RedactedThinking _ \<Rightarrow> g
   | SystemNotification _ \<Rightarrow> g
   | ToolRequest q \<Rightarrow> add_call io (request_id q) (tool_call q) (request_metadata q) g
   | ToolResponse a \<Rightarrow> add_result io fmt a g
   | ToolConfirmationRequest _ \<Rightarrow> g
   | ActionRequired _ \<Rightarrow> g
   | Image i \<Rightarrow> add_image fmt r i g
   | FrontendToolRequest q \<Rightarrow> add_call io (frontend_id q) (frontend_call q) None g)"

definition role_json :: "role \<Rightarrow> json" where
  "role_json r = JString (case r of User \<Rightarrow> lit ''user'' | Assistant \<Rightarrow> lit ''assistant'')"

definition content_json :: "role \<Rightarrow> gathered \<Rightarrow> json option" where
  "content_json r g =
     (if content_array g \<noteq> []
      then Some (if non_text g then JArray (content_array g)
        else JString (join_with [newline]
          (List.map_filter (\<lambda>v. Option.bind (json_get v (lit ''text'')) json_as_str) (content_array g))))
      else if r = Assistant \<and> calls_out g \<noteq> [] then Some JNull else None)"

definition has_payload :: "role \<Rightarrow> gathered \<Rightarrow> bool" where
  "has_payload r g = (content_json r g \<noteq> None \<or> calls_out g \<noteq> [])"

definition converted :: "role \<Rightarrow> gathered \<Rightarrow> str option \<Rightarrow> json" where
  "converted r g turn =
     JObject ((lit ''role'', role_json r)
       # (if calls_out g = [] then [] else [(lit ''tool_calls'', JArray (calls_out g))])
       @ (case content_json r g of Some c \<Rightarrow> [(lit ''content'', c)] | None \<Rightarrow> [])
       @ (case turn of Some t \<Rightarrow> [(lit ''reasoning_content'', JString t)] | None \<Rightarrow> []))"

text \<open>One message: what it adds, and the reasoning of the assistant that still waits for a message to go with.\<close>

definition format_one ::
    "request_io \<Rightarrow> image_format \<Rightarrow> bool \<Rightarrow> message \<Rightarrow> str \<Rightarrow> json list \<times> str" where
  "format_one io fmt preserve m pending =
     (let r = role m;
          pending = (if preserve \<and> r \<noteq> Assistant then [] else pending);
          g = fold (gather io fmt r) (content m) nothing_gathered;
          own = preserve \<and> r = Assistant
      in if own \<and> \<not> has_payload r g \<and> out_messages g = [] \<and> reasoning_out g \<noteq> [] then ([], pending @ reasoning_out g)
         else (let text = (if own \<and> pending \<noteq> [] then merge_reasoning_text pending (reasoning_out g) else reasoning_out g);
                   pending = (if own then [] else pending)
               in ((if has_payload r g then [converted r g (if preserve \<and> text \<noteq> [] then Some text else None)] else [])
                   @ out_messages g, pending)))"

fun format_all :: "request_io \<Rightarrow> image_format \<Rightarrow> bool \<Rightarrow> message list \<Rightarrow> str \<Rightarrow> json list" where
  "format_all io fmt preserve [] pending = []"
| "format_all io fmt preserve (m # ms) pending =
     (case format_one io fmt preserve m pending of (js, pending') \<Rightarrow> js @ format_all io fmt preserve ms pending')"

section \<open>The calls of one turn\<close>

definition has_role :: "string \<Rightarrow> json \<Rightarrow> bool" where
  "has_role r m = (json_get m (lit ''role'') = Some (JString (lit r)))"

definition tool_calls_of :: "json \<Rightarrow> json list" where
  "tool_calls_of m = (case json_get m (lit ''tool_calls'') of Some (JArray a) \<Rightarrow> a | _ \<Rightarrow> [])"

definition is_image_only_user_message :: "json \<Rightarrow> bool" where
  "is_image_only_user_message m = (has_role ''user'' m \<and>
     (case json_get m (lit ''content'') of
        Some (JArray a) \<Rightarrow> a \<noteq> [] \<and> list_all (\<lambda>i. json_get i (lit ''type'') = Some (JString (lit ''image_url''))) a
      | _ \<Rightarrow> False))"

definition has_no_content :: "json \<Rightarrow> bool" where
  "has_no_content m = (json_get m (lit ''content'') \<in> {None, Some JNull, Some (JString []), Some (JArray [])})"

definition calls_tools :: "json \<Rightarrow> bool" where
  "calls_tools m = (has_role ''assistant'' m \<and> tool_calls_of m \<noteq> [])"

definition is_split_of :: "json \<Rightarrow> json \<Rightarrow> bool" where
  "is_split_of turn m =
     (calls_tools m \<and> has_no_content m \<and> json_get m (lit ''reasoning_content'') = Some turn)"

text \<open>
  The scan behind a message with calls: a result, the images behind it and a message split from the same
  turn, again and again. The calls, the results in between, and the rest.
\<close>

function scan_split :: "json \<Rightarrow> json list \<Rightarrow> json list \<times> json list \<times> json list" where
  "scan_split turn [] = ([], [], [])"
| "scan_split turn (t # ms) =
     (if \<not> has_role ''tool'' t then ([], [], t # ms)
      else case dropWhile is_image_only_user_message ms of
        [] \<Rightarrow> ([], [], t # ms)
      | n # rest \<Rightarrow>
          if is_split_of turn n
          then (case scan_split turn rest of (calls, collected, rest') \<Rightarrow>
            (tool_calls_of n @ calls, t # takeWhile is_image_only_user_message ms @ collected, rest'))
          else ([], [], t # ms))"
  by pat_completeness auto
termination
proof (relation "measure (\<lambda>(r, ms). length ms)")
  fix turn t ms n rest
  assume "dropWhile is_image_only_user_message ms = n # rest"
  then have "length (n # rest) \<le> length ms" by (metis length_dropWhile_le)
  then show "((turn, rest), turn, t # ms) \<in> measure (\<lambda>(r, ms). length ms)" by simp
qed simp

definition extend_calls :: "json list \<Rightarrow> json \<Rightarrow> json" where
  "extend_calls calls m = (case m of
     JObject kvs \<Rightarrow> JObject (json_insert (lit ''tool_calls'') (JArray (tool_calls_of m @ calls)) kvs) | _ \<Rightarrow> m)"

lemma scan_split_shorter: "scan_split r ms = (calls, collected, rest) \<Longrightarrow> length rest \<le> length ms"
proof (induction r ms arbitrary: calls collected rest rule: scan_split.induct)
  case (2 r t ms)
  have "length (n # rest') \<le> length ms" if "dropWhile is_image_only_user_message ms = n # rest'" for n rest'
    using that by (metis length_dropWhile_le)
  then show ?case using 2 by (fastforce split: if_splits list.splits prod.splits)
qed simp

function merge_split_tool_call_messages :: "json list \<Rightarrow> json list" where
  "merge_split_tool_call_messages [] = []"
| "merge_split_tool_call_messages (m # ms) =
     (case json_get m (lit ''reasoning_content'') of
        Some turn \<Rightarrow>
          (case scan_split turn ms of (calls, collected, rest) \<Rightarrow>
             if calls_tools m \<and> calls \<noteq> []
             then extend_calls calls m # collected @ merge_split_tool_call_messages rest
             else m # merge_split_tool_call_messages ms)
      | None \<Rightarrow> m # merge_split_tool_call_messages ms)"
  by pat_completeness auto
termination
  by (relation "measure length") (auto dest!: sym [of "(_, _, _)"] dest: scan_split_shorter simp: less_Suc_eq_le)

definition format_messages_with_options ::
    "request_io \<Rightarrow> message list \<Rightarrow> image_format \<Rightarrow> bool \<Rightarrow> json list" where
  "format_messages_with_options io ms fmt preserve = merge_split_tool_call_messages (format_all io fmt preserve ms [])"

definition format_messages :: "request_io \<Rightarrow> message list \<Rightarrow> image_format \<Rightarrow> json list" where
  "format_messages io ms fmt = format_messages_with_options io ms fmt True"

section \<open>Tools and their schemas\<close>

record tool_spec =
  spec_name :: str
  spec_description :: "str option"
  input_schema :: json_object

definition tool_json :: "tool_spec \<Rightarrow> json" where
  "tool_json t = JObject [(lit ''type'', JString (lit ''function'')),
     (lit ''function'', JObject [(lit ''name'', JString (spec_name t)),
       (lit ''description'', case spec_description t of Some d \<Rightarrow> JString d | None \<Rightarrow> JNull),
       (lit ''parameters'', JObject (input_schema t))])]"

fun format_tools_from :: "str set \<Rightarrow> tool_spec list \<Rightarrow> (str, json list) result" where
  "format_tools_from seen [] = Ok []"
| "format_tools_from seen (t # ts) =
     (if spec_name t \<in> seen then Err (lit ''Duplicate tool name: '' @ spec_name t)
      else map_sum id (Cons (tool_json t)) (format_tools_from (insert (spec_name t) seen) ts))"

definition format_tools :: "tool_spec list \<Rightarrow> (str, json list) result" where
  "format_tools ts = format_tools_from {} ts"

definition insert_new :: "str \<Rightarrow> json \<Rightarrow> json_object \<Rightarrow> json_object" where
  "insert_new k v m = (if map_of m k = None then m @ [(k, v)] else m)"

definition is_null_type :: "json \<Rightarrow> bool" where
  "is_null_type v = (Option.bind (json_get v (lit ''type'')) json_as_str = Some (lit ''null''))"

definition one_type :: "json_object \<Rightarrow> json option" where
  "one_type m = (case map_of m (lit ''type'') of
     Some (JArray ts) \<Rightarrow> (case filter (\<lambda>t. json_as_str t \<noteq> Some (lit ''null'')) ts of [t] \<Rightarrow> Some t | _ \<Rightarrow> None)
   | _ \<Rightarrow> None)"

definition one_variant :: "json_object \<Rightarrow> json_object option" where
  "one_variant m = (case map_of m (lit ''anyOf'') of
     Some (JArray [a, b]) \<Rightarrow>
       (case (if is_null_type a then Some b else if is_null_type b then Some a else None) of
          Some (JObject r) \<Rightarrow> Some r | _ \<Rightarrow> None)
   | _ \<Rightarrow> None)"

definition normalize_nullable :: "json \<Rightarrow> json" where
  "normalize_nullable v = (case v of
     JObject m \<Rightarrow> (case one_type m of
         Some t \<Rightarrow> JObject (json_insert (lit ''type'') t m)
       | None \<Rightarrow> (case one_variant m of
           Some r \<Rightarrow> JObject (fold (\<lambda>(k, x). insert_new k x) r (AList.delete (lit ''anyOf'') m))
         | None \<Rightarrow> v))
   | _ \<Rightarrow> v)"

definition is_object_schema :: "json_object \<Rightarrow> bool" where
  "is_object_schema m = (case Option.bind (map_of m (lit ''type'')) json_as_str of
     Some t \<Rightarrow> t = lit ''object'' | None \<Rightarrow> True)"

definition with_schema_fields :: "json_object \<Rightarrow> json_object" where
  "with_schema_fields m = insert_new (lit ''type'') (JString (lit ''object''))
     (insert_new (lit ''required'') (JArray []) (insert_new (lit ''properties'') (JObject []) m))"

definition has_object_type :: "json \<Rightarrow> bool" where
  "has_object_type v = (Option.bind (json_get v (lit ''type'')) json_as_str = Some (lit ''object''))"

text \<open>How deeply values are nested; it bounds the recursion into properties.\<close>

fun json_depth :: "json \<Rightarrow> nat" where
  "json_depth (JArray vs) = Suc (foldr max (map json_depth vs) 0)"
| "json_depth (JObject m) = Suc (foldr max (map (\<lambda>(k, v). json_depth v) m) 0)"
| "json_depth _ = 0"

lemma foldr_max_le: "(foldr max (map f xs) 0 \<le> (n :: nat)) = (\<forall>x \<in> set xs. f x \<le> n)"
  by (induction xs) auto

lemma array_depth: "v \<in> set vs \<Longrightarrow> json_depth v < json_depth (JArray vs)"
  using foldr_max_le [of json_depth vs "foldr max (map json_depth vs) 0"] by (auto simp: less_Suc_eq_le)

lemma member_depth: "(k, v) \<in> set m \<Longrightarrow> json_depth v < json_depth (JObject m)"
  using foldr_max_le [of "\<lambda>(k, v). json_depth v" m "foldr max (map (\<lambda>(k, v). json_depth v) m) 0"]
  by (auto simp: less_Suc_eq_le)

lemma object_depth_le: "(json_depth (JObject m) \<le> Suc n) = (\<forall>(k, v) \<in> set m. json_depth v \<le> n)"
  by (auto simp: foldr_max_le)

lemma insert_new_members: "set (fold (\<lambda>(k, x). insert_new k x) r m) \<subseteq> set m \<union> set r"
proof (induction r arbitrary: m)
  case (Cons a r)
  show ?case using Cons [of "insert_new (fst a) (snd a) m"]
    by (cases a) (auto simp: insert_new_def split: if_splits)
qed simp

lemma update_members: "set (AList.update k v m) \<subseteq> insert (k, v) (set m)"
  by (induction m) auto

lemma normalize_depth: "json_depth (normalize_nullable v) \<le> json_depth v"
proof (cases v)
  case (JObject m)
  let ?n = "foldr max (map (\<lambda>(k, v). json_depth v) m) 0"
  have m: "json_depth x \<le> ?n" if "(k, x) \<in> set m" for k x
    using member_depth [OF that] by simp
  show ?thesis
  proof (cases "one_type m")
    case (Some t)
    then obtain ts where ts: "map_of m (lit ''type'') = Some (JArray ts)" and "t \<in> set ts"
      by (auto simp: one_type_def simp del: lit_Cons split: option.splits json.splits list.splits)
        (metis filter_is_subset list.set_intros(1) subsetD)
    then have "json_depth t \<le> ?n" using m [OF map_of_SomeD [OF ts]] array_depth [of t ts] by linarith
    then have "json_depth (JObject (json_insert (lit ''type'') t m)) \<le> Suc ?n"
      using m update_members [of "lit ''type''" t m] by (subst object_depth_le) (auto simp: json_insert_def)
    then show ?thesis using JObject Some by (simp add: normalize_nullable_def)
  next
    case None
    show ?thesis
    proof (cases "one_variant m")
      case (Some r)
      then obtain vs where vs: "map_of m (lit ''anyOf'') = Some (JArray vs)" and "JObject r \<in> set vs"
        by (auto simp: one_variant_def simp del: lit_Cons split: option.splits json.splits list.splits if_splits)
      then have "json_depth (JObject r) \<le> ?n" using m [OF map_of_SomeD [OF vs]] array_depth [of "JObject r" vs] by linarith
      then have r: "json_depth x \<le> ?n" if "(k, x) \<in> set r" for k x using member_depth [OF that] by linarith
      have "json_depth (JObject (fold (\<lambda>(k, x). insert_new k x) r (AList.delete (lit ''anyOf'') m))) \<le> Suc ?n"
        using m r insert_new_members [of r "AList.delete (lit ''anyOf'') m"]
        by (subst object_depth_le) (auto simp: AList.delete_eq simp del: lit_Cons dest!: subsetD)
      then show ?thesis using JObject None Some by (simp add: normalize_nullable_def)
    qed (simp add: JObject None normalize_nullable_def)
  qed
qed (simp_all add: normalize_nullable_def)

lemma schema_field_members:
  "(k, v) \<in> set (with_schema_fields m) \<Longrightarrow> (k, v) \<in> set m \<or> v \<in> {JObject [], JArray [], JString (lit ''object'')}"
  by (auto simp: with_schema_fields_def insert_new_def simp del: lit_Cons split: if_splits)

function ensure_valid_json_schema :: "json \<Rightarrow> json" where
  "ensure_valid_json_schema v = (case v of
     JObject m \<Rightarrow>
       if is_object_schema m
       then JObject (map (\<lambda>(k, x). (k, if k = lit ''properties''
           then (case x of
               JObject ps \<Rightarrow> JObject (map (\<lambda>(n, p).
                 (n, if has_object_type (normalize_nullable p) then ensure_valid_json_schema (normalize_nullable p)
                     else normalize_nullable p)) ps)
             | _ \<Rightarrow> x)
           else x)) (with_schema_fields m))
       else v
   | _ \<Rightarrow> v)"
  by pat_completeness auto
termination
proof (relation "measure json_depth", goal_cases)
  case (2 v m kx k x ps np n p)
  then have "(k, JObject ps) \<in> set m"
    using schema_field_members [of k "JObject ps" m] by auto
  then have "json_depth (JObject ps) < json_depth v" using member_depth 2 by blast
  moreover have "json_depth p < json_depth (JObject ps)" using member_depth 2 by blast
  ultimately show ?case using normalize_depth [of p] by simp
qed simp

definition validate_tool_schemas :: "json list \<Rightarrow> json list" where
  "validate_tool_schemas ts = map (\<lambda>t. case t of
     JObject m \<Rightarrow> JObject (map (\<lambda>(k, f). (k, if k = lit ''function''
         then (case f of JObject fm \<Rightarrow> JObject (map (\<lambda>(j, p). (j, if j = lit ''parameters''
             then ensure_valid_json_schema p else p)) fm)
           | _ \<Rightarrow> f)
         else f)) m)
   | _ \<Rightarrow> t) ts"

section \<open>The payload\<close>

text \<open>The levels a model supports, and the first preferred one among them.\<close>

definition openai_reasoning_efforts_for_model :: "str \<Rightarrow> str list" where
  "openai_reasoning_efforts_for_model m =
     (let n = to_ascii_lowercase m; has = (\<lambda>s. contains_str n (lit s)) in
      if has ''gpt-5''
      then (if has ''-pro'' \<or> has ''/pro'' then [lit ''high'']
            else if has ''gpt-5.4'' \<or> has ''gpt-5-4'' \<or> has ''gpt-5.5'' \<or> has ''gpt-5-5''
              then [lit ''low'', lit ''medium'', lit ''high'', lit ''xhigh'']
            else [lit ''low'', lit ''medium'', lit ''high''])
      else [lit ''low'', lit ''medium'', lit ''high''])"

definition preferred_efforts :: "thinking_effort \<Rightarrow> str list" where
  "preferred_efforts e = (case e of
     EffortOff \<Rightarrow> []
   | EffortLow \<Rightarrow> [lit ''low'', lit ''medium'', lit ''high'', lit ''xhigh'']
   | EffortMedium \<Rightarrow> [lit ''medium'', lit ''high'', lit ''low'', lit ''xhigh'']
   | EffortHigh \<Rightarrow> [lit ''high'', lit ''medium'', lit ''xhigh'', lit ''low'']
   | EffortMax \<Rightarrow> [lit ''xhigh'', lit ''high'', lit ''medium'', lit ''low''])"

definition openai_reasoning_effort_for_thinking :: "str \<Rightarrow> thinking_effort \<Rightarrow> str option" where
  "openai_reasoning_effort_for_thinking m e =
     (if e = EffortOff then Some (lit ''none'')
      else find (\<lambda>l. l \<in> set (openai_reasoning_efforts_for_model m)) (preferred_efforts e))"

text \<open>What a request takes from outside, with the JSON of a floating point number and of a 32-bit integer.\<close>

record 'f payload_io =
  requests_io :: request_io
  engine :: regex_engine
  lower_case :: "str \<Rightarrow> str"
  float_json :: "'f \<Rightarrow> json"
  i32_json :: "i32 \<Rightarrow> json"

definition system_json :: "bool \<Rightarrow> str \<Rightarrow> json" where
  "system_json thinks s = JObject [(lit ''role'', JString (if thinks then lit ''developer'' else lit ''system'')),
     (lit ''content'', JString s)]"

definition effort_of_request :: "'f payload_io \<Rightarrow> 'f model_fields \<Rightarrow> str option" where
  "effort_of_request pio c = (case extract_reasoning_effort (engine pio) (model_name c) of (name, legacy) \<Rightarrow>
     if is_openai_responses_model (engine pio) name
     then (case thinking_effort (lower_case pio) c of
         Some e \<Rightarrow> openai_reasoning_effort_for_thinking name e | None \<Rightarrow> legacy)
     else None)"

definition optional_member :: "string \<Rightarrow> json option \<Rightarrow> json_object" where
  "optional_member k v = (case v of Some x \<Rightarrow> [(lit k, x)] | None \<Rightarrow> [])"

definition base_payload ::
    "'f payload_io \<Rightarrow> 'f model_fields \<Rightarrow> str \<Rightarrow> json list \<Rightarrow> json list \<Rightarrow> bool \<Rightarrow> json_object" where
  "base_payload pio c system messages tools streaming =
     (let name = fst (extract_reasoning_effort (engine pio) (model_name c));
          thinks = is_openai_responses_model (engine pio) name
      in [(lit ''model'', JString name), (lit ''messages'', JArray (system_json thinks system # messages))]
         @ optional_member ''reasoning_effort'' (map_option JString (effort_of_request pio c))
         @ optional_member ''tools'' (if tools = [] then None else Some (JArray tools))
         @ optional_member ''temperature'' (if thinks then None else map_option (float_json pio) (temperature c))
         @ optional_member (if thinks then ''max_completion_tokens'' else ''max_tokens'') (map_option (i32_json pio) (max_tokens c))
         @ (if streaming then [(lit ''stream'', JBool True),
              (lit ''stream_options'', JObject [(lit ''include_usage'', JBool True)])] else []))"

definition passed_params :: "json_object option \<Rightarrow> json_object" where
  "passed_params ps = (case ps of
     Some m \<Rightarrow> filter (\<lambda>(k, _). k \<noteq> thinking_effort_key \<and> \<not> is_reserved_request_param_key k) m | None \<Rightarrow> [])"

definition create_request_with_options ::
    "'f payload_io \<Rightarrow> 'f model_fields \<Rightarrow> str \<Rightarrow> message list \<Rightarrow> tool_spec list \<Rightarrow> image_format \<Rightarrow> bool \<Rightarrow> bool \<Rightarrow>
     (str, json) result" where
  "create_request_with_options pio c system messages tools fmt streaming preserve =
     (if starts_with (model_name c) (lit ''o1-mini'')
      then Err (lit ''o1-mini model is not currently supported since bharatcode uses tool calling and o1-mini does not support it. Please use o1 or o3 models instead.'')
      else case format_tools tools of
          Err e \<Rightarrow> Err e
        | Ok specs \<Rightarrow> Ok (JObject (insert_all (passed_params (request_params c))
            (base_payload pio c system (format_messages_with_options (requests_io pio) messages fmt preserve)
               (validate_tool_schemas specs) streaming))))"

definition create_request ::
    "'f payload_io \<Rightarrow> 'f model_fields \<Rightarrow> str \<Rightarrow> message list \<Rightarrow> tool_spec list \<Rightarrow> image_format \<Rightarrow> bool \<Rightarrow> (str, json) result" where
  "create_request pio c system messages tools fmt streaming =
     create_request_with_options pio c system messages tools fmt streaming True"

section \<open>Laws of the merging\<close>

text \<open>The calls a message makes: those of an assistant.\<close>

definition calls_made :: "json \<Rightarrow> json list" where
  "calls_made m = (if has_role ''assistant'' m then tool_calls_of m else [])"

lemma image_only_calls_nothing [simp]: "is_image_only_user_message m \<Longrightarrow> \<not> calls_tools m"
  by (auto simp: is_image_only_user_message_def calls_tools_def has_role_def)

lemma tool_message_calls_nothing [simp]: "has_role ''tool'' m \<Longrightarrow> \<not> calls_tools m"
  by (auto simp: calls_tools_def has_role_def)

lemma calls_made_none [simp]: "\<not> calls_tools m \<Longrightarrow> calls_made m = []"
  by (auto simp: calls_tools_def calls_made_def)

lemma calls_made_some: "calls_tools m \<Longrightarrow> calls_made m = tool_calls_of m"
  by (simp add: calls_tools_def calls_made_def)

lemma scan_split_parts:
  "scan_split r ms = (calls, collected, rest) \<Longrightarrow>
   \<exists>consumed. ms = consumed @ rest \<and> calls = concat (map calls_made consumed)
     \<and> collected = filter (\<lambda>m. \<not> calls_tools m) consumed \<and> (\<forall>m \<in> set consumed. calls_tools m \<longrightarrow> is_split_of r m)"
proof (induction r ms arbitrary: calls collected rest rule: scan_split.induct)
  case (2 r t ms)
  let ?imgs = "takeWhile is_image_only_user_message ms"
  have imgs: "\<forall>m \<in> set ?imgs. \<not> calls_tools m" by (auto dest: set_takeWhileD)
  then have quiet: "concat (map calls_made ?imgs) = []" "filter (\<lambda>m. \<not> calls_tools m) ?imgs = ?imgs"
    by (simp_all add: filter_id_conv)
  show ?case
  proof (cases "has_role ''tool'' t \<and> (\<exists>n rest. dropWhile is_image_only_user_message ms = n # rest \<and> is_split_of r n)")
    case True
    then obtain n ms' where t: "has_role ''tool'' t" and n: "dropWhile is_image_only_user_message ms = n # ms'"
        "is_split_of r n" by blast
    obtain c1 l1 r1 where s: "scan_split r ms' = (c1, l1, r1)" by (cases "scan_split r ms'")
    have eq: "calls = tool_calls_of n @ c1" "collected = t # ?imgs @ l1" "rest = r1"
      using "2.prems" t n s by simp_all
    obtain consumed where c: "ms' = consumed @ r1" "c1 = concat (map calls_made consumed)"
        "l1 = filter (\<lambda>m. \<not> calls_tools m) consumed" "\<forall>m \<in> set consumed. calls_tools m \<longrightarrow> is_split_of r m"
      using "2.IH" [OF _ n(1) n(2) s] t by auto
    have calls: "calls_tools n" using n(2) by (simp add: is_split_of_def)
    have "ms = ?imgs @ n # consumed @ r1" using n(1) c(1) by (metis takeWhile_dropWhile_id)
    then show ?thesis using c eq t n imgs quiet calls calls_made_some [OF calls]
      by (intro exI [of _ "t # ?imgs @ n # consumed"]) auto
  next
    case False
    then have "calls = [] \<and> collected = [] \<and> rest = t # ms" using "2.prems" by (auto split: if_splits list.splits)
    then show ?thesis by simp
  qed
qed simp

lemma extend_calls_made:
  assumes "calls_tools m"
  shows "calls_made (extend_calls calls m) = calls_made m @ calls" "calls_tools (extend_calls calls m)"
proof -
  obtain kvs where m: "m = JObject kvs" using assms by (cases m) (auto simp: calls_tools_def has_role_def)
  have "has_role ''assistant'' (extend_calls calls m)" "tool_calls_of (extend_calls calls m) = tool_calls_of m @ calls"
    using assms by (auto simp: m calls_tools_def has_role_def extend_calls_def json_insert_def update_conv' tool_calls_of_def)
  then show "calls_made (extend_calls calls m) = calls_made m @ calls" "calls_tools (extend_calls calls m)"
    using assms by (auto simp: calls_made_def calls_tools_def)
qed

text \<open>
  C16. Merging loses nothing: the calls of all messages come out in the same order, and so do all messages
  that call nothing, among them every tool result.
\<close>

theorem merging_loses_nothing:
  "concat (map calls_made (merge_split_tool_call_messages ms)) = concat (map calls_made ms)
   \<and> filter (\<lambda>m. \<not> calls_tools m) (merge_split_tool_call_messages ms) = filter (\<lambda>m. \<not> calls_tools m) ms"
proof (induction ms rule: merge_split_tool_call_messages.induct)
  case (2 m ms)
  show ?case
  proof (cases "json_get m (lit ''reasoning_content'')")
    case None
    then show ?thesis using "2.IH" by simp
  next
    case (Some r)
    obtain calls collected rest where s: "scan_split r ms = (calls, collected, rest)" by (cases "scan_split r ms")
    obtain consumed where c: "ms = consumed @ rest" "calls = concat (map calls_made consumed)"
        "collected = filter (\<lambda>m. \<not> calls_tools m) consumed"
      using scan_split_parts [OF s] by blast
    show ?thesis
    proof (cases "calls_tools m \<and> calls \<noteq> []")
      case True
      then have e: "merge_split_tool_call_messages (m # ms) = extend_calls calls m # collected @ merge_split_tool_call_messages rest"
        using Some s by simp
      have "concat (map calls_made collected) = []" by (auto simp: c(3))
      moreover have "filter (\<lambda>m. \<not> calls_tools m) collected = filter (\<lambda>m. \<not> calls_tools m) consumed" by (simp add: c(3))
      moreover have "concat (map calls_made (merge_split_tool_call_messages rest)) = concat (map calls_made rest)"
        "filter (\<lambda>m. \<not> calls_tools m) (merge_split_tool_call_messages rest) = filter (\<lambda>m. \<not> calls_tools m) rest"
        using "2.IH"(2) [OF Some s [symmetric] refl True] by simp_all
      ultimately show ?thesis using True extend_calls_made [of m calls] by (simp only: e) (simp add: c)
    next
      case False
      then have e: "merge_split_tool_call_messages (m # ms) = m # merge_split_tool_call_messages ms"
        by (simp only: merge_split_tool_call_messages.simps Some option.case s prod.case False if_False)
      have "concat (map calls_made (merge_split_tool_call_messages ms)) = concat (map calls_made ms)"
        "filter (\<lambda>m. \<not> calls_tools m) (merge_split_tool_call_messages ms) = filter (\<lambda>m. \<not> calls_tools m) ms"
        using "2.IH"(3) [OF Some s [symmetric] refl False] by simp_all
      then show ?thesis by (simp only: e) simp
    qed
  qed
qed simp

section \<open>Laws of tools and payloads\<close>

lemma is_ok_map [simp]: "is_ok (map_sum id f r) = is_ok r"
  by (cases r) simp_all

lemma format_tools_from_ok:
  "is_ok (format_tools_from seen ts) = (distinct (map spec_name ts) \<and> (\<forall>t \<in> set ts. spec_name t \<notin> seen))"
proof (induction seen ts rule: format_tools_from.induct)
  case (2 seen t ts)
  have "(spec_name t \<notin> spec_name ` set ts) = (\<forall>u \<in> set ts. spec_name u \<noteq> spec_name t)" by (metis imageE imageI)
  then show ?case using 2 by auto
qed simp

text \<open>Tools are sent exactly when no two have the same name.\<close>

lemma format_tools_distinct: "is_ok (format_tools ts) = distinct (map spec_name ts)"
  by (simp add: format_tools_def format_tools_from_ok)

text \<open>An effort that is sent is one the model supports, except where thinking is off.\<close>

lemma effort_supported:
  "e \<noteq> EffortOff \<Longrightarrow> \<exists>l. openai_reasoning_effort_for_thinking m e = Some l \<and> l \<in> set (openai_reasoning_efforts_for_model m)"
  by (cases e) (auto simp: openai_reasoning_effort_for_thinking_def preferred_efforts_def
      openai_reasoning_efforts_for_model_def Let_def)

text \<open>Where it is off, \<open>none\<close> is sent to every model, also to those that support only other levels.\<close>

lemma off_is_sent_unsupported:
  "openai_reasoning_effort_for_thinking m EffortOff = Some (lit ''none'')"
  "lit ''none'' \<notin> set (openai_reasoning_efforts_for_model m)"
  by (simp_all add: openai_reasoning_effort_for_thinking_def openai_reasoning_efforts_for_model_def Let_def)

lemma insert_all_other: "k \<notin> fst ` set new \<Longrightarrow> map_of (insert_all new old) k = map_of old k"
  by (induction new arbitrary: old) (auto simp: insert_all_def json_insert_def update_conv')

lemma optional_lookup: "map_of (optional_member k v) j = (if j = lit k then v else None)"
  by (auto simp: optional_member_def split: option.splits)

lemma base_payload_lookup:
  defines "name \<equiv> \<lambda>pio c. fst (extract_reasoning_effort (engine pio) (model_name c))"
  shows "map_of (base_payload pio c system ms tools streaming) (lit ''model'') = Some (JString (name pio c))"
    "map_of (base_payload pio c system ms tools streaming) (lit ''messages'')
      = Some (JArray (system_json (is_openai_responses_model (engine pio) (name pio c)) system # ms))"
    "map_of (base_payload pio c system ms tools streaming) (lit ''stream'') = (if streaming then Some (JBool True) else None)"
    "map_of (base_payload pio c system ms tools streaming) thinking_effort_key = None"
  by (simp_all add: base_payload_def Let_def name_def optional_lookup map_add_def thinking_effort_key_def)

lemma passed_params_reserved:
  "is_reserved_request_param_key k \<or> k = thinking_effort_key \<Longrightarrow> k \<notin> fst ` set (passed_params ps)"
  by (auto simp: passed_params_def split: option.splits)

text \<open>
  C15. The parameters of a configuration do not replace the conversation, the model or the streaming mode of a
  request, and the effort they name is not sent as it is.
\<close>

theorem reserved_members_kept:
  assumes "create_request_with_options pio c system ms tools fmt streaming preserve = Ok j"
  shows "json_get j (lit ''model'') = Some (JString (fst (extract_reasoning_effort (engine pio) (model_name c))))
    \<and> json_get j (lit ''messages'') = Some (JArray
        (system_json (is_openai_responses_model (engine pio) (fst (extract_reasoning_effort (engine pio) (model_name c)))) system
         # format_messages_with_options (requests_io pio) ms fmt preserve))
    \<and> json_get j (lit ''stream'') = (if streaming then Some (JBool True) else None)
    \<and> json_get j thinking_effort_key = None"
proof -
  obtain specs where j: "j = JObject (insert_all (passed_params (request_params c))
      (base_payload pio c system (format_messages_with_options (requests_io pio) ms fmt preserve)
         (validate_tool_schemas specs) streaming))"
    using assms by (auto simp: create_request_with_options_def simp del: lit_Cons split: if_splits sum.splits)
  have "map_of (insert_all (passed_params (request_params c)) b) k = map_of b k"
    if "k \<in> {lit ''model'', lit ''messages'', lit ''stream'', thinking_effort_key}" for b k
    by (rule insert_all_other, rule passed_params_reserved)
      (use that in \<open>auto simp: is_reserved_request_param_key_def simp del: lit_Cons\<close>)
  then show ?thesis by (simp add: j base_payload_lookup del: lit_Cons)
qed

text \<open>A configuration that would replace the model and the conversation, and switch streaming off.\<close>

definition sample_pio :: "unit payload_io" where
  "sample_pio = \<lparr>requests_io = \<lparr>images = \<lparr>is_file = \<lambda>_. False, read_head = \<lambda>_. None, read_file = \<lambda>_. Err [],
       encode_base64 = \<lambda>_. [], lowercase_of = id\<rparr>, decode_base64 = \<lambda>_. None, print_object = \<lambda>_. None, show_error = \<lambda>_. []\<rparr>,
     engine = \<lparr>rx_is_match = \<lambda>_ _. False, rx_find_iter = \<lambda>_ _. []\<rparr>, lower_case = id,
     float_json = \<lambda>_. JNull, i32_json = \<lambda>_. JNull\<rparr>"

definition sample_config :: "unit model_fields" where
  "sample_config = (plain_fields (lit ''gpt-4o''))\<lparr>request_params := Some
     [(lit ''model'', JString (lit ''other'')), (lit ''messages'', JArray []), (lit ''stream'', JBool False),
      (thinking_effort_key, JString (lit ''high''))]\<rparr>"

theorem reserved_members_kept_witness:
  "\<exists>j. create_request_with_options sample_pio sample_config (lit ''hi'') [] [] OpenAiImages True True = Ok j
    \<and> json_get j (lit ''model'') = Some (JString (lit ''gpt-4o''))
    \<and> json_get j (lit ''messages'') = Some (JArray [system_json False (lit ''hi'')])
    \<and> json_get j (lit ''stream'') = Some (JBool True) \<and> json_get j thinking_effort_key = None"
proof -
  obtain j where j: "create_request_with_options sample_pio sample_config (lit ''hi'') [] [] OpenAiImages True True = Ok j"
    by (simp add: create_request_with_options_def sample_config_def plain_fields_def format_tools_def starts_with_def)
  have "is_openai_responses_model (engine sample_pio) n = False" for n
    by (simp add: is_openai_responses_model_def sample_pio_def)
  moreover have "extract_reasoning_effort (engine sample_pio) (model_name sample_config) = (lit ''gpt-4o'', None)"
    by (simp add: extract_reasoning_effort_def is_openai_responses_model_def sample_pio_def sample_config_def plain_fields_def)
  ultimately show ?thesis
    using reserved_members_kept [OF j] j
    by (intro exI [of _ j]) (simp del: lit_Cons add: format_messages_with_options_def)
qed

lemma insert_new_keeps: "map_of m k = Some v \<Longrightarrow> map_of (insert_new j x m) k = Some v"
  by (auto simp: insert_new_def map_add_def)

lemma insert_new_present: "map_of (insert_new k v m) k \<noteq> None"
  by (auto simp: insert_new_def map_add_def)

text \<open>The schema of an object comes out with a type, properties and required members, and keeps what it had.\<close>

lemma map_of_members: "map_of (map (\<lambda>(k, x). (k, f k x)) m) k = map_option (f k) (map_of m k)"
  by (induction m) auto

lemma ensured_schema:
  assumes "is_object_schema m"
  obtains m' where "ensure_valid_json_schema (JObject m) = JObject m'"
    "\<forall>k \<in> {lit ''type'', lit ''properties'', lit ''required''}. map_of m' k \<noteq> None"
    "\<forall>k v. k \<noteq> lit ''properties'' \<longrightarrow> map_of m k = Some v \<longrightarrow> map_of m' k = Some v"
proof -
  let ?f = "\<lambda>k x. if k = lit ''properties'' then (case x of
       JObject ps \<Rightarrow> JObject (map (\<lambda>(n, p). (n, if has_object_type (normalize_nullable p)
         then ensure_valid_json_schema (normalize_nullable p) else normalize_nullable p)) ps)
     | _ \<Rightarrow> x) else x"
  have e: "ensure_valid_json_schema (JObject m) = JObject (map (\<lambda>(k, x). (k, ?f k x)) (with_schema_fields m))"
    using assms by (subst ensure_valid_json_schema.simps) simp
  have keeps: "map_of (with_schema_fields m) k = Some v" if "map_of m k = Some v" for k v
    using that by (simp add: with_schema_fields_def insert_new_keeps)
  have present: "map_of (with_schema_fields m) k \<noteq> None" if "k \<in> {lit ''type'', lit ''properties'', lit ''required''}" for k
  proof -
    have k: "map_of (insert_new j x n) i \<noteq> None" if "map_of n i \<noteq> None" for i j x n
      using that insert_new_keeps by blast
    show ?thesis using that unfolding with_schema_fields_def
      by (elim insertE emptyE) (simp_all only: insert_new_present k simp_thms)
  qed
  show ?thesis
  proof (rule that [OF e], goal_cases)
    case 1
    then show ?case using present by (simp only: map_of_members) simp
  next
    case 2
    then show ?case using keeps by (simp only: map_of_members) simp
  qed
qed

end
