(* ===== verification/Toolshim.thy ===== *)
theory Toolshim
  imports OpenAiRequest "HOL-Library.List_Lexorder"
begin

text \<open>
  Tool calls of models without native support for them, \<open>crates/bharatcode-core/src/providers/toolshim.rs\<close>: the
  text of an answer is searched for calls between markers and for calls written as JSON, else a second model is
  asked to find them; markers and directives are taken out of what is shown. In the other direction tool calls
  and results become text. JSON, fresh identifiers and the second model are parameters.
\<close>

section \<open>Parameters\<close>

record ('w, 'e) shim_env =
  shim_json :: "'e openai_io"
  pretty_object :: "json_object \<Rightarrow> str"
  pretty_arguments :: "json_object option \<Rightarrow> str"
  debug_description :: "str option \<Rightarrow> str"
  print_error :: "error_data \<Rightarrow> str"
  fresh_uuid :: "'w \<Rightarrow> 'w \<times> str"
  backend_var :: "str option"
  ollama_model_var :: "str option"
  local_model_var :: "str option"
  local_model_param :: "str option"
  ollama_ready :: "(provider_error, unit) result"
  post_structured :: "str \<Rightarrow> json \<Rightarrow> str \<Rightarrow> 'w \<Rightarrow> 'w \<times> (provider_error, json) result"
  infer_local :: "str \<Rightarrow> str \<Rightarrow> 'w \<Rightarrow> 'w \<times> (provider_error, str) result"

definition TOOL_CALLS_SECTION_BEGIN :: str where "TOOL_CALLS_SECTION_BEGIN = lit ''<|tool_calls_section_begin|>''"
definition TOOL_CALLS_SECTION_END :: str where "TOOL_CALLS_SECTION_END = lit ''<|tool_calls_section_end|>''"
definition TOOL_CALL_BEGIN :: str where "TOOL_CALL_BEGIN = lit ''<|tool_call_begin|>''"
definition TOOL_CALL_ARGUMENT_BEGIN :: str where "TOOL_CALL_ARGUMENT_BEGIN = lit ''<|tool_call_argument_begin|>''"
definition TOOL_CALL_ARGUMENT_END :: str where "TOOL_CALL_ARGUMENT_END = lit ''<|tool_call_argument_end|>''"
definition TOOL_CALL_END :: str where "TOOL_CALL_END = lit ''<|tool_call_end|>''"

section \<open>The interpreter\<close>

datatype toolshim_backend = OllamaBackend | LocalBackend

definition parse_toolshim_backend :: "str \<Rightarrow> (provider_error, toolshim_backend) result" where
  "parse_toolshim_backend v = (let s = to_ascii_lowercase (trim v) in
     if s = [] \<or> s = lit ''ollama'' then Ok OllamaBackend
     else if s \<in> {lit ''local'', lit ''llama.cpp'', lit ''llama_cpp''} then Ok LocalBackend
     else Err (RequestFailed (lit ''Invalid BHARATCODE_TOOLSHIM_BACKEND value '' @ quoted s
       @ lit ''. Expected one of: ollama, local, llama.cpp'')))"

definition get_toolshim_backend :: "('w, 'e) shim_env \<Rightarrow> (provider_error, toolshim_backend) result" where
  "get_toolshim_backend env = (case backend_var env of Some v \<Rightarrow> parse_toolshim_backend v | None \<Rightarrow> Ok OllamaBackend)"

definition nonblank :: "str option \<Rightarrow> str option" where
  "nonblank v = (case map_option trim v of Some s \<Rightarrow> if s = [] then None else Some s | None \<Rightarrow> None)"

definition resolve_local_interpreter_model_from_sources :: "str option \<Rightarrow> str option \<Rightarrow> (provider_error, str) result" where
  "resolve_local_interpreter_model_from_sources env_model config_model = (case env_model of
     Some m \<Rightarrow> Ok m
   | None \<Rightarrow> (case config_model of Some m \<Rightarrow> Ok m
       | None \<Rightarrow> Err (RequestFailed (lit ''Local toolshim backend requires BHARATCODE_TOOLSHIM_MODEL or LOCAL_LLM_MODEL to be set''))))"

definition resolve_local_interpreter_model :: "('w, 'e) shim_env \<Rightarrow> (provider_error, str) result" where
  "resolve_local_interpreter_model env =
     resolve_local_interpreter_model_from_sources (nonblank (local_model_var env)) (nonblank (local_model_param env))"

text \<open>What the second model says: the calls of the array, by name whatever tools there are.\<close>

definition interpreted_call :: "'e openai_io \<Rightarrow> json \<Rightarrow> call_params option" where
  "interpreted_call io item = (case (json_get item (lit ''name''), json_get item (lit ''arguments'')) of
     (Some n, Some a) \<Rightarrow> Some \<lparr>tool_name = (case json_as_str n of Some s \<Rightarrow> s | None \<Rightarrow> []), arguments = Some (rmcp_object io a)\<rparr>
   | _ \<Rightarrow> None)"

definition process_interpreter_response :: "'e openai_io \<Rightarrow> json \<Rightarrow> call_params list" where
  "process_interpreter_response io response =
     (case Option.bind (json_get response (lit ''message'')) (\<lambda>m. json_get m (lit ''content'')) of
        None \<Rightarrow> []
      | Some c \<Rightarrow> (case parse_json io (case json_as_str c of Some s \<Rightarrow> s | None \<Rightarrow> []) of
            Err _ \<Rightarrow> []
          | Ok v \<Rightarrow> (case json_get v (lit ''tool_calls'') of
                Some (JArray items) \<Rightarrow> List.map_filter (interpreted_call io) items
              | _ \<Rightarrow> [])))"

definition DEFAULT_INTERPRETER_MODEL_OLLAMA :: str where "DEFAULT_INTERPRETER_MODEL_OLLAMA = lit ''mistral-nemo''"

definition typed :: "string \<Rightarrow> (str \<times> json) list \<Rightarrow> json" where
  "typed t rest = JObject ((lit ''type'', JString (lit t)) # rest)"

definition described :: "string \<Rightarrow> string \<Rightarrow> json" where
  "described t d = typed t [(lit ''description'', JString (lit d))]"

definition tool_structured_output_format_schema :: json where
  "tool_structured_output_format_schema = typed ''object''
     [(lit ''properties'', JObject [(lit ''tool_calls'', typed ''array''
        [(lit ''items'', typed ''object''
           [(lit ''properties'', JObject [(lit ''name'', described ''string'' ''The name of the tool to call''),
              (lit ''arguments'', described ''object'' ''The arguments to pass to the tool'')]),
            (lit ''required'', JArray [JString (lit ''name''), JString (lit ''arguments'')])])])]),
      (lit ''required'', JArray [JString (lit ''tool_calls'')])]"

text \<open>The instruction is a text with the answer behind it; it differs in its blanks between the two models.\<close>

definition format_instruction :: "str \<Rightarrow> str \<Rightarrow> str" where
  "format_instruction instruction msg = instruction @ [newline] @ lit ''Request: '' @ msg @ [newline, newline]"

definition interpret_ollama ::
    "('w, 'e) shim_env \<Rightarrow> str \<Rightarrow> str \<Rightarrow> tool_spec list \<Rightarrow> 'w \<Rightarrow> 'w \<times> (provider_error, call_params list) result" where
  "interpret_ollama env instruction msg tools w =
     (if tools = [] then (w, Ok [])
      else case post_structured env (format_instruction instruction msg) tool_structured_output_format_schema
          (case ollama_model_var env of Some m \<Rightarrow> m | None \<Rightarrow> DEFAULT_INTERPRETER_MODEL_OLLAMA) w of
        (w1, Err e) \<Rightarrow> (w1, Err e)
      | (w1, Ok r) \<Rightarrow> (w1, Ok (process_interpreter_response (shim_json env) r)))"

definition interpret_local ::
    "('w, 'e) shim_env \<Rightarrow> str \<Rightarrow> str \<Rightarrow> str \<Rightarrow> tool_spec list \<Rightarrow> 'w \<Rightarrow> 'w \<times> (provider_error, call_params list) result" where
  "interpret_local env m instruction msg tools w =
     (if tools = [] then (w, Ok [])
      else case infer_local env m (format_instruction instruction msg) w of
        (w1, Err e) \<Rightarrow> (w1, Err e)
      | (w1, Ok c) \<Rightarrow> (w1, Ok (process_interpreter_response (shim_json env)
          (JObject [(lit ''message'', JObject [(lit ''content'', JString c)])]))))"

section \<open>Names of tools\<close>

definition functions_prefix :: str where "functions_prefix = lit ''functions.''"

definition without_index :: "str \<Rightarrow> str" where
  "without_index n = trim (hd (split_on 58 (trim n)))"

definition without_functions_prefix :: "str \<Rightarrow> str" where
  "without_functions_prefix n = (let x = without_index n in
     trim (case strip_prefix x functions_prefix of Some r \<Rightarrow> r | None \<Rightarrow> x))"

definition short_name :: "str \<Rightarrow> str" where
  "short_name n = trim (last (split_on 46 (without_functions_prefix n)))"

definition with_dunder :: "str \<Rightarrow> str" where
  "with_dunder n = concat (map (\<lambda>c. if c = 46 then [95, 95] else [c]) (without_functions_prefix n))"

definition name_candidates :: "str \<Rightarrow> str list" where
  "name_candidates n = remdups_adj [trim n, without_index n, without_functions_prefix n, with_dunder n, short_name n]"

definition unique_suffix :: "str list \<Rightarrow> str \<Rightarrow> str option" where
  "unique_suffix names c = (case remdups_adj (sort (filter (\<lambda>n. ends_with n (lit ''__'' @ c)) names)) of
     [n] \<Rightarrow> Some n | _ \<Rightarrow> None)"

definition resolve_tool_name :: "str \<Rightarrow> tool_spec list \<Rightarrow> str option" where
  "resolve_tool_name n tools = (let names = map spec_name tools; cs = name_candidates n in
     case find (\<lambda>c. c \<in> set names) cs of Some c \<Rightarrow> Some c | None \<Rightarrow> first_some (unique_suffix names) cs)"

definition normalized_tool_alias :: "str \<Rightarrow> str" where
  "normalized_tool_alias n = to_ascii_lowercase (short_name n)"

section \<open>Calls between markers\<close>

text \<open>The text of a quoted string from behind its opening quote, to the first closing one that is not escaped.\<close>

fun quoted_text :: "uchar \<Rightarrow> bool \<Rightarrow> str \<Rightarrow> str option" where
  "quoted_text q escaped [] = None"
| "quoted_text q escaped (c # s) =
     (if escaped then map_option ((#) c) (quoted_text q False s)
      else if c = 92 then quoted_text q True s
      else if c = q then Some []
      else map_option ((#) c) (quoted_text q False s))"

definition extract_shell_command_from_execute_code :: "str \<Rightarrow> str option" where
  "extract_shell_command_from_execute_code code = (case split_once code (lit ''command'') of
     None \<Rightarrow> None
   | Some (_, after) \<Rightarrow> (case split_once after (lit '':'') of
        None \<Rightarrow> None
      | Some (_, value) \<Rightarrow> (case trim_start value of
            [] \<Rightarrow> None
          | q # s \<Rightarrow> if q \<noteq> 34 \<and> q \<noteq> 39 then None else quoted_text q False s)))"

definition maybe_convert_execute_to_shell_tool_call :: "str \<Rightarrow> json \<Rightarrow> tool_spec list \<Rightarrow> call_params option" where
  "maybe_convert_execute_to_shell_tool_call n v tools =
     (if normalized_tool_alias n \<noteq> lit ''execute'' \<and> normalized_tool_alias n \<noteq> lit ''execute_code'' then None
      else case resolve_tool_name (lit ''shell'') tools of
        None \<Rightarrow> None
      | Some t \<Rightarrow> (case Option.bind (json_get v (lit ''code'')) json_as_str of
            None \<Rightarrow> None
          | Some code \<Rightarrow> map_option (\<lambda>cmd. \<lparr>tool_name = t, arguments = Some [(lit ''command'', JString cmd)]\<rparr>)
              (extract_shell_command_from_execute_code code)))"

text \<open>A backslash inside a string that starts no escape of JSON is doubled.\<close>

fun escape_backslashes :: "bool \<Rightarrow> bool \<Rightarrow> str \<Rightarrow> str" where
  "escape_backslashes inside escaped [] = (if escaped then [92] else [])"
| "escape_backslashes inside escaped (c # s) =
     (if inside then
        (if escaped then (if c \<in> set ([34, 92] @ lit ''/bfnrtu'') then [] else [92]) @ c # escape_backslashes True False s
         else if c = 92 then c # escape_backslashes True True s
         else if c = 34 then c # escape_backslashes False False s
         else c # escape_backslashes True False s)
      else c # escape_backslashes (c = 34) escaped s)"

definition escape_invalid_backslashes_in_json_strings :: "str \<Rightarrow> str" where
  "escape_invalid_backslashes_in_json_strings s = escape_backslashes False False s"

definition parse_json_value_tolerant :: "'e openai_io \<Rightarrow> str \<Rightarrow> json option" where
  "parse_json_value_tolerant io s = (case parse_json io s of
     Ok v \<Rightarrow> Some v
   | Err _ \<Rightarrow> (case parse_json io (escape_invalid_backslashes_in_json_strings s) of Ok v \<Rightarrow> Some v | Err _ \<Rightarrow> None))"

text \<open>The name and the arguments of the text between two markers.\<close>

definition name_and_arguments :: "str \<Rightarrow> (str \<times> str) option" where
  "name_and_arguments s = (case split_once s TOOL_CALL_ARGUMENT_BEGIN of
     Some (n, a) \<Rightarrow> Some (trim n, trim a)
   | None \<Rightarrow> (if 123 \<in> set s then Some (trim (takeWhile (\<lambda>c. c \<noteq> 123) s), trim (dropWhile (\<lambda>c. c \<noteq> 123) s)) else None))"

definition tokenized_call :: "'e openai_io \<Rightarrow> tool_spec list \<Rightarrow> str \<Rightarrow> call_params list" where
  "tokenized_call io tools s = (case name_and_arguments s of
     None \<Rightarrow> []
   | Some (n, a) \<Rightarrow> (case parse_json_value_tolerant io a of
        None \<Rightarrow> []
      | Some v \<Rightarrow> (case resolve_tool_name n tools of
            Some t \<Rightarrow> (case v of JObject m \<Rightarrow> [\<lparr>tool_name = t, arguments = Some m\<rparr>] | _ \<Rightarrow> [])
          | None \<Rightarrow> (case maybe_convert_execute_to_shell_tool_call n v tools of Some c \<Rightarrow> [c] | None \<Rightarrow> []))))"

lemma split_once_length: "split_once s p = Some (a, b) \<Longrightarrow> length s = length a + length p + length b"
  by (drule split_once_Some) simp

function parse_tokenized_tool_calls :: "'e openai_io \<Rightarrow> tool_spec list \<Rightarrow> str \<Rightarrow> call_params list" where
  "parse_tokenized_tool_calls io tools s = (case split_once s TOOL_CALL_BEGIN of
     None \<Rightarrow> []
   | Some (_, after) \<Rightarrow> (case split_once after TOOL_CALL_END of
        None \<Rightarrow> []
      | Some (inner, rest) \<Rightarrow> tokenized_call io tools inner @ parse_tokenized_tool_calls io tools rest))"
  by pat_completeness auto
termination
  by (relation "measure (\<lambda>(_, _, s). length s)") (auto dest!: split_once_length simp: TOOL_CALL_BEGIN_def)

declare parse_tokenized_tool_calls.simps [simp del]

section \<open>Calls written as JSON\<close>

text \<open>How many characters the first object takes, counting braces outside of strings.\<close>

fun scan_object :: "nat \<Rightarrow> bool \<Rightarrow> bool \<Rightarrow> str \<Rightarrow> nat option" where
  "scan_object depth inside escaped [] = None"
| "scan_object depth inside escaped (c # s) =
     (if inside then
        (if escaped then map_option Suc (scan_object depth True False s)
         else map_option Suc (scan_object depth (c \<noteq> 34) (c = 92) s))
      else if c = 34 then map_option Suc (scan_object depth True escaped s)
      else if c = 123 then map_option Suc (scan_object (depth + 1) False escaped s)
      else if c = 125 then (if depth - 1 = 0 then Some 1 else map_option Suc (scan_object (depth - 1) False escaped s))
      else map_option Suc (scan_object depth False escaped s))"

definition extract_first_json_object :: "str \<Rightarrow> (str \<times> str) option" where
  "extract_first_json_object s =
     (if s \<noteq> [] \<and> hd s = 123 then map_option (\<lambda>n. (take n s, drop n s)) (scan_object 0 False False s) else None)"

definition inline_call :: "'e openai_io \<Rightarrow> tool_spec list \<Rightarrow> str \<Rightarrow> call_params list" where
  "inline_call io tools s = (case parse_json_value_tolerant io s of
     None \<Rightarrow> []
   | Some v \<Rightarrow> (case (Option.bind (json_get v (lit ''name'')) json_as_str, Option.bind (json_get v (lit ''arguments'')) json_as_object) of
        (Some n, Some m) \<Rightarrow> (case resolve_tool_name n tools of
            Some t \<Rightarrow> [\<lparr>tool_name = t, arguments = Some m\<rparr>] | None \<Rightarrow> [])
      | _ \<Rightarrow> []))"

lemma scan_object_pos: "scan_object d q e s = Some n \<Longrightarrow> 0 < n \<and> n \<le> length s"
  by (induction d q e s arbitrary: n rule: scan_object.induct) (auto split: if_splits)

function parse_inline_json_tool_calls :: "'e openai_io \<Rightarrow> tool_spec list \<Rightarrow> str \<Rightarrow> call_params list" where
  "parse_inline_json_tool_calls io tools s = (case extract_first_json_object (dropWhile (\<lambda>c. c \<noteq> 123) s) of
     None \<Rightarrow> []
   | Some (obj, rest) \<Rightarrow> inline_call io tools obj @ parse_inline_json_tool_calls io tools rest)"
  by pat_completeness auto
termination
proof (relation "measure (\<lambda>(_, _, s). length s)")
  fix io :: "'e openai_io" and tools :: "tool_spec list" and s x obj rest
  assume "extract_first_json_object (dropWhile (\<lambda>c. c \<noteq> 123) s) = Some x" "(obj, rest) = x"
  then obtain n where "scan_object 0 False False (dropWhile (\<lambda>c. c \<noteq> 123) s) = Some n"
    "rest = drop n (dropWhile (\<lambda>c. c \<noteq> 123) s)" "dropWhile (\<lambda>c. c \<noteq> 123) s \<noteq> []"
    by (auto simp: extract_first_json_object_def split: if_splits)
  then show "((io, tools, rest), io, tools, s) \<in> measure (\<lambda>(_, _, s). length s)"
    using scan_object_pos length_dropWhile_le [of "\<lambda>c. c \<noteq> 123" s] by fastforce
qed simp

declare parse_inline_json_tool_calls.simps [simp del]

section \<open>Taking markers out\<close>

function strip_sections :: "str \<Rightarrow> str" where
  "strip_sections s = (case split_once s TOOL_CALLS_SECTION_BEGIN of
     None \<Rightarrow> s
   | Some (a, rest) \<Rightarrow> (case split_once rest TOOL_CALLS_SECTION_END of
        Some (_, b) \<Rightarrow> strip_sections (a @ b)
      | None \<Rightarrow> a))"
  by pat_completeness auto
termination
  by (relation "measure length") (auto dest!: split_once_length simp: TOOL_CALLS_SECTION_BEGIN_def)

declare strip_sections.simps [simp del]

text \<open>\<open>str::replace\<close> by one blank.\<close>

function blank_out :: "str \<Rightarrow> str \<Rightarrow> str" where
  "blank_out p s = (if p = [] then s else case split_once s p of
     None \<Rightarrow> s | Some (a, rest) \<Rightarrow> a @ 32 # blank_out p rest)"
  by pat_completeness auto
termination by (relation "measure (\<lambda>(p, s). length s)") (auto dest!: split_once_length)

declare blank_out.simps [simp del]

definition tool_markers :: "str list" where
  "tool_markers = [TOOL_CALL_BEGIN, TOOL_CALL_ARGUMENT_BEGIN, TOOL_CALL_ARGUMENT_END, TOOL_CALL_END,
     TOOL_CALLS_SECTION_BEGIN, TOOL_CALLS_SECTION_END]"

definition strip_tokenized_tool_markup :: "str \<Rightarrow> str" where
  "strip_tokenized_tool_markup s = trim (fold blank_out tool_markers (strip_sections s))"

definition key_of :: "string \<Rightarrow> str" where "key_of k = [34] @ lit k @ [34]"

definition looks_like_tool_directive :: "str \<Rightarrow> bool" where
  "looks_like_tool_directive s = (contains_str (to_ascii_lowercase s) (lit ''using tool:'')
     \<or> contains_str s (key_of ''name'') \<and> contains_str s (key_of ''arguments''))"

definition has_tool_markers :: "str \<Rightarrow> bool" where
  "has_tool_markers s = (list_ex (contains_str s) tool_markers \<or> looks_like_tool_directive s)"

text \<open>The texts of a message changed, and those that are blank afterwards left out.\<close>

fun map_text :: "(str \<Rightarrow> str) \<Rightarrow> message_content \<Rightarrow> message_content" where
  "map_text f (Text t) = Text (t\<lparr>text_str := f (text_str t)\<rparr>)"
| "map_text f c = c"

definition not_blank :: "message_content \<Rightarrow> bool" where
  "not_blank c = (case as_text c of Some s \<Rightarrow> trim s \<noteq> [] | None \<Rightarrow> True)"

definition sanitize_texts :: "(str \<Rightarrow> str) \<Rightarrow> message \<Rightarrow> message" where
  "sanitize_texts f m = m\<lparr>content := filter not_blank (map (map_text f) (content m))\<rparr>"

definition sanitize_message_after_tokenized_parse :: "message \<Rightarrow> message" where
  "sanitize_message_after_tokenized_parse = sanitize_texts strip_tokenized_tool_markup"

definition sanitize_message_after_json_tool_parse :: "message \<Rightarrow> message" where
  "sanitize_message_after_json_tool_parse = sanitize_texts (\<lambda>s. if looks_like_tool_directive s then [] else s)"

definition without_markers :: "str \<Rightarrow> str" where
  "without_markers s = (if has_tool_markers s
     then let t = strip_tokenized_tool_markup s in if looks_like_tool_directive t then [] else t
     else s)"

definition sanitize_residual_markers :: "message \<Rightarrow> message" where
  "sanitize_residual_markers m =
     (if list_ex (\<lambda>c. case as_text c of Some s \<Rightarrow> has_tool_markers s | None \<Rightarrow> False) (content m)
      then sanitize_texts without_markers m else m)"

section \<open>An answer with its calls\<close>

fun append_tool_calls_to_message ::
    "('w, 'e) shim_env \<Rightarrow> message \<Rightarrow> call_params list \<Rightarrow> 'w \<Rightarrow> 'w \<times> message" where
  "append_tool_calls_to_message env m [] w = (w, m)"
| "append_tool_calls_to_message env m (c # cs) w =
     (if tool_name c \<noteq> lit ''noop''
      then case fresh_uuid env w of (w1, i) \<Rightarrow> append_tool_calls_to_message env (with_tool_request i (Ok c) m) cs w1
      else append_tool_calls_to_message env m cs w)"

definition augment_message_with_tool_calls ::
    "('w, 'e) shim_env \<Rightarrow> (str \<Rightarrow> tool_spec list \<Rightarrow> 'w \<Rightarrow> 'w \<times> (provider_error, call_params list) result) \<Rightarrow> message \<Rightarrow>
     tool_spec list \<Rightarrow> 'w \<Rightarrow> 'w \<times> (provider_error, message) result" where
  "augment_message_with_tool_calls env interpret_calls m tools w =
     (let txt = join_with [newline] (List.map_filter as_text (content m));
          direct = parse_tokenized_tool_calls (shim_json env) tools txt;
          inline = parse_inline_json_tool_calls (shim_json env) tools txt
      in if tools = [] \<or> trim txt = [] then (w, Ok m)
         else if direct \<noteq> [] then
           (case append_tool_calls_to_message env (sanitize_message_after_tokenized_parse m) direct w of (w1, m') \<Rightarrow> (w1, Ok m'))
         else if inline \<noteq> [] then
           (case append_tool_calls_to_message env (sanitize_message_after_json_tool_parse m) inline w of (w1, m') \<Rightarrow> (w1, Ok m'))
         else if list_ex is_tool_request (content m) then (w, Ok (sanitize_residual_markers m))
         else case interpret_calls txt tools w of
           (w1, Err e) \<Rightarrow> (w1, Err e)
         | (w1, Ok calls) \<Rightarrow>
             if calls = [] then (w1, Ok (sanitize_residual_markers m))
             else (case append_tool_calls_to_message env m calls w1 of (w2, m') \<Rightarrow> (w2, Ok (sanitize_residual_markers m'))))"

definition augment_message_with_selected_tool_interpreter ::
    "('w, 'e) shim_env \<Rightarrow> str \<Rightarrow> str \<Rightarrow> message \<Rightarrow> tool_spec list \<Rightarrow> 'w \<Rightarrow> 'w \<times> (provider_error, message) result" where
  "augment_message_with_selected_tool_interpreter env ollama_text local_text m tools w =
     (case get_toolshim_backend env of
        Err e \<Rightarrow> (w, Err e)
      | Ok OllamaBackend \<Rightarrow> (case ollama_ready env of Err e \<Rightarrow> (w, Err e)
          | Ok _ \<Rightarrow> augment_message_with_tool_calls env (interpret_ollama env ollama_text) m tools w)
      | Ok LocalBackend \<Rightarrow> (case resolve_local_interpreter_model env of Err e \<Rightarrow> (w, Err e)
          | Ok chosen \<Rightarrow> augment_message_with_tool_calls env (interpret_local env chosen local_text) m tools w))"

text \<open>When the search for calls fails the answer is shown without its markers, \<open>agents/reply_parts.rs\<close>.\<close>

definition toolshim_postprocess ::
    "('w, 'e) shim_env \<Rightarrow> str \<Rightarrow> str \<Rightarrow> message \<Rightarrow> tool_spec list \<Rightarrow> 'w \<Rightarrow> 'w \<times> message" where
  "toolshim_postprocess env ollama_text local_text m tools w =
     (case augment_message_with_selected_tool_interpreter env ollama_text local_text m tools w of
        (w1, Ok m') \<Rightarrow> (w1, m') | (w1, Err e) \<Rightarrow> (w1, sanitize_residual_markers m))"

section \<open>Calls and results as text\<close>

definition format_tool_info :: "('w, 'e) shim_env \<Rightarrow> tool_spec list \<Rightarrow> str" where
  "format_tool_info env tools = concat (map (\<lambda>t. lit ''Tool Name: '' @ spec_name t @ [newline] @ lit ''Schema: ''
     @ pretty_object env (input_schema t) @ [newline] @ lit ''Description: '' @ debug_description env (spec_description t)
     @ [newline, newline]) tools)"

definition json_example :: str where
  "json_example = lit ''{'' @ [newline] @ lit ''  '' @ key_of ''name'' @ lit '': '' @ key_of ''tool_name'' @ lit '','' @ [newline]
     @ lit ''  '' @ key_of ''arguments'' @ lit '': {'' @ [newline]
     @ lit ''    '' @ key_of ''parameter1'' @ lit '': '' @ key_of ''value1'' @ lit '','' @ [newline]
     @ lit ''    '' @ key_of ''parameter2'' @ lit '': '' @ key_of ''value2'' @ [newline] @ lit '' }'' @ [newline] @ lit ''}''"

definition modify_system_prompt_for_tool_json :: "('w, 'e) shim_env \<Rightarrow> str \<Rightarrow> tool_spec list \<Rightarrow> str" where
  "modify_system_prompt_for_tool_json env prompt tools = prompt @ [newline, newline] @ format_tool_info env tools
     @ [newline, newline] @ lit ''Break down your task into smaller steps and do one step and tool call at a time. ''
     @ lit ''Do not try to use multiple tools at once. ''
     @ lit ''If you want to use a tool, tell the user what tool to use by specifying the tool in this JSON format'' @ [newline]
     @ json_example
     @ lit ''. After you get the tool result back, consider the result and then proceed to do the next step and tool call if required.''"

definition content_to_text :: "('w, 'e) shim_env \<Rightarrow> message_content \<Rightarrow> message_content" where
  "content_to_text env c = (case c of
     ToolRequest r \<Rightarrow> mk_text (case tool_call r of
       Ok call \<Rightarrow> lit ''Using tool: '' @ tool_name call @ [newline] @ lit ''{'' @ [newline] @ lit ''  '' @ key_of ''name'' @ lit '': ''
         @ [34] @ tool_name call @ [34] @ lit '','' @ [newline] @ lit ''  '' @ key_of ''arguments'' @ lit '': ''
         @ pretty_arguments env (arguments call) @ [newline] @ lit ''}''
     | Err _ \<Rightarrow> lit ''Tool request failed'')
   | ToolResponse r \<Rightarrow> mk_text (case tool_result r of
       Ok res \<Rightarrow> lit ''Tool result:'' @ [newline]
         @ join_with [newline] (List.map_filter (\<lambda>k. raw_as_text (raw k)) (result_content res))
     | Err e \<Rightarrow> lit ''Tool error: '' @ print_error env e)
   | _ \<Rightarrow> c)"

definition is_tool_content :: "message_content \<Rightarrow> bool" where
  "is_tool_content c = (case c of ToolRequest _ \<Rightarrow> True | ToolResponse _ \<Rightarrow> True | _ \<Rightarrow> False)"

definition convert_tool_messages_to_text :: "('w, 'e) shim_env \<Rightarrow> message list \<Rightarrow> message list" where
  "convert_tool_messages_to_text env ms = map (\<lambda>m. if list_ex is_tool_content (content m)
     then message_new (role m) (created m) (map (content_to_text env) (content m)) else m) ms"

section \<open>Laws of the markers\<close>

lemma contains_iff: "contains_str s p = sublist p s"
proof (induction s)
  case (Cons c s)
  then show ?case by (auto simp: starts_with_iff sublist_Cons_right)
qed simp

lemma split_once_None: "split_once s p = None \<longleftrightarrow> \<not> sublist p s"
proof (induction s)
  case (Cons c s)
  then show ?case
    by (auto simp: sublist_Cons_right strip_prefix_None starts_with_iff prefix_def split: option.splits)
qed simp

lemma split_once_first: "split_once s p = Some (a, b) \<Longrightarrow> p \<noteq> [] \<Longrightarrow> \<not> sublist p a"
proof (induction s arbitrary: a)
  case (Cons c s)
  show ?case
  proof (cases "strip_prefix (c # s) p")
    case None
    then obtain a' where a: "split_once s p = Some (a', b)" "a = c # a'" using Cons.prems(1) by auto
    have "\<not> prefix p ((c # a') @ p @ b)"
      using None split_once_Some [OF a(1)] by (simp add: strip_prefix_None)
    then have "\<not> prefix p (c # a')" by (metis prefix_prefix)
    then show ?thesis using Cons.IH [OF a(1) Cons.prems(2)] by (simp add: a(2) sublist_Cons_right)
  next
    case (Some r)
    then have "a = []" using Cons.prems(1) by (simp del: strip_prefix_Some)
    then show ?thesis using Cons.prems(2) by simp
  qed
qed (auto split: if_splits)

text \<open>Something without a blank in it that is found in two pieces joined by a blank is found in one of them.\<close>

lemma sublist_across_blank: "sublist m (a @ 32 # b :: str) \<Longrightarrow> 32 \<notin> set m \<Longrightarrow> sublist m a \<or> sublist m b"
proof -
  assume s: "sublist m (a @ 32 # b)" and n: "32 \<notin> set m"
  obtain u v where uv: "a @ 32 # b = u @ m @ v" using s by (auto simp: sublist_def)
  show ?thesis
  proof (cases "length a < length u")
    case True
    then have "sublist m b" using uv
      by (auto simp: append_eq_append_conv2 Cons_eq_append_conv sublist_def)
    then show ?thesis ..
  next
    case False
    let ?w = "drop (length u) a"
    have w: "a = u @ ?w" "?w @ 32 # b = m @ v"
      using False arg_cong [OF uv, of "drop (length u)"] arg_cong [OF uv, of "take (length u)"]
        append_take_drop_id [of "length u" a] by simp_all
    then have "prefix m ?w" using n by (auto simp: append_eq_append_conv2 Cons_eq_append_conv prefix_def)
    then obtain z where "?w = m @ z" by (auto simp: prefix_def)
    then have "a = u @ m @ z" using w(1) by simp
    then show ?thesis by (auto simp: sublist_def)
  qed
qed

lemma blank_out_gone: "p \<noteq> [] \<Longrightarrow> 32 \<notin> set p \<Longrightarrow> \<not> sublist p (blank_out p s)"
proof (induction p s rule: blank_out.induct)
  case (1 p s)
  show ?case
  proof (cases "split_once s p")
    case None
    then have "blank_out p s = s" by (subst blank_out.simps) simp
    then show ?thesis using None by (simp add: split_once_None)
  next
    case (Some x)
    obtain a b where x: "x = (a, b)" by (cases x)
    have "\<not> sublist p (blank_out p b)" using 1 Some x by simp
    moreover have "\<not> sublist p a" using split_once_first Some x 1(2) by blast
    moreover have "blank_out p s = a @ 32 # blank_out p b" using Some x 1(2) by (subst blank_out.simps) simp
    ultimately show ?thesis using sublist_across_blank 1(3) by metis
  qed
qed

lemma blank_out_keeps: "p \<noteq> [] \<Longrightarrow> 32 \<notin> set m \<Longrightarrow> \<not> sublist m s \<Longrightarrow> \<not> sublist m (blank_out p s)"
proof (induction p s rule: blank_out.induct)
  case (1 p s)
  show ?case
  proof (cases "split_once s p")
    case None
    then show ?thesis using 1 by (subst blank_out.simps) simp
  next
    case (Some x)
    obtain a b where x: "x = (a, b)" by (cases x)
    have s: "s = a @ p @ b" using Some x by (simp add: split_once_Some)
    then have m: "\<not> sublist m a" "\<not> sublist m b" using 1(4) by (auto simp: sublist_appendI sublist_append)
    have "\<not> sublist m (blank_out p b)" using 1 Some x m(2) by simp
    moreover have "blank_out p s = a @ 32 # blank_out p b" using Some x 1(2) by (subst blank_out.simps) simp
    ultimately show ?thesis using sublist_across_blank 1(3) m(1) by metis
  qed
qed

lemma markers_plain: "m \<in> set tool_markers \<Longrightarrow> m \<noteq> [] \<and> 32 \<notin> set m"
  by (auto simp: tool_markers_def TOOL_CALL_BEGIN_def TOOL_CALL_ARGUMENT_BEGIN_def TOOL_CALL_ARGUMENT_END_def
      TOOL_CALL_END_def TOOL_CALLS_SECTION_BEGIN_def TOOL_CALLS_SECTION_END_def)

lemma fold_blank_out_gone:
  "\<forall>p \<in> set ps. p \<noteq> [] \<and> 32 \<notin> set p \<Longrightarrow> m \<in> set ps \<or> m \<noteq> [] \<and> 32 \<notin> set m \<and> \<not> sublist m s \<Longrightarrow> \<not> sublist m (fold blank_out ps s)"
proof (induction ps arbitrary: s)
  case (Cons p ps)
  show ?case
  proof (cases "m \<in> set ps")
    case True
    then show ?thesis using Cons by simp
  next
    case False
    then have "\<not> sublist m (blank_out p s)" using Cons.prems blank_out_gone [of p s] blank_out_keeps [of p m s] by auto
    then show ?thesis using Cons by (cases "m = p") auto
  qed
qed simp

lemma trim_sublist: "sublist (trim s) s"
proof -
  obtain w where "trim_start s = trim (s) @ w" using trim_end_prefix [of "trim_start s"] by (auto simp: trim_def)
  moreover have "s = takeWhile is_ws s @ trim_start s" by (simp add: trim_start_def)
  ultimately show ?thesis unfolding sublist_def by metis
qed

lemma stripped_has_no_markers: "m \<in> set tool_markers \<Longrightarrow> \<not> sublist m (strip_tokenized_tool_markup s)"
proof
  assume m: "m \<in> set tool_markers" and "sublist m (strip_tokenized_tool_markup s)"
  then have "sublist m (fold blank_out tool_markers (strip_sections s))"
    unfolding strip_tokenized_tool_markup_def using trim_sublist sublist_order.order_trans by blast
  then show False using fold_blank_out_gone markers_plain m by blast
qed

lemma without_markers_clean: "\<not> has_tool_markers (without_markers s)"
proof -
  have "\<not> has_tool_markers []"
    using markers_plain by (auto simp: has_tool_markers_def looks_like_tool_directive_def contains_iff list_ex_iff
        key_of_def to_ascii_lowercase_def)
  moreover have "list_ex (contains_str (strip_tokenized_tool_markup s)) tool_markers = False"
    using stripped_has_no_markers by (auto simp: list_ex_iff contains_iff)
  ultimately show ?thesis by (simp add: without_markers_def has_tool_markers_def Let_def)
qed

lemma map_text_as_text: "as_text (map_text f c) = map_option f (as_text c)"
  by (cases c) simp_all

text \<open>
  Behind the catch-all no text of an answer holds a marker of a tool call or a directive, and nothing but texts
  is changed.
\<close>

theorem sanitized_has_no_markers:
  "(\<forall>c \<in> set (content (sanitize_residual_markers m)). \<forall>s. as_text c = Some s \<longrightarrow> \<not> has_tool_markers s)
   \<and> filter (\<lambda>c. as_text c = None) (content (sanitize_residual_markers m)) = filter (\<lambda>c. as_text c = None) (content m)"
proof -
  have "filter (\<lambda>c. as_text c = None) (filter not_blank (map (map_text f) cs)) = filter (\<lambda>c. as_text c = None) cs" for f cs
  proof (induction cs)
    case (Cons c cs)
    then show ?case by (cases c) (auto simp: not_blank_def)
  qed simp
  then show ?thesis
    using without_markers_clean
    by (auto simp: sanitize_residual_markers_def sanitize_texts_def map_text_as_text list_ex_iff split: option.splits)
qed

section \<open>Laws of the calls\<close>

lemma unique_suffix_known: "unique_suffix names c = Some t \<Longrightarrow> t \<in> set names"
proof -
  assume u: "unique_suffix names c = Some t"
  let ?ns = "remdups_adj (sort (filter (\<lambda>n. ends_with n (lit ''__'' @ c)) names))"
  have "?ns = [t]" using u by (auto simp: unique_suffix_def split: list.splits)
  then have "t \<in> set ?ns" by (simp only: list.set_intros)
  then show ?thesis by simp
qed

lemma resolved_name_known: "resolve_tool_name n tools = Some t \<Longrightarrow> t \<in> spec_name ` set tools"
  by (auto simp: resolve_tool_name_def Let_def dest!: first_some_Some find_Some_mem unique_suffix_known split: option.splits)

lemma tokenized_call_known: "c \<in> set (tokenized_call io tools s) \<Longrightarrow> tool_name c \<in> spec_name ` set tools"
proof -
  assume c: "c \<in> set (tokenized_call io tools s)"
  then obtain n a where 1: "name_and_arguments s = Some (n, a)"
    by (cases "name_and_arguments s") (auto simp: tokenized_call_def)
  then obtain v where 2: "parse_json_value_tolerant io a = Some v"
    using c by (cases "parse_json_value_tolerant io a") (auto simp: tokenized_call_def)
  note n = 1 2
  show ?thesis
  proof (cases "resolve_tool_name n tools")
    case None
    then have "maybe_convert_execute_to_shell_tool_call n v tools = Some c"
      using c n by (auto simp: tokenized_call_def split: option.splits)
    then show ?thesis
      by (cases "resolve_tool_name (lit ''shell'') tools")
        (auto simp: maybe_convert_execute_to_shell_tool_call_def dest!: resolved_name_known simp del: lit_Cons split: option.splits if_splits)
  next
    case (Some t)
    then have "tool_name c = t" using c n by (auto simp: tokenized_call_def split: json.splits)
    then show ?thesis using resolved_name_known [OF Some] by simp
  qed
qed

lemma inline_call_known: "c \<in> set (inline_call io tools s) \<Longrightarrow> tool_name c \<in> spec_name ` set tools"
  by (auto simp: inline_call_def simp del: lit_Cons dest: resolved_name_known [OF sym] resolved_name_known split: option.splits)

text \<open>
  A call found in the text of an answer, between markers or as JSON, is a call of one of the tools that were
  offered, however the model wrote its name.
\<close>

theorem found_calls_are_offered:
  "\<forall>c \<in> set (parse_tokenized_tool_calls io tools s) \<union> set (parse_inline_json_tool_calls io tools s).
     tool_name c \<in> spec_name ` set tools"
proof -
  have "c \<in> set (parse_tokenized_tool_calls io tools s) \<Longrightarrow> tool_name c \<in> spec_name ` set tools" for c
  proof (induction io tools s rule: parse_tokenized_tool_calls.induct)
    case (1 io tools s)
    obtain a after inner rest where p: "split_once s TOOL_CALL_BEGIN = Some (a, after)" "split_once after TOOL_CALL_END = Some (inner, rest)"
      "c \<in> set (tokenized_call io tools inner @ parse_tokenized_tool_calls io tools rest)"
      using 1(2) [unfolded parse_tokenized_tool_calls.simps [of io tools s]]
      by (cases "split_once s TOOL_CALL_BEGIN"; cases "split_once (snd (the (split_once s TOOL_CALL_BEGIN))) TOOL_CALL_END") auto
    then show ?case using tokenized_call_known 1(1) [OF p(1) refl p(2) refl] by auto
  qed
  moreover have "c \<in> set (parse_inline_json_tool_calls io tools s) \<Longrightarrow> tool_name c \<in> spec_name ` set tools" for c
  proof (induction io tools s rule: parse_inline_json_tool_calls.induct)
    case (1 io tools s)
    obtain obj rest where p: "extract_first_json_object (dropWhile (\<lambda>c. c \<noteq> 123) s) = Some (obj, rest)"
      "c \<in> set (inline_call io tools obj @ parse_inline_json_tool_calls io tools rest)"
      using 1(2) [unfolded parse_inline_json_tool_calls.simps [of io tools s]]
      by (cases "extract_first_json_object (dropWhile (\<lambda>c. c \<noteq> 123) s)") auto
    then show ?case using inline_call_known 1(1) [OF p(1) refl] by auto
  qed
  ultimately show ?thesis by blast
qed

text \<open>The second model is not held to them: any name it writes is called.\<close>

lemma interpreted_name_unchecked:
  "parse_json io s = Ok (JObject [(lit ''tool_calls'', JArray [JObject [(lit ''name'', JString n), (lit ''arguments'', JObject [])]])])
   \<Longrightarrow> map tool_name (process_interpreter_response io (JObject [(lit ''message'', JObject [(lit ''content'', JString s)])])) = [n]"
  by (simp add: process_interpreter_response_def interpreted_call_def map_filter_simps)

text \<open>One brace that is not closed hides every call behind it.\<close>

lemma stray_brace_hides_call:
  "parse_inline_json_tool_calls io tools (lit ''{ '' @ lit ''{'' @ key_of ''name'' @ lit '':'' @ key_of ''shell'' @ lit '',''
     @ key_of ''arguments'' @ lit '':{}}'') = []"
  by (subst parse_inline_json_tool_calls.simps) (simp add: extract_first_json_object_def key_of_def)

text \<open>A message that had calls between markers keeps a directive, which the catch-all would have taken out.\<close>

lemma directive_left_in:
  "strip_tokenized_tool_markup (lit ''Using tool: x <|tool_call_begin|>shell{}<|tool_call_end|>'') = lit ''Using tool: x  shell{}''"
  "has_tool_markers (lit ''Using tool: x  shell{}'')"
proof -
  have plain: "split_once s m = None" if "60 \<notin> set s" "m \<in> set tool_markers" for s m
  proof -
    have "60 \<in> set m" using that(2) by (auto simp: tool_markers_def TOOL_CALL_BEGIN_def TOOL_CALL_ARGUMENT_BEGIN_def
        TOOL_CALL_ARGUMENT_END_def TOOL_CALL_END_def TOOL_CALLS_SECTION_BEGIN_def TOOL_CALLS_SECTION_END_def)
    then show ?thesis using that(1) set_mono_sublist [of m s] by (auto simp: split_once_None)
  qed
  show "strip_tokenized_tool_markup (lit ''Using tool: x <|tool_call_begin|>shell{}<|tool_call_end|>'') = lit ''Using tool: x  shell{}''"
    by (simp add: strip_tokenized_tool_markup_def tool_markers_def TOOL_CALL_BEGIN_def TOOL_CALL_ARGUMENT_BEGIN_def
        TOOL_CALL_ARGUMENT_END_def TOOL_CALL_END_def TOOL_CALLS_SECTION_BEGIN_def TOOL_CALLS_SECTION_END_def
        strip_sections.simps blank_out.simps trim_def trim_start_def trim_end_def is_ws_def)
  show "has_tool_markers (lit ''Using tool: x  shell{}'')"
    by (simp add: has_tool_markers_def looks_like_tool_directive_def to_ascii_lowercase_def ascii_lower_def starts_with_def)
qed

section \<open>Laws of the conversion\<close>

text \<open>Behind the conversion no call and no result is left, and who spoke when is the same.\<close>

lemma converted_to_text:
  "list_all (\<lambda>m. \<not> list_ex is_tool_content (content m)) (convert_tool_messages_to_text env ms)
   \<and> map (\<lambda>m. (role m, created m, length (content m))) (convert_tool_messages_to_text env ms)
     = map (\<lambda>m. (role m, created m, length (content m))) ms"
proof -
  have "\<not> is_tool_content (content_to_text env c)" for c
    by (cases c) (simp_all add: content_to_text_def is_tool_content_def mk_text_def)
  then show ?thesis
    by (auto simp: convert_tool_messages_to_text_def list_all_iff list_ex_iff message_new_def)
qed

end
