(* ===== verification/ResponseStream.thy ===== *)
theory ResponseStream
  imports StreamGuard Toolshim Conversation
begin

text \<open>
  One turn with the provider, \<open>stream_response_from_provider\<close> in \<open>crates/bharatcode-core/src/agents/reply_parts.rs\<close>:
  what is sent, the prompt cache (\<open>prompt_cache.rs\<close>), the fallback models, the guard, the toolshim mode that holds
  the answer back until it is complete, and the progress lines of \<open>stream_announcer.rs\<close>. The throughput meter,
  the performance probe and the breadcrumb for editors only observe and are left out.
\<close>

section \<open>The prompt cache\<close>

record 's cached_completion =
  cached_message :: message
  cached_usage :: "'s provider_usage"

definition truthy_values :: "str list" where
  "truthy_values = map lit [''1'', ''true'', ''TRUE'', ''True'', ''yes'', ''YES'', ''Yes'', ''on'', ''ON'', ''On'']"

definition cache_enabled :: "str option \<Rightarrow> bool" where
  "cache_enabled var = (case map_option trim var of Some v \<Rightarrow> v \<in> set truthy_values | None \<Rightarrow> False)"

text \<open>What the key is the digest of; the digest is a parameter.\<close>

record key_input =
  key_provider :: str
  key_model :: str
  key_system :: str
  key_messages :: "message list"
  key_tools :: "tool_spec list"

definition default_usage :: usage where
  "default_usage = \<lparr>input_tokens = None, output_tokens = None, total_tokens = None, cache_read_input_tokens = None,
     cache_write_input_tokens = None\<rparr>"

definition zero_cost_usage :: "'s provider_usage \<Rightarrow> 's provider_usage" where
  "zero_cost_usage u = new_provider_usage (model u) default_usage"

text \<open>A call that is not streamed, through the cache.\<close>

definition cached_complete ::
    "bool \<Rightarrow> (key_input \<Rightarrow> 'k) \<Rightarrow> ('w \<Rightarrow> 'k \<Rightarrow> 's cached_completion option) \<Rightarrow> ('k \<Rightarrow> 's cached_completion \<Rightarrow> 'w \<Rightarrow> 'w) \<Rightarrow> key_input \<Rightarrow>
     ('w \<Rightarrow> 'w \<times> (provider_error, message \<times> 's provider_usage) result) \<Rightarrow> 'w \<Rightarrow>
     'w \<times> (provider_error, message \<times> 's provider_usage) result" where
  "cached_complete enabled digest lookup store i compute w =
     (if \<not> enabled then compute w
      else case lookup w (digest i) of
        Some hit \<Rightarrow> (w, Ok (cached_message hit, zero_cost_usage (cached_usage hit)))
      | None \<Rightarrow> (case compute w of
            (w1, Err e) \<Rightarrow> (w1, Err e)
          | (w1, Ok (m, u)) \<Rightarrow> (store (digest i) \<lparr>cached_message = m, cached_usage = u\<rparr> w1, Ok (m, u))))"

section \<open>Putting a message together\<close>

text \<open>The contents of a further piece: a text goes on the last one when that is a text.\<close>

fun add_content :: "message_content list \<Rightarrow> message_content \<Rightarrow> message_content list" where
  "add_content cs (Text t) = (if cs \<noteq> [] then (case last cs of
       Text l \<Rightarrow> butlast cs @ [Text (l\<lparr>text_str := text_str l @ text_str t\<rparr>)] | _ \<Rightarrow> cs @ [Text t]) else [Text t])"
| "add_content cs c = cs @ [c]"

definition add_message :: "message option \<Rightarrow> message \<Rightarrow> message option" where
  "add_message acc m = Some (case acc of
     Some prev \<Rightarrow> prev\<lparr>content := foldl add_content (content prev) (content m)\<rparr> | None \<Rightarrow> m)"

text \<open>
  The items of a stream as its consumer gets them, to its first error; what has been put together is stored when
  the end is reached without one.
\<close>

type_synonym 's item = "message option \<times> 's provider_usage option"

fun collected_parts :: "'s stream_item list \<Rightarrow> message option \<Rightarrow> 's provider_usage option \<Rightarrow> (message option \<times> 's provider_usage option) option" where
  "collected_parts [] acc u = Some (acc, u)"
| "collected_parts (Err e # is) acc u = None"
| "collected_parts (Ok (m, v) # is) acc u =
     collected_parts is (case m of Some x \<Rightarrow> add_message acc x | None \<Rightarrow> acc) (case v of Some y \<Rightarrow> Some y | None \<Rightarrow> u)"

definition stored_completion :: "'s stream_item list \<Rightarrow> 's cached_completion option" where
  "stored_completion is = (case collected_parts is None None of
     Some (Some m, u) \<Rightarrow> Some \<lparr>cached_message = m,
       cached_usage = (case u of Some v \<Rightarrow> v | None \<Rightarrow> new_provider_usage (lit ''unknown'') default_usage)\<rparr>
   | _ \<Rightarrow> None)"

fun to_first_error :: "'s stream_item list \<Rightarrow> 's stream_item list" where
  "to_first_error [] = []"
| "to_first_error (Err e # is) = [Err e]"
| "to_first_error (Ok i # is) = Ok i # to_first_error is"

section \<open>Progress lines\<close>

datatype locale_tag = En | Hi | Ta

definition announcer_truthy :: "str \<Rightarrow> bool" where
  "announcer_truthy v = (to_ascii_lowercase (trim v) \<in> set (map lit [''1'', ''true'', ''yes'', ''on'', ''enable'', ''enabled'']))"

definition announcer_enabled :: "str option \<Rightarrow> bool" where
  "announcer_enabled var = (case var of Some v \<Rightarrow> announcer_truthy v | None \<Rightarrow> False)"

definition normalize_locale :: "str \<Rightarrow> locale_tag" where
  "normalize_locale v = (let primary = takeWhile (\<lambda>c. c \<noteq> 95 \<and> c \<noteq> 45 \<and> c \<noteq> 46) (to_ascii_lowercase (trim v)) in
     if primary = lit ''hi'' then Hi else if primary = lit ''ta'' then Ta else En)"

text \<open>The environment, then the configuration, then \<open>LANG\<close>, each when it is not blank.\<close>

definition active_locale :: "str option list \<Rightarrow> locale_tag" where
  "active_locale sources = (case find (\<lambda>v. trim v \<noteq> []) (List.map_filter id sources) of
     Some v \<Rightarrow> normalize_locale v | None \<Rightarrow> En)"

definition progress_line :: "locale_tag \<Rightarrow> nat \<Rightarrow> str" where
  "progress_line l secs = (case l of
     En \<Rightarrow> lit ''Working'' @ [8230, 32] @ show_nat secs @ lit ''s elapsed''
   | Hi \<Rightarrow> [2325, 2366, 2350, 32, 2332, 2366, 2352, 2368, 32, 2361, 2376, 8230, 32] @ show_nat secs
       @ [2360, 2375, 32, 2348, 2368, 2340, 32, 2327, 2319]
   | Ta \<Rightarrow> [2997, 3015, 2994, 3016, 32, 2984, 2975, 2965, 3021, 2965, 3007, 2993, 2980, 3009, 8230, 32] @ show_nat secs
       @ [2997, 3007, 32, 2965, 2975, 2984, 3021, 2980, 2980, 3009])"

text \<open>An announcer is the time of its last line; times are milliseconds since the stream started.\<close>

definition ANNOUNCE_INTERVAL :: nat where "ANNOUNCE_INTERVAL = 10000"

definition tick :: "locale_tag \<Rightarrow> nat \<Rightarrow> nat option \<Rightarrow> nat option \<times> str option" where
  "tick l now last_emit =
     (if (case last_emit of None \<Rightarrow> True | Some prev \<Rightarrow> ANNOUNCE_INTERVAL \<le> now - prev)
      then (Some now, Some (progress_line l (now div 1000))) else (last_emit, None))"

section \<open>What comes out of a turn\<close>

text \<open>\<open>announce\<close> is the locale of the announcer where there is one.\<close>

definition progress :: "locale_tag option \<Rightarrow> (str \<Rightarrow> str) \<Rightarrow> int \<Rightarrow> nat \<Rightarrow> nat option \<Rightarrow> nat option \<times> 's stream_item list" where
  "progress announce nfc created_at t emitted = (case announce of
     None \<Rightarrow> (emitted, [])
   | Some l \<Rightarrow> (case tick l t emitted of
        (e, None) \<Rightarrow> (e, [])
      | (e, Some line) \<Rightarrow> (e, [Ok (Some (with_text nfc line (message_assistant created_at)), None)])))"

fun plain_items ::
    "locale_tag option \<Rightarrow> (str \<Rightarrow> str) \<Rightarrow> int \<Rightarrow> nat option \<Rightarrow> (nat \<times> 's stream_item) list \<Rightarrow> 's stream_item list" where
  "plain_items announce nfc at emitted [] = []"
| "plain_items announce nfc at emitted ((t, Err e) # is) = [Err e]"
| "plain_items announce nfc at emitted ((t, Ok i) # is) = (case progress announce nfc at t emitted of
     (emitted', lines) \<Rightarrow> lines @ Ok i # plain_items announce nfc at emitted' is)"

text \<open>In toolshim mode empty items mark the progress, and the answer comes whole at the end.\<close>

fun shim_items ::
    "locale_tag option \<Rightarrow> (str \<Rightarrow> str) \<Rightarrow> int \<Rightarrow> nat option \<Rightarrow> (nat \<times> 's stream_item) list \<Rightarrow> message option \<Rightarrow> 's provider_usage option \<Rightarrow>
     's stream_item list \<times> (message option \<times> 's provider_usage option) option" where
  "shim_items announce nfc at emitted [] acc u = ([], Some (acc, u))"
| "shim_items announce nfc at emitted ((t, Err e) # is) acc u = ([Err e], None)"
| "shim_items announce nfc at emitted ((t, Ok (m, v)) # is) acc u = (case progress announce nfc at t emitted of
     (emitted', lines) \<Rightarrow>
       (case shim_items announce nfc at emitted' is (case m of Some x \<Rightarrow> add_message acc x | None \<Rightarrow> acc)
            (case v of Some y \<Rightarrow> Some y | None \<Rightarrow> u) of
          (out, fin) \<Rightarrow> (lines @ Ok (None, None) # out, fin)))"

definition shim_end ::
    "(message \<Rightarrow> (provider_error, message) result option) \<Rightarrow> message option \<times> 's provider_usage option \<Rightarrow> 's stream_item list \<times> bool" where
  "shim_end postprocess fin = (case fin of
     (Some m, u) \<Rightarrow> (case postprocess m of Some (Ok p) \<Rightarrow> ([Ok (Some p, u)], True) | Some (Err e) \<Rightarrow> ([Err e], True) | None \<Rightarrow> ([], False))
   | (None, Some u) \<Rightarrow> ([Ok (None, Some u)], True)
   | (None, None) \<Rightarrow> ([], True))"

text \<open>The items, and whether the stream comes to its end.\<close>

definition produced_items ::
    "bool \<Rightarrow> locale_tag option \<Rightarrow> (str \<Rightarrow> str) \<Rightarrow> int \<Rightarrow> (message \<Rightarrow> (provider_error, message) result option) \<Rightarrow>
     (nat \<times> 's stream_item) list \<Rightarrow> bool \<Rightarrow> 's stream_item list \<times> bool" where
  "produced_items shimmed announce nfc at postprocess is ended =
     (if shimmed then (case shim_items announce nfc at None is None None of
         (out, Some fin) \<Rightarrow> if ended then (case shim_end postprocess fin of (fin_items, e) \<Rightarrow> (out @ fin_items, e)) else (out, False)
       | (out, None) \<Rightarrow> (out, ended))
      else (plain_items announce nfc at None is, ended))"

section \<open>The turn\<close>

text \<open>
  Outside: a provider with its name, model and recommended models; the providers once they are given a request,
  with streams of items and their delays; what the retrieval finds for the query; the search for tool calls; the
  cache on the disk.
\<close>

record ('w, 'p, 's, 'k, 'e) turn_io =
  name_of :: "'p \<Rightarrow> str"
  model_of :: "'p \<Rightarrow> str"
  sending :: "str \<Rightarrow> message list \<Rightarrow> tool_spec list \<Rightarrow> ('w, 'p, (nat \<times> 's stream_item) list \<times> nat option) fallback_env"
  uses_toolshim :: bool
  cache_var :: "str option"
  digest_of :: "key_input \<Rightarrow> 'k"
  cache_lookup :: "'w \<Rightarrow> 'k \<Rightarrow> 's cached_completion option"
  cache_store :: "'k \<Rightarrow> 's cached_completion \<Rightarrow> 'w \<Rightarrow> 'w"
  retrieval_block :: "'w \<Rightarrow> str \<Rightarrow> str option"
  recommended_models :: "'p \<Rightarrow> 'w \<Rightarrow> 'w \<times> (provider_error, str list) result future"
  announcer :: "locale_tag option"
  normal :: "str \<Rightarrow> str"
  seconds_now :: "'w \<Rightarrow> int"
  rx :: regex_engine
  shim :: "('w, 'e) shim_env"
  run_shim :: "tool_spec list \<Rightarrow> message \<Rightarrow> 'w \<Rightarrow> 'w \<times> message future"

definition model_error_pattern :: str where
  "model_error_pattern = pat ''(?i)%b4%d{2}%b.*model|model.*%b4%d{2}%b''"

text \<open>The models a provider has, for an error that speaks of one.\<close>

definition enhance_model_error ::
    "('w, 'p, 's, 'k, 'e) turn_io \<Rightarrow> stream_guard \<Rightarrow> 'p \<Rightarrow> provider_error \<Rightarrow> nat \<Rightarrow> 'w \<Rightarrow> ('w \<times> nat \<times> provider_error) option" where
  "enhance_model_error io g p e now w = (case e of
     RequestFailed msg \<Rightarrow>
       (if \<not> rx_is_match (rx io) model_error_pattern msg then Some (w, now, e)
        else case recommended_models io p w of (w1, fut) \<Rightarrow> (case guarded g now fut of
            None \<Rightarrow> None
          | Some (Err _, t) \<Rightarrow> Some (w1, t, e)
          | Some (Ok models, t) \<Rightarrow> Some (w1, t, if models = [] then e
              else RequestFailed (msg @ lit ''. Available models for this provider: '' @ join_with (lit '', '') models))))
   | _ \<Rightarrow> Some (w, now, e))"

definition messages_for_provider :: "('w, 'p, 's, 'k, 'e) turn_io \<Rightarrow> message list \<Rightarrow> message list" where
  "messages_for_provider io ms = (let visible = map agent_visible_content (filter is_agent_visible ms) in
     if uses_toolshim io then convert_tool_messages_to_text (shim io) visible else visible)"

definition key_of_turn :: "('w, 'p, 's, 'k, 'e) turn_io \<Rightarrow> 'p \<Rightarrow> str \<Rightarrow> message list \<Rightarrow> tool_spec list \<Rightarrow> key_input" where
  "key_of_turn io p system ms tools = \<lparr>key_provider = name_of io p, key_model = model_of io p, key_system = system,
     key_messages = messages_for_provider io ms, key_tools = tools\<rparr>"

definition system_with_retrieval :: "('w, 'p, 's, 'k, 'e) turn_io \<Rightarrow> str \<Rightarrow> message list \<Rightarrow> 'w \<Rightarrow> str" where
  "system_with_retrieval io system ms w =
     (case find (\<lambda>m. role m = User \<and> is_user_visible m) (rev ms) of
        Some m \<Rightarrow> (case retrieval_block io w (as_concat_text m) of
            Some block \<Rightarrow> block @ [newline] @ system | None \<Rightarrow> system)
      | None \<Rightarrow> system)"

text \<open>The post-processing of the toolshim is raced against the guard as well.\<close>

definition guarded_shim ::
    "('w, 'p, 's, 'k, 'e) turn_io \<Rightarrow> stream_guard \<Rightarrow> nat \<Rightarrow> tool_spec list \<Rightarrow> 'w \<Rightarrow> message \<Rightarrow> (provider_error, message) result option" where
  "guarded_shim io g now tools w m = map_option fst (guarded g now (map_option (\<lambda>(d, x). (d, Ok x)) (snd (run_shim io tools m w))))"

text \<open>
  A turn whose stream is read to its end or its first error: the items, and whether there is an end. No result
  means that the stream is never created.
\<close>

definition store_completion_on_complete ::
    "('w, 'p, 's, 'k, 'e) turn_io \<Rightarrow> key_input \<Rightarrow> 's stream_item list \<Rightarrow> bool \<Rightarrow> 'w \<Rightarrow> 'w" where
  "store_completion_on_complete io i out ended w =
     (if ended then (case stored_completion out of Some c \<Rightarrow> cache_store io (digest_of io i) c w | None \<Rightarrow> w) else w)"

definition stream_response_from_provider ::
    "('w, 'p, 's, 'k, 'e) turn_io \<Rightarrow> stream_guard \<Rightarrow> 'p \<Rightarrow> str \<Rightarrow> message list \<Rightarrow> tool_spec list \<Rightarrow> tool_spec list \<Rightarrow> nat \<Rightarrow> 'w \<Rightarrow>
     ('w \<times> 's stream_item list \<times> bool) option" where
  "stream_response_from_provider io g p system ms tools shim_tools now w =
     (let enabled = cache_enabled (cache_var io); i = key_of_turn io p system ms tools in
      case (if enabled then cache_lookup io w (digest_of io i) else None) of
        Some hit \<Rightarrow> Some (w, [Ok (Some (cached_message hit), Some (zero_cost_usage (cached_usage hit)))], True)
      | None \<Rightarrow>
          (case stream_with_fallback (sending io (system_with_retrieval io system ms w) (messages_for_provider io ms) tools) g p now w of
             None \<Rightarrow> None
           | Some (w1, t, Err e) \<Rightarrow>
               (if is_abort e then Some (w1, [Err e], True)
                else map_option (\<lambda>(w2, _, e'). (w2, [Err e'], True)) (enhance_model_error io g p e t w1))
           | Some (w1, t, Ok (items, close)) \<Rightarrow>
               (case guard_stream g t items close of (timed, over) \<Rightarrow>
                 (case produced_items (uses_toolshim io) (announcer io) (normal io) (seconds_now io w1)
                     (guarded_shim io g (case over of Some e \<Rightarrow> e | None \<Rightarrow> t) shim_tools w1)
                     (map (\<lambda>(a, x). (a - t, x)) timed) (over \<noteq> None) of
                   (out, ended) \<Rightarrow> Some (if enabled then store_completion_on_complete io i out ended w1 else w1, out, ended)))))"

section \<open>Laws of the cache\<close>

text \<open>A hit asks no provider and costs nothing.\<close>

lemma cache_hit_costs_nothing:
  assumes "cache_enabled (cache_var io)" "cache_lookup io w (digest_of io (key_of_turn io p system ms tools)) = Some hit"
  shows "stream_response_from_provider io g p system ms tools st now w
    = Some (w, [Ok (Some (cached_message hit), Some (zero_cost_usage (cached_usage hit)))], True)
    \<and> usage_of (zero_cost_usage (cached_usage hit)) = default_usage"
  using assms by (simp add: stream_response_from_provider_def zero_cost_usage_def new_provider_usage_def Let_def)

text \<open>What is stored is the whole of a stream without an error; an answer that failed or was aborted never is.\<close>

lemma collected_no_error: "collected_parts is acc u \<noteq> None \<longleftrightarrow> list_all is_ok is"
  by (induction "is" acc u rule: collected_parts.induct) auto

definition texts_of :: "message_content list \<Rightarrow> str" where
  "texts_of cs = concat (List.map_filter as_text cs)"

definition answer_text :: "message option \<Rightarrow> str" where
  "answer_text m = (case m of Some x \<Rightarrow> texts_of (content x) | None \<Rightarrow> [])"

definition item_text :: "'s stream_item \<Rightarrow> str" where
  "item_text i = (case i of Ok (m, _) \<Rightarrow> answer_text m | Err _ \<Rightarrow> [])"

lemma texts_of_append: "texts_of (xs @ ys) = texts_of xs @ texts_of ys"
  by (simp add: texts_of_def List.map_filter_def)

lemma add_content_text: "texts_of (add_content cs c) = texts_of (cs @ [c])"
proof (cases c)
  case (Text t)
  show ?thesis
  proof (cases cs rule: rev_cases)
    case (snoc ys l)
    then show ?thesis by (cases l) (simp_all add: Text texts_of_append, simp_all add: texts_of_def map_filter_simps)
  qed (simp add: Text)
qed simp_all

lemma foldl_add_content_text: "texts_of (foldl add_content cs ds) = texts_of cs @ texts_of ds"
proof (induction ds arbitrary: cs)
  case (Cons d ds)
  then show ?case using texts_of_append [of cs "[d]"] texts_of_append [of "[d]" ds] by (simp add: add_content_text)
qed (simp add: texts_of_def map_filter_simps)

lemma add_message_text: "answer_text (add_message acc m) = answer_text acc @ texts_of (content m)"
  by (cases acc) (simp_all add: add_message_def answer_text_def foldl_add_content_text)

lemma item_text_Ok: "item_text (Ok (m, u)) = answer_text m"
  by (simp add: item_text_def)

lemma answer_text_None: "answer_text None = []"
  by (simp add: answer_text_def)

lemma answer_text_Some: "answer_text (Some m) = texts_of (content m)"
  by (simp add: answer_text_def)

lemma collected_text:
  "collected_parts is acc u = Some (m, v) \<Longrightarrow> answer_text m = answer_text acc @ concat (map item_text is)"
proof (induction "is" acc u rule: collected_parts.induct)
  case (3 m' v' "is" acc u)
  then show ?case by (cases m') (simp_all add: add_message_text item_text_Ok answer_text_None answer_text_Some)
qed simp_all

text \<open>
  The cache gives back what was streamed: an entry is made of a stream that ended without an error, and shows the
  same text.
\<close>

lemma stored_completion_Some:
  assumes "stored_completion out = Some c"
  shows "list_all is_ok out \<and> answer_text (Some (cached_message c)) = concat (map item_text out)"
proof -
  obtain u where c: "collected_parts out None None = Some (Some (cached_message c), u)"
    using assms by (auto simp: stored_completion_def split: option.splits)
  then show ?thesis using collected_no_error [of out None None] collected_text [OF c] by (simp add: answer_text_None)
qed

text \<open>Only a stream that came to its end without an error changes the cache.\<close>

lemma failed_turn_not_stored:
  "\<not> list_all is_ok out \<or> \<not> ended \<Longrightarrow> store_completion_on_complete io i out ended w = w"
  using stored_completion_Some by (auto simp: store_completion_on_complete_def split: option.splits)

text \<open>
  A turn that was stored and is asked again is answered from the cache with the text that was streamed, at no
  cost, when the cache finds what it stored.
\<close>

lemma repeated_turn_is_served:
  assumes "cache_enabled (cache_var io)" "stored_completion out = Some c"
    "cache_lookup io (cache_store io (digest_of io (key_of_turn io p system ms tools)) c w) (digest_of io (key_of_turn io p system ms tools)) = Some c"
  defines "w' \<equiv> store_completion_on_complete io (key_of_turn io p system ms tools) out True w"
  shows "stream_response_from_provider io g p system ms tools st now w'
      = Some (w', [Ok (Some (cached_message c), Some (zero_cost_usage (cached_usage c)))], True)
    \<and> answer_text (Some (cached_message c)) = concat (map item_text out)"
  using assms stored_completion_Some [OF assms(2)]
  by (simp add: cache_hit_costs_nothing store_completion_on_complete_def)

text \<open>
  With the announcer on, its progress lines are items of the stream like any other: the first one becomes part of
  the stored answer, and of every later answer from the cache.
\<close>

lemma progress_line_is_stored:
  assumes "stored_completion (plain_items (Some l) nfc at None ((t, Ok (Some m, u)) # is)) = Some c"
  shows "\<exists>rest. answer_text (Some (cached_message c))
    = texts_of (content (with_text nfc (progress_line l (t div 1000)) (message_assistant at))) @ texts_of (content m) @ rest"
  using stored_completion_Some [OF assms] by (simp add: progress_def tick_def item_text_Ok answer_text_Some)

text \<open>
  Neither the files that the retrieval puts before the prompt nor the chain of fallback models is part of the
  key: an answer given with the one is served without it.
\<close>

lemma retrieval_not_in_key:
  "key_of_turn (io\<lparr>retrieval_block := r, sending := s\<rparr>) p system ms tools = key_of_turn io p system ms tools"
  by (cases "uses_toolshim io") (simp_all add: key_of_turn_def messages_for_provider_def)

section \<open>Laws of a turn\<close>

text \<open>
  What the toolshim streams before its end carries no message of the model: nothing of an answer is shown before
  the calls in it have been found and the markers removed.
\<close>

lemma shim_items_hide_answer:
  "fst (shim_items None nfc at emitted is acc u) = map (\<lambda>_. Ok (None, None)) (takeWhile (is_ok \<circ> snd) is)
     @ map snd (take 1 (dropWhile (is_ok \<circ> snd) is))"
proof (induction "None :: locale_tag option" nfc at emitted "is" acc u rule: shim_items.induct)
  case (3 nfc at emitted t m v "is" acc u)
  then show ?case by (auto simp: progress_def split: prod.splits)
qed simp_all

text \<open>Without the announcer and the toolshim a turn passes the items of the guarded stream on.\<close>

lemma plain_items_pass:
  "plain_items None nfc at emitted is = to_first_error (map snd is)"
  by (induction "None :: locale_tag option" nfc at emitted "is" rule: plain_items.induct) (simp_all add: progress_def)

text \<open>An abort while the stream is created is the whole of the turn, and no other request is made for it.\<close>

lemma abort_ends_turn:
  assumes "\<not> cache_enabled (cache_var io)" "is_abort e"
    "stream_with_fallback (sending io (system_with_retrieval io system ms w) (messages_for_provider io ms) tools) g p now w = Some (w1, t, Err e)"
  shows "stream_response_from_provider io g p system ms tools st now w = Some (w1, [Err e], True)"
  using assms by (simp add: stream_response_from_provider_def Let_def)

text \<open>The lines of an announcer are at least its interval apart.\<close>

lemma ticks_apart:
  "tick l now (Some prev) = (e, Some line) \<Longrightarrow> prev + ANNOUNCE_INTERVAL \<le> now \<and> e = Some now"
  by (auto simp: tick_def ANNOUNCE_INTERVAL_def split: if_splits)

end
