(* ===== verification/GatewayPairing.thy ===== *)
theory GatewayPairing
  imports Message
begin

text \<open>
  Who may talk to the agent from a chat platform, \<open>crates/bharatcode-core/src/gateway/\<close>: the pairing store
  (\<open>pairing.rs\<close>), and the users and pairing states of \<open>mod.rs\<close>. A user is identified by platform and
  identifier only. The configuration file holds the pairings and the codes; a write to it may fail.
\<close>

section \<open>Users and states\<close>

record platform_user =
  platform :: str
  user_id :: str
  display_name :: "str option"

definition same_user :: "platform_user \<Rightarrow> platform_user \<Rightarrow> bool" where
  "same_user u v = (platform u = platform v \<and> user_id u = user_id v)"

datatype pairing_state = Unpaired | PendingCode str int | Paired str int

record pending_code =
  code :: str
  code_gateway :: str
  expires_at :: int

text \<open>
  The map of the store, in the order of its iteration; an insertion under a present user keeps the key, and
  with it the old display name.
\<close>

type_synonym pairing_map = "(platform_user \<times> pairing_state) list"

definition user_get :: "platform_user \<Rightarrow> pairing_map \<Rightarrow> pairing_state" where
  "user_get u ps = (case find (\<lambda>(v, _). same_user u v) ps of Some (_, st) \<Rightarrow> st | None \<Rightarrow> Unpaired)"

definition user_insert :: "platform_user \<Rightarrow> pairing_state \<Rightarrow> pairing_map \<Rightarrow> pairing_map" where
  "user_insert u st ps =
     (if list_ex (\<lambda>(v, _). same_user u v) ps then map (\<lambda>(v, x). (v, if same_user u v then st else x)) ps
      else ps @ [(u, st)])"

definition user_remove :: "platform_user \<Rightarrow> pairing_map \<Rightarrow> pairing_map" where
  "user_remove u ps = filter (\<lambda>(v, _). \<not> same_user u v) ps"

section \<open>State and environment\<close>

text \<open>
  The pairings in memory, and of the configuration the pairings, the codes and the saved gateways with their
  limits; \<open>outside\<close> is everything else.
\<close>

record 'w gateway_state =
  pairings :: pairing_map
  saved_pairings :: pairing_map
  pending_codes :: "pending_code list"
  saved_gateways :: "(str \<times> nat) list"
  outside :: 'w

record 'w gateway_env =
  config_write :: "'w \<Rightarrow> 'w \<times> str option"
  unix_time :: "'w \<Rightarrow> 'w \<times> int"
  upper :: "str \<Rightarrow> str"
  draw :: "'w \<Rightarrow> 'w \<times> nat"

type_synonym ('w, 'a) act = "'w gateway_state \<Rightarrow> 'w gateway_state \<times> (str, 'a) result"

text \<open>The question mark of the source: an error ends the action.\<close>

definition and_then :: "('w, 'a) act \<Rightarrow> ('a \<Rightarrow> ('w, 'b) act) \<Rightarrow> ('w, 'b) act" where
  "and_then m f s = (case m s of (s', Err e) \<Rightarrow> (s', Err e) | (s', Ok x) \<Rightarrow> f x s')"

definition give :: "'a \<Rightarrow> ('w, 'a) act" where
  "give x s = (s, Ok x)"

text \<open>One write of the configuration: the change is made when it succeeds.\<close>

definition write_config ::
    "'w gateway_env \<Rightarrow> str \<Rightarrow> ('w gateway_state \<Rightarrow> 'w gateway_state) \<Rightarrow> ('w, unit) act" where
  "write_config env what change s = (case config_write env (outside s) of
     (w, None) \<Rightarrow> ((change s)\<lparr>outside := w\<rparr>, Ok ())
   | (w, Some e) \<Rightarrow> (s\<lparr>outside := w\<rparr>, Err (what @ e)))"

definition read_time :: "'w gateway_env \<Rightarrow> ('w, int) act" where
  "read_time env s = (case unix_time env (outside s) of (w, t) \<Rightarrow> (s\<lparr>outside := w\<rparr>, Ok t))"

section \<open>The pairing store\<close>

text \<open>A new store holds what the configuration has; a later entry of the same user wins.\<close>

definition load_pairings :: "pairing_map \<Rightarrow> pairing_map" where
  "load_pairings stored = foldl (\<lambda>ps (u, st). user_insert u st ps) [] stored"

definition new_store :: "'w gateway_state \<Rightarrow> 'w gateway_state" where
  "new_store s = s\<lparr>pairings := load_pairings (saved_pairings s)\<rparr>"

definition save_pairings :: "'w gateway_env \<Rightarrow> ('w, unit) act" where
  "save_pairings env = write_config env (lit ''failed to save gateway pairings: '')
     (\<lambda>s. s\<lparr>saved_pairings := pairings s\<rparr>)"

definition pairing_of :: "platform_user \<Rightarrow> ('w, pairing_state) act" where
  "pairing_of u s = (s, Ok (user_get u (pairings s)))"

definition set_pairing :: "'w gateway_env \<Rightarrow> platform_user \<Rightarrow> pairing_state \<Rightarrow> ('w, unit) act" where
  "set_pairing env u st s = save_pairings env (s\<lparr>pairings := user_insert u st (pairings s)\<rparr>)"

definition remove_pairing :: "'w gateway_env \<Rightarrow> platform_user \<Rightarrow> ('w, unit) act" where
  "remove_pairing env u s = save_pairings env (s\<lparr>pairings := user_remove u (pairings s)\<rparr>)"

definition save_codes :: "'w gateway_env \<Rightarrow> pending_code list \<Rightarrow> ('w, unit) act" where
  "save_codes env cs = write_config env (lit ''failed to save pending codes: '') (\<lambda>s. s\<lparr>pending_codes := cs\<rparr>)"

definition store_pending_code :: "'w gateway_env \<Rightarrow> str \<Rightarrow> str \<Rightarrow> int \<Rightarrow> ('w, unit) act" where
  "store_pending_code env c gw t s =
     save_codes env (filter (\<lambda>x. code x \<noteq> c) (pending_codes s) @ [\<lparr>code = c, code_gateway = gw, expires_at = t\<rparr>]) s"

text \<open>A code is taken out of the list it was loaded from, the list is saved, then the time is looked at.\<close>

fun take_code :: "str \<Rightarrow> pending_code list \<Rightarrow> (pending_code \<times> pending_code list) option" where
  "take_code c [] = None"
| "take_code c (x # xs) = (if code x = c then Some (x, xs) else map_option (\<lambda>(y, ys). (y, x # ys)) (take_code c xs))"

definition consume_loaded :: "'w gateway_env \<Rightarrow> str \<Rightarrow> pending_code list \<Rightarrow> ('w, str option) act" where
  "consume_loaded env c loaded = (case take_code c loaded of
     None \<Rightarrow> give None
   | Some (x, rest) \<Rightarrow> and_then (save_codes env rest) (\<lambda>_. and_then (read_time env) (\<lambda>now.
       give (if expires_at x < now then None else Some (code_gateway x)))))"

definition consume_pending_code :: "'w gateway_env \<Rightarrow> str \<Rightarrow> ('w, str option) act" where
  "consume_pending_code env c s = consume_loaded env c (pending_codes s) s"

definition CODE_CHARS :: str where
  "CODE_CHARS = lit ''ABCDEFGHJKLMNPQRSTUVWXYZ23456789''"

fun draw_code :: "'w gateway_env \<Rightarrow> nat \<Rightarrow> 'w \<Rightarrow> 'w \<times> str" where
  "draw_code env 0 w = (w, [])"
| "draw_code env (Suc n) w = (case draw env w of (w1, k) \<Rightarrow>
     (case draw_code env n w1 of (w2, c) \<Rightarrow> (w2, CODE_CHARS ! (k mod length CODE_CHARS) # c)))"

definition generate_code :: "'w gateway_env \<Rightarrow> ('w, str) act" where
  "generate_code env s = (case draw_code env 6 (outside s) of (w, c) \<Rightarrow> (s\<lparr>outside := w\<rparr>, Ok c))"

definition remove_all_for_platform :: "'w gateway_env \<Rightarrow> str \<Rightarrow> ('w, nat) act" where
  "remove_all_for_platform env p s =
     (let kept = filter (\<lambda>(u, _). platform u \<noteq> p) (pairings s)
      in and_then (save_pairings env) (\<lambda>_. give (length (pairings s) - length kept)) (s\<lparr>pairings := kept\<rparr>))"

definition list_paired_users :: "str \<Rightarrow> ('w, (platform_user \<times> str \<times> int) list) act" where
  "list_paired_users gw s = (s, Ok (List.map_filter (\<lambda>(u, st). case st of
     Paired sid t \<Rightarrow> if platform u = gw then Some (u, sid, t) else None | _ \<Rightarrow> None) (pairings s)))"

section \<open>Laws of the map\<close>

lemma same_user_refl [simp]: "same_user u u"
  by (simp add: same_user_def)

lemma same_user_sym: "same_user u v = same_user v u"
  by (auto simp: same_user_def)

lemma same_user_trans: "same_user u v \<Longrightarrow> same_user u w = same_user v w"
  by (auto simp: same_user_def)

lemma user_get_Nil [simp]: "user_get u [] = Unpaired"
  by (simp add: user_get_def)

lemma user_get_Cons [simp]: "user_get u ((v, st) # ps) = (if same_user u v then st else user_get u ps)"
  by (simp add: user_get_def)

lemma user_get_absent: "\<not> list_ex (\<lambda>(v, _). same_user u v) ps \<Longrightarrow> user_get u ps = Unpaired"
  by (induction ps) auto

lemma user_get_append: "user_get u (ps @ qs) = (if list_ex (\<lambda>(v, _). same_user u v) ps then user_get u ps else user_get u qs)"
  by (induction ps) auto

lemma user_get_insert: "user_get v (user_insert u st ps) = (if same_user v u then st else user_get v ps)"
proof (cases "list_ex (\<lambda>(w, _). same_user u w) ps")
  case True
  have "user_get v (map (\<lambda>(w, x). (w, if same_user u w then st else x)) ps)
      = (if same_user v u then (if list_ex (\<lambda>(w, _). same_user u w) ps then st else Unpaired) else user_get v ps)"
    by (induction ps) (auto simp: same_user_def)
  then show ?thesis using True by (simp add: user_insert_def)
next
  case False
  moreover have "list_ex (\<lambda>(w, _). same_user v w) ps = list_ex (\<lambda>(w, _). same_user u w) ps" if "same_user v u"
    using same_user_trans [OF that] by (auto simp: list_ex_iff split: prod.splits)
  ultimately show ?thesis
    by (auto simp: user_insert_def user_get_append user_get_absent)
qed

lemma user_get_remove: "user_get v (user_remove u ps) = (if same_user v u then Unpaired else user_get v ps)"
  by (induction ps) (auto simp: user_remove_def same_user_def)

text \<open>What is saved is what a new store finds.\<close>

lemma foldl_insert_get:
  "user_get v (foldl (\<lambda>ps (u, st). user_insert u st ps) qs ps)
     = (if list_ex (\<lambda>(w, _). same_user v w) ps then user_get v (rev ps) else user_get v qs)"
proof (induction ps arbitrary: qs)
  case (Cons p ps)
  obtain u st where p: "p = (u, st)" by (cases p)
  show ?case
    by (auto simp: Cons.IH p user_get_insert user_get_append list_ex_iff user_get_absent same_user_def split: prod.splits)
qed simp

definition one_entry_each :: "pairing_map \<Rightarrow> bool" where
  "one_entry_each ps = distinct (map (\<lambda>(u, _). (platform u, user_id u)) ps)"

lemma one_entry_each_insert: "one_entry_each ps \<Longrightarrow> one_entry_each (user_insert u st ps)"
proof -
  assume d: "one_entry_each ps"
  have same: "map (\<lambda>(u, _). (platform u, user_id u)) (map (\<lambda>(v, x). (v, if same_user u v then st else x)) ps)
      = map (\<lambda>(u, _). (platform u, user_id u)) ps"
    by (induction ps) auto
  show ?thesis
  proof (cases "list_ex (\<lambda>(v, _). same_user u v) ps")
    case True
    then show ?thesis using d by (simp only: one_entry_each_def user_insert_def if_True same)
  next
    case False
    then show ?thesis using d by (auto simp: one_entry_each_def user_insert_def list_ex_iff same_user_def)
  qed
qed

lemma one_entry_each_filter: "one_entry_each ps \<Longrightarrow> one_entry_each (filter P ps)"
  by (simp add: one_entry_each_def distinct_map_filter)

lemma user_get_rev: "one_entry_each ps \<Longrightarrow> user_get v (rev ps) = user_get v ps"
proof (induction ps)
  case (Cons p ps)
  obtain u st where p: "p = (u, st)" by (cases p)
  have "\<not> list_ex (\<lambda>(w, _). same_user v w) ps" if "same_user v u"
    using Cons.prems that by (auto simp: one_entry_each_def p list_ex_iff same_user_def)
  then show ?case
    using Cons by (auto simp: p user_get_append user_get_absent one_entry_each_def list_ex_rev)
qed simp

lemma saved_pairings_reload: "one_entry_each ps \<Longrightarrow> user_get v (load_pairings ps) = user_get v ps"
  by (simp add: load_pairings_def foldl_insert_get user_get_rev user_get_absent)

end
