(* ===== verification/GatewayHandler.thy ===== *)
theory GatewayHandler
  imports GatewayPairing
begin

text \<open>
  What a gateway does with a message from a chat platform, \<open>crates/bharatcode-core/src/gateway/handler.rs\<close>:
  unknown users are asked for a code, a user with a valid one is paired with a session of his own, and the
  messages of a paired user go to the agent, whose text comes back. The sessions, the agent, the
  configuration and the platform are operations of the environment.
\<close>

section \<open>Environment\<close>

datatype outgoing = TextMessage str | Typing

record incoming =
  sender :: platform_user
  body :: str

text \<open>A session and the configuration, as far as they are compared: \<open>'m\<close> models, \<open>'x\<close> extensions, \<open>'g\<close> modes.\<close>

record ('m, 'x, 'g) gateway_session =
  session_id :: str
  session_dir :: str
  session_provider :: "str option"
  session_model :: "'m option"
  session_extensions :: "'x list"
  session_mode :: 'g

record ('x, 'g) current_config =
  current_provider :: "str option"
  current_model :: "str option"
  current_extensions :: "'x list"
  current_mode :: 'g

record ('m, 'x, 'g) session_update =
  new_provider :: "str option"
  new_model :: "'m option"
  new_extensions :: "'x list option"
  new_mode :: "'g option"

datatype agent_item = MessageEvent message | OtherEvent | StreamError str

record ('w, 'm, 'x, 'g) handler_env = "'w gateway_env" +
  deliver :: "platform_user \<Rightarrow> outgoing \<Rightarrow> 'w \<Rightarrow> 'w \<times> str option"
  make_dir :: "str \<Rightarrow> 'w \<Rightarrow> 'w \<times> str option"
  read_config :: "str \<Rightarrow> 'w \<Rightarrow> 'w \<times> ('x, 'g) current_config"
  resolve_model :: "str \<Rightarrow> str \<Rightarrow> 'm option"
  name_of_model :: "'m \<Rightarrow> str"
  extensions_encode :: "'x list \<Rightarrow> bool"
  create_session :: "str \<Rightarrow> str \<Rightarrow> 'w \<Rightarrow> 'w \<times> (str, ('m, 'x, 'g) gateway_session) result"
  apply_update :: "str \<Rightarrow> ('m, 'x, 'g) session_update \<Rightarrow> 'w \<Rightarrow> 'w \<times> str option"
  get_session :: "str \<Rightarrow> 'w \<Rightarrow> 'w \<times> (str, ('m, 'x, 'g) gateway_session) result"
  drop_agent :: "str \<Rightarrow> 'w \<Rightarrow> 'w"
  get_agent :: "str \<Rightarrow> 'w \<Rightarrow> 'w \<times> str option"
  restore_provider :: "('m, 'x, 'g) gateway_session \<Rightarrow> 'w \<Rightarrow> 'w \<times> str option"
  load_extensions :: "('m, 'x, 'g) gateway_session \<Rightarrow> 'w \<Rightarrow> 'w"
  turn_limits :: "'w \<Rightarrow> nat option \<times> nat option"
  agent_reply :: "str \<Rightarrow> str \<Rightarrow> nat \<Rightarrow> 'w \<Rightarrow> 'w \<times> (str, agent_item list) result"

definition outside_do :: "('w \<Rightarrow> 'w \<times> str option) \<Rightarrow> ('w, unit) act" where
  "outside_do f s = (case f (outside s) of
     (w, None) \<Rightarrow> (s\<lparr>outside := w\<rparr>, Ok ()) | (w, Some e) \<Rightarrow> (s\<lparr>outside := w\<rparr>, Err e))"

definition outside_get :: "('w \<Rightarrow> 'w \<times> (str, 'a) result) \<Rightarrow> ('w, 'a) act" where
  "outside_get f s = (case f (outside s) of (w, r) \<Rightarrow> (s\<lparr>outside := w\<rparr>, r))"

definition send_to :: "('w, 'm, 'x, 'g) handler_env \<Rightarrow> platform_user \<Rightarrow> outgoing \<Rightarrow> ('w, unit) act" where
  "send_to env u m = outside_do (deliver env u m)"

definition warning_sign :: str where "warning_sign = [9888, 65039, 32]"

section \<open>Pairing\<close>

definition normalize_code :: "(str \<Rightarrow> str) \<Rightarrow> str \<Rightarrow> str" where
  "normalize_code up t = filter (\<lambda>c. c \<noteq> 45 \<and> c \<noteq> 32) (up t)"

definition try_consume_code :: "('w, 'm, 'x, 'g) handler_env \<Rightarrow> str \<Rightarrow> ('w, str option) act" where
  "try_consume_code env t =
     (let n = normalize_code (upper env) t
      in if byte_len n = 6 \<and> set n \<subseteq> set CODE_CHARS
         then consume_pending_code (gateway_env.truncate env) n else give None)"

definition session_name :: "platform_user \<Rightarrow> str" where
  "session_name u = platform u @ lit ''/'' @ (case display_name u of Some n \<Rightarrow> n | None \<Rightarrow> user_id u)"

definition gateway_working_dir :: "platform_user \<Rightarrow> str" where
  "gateway_working_dir u = lit ''gateway/'' @ platform u @ lit ''/'' @ user_id u"

definition configured_model ::
    "('w, 'm, 'x, 'g) handler_env \<Rightarrow> ('x, 'g) current_config \<Rightarrow> 'm option" where
  "configured_model env cfg = (case (current_provider cfg, current_model cfg) of
     (Some p, Some m) \<Rightarrow> resolve_model env p m | _ \<Rightarrow> None)"

definition first_update ::
    "('w, 'm, 'x, 'g) handler_env \<Rightarrow> ('x, 'g) current_config \<Rightarrow> ('m, 'x, 'g) session_update" where
  "first_update env cfg = \<lparr>new_provider = current_provider cfg, new_model = configured_model env cfg,
     new_extensions = (if extensions_encode env (current_extensions cfg) then Some (current_extensions cfg) else None),
     new_mode = None\<rparr>"

definition paired_text :: str where
  "paired_text = lit ''Paired! You can now chat with bharatcode.''"

definition complete_pairing :: "('w, 'm, 'x, 'g) handler_env \<Rightarrow> platform_user \<Rightarrow> ('w, unit) act" where
  "complete_pairing env u =
     and_then (outside_do (make_dir env (gateway_working_dir u))) (\<lambda>_.
     and_then (outside_get (create_session env (gateway_working_dir u) (session_name u))) (\<lambda>ses.
     and_then (outside_get (\<lambda>w. case read_config env (session_dir ses) w of (w, cfg) \<Rightarrow> (w, Ok cfg))) (\<lambda>cfg.
     and_then (outside_do (apply_update env (session_id ses) (first_update env cfg))) (\<lambda>_.
     and_then (read_time (gateway_env.truncate env)) (\<lambda>now.
     and_then (set_pairing (gateway_env.truncate env) u (Paired (session_id ses) now)) (\<lambda>_.
     send_to env u (TextMessage paired_text)))))))"

section \<open>The agent\<close>

definition DEFAULT_GATEWAY_MAX_TURNS :: nat where "DEFAULT_GATEWAY_MAX_TURNS = 5"

definition resolve_gateway_max_turns :: "nat option \<Rightarrow> nat option \<Rightarrow> nat" where
  "resolve_gateway_max_turns own global = (case own of Some n \<Rightarrow> n
     | None \<Rightarrow> (case global of Some n \<Rightarrow> n | None \<Rightarrow> DEFAULT_GATEWAY_MAX_TURNS))"

text \<open>What a session has to be told of the configuration, and whether its extensions changed.\<close>

definition config_changes ::
    "('w, 'm, 'x, 'g) handler_env \<Rightarrow> ('x, 'g) current_config \<Rightarrow> ('m, 'x, 'g) gateway_session \<Rightarrow>
     (('m, 'x, 'g) session_update \<times> bool) option" where
  "config_changes env cfg ses =
     (let provider_changed = (current_provider cfg \<noteq> session_provider ses);
          model_changed = (current_model cfg \<noteq> map_option (name_of_model env) (session_model ses));
          extensions_changed = (current_extensions cfg \<noteq> session_extensions ses);
          mode_changed = (current_mode cfg \<noteq> session_mode ses)
      in if \<not> provider_changed \<and> \<not> model_changed \<and> \<not> extensions_changed \<and> \<not> mode_changed then None
         else Some (\<lparr>new_provider = current_provider cfg, new_model = configured_model env cfg,
           new_extensions = (if extensions_changed \<and> extensions_encode env (current_extensions cfg)
             then Some (current_extensions cfg) else None),
           new_mode = (if mode_changed then Some (current_mode cfg) else None)\<rparr>, extensions_changed))"

definition sync_session_config ::
    "('w, 'm, 'x, 'g) handler_env \<Rightarrow> ('m, 'x, 'g) gateway_session \<Rightarrow> ('w, bool) act" where
  "sync_session_config env ses =
     and_then (outside_get (\<lambda>w. case read_config env (session_dir ses) w of (w, cfg) \<Rightarrow> (w, Ok cfg))) (\<lambda>cfg.
     case config_changes env cfg ses of
       None \<Rightarrow> give False
     | Some (upd, ext) \<Rightarrow> and_then (outside_do (apply_update env (session_id ses) upd)) (\<lambda>_. give ext))"

text \<open>The text that waits and whether anything was sent; a send that fails is ignored here.\<close>

definition try_send ::
    "('w, 'm, 'x, 'g) handler_env \<Rightarrow> platform_user \<Rightarrow> outgoing \<Rightarrow> 'w gateway_state \<Rightarrow> 'w gateway_state" where
  "try_send env u m s = fst (send_to env u m s)"

definition relay_content ::
    "('w, 'm, 'x, 'g) handler_env \<Rightarrow> platform_user \<Rightarrow> message_content \<Rightarrow> str \<times> bool \<times> 'w gateway_state \<Rightarrow>
     str \<times> bool \<times> 'w gateway_state" where
  "relay_content env u c st = (case st of (waiting, sent, s) \<Rightarrow> (case c of
     Text t \<Rightarrow> (waiting @ text_str t, sent, s)
   | ToolRequest r \<Rightarrow>
       (let s = (if waiting = [] then s else try_send env u (TextMessage waiting) s);
            s' = (case tool_call r of Ok _ \<Rightarrow> try_send env u Typing s | Err _ \<Rightarrow> s)
        in ([], sent \<or> waiting \<noteq> [], s'))
   | _ \<Rightarrow> (waiting, sent, s)))"

fun relay_items ::
    "('w, 'm, 'x, 'g) handler_env \<Rightarrow> platform_user \<Rightarrow> agent_item list \<Rightarrow> str \<Rightarrow> bool \<Rightarrow> ('w, unit) act" where
  "relay_items env u [] waiting sent s =
     (if waiting \<noteq> [] then send_to env u (TextMessage waiting) s
      else if \<not> sent then send_to env u (TextMessage (lit ''(No response)'')) s
      else (s, Ok ()))"
| "relay_items env u (OtherEvent # is) waiting sent s = relay_items env u is waiting sent s"
| "relay_items env u (StreamError e # is) waiting sent s =
     send_to env u (TextMessage (warning_sign @ lit ''Agent error: '' @ e)) s"
| "relay_items env u (MessageEvent m # is) waiting sent s =
     (case (if role m = Assistant then fold (relay_content env u) (content m) (waiting, sent, s) else (waiting, sent, s)) of
        (waiting', sent', s') \<Rightarrow> relay_items env u is waiting' sent' s')"

text \<open>An error that is told to the user and ends the relay without failing it.\<close>

definition or_tell ::
    "('w, 'm, 'x, 'g) handler_env \<Rightarrow> platform_user \<Rightarrow> string \<Rightarrow> ('w, 'a) act \<Rightarrow> ('a \<Rightarrow> ('w, unit) act) \<Rightarrow> ('w, unit) act" where
  "or_tell env u what m f s = (case m s of
     (s', Err e) \<Rightarrow> send_to env u (TextMessage (warning_sign @ lit what @ e)) s' | (s', Ok x) \<Rightarrow> f x s')"

definition outside_set :: "('w \<Rightarrow> 'w) \<Rightarrow> ('w, unit) act" where
  "outside_set f s = (s\<lparr>outside := f (outside s)\<rparr>, Ok ())"

definition max_turns_now :: "('w, 'm, 'x, 'g) handler_env \<Rightarrow> ('w, nat) act" where
  "max_turns_now env s = (s, Ok (case turn_limits env (outside s) of (own, global) \<Rightarrow> resolve_gateway_max_turns own global))"

definition relay_to_session :: "('w, 'm, 'x, 'g) handler_env \<Rightarrow> incoming \<Rightarrow> str \<Rightarrow> ('w, unit) act" where
  "relay_to_session env m sid =
     and_then (send_to env (sender m) Typing) (\<lambda>_.
     and_then (outside_get (get_session env sid)) (\<lambda>ses.
     and_then (sync_session_config env ses) (\<lambda>changed.
     and_then (outside_set (if changed then drop_agent env sid else id)) (\<lambda>_.
     and_then (outside_do (get_agent env sid)) (\<lambda>_.
     and_then (outside_get (get_session env sid)) (\<lambda>ses.
     or_tell env (sender m) ''Failed to configure provider: '' (outside_do (restore_provider env ses)) (\<lambda>_.
     and_then (outside_set (load_extensions env ses)) (\<lambda>_.
     and_then (max_turns_now env) (\<lambda>turns.
     or_tell env (sender m) ''Failed to start agent: '' (outside_get (agent_reply env sid (body m) turns)) (\<lambda>items.
     relay_items env (sender m) items [] False))))))))))"

section \<open>A message\<close>

definition welcome_text :: str where
  "welcome_text = lit ''Welcome! Enter your pairing code to connect to bharatcode.''"

definition handle_unpaired :: "('w, 'm, 'x, 'g) handler_env \<Rightarrow> str \<Rightarrow> incoming \<Rightarrow> ('w, unit) act" where
  "handle_unpaired env gateway m =
     and_then (try_consume_code env (trim (body m))) (\<lambda>r. case r of
       Some gw \<Rightarrow> if gw = gateway then complete_pairing env (sender m)
         else send_to env (sender m) (TextMessage (warning_sign @ lit ''That code is for a different gateway.''))
     | None \<Rightarrow> send_to env (sender m) (TextMessage welcome_text))"

definition handle_pending ::
    "('w, 'm, 'x, 'g) handler_env \<Rightarrow> incoming \<Rightarrow> str \<Rightarrow> int \<Rightarrow> ('w, unit) act" where
  "handle_pending env m c expiry =
     and_then (read_time (gateway_env.truncate env)) (\<lambda>now.
       if expiry < now then
         and_then (set_pairing (gateway_env.truncate env) (sender m) Unpaired) (\<lambda>_.
           send_to env (sender m) (TextMessage (lit ''Your pairing code expired. Please request a new one.'')))
       else if eq_ignore_ascii_case (trim (body m)) c then complete_pairing env (sender m)
       else send_to env (sender m) (TextMessage (lit ''Invalid code. Please try again.'')))"

definition handle_message :: "('w, 'm, 'x, 'g) handler_env \<Rightarrow> str \<Rightarrow> incoming \<Rightarrow> ('w, unit) act" where
  "handle_message env gateway m s = (case user_get (sender m) (pairings s) of
     Unpaired \<Rightarrow> handle_unpaired env gateway m s
   | PendingCode c expiry \<Rightarrow> handle_pending env m c expiry s
   | Paired sid _ \<Rightarrow> relay_to_session env m sid s)"

section \<open>What an action may change\<close>

definition within :: "('w gateway_state \<Rightarrow> 'w gateway_state \<Rightarrow> bool) \<Rightarrow> ('w, 'a) act \<Rightarrow> bool" where
  "within R m = (\<forall>s. R s (fst (m s)))"

lemma within_and_then:
  assumes "transp R" "within R m" "\<And>x. within R (f x)"
  shows "within R (and_then m f)"
  unfolding within_def
proof
  fix s
  obtain s1 r where m: "m s = (s1, r)" by (cases "m s")
  have 1: "R s s1" using assms(2) m by (auto simp: within_def dest: spec [of _ s])
  show "R s (fst (and_then m f s))"
  proof (cases r)
    case (Inl e)
    then show ?thesis using m 1 by (simp add: and_then_def)
  next
    case (Inr x)
    have "R s1 (fst (f x s1))" using assms(3) [of x] by (simp add: within_def)
    then show ?thesis using m 1 Inr transpD [OF assms(1)] by (auto simp: and_then_def)
  qed
qed

text \<open>Nothing of the gateway; nothing but the pairing of one user.\<close>

definition untouched :: "'w gateway_state \<Rightarrow> 'w gateway_state \<Rightarrow> bool" where
  "untouched s s' = (pairings s' = pairings s \<and> saved_pairings s' = saved_pairings s
     \<and> pending_codes s' = pending_codes s \<and> saved_gateways s' = saved_gateways s)"

definition only_user :: "platform_user \<Rightarrow> 'w gateway_state \<Rightarrow> 'w gateway_state \<Rightarrow> bool" where
  "only_user u s s' = (pending_codes s' = pending_codes s \<and> saved_gateways s' = saved_gateways s
     \<and> (\<forall>v. \<not> same_user v u \<longrightarrow> user_get v (pairings s') = user_get v (pairings s)))"

lemma untouched_transp: "transp untouched" by (auto simp: transp_def untouched_def)
lemma only_user_transp: "transp (only_user u)" by (auto simp: transp_def only_user_def)

lemmas untouched_seq = within_and_then [OF untouched_transp]
lemmas only_user_seq = within_and_then [OF only_user_transp]

lemma untouched_only_user: "within untouched m \<Longrightarrow> within (only_user u) m"
  by (auto simp: within_def untouched_def only_user_def)

lemma untouched_give: "within untouched (give x)"
  by (simp add: within_def untouched_def give_def)

lemma untouched_outside_do: "within untouched (outside_do f)"
  by (auto simp: within_def untouched_def outside_do_def split: prod.splits option.splits)

lemma untouched_outside_get: "within untouched (outside_get f)"
  by (auto simp: within_def untouched_def outside_get_def split: prod.splits)

lemma untouched_send: "within untouched (send_to env u m)"
  by (simp add: send_to_def untouched_outside_do)

lemma untouched_time: "within untouched (read_time env)"
  by (auto simp: within_def untouched_def read_time_def split: prod.splits)

lemmas untouched_rules = untouched_seq untouched_give untouched_outside_do untouched_outside_get untouched_send untouched_time

lemma only_user_set: "within (only_user u) (set_pairing env u st)"
  by (auto simp: within_def only_user_def set_pairing_def save_pairings_def write_config_def user_get_insert
      split: prod.splits option.splits)

lemma only_user_complete: "within (only_user u) (complete_pairing env u)"
  unfolding complete_pairing_def
  by (intro only_user_seq only_user_set untouched_only_user [OF untouched_outside_do]
      untouched_only_user [OF untouched_outside_get] untouched_only_user [OF untouched_time]
      untouched_only_user [OF untouched_send])

lemma untouched_try_send: "untouched s (try_send env u m s)"
  using untouched_send [of env u m] by (simp add: within_def try_send_def)

lemma untouched_content: "untouched s (snd (snd (relay_content env u c (w, b, s))))"
  using untouched_try_send untouched_transp [THEN transpD]
  by (fastforce simp: relay_content_def Let_def untouched_def split: message_content.splits sum.splits)

lemma untouched_contents: "untouched s (snd (snd (fold (relay_content env u) cs (w, b, s))))"
proof (induction cs arbitrary: w b s)
  case (Cons c cs)
  obtain w1 b1 s1 where r: "relay_content env u c (w, b, s) = (w1, b1, s1)" by (cases "relay_content env u c (w, b, s)")
  have "untouched s s1" using untouched_content [of s env u c w b] by (simp add: r)
  then show ?case using Cons [of s1 w1 b1] transpD [OF untouched_transp] by (simp add: r)
qed (simp add: untouched_def)

lemma untouched_relay_items: "untouched s (fst (relay_items env u is w b s))"
proof (induction env u "is" w b s rule: relay_items.induct)
  case (4 env u m "is" w b s)
  obtain w1 b1 s1 where r: "(if role m = Assistant then fold (relay_content env u) (content m) (w, b, s) else (w, b, s)) = (w1, b1, s1)"
    by (metis prod_cases3)
  have "untouched s s1"
    using untouched_contents [of s env u "content m" w b] r by (auto simp: untouched_def split: if_splits)
  then show ?case using 4 [OF r [symmetric]] transpD [OF untouched_transp] by (simp add: r)
qed (use untouched_send in \<open>auto simp: within_def untouched_def\<close>)

lemma untouched_tell: "within untouched m \<Longrightarrow> (\<And>x. within untouched (f x)) \<Longrightarrow> within untouched (or_tell env u what m f)"
proof -
  assume m: "within untouched m" and f: "\<And>x. within untouched (f x)"
  have "untouched s (fst (or_tell env u what m f s))" for s
  proof -
    obtain s1 r where r: "m s = (s1, r)" by (cases "m s")
    then have "untouched s s1" using m by (auto simp: within_def dest: spec [of _ s])
    moreover have "untouched s1 (fst (send_to env u x s1))" "untouched s1 (fst (f y s1))" for x y
      using untouched_send [of env u x] f [of y] by (simp_all add: within_def)
    then have "untouched s1 (fst (or_tell env u what m f s))" by (cases r) (simp_all add: or_tell_def r)
    ultimately show ?thesis by (rule transpD [OF untouched_transp])
  qed
  then show ?thesis by (simp add: within_def)
qed

lemma untouched_relay: "within untouched (relay_to_session env m sid)"
proof -
  have "within untouched (sync_session_config env ses)" for ses
    unfolding sync_session_config_def by (intro untouched_seq untouched_outside_get) (auto split: option.splits intro!: untouched_rules)
  moreover have "within untouched (relay_items env u is w b)" for u "is" w b
    by (simp add: within_def untouched_relay_items)
  moreover have "within untouched (outside_set f)" "within untouched (max_turns_now env)" for f
    by (simp_all add: within_def untouched_def outside_set_def max_turns_now_def)
  ultimately show ?thesis unfolding relay_to_session_def
    by (intro untouched_seq untouched_tell untouched_send untouched_outside_get untouched_outside_do)
qed

section \<open>Pairing needs a code\<close>

lemma and_then_Ok:
  assumes "and_then m f s = (s', r)"
  shows "(\<exists>e. m s = (s', Err e)) \<or> (\<exists>s1 x. m s = (s1, Ok x) \<and> f x s1 = (s', r))"
  using assms by (auto simp: and_then_def split: prod.splits sum.splits)

lemma take_code_Some:
  "take_code c L = Some (x, rest) \<Longrightarrow> x \<in> set L \<and> code x = c \<and> set rest \<subseteq> set L
    \<and> (distinct (map code L) \<longrightarrow> c \<notin> code ` set rest \<and> distinct (map code rest))"
  by (induction L arbitrary: rest) (auto split: if_splits, blast+)

text \<open>What consuming a code does: it is not there any more, whatever it was good for.\<close>

lemma consume_loaded_effect:
  assumes "consume_loaded env c L s = (s1, r)"
  shows "pairings s1 = pairings s \<and> saved_pairings s1 = saved_pairings s
    \<and> (\<forall>g. r = Ok (Some g) \<longrightarrow> (\<exists>x rest. take_code c L = Some (x, rest) \<and> g = code_gateway x
          \<and> snd (config_write env (outside s)) = None
          \<and> snd (unix_time env (fst (config_write env (outside s)))) \<le> expires_at x \<and> pending_codes s1 = rest))"
  using assms
  by (auto simp: consume_loaded_def give_def and_then_def save_codes_def write_config_def read_time_def
      split: option.splits prod.splits if_splits)

text \<open>
  The clock as it is read for a message: by the check of a code once the list without it was saved, which must
  have succeeded, and by that of a user who was told a code as the message comes in.
\<close>

definition clock_after_save :: "('w, 'm, 'x, 'g) handler_env \<Rightarrow> 'w gateway_state \<Rightarrow> int" where
  "clock_after_save env s = snd (unix_time env (fst (config_write env (outside s))))"

definition clock_now :: "('w, 'm, 'x, 'g) handler_env \<Rightarrow> 'w gateway_state \<Rightarrow> int" where
  "clock_now env s = snd (unix_time env (outside s))"

definition pairs_with_code ::
    "('w, 'm, 'x, 'g) handler_env \<Rightarrow> str \<Rightarrow> incoming \<Rightarrow> 'w gateway_state \<Rightarrow> 'w gateway_state \<Rightarrow> bool" where
  "pairs_with_code env gateway m s s' =
     (\<exists>x \<in> set (pending_codes s). code x = normalize_code (upper env) (trim (body m)) \<and> code_gateway x = gateway
        \<and> snd (config_write env (outside s)) = None \<and> clock_after_save env s \<le> expires_at x
        \<and> code x \<notin> code ` set (pending_codes s'))"

lemma consume_code_effect:
  assumes "try_consume_code env t s = (s1, r)" "distinct (map code (pending_codes s))"
  shows "pairings s1 = pairings s \<and> (\<forall>g. r = Ok (Some g) \<longrightarrow>
    (\<exists>x \<in> set (pending_codes s). code x = normalize_code (upper env) t \<and> code_gateway x = g
        \<and> snd (config_write env (outside s)) = None \<and> clock_after_save env s \<le> expires_at x
        \<and> code x \<notin> code ` set (pending_codes s1)))"
proof (cases "byte_len (normalize_code (upper env) t) = 6 \<and> set (normalize_code (upper env) t) \<subseteq> set CODE_CHARS")
  case True
  then have "consume_loaded (gateway_env.truncate env) (normalize_code (upper env) t) (pending_codes s) s = (s1, r)"
    using assms(1) by (simp add: try_consume_code_def Let_def consume_pending_code_def)
  note e = consume_loaded_effect [OF this]
  moreover have "\<exists>x \<in> set (pending_codes s). code x = normalize_code (upper env) t \<and> code_gateway x = g
        \<and> snd (config_write env (outside s)) = None \<and> clock_after_save env s \<le> expires_at x
        \<and> code x \<notin> code ` set (pending_codes s1)" if "r = Ok (Some g)" for g
  proof -
    obtain x rest where x: "take_code (normalize_code (upper env) t) (pending_codes s) = Some (x, rest)"
        "g = code_gateway x" "pending_codes s1 = rest" "snd (config_write env (outside s)) = None"
        "clock_after_save env s \<le> expires_at x"
      using e \<open>r = Ok (Some g)\<close> unfolding clock_after_save_def by (auto simp: gateway_env.defs)
    then show ?thesis using take_code_Some [OF x(1)] x(2-) assms(2) by (intro bexI [of _ x]) auto
  qed
  ultimately show ?thesis by blast
next
  case False
  then have "try_consume_code env t s = (s, Ok None)" by (simp only: try_consume_code_def Let_def if_False give_def)
  then show ?thesis using assms(1) by simp
qed

text \<open>A send leaves the pairings; the two stages that can change them, and whose pairing they change.\<close>

lemma send_keeps_pairings: "(s', r) = send_to env u x s \<Longrightarrow> pairings s' = pairings s"
  using untouched_send [of env u x] by (metis fst_conv untouched_def within_def)

lemma complete_pairing_changes:
  assumes "(s', r) = complete_pairing env u s"
  shows "only_user u s s'" "user_get v (pairings s') \<noteq> user_get v (pairings s) \<Longrightarrow> same_user v u"
proof -
  show o: "only_user u s s'" using assms only_user_complete [of u env] by (metis fst_conv within_def)
  show "same_user v u" if "user_get v (pairings s') \<noteq> user_get v (pairings s)"
    using that o by (auto simp: only_user_def)
qed

lemma unpaired_changes:
  assumes "distinct (map code (pending_codes s))" "handle_unpaired env gateway m s = (s', r)"
    "user_get v (pairings s') \<noteq> user_get v (pairings s)"
  shows "same_user v (sender m) \<and> pairs_with_code env gateway m s s'"
proof -
  obtain s1 x where c: "try_consume_code env (trim (body m)) s = (s1, x)" by (cases "try_consume_code env (trim (body m)) s")
  note e = consume_code_effect [OF c assms(1)]
  have h: "(s', r) = (case x of Err e \<Rightarrow> (s1, Err e) | Ok None \<Rightarrow> send_to env (sender m) (TextMessage welcome_text) s1
    | Ok (Some gw) \<Rightarrow> if gw = gateway then complete_pairing env (sender m) s1
        else send_to env (sender m) (TextMessage (warning_sign @ lit ''That code is for a different gateway.'')) s1)"
    using assms(2) c by (cases x) (auto simp: handle_unpaired_def and_then_def split: option.splits if_splits)
  then have 1: "x = Ok (Some gateway)"
    using e assms(3) by (cases x) (auto simp del: lit_Cons dest: send_keeps_pairings split: option.splits if_splits)
  then have p: "(s', r) = complete_pairing env (sender m) s1" using h by simp
  show ?thesis
    using complete_pairing_changes(1) [OF p] complete_pairing_changes(2) [OF p, of v] e 1 assms(3)
    by (auto simp: pairs_with_code_def only_user_def)
qed

lemma pending_changes:
  assumes "handle_pending env m c expiry s = (s', r)" "user_get v (pairings s') \<noteq> user_get v (pairings s)"
  shows "same_user v (sender m)
    \<and> (expiry < clock_now env s \<and> user_get v (pairings s') = Unpaired
       \<or> clock_now env s \<le> expiry \<and> eq_ignore_ascii_case (trim (body m)) c)"
proof -
  let ?env = "gateway_env.truncate env"
  obtain s1 now where t: "read_time ?env s = (s1, Ok now)"
    by (metis (mono_tags) prod.case prod.collapse read_time_def)
  then have now: "now = clock_now env s"
    by (auto simp: read_time_def clock_now_def gateway_env.defs split: prod.splits)
  have s1: "pairings s1 = pairings s" using untouched_time [of ?env] t by (metis fst_conv untouched_def within_def)
  have h: "(s', r) = (if expiry < now then
       and_then (set_pairing ?env (sender m) Unpaired) (\<lambda>_.
         send_to env (sender m) (TextMessage (lit ''Your pairing code expired. Please request a new one.''))) s1
     else if eq_ignore_ascii_case (trim (body m)) c then complete_pairing env (sender m) s1
     else send_to env (sender m) (TextMessage (lit ''Invalid code. Please try again.'')) s1)"
    using assms(1) t by (auto simp del: lit_Cons simp: handle_pending_def and_then_def [of "read_time _"] split: if_splits)
  show ?thesis
  proof (cases "expiry < now")
    case True
    obtain s2 q where q: "set_pairing ?env (sender m) Unpaired s1 = (s2, q)" by (cases "set_pairing ?env (sender m) Unpaired s1")
    have p2: "pairings s2 = user_insert (sender m) Unpaired (pairings s)"
      using q s1 by (auto simp: set_pairing_def save_pairings_def write_config_def split: prod.splits option.splits)
    have "pairings s' = pairings s2"
      using h True q by (cases q) (auto simp: and_then_def simp del: lit_Cons dest: send_keeps_pairings)
    then show ?thesis using assms(2) True now by (auto simp: p2 user_get_insert split: if_splits)
  next
    case False
    then show ?thesis
      using h s1 assms(2) complete_pairing_changes(2) [of s' r env "sender m" s1 v] now
      by (auto simp del: lit_Cons dest: send_keeps_pairings split: if_splits)
  qed
qed

text \<open>
  C13. A message changes the pairing of its sender only. Where no two waiting codes are the same, as storing and
  consuming them keeps it, a message that pairs an unknown sender brought a code that waited for this gateway, had
  not expired at the time that was read once the list without it had been saved, and waits no more; and one from a
  user who was told a code brought that code before it expired, or came too late and loses him the code.
\<close>

theorem pairing_needs_code:
  assumes "distinct (map code (pending_codes s))" "handle_message env gateway m s = (s', r)"
    "user_get v (pairings s') \<noteq> user_get v (pairings s)"
  shows "same_user v (sender m)
    \<and> (user_get v (pairings s) = Unpaired \<and> pairs_with_code env gateway m s s'
       \<or> (\<exists>c expiry. user_get v (pairings s) = PendingCode c expiry
            \<and> (expiry < clock_now env s \<and> user_get v (pairings s') = Unpaired
               \<or> clock_now env s \<le> expiry \<and> eq_ignore_ascii_case (trim (body m)) c)))"
proof -
  have get: "user_get v (pairings s) = user_get (sender m) (pairings s)" if "same_user v (sender m)"
    using same_user_trans [OF that] by (simp add: user_get_def)
  show ?thesis
  proof (cases "user_get (sender m) (pairings s)")
    case Unpaired
    then have "handle_unpaired env gateway m s = (s', r)" using assms(2) by (simp add: handle_message_def)
    from unpaired_changes [OF assms(1) this assms(3)] show ?thesis using get Unpaired by simp
  next
    case (PendingCode c expiry)
    then have "handle_pending env m c expiry s = (s', r)" using assms(2) by (simp add: handle_message_def)
    from pending_changes [OF this assms(3)] show ?thesis using get PendingCode by simp
  next
    case (Paired sid t)
    then have "(s', r) = relay_to_session env m sid s" using assms(2) by (simp add: handle_message_def)
    then have "untouched s s'" using untouched_relay [of env m sid] by (metis fst_conv within_def)
    then show ?thesis using assms(3) by (simp add: untouched_def)
  qed
qed

section \<open>Codes\<close>

text \<open>No two codes that wait are the same, whatever is stored and consumed.\<close>

lemma stored_codes_distinct:
  assumes "distinct (map code (pending_codes s))"
  shows "distinct (map code (pending_codes (fst (store_pending_code env c gw t s))))"
  using assms
  by (auto simp: store_pending_code_def save_codes_def write_config_def distinct_map_filter split: prod.splits option.splits)

lemma consumed_codes_distinct:
  assumes "distinct (map code (pending_codes s))"
  shows "distinct (map code (pending_codes (fst (consume_pending_code env c s))))"
  using assms take_code_Some [of c "pending_codes s"]
  by (auto simp: consume_pending_code_def consume_loaded_def give_def and_then_def save_codes_def write_config_def read_time_def
      split: option.splits prod.splits)

text \<open>
  Two tasks that have loaded the list before either saved it both accept the same code.
\<close>

lemma code_accepted_twice:
  assumes "\<And>w. config_write env w = (w, None)" "\<And>w. unix_time env w = (w, now)" "now \<le> expires_at x"
    "pending_codes s = [x]" "code x = c"
  shows "snd (consume_loaded env c (pending_codes s) s) = Ok (Some (code_gateway x))"
    "snd (consume_loaded env c (pending_codes s) (fst (consume_loaded env c (pending_codes s) s))) = Ok (Some (code_gateway x))"
  using assms by (simp_all add: consume_loaded_def and_then_def save_codes_def write_config_def read_time_def give_def)

text \<open>A code sent to the wrong gateway is gone: its gateway will not take it any more.\<close>

lemma code_lost_at_wrong_gateway:
  assumes "\<And>w. config_write env w = (w, None)" "\<And>w. unix_time env w = (w, now)"
    "user_get (sender m) (pairings s) = Unpaired" "pending_codes s = [x]" "code_gateway x \<noteq> gateway"
    "code x = normalize_code (upper env) (trim (body m))" "byte_len (code x) = 6" "set (code x) \<subseteq> set CODE_CHARS"
  shows "pending_codes (fst (handle_message env gateway m s)) = []"
proof -
  have t: "try_consume_code env (trim (body m)) s
      = (s\<lparr>pending_codes := []\<rparr>, Ok (if expires_at x < now then None else Some (code_gateway x)))"
    using assms
    by (simp add: try_consume_code_def Let_def consume_pending_code_def consume_loaded_def and_then_def save_codes_def
        write_config_def read_time_def give_def gateway_env.defs)
  have "pending_codes (fst (send_to env (sender m) y (s\<lparr>pending_codes := []\<rparr>))) = []" for y
    using untouched_send [of env "sender m" y] by (simp add: within_def untouched_def)
  then show ?thesis
    using assms(3,5) t by (simp add: handle_message_def handle_unpaired_def and_then_def)
qed

section \<open>What the user reads\<close>

text \<open>The text of the assistant in a stream, and the bodies of what was delivered, kept in the world as a log.\<close>

definition text_of :: "message_content \<Rightarrow> str" where
  "text_of c = (case c of Text t \<Rightarrow> text_str t | _ \<Rightarrow> [])"

fun assistant_text :: "agent_item list \<Rightarrow> str" where
  "assistant_text [] = []"
| "assistant_text (MessageEvent m # is) =
     (if role m = Assistant then concat (map text_of (content m)) else []) @ assistant_text is"
| "assistant_text (_ # is) = assistant_text is"

definition bodies :: "outgoing list \<Rightarrow> str" where
  "bodies w = concat (map (\<lambda>m. case m of TextMessage t \<Rightarrow> t | Typing \<Rightarrow> []) w)"

definition delivers :: "(outgoing list, 'm, 'x, 'g) handler_env \<Rightarrow> bool" where
  "delivers env = (\<forall>u m w. deliver env u m w = (w @ [m], None))"

lemma try_send_log: "delivers env \<Longrightarrow> try_send env u m s = s\<lparr>outside := outside s @ [m]\<rparr>"
  by (simp add: try_send_def send_to_def outside_do_def delivers_def)

lemma send_log: "delivers env \<Longrightarrow> send_to env u m s = (s\<lparr>outside := outside s @ [m]\<rparr>, Ok ())"
  by (simp add: send_to_def outside_do_def delivers_def)

text \<open>What was sent and what still waits is what has come; nothing is marked as sent without a text.\<close>

definition relayed :: "str \<Rightarrow> str \<times> bool \<times> outgoing list gateway_state \<Rightarrow> bool" where
  "relayed t st = (case st of (waiting, sent, s) \<Rightarrow> bodies (outside s) @ waiting = t \<and> sent = (bodies (outside s) \<noteq> []))"

lemma relay_content_relayed:
  "delivers env \<Longrightarrow> relayed t st \<Longrightarrow> relayed (t @ text_of c) (relay_content env u c st)"
  by (auto simp: relayed_def relay_content_def text_of_def bodies_def Let_def try_send_log
      split: prod.splits message_content.splits sum.splits)

lemma relay_contents_relayed:
  "delivers env \<Longrightarrow> relayed t st \<Longrightarrow> relayed (t @ concat (map text_of cs)) (fold (relay_content env u) cs st)"
proof (induction cs arbitrary: t st)
  case (Cons c cs)
  show ?case using Cons.IH [OF Cons.prems(1) relay_content_relayed [OF Cons.prems, of c u]] by simp
qed simp

lemma relay_items_relayed:
  "delivers env \<Longrightarrow> relayed t (waiting, sent, s) \<Longrightarrow> \<forall>e. StreamError e \<notin> set is \<Longrightarrow>
   bodies (outside (fst (relay_items env u is waiting sent s)))
     = (if t @ assistant_text is = [] then lit ''(No response)'' else t @ assistant_text is)"
proof (induction env u "is" waiting sent s arbitrary: t rule: relay_items.induct)
  case (1 env u waiting sent s)
  then show ?case by (auto simp: relayed_def send_log bodies_def)
next
  case (4 env u m "is" waiting sent s)
  define st where "st = (if role m = Assistant then fold (relay_content env u) (content m) (waiting, sent, s) else (waiting, sent, s))"
  define t' where "t' = t @ (if role m = Assistant then concat (map text_of (content m)) else [])"
  have r: "relayed t' st"
    using relay_contents_relayed [OF "4.prems"(1,2), of "content m" u] "4.prems"(2) by (simp add: st_def t'_def)
  obtain w1 b1 s1 where st: "st = (w1, b1, s1)" by (metis prod_cases3)
  have "bodies (outside (fst (relay_items env u is w1 b1 s1)))
     = (if t' @ assistant_text is = [] then lit ''(No response)'' else t' @ assistant_text is)"
    using "4.IH" [of w1 "(b1, s1)" b1 s1 t'] "4.prems"(1,3) r st unfolding st_def by simp
  moreover have "relay_items env u (MessageEvent m # is) waiting sent s = relay_items env u is w1 b1 s1"
    using st unfolding st_def by simp
  ultimately show ?case by (simp add: t'_def)
qed auto

text \<open>The user gets the whole text of the assistant, in its order, and is told when there is none.\<close>

theorem relay_tells_everything:
  assumes "delivers env" "outside s = []" "\<forall>e. StreamError e \<notin> set is"
  shows "bodies (outside (fst (relay_items env u is [] False s)))
    = (if assistant_text is = [] then lit ''(No response)'' else assistant_text is)"
  using relay_items_relayed [OF assms(1) _ assms(3), of "[]" "[]" False s u] assms(2)
  by (simp add: relayed_def bodies_def)

section \<open>An example\<close>

definition sample_user :: platform_user where
  "sample_user = \<lparr>platform = lit ''telegram'', user_id = lit ''7'', display_name = None\<rparr>"

definition sample_handler :: "(outgoing list, unit, unit, unit) handler_env" where
  "sample_handler = \<lparr>config_write = \<lambda>w. (w, None), unix_time = \<lambda>w. (w, 100), upper = id, draw = \<lambda>w. (w, 0),
     deliver = \<lambda>u m w. (w @ [m], None), make_dir = \<lambda>_ w. (w, None),
     read_config = \<lambda>_ w. (w, \<lparr>current_provider = None, current_model = None, current_extensions = [], current_mode = ()\<rparr>),
     resolve_model = \<lambda>_ _. None, name_of_model = \<lambda>_. [], extensions_encode = \<lambda>_. True,
     create_session = \<lambda>d n w. (w, Ok \<lparr>session_id = lit ''s1'', session_dir = d, session_provider = None, session_model = None,
       session_extensions = [], session_mode = ()\<rparr>),
     apply_update = \<lambda>_ _ w. (w, None), get_session = \<lambda>_ w. (w, Err []), drop_agent = \<lambda>_ w. w, get_agent = \<lambda>_ w. (w, None),
     restore_provider = \<lambda>_ w. (w, None), load_extensions = \<lambda>_ w. w, turn_limits = \<lambda>_. (None, None),
     agent_reply = \<lambda>_ _ _ w. (w, Ok [])\<rparr>"

definition waiting_state :: "outgoing list gateway_state" where
  "waiting_state = \<lparr>pairings = [], saved_pairings = [], pending_codes =
     [\<lparr>code = lit ''ABC234'', code_gateway = lit ''telegram'', expires_at = 300\<rparr>], saved_gateways = [], outside = []\<rparr>"

definition code_message :: incoming where
  "code_message = \<lparr>sender = sample_user, body = lit ''ABC-234''\<rparr>"

lemma sample_pairing:
  "user_get sample_user (pairings (fst (handle_message sample_handler (lit ''telegram'') code_message waiting_state)))
    = Paired (lit ''s1'') 100"
proof -
  have n: "normalize_code (upper sample_handler) (trim (lit ''ABC-234'')) = lit ''ABC234''"
    by (subst trim_id) (simp_all add: is_ws_def normalize_code_def sample_handler_def)
  have t: "try_consume_code sample_handler (trim (lit ''ABC-234'')) waiting_state
      = (waiting_state\<lparr>pending_codes := []\<rparr>, Ok (Some (lit ''telegram'')))"
    unfolding try_consume_code_def n Let_def
    by (simp add: byte_len_def utf8_size_def CODE_CHARS_def consume_pending_code_def consume_loaded_def and_then_def
        save_codes_def write_config_def read_time_def give_def waiting_state_def sample_handler_def gateway_env.defs)
  show ?thesis
    using t
    by (simp add: handle_message_def handle_unpaired_def code_message_def and_then_def waiting_state_def complete_pairing_def
        outside_do_def outside_get_def sample_handler_def send_to_def set_pairing_def save_pairings_def write_config_def
        read_time_def user_get_insert gateway_env.defs del: lit_Cons)
qed

theorem pairing_needs_code_witness:
  "pairs_with_code sample_handler (lit ''telegram'') code_message waiting_state
     (fst (handle_message sample_handler (lit ''telegram'') code_message waiting_state))"
proof -
  let ?r = "handle_message sample_handler (lit ''telegram'') code_message waiting_state"
  have u: "user_get sample_user (pairings waiting_state) = Unpaired" by (simp add: waiting_state_def)
  have d: "distinct (map code (pending_codes waiting_state))" by (simp add: waiting_state_def)
  show ?thesis
    using pairing_needs_code [OF d, of sample_handler "lit ''telegram''" code_message "fst ?r" "snd ?r" sample_user]
    by (simp add: sample_pairing u del: lit_Cons)
qed

theorem relay_tells_everything_witness:
  "bodies (outside (fst (relay_items sample_handler sample_user
      [MessageEvent (message_new Assistant 0 [mk_text (lit ''one '')]), OtherEvent,
       MessageEvent (message_new User 0 [mk_text (lit ''skipped'')]),
       MessageEvent (message_new Assistant 0 [mk_text (lit ''two'')])] [] False (waiting_state\<lparr>outside := []\<rparr>))))
   = lit ''one two''"
proof -
  have d: "delivers sample_handler" by (simp add: delivers_def sample_handler_def)
  show ?thesis
    by (subst relay_tells_everything [OF d]) (simp_all add: message_new_def mk_text_def text_of_def)
qed

end
