(* ===== verification/GatewayManager.thy ===== *)
theory GatewayManager
  imports GatewayHandler "HOL-Library.AList" "HOL-Library.List_Lexorder"
begin

text \<open>
  The gateways that run, \<open>crates/bharatcode-core/src/gateway/manager.rs\<close>: starting, stopping, restarting and
  removing them, what is saved of them, pairing codes and the status. A start checks that the gateway is not
  running, waits for its validation and then inserts it; other requests may come in between, so the check and
  the insertion are steps of their own.
\<close>

section \<open>State\<close>

record gateway_config =
  gateway_type :: str
  platform_config :: json
  max_sessions :: nat

text \<open>
  Running instances by type; \<open>alive\<close> are the tasks whose token is not cancelled, which nothing but the
  instance can cancel. The secrets hold the platform configurations.
\<close>

record 'w manager =
  gateway :: "'w gateway_state"
  running :: "(str \<times> nat) list"
  alive :: "nat set"
  next_task :: nat
  secrets :: "(str \<times> json) list"

text \<open>
  Outside: building the HTTP client, the validation with the platform, writing and deleting secrets.
\<close>

record 'w manager_env = "'w gateway_env" +
  client_error :: "str option"
  validate :: "gateway_config \<Rightarrow> 'w \<Rightarrow> 'w \<times> str option"
  secret_write :: "'w \<Rightarrow> 'w \<times> str option"
  gateway_info :: "nat \<Rightarrow> (str \<times> str) list"

type_synonym ('w, 'a) mact = "'w manager \<Rightarrow> 'w manager \<times> (str, 'a) result"

definition in_gateway :: "('w, 'a) act \<Rightarrow> ('w, 'a) mact" where
  "in_gateway m s = (case m (gateway s) of (g, r) \<Rightarrow> (s\<lparr>gateway := g\<rparr>, r))"

definition m_then :: "('w, 'a) mact \<Rightarrow> ('a \<Rightarrow> ('w, 'b) mact) \<Rightarrow> ('w, 'b) mact" where
  "m_then m f s = (case m s of (s', Err e) \<Rightarrow> (s', Err e) | (s', Ok x) \<Rightarrow> f x s')"

definition m_give :: "'a \<Rightarrow> ('w, 'a) mact" where "m_give x s = (s, Ok x)"

definition secret_key_for :: "str \<Rightarrow> str" where
  "secret_key_for t = lit ''gateway_platform_config_'' @ t"

section \<open>Saved gateways\<close>

definition load_saved_configs :: "'w manager \<Rightarrow> gateway_config list" where
  "load_saved_configs s = List.map_filter (\<lambda>(t, n). map_option
     (\<lambda>v. \<lparr>gateway_type = t, platform_config = v, max_sessions = n\<rparr>) (map_of (secrets s) (secret_key_for t)))
     (saved_gateways (gateway s))"

definition set_secret :: "'w manager_env \<Rightarrow> str \<Rightarrow> json \<Rightarrow> ('w, unit) mact" where
  "set_secret env k v s = (case secret_write env (outside (gateway s)) of
     (w, None) \<Rightarrow> (s\<lparr>gateway := (gateway s)\<lparr>outside := w\<rparr>, secrets := AList.update k v (secrets s)\<rparr>, Ok ())
   | (w, Some e) \<Rightarrow> (s\<lparr>gateway := (gateway s)\<lparr>outside := w\<rparr>\<rparr>, Err (lit ''failed to save gateway secret: '' @ e)))"

definition delete_secret :: "'w manager_env \<Rightarrow> str \<Rightarrow> 'w manager \<Rightarrow> 'w manager" where
  "delete_secret env k s = (case secret_write env (outside (gateway s)) of
     (w, None) \<Rightarrow> s\<lparr>gateway := (gateway s)\<lparr>outside := w\<rparr>, secrets := AList.delete k (secrets s)\<rparr>
   | (w, Some e) \<Rightarrow> s\<lparr>gateway := (gateway s)\<lparr>outside := w\<rparr>\<rparr>)"

definition save_config :: "'w manager_env \<Rightarrow> gateway_config \<Rightarrow> ('w, unit) mact" where
  "save_config env c = m_then (set_secret env (secret_key_for (gateway_type c)) (platform_config c)) (\<lambda>_.
     in_gateway (write_config (gateway_env.truncate env) (lit ''failed to save gateway config: '')
       (\<lambda>g. g\<lparr>saved_gateways := filter (\<lambda>(t, _). t \<noteq> gateway_type c) (saved_gateways g) @ [(gateway_type c, max_sessions c)]\<rparr>)))"

definition remove_saved_config :: "'w manager_env \<Rightarrow> str \<Rightarrow> 'w manager \<Rightarrow> 'w manager" where
  "remove_saved_config env t s =
     fst (in_gateway (write_config (gateway_env.truncate env) []
       (\<lambda>g. g\<lparr>saved_gateways := filter (\<lambda>(u, _). u \<noteq> t) (saved_gateways g)\<rparr>)) (delete_secret env (secret_key_for t) s))"

section \<open>Starting and stopping\<close>

text \<open>A Telegram gateway is its bot token.\<close>

definition new_telegram :: "'w manager_env \<Rightarrow> gateway_config \<Rightarrow> (str, str) result" where
  "new_telegram env c = (case Option.bind (json_get (platform_config c) (lit ''bot_token'')) json_as_str of
     None \<Rightarrow> Err (lit ''missing bot_token in platform_config'')
   | Some token \<Rightarrow> (case client_error env of Some e \<Rightarrow> Err e | None \<Rightarrow> Ok token))"

definition create_gateway :: "'w manager_env \<Rightarrow> gateway_config \<Rightarrow> (str, str) result" where
  "create_gateway env c = (if gateway_type c = lit ''telegram'' then new_telegram env c
     else Err (lit ''Unknown gateway type: '' @ gateway_type c))"

definition is_running :: "str \<Rightarrow> 'w manager \<Rightarrow> bool" where
  "is_running t s = (map_of (running s) t \<noteq> None)"

definition list_running :: "'w manager \<Rightarrow> str list" where
  "list_running s = map fst (running s)"

definition start_check :: "gateway_config \<Rightarrow> ('w, unit) mact" where
  "start_check c s = (s, if is_running (gateway_type c) s
     then Err (lit ''Gateway '' @ quoted (gateway_type c) @ lit '' is already running'') else Ok ())"

definition start_validate :: "'w manager_env \<Rightarrow> gateway_config \<Rightarrow> ('w, unit) mact" where
  "start_validate env c = in_gateway (outside_do (validate env c))"

text \<open>The task is spawned and the instance put into the map, over one that is there.\<close>

definition start_insert :: "gateway_config \<Rightarrow> ('w, unit) mact" where
  "start_insert c s = (s\<lparr>alive := insert (next_task s) (alive s), running := AList.update (gateway_type c) (next_task s) (running s),
     next_task := Suc (next_task s)\<rparr>, Ok ())"

definition start_gateway_internal :: "'w manager_env \<Rightarrow> gateway_config \<Rightarrow> ('w, unit) mact" where
  "start_gateway_internal env c = m_then (start_check c) (\<lambda>_. m_then (start_validate env c) (\<lambda>_. start_insert c))"

definition start_gateway :: "'w manager_env \<Rightarrow> gateway_config \<Rightarrow> ('w, unit) mact" where
  "start_gateway env c = m_then (start_gateway_internal env c) (\<lambda>_. save_config env c)"

definition cancel_instance :: "str \<Rightarrow> 'w manager \<Rightarrow> 'w manager" where
  "cancel_instance t s = (case map_of (running s) t of
     Some n \<Rightarrow> s\<lparr>running := AList.delete t (running s), alive := alive s - {n}\<rparr> | None \<Rightarrow> s)"

definition stop_gateway :: "str \<Rightarrow> ('w, unit) mact" where
  "stop_gateway t s = (if is_running t s then (cancel_instance t s, Ok ())
     else (s, Err (lit ''Gateway '' @ quoted t @ lit '' is not running'')))"

definition remove_gateway :: "'w manager_env \<Rightarrow> str \<Rightarrow> ('w, unit) mact" where
  "remove_gateway env t s =
     (let s1 = cancel_instance t s;
          s2 = fst (in_gateway (remove_all_for_platform (gateway_env.truncate env) t) s1)
      in (remove_saved_config env t s2, Ok ()))"

definition restart_gateway :: "'w manager_env \<Rightarrow> str \<Rightarrow> ('w, unit) mact" where
  "restart_gateway env t s =
     (if is_running t s then (s, Err (lit ''Gateway '' @ quoted t @ lit '' is already running''))
      else case find (\<lambda>c. gateway_type c = t) (load_saved_configs s) of
          None \<Rightarrow> (s, Err (lit ''No saved config for gateway '' @ quoted t))
        | Some c \<Rightarrow> (case create_gateway env c of Err e \<Rightarrow> (s, Err e) | Ok _ \<Rightarrow> start_gateway_internal env c s))"

fun auto_start :: "'w manager_env \<Rightarrow> gateway_config list \<Rightarrow> 'w manager \<Rightarrow> 'w manager" where
  "auto_start env [] s = s"
| "auto_start env (c # cs) s = (case create_gateway env c of
     Err _ \<Rightarrow> auto_start env cs s | Ok _ \<Rightarrow> auto_start env cs (fst (start_gateway_internal env c s)))"

definition check_auto_start :: "'w manager_env \<Rightarrow> 'w manager \<Rightarrow> 'w manager" where
  "check_auto_start env s = auto_start env (load_saved_configs s) s"

definition stop_all :: "'w manager \<Rightarrow> 'w manager" where
  "stop_all s = s\<lparr>running := [], alive := alive s - snd ` set (running s)\<rparr>"

section \<open>Pairing and status\<close>

definition unpair_user :: "'w manager_env \<Rightarrow> str \<Rightarrow> str \<Rightarrow> ('w, bool) mact" where
  "unpair_user env p u s =
     (let user = \<lparr>platform = p, user_id = u, display_name = None\<rparr> in
      case user_get user (pairings (gateway s)) of
        Paired _ _ \<Rightarrow> m_then (in_gateway (remove_pairing (gateway_env.truncate env) user)) (\<lambda>_. m_give True) s
      | _ \<Rightarrow> (s, Ok False))"

definition generate_pairing_code :: "'w manager_env \<Rightarrow> str \<Rightarrow> ('w, str \<times> int) mact" where
  "generate_pairing_code env t = in_gateway (let e = gateway_env.truncate env in
     and_then (generate_code e) (\<lambda>c. and_then (read_time e) (\<lambda>now.
     and_then (store_pending_code e c t (now + 300)) (\<lambda>_. give (c, now + 300)))))"

record gateway_status =
  status_type :: str
  status_running :: bool
  status_configured :: bool
  paired_users :: "(platform_user \<times> str \<times> int) list"
  status_info :: "(str \<times> str) list"

definition status :: "'w manager_env \<Rightarrow> 'w manager \<Rightarrow> gateway_status list" where
  "status env s =
     (let up = map (\<lambda>(t, n). \<lparr>status_type = t, status_running = True, status_configured = True,
             paired_users = (case snd (list_paired_users t (gateway s)) of Ok us \<Rightarrow> us | Err _ \<Rightarrow> []),
             status_info = gateway_info env n\<rparr>) (running s);
          down = map (\<lambda>c. \<lparr>status_type = gateway_type c, status_running = False, status_configured = True, paired_users = [], status_info = []\<rparr>)
            (filter (\<lambda>c. \<not> is_running (gateway_type c) s) (load_saved_configs s))
      in sort_key status_type (up @ down))"

section \<open>Laws\<close>

text \<open>Every task that is alive is in the map, and only one for each type.\<close>

definition accounted :: "'w manager \<Rightarrow> bool" where
  "accounted s = (alive s = snd ` set (running s) \<and> distinct (map fst (running s)) \<and> distinct (map snd (running s))
     \<and> (\<forall>n \<in> alive s. n < next_task s))"

lemma in_gateway_running [simp]:
  "running (fst (in_gateway m s)) = running s" "alive (fst (in_gateway m s)) = alive s" "next_task (fst (in_gateway m s)) = next_task s"
  by (simp_all add: in_gateway_def split: prod.splits)

lemma accounted_same:
  "running s' = running s \<Longrightarrow> alive s' = alive s \<Longrightarrow> next_task s' = next_task s \<Longrightarrow> accounted s' = accounted s"
  by (simp add: accounted_def)

lemma accounted_in_gateway [simp]: "accounted (fst (in_gateway m s)) = accounted s"
  by (rule accounted_same) simp_all

lemma update_absent: "map_of xs k = None \<Longrightarrow> AList.update k v xs = xs @ [(k, v)]"
  by (induction xs) (auto split: if_splits)

lemma update_appended: "map_of xs k = None \<Longrightarrow> AList.update k v (xs @ [(k, w)]) = xs @ [(k, v)]"
  by (induction xs) (auto split: if_splits)

lemma accounted_start_insert:
  "accounted s \<Longrightarrow> \<not> is_running (gateway_type c) s \<Longrightarrow> accounted (fst (start_insert c s))"
  by (auto simp: accounted_def start_insert_def is_running_def update_absent map_of_eq_None_iff less_Suc_eq)

lemma accounted_start: "accounted s \<Longrightarrow> accounted (fst (start_gateway_internal env c s))"
proof -
  assume a: "accounted s"
  obtain s1 r where v: "start_validate env c s = (s1, r)" by (cases "start_validate env c s")
  have s1: "running s1 = running s" "accounted s1"
    using a arg_cong [OF v, of fst] in_gateway_running(1) [of "outside_do (validate env c)" s]
      accounted_in_gateway [of "outside_do (validate env c)" s]
    by (simp_all add: start_validate_def del: in_gateway_running accounted_in_gateway)
  show ?thesis
  proof (cases "is_running (gateway_type c) s")
    case False
    then have "\<not> is_running (gateway_type c) s1" by (simp add: is_running_def s1)
    then show ?thesis using False v s1(2) accounted_start_insert
      by (cases r) (simp_all add: start_gateway_internal_def m_then_def start_check_def)
  qed (simp add: start_gateway_internal_def m_then_def start_check_def a)
qed

lemma accounted_cancel: "accounted s \<Longrightarrow> accounted (cancel_instance t s)"
proof (cases "map_of (running s) t")
  case (Some n)
  assume a: "accounted s"
  have m: "(t, n) \<in> set (running s)" using Some by (rule map_of_SomeD)
  have "snd ` set (AList.delete t (running s)) = snd ` set (running s) - {n}"
  proof -
    have "snd ` set (AList.delete t (running s)) = snd ` (set (running s) - {(t, n)})"
      using a m by (auto simp: accounted_def AList.delete_eq eq_key_imp_eq_value image_iff)
    also have "\<dots> = snd ` set (running s) - {n}"
      using a m by (subst inj_on_image_set_diff [of snd "set (running s)"]) (simp_all add: accounted_def distinct_map)
    finally show ?thesis .
  qed
  then show ?thesis using a Some
    by (auto simp: accounted_def cancel_instance_def AList.delete_eq distinct_map_filter)
qed (simp add: cancel_instance_def)

text \<open>
  In a sequence of requests each of which runs by itself, every task that runs can be found and stopped.
\<close>

lemma save_config_running:
  "running (fst (save_config env c s)) = running s" "alive (fst (save_config env c s)) = alive s"
  "next_task (fst (save_config env c s)) = next_task s"
  by (auto simp: save_config_def m_then_def set_secret_def in_gateway_def split: prod.splits option.splits sum.splits)

lemma remove_saved_running:
  "running (remove_saved_config env t s) = running s" "alive (remove_saved_config env t s) = alive s"
  "next_task (remove_saved_config env t s) = next_task s"
  by (simp_all add: remove_saved_config_def delete_secret_def split: prod.splits option.splits)

datatype request = Start gateway_config | Stop str | Remove str | Restart str | StopAll

fun serve :: "'w manager_env \<Rightarrow> request \<Rightarrow> 'w manager \<Rightarrow> 'w manager" where
  "serve env (Start c) s = fst (start_gateway env c s)"
| "serve env (Stop t) s = fst (stop_gateway t s)"
| "serve env (Remove t) s = fst (remove_gateway env t s)"
| "serve env (Restart t) s = fst (restart_gateway env t s)"
| "serve env StopAll s = stop_all s"

lemma accounted_serve: "accounted s \<Longrightarrow> accounted (serve env q s)"
proof (cases q)
  case (Start c)
  assume a: "accounted s"
  obtain s1 r where st: "start_gateway_internal env c s = (s1, r)" by (cases "start_gateway_internal env c s")
  have "accounted s1" using accounted_start [OF a, of env c] st by simp
  moreover have "accounted (fst (save_config env c s1)) = accounted s1"
    by (rule accounted_same) (simp_all add: save_config_running)
  ultimately show ?thesis using Start st by (cases r) (simp_all add: start_gateway_def m_then_def)
next
  case (Remove t)
  assume a: "accounted s"
  have "accounted (fst (remove_gateway env t s)) = accounted (cancel_instance t s)"
    by (rule accounted_same) (simp_all add: remove_gateway_def Let_def remove_saved_running)
  then show ?thesis using Remove accounted_cancel [OF a] by simp
next
  case (Restart t)
  assume "accounted s"
  then show ?thesis using Restart accounted_start by (auto simp: restart_gateway_def split: option.splits sum.splits)
next
  case (Stop t)
  assume "accounted s"
  then show ?thesis using Stop by (simp add: stop_gateway_def accounted_cancel)
next
  case StopAll
  assume "accounted s"
  then show ?thesis using StopAll by (simp add: stop_all_def accounted_def)
qed

text \<open>C17. What was started by requests one after another is all found by stopping everything.\<close>

theorem no_task_escapes:
  assumes "accounted s"
  shows "accounted (fold (serve env) qs s) \<and> alive (stop_all (fold (serve env) qs s)) = {}"
proof -
  have "accounted (fold (serve env) qs s)" using assms by (induction qs arbitrary: s) (simp_all add: accounted_serve)
  then show ?thesis by (simp add: accounted_def stop_all_def)
qed

text \<open>
  Two starts whose checks both come before either insertion: the task of the first is in no map, and neither
  stopping the gateway nor stopping everything ends it.
\<close>

lemma concurrent_starts_leave_a_task:
  assumes "accounted s" "\<not> is_running (gateway_type c) s"
  defines "s1 \<equiv> fst (start_check c s)"
  defines "s2 \<equiv> fst (start_check c s1)"
  defines "s3 \<equiv> fst (start_insert c (fst (start_insert c s2)))"
  shows "snd (start_check c s) = Ok ()" "snd (start_check c s1) = Ok ()"
    "next_task s \<in> alive (fst (stop_gateway (gateway_type c) s3))" "next_task s \<in> alive (stop_all s3)"
proof -
  have r: "running s3 = running s @ [(gateway_type c, Suc (next_task s))]"
    using assms(2) by (simp add: s3_def s2_def s1_def start_check_def start_insert_def is_running_def update_absent update_appended)
  have a: "alive s3 = insert (Suc (next_task s)) (insert (next_task s) (alive s))"
    by (simp add: s3_def s2_def s1_def start_check_def start_insert_def)
  have m: "map_of (running s3) (gateway_type c) = Some (Suc (next_task s))"
    using assms(2) by (simp add: r is_running_def map_add_def)
  have old: "next_task s \<notin> snd ` set (running s)" using assms(1) by (auto simp: accounted_def)
  show "snd (start_check c s) = Ok ()" "snd (start_check c s1) = Ok ()"
    using assms(2) by (simp_all add: start_check_def s1_def)
  show "next_task s \<in> alive (fst (stop_gateway (gateway_type c) s3))"
    using m by (simp add: stop_gateway_def is_running_def cancel_instance_def a)
  show "next_task s \<in> alive (stop_all s3)"
    using old by (auto simp: stop_all_def r a)
qed

section \<open>Removal and codes\<close>

text \<open>After a gateway is removed, nobody of its platform is paired any more.\<close>

lemma user_get_filter_platform:
  "user_get v (filter (\<lambda>(u, _). platform u \<noteq> t) ps) = (if platform v = t then Unpaired else user_get v ps)"
  by (induction ps) (auto simp: same_user_def)

lemma pairings_write [simp]: "pairings (fst (write_config env what f s)) = pairings s"
  if "\<And>s. pairings (f s) = pairings s"
  using that by (auto simp: write_config_def split: prod.splits option.splits)

theorem removed_gateway_unpairs:
  "user_get v (pairings (gateway (fst (remove_gateway env t s))))
     = (if platform v = t then Unpaired else user_get v (pairings (gateway s)))"
proof -
  have c: "gateway (cancel_instance t s) = gateway s" by (simp add: cancel_instance_def split: option.splits)
  have d: "pairings (gateway (delete_secret env k s')) = pairings (gateway s')" for k s'
    by (simp add: delete_secret_def split: prod.splits option.splits)
  have r: "pairings (gateway (remove_saved_config env t s')) = pairings (gateway s')" for s'
    by (auto simp: remove_saved_config_def in_gateway_def write_config_def d split: prod.splits option.splits)
  have p: "pairings (fst (remove_all_for_platform e t g)) = filter (\<lambda>(u, _). platform u \<noteq> t) (pairings g)" for e and g
    by (auto simp: remove_all_for_platform_def Let_def and_then_def save_pairings_def write_config_def give_def
        split: prod.splits option.splits)
  have q: "pairings (gateway (fst (in_gateway (remove_all_for_platform e t) s'))) = filter (\<lambda>(u, _). platform u \<noteq> t) (pairings (gateway s'))" for e s'
    using p [of e "gateway s'"] by (cases "remove_all_for_platform e t (gateway s')") (simp add: in_gateway_def)
  show ?thesis
    by (simp add: remove_gateway_def Let_def r c q user_get_filter_platform)
qed

text \<open>
  A code that was made is the code of its gateway, until its time is over: whoever takes it before gets the
  gateway, and the code is gone.
\<close>

lemma take_code_filter: "take_code c (filter (\<lambda>x. code x \<noteq> c) cs @ [y]) =
    (if code y = c then Some (y, filter (\<lambda>x. code x \<noteq> c) cs) else None)"
  by (induction cs) auto

lemma generated_code_accepted:
  assumes "generate_pairing_code env t s = (s1, Ok (c, until))"
    and "\<And>w. snd (config_write env' w) = None" and "\<And>w. snd (unix_time env' w) \<le> until"
  shows "\<exists>s2. consume_pending_code env' c (gateway s1) = (s2, Ok (Some t)) \<and> \<not> list_ex (\<lambda>x. code x = c) (pending_codes s2)"
proof -
  obtain cs now where p: "pending_codes (gateway s1) = filter (\<lambda>x. code x \<noteq> c) cs @ [\<lparr>code = c, code_gateway = t, expires_at = until\<rparr>]"
    using assms(1) by (auto simp: generate_pairing_code_def in_gateway_def Let_def and_then_def generate_code_def read_time_def
        store_pending_code_def save_codes_def write_config_def give_def split: prod.splits option.splits sum.splits)
  have "snd (unix_time env' w) < until \<or> snd (unix_time env' w) = until" for w using assms(3) [of w] by linarith
  moreover have "snd (config_write env' w) = None" for w by (rule assms(2))
  ultimately show ?thesis
    using assms(3) by (auto simp: consume_pending_code_def consume_loaded_def p take_code_filter and_then_def save_codes_def
        write_config_def read_time_def give_def list_ex_iff split: prod.splits option.splits)
       (metis snd_conv option.distinct(1) not_less)+
qed

section \<open>An example\<close>

definition sample_manager_env :: "unit manager_env" where
  "sample_manager_env = \<lparr>config_write = (\<lambda>w. (w, None)), unix_time = (\<lambda>w. (w, 1000)), upper = id, draw = (\<lambda>w. (w, 0)),
     client_error = None, validate = (\<lambda>c w. (w, None)), secret_write = (\<lambda>w. (w, None)), gateway_info = (\<lambda>n. [])\<rparr>"

definition empty_manager :: "unit manager" where
  "empty_manager = \<lparr>gateway = \<lparr>pairings = [], saved_pairings = [], pending_codes = [], saved_gateways = [], outside = ()\<rparr>,
     running = [], alive = {}, next_task = 0, secrets = []\<rparr>"

definition sample_config :: "str \<Rightarrow> gateway_config" where
  "sample_config t = \<lparr>gateway_type = t, platform_config = JNull, max_sessions = 0\<rparr>"

theorem no_task_escapes_witness:
  "let s = fold (serve sample_manager_env) [Start (sample_config [1]), Start (sample_config [2]), Start (sample_config [1]), Stop [2]]
         empty_manager
   in list_running s = [[1]] \<and> alive s = {0} \<and> accounted s \<and> alive (stop_all s) = {}"
proof -
  have a: "accounted empty_manager" by (simp add: accounted_def empty_manager_def)
  let ?s = "fold (serve sample_manager_env) [Start (sample_config [1]), Start (sample_config [2]), Start (sample_config [1]), Stop [2]]
         empty_manager"
  have "list_running ?s = [[1]] \<and> alive ?s = {0}"
    by (auto simp: empty_manager_def sample_manager_env_def sample_config_def start_gateway_def start_gateway_internal_def m_then_def
        start_check_def is_running_def start_validate_def in_gateway_def outside_do_def start_insert_def save_config_def
        set_secret_def write_config_def gateway_env.defs stop_gateway_def cancel_instance_def list_running_def)
  then show ?thesis unfolding Let_def using no_task_escapes [OF a] by blast
qed

end
