(* ===== verification/Telegram.thy ===== *)
theory Telegram
  imports GatewayManager
begin

text \<open>
  The Telegram gateway, \<open>crates/bharatcode-core/src/gateway/telegram.rs\<close>, and the HTML it sends,
  \<open>telegram_format.rs\<close>: what a batch of updates becomes, how an answer is turned from Markdown into Telegram's
  HTML, cut into messages and sent. The requests, the disk and the Markdown parser are parameters; the events of
  the parser are those of \<open>pulldown_cmark\<close> that the source looks at.
\<close>

section \<open>Messages\<close>

record telegram_user =
  first_name :: str
  last_name :: "str option"

record telegram_audio =
  file_id :: str
  duration :: "int option"
  mime :: "str option"
  file_size :: "int option"

record telegram_message =
  message_id :: int
  author :: "telegram_user option"
  chat_id :: int
  message_body :: "str option"
  voice :: "telegram_audio option"
  audio :: "telegram_audio option"

record telegram_update =
  update_id :: int
  update_message :: "telegram_message option"

definition MAX_MESSAGE_LENGTH :: nat where "MAX_MESSAGE_LENGTH = 4096"
definition MAX_VOICE_FILE_SIZE :: int where "MAX_VOICE_FILE_SIZE = 20 * 1024 * 1024"

definition show_int :: "int \<Rightarrow> str" where
  "show_int n = (if n < 0 then 45 # show_nat (nat (- n)) else show_nat (nat n))"

definition parse_i64 :: "str \<Rightarrow> int option" where
  "parse_i64 s =
     (if s \<noteq> [] \<and> hd s = 45
      then if tl s \<noteq> [] \<and> hd (tl s) = 43 then None else map_option (\<lambda>n. - int n) (parse_unsigned (2 ^ 63) (tl s))
      else map_option int (parse_unsigned (2 ^ 63 - 1) s))"

definition voice_info :: "telegram_message \<Rightarrow> telegram_audio option" where
  "voice_info m = (case voice m of Some v \<Rightarrow> Some v | None \<Rightarrow> audio m)"

definition full_name :: "telegram_user \<Rightarrow> str" where
  "full_name u = first_name u @ (case last_name u of Some l \<Rightarrow> 32 # l | None \<Rightarrow> [])"

definition to_platform_user :: "telegram_message \<Rightarrow> platform_user" where
  "to_platform_user m = \<lparr>platform = lit ''telegram'', user_id = show_int (chat_id m),
     display_name = map_option full_name (author m)\<rparr>"

definition voice_extension :: "str option \<Rightarrow> str" where
  "voice_extension mt = (case mt of None \<Rightarrow> lit ''ogg''
   | Some m \<Rightarrow> (let sub = last (split_on 47 m) in
       if sub = lit ''mpeg'' then lit ''mp3''
       else if sub = lit ''mp4'' \<or> sub = lit ''x-m4a'' then lit ''m4a''
       else if sub = lit ''ogg'' then lit ''ogg''
       else if sub = lit ''wav'' \<or> sub = lit ''x-wav'' then lit ''wav'' else sub))"

definition voice_prompt :: "str \<Rightarrow> int option \<Rightarrow> str option \<Rightarrow> str" where
  "voice_prompt path d mt =
     lit ''The user sent a voice message'' @ (case d of Some n \<Rightarrow> lit '' (duration: '' @ show_int n @ lit ''s)'' | None \<Rightarrow> [])
     @ lit ''. The audio file is saved at: '' @ path
     @ (case mt of Some m \<Rightarrow> lit '' The file format is '' @ m @ lit ''.'' | None \<Rightarrow> []) @ [newline, newline]
     @ lit ''Please transcribe this audio file using available command-line tools ''
     @ lit ''(e.g. whisper, ffmpeg, sox, or any STT utility you can find on this system) ''
     @ lit ''and then respond to what the user said. ''
     @ lit ''If no transcription tool is available, let the user know and ask them to type their message instead.''"

section \<open>Receiving\<close>

text \<open>
  Outside: the download of a file and the writing of its bytes under a name with the given extension; a post of a
  text, as HTML or plain, with what the body of the answer says when it can be read; the typing action.
\<close>

record 'w telegram_env =
  download :: "str \<Rightarrow> 'w \<Rightarrow> 'w \<times> (str, nat list) result"
  save_voice :: "nat list \<Rightarrow> str \<Rightarrow> 'w \<Rightarrow> 'w \<times> (str, str) result"
  post_text :: "int \<Rightarrow> str \<Rightarrow> bool \<Rightarrow> 'w \<Rightarrow> 'w \<times> (str, bool option) result"
  post_typing :: "int \<Rightarrow> 'w \<Rightarrow> 'w \<times> str option"

text \<open>The text for the handler, if any: a voice file that is too large or cannot be had is passed over.\<close>

definition update_text :: "'w telegram_env \<Rightarrow> telegram_message \<Rightarrow> 'w \<Rightarrow> 'w \<times> str option" where
  "update_text env m w = (case voice_info m of
     Some v \<Rightarrow>
       (if MAX_VOICE_FILE_SIZE < (case file_size v of Some n \<Rightarrow> n | None \<Rightarrow> 0) then (w, None)
        else case download env (file_id v) w of
            (w1, Err _) \<Rightarrow> (w1, None)
          | (w1, Ok bytes) \<Rightarrow> (case save_voice env bytes (voice_extension (mime v)) w1 of
              (w2, Err _) \<Rightarrow> (w2, None)
            | (w2, Ok path) \<Rightarrow> (w2, Some (voice_prompt path (duration v) (mime v)))))
   | None \<Rightarrow> (w, message_body m))"

text \<open>A batch of updates: the new offset and the messages for the handler, each handled by a task of its own.\<close>

fun take_updates ::
    "'w telegram_env \<Rightarrow> telegram_update list \<Rightarrow> int option \<Rightarrow> 'w \<Rightarrow> 'w \<times> int option \<times> incoming list" where
  "take_updates env [] offset w = (w, offset, [])"
| "take_updates env (u # us) offset w =
     (let offset = Some (update_id u + 1) in
      case update_message u of
        None \<Rightarrow> take_updates env us offset w
      | Some m \<Rightarrow> (case update_text env m w of
            (w1, None) \<Rightarrow> take_updates env us offset w1
          | (w1, Some t) \<Rightarrow> (case take_updates env us offset w1 of
              (w2, o2, ms) \<Rightarrow> (w2, o2, \<lparr>sender = to_platform_user m, body = t\<rparr> # ms))))"

section \<open>Markdown to HTML\<close>

datatype tag = ParagraphTag | HeadingTag | StrongTag | EmphasisTag | StrikethroughTag | CodeBlockTag | LinkTag str
  | ListTag "nat option" | ItemTag | BlockQuoteTag | OtherTag

datatype markdown_event = StartTag tag | EndTag tag | TextEvent str | CodeEvent str | BreakEvent | RuleEvent | IgnoredEvent

definition escape_char :: "uchar \<Rightarrow> str" where
  "escape_char c = (if c = 38 then lit ''&amp;'' else if c = 60 then lit ''&lt;'' else if c = 62 then lit ''&gt;''
     else if c = 34 then lit ''&quot;'' else [c])"

text \<open>The replacements one after another, the ampersand first, are the replacement of every character.\<close>

definition escape_html :: "str \<Rightarrow> str" where
  "escape_html s = concat (map escape_char s)"

definition start_html :: "tag \<Rightarrow> str" where
  "start_html t = (case t of HeadingTag \<Rightarrow> lit ''<b>'' | StrongTag \<Rightarrow> lit ''<b>'' | EmphasisTag \<Rightarrow> lit ''<i>''
   | StrikethroughTag \<Rightarrow> lit ''<s>'' | CodeBlockTag \<Rightarrow> lit ''<pre><code>''
   | LinkTag url \<Rightarrow> lit ''<a href='' @ [34] @ escape_html url @ [34] @ lit ''>''
   | BlockQuoteTag \<Rightarrow> lit ''<blockquote>'' | _ \<Rightarrow> [])"

definition end_html :: "tag \<Rightarrow> str" where
  "end_html t = (case t of ParagraphTag \<Rightarrow> [newline] | HeadingTag \<Rightarrow> lit ''</b>'' @ [newline] | StrongTag \<Rightarrow> lit ''</b>''
   | EmphasisTag \<Rightarrow> lit ''</i>'' | StrikethroughTag \<Rightarrow> lit ''</s>'' | CodeBlockTag \<Rightarrow> lit ''</code></pre>'' @ [newline]
   | LinkTag _ \<Rightarrow> lit ''</a>'' | ItemTag \<Rightarrow> [newline] | BlockQuoteTag \<Rightarrow> lit ''</blockquote>'' @ [newline] | _ \<Rightarrow> [])"

text \<open>One event: what it appends, and the number the next item of a list gets.\<close>

definition bullet :: str where "bullet = [8226, 32]"
definition rule_line :: str where "rule_line = [8212, 8212, 8212, newline]"

definition render_event :: "markdown_event \<Rightarrow> nat option \<Rightarrow> str \<times> nat option" where
  "render_event e n = (case e of
     StartTag (ListTag start) \<Rightarrow> ([], start)
   | StartTag ItemTag \<Rightarrow> (case n of Some k \<Rightarrow> (show_nat k @ lit ''. '', Some (k + 1)) | None \<Rightarrow> (bullet, None))
   | StartTag t \<Rightarrow> (start_html t, n)
   | EndTag (ListTag _) \<Rightarrow> ([], None)
   | EndTag t \<Rightarrow> (end_html t, n)
   | TextEvent t \<Rightarrow> (escape_html t, n)
   | CodeEvent t \<Rightarrow> (lit ''<code>'' @ escape_html t @ lit ''</code>'', n)
   | BreakEvent \<Rightarrow> ([newline], n)
   | RuleEvent \<Rightarrow> (rule_line, n)
   | IgnoredEvent \<Rightarrow> ([], n))"

fun render_events :: "markdown_event list \<Rightarrow> nat option \<Rightarrow> str" where
  "render_events [] n = []"
| "render_events (e # es) n = (case render_event e n of (t, n') \<Rightarrow> t @ render_events es n')"

text \<open>At most two line feeds in a row, except in preformatted text.\<close>

definition pre_after :: "bool \<Rightarrow> str \<Rightarrow> bool" where
  "pre_after p s = (let rest = take 4 s; p1 = (p \<or> starts_with rest (lit ''pre>'') \<or> starts_with rest (lit ''pre ''))
     in p1 \<and> \<not> starts_with rest (lit ''/pre''))"

function collapse_newlines :: "bool \<Rightarrow> str \<Rightarrow> str" where
  "collapse_newlines p [] = []"
| "collapse_newlines p (c # s) =
     (if c = 60 then c # collapse_newlines (pre_after p s) s
      else if \<not> p \<and> c = newline
      then replicate (min (1 + length (takeWhile (\<lambda>x. x = newline) s)) 2) newline
        @ collapse_newlines p (dropWhile (\<lambda>x. x = newline) s)
      else c # collapse_newlines p s)"
  by pat_completeness auto
termination by (relation "measure (\<lambda>(p, s). length s)") (auto simp: less_Suc_eq_le length_dropWhile_le)

definition markdown_to_telegram_html :: "(str \<Rightarrow> markdown_event list) \<Rightarrow> str \<Rightarrow> str" where
  "markdown_to_telegram_html parser text = trim (collapse_newlines False (render_events (parser text) None))"

section \<open>Cutting and sending\<close>

text \<open>
  The longest beginning that ends between two characters and has at most so many bytes, or one character where
  that is empty; it is cut behind its last line feed, or else its last blank.
\<close>

fun fitting :: "nat \<Rightarrow> str \<Rightarrow> str" where
  "fitting n [] = []"
| "fitting n (c # s) = (if utf8_size c \<le> n then c # fitting (n - utf8_size c) s else [])"

definition cut_prefix :: "nat \<Rightarrow> str \<Rightarrow> str" where
  "cut_prefix n s = (let p = fitting n s in if p = [] then take 1 s else p)"

definition up_to_last :: "uchar \<Rightarrow> str \<Rightarrow> nat" where
  "up_to_last d p = length (dropWhile (\<lambda>c. c \<noteq> d) (rev p))"

definition split_point :: "str \<Rightarrow> nat" where
  "split_point p = (if newline \<in> set p then up_to_last newline p else if 32 \<in> set p then up_to_last 32 p else length p)"

lemma up_to_last_pos: "d \<in> set p \<Longrightarrow> 0 < up_to_last d p"
  by (auto simp: up_to_last_def)

lemma split_point_pos: "p \<noteq> [] \<Longrightarrow> 0 < split_point p"
  by (simp add: split_point_def up_to_last_pos)

lemma cut_prefix_nonempty: "s \<noteq> [] \<Longrightarrow> cut_prefix n s \<noteq> []"
  by (simp add: cut_prefix_def Let_def)

function split_chunks :: "nat \<Rightarrow> str \<Rightarrow> str list" where
  "split_chunks n s =
     (if s = [] then []
      else if byte_len s \<le> n then [s]
      else (let k = split_point (cut_prefix n s) in take k s # split_chunks n (drop k s)))"
  by pat_completeness auto
termination
  by (relation "measure (\<lambda>(n, s). length s)") (auto simp: split_point_pos cut_prefix_nonempty)

declare split_chunks.simps [simp del]

definition split_message :: "str \<Rightarrow> nat \<Rightarrow> str list" where
  "split_message s n = (if byte_len s \<le> n then [s] else split_chunks n s)"

fun post_plain :: "'w telegram_env \<Rightarrow> int \<Rightarrow> str list \<Rightarrow> 'w \<Rightarrow> 'w \<times> (str, unit) result" where
  "post_plain env chat [] w = (w, Ok ())"
| "post_plain env chat (c # cs) w = (case post_text env chat c False w of
     (w1, Err e) \<Rightarrow> (w1, Err e) | (w1, Ok _) \<Rightarrow> post_plain env chat cs w1)"

text \<open>The pieces go out as HTML; when one is refused, the whole text goes out plain.\<close>

fun post_html :: "'w telegram_env \<Rightarrow> int \<Rightarrow> str \<Rightarrow> str list \<Rightarrow> 'w \<Rightarrow> 'w \<times> (str, unit) result" where
  "post_html env chat text [] w = (w, Ok ())"
| "post_html env chat text (c # cs) w = (case post_text env chat c True w of
     (w1, Err e) \<Rightarrow> (w1, Err e)
   | (w1, Ok (Some False)) \<Rightarrow> post_plain env chat (split_message text MAX_MESSAGE_LENGTH) w1
   | (w1, Ok _) \<Rightarrow> post_html env chat text cs w1)"

definition send_text :: "'w telegram_env \<Rightarrow> (str \<Rightarrow> markdown_event list) \<Rightarrow> int \<Rightarrow> str \<Rightarrow> 'w \<Rightarrow> 'w \<times> (str, unit) result" where
  "send_text env parser chat text =
     post_html env chat text (split_message (markdown_to_telegram_html parser text) MAX_MESSAGE_LENGTH)"

definition send_message ::
    "'w telegram_env \<Rightarrow> (str \<Rightarrow> markdown_event list) \<Rightarrow> platform_user \<Rightarrow> outgoing \<Rightarrow> 'w \<Rightarrow> 'w \<times> (str, unit) result" where
  "send_message env parser u m w = (case parse_i64 (user_id u) of
     None \<Rightarrow> (w, Err (lit ''invalid chat_id: '' @ user_id u))
   | Some chat \<Rightarrow> (case m of
       TextMessage t \<Rightarrow> send_text env parser chat t w
     | Typing \<Rightarrow> (case post_typing env chat w of (w1, None) \<Rightarrow> (w1, Ok ()) | (w1, Some e) \<Rightarrow> (w1, Err e))))"

section \<open>Laws of receiving\<close>

text \<open>The next poll starts behind the last update, whatever became of it.\<close>

lemma offset_after_updates:
  "us \<noteq> [] \<Longrightarrow> fst (snd (take_updates env us offset w)) = Some (update_id (last us) + 1)"
proof (induction us arbitrary: offset w)
  case (Cons u us)
  have "fst (snd (take_updates env us (Some (update_id u + 1)) w')) = Some (update_id (last (u # us)) + 1)" for w'
    by (cases "us = []") (simp_all add: Cons.IH)
  then show ?case by (simp add: Let_def split: option.splits prod.splits) (metis fst_conv snd_conv)
qed simp

text \<open>Whoever writes in one chat is one user: what one of them is paired for, all are.\<close>

lemma group_members_are_one_user:
  "same_user (to_platform_user m) (to_platform_user (m\<lparr>author := a\<rparr>))"
  by (simp add: to_platform_user_def same_user_def)

section \<open>Laws of cutting\<close>

lemma utf8_size_le: "utf8_size c \<le> 4" "0 < utf8_size c"
  by (simp_all add: utf8_size_def)

lemma byte_len_simps [simp]: "byte_len [] = 0" "byte_len (c # s) = utf8_size c + byte_len s"
  "byte_len (s @ t) = byte_len s + byte_len t"
  by (simp_all add: byte_len_def)

lemma fitting_prefix: "prefix (fitting n s) s \<and> byte_len (fitting n s) \<le> n"
  by (induction n s rule: fitting.induct) auto

lemma byte_len_take: "byte_len (take k s) \<le> byte_len s"
  by (metis append_take_drop_id byte_len_simps(3) le_add1)

lemma split_point_le: "split_point p \<le> length p"
  by (simp add: split_point_def up_to_last_def) (metis length_dropWhile_le length_rev)

lemma cut_prefix_prefix: "prefix (cut_prefix n s) s"
  using fitting_prefix [of n s] by (simp add: cut_prefix_def Let_def take_is_prefix)

lemma cut_prefix_size: "4 \<le> n \<Longrightarrow> byte_len (cut_prefix n s) \<le> n"
  using fitting_prefix [of n s] utf8_size_le(1) [of "hd s"]
  by (cases s) (auto simp: cut_prefix_def Let_def)

lemma chunk_size:
  assumes "4 \<le> n" shows "byte_len (take (split_point (cut_prefix n s)) s) \<le> n"
proof -
  obtain r where s: "s = cut_prefix n s @ r" using cut_prefix_prefix [of n s] by (auto simp: prefix_def)
  have "take (split_point (cut_prefix n s)) s = take (split_point (cut_prefix n s)) (cut_prefix n s)"
    using split_point_le [of "cut_prefix n s"] by (subst (2) s) simp
  then show ?thesis using byte_len_take cut_prefix_size [OF assms, of s] le_trans by metis
qed

lemma split_chunks_concat: "concat (split_chunks n s) = s"
  by (induction n s rule: split_chunks.induct) (subst split_chunks.simps, simp add: Let_def)

lemma split_chunks_bounded:
  "4 \<le> n \<Longrightarrow> c \<in> set (split_chunks n s) \<Longrightarrow> byte_len c \<le> n \<and> c \<noteq> []"
proof (induction n s rule: split_chunks.induct)
  case (1 n s)
  show ?case
    using 1 chunk_size [of n s] split_point_pos [OF cut_prefix_nonempty, of s n]
    by (subst (asm) (2) split_chunks.simps) (auto simp: Let_def split: if_splits)
qed

text \<open>
  Nothing of a text is lost between the messages it is cut into, every message is within the limit of Telegram,
  and only an empty text gives an empty message.
\<close>

theorem messages_cover_text:
  "concat (split_message s MAX_MESSAGE_LENGTH) = s
   \<and> list_all (\<lambda>c. byte_len c \<le> MAX_MESSAGE_LENGTH \<and> (s = [] \<or> c \<noteq> [])) (split_message s MAX_MESSAGE_LENGTH)"
  using split_chunks_bounded [of MAX_MESSAGE_LENGTH]
  by (auto simp: split_message_def split_chunks_concat list_all_iff MAX_MESSAGE_LENGTH_def)

text \<open>
  A piece that is refused after others were taken: what they said is said again by the plain text.
\<close>

lemma refused_piece_repeats:
  assumes "\<And>c w. post_text env chat c False w = (w @ [c], Ok (Some True))"
    and "\<And>c w. post_text env chat c True w = (if c \<in> bad then (w, Ok (Some False)) else (w @ [c], Ok (Some True)))"
    and "set cs \<inter> bad = {}" "c \<in> bad"
  shows "post_html env chat text (cs @ c # rest) w = (w @ cs @ split_message text MAX_MESSAGE_LENGTH, Ok ())"
proof -
  have plain: "post_plain env chat ds w = (w @ ds, Ok ())" for ds w
    by (induction ds arbitrary: w) (simp_all add: assms(1))
  show ?thesis using assms(3) by (induction cs arbitrary: w) (simp_all add: assms(2,4) plain)
qed

section \<open>Laws of the HTML\<close>

text \<open>The names of the tags in a text, closing ones with their slash; and when they are closed in order.\<close>

function tag_names :: "str \<Rightarrow> str list" where
  "tag_names [] = []"
| "tag_names (c # s) =
     (if c = 60 then takeWhile (\<lambda>x. x \<noteq> 62 \<and> \<not> is_ws x) s # tag_names (dropWhile (\<lambda>x. x \<noteq> 62) s) else tag_names s)"
  by pat_completeness auto
termination by (relation "measure length") (auto simp: less_Suc_eq_le length_dropWhile_le)

fun balanced :: "str list \<Rightarrow> str list \<Rightarrow> bool" where
  "balanced open [] = (open = [])"
| "balanced open (t # ts) =
     (if t \<noteq> [] \<and> hd t = 47 then open \<noteq> [] \<and> hd open = tl t \<and> balanced (tl open) ts else balanced (t # open) ts)"

text \<open>Events as the parser gives them: what is started is ended, one inside the other.\<close>

inductive nested :: "markdown_event list \<Rightarrow> bool" where
  nested_Nil: "nested []"
| nested_text: "nested es \<Longrightarrow> (\<forall>t. e \<noteq> StartTag t \<and> e \<noteq> EndTag t) \<Longrightarrow> nested (e # es)"
| nested_tag: "nested es \<Longrightarrow> nested fs \<Longrightarrow> nested (StartTag t # es @ EndTag t # fs)"

lemma tag_names_text: "60 \<notin> set t \<Longrightarrow> tag_names (t @ s) = tag_names s"
  by (induction t) auto

lemma escaped_no_bracket: "60 \<notin> set (escape_html s)" "62 \<notin> set (escape_html s)"
  by (auto simp: escape_html_def escape_char_def split: if_splits)

lemma digits_no_bracket: "set (show_nat n) \<subseteq> {48..57}"
proof (induction n rule: show_nat.induct)
  case (1 n)
  then show ?case by (subst show_nat.simps) auto
qed

lemma number_no_bracket: "60 \<notin> set (show_nat n)"
  using digits_no_bracket [of n] by auto

text \<open>The tags an event contributes.\<close>

definition event_tags :: "markdown_event \<Rightarrow> str list" where
  "event_tags e = (case e of StartTag t \<Rightarrow> tag_names (start_html t) | EndTag t \<Rightarrow> tag_names (end_html t)
     | CodeEvent t \<Rightarrow> [lit ''code'', lit ''/code''] | _ \<Rightarrow> [])"

lemma tag_names_tag:
  "62 \<notin> set b \<Longrightarrow> tag_names (60 # b @ 62 # s) = takeWhile (\<lambda>x. \<not> is_ws x) b # tag_names s"
proof -
  assume b: "62 \<notin> set b"
  have d: "dropWhile (\<lambda>x. x \<noteq> 62) (b @ 62 # s) = 62 # s" using b by (induction b) auto
  have t: "takeWhile (\<lambda>x. x \<noteq> 62 \<and> \<not> is_ws x) (b @ 62 # s) = takeWhile (\<lambda>x. \<not> is_ws x) b"
    using b by (induction b) auto
  show ?thesis by (simp add: d t)
qed

lemma link_tags: "tag_names (start_html (LinkTag url) @ s) = lit ''a'' # tag_names s"
proof -
  let ?b = "lit ''a href='' @ [34] @ escape_html url @ [34]"
  have "62 \<notin> set ?b" using escaped_no_bracket(2) by simp
  from tag_names_tag [OF this, of s] show ?thesis by (simp add: start_html_def is_ws_def)
qed

lemma render_event_tags: "tag_names (fst (render_event e n) @ s) = event_tags e @ tag_names s"
proof (cases e)
  case (StartTag t)
  then show ?thesis
  proof (cases t)
    case (LinkTag url)
    then show ?thesis using StartTag link_tags [of url s] link_tags [of url "[]"]
      by (simp add: render_event_def event_tags_def)
  qed (auto simp: render_event_def event_tags_def start_html_def is_ws_def tag_names_text number_no_bracket bullet_def
        split: option.splits)
next
  case (EndTag t)
  then show ?thesis by (cases t) (simp_all add: render_event_def event_tags_def end_html_def is_ws_def)
next
  case (CodeEvent t)
  then show ?thesis
    by (simp add: render_event_def event_tags_def is_ws_def tag_names_text escaped_no_bracket)
qed (simp_all add: render_event_def event_tags_def tag_names_text escaped_no_bracket rule_line_def)

lemma render_events_tags: "tag_names (render_events es n) = concat (map event_tags es)"
proof (induction es arbitrary: n)
  case (Cons e es)
  obtain t n' where "render_event e n = (t, n')" by (cases "render_event e n")
  then show ?case using render_event_tags [of e n "render_events es n'"] by (simp add: Cons.IH)
qed simp

lemma tag_event_tags:
  "event_tags (StartTag t) = (case t of HeadingTag \<Rightarrow> [lit ''b''] | StrongTag \<Rightarrow> [lit ''b''] | EmphasisTag \<Rightarrow> [lit ''i'']
     | StrikethroughTag \<Rightarrow> [lit ''s''] | CodeBlockTag \<Rightarrow> [lit ''pre'', lit ''code''] | LinkTag _ \<Rightarrow> [lit ''a'']
     | BlockQuoteTag \<Rightarrow> [lit ''blockquote''] | _ \<Rightarrow> [])"
  "event_tags (EndTag t) = (case t of HeadingTag \<Rightarrow> [lit ''/b''] | StrongTag \<Rightarrow> [lit ''/b''] | EmphasisTag \<Rightarrow> [lit ''/i'']
     | StrikethroughTag \<Rightarrow> [lit ''/s''] | CodeBlockTag \<Rightarrow> [lit ''/code'', lit ''/pre''] | LinkTag _ \<Rightarrow> [lit ''/a'']
     | BlockQuoteTag \<Rightarrow> [lit ''/blockquote''] | _ \<Rightarrow> [])"
proof -
  show "event_tags (StartTag t) = (case t of HeadingTag \<Rightarrow> [lit ''b''] | StrongTag \<Rightarrow> [lit ''b''] | EmphasisTag \<Rightarrow> [lit ''i'']
     | StrikethroughTag \<Rightarrow> [lit ''s''] | CodeBlockTag \<Rightarrow> [lit ''pre'', lit ''code''] | LinkTag _ \<Rightarrow> [lit ''a'']
     | BlockQuoteTag \<Rightarrow> [lit ''blockquote''] | _ \<Rightarrow> [])"
  proof (cases t)
    case (LinkTag url)
    then show ?thesis using link_tags [of url "[]"] by (simp add: event_tags_def)
  qed (simp_all add: event_tags_def start_html_def is_ws_def)
qed (cases t; simp add: event_tags_def end_html_def is_ws_def)

lemma nested_balanced: "nested es \<Longrightarrow> balanced open (concat (map event_tags es) @ ts) = balanced open ts"
proof (induction es arbitrary: "open" ts rule: nested.induct)
  case (nested_text es e)
  then show ?case by (cases e) (auto simp: event_tags_def)
next
  case (nested_tag es fs t)
  let ?ts = "event_tags (EndTag t) @ concat (map event_tags fs) @ ts"
  have "balanced open (event_tags (StartTag t) @ concat (map event_tags es) @ ?ts)
      = balanced (rev (event_tags (StartTag t)) @ open) ?ts"
    by (cases t) (simp_all add: tag_event_tags nested_tag.IH(1))
  also have "\<dots> = balanced open ts"
    by (cases t) (simp_all add: tag_event_tags nested_tag.IH(2))
  finally show ?case by simp
qed simp

text \<open>Neither collapsing line feeds nor trimming changes a tag.\<close>

lemma collapse_name:
  "takeWhile (\<lambda>x. x \<noteq> 62 \<and> \<not> is_ws x) (collapse_newlines p s) = takeWhile (\<lambda>x. x \<noteq> 62 \<and> \<not> is_ws x) s"
proof (induction p s rule: collapse_newlines.induct)
  case (2 p c s)
  have "is_ws newline" by (simp add: is_ws_def)
  then show ?case using 2 by (cases "length (takeWhile (\<lambda>x. x = newline) s)") (auto simp: numeral_2_eq_2)
qed simp

lemma drop_past_newlines: "dropWhile (\<lambda>x. x \<noteq> 62) (dropWhile (\<lambda>x. x = newline) s) = dropWhile (\<lambda>x. x \<noteq> 62) s"
  by (induction s) auto

lemma collapse_drop: "\<exists>q. dropWhile (\<lambda>x. x \<noteq> 62) (collapse_newlines p s) = collapse_newlines q (dropWhile (\<lambda>x. x \<noteq> 62) s)"
proof (induction p s rule: collapse_newlines.induct)
  case (2 p c s)
  have r: "dropWhile (\<lambda>x. x \<noteq> 62) (replicate k newline @ t) = dropWhile (\<lambda>x. x \<noteq> 62) t" for k t
    by (induction k) auto
  show ?case
  proof (cases "c = 62")
    case True
    then show ?thesis by (auto intro: exI [of _ p])
  next
    case False
    then show ?thesis using 2 by (auto simp: r drop_past_newlines simp del: replicate_Suc)
  qed
qed simp

lemma tag_names_past_newlines: "tag_names (dropWhile (\<lambda>x. x = newline) s) = tag_names s"
  by (induction s) auto

lemma collapse_tags: "tag_names (collapse_newlines p s) = tag_names s"
proof (induction "length s" arbitrary: p s rule: less_induct)
  case less
  show ?case
  proof (cases s)
    case (Cons c t)
    consider "c = 60" | "c \<noteq> 60" "\<not> p" "c = newline" | "c \<noteq> 60" "p \<or> c \<noteq> newline" by blast
    then show ?thesis
    proof cases
      case 1
      obtain q where q: "dropWhile (\<lambda>x. x \<noteq> 62) (collapse_newlines (pre_after p t) t) = collapse_newlines q (dropWhile (\<lambda>x. x \<noteq> 62) t)"
        using collapse_drop by blast
      have "tag_names (collapse_newlines q (dropWhile (\<lambda>x. x \<noteq> 62) t)) = tag_names (dropWhile (\<lambda>x. x \<noteq> 62) t)"
        by (rule less) (simp add: Cons less_Suc_eq_le length_dropWhile_le)
      then show ?thesis by (simp add: Cons 1 q collapse_name)
    next
      case 2
      have "tag_names (collapse_newlines False (dropWhile (\<lambda>x. x = newline) t)) = tag_names (dropWhile (\<lambda>x. x = newline) t)"
        by (rule less) (simp add: Cons less_Suc_eq_le length_dropWhile_le)
      then show ?thesis using 2 by (simp add: Cons tag_names_text tag_names_past_newlines)
    next
      case 3
      then show ?thesis using less [of t p] by (auto simp: Cons)
    qed
  qed simp
qed

lemma tag_names_blanks: "list_all is_ws w \<Longrightarrow> tag_names (s @ w) = tag_names s"
proof (induction "length s" arbitrary: s rule: less_induct)
  case less
  have no: "60 \<notin> set w" "62 \<notin> set w" using less.prems by (auto simp: list_all_iff is_ws_def)
  show ?case
  proof (cases s)
    case Nil
    then show ?thesis using tag_names_text [OF no(1), of "[]"] by simp
  next
    case (Cons c t)
    have n: "takeWhile (\<lambda>x. x \<noteq> 62 \<and> \<not> is_ws x) (t @ w) = takeWhile (\<lambda>x. x \<noteq> 62 \<and> \<not> is_ws x) t"
      using less.prems by (cases w) (auto simp: takeWhile_append intro: takeWhile_eq_all_conv [THEN iffD2, symmetric])
    have d: "tag_names (dropWhile (\<lambda>x. x \<noteq> 62) (t @ w)) = tag_names (dropWhile (\<lambda>x. x \<noteq> 62) t)"
    proof (cases "62 \<in> set t")
      case True
      then show ?thesis using less.hyps [of "dropWhile (\<lambda>x. x \<noteq> 62) t"] less.prems
        by (simp add: dropWhile_append1 Cons less_Suc_eq_le length_dropWhile_le)
    next
      case False
      then have "dropWhile (\<lambda>x. x \<noteq> 62) (t @ w) = []" "dropWhile (\<lambda>x. x \<noteq> 62) t = []"
        using no(2) by (auto simp: dropWhile_eq_Nil_conv simp del: dropWhile_append)
      then show ?thesis by (simp only:)
    qed
    show ?thesis using less.hyps [of t] less.prems by (simp add: Cons n d)
  qed
qed

lemma trim_tags: "tag_names (trim s) = tag_names s"
proof -
  have "tag_names (trim_start s) = tag_names s" by (induction s) (auto simp: trim_start_def is_ws_def)
  moreover obtain w where w: "trim_start s = trim_end (trim_start s) @ w" "list_all is_ws w"
    using trim_end_prefix by blast
  then have "tag_names (trim_start s) = tag_names (trim_end (trim_start s))"
    using tag_names_blanks [OF w(2)] by metis
  ultimately show ?thesis by (simp add: trim_def)
qed

text \<open>
  Whatever the answer says, the HTML made of it closes every tag it opens, in order: the text of the model
  cannot open one.
\<close>

theorem html_tags_balanced:
  assumes "nested (parser text)"
  shows "balanced [] (tag_names (markdown_to_telegram_html parser text))"
  using nested_balanced [OF assms, of "[]" "[]"]
  by (simp add: markdown_to_telegram_html_def trim_tags collapse_tags render_events_tags)

definition sample_parser :: "str \<Rightarrow> markdown_event list" where
  "sample_parser t = [StartTag StrongTag, TextEvent t, EndTag StrongTag]"

theorem html_tags_balanced_witness:
  "markdown_to_telegram_html sample_parser (lit ''</b>'') = lit ''<b>&lt;/b&gt;</b>''
   \<and> balanced [] (tag_names (markdown_to_telegram_html sample_parser (lit ''</b>'')))"
proof -
  have "nested ([TextEvent (lit ''</b>'')] :: markdown_event list)" by (intro nested_text nested_Nil) simp
  from nested_tag [OF this nested_Nil, of StrongTag] have "nested (sample_parser (lit ''</b>''))"
    by (simp add: sample_parser_def del: lit_Cons)
  moreover have "collapse_newlines p s = s" if "newline \<notin> set s" for p s
    using that by (induction p s rule: collapse_newlines.induct) auto
  then have "markdown_to_telegram_html sample_parser (lit ''</b>'') = lit ''<b>&lt;/b&gt;</b>''"
    by (simp add: markdown_to_telegram_html_def sample_parser_def render_event_def start_html_def end_html_def
        escape_html_def escape_char_def trim_id is_ws_def)
  ultimately show ?thesis using html_tags_balanced [of sample_parser "lit ''</b>''"] by (simp del: lit_Cons)
qed

text \<open>
  But the HTML is cut into messages without regard to its tags: here the first message ends inside the tag of a
  link, and Telegram refuses it.
\<close>

lemma fitting_replicate: "fitting n (replicate k 97 @ s) = replicate (min k n) 97 @ (if k \<le> n then fitting (n - k) s else [])"
proof (induction k arbitrary: n)
  case (Suc k)
  then show ?case by (cases n) (auto simp: utf8_size_def min_def)
qed simp

lemma tag_cut_between_messages:
  "\<exists>rest. split_message (replicate 4090 97 @ start_html (LinkTag url) @ s) MAX_MESSAGE_LENGTH
     = (replicate 4090 97 @ lit ''<a '') # rest"
proof -
  let ?s = "replicate 4090 97 @ start_html (LinkTag url) @ s :: str"
  have len: "byte_len (replicate k 97) = k" for k by (induction k) (simp_all add: utf8_size_def)
  have "fitting 6 (start_html (LinkTag url) @ s) = lit ''<a hre''"
    by (simp add: start_html_def utf8_size_def)
  then have c: "cut_prefix 4096 ?s = replicate 4090 97 @ lit ''<a hre''"
    by (simp add: cut_prefix_def fitting_replicate Let_def)
  have p: "split_point (cut_prefix 4096 ?s) = 4093"
    by (simp add: c split_point_def up_to_last_def)
  have big: "\<not> byte_len ?s \<le> 4096"
    by (simp add: len start_html_def utf8_size_def)
  have "?s \<noteq> []" by simp
  then have "split_chunks 4096 ?s = take 4093 ?s # split_chunks 4096 (drop 4093 ?s)"
    by (subst split_chunks.simps) (simp only: if_False big Let_def p)
  moreover have "take 4093 ?s = replicate 4090 97 @ lit ''<a ''" by (simp add: start_html_def)
  ultimately show ?thesis
    unfolding split_message_def MAX_MESSAGE_LENGTH_def if_not_P [OF big] by simp
qed

text \<open>A list inside a numbered one: the numbers of the outer list do not go on behind it.\<close>

lemma numbering_lost_after_inner_list:
  "render_events [StartTag (ListTag (Some 1)), StartTag ItemTag, TextEvent [97], StartTag (ListTag None), StartTag ItemTag,
     TextEvent [98], EndTag ItemTag, EndTag (ListTag None), EndTag ItemTag, StartTag ItemTag, TextEvent [99], EndTag ItemTag,
     EndTag (ListTag (Some 1))] None
   = lit ''1. a'' @ bullet @ [98, newline, newline] @ bullet @ [99, newline]"
  by (simp add: render_event_def escape_html_def escape_char_def end_html_def show_nat.simps bullet_def)

end
