(* ===== verification/ContextSelect.thy ===== *)
theory ContextSelect
  imports Conversation Complex_Main
begin

text \<open>
  The three opt-in passes over the messages that are about to be summarised: the summaries of old diffs
  (\<open>bharatcode-core/src/context_mgmt/diff_compact.rs\<close>), the digest of the public interface in shared code
  (\<open>docgen.rs\<close>) and the selection of messages within a token budget (\<open>context_optimizer.rs\<close>). The flags
  are arguments. \<open>fl\<close> rounds a real result to a floating-point number; \<open>alnum\<close> and \<open>lower\<close> are the
  Unicode tables of \<open>char::is_alphanumeric\<close> and \<open>str::to_lowercase\<close>; \<open>show_args\<close> prints the arguments of a
  call as JSON.
\<close>

definition truthy_word :: "str \<Rightarrow> bool" where
  "truthy_word s = (to_ascii_lowercase (trim s) \<in> {lit ''1'', lit ''true'', lit ''yes'', lit ''on''})"

section \<open>Summaries of diffs\<close>

definition KEEP_RECENT_DIFFS :: nat where "KEEP_RECENT_DIFFS = 3"

definition diff_compact_enabled :: "str option \<Rightarrow> str option \<Rightarrow> bool" where
  "diff_compact_enabled env config = (case env of Some r \<Rightarrow> truthy_word r
   | None \<Rightarrow> (case config of Some r \<Rightarrow> truthy_word r | None \<Rightarrow> False))"

definition is_hunk_marker :: "str \<Rightarrow> bool" where
  "is_hunk_marker s = (case strip_prefix s (lit ''@@ '') of Some rest \<Rightarrow> contains_str rest (lit ''@@'') | None \<Rightarrow> False)"

definition looks_like_diff :: "str \<Rightarrow> bool" where
  "looks_like_diff s = list_ex (\<lambda>l. let t = trim_start l in
     starts_with t (lit ''*** Begin Patch'') \<or> starts_with t (lit ''diff --git '') \<or> is_hunk_marker t) (str_lines s)"

definition strip_ab_prefix :: "str \<Rightarrow> str" where
  "strip_ab_prefix p = (case strip_prefix p (lit ''a/'') of Some r \<Rightarrow> r
   | None \<Rightarrow> (case strip_prefix p (lit ''b/'') of Some r \<Rightarrow> r | None \<Rightarrow> p))"

definition patch_headers :: "str list" where
  "patch_headers = List.map lit [''*** Update File: '', ''*** Add File: '', ''*** Delete File: '', ''*** Move File: '']"

definition parse_file_header :: "str \<Rightarrow> str option" where
  "parse_file_header s =
     (case first_some (strip_prefix s) patch_headers of
        Some rest \<Rightarrow> Some (trim rest)
      | None \<Rightarrow>
          (let git = (case strip_prefix s (lit ''diff --git '') of
                 Some rest \<Rightarrow> (let parts = split_whitespace rest in if parts = [] then None else Some (last parts))
               | None \<Rightarrow> None)
           in case git of Some b \<Rightarrow> Some (strip_ab_prefix b)
              | None \<Rightarrow> (case strip_prefix s (lit ''+++ '') of
                  Some rest \<Rightarrow> (let p = trim (takeWhile (\<lambda>c. c \<noteq> 9) rest)
                     in if p \<noteq> lit ''/dev/null'' then Some (strip_ab_prefix p) else None)
                | None \<Rightarrow> None)))"

record diff_stat =
  added :: nat
  removed :: nat
  hunks :: nat

definition no_stat :: diff_stat where "no_stat = \<lparr>added = 0, removed = 0, hunks = 0\<rparr>"

text \<open>The statistics of the files in the order in which they are first seen: \<open>order\<close> and \<open>stats\<close> in one list.\<close>

type_synonym diff_stats = "(str \<times> diff_stat) list"

definition entry :: "str \<Rightarrow> diff_stats \<Rightarrow> diff_stats" where
  "entry name st = (if name \<in> fst ` set st then st else st @ [(name, no_stat)])"

definition count_in :: "str \<Rightarrow> (diff_stat \<Rightarrow> diff_stat) \<Rightarrow> diff_stats \<Rightarrow> diff_stats" where
  "count_in name f st = List.map (\<lambda>(k, v). if k = name then (k, f v) else (k, v)) (entry name st)"

definition current_file :: "str option \<Rightarrow> str" where
  "current_file cur = (case cur of Some n \<Rightarrow> n | None \<Rightarrow> lit ''(unknown)'')"

definition diff_line :: "diff_stats \<times> str option \<Rightarrow> str \<Rightarrow> diff_stats \<times> str option" where
  "diff_line = (\<lambda>(st, cur) l. let t = trim_start l in
     case parse_file_header t of
       Some name \<Rightarrow> (entry name st, Some name)
     | None \<Rightarrow>
         if is_hunk_marker t then (count_in (current_file cur) (\<lambda>s. s\<lparr>hunks := hunks s + 1\<rparr>) st, cur)
         else if starts_with l (lit ''+'') \<and> \<not> starts_with l (lit ''+++'') \<or> starts_with l (lit ''-'') \<and> \<not> starts_with l (lit ''---'')
         then (count_in (current_file cur) (if starts_with l (lit ''+'') then (\<lambda>s. s\<lparr>added := added s + 1\<rparr>)
                  else (\<lambda>s. s\<lparr>removed := removed s + 1\<rparr>)) st, cur)
         else (st, cur))"

definition diff_stats_of :: "str \<Rightarrow> diff_stats" where
  "diff_stats_of s = fst (foldl diff_line ([], None) (str_lines s))"

definition summarize_diff :: "str \<Rightarrow> str" where
  "summarize_diff s = join_with [newline] (List.map (\<lambda>(name, st).
     name @ lit '': +'' @ show_nat (added st) @ lit ''/-'' @ show_nat (removed st)
     @ lit '' ('' @ show_nat (hunks st) @ lit '' hunks)'') (diff_stats_of s))"

definition message_has_diff :: "message \<Rightarrow> bool" where
  "message_has_diff m = looks_like_diff (as_concat_text m)"

definition summarized_diff :: "(str \<Rightarrow> str) \<Rightarrow> message \<Rightarrow> message" where
  "summarized_diff nfc m =
     (let summary = summarize_diff (as_concat_text m);
          text = (if summary = [] then lit ''[diff omitted during compaction]''
            else lit ''[diff summarized during compaction]'' @ [newline] @ summary);
          r = (with_text nfc text (message_new (role m) (created m) []))\<lparr>metadata := metadata m\<rparr>
      in case msg_id m of Some i \<Rightarrow> with_id i r | None \<Rightarrow> r)"

text \<open>\<open>n\<close>: how many diffs are still to be summarised.\<close>

fun summarize_first :: "(str \<Rightarrow> str) \<Rightarrow> nat \<Rightarrow> message list \<Rightarrow> message list" where
  "summarize_first nfc n [] = []"
| "summarize_first nfc n (m # ms) =
     (if message_has_diff m
      then (case n of 0 \<Rightarrow> m # summarize_first nfc 0 ms | Suc k \<Rightarrow> summarized_diff nfc m # summarize_first nfc k ms)
      else m # summarize_first nfc n ms)"

definition select_diff_aware_owned :: "(str \<Rightarrow> str) \<Rightarrow> bool \<Rightarrow> message list \<Rightarrow> message list" where
  "select_diff_aware_owned nfc enabled ms =
     (if \<not> enabled then ms
      else summarize_first nfc (length (filter message_has_diff ms) - KEEP_RECENT_DIFFS) ms)"

section \<open>The digest of public interfaces\<close>

definition docgen_enabled :: "str option \<Rightarrow> bool" where
  "docgen_enabled env = (case env of Some r \<Rightarrow> truthy_word r | None \<Rightarrow> False)"

text \<open>\<open>line[..find(p)]\<close>, where the text is found.\<close>

fun before_str :: "str \<Rightarrow> str \<Rightarrow> str option" where
  "before_str s p = (if starts_with s p then Some []
     else case s of [] \<Rightarrow> None | c # r \<Rightarrow> map_option ((#) c) (before_str r p))"

declare before_str.simps [simp del]

definition signature_of :: "str \<Rightarrow> str" where
  "signature_of l =
     (let cut = (case before_str l (lit ''{'') of Some a \<Rightarrow> a
        | None \<Rightarrow> (case before_str l (lit '' =>'') of Some a \<Rightarrow> a | None \<Rightarrow> l))
      in rev (dropWhile (\<lambda>c. c = 58) (rev (trim_end cut))))"

definition declaration_prefixes :: "str list" where
  "declaration_prefixes = List.map lit [''pub fn '', ''pub struct '', ''pub enum '', ''pub trait '', ''pub async fn '',
     ''export function '', ''export class '', ''export const '', ''def '']"

definition push_new :: "'a list \<Rightarrow> 'a \<Rightarrow> 'a list" where
  "push_new xs x = (if x \<in> set xs then xs else xs @ [x])"

definition extract_public_api :: "str \<Rightarrow> str list" where
  "extract_public_api src = foldl (\<lambda>out raw_line. let l = trim raw_line in
     if list_ex (starts_with l) declaration_prefixes
     then (let s = signature_of l in if s \<noteq> [] then push_new out s else out)
     else out) [] (str_lines src)"

definition fence_line :: "str list \<times> bool \<times> str \<Rightarrow> str \<Rightarrow> str list \<times> bool \<times> str" where
  "fence_line = (\<lambda>(blocks, in_block, cur) l.
     if starts_with (trim_start l) (lit ''```'')
     then (if in_block then (blocks @ [cur], False, []) else (blocks, True, cur))
     else if in_block then (blocks, True, cur @ l @ [newline]) else (blocks, False, cur))"

definition fenced_code_blocks :: "str \<Rightarrow> str list" where
  "fenced_code_blocks s = (case foldl fence_line ([], False, []) (str_lines s) of
     (blocks, in_block, cur) \<Rightarrow> if in_block \<and> cur \<noteq> [] then blocks @ [cur] else blocks)"

definition shared_symbols :: "message list \<Rightarrow> str list" where
  "shared_symbols ms = foldl push_new []
     (concat (List.map extract_public_api (concat (List.map fenced_code_blocks
       (concat (List.map (\<lambda>m. List.map_filter as_text (content m)) ms))))))"

definition api_digest_block :: "bool \<Rightarrow> message list \<Rightarrow> str option" where
  "api_digest_block enabled ms =
     (if \<not> enabled then None
      else (let symbols = shared_symbols ms in
        if symbols = [] then None
        else Some (lit ''# Public API to document'' @ [newline]
          @ lit ''These public symbols appeared in code shared earlier; retain them so they can be documented:'' @ [newline]
          @ concat (List.map (\<lambda>s. lit ''- '' @ s @ [newline]) symbols))))"

section \<open>Selection within a budget\<close>

definition content_chars :: "(json_object option \<Rightarrow> str) \<Rightarrow> message_content \<Rightarrow> nat" where
  "content_chars show_args c = (case c of
     Text t \<Rightarrow> byte_len (text_str t)
   | ToolRequest r \<Rightarrow> (case tool_call r of
       Ok call \<Rightarrow> byte_len (tool_name call) + byte_len (show_args (arguments call)) | Err _ \<Rightarrow> 0)
   | ToolResponse r \<Rightarrow> (case tool_result r of
       Ok res \<Rightarrow> sum_list (List.map byte_len (List.map_filter (\<lambda>k. raw_as_text (raw k)) (result_content res))) | Err _ \<Rightarrow> 0)
   | _ \<Rightarrow> 16)"

definition estimate_message_tokens :: "(json_object option \<Rightarrow> str) \<Rightarrow> message \<Rightarrow> nat" where
  "estimate_message_tokens show_args m = sum_list (List.map (content_chars show_args) (content m)) div 4 + 4"

text \<open>\<open>str::split\<close> at the characters that are not alphanumeric.\<close>

fun split_if :: "(uchar \<Rightarrow> bool) \<Rightarrow> str \<Rightarrow> str list" where
  "split_if p [] = [[]]"
| "split_if p (c # s) = (if p c then [] # split_if p s
     else (case split_if p s of [] \<Rightarrow> [[c]] | w # ws \<Rightarrow> (c # w) # ws))"

record words =
  alnum :: "uchar \<Rightarrow> bool"
  lower :: "str \<Rightarrow> str"

definition message_keywords :: "words \<Rightarrow> message \<Rightarrow> str list" where
  "message_keywords W m = List.map (lower W) (filter (\<lambda>w. 3 \<le> byte_len w)
     (concat (List.map (split_if (\<lambda>c. \<not> alnum W c)) (List.map_filter as_text (content m)))))"

definition is_tool_related :: "message \<Rightarrow> bool" where
  "is_tool_related m = list_ex (\<lambda>c. is_tool_request c \<or> is_response c) (content m)"

definition relevance_reference :: "words \<Rightarrow> message list \<Rightarrow> str set" where
  "relevance_reference W ms = (case List.find (\<lambda>m. role m = User) (rev ms) of
     Some m \<Rightarrow> set (message_keywords W m) | None \<Rightarrow> {})"

definition message_score :: "(rat \<Rightarrow> rat) \<Rightarrow> words \<Rightarrow> str set \<Rightarrow> nat \<Rightarrow> nat \<Rightarrow> message \<Rightarrow> rat" where
  "message_score fl W reference n i m =
     (let recency = fl (fl (of_nat i + 1) / of_nat n);
          kws = message_keywords W m;
          overlap = (if reference = {} \<or> kws = [] then 0
            else fl (of_nat (length (filter (\<lambda>k. k \<in> reference) kws)) / of_nat (length kws)));
          score = fl (fl (fl (3 / 5) * overlap) + fl (fl (2 / 5) * recency))
      in if is_tool_related m then fl (score + fl (1 / 20)) else score)"

definition is_anchor :: "nat \<Rightarrow> nat \<Rightarrow> nat \<Rightarrow> bool" where
  "is_anchor n protect_last_n i = (i = 0 \<or> n - max protect_last_n 1 \<le> i)"

text \<open>The messages that are not anchors, with the highest score first, and of the same score in their order.\<close>

definition scored :: "(rat \<Rightarrow> rat) \<Rightarrow> words \<Rightarrow> message list \<Rightarrow> nat \<Rightarrow> nat list" where
  "scored fl W ms protect_last_n =
     (let n = length ms; reference = relevance_reference W ms
      in sort_key (\<lambda>i. - message_score fl W reference n i (ms ! i))
           (filter (\<lambda>i. \<not> is_anchor n protect_last_n i) [0..<n]))"

definition admit :: "(message \<Rightarrow> nat) \<Rightarrow> nat \<Rightarrow> message list \<Rightarrow> nat list \<times> nat \<Rightarrow> nat \<Rightarrow> nat list \<times> nat" where
  "admit cost budget ms = (\<lambda>(kept, used) i.
     if used + cost (ms ! i) \<le> budget then (i # kept, used + cost (ms ! i)) else (kept, used))"

definition select_indices_with ::
    "(rat \<Rightarrow> rat) \<Rightarrow> words \<Rightarrow> (message \<Rightarrow> nat) \<Rightarrow> message list \<Rightarrow> nat \<Rightarrow> nat \<Rightarrow> nat list" where
  "select_indices_with fl W cost ms budget protect_last_n =
     (let anchors = filter (is_anchor (length ms) protect_last_n) [0..<length ms];
          kept = fst (foldl (admit cost budget ms) (anchors, sum_list (List.map (\<lambda>i. cost (ms ! i)) anchors))
            (scored fl W ms protect_last_n))
      in filter (\<lambda>i. i \<in> set kept) [0..<length ms])"

definition optimize_messages ::
    "(rat \<Rightarrow> rat) \<Rightarrow> words \<Rightarrow> (json_object option \<Rightarrow> str) \<Rightarrow> bool \<Rightarrow> message list \<Rightarrow> nat \<Rightarrow> nat \<Rightarrow> message list" where
  "optimize_messages fl W show_args enabled ms budget protect_last_n =
     (let cost = estimate_message_tokens show_args in
      if \<not> enabled \<or> sum_list (List.map cost ms) \<le> budget then ms
      else List.map (\<lambda>i. ms ! i) (select_indices_with fl W cost ms budget protect_last_n))"

section \<open>Laws of the summaries\<close>

lemma length_summarize_first [simp]: "length (summarize_first nfc n ms) = length ms"
  by (induction nfc n ms rule: summarize_first.induct) (auto split: nat.splits)

lemma nth_summarize_first:
  "i < length ms \<Longrightarrow> summarize_first nfc n ms ! i =
     (if message_has_diff (ms ! i) \<and> length (filter message_has_diff (take i ms)) < n
      then summarized_diff nfc (ms ! i) else ms ! i)"
  by (induction nfc n ms arbitrary: i rule: summarize_first.induct) (auto simp: nth_Cons split: nat.splits)

lemma summarized_diff_keeps:
  "role (summarized_diff nfc m) = role m" "created (summarized_diff nfc m) = created m"
  "msg_id (summarized_diff nfc m) = msg_id m" "metadata (summarized_diff nfc m) = metadata m"
  by (simp_all add: summarized_diff_def with_text_def with_content_def with_id_def message_new_def Let_def split: option.splits)

text \<open>
  Summarising old diffs replaces exactly the messages with a diff behind which at least three others with a
  diff follow; every other message stays as it is, and a replaced one keeps its place, role, identifier, time
  and visibility.
\<close>
lemma old_diffs_summarized:
  assumes "i < length ms"
  shows "length (select_diff_aware_owned nfc enabled ms) = length ms
     \<and> select_diff_aware_owned nfc enabled ms ! i =
       (if enabled \<and> message_has_diff (ms ! i) \<and> 3 \<le> length (filter message_has_diff (drop (i + 1) ms))
        then summarized_diff nfc (ms ! i) else ms ! i)
     \<and> role (summarized_diff nfc (ms ! i)) = role (ms ! i) \<and> msg_id (summarized_diff nfc (ms ! i)) = msg_id (ms ! i)
     \<and> metadata (summarized_diff nfc (ms ! i)) = metadata (ms ! i)"
proof -
  let ?d = message_has_diff
  have "filter ?d ms = filter ?d (take i ms) @ filter ?d [ms ! i] @ filter ?d (drop (i + 1) ms)"
    using id_take_nth_drop [OF assms] by (metis Suc_eq_plus1 append_Cons append_Nil filter_append)
  then have "length (filter ?d ms) = length (filter ?d (take i ms)) + length (filter ?d [ms ! i]) + length (filter ?d (drop (i + 1) ms))"
    by (metis length_append add.assoc)
  then have "length (filter ?d (take i ms)) < length (filter ?d ms) - 3 \<longleftrightarrow> 3 \<le> length (filter ?d (drop (i + 1) ms))"
    if "?d (ms ! i)" using that by simp linarith
  then show ?thesis
    using assms
    by (cases "?d (ms ! i)") (simp_all add: select_diff_aware_owned_def KEEP_RECENT_DIFFS_def nth_summarize_first summarized_diff_keeps)
qed

definition diff_message :: message where
  "diff_message = message_new User 0
     [Text \<lparr>text_str = lit ''@@ -1 +1 @@'', text_meta = None, text_audience = None\<rparr>]"

lemma diff_message_has_diff: "message_has_diff diff_message"
  by (simp add: message_has_diff_def looks_like_diff_def diff_message_def as_concat_text_def message_new_def
      List.map_filter_def str_lines_def strip_cr_def trim_start_def is_ws_def is_hunk_marker_def starts_with_def)

lemma old_diffs_summarized_witness:
  "select_diff_aware_owned id True (replicate 4 diff_message) ! 0 = summarized_diff id diff_message"
  using old_diffs_summarized [of 0 "replicate 4 diff_message" id True] diff_message_has_diff by simp

subsection \<open>Counting hunks\<close>

lemma entry_hunks [simp]: "sum_list (List.map (\<lambda>(k, v). hunks v) (entry n st)) = sum_list (List.map (\<lambda>(k, v). hunks v) st)"
  by (simp add: entry_def no_stat_def)

lemma entry_distinct: "distinct (List.map fst st) \<Longrightarrow> distinct (List.map fst (entry n st))"
  by (auto simp: entry_def)

lemma count_in_keys: "List.map fst (count_in n f st) = List.map fst (entry n st)"
  by (induction st) (auto simp: count_in_def)

lemma count_in_hunks:
  assumes "distinct (List.map fst st)" and "\<And>v. hunks (f v) = hunks v + k"
  shows "sum_list (List.map (\<lambda>(k, v). hunks v) (count_in n f st)) = sum_list (List.map (\<lambda>(k, v). hunks v) st) + k"
proof -
  have no: "n \<notin> fst ` set xs \<Longrightarrow> List.map (\<lambda>(k, v). if k = n then (k, f v) else (k, v)) xs = xs" for xs
    by (induction xs) auto
  have yes: "distinct (List.map fst xs) \<Longrightarrow> n \<in> fst ` set xs \<Longrightarrow>
     sum_list (List.map (\<lambda>(k, v). hunks v) (List.map (\<lambda>(k, v). if k = n then (k, f v) else (k, v)) xs))
       = sum_list (List.map (\<lambda>(k, v). hunks v) xs) + k" for xs
  proof (induction xs)
    case (Cons x xs)
    then show ?case using no [of xs] assms(2) by (cases x) (auto simp del: map_map)
  qed simp
  have "n \<in> fst ` set (entry n st)" by (force simp: entry_def)
  with yes [OF entry_distinct [OF assms(1)]] show ?thesis by (simp add: count_in_def)
qed

lemma hunk_marker_no_header: "is_hunk_marker s \<Longrightarrow> parse_file_header s = None"
  by (auto simp: is_hunk_marker_def parse_file_header_def patch_headers_def Let_def split: option.splits)

lemma diff_line_hunks:
  assumes "distinct (List.map fst st)" and "diff_line (st, cur) l = (st', cur')"
  shows "distinct (List.map fst st') \<and> sum_list (List.map (\<lambda>(k, v). hunks v) st')
    = sum_list (List.map (\<lambda>(k, v). hunks v) st) + (if is_hunk_marker (trim_start l) then 1 else 0)"
proof (cases "parse_file_header (trim_start l)")
  case (Some n)
  then show ?thesis
    using assms hunk_marker_no_header [of "trim_start l"] by (auto simp: diff_line_def Let_def entry_distinct)
next
  case None
  note h = count_in_hunks [OF assms(1)]
  have d: "distinct (List.map fst (count_in n f st))" for n f
    using entry_distinct [OF assms(1)] by (simp add: count_in_keys)
  show ?thesis
    using None assms
    by (auto simp: diff_line_def Let_def d h [of _ 1] h [of _ 0] split: if_splits)
qed

lemma foldl_hunks:
  "distinct (List.map fst st) \<Longrightarrow> sum_list (List.map (\<lambda>(k, v). hunks v) (fst (foldl diff_line (st, cur) ls)))
     = sum_list (List.map (\<lambda>(k, v). hunks v) st) + length (filter (\<lambda>l. is_hunk_marker (trim_start l)) ls)"
proof (induction ls arbitrary: st cur)
  case (Cons l ls)
  obtain st' cur' where s: "diff_line (st, cur) l = (st', cur')" by force
  from diff_line_hunks [OF Cons.prems s] Cons.IH [of st' cur'] s show ?case by simp
qed simp

text \<open>No hunk of a diff is dropped from its summary, whatever the lines between the hunks are.\<close>

theorem hunks_all_counted:
  "sum_list (List.map (\<lambda>(name, st). hunks st) (diff_stats_of s))
     = length (filter (\<lambda>l. is_hunk_marker (trim_start l)) (str_lines s))"
  using foldl_hunks [of "[]" None "str_lines s"] by (simp add: diff_stats_of_def)

text \<open>A removed line that starts with two dashes, such as a comment of SQL, is taken for metadata.\<close>

lemma removed_comment_not_counted:
  "diff_stats_of (lit ''--- drop'') = [] \<and> diff_stats_of (lit ''-- drop'') = [(lit ''(unknown)'', no_stat\<lparr>removed := 1\<rparr>)]"
  by (simp add: diff_stats_of_def diff_line_def str_lines_def strip_cr_def trim_start_def is_ws_def parse_file_header_def
      patch_headers_def is_hunk_marker_def starts_with_def count_in_def entry_def current_file_def no_stat_def Let_def)


section \<open>Laws of the selection\<close>

lemma set_scored: "set (scored fl W ms p) = {i. i < length ms \<and> \<not> is_anchor (length ms) p i}"
  by (auto simp: scored_def Let_def)

lemma distinct_scored: "distinct (scored fl W ms p)"
  by (simp add: scored_def Let_def)

text \<open>Admitting one after the other: what is kept stays so, the costs add up, and what is refused does not fit.\<close>

lemma admit_all:
  fixes cost :: "message \<Rightarrow> nat"
  assumes "distinct is" and "set is \<inter> set kept = {}" and "distinct kept"
    and "used = sum_list (List.map (\<lambda>i. cost (ms ! i)) kept)"
    and "foldl (admit cost budget ms) (kept, used) is = (kept', used')"
  shows "used' = sum_list (List.map (\<lambda>i. cost (ms ! i)) kept') \<and> distinct kept' \<and> used \<le> used' \<and> used' \<le> max used budget
    \<and> set kept \<subseteq> set kept' \<and> set kept' \<subseteq> set kept \<union> set is
    \<and> (\<forall>i\<in>set is - set kept'. budget < used' + cost (ms ! i))"
  using assms
proof (induction "is" arbitrary: kept used)
  case (Cons i "is")
  obtain k1 u1 where a: "admit cost budget ms (kept, used) i = (k1, u1)" by force
  then consider (yes) "k1 = i # kept" "u1 = used + cost (ms ! i)" "used + cost (ms ! i) \<le> budget"
    | (no) "k1 = kept" "u1 = used" "budget < used + cost (ms ! i)"
    by (auto simp: admit_def split: if_splits)
  then show ?case
  proof cases
    case yes
    have f: "foldl (admit cost budget ms) (k1, u1) is = (kept', used')" using Cons.prems(5) a by simp
    have k: "distinct is" "set is \<inter> set k1 = {}" "distinct k1" "u1 = sum_list (List.map (\<lambda>i. cost (ms ! i)) k1)"
      using yes Cons.prems(1-4) by auto
    from Cons.IH [OF k f] have ih: "used' = sum_list (List.map (\<lambda>i. cost (ms ! i)) kept')" "distinct kept'" "u1 \<le> used'"
      "used' \<le> max u1 budget" "set k1 \<subseteq> set kept'" "set kept' \<subseteq> set k1 \<union> set is"
      "\<forall>i\<in>set is - set kept'. budget < used' + cost (ms ! i)" by blast+
    show ?thesis
      using ih(1,2,7) ih(3-6) yes by (intro conjI) (simp, simp, simp, simp add: max_def, auto)
  next
    case no
    have f: "foldl (admit cost budget ms) (kept, used) is = (kept', used')" using Cons.prems(5) a no by simp
    have k: "distinct is" "set is \<inter> set kept = {}" using Cons.prems(1,2) by auto
    from Cons.IH [OF k Cons.prems(3,4) f] have ih: "used' = sum_list (List.map (\<lambda>i. cost (ms ! i)) kept')" "distinct kept'"
      "used \<le> used'" "used' \<le> max used budget" "set kept \<subseteq> set kept'" "set kept' \<subseteq> set kept \<union> set is"
      "\<forall>i\<in>set is - set kept'. budget < used' + cost (ms ! i)" by blast+
    show ?thesis
      using ih no(3) by (intro conjI) (simp, simp, simp, simp, simp, auto)
  qed
qed simp

lemma sum_filter_upt:
  fixes f :: "nat \<Rightarrow> nat"
  assumes "distinct xs" and "set xs \<subseteq> {..<n}"
  shows "sum_list (List.map f (filter (\<lambda>i. i \<in> set xs) [0..<n])) = sum_list (List.map f xs)"
proof -
  have "set (filter (\<lambda>i. i \<in> set xs) [0..<n]) = set xs" using assms(2) by auto
  then show ?thesis
    using sum_list_distinct_conv_sum_set [of "filter (\<lambda>i. i \<in> set xs) [0..<n]" f]
      sum_list_distinct_conv_sum_set [OF assms(1), of f] by simp
qed

text \<open>
  C38. The messages selected are in their order and hold the first and the last ones, whatever they cost. Beyond
  those they stay within the budget, and no message left out would still fit.
\<close>
theorem selection_within_budget:
  "\<exists>kept anchors. kept = select_indices_with fl W cost ms budget protect_last_n
     \<and> anchors = filter (is_anchor (length ms) protect_last_n) [0..<length ms]
     \<and> sorted kept \<and> distinct kept \<and> set anchors \<subseteq> set kept \<and> set kept \<subseteq> {..<length ms}
     \<and> sum_list (List.map (\<lambda>i. cost (ms ! i)) kept) \<le> max budget (sum_list (List.map (\<lambda>i. cost (ms ! i)) anchors))
     \<and> filter (\<lambda>i. i \<notin> set kept \<and> sum_list (List.map (\<lambda>i. cost (ms ! i)) kept) + cost (ms ! i) \<le> budget) [0..<length ms] = []"
proof -
  let ?n = "length ms" and ?c = "\<lambda>i. cost (ms ! i)"
  let ?anchors = "filter (is_anchor ?n protect_last_n) [0..<?n]"
  let ?kept = "select_indices_with fl W cost ms budget protect_last_n"
  obtain k u where f: "foldl (admit cost budget ms) (?anchors, sum_list (List.map ?c ?anchors)) (scored fl W ms protect_last_n) = (k, u)"
    by force
  have dis: "set (scored fl W ms protect_last_n) \<inter> set ?anchors = {}" by (auto simp: set_scored)
  have da: "distinct ?anchors" by simp
  note a = admit_all [OF distinct_scored dis da refl f]
  have e: "?kept = filter (\<lambda>i. i \<in> set k) [0..<?n]" by (simp add: select_indices_with_def f Let_def)
  have sub: "set k \<subseteq> {..<?n}" using a by (auto simp: set_scored)
  then have s: "set ?kept = set k" unfolding e by auto
  have sum: "sum_list (List.map ?c ?kept) = u" using a sum_filter_upt [OF _ sub, of ?c] by (simp add: e)
  have rest: "i \<in> set (scored fl W ms protect_last_n)" if "i \<in> {..<?n} - set k" for i
    using that a by (auto simp: set_scored)
  have fits: "\<forall>i\<in>{..<?n} - set k. budget < u + cost (ms ! i)" using rest a by blast
  have none: "filter (\<lambda>i. i \<notin> set k \<and> u + cost (ms ! i) \<le> budget) [0..<?n] = []"
    using fits by (auto simp: filter_empty_conv not_le)
  have "u \<le> max budget (sum_list (List.map ?c ?anchors))" using a by (simp add: max.commute)
  moreover have "set ?anchors \<subseteq> set k" using a by blast
  moreover have "sorted ?kept" "distinct ?kept" unfolding e by (simp_all add: sorted_wrt_filter)
  ultimately show ?thesis
    using none sub unfolding sum [symmetric] s [symmetric] by blast
qed


text \<open>
  A call of a tool and its result are two messages that are admitted one by one: the request can be kept
  without the result.
\<close>

definition pair_messages :: "message list" where
  "pair_messages = [message_user 0,
     with_tool_request (lit ''t'') (Ok \<lparr>tool_name = lit ''n'', arguments = None\<rparr>) (message_assistant 0),
     with_tool_response (lit ''t'') (Ok \<lparr>result_content = [\<lparr>raw = RawText (lit ''a long result of the tool''), content_audience = None\<rparr>],
        structured_content = None, is_error = None, result_meta = None\<rparr>) (message_user 0),
     message_user 0]"

lemma pair_split:
  "select_indices_with id \<lparr>alnum = is_digit, lower = id\<rparr> (estimate_message_tokens (\<lambda>_. [])) pair_messages 13 1 = [0, 1, 3]
   \<and> is_tool_request (hd (content (pair_messages ! 1))) \<and> is_response (hd (content (pair_messages ! 2)))"
  by code_simp

end
