(* ===== verification/Compaction.thy ===== *)
theory Compaction
  imports ContextSelect ConversationLaws ProviderRetry TokenUsage
begin

text \<open>
  The compaction of a conversation (\<open>bharatcode-core/src/context_mgmt/mod.rs\<close>): when it is due, what is
  summarised and how tool results are left out until the provider accepts the request, what the conversation
  is afterwards, and the summaries of single tool calls. The provider, the template engine, the estimate of
  a response's usage and the counting of tokens are operations of a record over a state \<open>'w\<close>, which also
  holds the configuration. A floating-point number is the rational number it stands for; \<open>round\<close> rounds.
\<close>

section \<open>Parameters\<close>

datatype compact_error =
    TemplateError str
  | UsageEstimateError str
  | StillTooLong
  | ProviderFailure provider_error
  | NoMessagesFor str
  | CounterError str

record ('w, 's) compact_env =
  complete_fast :: "'w \<Rightarrow> str \<Rightarrow> message list \<Rightarrow> 'w \<times> (provider_error, message \<times> 's provider_usage) result"
  manages_own_context :: bool
  context_limit :: nat
  render_compaction :: "str \<Rightarrow> (str, str) result"
  ensure_usage_tokens :: "'s provider_usage \<Rightarrow> str \<Rightarrow> message list \<Rightarrow> message \<Rightarrow> (str, 's provider_usage) result"
  count_tokens :: "'w \<Rightarrow> (str, message \<Rightarrow> nat) result"
  round_f64 :: "rat \<Rightarrow> rat"
  word_tables :: words
  print_args :: "json_object option \<Rightarrow> str"
  normalise_text :: "str \<Rightarrow> str"
  now_of :: "'w \<Rightarrow> int"
  fresh_id :: "'w \<Rightarrow> str"
  optimize_on :: "'w \<Rightarrow> bool"
  diff_compact_on :: "'w \<Rightarrow> bool"
  docgen_on :: "'w \<Rightarrow> bool"
  tool_pair_on :: "'w \<Rightarrow> bool"
  threshold_param :: "'w \<Rightarrow> rat option"

definition usize :: "rat \<Rightarrow> nat" where
  "usize x = min USIZE_MAX (nat (floor x))"

definition DEFAULT_COMPACTION_THRESHOLD :: "('w, 's) compact_env \<Rightarrow> rat" where
  "DEFAULT_COMPACTION_THRESHOLD env = round_f64 env (4 / 5)"

definition TOOLCALL_SUMMARIZATION_BATCH_SIZE :: nat where "TOOLCALL_SUMMARIZATION_BATCH_SIZE = 10"

section \<open>When compaction is due\<close>

text \<open>
  \<open>tokens as usize\<close>: the sign of the count is extended. Divided by a limit of zero, a positive number gives
  an infinite ratio, and zero one that is no number.
\<close>

definition tokens_as_usize :: "i32 \<Rightarrow> nat" where
  "tokens_as_usize t = unat (scast t :: 64 word)"

definition check_if_compaction_needed ::
    "('w, 's) compact_env \<Rightarrow> message list \<Rightarrow> rat option \<Rightarrow> usage \<Rightarrow> 'w \<Rightarrow> (compact_error, bool) result" where
  "check_if_compaction_needed env conv threshold_override session_usage w =
     (if manages_own_context env then Ok False
      else
        let threshold = (case threshold_override of Some t \<Rightarrow> t
              | None \<Rightarrow> (case threshold_param env w of Some t \<Rightarrow> t | None \<Rightarrow> DEFAULT_COMPACTION_THRESHOLD env));
            current = (case total_tokens session_usage of
                Some t \<Rightarrow> Ok (tokens_as_usize t)
              | None \<Rightarrow> (case count_tokens env w of
                    Err e \<Rightarrow> Err (CounterError e)
                  | Ok count \<Rightarrow> Ok (sum_list (List.map count (filter is_agent_visible conv)))))
        in map_sum id (\<lambda>n.
             let ratio = round_f64 env (round_f64 env (of_nat n) / round_f64 env (of_nat (context_limit env)))
             in if threshold \<le> 0 \<or> 1 \<le> threshold then False
                else if context_limit env = 0 then 0 < n
                else threshold < ratio) current)"

section \<open>Leaving out tool results\<close>

definition tool_indices :: "message list \<Rightarrow> nat list" where
  "tool_indices ms = filter (\<lambda>i. is_tool_response (ms ! i)) [0..<length ms]"

text \<open>One index of the loop that works from the middle outwards.\<close>

definition middle_out :: "nat list \<Rightarrow> nat \<Rightarrow> nat list" where
  "middle_out ts i = (let middle = length ts div 2; offset = i div 2 in
     if i mod 2 = 0
     then (if offset < middle then [ts ! (middle - offset - 1)] else [])
     else (if middle + offset < length ts then [ts ! (middle + offset)] else []))"

definition filter_tool_responses :: "message list \<Rightarrow> nat \<Rightarrow> message list" where
  "filter_tool_responses ms remove_percent =
     (if remove_percent = 0 then ms
      else let ts = tool_indices ms in
        if ts = [] then ms
        else let num_to_remove = max (length ts * remove_percent div 100) 1;
                 gone = concat (List.map (middle_out ts) [0..<num_to_remove])
             in List.map (\<lambda>i. ms ! i) (filter (\<lambda>i. i \<notin> set gone) [0..<length ms]))"

section \<open>Printing a message\<close>

definition format_content :: "(json_object option \<Rightarrow> str) \<Rightarrow> message_content \<Rightarrow> str option" where
  "format_content show_args c = (case c of
     Text t \<Rightarrow> Some (text_str t)
   | Image i \<Rightarrow> Some (lit ''[image: '' @ mime_type i @ lit '']'')
   | ToolRequest r \<Rightarrow> Some (case tool_call r of
       Ok call \<Rightarrow> lit ''tool_request('' @ tool_name call @ lit ''): '' @ show_args (arguments call)
     | Err _ \<Rightarrow> lit ''tool_request: [error]'')
   | ToolResponse r \<Rightarrow> Some (case tool_result r of
       Ok res \<Rightarrow> (let items = List.map_filter (\<lambda>k. raw_as_text (raw k)) (result_content res) in
         if items \<noteq> [] then lit ''tool_response: '' @ join_with [newline] items
         else lit ''tool_response: [non-text content]'')
     | Err _ \<Rightarrow> lit ''tool_response: [error]'')
   | ToolConfirmationRequest r \<Rightarrow> Some (lit ''tool_confirmation_request: '' @ confirmation_tool r)
   | ActionRequired a \<Rightarrow> Some (case a of
       ToolConfirmation _ name _ _ \<Rightarrow> lit ''action_required(tool_confirmation): '' @ name
     | Elicitation _ msg _ \<Rightarrow> lit ''action_required(elicitation): '' @ msg
     | ElicitationResponse i _ _ \<Rightarrow> lit ''action_required(elicitation_response): '' @ i)
   | FrontendToolRequest r \<Rightarrow> Some (case frontend_call r of
       Ok call \<Rightarrow> lit ''frontend_tool_request: '' @ tool_name call
     | Err _ \<Rightarrow> lit ''frontend_tool_request: [error]'')
   | Thinking _ \<Rightarrow> None
   | RedactedThinking _ \<Rightarrow> None
   | SystemNotification n \<Rightarrow> Some (lit ''system_notification: '' @ notification_msg n))"

definition show_role :: "role \<Rightarrow> str" where
  "show_role r = (case r of User \<Rightarrow> lit ''user'' | Assistant \<Rightarrow> lit ''assistant'')"

definition format_message_for_compacting :: "(json_object option \<Rightarrow> str) \<Rightarrow> message \<Rightarrow> str" where
  "format_message_for_compacting show_args m =
     (let parts = List.map_filter (format_content show_args) (content m)
      in lit ''['' @ show_role (role m) @ lit '']: ''
         @ (if parts = [] then lit ''<empty message>'' else join_with [newline] parts))"

section \<open>Summarising\<close>

definition removal_percentages :: "nat list" where "removal_percentages = [0, 10, 20, 50, 100]"

definition summary_request :: "('w, 's) compact_env \<Rightarrow> 'w \<Rightarrow> message" where
  "summary_request env w = with_text (normalise_text env)
     (lit ''Please summarize the conversation history provided in the system prompt.'') (message_user (now_of env w))"

definition compaction_text :: "('w, 's) compact_env \<Rightarrow> message list \<Rightarrow> nat \<Rightarrow> str" where
  "compaction_text env ms percent =
     join_with [newline] (List.map (format_message_for_compacting (print_args env)) (filter_tool_responses ms percent))"

text \<open>The attempts, each with more tool results left out; only a context that is too long leads to the next.\<close>

fun summarize_attempts ::
    "('w, 's) compact_env \<Rightarrow> message list \<Rightarrow> nat list \<Rightarrow> 'w \<Rightarrow> 'w \<times> (compact_error, message \<times> 's provider_usage) result" where
  "summarize_attempts env ms [] w = (w, Err StillTooLong)"
| "summarize_attempts env ms (percent # ps) w =
     (case render_compaction env (compaction_text env ms percent) of
        Err e \<Rightarrow> (w, Err (TemplateError e))
      | Ok prompt \<Rightarrow>
          (let request = [summary_request env w] in
           case complete_fast env w prompt request of
             (w1, Ok (response, usage)) \<Rightarrow>
               (let r = response\<lparr>role := User\<rparr> in
                case ensure_usage_tokens env usage prompt request r of
                  Err e \<Rightarrow> (w1, Err (UsageEstimateError e))
                | Ok u \<Rightarrow> (w1, Ok (r, u)))
           | (w1, Err e) \<Rightarrow>
               (case e of
                  ContextLengthExceeded _ \<Rightarrow>
                    (if ps \<noteq> [] then summarize_attempts env ms ps w1 else (w1, Err StillTooLong))
                | _ \<Rightarrow> (w1, Err (ProviderFailure e)))))"

definition compaction_budget :: "('w, 's) compact_env \<Rightarrow> nat" where
  "compaction_budget env =
     usize (round_f64 env (round_f64 env (of_nat (context_limit env)) * DEFAULT_COMPACTION_THRESHOLD env))"

text \<open>What is to be summarised: the messages of the agent after the opt-in passes.\<close>

definition messages_to_summarize :: "('w, 's) compact_env \<Rightarrow> message list \<Rightarrow> 'w \<Rightarrow> message list" where
  "messages_to_summarize env ms w =
     (let visible = List.map agent_visible_content (filter is_agent_visible ms);
          chosen = (if optimize_on env w
            then optimize_messages (round_f64 env) (word_tables env) (print_args env) True visible
                   (compaction_budget env) TOOLCALL_SUMMARIZATION_BATCH_SIZE
            else visible);
          shortened = select_diff_aware_owned (normalise_text env) (diff_compact_on env w) chosen
      in case api_digest_block (docgen_on env w) shortened of
           Some digest \<Rightarrow> with_text (normalise_text env) digest (message_user (now_of env w)) # shortened
         | None \<Rightarrow> shortened)"

definition do_compact ::
    "('w, 's) compact_env \<Rightarrow> message list \<Rightarrow> 'w \<Rightarrow> 'w \<times> (compact_error, message \<times> 's provider_usage) result" where
  "do_compact env ms w = summarize_attempts env (messages_to_summarize env ms w) removal_percentages w"

section \<open>The compacted conversation\<close>

definition CONVERSATION_CONTINUATION_TEXT :: str where
  "CONVERSATION_CONTINUATION_TEXT =
     lit ''Your context was compacted. The previous message contains a summary of the conversation so far.'' @ [newline]
     @ lit ''Do not mention that you read a summary or that conversation summarization occurred.'' @ [newline]
     @ lit ''Just continue the conversation naturally based on the summarized context.''"

definition TOOL_LOOP_CONTINUATION_TEXT :: str where
  "TOOL_LOOP_CONTINUATION_TEXT =
     lit ''Your context was compacted. The previous message contains a summary of the conversation so far.'' @ [newline]
     @ lit ''Do not mention that you read a summary or that conversation summarization occurred.'' @ [newline]
     @ lit ''Continue calling tools as necessary to complete the task.''"

definition MANUAL_COMPACT_CONTINUATION_TEXT :: str where
  "MANUAL_COMPACT_CONTINUATION_TEXT =
     lit ''Your context was compacted at the user'' @ [39]
     @ lit ''s request. The previous message contains a summary of the conversation so far.'' @ [newline]
     @ lit ''Do not mention that you read a summary or that conversation summarization occurred.'' @ [newline]
     @ lit ''Just continue the conversation naturally based on the summarized context.''"

definition has_text_only :: "message \<Rightarrow> bool" where
  "has_text_only m = (list_ex is_text (content m) \<and> \<not> list_ex (\<lambda>c. is_tool_request c \<or> is_response c) (content m))"

definition extract_text :: "message \<Rightarrow> str option" where
  "extract_text m = (let parts = List.map_filter as_text (content m) in
     if parts = [] then None else Some (join_with [newline] parts))"

text \<open>The most recent message of the user, and whether it is the last of all.\<close>

definition preserved_message :: "bool \<Rightarrow> message list \<Rightarrow> message option \<times> bool" where
  "preserved_message manual ms =
     (if manual then (None, False)
      else case List.find (\<lambda>i. is_agent_visible (ms ! i) \<and> role (ms ! i) = User \<and> has_text_only (ms ! i)) (rev [0..<length ms]) of
          Some i \<Rightarrow> (Some (ms ! i), i = length ms - 1)
        | None \<Rightarrow> (None, False))"

definition hide_original :: "bool \<Rightarrow> nat \<Rightarrow> nat \<Rightarrow> message \<Rightarrow> message" where
  "hide_original preserved_last n i m =
     with_metadata (if preserved_last \<and> i = n - 1 then metadata_invisible else with_agent_invisible (metadata m)) m"

definition compacted :: "('w, 's) compact_env \<Rightarrow> bool \<Rightarrow> message list \<Rightarrow> message \<Rightarrow> 'w \<Rightarrow> message list" where
  "compacted env manual ms summary w =
     (let (preserved, is_most_recent) = preserved_message manual ms;
          originals = List.map (\<lambda>(i, m). hide_original (is_most_recent \<and> preserved \<noteq> None) (length ms) i m)
            (List.enumerate 0 ms);
          continuation = (if manual then MANUAL_COMPACT_CONTINUATION_TEXT
            else if is_most_recent then CONVERSATION_CONTINUATION_TEXT else TOOL_LOOP_CONTINUATION_TEXT);
          tail = fst (merge_consecutive_messages [with_metadata metadata_agent_only summary,
            with_metadata metadata_agent_only (with_text (normalise_text env) continuation (message_assistant (now_of env w)))])
      in originals @ tail @ (case Option.bind preserved extract_text of
           Some t \<Rightarrow> [with_text (normalise_text env) t (message_user (now_of env w))] | None \<Rightarrow> []))"

definition compact_messages ::
    "('w, 's) compact_env \<Rightarrow> conversation \<Rightarrow> bool \<Rightarrow> 'w \<Rightarrow> 'w \<times> (compact_error, conversation \<times> 's provider_usage) result" where
  "compact_messages env conv manual w = (case do_compact env conv w of
     (w1, Err e) \<Rightarrow> (w1, Err e)
   | (w1, Ok (summary, usage)) \<Rightarrow> (w1, Ok (compacted env manual conv summary w1, usage)))"

section \<open>Summaries of tool calls\<close>

definition clamp_between :: "nat \<Rightarrow> nat \<Rightarrow> nat \<Rightarrow> nat" where
  "clamp_between lo hi n = (if n < lo then lo else if hi < n then hi else n)"

definition compute_tool_call_cutoff :: "('w, 's) compact_env \<Rightarrow> nat \<Rightarrow> rat \<Rightarrow> nat" where
  "compute_tool_call_cutoff env limit compaction_threshold =
     (let threshold = (if 0 < compaction_threshold \<and> compaction_threshold \<le> 1 then compaction_threshold
            else DEFAULT_COMPACTION_THRESHOLD env);
          effective_limit = usize (round_f64 env (round_f64 env (of_nat limit) * threshold))
      in clamp_between 10 500 (3 * effective_limit div 20000))"

definition agent_tool_ids :: "conversation \<Rightarrow> str list" where
  "agent_tool_ids conv = concat (List.map (\<lambda>m. List.map_filter request_id_of (content m)) (filter is_agent_visible conv))"

definition tool_ids_to_summarize :: "conversation \<Rightarrow> nat \<Rightarrow> nat \<Rightarrow> str list" where
  "tool_ids_to_summarize conv cutoff protect_last_n =
     (let ids = agent_tool_ids conv; eligible = length ids - protect_last_n
      in if eligible \<le> cutoff + TOOLCALL_SUMMARIZATION_BATCH_SIZE then []
         else take TOOLCALL_SUMMARIZATION_BATCH_SIZE ids)"

definition has_tool_id :: "str \<Rightarrow> message \<Rightarrow> bool" where
  "has_tool_id i m = list_ex (\<lambda>c. request_id_of c = Some i \<or> response_id_of c = Some i) (content m)"

text \<open>\<open>prompt\<close> is the fixed instruction to summarise a call and its result.\<close>

definition summarize_tool_call ::
    "('w, 's) compact_env \<Rightarrow> str \<Rightarrow> conversation \<Rightarrow> str \<Rightarrow> 'w \<Rightarrow> 'w \<times> (compact_error, message) result" where
  "summarize_tool_call env prompt conv tool_id w =
     (let matching = filter (has_tool_id tool_id) conv in
      if matching = [] then (w, Err (NoMessagesFor tool_id))
      else
        let formatted = join_with [newline] (List.map (format_message_for_compacting (print_args env)) matching) in
        case complete_fast env w prompt [with_text (normalise_text env) formatted (message_user (now_of env w))] of
          (w1, Err e) \<Rightarrow> (w1, Err (ProviderFailure e))
        | (w1, Ok (response, _)) \<Rightarrow>
            (w1, Ok (with_generated_id (fresh_id env w1)
               (response\<lparr>role := User, created := created (last matching), metadata := metadata_agent_only\<rparr>))))"

fun summarize_each ::
    "('w, 's) compact_env \<Rightarrow> str \<Rightarrow> conversation \<Rightarrow> str list \<Rightarrow> 'w \<Rightarrow> 'w \<times> (message \<times> str) list" where
  "summarize_each env prompt conv [] w = (w, [])"
| "summarize_each env prompt conv (i # is) w =
     (case summarize_tool_call env prompt conv i w of
        (w1, Ok m) \<Rightarrow> (let (w2, rs) = summarize_each env prompt conv is w1 in (w2, (m, i) # rs))
      | (w1, Err _) \<Rightarrow> summarize_each env prompt conv is w1)"

text \<open>The task that is spawned, where there is one.\<close>

definition maybe_summarize_tool_pairs ::
    "('w, 's) compact_env \<Rightarrow> str \<Rightarrow> conversation \<Rightarrow> nat \<Rightarrow> nat \<Rightarrow> 'w \<Rightarrow> ('w \<Rightarrow> 'w \<times> (message \<times> str) list) option" where
  "maybe_summarize_tool_pairs env prompt conv cutoff protect_last_n w =
     (if \<not> tool_pair_on env w \<or> manages_own_context env then None
      else let ids = tool_ids_to_summarize conv cutoff protect_last_n in
        if ids = [] then None else Some (summarize_each env prompt conv ids))"

section \<open>Which tool results are left out\<close>

lemma drop_take_nth: "drop a (take b xs) = List.map ((!) xs) [a..<min (length xs) b]"
  by (rule nth_equalityI) (auto simp: less_diff_conv add.commute)

lemma set_middle_out:
  "set (concat (List.map (middle_out ts) [0..<k])) =
     set (drop (length ts div 2 - (k + 1) div 2) (take (length ts div 2 + k div 2) ts))" (is "?l = ?r")
proof -
  let ?h = "length ts div 2" and ?n = "length ts"
  have arith: "i < k \<Longrightarrow> even i \<and> j + i div 2 + 1 = h \<or> odd i \<and> j = h + i div 2 \<Longrightarrow> h - (k + 1) div 2 \<le> j \<and> j < h + k div 2"
    for i k j h :: nat
  proof (cases "even i")
    case True
    then obtain q where q: "i = 2 * q" by blast
    assume "i < k" "even i \<and> j + i div 2 + 1 = h \<or> odd i \<and> j = h + i div 2"
    with q have "2 * q < k" "j + q + 1 = h" by auto
    then have "q + 1 \<le> (k + 1) div 2" "j < h" by (simp_all add: less_eq_div_iff_mult_less_eq)
    with \<open>j + q + 1 = h\<close> show ?thesis by linarith
  next
    case False
    then obtain q where q: "i = 2 * q + 1" by (blast elim: oddE)
    assume "i < k" "even i \<and> j + i div 2 + 1 = h \<or> odd i \<and> j = h + i div 2"
    with q have "2 * q + 1 < k" "j = h + q" by auto
    then have "q + 1 \<le> k div 2" by (simp add: less_eq_div_iff_mult_less_eq)
    with \<open>j = h + q\<close> show ?thesis by linarith
  qed
  have m: "set (middle_out ts i) = (!) ts ` {j. j < ?n \<and> (even i \<and> j + i div 2 + 1 = ?h \<or> odd i \<and> j = ?h + i div 2)}" for i
  proof (cases "even i")
    case True
    have "{j. j < ?n \<and> (even i \<and> j + i div 2 + 1 = ?h \<or> odd i \<and> j = ?h + i div 2)} = (if i div 2 < ?h then {?h - i div 2 - 1} else {})"
      using True by auto
    with True show ?thesis by (simp add: middle_out_def Let_def even_iff_mod_2_eq_zero)
  next
    case False
    have "{j. j < ?n \<and> (even i \<and> j + i div 2 + 1 = ?h \<or> odd i \<and> j = ?h + i div 2)} = (if ?h + i div 2 < ?n then {?h + i div 2} else {})"
      using False by auto
    with False show ?thesis by (simp add: middle_out_def Let_def odd_iff_mod_2_eq_one)
  qed
  have "?l = (\<Union>i<k. set (middle_out ts i))" by auto
  also have "\<dots> = (!) ts ` (\<Union>i<k. {j. j < ?n \<and> (even i \<and> j + i div 2 + 1 = ?h \<or> odd i \<and> j = ?h + i div 2)})"
    unfolding m by (rule image_UN [symmetric])
  also have "(\<Union>i<k. {j. j < ?n \<and> (even i \<and> j + i div 2 + 1 = ?h \<or> odd i \<and> j = ?h + i div 2)})
      = {j. j < ?n \<and> (\<exists>i<k. even i \<and> j + i div 2 + 1 = ?h \<or> odd i \<and> j = ?h + i div 2)}" by blast
  finally have l: "?l = (!) ts ` {j. j < ?n \<and> (\<exists>i<k. even i \<and> j + i div 2 + 1 = ?h \<or> odd i \<and> j = ?h + i div 2)}" .
  have "(\<exists>i<k. even i \<and> j + i div 2 + 1 = ?h \<or> odd i \<and> j = ?h + i div 2) \<longleftrightarrow> ?h - (k + 1) div 2 \<le> j \<and> j < ?h + k div 2" if "j < ?n" for j
  proof
    assume a: "?h - (k + 1) div 2 \<le> j \<and> j < ?h + k div 2"
    show "\<exists>i<k. even i \<and> j + i div 2 + 1 = ?h \<or> odd i \<and> j = ?h + i div 2"
    proof (cases "j < ?h")
      case True
      then have "2 * (?h - 1 - j) < k \<and> even (2 * (?h - 1 - j)) \<and> j + 2 * (?h - 1 - j) div 2 + 1 = ?h" using a by auto
      then show ?thesis by blast
    next
      case False
      then have "2 * (j - ?h) + 1 < k \<and> odd (2 * (j - ?h) + 1) \<and> j = ?h + (2 * (j - ?h) + 1) div 2" using a by auto
      then show ?thesis by blast
    qed
  next
    assume "\<exists>i<k. even i \<and> j + i div 2 + 1 = ?h \<or> odd i \<and> j = ?h + i div 2"
    then obtain i where "i < k" "even i \<and> j + i div 2 + 1 = ?h \<or> odd i \<and> j = ?h + i div 2" by blast
    then show "?h - (k + 1) div 2 \<le> j \<and> j < ?h + k div 2"
      using arith [of i k j ?h] by blast
  qed
  note iff = this
  have "{j. j < ?n \<and> (\<exists>i<k. even i \<and> j + i div 2 + 1 = ?h \<or> odd i \<and> j = ?h + i div 2)}
      = {j. j < ?n \<and> ?h - (k + 1) div 2 \<le> j \<and> j < ?h + k div 2}"
    using iff by blast
  then have "?l = (!) ts ` {j. j < ?n \<and> ?h - (k + 1) div 2 \<le> j \<and> j < ?h + k div 2}"
    unfolding l by simp
  also have "{j. j < ?n \<and> ?h - (k + 1) div 2 \<le> j \<and> j < ?h + k div 2} = {?h - (k + 1) div 2 ..< min ?n (?h + k div 2)}"
    by auto
  also have "(!) ts ` \<dots> = ?r"
    by (simp add: drop_take_nth)
  finally show ?thesis .
qed


lemma set_take_butlast: "m \<le> length (butlast xs) \<Longrightarrow> set (take m xs) \<subseteq> set (butlast xs)"
  by (metis butlast_conv_take length_butlast set_take_subset_set_take)

text \<open>
  The tool results left out are consecutive ones, as many as asked for and at least one, from the middle of
  all tool results; every other message stays, in its order.
\<close>
lemma filter_tool_responses_middle:
  "filter_tool_responses ms percent =
     (let ts = tool_indices ms; h = length ts div 2;
          k = (if percent = 0 then 0 else max (length ts * percent div 100) 1)
      in List.map ((!) ms) (filter (\<lambda>i. i \<notin> set (drop (h - (k + 1) div 2) (take (h + k div 2) ts))) [0..<length ms]))"
proof (cases "percent = 0 \<or> tool_indices ms = []")
  case True
  then show ?thesis by (auto simp: filter_tool_responses_def Let_def map_nth)
next
  case False
  then show ?thesis
    unfolding filter_tool_responses_def Let_def set_middle_out by (simp only: de_Morgan_disj if_False simp_thms)
qed

text \<open>
  An odd number of tool results never goes away altogether: the last one is left even when all are to be
  removed, and so is a single one.
\<close>

lemma last_response_stays:
  assumes "odd (length (tool_indices ms))" and "percent \<le> 100"
  shows "ms ! last (tool_indices ms) \<in> set (filter_tool_responses ms percent)"
proof -
  let ?ts = "tool_indices ms" and ?k = "if percent = 0 then 0 else max (length (tool_indices ms) * percent div 100) 1"
  have ne: "?ts \<noteq> []" using assms(1) by auto
  have d: "distinct ?ts" and sub: "set ?ts \<subseteq> {..<length ms}" by (auto simp: tool_indices_def)
  obtain q where q: "length ?ts = 2 * q + 1" using assms(1) by (blast elim: oddE)
  have "length ?ts * percent div 100 \<le> length ?ts * 100 div 100"
    by (intro div_le_mono mult_le_mono2 assms(2))
  then have "?k \<le> length ?ts" using q by auto
  then have "length ?ts div 2 + ?k div 2 \<le> length (butlast ?ts)" using q by simp
  then have "set (take (length ?ts div 2 + ?k div 2) ?ts) \<subseteq> set (butlast ?ts)"
    by (rule set_take_butlast)
  moreover have "last ?ts \<notin> set (butlast ?ts)"
    using d ne by (metis append_butlast_last_id distinct_append disjoint_iff list.set_intros(1))
  ultimately have "last ?ts \<notin> set (take (length ?ts div 2 + ?k div 2) ?ts)" by blast
  then have "last ?ts \<notin> set (drop (length ?ts div 2 - (?k + 1) div 2) (take (length ?ts div 2 + ?k div 2) ?ts))"
    using in_set_dropD by fast
  moreover have "last ?ts \<in> set [0..<length ms]" using subsetD [OF sub last_in_set [OF ne]] by simp
  ultimately show ?thesis by (simp add: filter_tool_responses_middle Let_def)
qed


section \<open>The compacted conversation\<close>

text \<open>
  A summary is the provider's answer to a request with one of the amounts of tool results left out; it is a
  message of the user.
\<close>

lemma summarize_attempts_ok:
  "summarize_attempts env ms ps w = (w1, Ok (s, u)) \<Longrightarrow>
   \<exists>p\<in>set ps. \<exists>w0 prompt s0 u0. render_compaction env (compaction_text env ms p) = Ok prompt
     \<and> complete_fast env w0 prompt [summary_request env w0] = (w1, Ok (s0, u0)) \<and> s = s0\<lparr>role := User\<rparr>"
proof (induction env ms ps w rule: summarize_attempts.induct)
  case (2 env ms p ps w)
  from "2.prems" obtain prompt where r: "render_compaction env (compaction_text env ms p) = Ok prompt"
    by (auto split: sum.splits)
  obtain w2 res where c: "complete_fast env w prompt [summary_request env w] = (w2, res)" by force
  show ?case
  proof (cases res)
    case (Inr a)
    obtain s0 u0 where a: "a = (s0, u0)" by force
    from "2.prems" r c Inr a show ?thesis by (auto simp: Let_def split: sum.splits)
  next
    case (Inl e)
    with "2.prems" r c obtain m where m: "e = ContextLengthExceeded m" "ps \<noteq> []"
      "summarize_attempts env ms ps w2 = (w1, Ok (s, u))"
      by (auto simp: Let_def split: provider_error.splits if_splits)
    from "2.IH" [OF r refl c [symmetric] Inl m(1,2,3)] show ?thesis by auto
  qed
qed simp

lemma summary_role: "do_compact env ms w = (w1, Ok (s, u)) \<Longrightarrow> role s = User"
  unfolding do_compact_def by (auto dest!: summarize_attempts_ok)

definition preserved_copy :: "('w, 's) compact_env \<Rightarrow> bool \<Rightarrow> message list \<Rightarrow> 'w \<Rightarrow> message list" where
  "preserved_copy env manual ms w = (case Option.bind (fst (preserved_message manual ms)) extract_text of
     Some t \<Rightarrow> [with_text (normalise_text env) t (message_user (now_of env w))] | None \<Rightarrow> [])"

definition continuation_message :: "('w, 's) compact_env \<Rightarrow> bool \<Rightarrow> message list \<Rightarrow> 'w \<Rightarrow> message" where
  "continuation_message env manual ms w = with_metadata metadata_agent_only (with_text (normalise_text env)
     (if manual then MANUAL_COMPACT_CONTINUATION_TEXT
      else if snd (preserved_message manual ms) then CONVERSATION_CONTINUATION_TEXT else TOOL_LOOP_CONTINUATION_TEXT)
     (message_assistant (now_of env w)))"

lemma text_message_simps [simp]:
  "role (with_text nfc s m) = role m" "metadata (with_text nfc s m) = metadata m"
  "role (with_metadata md m) = role m" "metadata (with_metadata md m) = md"
  "role (message_user now) = User" "role (message_assistant now) = Assistant"
  "metadata (message_user now) = default_metadata" "metadata (message_assistant now) = default_metadata"
  by (simp_all add: with_text_def with_content_def with_metadata_def message_user_def message_assistant_def message_new_def)

lemma merge_summary:
  "role a = User \<Longrightarrow> role b = Assistant \<Longrightarrow> fst (merge_consecutive_messages [a, b]) = [a, b]"
  by (simp add: merge_consecutive_messages_def merge_step_def effective_role_def)

lemma compacted_parts:
  assumes "role summary = User"
  shows "compacted env manual ms summary w =
    List.map (\<lambda>(i, m). hide_original (snd (preserved_message manual ms)) (length ms) i m) (List.enumerate 0 ms)
    @ [with_metadata metadata_agent_only summary, continuation_message env manual ms w] @ preserved_copy env manual ms w"
proof -
  have "snd (preserved_message manual ms) \<Longrightarrow> fst (preserved_message manual ms) \<noteq> None"
    by (auto simp: preserved_message_def split: option.splits)
  moreover obtain p r where pr: "preserved_message manual ms = (p, r)" by force
  ultimately have "(r \<and> p \<noteq> None) = r" by auto
  then show ?thesis
    using assms pr unfolding compacted_def preserved_copy_def continuation_message_def Let_def
    by (cases manual) (simp_all add: merge_summary)
qed

text \<open>An original message afterwards: the user sees it as before, the agent no longer.\<close>

definition hidden_from_agent :: "message \<Rightarrow> message" where
  "hidden_from_agent m = with_metadata (with_agent_invisible (metadata m)) m"

lemma originals_hidden:
  assumes "b \<Longrightarrow> ms \<noteq> []"
  shows "List.map (\<lambda>(i, m). hide_original b (length ms) i m) (List.enumerate 0 ms) =
    (if b then List.map hidden_from_agent (butlast ms) @ [with_metadata metadata_invisible (last ms)]
     else List.map hidden_from_agent ms)"
proof (rule nth_equalityI)
  show "length (List.map (\<lambda>(i, m). hide_original b (length ms) i m) (List.enumerate 0 ms)) =
      length (if b then List.map hidden_from_agent (butlast ms) @ [with_metadata metadata_invisible (last ms)]
        else List.map hidden_from_agent ms)"
    using assms by (cases "ms = []") auto
  show "List.map (\<lambda>(i, m). hide_original b (length ms) i m) (List.enumerate 0 ms) ! i =
      (if b then List.map hidden_from_agent (butlast ms) @ [with_metadata metadata_invisible (last ms)]
       else List.map hidden_from_agent ms) ! i"
    if "i < length (List.map (\<lambda>(i, m). hide_original b (length ms) i m) (List.enumerate 0 ms))" for i
    using that assms
    by (cases "i = length ms - 1")
      (auto simp: hide_original_def hidden_from_agent_def nth_enumerate_eq nth_append nth_butlast last_conv_nth)
qed

lemma preserved_last_nonempty: "snd (preserved_message manual ms) \<Longrightarrow> ms \<noteq> []"
  by (cases "ms = []"; cases manual) (auto simp: preserved_message_def)

lemma invisible_filters [simp]:
  "filter (\<lambda>m. agent_visible (metadata m)) (List.map hidden_from_agent ms) = []"
  "filter (\<lambda>m. user_visible (metadata m)) (List.map hidden_from_agent ms)
     = List.map hidden_from_agent (filter (\<lambda>m. user_visible (metadata m)) ms)"
  by (induction ms) (simp_all add: hidden_from_agent_def with_agent_invisible_def)

lemma preserved_copy_visible:
  "m \<in> set (preserved_copy env manual ms w) \<Longrightarrow> user_visible (metadata m) \<and> agent_visible (metadata m) \<and> role m = User"
  by (auto simp: preserved_copy_def default_metadata_def split: option.splits)

text \<open>
  The conversation afterwards, in terms of the message that is preserved: what the agent has, what the user sees, and
  that but for the visibility no message has changed.
\<close>

lemma compacted_conversation:
  assumes "compact_messages env conv manual w = (w1, Ok (conv', u))"
  shows "\<exists>summary. do_compact env conv w = (w1, Ok (summary, u)) \<and> role summary = User
     \<and> agent_visible_messages conv' = [with_metadata metadata_agent_only summary, continuation_message env manual conv w1]
         @ preserved_copy env manual conv w1
     \<and> user_visible_messages conv' = List.map hidden_from_agent
           (user_visible_messages (if snd (preserved_message manual conv) then butlast conv else conv))
         @ preserved_copy env manual conv w1
     \<and> List.map (\<lambda>m. m\<lparr>metadata := default_metadata\<rparr>) (take (length conv) conv')
         = List.map (\<lambda>m. m\<lparr>metadata := default_metadata\<rparr>) conv"
proof -
  obtain summary where d: "do_compact env conv w = (w1, Ok (summary, u))"
    and c: "conv' = compacted env manual conv summary w1"
    using assms by (auto simp: compact_messages_def split: prod.splits sum.splits)
  let ?b = "snd (preserved_message manual conv)"
  let ?o = "if ?b then List.map hidden_from_agent (butlast conv) @ [with_metadata metadata_invisible (last conv)]
    else List.map hidden_from_agent conv"
  let ?t = "[with_metadata metadata_agent_only summary, continuation_message env manual conv w1] @ preserved_copy env manual conv w1"
  have r: "role summary = User" using summary_role [OF d] .
  have e: "conv' = ?o @ ?t"
    unfolding c compacted_parts [OF r]
    by (rule arg_cong2 [where f = append, OF _ refl], rule originals_hidden, rule preserved_last_nonempty)
  have tail: "filter (\<lambda>m. agent_visible (metadata m)) ?t = ?t" "filter (\<lambda>m. user_visible (metadata m)) ?t = preserved_copy env manual conv w1"
    using preserved_copy_visible [of _ env manual conv w1]
    by (auto simp: continuation_message_def metadata_agent_only_def default_metadata_def intro!: filter_True)
  have "filter (\<lambda>m. agent_visible (metadata m)) ?o = []"
    by (simp add: metadata_invisible_def)
  moreover have "filter (\<lambda>m. user_visible (metadata m)) ?o =
      List.map hidden_from_agent (filter (\<lambda>m. user_visible (metadata m)) (if ?b then butlast conv else conv))"
    by (simp add: metadata_invisible_def)
  moreover have "length ?o = length conv" using preserved_last_nonempty [of manual conv] by (cases conv) auto
  moreover have "List.map (\<lambda>m. m\<lparr>metadata := default_metadata\<rparr>) ?o = List.map (\<lambda>m. m\<lparr>metadata := default_metadata\<rparr>) conv"
  proof (cases ?b)
    case True
    with preserved_last_nonempty have "conv = butlast conv @ [last conv]" by auto
    then have "List.map (\<lambda>m. m\<lparr>metadata := default_metadata\<rparr>) conv
        = List.map (\<lambda>m. m\<lparr>metadata := default_metadata\<rparr>) (butlast conv @ [last conv])" by metis
    with True show ?thesis by (simp add: hidden_from_agent_def with_metadata_def)
  qed (simp add: hidden_from_agent_def with_metadata_def)
  ultimately show ?thesis
    using d r tail
    unfolding agent_visible_messages_def user_visible_messages_def filtered_messages_def e filter_append
    by (intro exI [of _ summary]) (simp only: append_Nil take_append simp_thms, simp)
qed

text \<open>
  A message in the user's words: one of the user's role that the agent can see, with a text and without calls or
  results. Its copy has nothing but its texts.
\<close>

definition in_users_words :: "message \<Rightarrow> bool" where
  "in_users_words m \<longleftrightarrow> role m = User \<and> agent_visible (metadata m) \<and> (\<exists>t. Text t \<in> set (content m))
     \<and> (\<forall>r. ToolRequest r \<notin> set (content m)) \<and> (\<forall>r. ToolResponse r \<notin> set (content m))"

definition text_copy :: "('w, 's) compact_env \<Rightarrow> message \<Rightarrow> 'w \<Rightarrow> message" where
  "text_copy env m w = with_text (normalise_text env) (join_with [newline] (List.map_filter as_text (content m))) (message_user (now_of env w))"

definition note_to_agent :: "('w, 's) compact_env \<Rightarrow> str \<Rightarrow> 'w \<Rightarrow> message" where
  "note_to_agent env t w = with_metadata metadata_agent_only (with_text (normalise_text env) t (message_assistant (now_of env w)))"

lemma in_users_words_code: "in_users_words m \<longleftrightarrow> is_agent_visible m \<and> role m = User \<and> has_text_only m"
proof -
  have "list_ex is_text ks \<longleftrightarrow> (\<exists>t. Text t \<in> set ks)" for ks
    by (induction ks) (auto elim: is_text.elims)
  moreover have "list_ex (\<lambda>c. is_tool_request c \<or> is_response c) ks \<longleftrightarrow> (\<exists>r. ToolRequest r \<in> set ks) \<or> (\<exists>r. ToolResponse r \<in> set ks)" for ks
    by (induction ks) (auto elim: is_tool_request.elims is_response.elims)
  ultimately show ?thesis by (auto simp: in_users_words_def has_text_only_def is_agent_visible_def)
qed

lemma in_users_words_text: "in_users_words m \<Longrightarrow> extract_text m = Some (join_with [newline] (List.map_filter as_text (content m)))"
  by (force simp: in_users_words_def extract_text_def Let_def List.map_filter_def filter_empty_conv)

lemma find_from_end:
  assumes "\<forall>x \<in> set after. \<not> Q x"
  shows "List.find (\<lambda>i. Q ((before @ after) ! i)) (rev [0..<length (before @ after)]) = List.find (\<lambda>i. Q (before ! i)) (rev [0..<length before])"
  using assms
proof (induction after rule: rev_induct)
  case Nil
  show ?case by simp
next
  case (snoc x xs)
  have "List.find (\<lambda>i. Q ((before @ xs @ [x]) ! i)) (rev [0..<length (before @ xs)])
      = List.find (\<lambda>i. Q ((before @ xs) ! i)) (rev [0..<length (before @ xs)])"
    by (rule find_cong) (auto simp: nth_append)
  then show ?case using snoc by (simp add: nth_append)
qed

lemma preserved_message_spec:
  "\<forall>x \<in> set conv. \<not> in_users_words x \<Longrightarrow> preserved_message False conv = (None, False)"
  "in_users_words m \<Longrightarrow> \<forall>x \<in> set after. \<not> in_users_words x \<Longrightarrow> preserved_message False (before @ m # after) = (Some m, after = [])"
proof -
  show "preserved_message False conv = (None, False)" if "\<forall>x \<in> set conv. \<not> in_users_words x"
    using find_from_end [where Q = in_users_words and before = "[]" and after = conv] that
    by (simp add: preserved_message_def in_users_words_code)
  show "preserved_message False (before @ m # after) = (Some m, after = [])"
    if "in_users_words m" "\<forall>x \<in> set after. \<not> in_users_words x"
    using find_from_end [where Q = in_users_words and before = "before @ [m]" and after = after] that
    by (simp add: preserved_message_def in_users_words_code nth_append)
qed


text \<open>An example: a provider that answers every request.\<close>

definition answering_env :: "('w, unit) compact_env" where
  "answering_env = \<lparr>
     complete_fast = (\<lambda>w prompt ms. (w, Ok (with_text id (lit ''sum'') (message_assistant 0), new_provider_usage [] default_usage))),
     manages_own_context = False, context_limit = 1000, render_compaction = Ok,
     ensure_usage_tokens = (\<lambda>u p ms m. Ok u), count_tokens = (\<lambda>w. Ok (estimate_message_tokens (\<lambda>_. []))),
     round_f64 = id, word_tables = \<lparr>alnum = is_digit, lower = id\<rparr>, print_args = (\<lambda>_. []), normalise_text = id,
     now_of = (\<lambda>_. 0), fresh_id = (\<lambda>_. []), optimize_on = (\<lambda>_. False), diff_compact_on = (\<lambda>_. False),
     docgen_on = (\<lambda>_. False), tool_pair_on = (\<lambda>_. True), threshold_param = (\<lambda>_. None)\<rparr>"

lemma answering_compacts: "\<exists>s u. do_compact answering_env conv () = ((), Ok (s, u))"
  by (simp add: do_compact_def removal_percentages_def answering_env_def Let_def)

lemmas last_message_eval = preserved_message_def preserved_copy_def extract_text_def has_text_only_def is_agent_visible_def
  hide_original_def continuation_message_def with_visibility_def user_visible_messages_def filtered_messages_def
  with_text_def with_image_def with_content_def mk_text_def mk_image_def with_metadata_def message_user_def message_assistant_def message_new_def
  default_metadata_def metadata_invisible_def metadata_agent_only_def answering_env_def as_concat_text_def
  sanitize_unicode_tags_def is_in_unicode_tag_range_def

text \<open>An image that comes with the user's last message is gone after the compaction: only its text is kept.\<close>

lemma image_of_last_message_lost:
  "let conv = [with_image (lit ''d'') (lit ''png'') (with_text id (lit ''see'') (message_user 0))];
       after = compacted answering_env False conv (message_user 0) ()
   in list_all (\<lambda>m. \<not> user_visible (metadata m) \<and> \<not> agent_visible (metadata m)
        \<or> list_all (\<lambda>c. case c of Image _ \<Rightarrow> False | _ \<Rightarrow> True) (content m)) after"
  unfolding Let_def
  by (subst compacted_parts) (simp_all add: last_message_eval)

text \<open>A message that only the agent was to see, such as the reminder of its goal, is shown to the user by its copy.\<close>

lemma hidden_message_shown:
  "let conv = [with_visibility False True (with_text id (lit ''nudge'') (message_user 0))];
       after = compacted answering_env False conv (message_user 0) ()
   in user_visible_messages conv = [] \<and> List.map as_concat_text (user_visible_messages after) = [lit ''nudge'']"
  unfolding Let_def
  by (subst compacted_parts) (simp_all add: last_message_eval)


section \<open>Tool calls that are summarised\<close>

text \<open>
  No call of the current turn is summarised: the calls taken are the ten oldest ones, and behind them come
  more than the cutoff and then the protected ones.
\<close>
lemma summarized_calls_old:
  "tool_ids_to_summarize conv cutoff protect = []
   \<or> (\<exists>kept. agent_tool_ids conv = tool_ids_to_summarize conv cutoff protect @ kept
       \<and> length (tool_ids_to_summarize conv cutoff protect) = 10 \<and> cutoff + protect < length kept)"
proof (cases "tool_ids_to_summarize conv cutoff protect = []")
  case False
  let ?ids = "agent_tool_ids conv"
  from False have "tool_ids_to_summarize conv cutoff protect = take 10 ?ids" "cutoff + 10 < length ?ids - protect"
    by (auto simp: tool_ids_to_summarize_def TOOLCALL_SUMMARIZATION_BATCH_SIZE_def Let_def split: if_splits)
  then show ?thesis by (intro disjI2 exI [of _ "drop 10 ?ids"]) auto
qed simp

lemma cutoff_bounds: "10 \<le> compute_tool_call_cutoff env limit t \<and> compute_tool_call_cutoff env limit t \<le> 500"
  by (simp add: compute_tool_call_cutoff_def clamp_between_def Let_def)

section \<open>The trigger\<close>

text \<open>A count that is negative is taken for a huge one, so that every later reply compacts.\<close>

lemma negative_count_compacts:
  "check_if_compaction_needed answering_env [] None
     (add_usage (new_usage (Some (word_of_int I32_MAX)) None None) (new_usage (Some 1) None None)) () = Ok True"
proof -
  have "total_tokens (add_usage (new_usage (Some (word_of_int I32_MAX)) None None) (new_usage (Some 1) None None))
      = Some (word_of_int I32_MIN)" by (rule sum_wraps)
  moreover have "tokens_as_usize (word_of_int I32_MIN) = 18446744071562067968"
    by (simp add: tokens_as_usize_def I32_MIN_def)
  ultimately show ?thesis
    by (simp add: check_if_compaction_needed_def answering_env_def DEFAULT_COMPACTION_THRESHOLD_def)
qed

end
