(* ===== verification/TokenCount.thy ===== *)
theory TokenCount
  imports ResultCache OpenAiRequest Compaction
begin

text \<open>
  Counting tokens: \<open>crates/bharatcode-core/src/token_counter.rs\<close> with its cache by text, the memo by message of
  \<open>context_mgmt/token_cache.rs\<close>, the store on the disk of \<open>token_cache_disk.rs\<close> and the estimate of a usage that a
  provider does not report, \<open>providers/usage_estimator.rs\<close>. The tokenizer and the digests are parameters. Counts are
  natural numbers: a text in memory has fewer tokens than 64 bits can hold.
\<close>

section \<open>The counter\<close>

definition MAX_TOKEN_CACHE_SIZE :: nat where "MAX_TOKEN_CACHE_SIZE = 1024"
definition FUNC_INIT :: nat where "FUNC_INIT = 7"
definition PROP_INIT :: nat where "PROP_INIT = 3"
definition PROP_KEY :: nat where "PROP_KEY = 3"
definition ENUM_INIT :: int where "ENUM_INIT = - 3"
definition ENUM_ITEM :: nat where "ENUM_ITEM = 3"
definition FUNC_END :: nat where "FUNC_END = 12"
definition TOKENS_PER_MESSAGE :: nat where "TOKENS_PER_MESSAGE = 4"

text \<open>
  \<open>encoded\<close> is the number of tokens of a text, \<open>text_key\<close> its length and digest, \<open>debug_arguments\<close> the \<open>Debug\<close> form of
  the arguments of a call, \<open>lru\<close> the cache of the \<open>lru\<close> crate.
\<close>

record 'c counter_io =
  lru :: "('c, nat) lru_ops"
  encoded :: "str \<Rightarrow> nat"
  text_key :: "str \<Rightarrow> str"
  debug_arguments :: "json_object option \<Rightarrow> str"

definition counter_new :: "'c counter_io \<Rightarrow> 'c" where
  "counter_new io = lru_new (lru io) MAX_TOKEN_CACHE_SIZE"

definition count_tokens :: "'c counter_io \<Rightarrow> str \<Rightarrow> 'c \<Rightarrow> 'c \<times> nat" where
  "count_tokens io txt c = (case lru_get (lru io) c (text_key io txt) of
     (c1, Some n) \<Rightarrow> (c1, n)
   | (c1, None) \<Rightarrow> (lru_put (lru io) c1 (text_key io txt) (encoded io txt), encoded io txt))"

text \<open>A count that goes on: the cache and what has been counted so far.\<close>

definition add_tokens :: "'c counter_io \<Rightarrow> nat \<Rightarrow> str \<Rightarrow> 'c \<times> nat \<Rightarrow> 'c \<times> nat" where
  "add_tokens io extra txt st = (case count_tokens io txt (fst st) of (c, n) \<Rightarrow> (c, snd st + extra + n))"

definition trim_end_dots :: "str \<Rightarrow> str" where
  "trim_end_dots s = rev (dropWhile (\<lambda>c. c = 46) (rev s))"

definition tool_line :: "tool_spec \<Rightarrow> str" where
  "tool_line t = spec_name t @ lit '':'' @ trim_end_dots (case spec_description t of Some d \<Rightarrow> d | None \<Rightarrow> [])"

definition str_member :: "json \<Rightarrow> str \<Rightarrow> str" where
  "str_member v k = (case Option.bind (json_get v k) json_as_str of Some s \<Rightarrow> s | None \<Rightarrow> [])"

definition property_line :: "str \<Rightarrow> json \<Rightarrow> str" where
  "property_line k v = k @ lit '':'' @ str_member v (lit ''type'') @ lit '':'' @ trim_end_dots (str_member v (lit ''description''))"

definition enum_items :: "json \<Rightarrow> str list option" where
  "enum_items v = (case json_get v (lit ''enum'') of Some (JArray xs) \<Rightarrow> Some (List.map_filter json_as_str xs) | _ \<Rightarrow> None)"

definition saturating_add_signed :: "nat \<Rightarrow> int \<Rightarrow> nat" where
  "saturating_add_signed n i = nat (int n + i)"

definition count_property :: "'c counter_io \<Rightarrow> str \<times> json \<Rightarrow> 'c \<times> nat \<Rightarrow> 'c \<times> nat" where
  "count_property io p st = (case p of (k, v) \<Rightarrow>
     (let st1 = add_tokens io PROP_KEY (property_line k v) st in
      case enum_items v of
        Some items \<Rightarrow> fold (add_tokens io ENUM_ITEM) items (fst st1, saturating_add_signed (snd st1) ENUM_INIT)
      | None \<Rightarrow> st1))"

definition schema_properties :: "tool_spec \<Rightarrow> json option" where
  "schema_properties t = map_of (input_schema t) (lit ''properties'')"

definition count_tool :: "'c counter_io \<Rightarrow> tool_spec \<Rightarrow> 'c \<times> nat \<Rightarrow> 'c \<times> nat" where
  "count_tool io t st = (let st1 = add_tokens io FUNC_INIT (tool_line t) st in
     case schema_properties t of
       Some (JObject ps) \<Rightarrow> if ps = [] then st1 else fold (count_property io) ps (fst st1, snd st1 + PROP_INIT)
     | _ \<Rightarrow> st1)"

definition count_tokens_for_tools :: "'c counter_io \<Rightarrow> tool_spec list \<Rightarrow> 'c \<Rightarrow> 'c \<times> nat" where
  "count_tokens_for_tools io tools c = (if tools = [] then (c, 0)
     else case fold (count_tool io) tools (c, 0) of (c1, n) \<Rightarrow> (c1, n + FUNC_END))"

text \<open>The text of a content that is counted, if any.\<close>

definition counted_text :: "'c counter_io \<Rightarrow> message_content \<Rightarrow> str option" where
  "counted_text io k = (case as_text k of
     Some t \<Rightarrow> Some t
   | None \<Rightarrow> (case as_tool_request k of
        Some r \<Rightarrow> (case tool_call r of
            Ok call \<Rightarrow> Some (request_id r @ lit '':'' @ tool_name call @ lit '':'' @ debug_arguments io (arguments call))
          | Err _ \<Rightarrow> None)
      | None \<Rightarrow> as_tool_response_text k))"

definition count_content :: "'c counter_io \<Rightarrow> message_content \<Rightarrow> 'c \<times> nat \<Rightarrow> 'c \<times> nat" where
  "count_content io k st = (case counted_text io k of Some t \<Rightarrow> add_tokens io 0 t st | None \<Rightarrow> st)"

definition count_message :: "'c counter_io \<Rightarrow> message \<Rightarrow> 'c \<times> nat \<Rightarrow> 'c \<times> nat" where
  "count_message io m st = (if \<not> agent_visible (metadata m) then st
     else fold (count_content io) (content m) (fst st, snd st + TOKENS_PER_MESSAGE))"

definition count_chat_tokens :: "'c counter_io \<Rightarrow> str \<Rightarrow> message list \<Rightarrow> tool_spec list \<Rightarrow> 'c \<Rightarrow> 'c \<times> nat" where
  "count_chat_tokens io system ms tools c =
     (let st1 = if system = [] then (c, 0) else add_tokens io TOKENS_PER_MESSAGE system (c, 0);
          st2 = fold (count_message io) ms st1;
          st3 = if tools = [] then st2
            else case count_tokens_for_tools io tools (fst st2) of (c3, n) \<Rightarrow> (c3, snd st2 + n)
      in (fst st3, snd st3 + 3))"

definition count_everything ::
    "'c counter_io \<Rightarrow> str \<Rightarrow> message list \<Rightarrow> tool_spec list \<Rightarrow> str list \<Rightarrow> 'c \<Rightarrow> 'c \<times> nat" where
  "count_everything io system ms tools resources c =
     fold (add_tokens io 0) resources (count_chat_tokens io system ms tools c)"

definition clear_cache :: "'c counter_io \<Rightarrow> 'c \<Rightarrow> 'c" where
  "clear_cache io c = lru_clear (lru io) c"

section \<open>The memo by message\<close>

text \<open>What is written to the hasher, which is a parameter, for the parts that are counted.\<close>

datatype hash_piece = Byte nat | Chars str

definition role_tag :: "message \<Rightarrow> nat" where
  "role_tag m = (case role m of User \<Rightarrow> 0 | Assistant \<Rightarrow> 1)"

definition content_pieces :: "'c counter_io \<Rightarrow> message_content \<Rightarrow> hash_piece list" where
  "content_pieces io k = (case k of
     Text t \<Rightarrow> [Byte 0, Chars (text_str t)]
   | ToolRequest r \<Rightarrow> (case tool_call r of
       Ok call \<Rightarrow> [Byte 1, Chars (request_id r), Chars (tool_name call), Chars (debug_arguments io (arguments call))]
     | Err _ \<Rightarrow> [])
   | _ \<Rightarrow> (case as_tool_response_text k of Some t \<Rightarrow> [Byte 2, Chars t] | None \<Rightarrow> []))"

definition hashed_pieces :: "'c counter_io \<Rightarrow> message \<Rightarrow> hash_piece list" where
  "hashed_pieces io m = Byte (role_tag m) # concat (map (content_pieces io) (content m))"

definition content_hash :: "'c counter_io \<Rightarrow> (hash_piece list \<Rightarrow> 'h) \<Rightarrow> message \<Rightarrow> 'h" where
  "content_hash io h m = h (hashed_pieces io m)"

definition MAX_MEMO_ENTRIES :: nat where "MAX_MEMO_ENTRIES = 50000"

type_synonym 'h memo = "('h \<times> nat) list"

definition memo_store :: "'h \<Rightarrow> nat \<Rightarrow> 'h memo \<Rightarrow> 'h memo" where
  "memo_store key n memo = AList.update key n (if MAX_MEMO_ENTRIES \<le> length memo then [] else memo)"

definition count_cached ::
    "'c counter_io \<Rightarrow> (hash_piece list \<Rightarrow> 'h) \<Rightarrow> message \<Rightarrow> 'h memo \<times> 'c \<Rightarrow> ('h memo \<times> 'c) \<times> nat" where
  "count_cached io h m s = (case s of (memo, c) \<Rightarrow>
     (case map_of memo (content_hash io h m) of
        Some n \<Rightarrow> (s, n)
      | None \<Rightarrow> (case count_chat_tokens io [] [m] [] c of
          (c1, n) \<Rightarrow> ((memo_store (content_hash io h m) n memo, c1), n))))"

section \<open>The store on the disk\<close>

record disk_entry =
  entry_count :: nat
  entry_seq :: "64 word"

record disk_store =
  entries :: "(str \<times> disk_entry) list"
  next_seq :: "64 word"

definition MAX_DISK_ENTRIES :: nat where "MAX_DISK_ENTRIES = 5000"

definition empty_store :: disk_store where "empty_store = \<lparr>entries = [], next_seq = 0\<rparr>"

definition store_get :: "disk_store \<Rightarrow> str \<Rightarrow> nat option" where
  "store_get s k = map_option entry_count (map_of (entries s) k)"

text \<open>The entries are in the order the map is iterated in; of several with the least number the first goes.\<close>

fun least_seq :: "(str \<times> disk_entry) list \<Rightarrow> (str \<times> disk_entry) option" where
  "least_seq [] = None"
| "least_seq (e # es) = (case least_seq es of
     Some f \<Rightarrow> if entry_seq (snd f) < entry_seq (snd e) then Some f else Some e | None \<Rightarrow> Some e)"

definition evict_oldest :: "disk_store \<Rightarrow> disk_store" where
  "evict_oldest s = (case least_seq (entries s) of
     Some (k, _) \<Rightarrow> s\<lparr>entries := AList.delete k (entries s)\<rparr> | None \<Rightarrow> s)"

definition store_insert :: "str \<Rightarrow> nat \<Rightarrow> disk_store \<Rightarrow> disk_store \<times> bool" where
  "store_insert k n s = (if map_of (entries s) k \<noteq> None then (s, False)
     else (let s1 = if MAX_DISK_ENTRIES \<le> length (entries s) then evict_oldest s else s in
       (s1\<lparr>entries := AList.update k \<lparr>entry_count = n, entry_seq = next_seq s1\<rparr> (entries s1), next_seq := next_seq s1 + 1\<rparr>, True)))"

definition disk_truthy :: "str \<Rightarrow> bool" where
  "disk_truthy v = (to_ascii_lowercase (trim v) \<in> set (map lit [''1'', ''true'', ''yes'', ''on'']))"

text \<open>The variable of the environment, then the configuration.\<close>

definition disk_enabled :: "str option \<Rightarrow> str option \<Rightarrow> bool" where
  "disk_enabled var config = (case var of Some v \<Rightarrow> disk_truthy v
     | None \<Rightarrow> (case config of Some v \<Rightarrow> disk_truthy v | None \<Rightarrow> False))"

text \<open>
  Outside: the file, read and parsed, and written as far as that succeeds; the digest in hexadecimal; the arguments of a
  call as JSON.
\<close>

record 'w disk_io =
  read_store :: "'w \<Rightarrow> disk_store option"
  write_store :: "disk_store \<Rightarrow> 'w \<Rightarrow> 'w"
  hex_digest :: "str \<Rightarrow> str"
  json_arguments :: "json_object option \<Rightarrow> str"
  enable_var :: "str option"
  enable_config :: "str option"

definition content_key :: "'w disk_io \<Rightarrow> message \<Rightarrow> str" where
  "content_key d m = hex_digest d (format_message_for_compacting (json_arguments d) m)"

definition load_store :: "'w disk_io \<Rightarrow> 'w \<Rightarrow> disk_store" where
  "load_store d w = (case read_store d w of
     Some s \<Rightarrow> if length (entries s) \<le> MAX_DISK_ENTRIES then s else empty_store | None \<Rightarrow> empty_store)"

definition count_cached_persistent ::
    "'c counter_io \<Rightarrow> (hash_piece list \<Rightarrow> 'h) \<Rightarrow> 'w disk_io \<Rightarrow> message \<Rightarrow> ('h memo \<times> 'c) \<times> 'w \<Rightarrow> (('h memo \<times> 'c) \<times> 'w) \<times> nat" where
  "count_cached_persistent io h d m st = (case st of (s, w) \<Rightarrow>
     if \<not> disk_enabled (enable_var d) (enable_config d)
     then (case count_cached io h m s of (s1, n) \<Rightarrow> ((s1, w), n))
     else (let store = load_store d w in
       case store_get store (content_key d m) of
         Some n \<Rightarrow> (st, n)
       | None \<Rightarrow> (case count_cached io h m s of (s1, n) \<Rightarrow>
           (case store_insert (content_key d m) n store of
              (store1, changed) \<Rightarrow> ((s1, if changed then write_store d store1 w else w), n)))))"

text \<open>The estimate of \<open>check_if_compaction_needed\<close> in \<open>context_mgmt/mod.rs\<close>, where the session has no total.\<close>

definition estimated_tokens ::
    "'c counter_io \<Rightarrow> (hash_piece list \<Rightarrow> 'h) \<Rightarrow> 'w disk_io \<Rightarrow> message list \<Rightarrow> ('h memo \<times> 'c) \<times> 'w \<Rightarrow> (('h memo \<times> 'c) \<times> 'w) \<times> nat" where
  "estimated_tokens io h d ms st = fold (\<lambda>m (st, n). case count_cached_persistent io h d m st of (st1, k) \<Rightarrow> (st1, n + k))
     (filter is_agent_visible ms) (st, 0)"

section \<open>Usages that are not reported\<close>

definition response_text :: "(json_object option \<Rightarrow> str option) \<Rightarrow> (error_data \<Rightarrow> str) \<Rightarrow> message \<Rightarrow> str" where
  "response_text pretty show_err m = join_with (lit '' '') (map (display_content pretty show_err) (content m))"

text \<open>\<open>as i32\<close> keeps the low bits; the sum of the two wraps, in a build without overflow checks.\<close>

definition count_as_i32 :: "nat \<Rightarrow> i32" where "count_as_i32 n = of_nat n"

definition ensure_usage_tokens ::
    "'c counter_io \<Rightarrow> (json_object option \<Rightarrow> str option) \<Rightarrow> (error_data \<Rightarrow> str) \<Rightarrow> str \<Rightarrow> message list \<Rightarrow> message \<Rightarrow> tool_spec list \<Rightarrow>
     's provider_usage \<Rightarrow> 's provider_usage" where
  "ensure_usage_tokens io pretty show_err system ms response tools u =
     (let v = usage_of u in
      if input_tokens v \<noteq> None \<and> output_tokens v \<noteq> None then u
      else
        (let c = counter_new io;
             (c1, i) = (case input_tokens v of Some i \<Rightarrow> (c, i)
               | None \<Rightarrow> (case count_chat_tokens io system ms tools c of (c1, n) \<Rightarrow> (c1, count_as_i32 n)));
             out = (case output_tokens v of Some x \<Rightarrow> x
               | None \<Rightarrow> count_as_i32 (snd (count_tokens io (response_text pretty show_err response) c1)))
         in u\<lparr>usage_of := v\<lparr>input_tokens := Some i, output_tokens := Some out, total_tokens := Some (i + out)\<rparr>\<rparr>))"

section \<open>The reference: counts without a cache\<close>

definition property_size :: "'c counter_io \<Rightarrow> str \<times> json \<Rightarrow> nat" where
  "property_size io p = (case p of (k, v) \<Rightarrow> encoded io (property_line k v)
     + (case enum_items v of Some items \<Rightarrow> sum_list (map (\<lambda>s. ENUM_ITEM + encoded io s) items) | None \<Rightarrow> PROP_KEY))"

definition tool_size :: "'c counter_io \<Rightarrow> tool_spec \<Rightarrow> nat" where
  "tool_size io t = FUNC_INIT + encoded io (tool_line t)
     + (case schema_properties t of
          Some (JObject ps) \<Rightarrow> if ps = [] then 0 else PROP_INIT + sum_list (map (property_size io) ps) | _ \<Rightarrow> 0)"

definition content_size :: "'c counter_io \<Rightarrow> message_content \<Rightarrow> nat" where
  "content_size io k = (case counted_text io k of Some t \<Rightarrow> encoded io t | None \<Rightarrow> 0)"

definition message_size :: "'c counter_io \<Rightarrow> message \<Rightarrow> nat" where
  "message_size io m = (if agent_visible (metadata m) then TOKENS_PER_MESSAGE + sum_list (map (content_size io) (content m)) else 0)"

definition chat_size :: "'c counter_io \<Rightarrow> str \<Rightarrow> message list \<Rightarrow> tool_spec list \<Rightarrow> nat" where
  "chat_size io system ms tools = (if system = [] then 0 else TOKENS_PER_MESSAGE + encoded io system)
     + sum_list (map (message_size io) ms)
     + (if tools = [] then 0 else sum_list (map (tool_size io) tools) + FUNC_END) + 3"

text \<open>The texts that are counted.\<close>

definition property_texts :: "str \<times> json \<Rightarrow> str list" where
  "property_texts p = (case p of (k, v) \<Rightarrow> property_line k v # (case enum_items v of Some items \<Rightarrow> items | None \<Rightarrow> []))"

definition tool_texts :: "tool_spec \<Rightarrow> str list" where
  "tool_texts t = tool_line t # (case schema_properties t of
     Some (JObject ps) \<Rightarrow> concat (map property_texts ps) | _ \<Rightarrow> [])"

definition counted_texts :: "'c counter_io \<Rightarrow> message \<Rightarrow> str list" where
  "counted_texts io m = List.map_filter (counted_text io) (content m)"

definition chat_texts :: "'c counter_io \<Rightarrow> str \<Rightarrow> message list \<Rightarrow> tool_spec list \<Rightarrow> str list" where
  "chat_texts io system ms tools = system # concat (map (counted_texts io) ms) @ concat (map tool_texts tools)"

text \<open>
  A cache is honest on a set of texts when every one of them that it knows has the count it would get; a step adds when
  it adds an amount and stays honest.
\<close>

definition honest :: "'c counter_io \<Rightarrow> ('c \<Rightarrow> str \<Rightarrow> nat option) \<Rightarrow> str set \<Rightarrow> 'c \<Rightarrow> bool" where
  "honest io peek T c \<longleftrightarrow> (\<forall>t \<in> T. \<forall>n. peek c (text_key io t) = Some n \<longrightarrow> n = encoded io t)"

definition adds :: "'c counter_io \<Rightarrow> ('c \<Rightarrow> str \<Rightarrow> nat option) \<Rightarrow> str set \<Rightarrow> ('c \<times> nat \<Rightarrow> 'c \<times> nat) \<Rightarrow> nat \<Rightarrow> bool" where
  "adds io peek T f s \<longleftrightarrow> (\<forall>c n. honest io peek T c \<longrightarrow> honest io peek T (fst (f (c, n))) \<and> snd (f (c, n)) = n + s)"

lemma addsD: "adds io peek T f s \<Longrightarrow> honest io peek T c \<Longrightarrow> honest io peek T (fst (f (c, n))) \<and> snd (f (c, n)) = n + s"
  by (simp add: adds_def)

lemma adds_fold: "(\<And>x. x \<in> set xs \<Longrightarrow> adds io peek T (f x) (s x)) \<Longrightarrow> adds io peek T (fold f xs) (sum_list (map s xs))"
proof (induction xs)
  case (Cons x xs)
  have x: "adds io peek T (f x) (s x)" and xs: "adds io peek T (fold f xs) (sum_list (map s xs))" using Cons by auto
  show ?case unfolding adds_def
  proof (intro allI impI)
    fix c n
    assume h: "honest io peek T c"
    obtain c1 n1 where f: "f x (c, n) = (c1, n1)" by fastforce
    then show "honest io peek T (fst (fold f (x # xs) (c, n))) \<and> snd (fold f (x # xs) (c, n)) = n + sum_list (map s (x # xs))"
      using addsD [OF x h, of n] addsD [OF xs, of c1 n1] by simp
  qed
qed (simp add: adds_def)

lemma adds_after: "adds io peek T f s \<Longrightarrow> adds io peek T (\<lambda>st. f (fst st, snd st + k)) (k + s)"
  by (simp add: adds_def)

lemma adds_nothing: "adds io peek T (\<lambda>st. st) 0"
  by (simp add: adds_def)

text \<open>
  What the counts need of the cache, on top of the laws of the \<open>lru\<close> crate: the key tells the texts of \<open>T\<close> apart.
\<close>

locale counter = lru_laws "lru io" peek
  for io :: "'c counter_io" and peek :: "'c \<Rightarrow> str \<Rightarrow> nat option" +
  fixes T :: "str set"
  assumes key_inj: "t \<in> T \<Longrightarrow> t' \<in> T \<Longrightarrow> text_key io t = text_key io t' \<Longrightarrow> t = t'"
begin

lemma new_honest: "honest io peek T (counter_new io)"
  by (simp add: honest_def counter_new_def new_empty)

lemma clear_honest: "honest io peek T (clear_cache io c)"
  by (simp add: honest_def clear_cache_def clear_empty)

lemma count_tokens_honest:
  assumes "honest io peek T c" and T: "t \<in> T"
  shows "honest io peek T (fst (count_tokens io t c)) \<and> snd (count_tokens io t c) = encoded io t"
proof -
  obtain c1 r where g: "lru_get (lru io) c (text_key io t) = (c1, r)" by fastforce
  then have r: "r = peek c (text_key io t)" and p: "peek c1 = peek c" using get_peek by blast+
  have h: "honest io peek T c1" using assms by (simp add: honest_def p)
  show ?thesis
  proof (cases r)
    case None
    have "n = encoded io t'" if T': "t' \<in> T" and n: "peek (lru_put (lru io) c1 (text_key io t) (encoded io t)) (text_key io t') = Some n" for t' n
    proof (cases "text_key io t' = text_key io t")
      case True
      then have "t' = t" by (rule key_inj [OF T' T])
      then show ?thesis using n put_same [of c1 "text_key io t" "encoded io t"] by simp
    next
      case False
      then show ?thesis using put_other [OF False n] h T' by (simp add: honest_def)
    qed
    then show ?thesis by (simp add: count_tokens_def g None honest_def)
  next
    case (Some n)
    then show ?thesis using assms h r by (simp add: count_tokens_def g honest_def)
  qed
qed

lemma adds_tokens: "t \<in> T \<Longrightarrow> adds io peek T (add_tokens io k t) (k + encoded io t)"
  using count_tokens_honest by (auto simp: adds_def add_tokens_def split: prod.splits) (metis fst_conv, metis snd_conv)

lemma adds_property:
  assumes T: "set (property_texts p) \<subseteq> T"
  shows "adds io peek T (count_property io p) (property_size io p)"
proof -
  obtain k v where p: "p = (k, v)" by fastforce
  have l: "property_line k v \<in> T" using T by (simp add: p property_texts_def)
  show ?thesis
  proof (cases "enum_items v")
    case None
    then have "count_property io p = add_tokens io PROP_KEY (property_line k v)"
      by (simp add: p count_property_def fun_eq_iff)
    then show ?thesis using adds_tokens [OF l, of PROP_KEY]
      by (simp add: p None property_size_def add.commute)
  next
    case (Some items)
    have f: "adds io peek T (fold (add_tokens io ENUM_ITEM) items) (sum_list (map (\<lambda>s. ENUM_ITEM + encoded io s) items))"
      by (rule adds_fold) (rule adds_tokens, use T in \<open>auto simp: p property_texts_def Some\<close>)
    show ?thesis unfolding adds_def
    proof (intro allI impI)
      fix c n
      assume h: "honest io peek T c"
      obtain c1 n1 where a: "add_tokens io PROP_KEY (property_line k v) (c, n) = (c1, n1)" by fastforce
      then have c1: "honest io peek T c1" "n1 = n + (PROP_KEY + encoded io (property_line k v))"
        using addsD [OF adds_tokens [OF l] h, of PROP_KEY n] by simp_all
      have "saturating_add_signed n1 ENUM_INIT = n + encoded io (property_line k v)"
        by (simp add: c1(2) saturating_add_signed_def ENUM_INIT_def PROP_KEY_def)
      then show "honest io peek T (fst (count_property io p (c, n))) \<and> snd (count_property io p (c, n)) = n + property_size io p"
        using addsD [OF f c1(1)] by (simp add: p Some a count_property_def property_size_def)
    qed
  qed
qed

lemma adds_tool:
  assumes T: "set (tool_texts t) \<subseteq> T"
  shows "adds io peek T (count_tool io t) (tool_size io t)"
proof -
  let ?ps = "schema_properties t"
  have tl: "tool_line t \<in> T" using T by (simp add: tool_texts_def)
  note l = addsD [OF adds_tokens [OF tl]]
  show ?thesis
  proof (cases "\<exists>ps. ?ps = Some (JObject ps) \<and> ps \<noteq> []")
    case True
    then obtain ps where ps: "?ps = Some (JObject ps)" "ps \<noteq> []" by blast
    have f: "adds io peek T (fold (count_property io) ps) (sum_list (map (property_size io) ps))"
      by (rule adds_fold) (rule adds_property, use T in \<open>auto simp: tool_texts_def ps\<close>)
    show ?thesis unfolding adds_def
    proof (intro allI impI)
      fix c n
      assume h: "honest io peek T c"
      obtain c1 n1 where a: "add_tokens io FUNC_INIT (tool_line t) (c, n) = (c1, n1)" by fastforce
      then have "honest io peek T c1" "n1 = n + (FUNC_INIT + encoded io (tool_line t))"
        using l [OF h, of FUNC_INIT n] by simp_all
      then show "honest io peek T (fst (count_tool io t (c, n))) \<and> snd (count_tool io t (c, n)) = n + tool_size io t"
        using addsD [OF f] by (simp add: ps a count_tool_def tool_size_def)
    qed
  next
    case False
    then have "count_tool io t = add_tokens io FUNC_INIT (tool_line t)" "tool_size io t = FUNC_INIT + encoded io (tool_line t)"
      by (auto simp: count_tool_def tool_size_def Let_def fun_eq_iff split: option.splits json.splits)
    then show ?thesis by (simp add: adds_tokens tl)
  qed
qed

lemma adds_content:
  assumes T: "\<And>t. counted_text io k = Some t \<Longrightarrow> t \<in> T"
  shows "adds io peek T (count_content io k) (content_size io k)"
proof -
  have "count_content io k = (case counted_text io k of Some t \<Rightarrow> add_tokens io 0 t | None \<Rightarrow> (\<lambda>st. st))"
    by (rule ext) (simp add: count_content_def split: option.split)
  then show ?thesis
    using adds_tokens [of _ 0] adds_nothing [of io peek T] T by (cases "counted_text io k") (simp_all add: content_size_def)
qed

lemma adds_message:
  assumes T: "set (counted_texts io m) \<subseteq> T"
  shows "adds io peek T (count_message io m) (message_size io m)"
proof -
  have e: "count_message io m = (if agent_visible (metadata m)
      then (\<lambda>st. fold (count_content io) (content m) (fst st, snd st + TOKENS_PER_MESSAGE)) else (\<lambda>st. st))"
    by (rule ext) (simp add: count_message_def)
  have "adds io peek T (fold (count_content io) (content m)) (sum_list (map (content_size io) (content m)))"
    by (rule adds_fold) (rule adds_content, use T in \<open>force simp: counted_texts_def List.map_filter_def\<close>)
  from adds_after [OF this] adds_nothing [of io peek] show ?thesis by (simp add: e message_size_def)
qed

lemma tools_counted:
  assumes "honest io peek T c" and "\<And>t. t \<in> set tools \<Longrightarrow> set (tool_texts t) \<subseteq> T"
  shows "honest io peek T (fst (count_tokens_for_tools io tools c))
     \<and> snd (count_tokens_for_tools io tools c) = (if tools = [] then 0 else sum_list (map (tool_size io) tools) + FUNC_END)"
proof -
  have "adds io peek T (fold (count_tool io) tools) (sum_list (map (tool_size io) tools))"
    by (rule adds_fold) (rule adds_tool, rule assms(2))
  from addsD [OF this assms(1), of 0] show ?thesis
    using assms(1) by (auto simp: count_tokens_for_tools_def split: prod.splits)
qed

lemma chat_counted:
  assumes "honest io peek T c" and T: "set (chat_texts io system ms tools) \<subseteq> T"
  shows "honest io peek T (fst (count_chat_tokens io system ms tools c)) \<and> snd (count_chat_tokens io system ms tools c) = chat_size io system ms tools"
proof -
  define st1 where "st1 = (if system = [] then (c, 0) else add_tokens io TOKENS_PER_MESSAGE system (c, 0))"
  define st2 where "st2 = fold (count_message io) ms st1"
  have 1: "honest io peek T (fst st1)" "snd st1 = (if system = [] then 0 else TOKENS_PER_MESSAGE + encoded io system)"
    using assms addsD [OF adds_tokens assms(1), of system TOKENS_PER_MESSAGE 0] T by (auto simp: st1_def chat_texts_def)
  have f: "adds io peek T (fold (count_message io) ms) (sum_list (map (message_size io) ms))"
    by (rule adds_fold) (rule adds_message, use T in \<open>auto simp: chat_texts_def\<close>)
  have 2: "honest io peek T (fst st2)" "snd st2 = snd st1 + sum_list (map (message_size io) ms)"
    using addsD [OF f 1(1), of "snd st1"] by (simp_all add: st2_def)
  have "set (tool_texts t) \<subseteq> T" if "t \<in> set tools" for t using T that by (auto simp: chat_texts_def)
  then show ?thesis using tools_counted [OF 2(1), of tools] 2 1(2)
    by (auto simp: count_chat_tokens_def chat_size_def Let_def simp flip: st1_def st2_def split: prod.splits)
qed

end

definition list_counter ::
    "(str \<Rightarrow> nat) \<Rightarrow> (json_object option \<Rightarrow> str) \<Rightarrow> (nat \<times> (str \<times> nat) list) counter_io" where
  "list_counter enc dbg = \<lparr>lru = list_lru, encoded = enc, text_key = id, debug_arguments = dbg\<rparr>"

interpretation listed: counter "list_counter enc dbg" list_peek UNIV for enc dbg
  by (rule counter.intro, simp add: list_counter_def list_cache.lru_laws_axioms, unfold_locales) (simp add: list_counter_def)

section \<open>Laws of the memo\<close>

text \<open>What is hashed of a message determines what is counted of it.\<close>

fun pieces_size :: "'c counter_io \<Rightarrow> hash_piece list \<Rightarrow> nat" where
  "pieces_size io (Byte b # Chars i # Chars n # Chars a # ps) = encoded io (i @ lit '':'' @ n @ lit '':'' @ a) + pieces_size io ps"
| "pieces_size io (Byte b # Chars t # ps) = encoded io t + pieces_size io ps"
| "pieces_size io ps = 0"

definition new_item :: "hash_piece list \<Rightarrow> bool" where
  "new_item ps = (case ps of Chars _ # _ \<Rightarrow> False | _ \<Rightarrow> True)"

lemma pieces_size_text: "new_item ps \<Longrightarrow> pieces_size io (Byte b # Chars t # ps) = encoded io t + pieces_size io ps"
  by (auto simp: new_item_def split: list.splits hash_piece.splits)

lemma content_pieces_new_item: "new_item ps \<Longrightarrow> new_item (content_pieces io k @ ps)"
  by (auto simp: new_item_def content_pieces_def split: message_content.split sum.splits option.split)

lemma content_pieces_size:
  "new_item ps \<Longrightarrow> pieces_size io (content_pieces io k @ ps) = content_size io k + pieces_size io ps"
  by (cases k) (simp_all add: content_pieces_def content_size_def counted_text_def pieces_size_text
      as_tool_response_text_def split: sum.split option.split)

lemma contents_pieces_size:
  "new_item (concat (map (content_pieces io) ks)) \<and> pieces_size io (concat (map (content_pieces io) ks)) = sum_list (map (content_size io) ks)"
  by (induction ks) (simp_all add: content_pieces_size content_pieces_new_item, simp add: new_item_def)

lemma hash_determines_count:
  assumes "hashed_pieces io m = hashed_pieces io m'" "is_agent_visible m" "is_agent_visible m'"
  shows "chat_size io [] [m] [] = chat_size io [] [m'] []"
  using assms contents_pieces_size [of io "content m"] contents_pieces_size [of io "content m'"]
  by (simp add: hashed_pieces_def chat_size_def message_size_def is_agent_visible_def)

text \<open>The memo on the messages \<open>S\<close>: each count it has is the right one.\<close>

definition honest_memo :: "'c counter_io \<Rightarrow> (hash_piece list \<Rightarrow> 'h) \<Rightarrow> message set \<Rightarrow> 'h memo \<Rightarrow> bool" where
  "honest_memo io h S memo \<longleftrightarrow>
     (\<forall>m \<in> S. \<forall>n. map_of memo (content_hash io h m) = Some n \<longrightarrow> n = chat_size io [] [m] [])"

definition no_collision :: "'c counter_io \<Rightarrow> (hash_piece list \<Rightarrow> 'h) \<Rightarrow> message set \<Rightarrow> bool" where
  "no_collision io h S \<longleftrightarrow> inj_on h (hashed_pieces io ` S) \<and> (\<forall>m \<in> S. is_agent_visible m)"

lemma update_fresh: "k \<notin> fst ` set xs \<Longrightarrow> AList.update k v xs = xs @ [(k, v)]"
  by (induction xs) auto

lemma memo_store_bounded:
  "map_of memo key = None \<Longrightarrow> length memo \<le> MAX_MEMO_ENTRIES \<Longrightarrow> length (memo_store key n memo) \<le> MAX_MEMO_ENTRIES"
  by (auto simp: memo_store_def MAX_MEMO_ENTRIES_def update_fresh map_of_eq_None_iff)

lemma memo_store_honest:
  assumes "no_collision io h S" "honest_memo io h S memo" "m \<in> S"
  shows "honest_memo io h S (memo_store (content_hash io h m) (chat_size io [] [m] []) memo)"
proof -
  have "chat_size io [] [m'] [] = chat_size io [] [m] []" if "m' \<in> S" "content_hash io h m' = content_hash io h m" for m'
  proof (rule hash_determines_count)
    show "hashed_pieces io m' = hashed_pieces io m"
      using assms(1,3) that by (auto simp: no_collision_def content_hash_def inj_on_def)
  qed (use assms(1,3) that in \<open>auto simp: no_collision_def\<close>)
  then show ?thesis using assms(2) by (auto simp: honest_memo_def memo_store_def update_conv')
qed

text \<open>The memo and the store on the disk give what counting afresh gives.\<close>

definition honest_state ::
    "'c counter_io \<Rightarrow> (hash_piece list \<Rightarrow> 'h) \<Rightarrow> message set \<Rightarrow> ('c \<Rightarrow> str \<Rightarrow> nat option) \<Rightarrow> str set \<Rightarrow> 'h memo \<times> 'c \<Rightarrow> bool" where
  "honest_state io h S peek T s \<longleftrightarrow> honest_memo io h S (fst s) \<and> honest io peek T (snd s) \<and> length (fst s) \<le> MAX_MEMO_ENTRIES"

context counter
begin

lemma cached_count_exact:
  assumes "no_collision io h S" "m \<in> S" "honest_state io h S peek T s" "insert [] (set (counted_texts io m)) \<subseteq> T"
  shows "snd (count_cached io h m s) = chat_size io [] [m] [] \<and> honest_state io h S peek T (fst (count_cached io h m s))"
proof -
  obtain memo c where s: "s = (memo, c)" by fastforce
  then have h: "honest_memo io h S memo" "honest io peek T c" "length memo \<le> MAX_MEMO_ENTRIES"
    using assms(3) by (simp_all add: honest_state_def)
  show ?thesis
  proof (cases "map_of memo (content_hash io h m)")
    case None
    obtain c1 n where c: "count_chat_tokens io [] [m] [] c = (c1, n)" by fastforce
    have "set (chat_texts io [] [m] []) \<subseteq> T" using assms(4) by (simp add: chat_texts_def)
    with c have "honest io peek T c1" "n = chat_size io [] [m] []" using chat_counted [OF h(2), of "[]" "[m]" "[]"] by simp_all
    then show ?thesis
      using memo_store_honest [OF assms(1) h(1) assms(2)] memo_store_bounded [OF None h(3)]
      by (simp add: s count_cached_def None c honest_state_def)
  next
    case (Some n)
    then show ?thesis using assms(2,3) h(1) by (simp add: s count_cached_def honest_memo_def)
  qed
qed

text \<open>An estimate where the store on the disk is off: exact, the memo stays honest and the world is left alone.\<close>

lemma estimate_exact:
  assumes off: "\<not> disk_enabled (enable_var d) (enable_config d)" and S: "no_collision io h S"
    and ms: "set (filter is_agent_visible ms) \<subseteq> S" and T: "insert [] (\<Union>m \<in> S. set (counted_texts io m)) \<subseteq> T"
    and h: "honest_state io h S peek T s"
  shows "\<exists>s'. estimated_tokens io h d ms (s, w) = ((s', w), \<Sum>m \<leftarrow> filter is_agent_visible ms. chat_size io [] [m] [])
    \<and> honest_state io h S peek T s'"
proof -
  have "set xs \<subseteq> S \<Longrightarrow> honest_state io h S peek T s \<Longrightarrow>
      \<exists>s'. fold (\<lambda>m (st, n). case count_cached_persistent io h d m st of (st1, k) \<Rightarrow> (st1, n + k)) xs ((s, w), a)
        = ((s', w), a + (\<Sum>m \<leftarrow> xs. chat_size io [] [m] [])) \<and> honest_state io h S peek T s'" for xs a
  proof (induction xs arbitrary: s a)
    case (Cons x xs)
    obtain s1 k where c: "count_cached io h x s = (s1, k)" by fastforce
    have "insert [] (set (counted_texts io x)) \<subseteq> T" using T Cons.prems(1) by auto
    with c have k: "k = chat_size io [] [x] []" "honest_state io h S peek T s1"
      using cached_count_exact [OF S _ Cons.prems(2), of x] Cons.prems(1) by simp_all
    have "count_cached_persistent io h d x (s, w) = ((s1, w), k)" using off c by (simp add: count_cached_persistent_def)
    then show ?case using Cons.IH [OF _ k(2), of "a + k"] Cons.prems(1) k(1) by (simp add: add.assoc)
  qed simp
  from this [OF ms h, of 0] show ?thesis by (simp add: estimated_tokens_def)
qed

end

section \<open>Laws of the store on the disk\<close>

definition well_formed_store :: "disk_store \<Rightarrow> bool" where
  "well_formed_store s \<longleftrightarrow> distinct (map fst (entries s)) \<and> length (entries s) \<le> MAX_DISK_ENTRIES"

lemma least_seq_None: "least_seq es = None \<longleftrightarrow> es = []"
  by (cases es) (auto split: option.splits)

lemma least_seq_in: "least_seq es = Some x \<Longrightarrow> x \<in> set es"
  by (induction es arbitrary: x) (auto split: option.splits if_splits)

lemma least_seq_le: "least_seq es = Some x \<Longrightarrow> y \<in> set es \<Longrightarrow> entry_seq (snd x) \<le> entry_seq (snd y)"
proof (induction es arbitrary: x y)
  case (Cons e es)
  show ?case
  proof (cases "least_seq es")
    case None
    then show ?thesis using Cons.prems by (simp add: least_seq_None)
  next
    case (Some f)
    have f: "entry_seq (snd f) \<le> entry_seq (snd z)" if "z \<in> set es" for z by (rule Cons.IH [OF Some that])
    show ?thesis
    proof (cases "entry_seq (snd f) < entry_seq (snd e)")
      case True
      then have x: "x = f" using Cons.prems(1) Some by simp
      show ?thesis
      proof (cases "y = e")
        case False
        then show ?thesis using f [of y] Cons.prems(2) by (simp add: x)
      qed (use True in \<open>simp add: x\<close>)
    next
      case False
      then have "x = e" using Cons.prems(1) Some by simp
      moreover have "entry_seq (snd e) \<le> entry_seq (snd y)" if "y \<noteq> e"
        using False order.trans [OF _ f [of y]] that Cons.prems(2) by simp
      ultimately show ?thesis by (cases "y = e") simp_all
    qed
  qed
qed simp

lemma delete_shorter: "k \<in> fst ` set xs \<Longrightarrow> length (AList.delete k xs) < length xs"
  by (auto simp: AList.delete_eq intro: length_filter_less)

lemma evict_oldest_room:
  assumes "entries s \<noteq> []"
  shows "length (entries (evict_oldest s)) < length (entries s)"
proof -
  obtain k e where l: "least_seq (entries s) = Some (k, e)" using assms by (metis least_seq_None option.exhaust surj_pair)
  have "k \<in> fst ` set (entries s)" using least_seq_in [OF l] by force
  then show ?thesis by (simp add: evict_oldest_def l delete_shorter)
qed

lemma evict_oldest_keys:
  "distinct (map fst (entries s)) \<Longrightarrow> distinct (map fst (entries (evict_oldest s)))"
  by (auto simp: evict_oldest_def distinct_delete split: option.split)

lemma evict_oldest_subset: "fst ` set (entries (evict_oldest s)) \<subseteq> fst ` set (entries s)"
  by (auto simp: evict_oldest_def AList.delete_eq split: option.split)

lemma evict_oldest_kept:
  assumes "distinct (map fst (entries s))" "map_of (entries s) k = Some e"
  shows "map_of (entries (evict_oldest s)) k = Some e \<or> (\<forall>x \<in> set (entries s). entry_seq e \<le> entry_seq (snd x))"
proof (cases "least_seq (entries s)")
  case (Some x)
  show ?thesis
  proof (cases "fst x = k")
    case True
    have "map_of (entries s) (fst x) = Some (snd x)" using least_seq_in [OF Some] assms(1) by (simp add: map_of_is_SomeI)
    then have "e = snd x" using assms(2) True by simp
    then show ?thesis using least_seq_le [OF Some] by blast
  qed (use Some assms(2) in \<open>auto simp: evict_oldest_def split: prod.split\<close>)
qed (use assms(2) in \<open>simp add: evict_oldest_def\<close>)

text \<open>
  An insertion keeps the store within its capacity, is found afterwards, and at most the entry with the least
  number makes room for it.
\<close>

theorem store_insert_contract:
  assumes "well_formed_store s" "store_get s k = None"
  shows "case store_insert k n s of (s', changed) \<Rightarrow> changed \<and> well_formed_store s' \<and> store_get s' k = Some n
    \<and> (\<forall>k' e. k' \<noteq> k \<longrightarrow> map_of (entries s) k' = Some e \<longrightarrow> map_of (entries s') k' = Some e
         \<or> length (entries s) = MAX_DISK_ENTRIES \<and> (\<forall>x \<in> set (entries s). entry_seq e \<le> entry_seq (snd x)))"
proof -
  define s1 where "s1 = (if MAX_DISK_ENTRIES \<le> length (entries s) then evict_oldest s else s)"
  have k: "map_of (entries s) k = None" using assms(2) by (simp add: store_get_def)
  then have fresh: "k \<notin> fst ` set (entries s1)"
    using evict_oldest_subset [of s] by (auto simp: s1_def map_of_eq_None_iff)
  have room: "length (entries s1) < MAX_DISK_ENTRIES"
    using assms(1) evict_oldest_room [of s] by (cases "entries s = []") (auto simp: s1_def well_formed_store_def MAX_DISK_ENTRIES_def)
  have d: "distinct (map fst (entries s1))" using assms(1) evict_oldest_keys [of s] by (simp add: s1_def well_formed_store_def)
  have kept: "map_of (entries s1) k' = Some e
      \<or> length (entries s) = MAX_DISK_ENTRIES \<and> (\<forall>x \<in> set (entries s). entry_seq e \<le> entry_seq (snd x))"
    if e: "map_of (entries s) k' = Some e" for k' e
    using evict_oldest_kept [OF _ e] assms(1) e by (auto simp: s1_def well_formed_store_def)
  have i: "store_insert k n s = (s1\<lparr>entries := AList.update k \<lparr>entry_count = n, entry_seq = next_seq s1\<rparr> (entries s1),
      next_seq := next_seq s1 + 1\<rparr>, True)"
    by (simp add: store_insert_def k s1_def Let_def)
  have l: "length (AList.update k e (entries s1)) = Suc (length (entries s1))" for e by (simp add: update_fresh [OF fresh])
  show ?thesis unfolding i using kept room d l by (auto simp: well_formed_store_def store_get_def update_conv' distinct_update)
qed

text \<open>A file that holds too much or cannot be read counts as empty, so the store stays within its capacity.\<close>

lemma load_store_bounded: "length (entries (load_store d w)) \<le> MAX_DISK_ENTRIES"
  by (simp add: load_store_def empty_store_def MAX_DISK_ENTRIES_def split: option.split)

lemma store_insert_entries:
  "map_of (entries (fst (store_insert k n s))) k' = Some e \<Longrightarrow> map_of (entries s) k' = Some e \<or> k' = k \<and> entry_count e = n"
proof (cases "map_of (entries s) k = None")
  case True
  have evicted: "map_of (entries (evict_oldest s)) k' = Some e \<Longrightarrow> map_of (entries s) k' = Some e"
    by (auto simp: evict_oldest_def delete_conv' split: option.splits if_splits)
  show "map_of (entries (fst (store_insert k n s))) k' = Some e \<Longrightarrow> ?thesis"
    using evicted by (auto simp: store_insert_def True Let_def update_conv' split: if_splits)
qed (simp add: store_insert_def)

section \<open>The estimate\<close>

text \<open>
  The estimates of a process: each check makes a counter of its own, with an empty cache of texts, while the memo by
  message is kept from one check to the next and starts empty.
\<close>

definition estimate_afresh ::
    "'c counter_io \<Rightarrow> (hash_piece list \<Rightarrow> 'h) \<Rightarrow> 'w disk_io \<Rightarrow> message list \<Rightarrow> 'h memo \<times> 'w \<Rightarrow> ('h memo \<times> 'w) \<times> nat" where
  "estimate_afresh io h d ms s = (case estimated_tokens io h d ms ((fst s, counter_new io), snd s) of
     (((memo, c), w), n) \<Rightarrow> ((memo, w), n))"

fun estimates ::
    "'c counter_io \<Rightarrow> (hash_piece list \<Rightarrow> 'h) \<Rightarrow> 'w disk_io \<Rightarrow> message list list \<Rightarrow> 'h memo \<times> 'w \<Rightarrow> nat list" where
  "estimates io h d [] s = []"
| "estimates io h d (ms # mss) s = (case estimate_afresh io h d ms s of (s', n) \<Rightarrow> n # estimates io h d mss s')"

definition visible_in :: "message list list \<Rightarrow> message set" where
  "visible_in mss = {m \<in> set (concat mss). is_agent_visible m}"

lemma empty_memo_honest: "honest_memo io h S []"
  by (simp add: honest_memo_def)

lemma estimates_honest:
  assumes c: "counter io peek T" and off: "\<not> disk_enabled (enable_var d) (enable_config d)" and S: "no_collision io h S"
    and T: "insert [] (\<Union>m \<in> S. set (counted_texts io m)) \<subseteq> T"
  shows "visible_in mss \<subseteq> S \<Longrightarrow> honest_memo io h S memo \<Longrightarrow> length memo \<le> MAX_MEMO_ENTRIES \<Longrightarrow>
    estimates io h d mss (memo, w) = map (\<lambda>ms. \<Sum>m \<leftarrow> filter is_agent_visible ms. chat_size io [] [m] []) mss"
proof (induction mss arbitrary: memo)
  case (Cons ms mss)
  have st: "honest_state io h S peek T (memo, counter_new io)"
    using Cons.prems(2,3) counter.new_honest [OF c] by (simp add: honest_state_def)
  have "set (filter is_agent_visible ms) \<subseteq> S" using Cons.prems(1) by (auto simp: visible_in_def)
  from counter.estimate_exact [OF c off S this T st] obtain memo' c' where
    e: "estimated_tokens io h d ms ((memo, counter_new io), w) = (((memo', c'), w), \<Sum>m \<leftarrow> filter is_agent_visible ms. chat_size io [] [m] [])"
    and h': "honest_state io h S peek T (memo', c')" by fastforce
  have "visible_in mss \<subseteq> S" using Cons.prems(1) by (auto simp: visible_in_def)
  with Cons.IH [of memo'] h' e show ?case by (simp add: estimate_afresh_def honest_state_def)
qed simp

text \<open>
  C37. The memo and the cache of the counter never change an estimate: with the store on the disk off, as it is unless it
  is switched on, each of the estimates that a process makes from its start on is the sum of what the messages visible to
  the agent count by themselves, whatever was estimated before, where the digests of the texts and of the messages that
  are counted do not collide.
\<close>
theorem estimated_tokens_exact:
  assumes "lru_laws (lru io) peek" and "\<not> disk_enabled (enable_var d) (enable_config d)"
    and "inj_on (text_key io) (insert [] (\<Union>m \<in> visible_in mss. set (counted_texts io m)))"
    and "inj_on h (hashed_pieces io ` visible_in mss)"
  shows "estimates io h d mss ([], w) = map (\<lambda>ms. \<Sum>m \<leftarrow> filter is_agent_visible ms. chat_size io [] [m] []) mss"
proof -
  have "counter io peek (insert [] (\<Union>m \<in> visible_in mss. set (counted_texts io m)))"
    using assms(1) by (intro counter.intro counter_axioms.intro) (assumption, blast dest: inj_onD [OF assms(3)])
  moreover have "no_collision io h (visible_in mss)" using assms(4) by (auto simp: no_collision_def visible_in_def)
  ultimately show ?thesis
    using estimates_honest [OF _ assms(2)] empty_memo_honest by (metis MAX_MEMO_ENTRIES_def le0 list.size(3) order_refl)
qed

text \<open>A reply primer is added for each message, where a count of the whole conversation adds it once.\<close>

lemma estimate_and_chat_size:
  "ms \<noteq> [] \<Longrightarrow> (\<Sum>m \<leftarrow> ms. chat_size io [] [m] []) = chat_size io [] ms [] + 3 * (length ms - 1)"
proof (induction ms rule: list_nonempty_induct)
  case (cons m ms)
  then have "3 * length ms = 3 + 3 * (length ms - 1)" by (cases ms) simp_all
  then show ?case using cons by (simp add: chat_size_def)
qed (simp add: chat_size_def)

section \<open>Laws of the usage\<close>

text \<open>A usage with both counts is left alone, also where its total is missing; otherwise all three are there.\<close>

lemma ensured_usage:
  "if input_tokens (usage_of u) \<noteq> None \<and> output_tokens (usage_of u) \<noteq> None
   then ensure_usage_tokens io pretty show_err system ms r tools u = u
   else (let v = usage_of (ensure_usage_tokens io pretty show_err system ms r tools u) in
     \<exists>i out. input_tokens v = Some i \<and> output_tokens v = Some out \<and> total_tokens v = Some (i + out)
       \<and> (\<forall>x. input_tokens (usage_of u) = Some x \<longrightarrow> i = x) \<and> (\<forall>x. output_tokens (usage_of u) = Some x \<longrightarrow> out = x))"
  by (auto simp: ensure_usage_tokens_def Let_def split: option.split prod.split)

text \<open>The estimated input is the reference count.\<close>

lemma estimated_input:
  assumes "lru io = list_lru" "inj (text_key io)" "input_tokens (usage_of u) = None"
  shows "input_tokens (usage_of (ensure_usage_tokens io pretty show_err system ms r tools u)) = Some (count_as_i32 (chat_size io system ms tools))"
proof -
  have c: "counter io list_peek UNIV"
    using assms(1,2) by (intro counter.intro counter_axioms.intro) (simp_all add: list_cache.lru_laws_axioms inj_eq)
  show ?thesis using counter.chat_counted [OF c counter.new_honest [OF c], of system ms tools] assms(3)
    by (auto simp: ensure_usage_tokens_def Let_def split: prod.splits)
qed

section \<open>Examples\<close>

definition sample_counter :: "(nat \<times> (str \<times> nat) list) counter_io" where
  "sample_counter = list_counter length (\<lambda>_. [])"

definition sample_disk :: "disk_store option disk_io" where
  "sample_disk = \<lparr>read_store = id, write_store = (\<lambda>s w. Some s), hex_digest = id, json_arguments = (\<lambda>_. []),
     enable_var = Some (lit ''1''), enable_config = None\<rparr>"

definition call_message :: "str \<Rightarrow> message" where
  "call_message i = with_tool_request i (Ok \<lparr>tool_name = lit ''shell'', arguments = None\<rparr>) (message_assistant 0)"

definition text_message :: "str \<Rightarrow> message" where
  "text_message t = with_content (mk_text t) (message_user 0)"

theorem estimated_tokens_exact_witness:
  "estimates sample_counter id (sample_disk\<lparr>enable_var := None\<rparr>)
     [[text_message (lit ''hi'')], [text_message (lit ''hi''), text_message (lit ''you'')]] ([], None) = [9, 19]"
proof -
  let ?m = "text_message (lit ''hi'')" and ?n = "text_message (lit ''you'')"
  have v: "is_agent_visible ?m" "is_agent_visible ?n"
    by (simp_all add: text_message_def with_content_def message_user_def message_new_def is_agent_visible_def default_metadata_def)
  have "estimates sample_counter id (sample_disk\<lparr>enable_var := None\<rparr>) [[?m], [?m, ?n]] ([], None)
      = map (\<lambda>ms. \<Sum>m \<leftarrow> filter is_agent_visible ms. chat_size sample_counter [] [m] []) [[?m], [?m, ?n]]"
  proof (rule estimated_tokens_exact)
    show "lru_laws (lru sample_counter) list_peek" by (simp add: sample_counter_def list_counter_def list_cache.lru_laws_axioms)
    show "\<not> disk_enabled (enable_var (sample_disk\<lparr>enable_var := None\<rparr>)) (enable_config (sample_disk\<lparr>enable_var := None\<rparr>))"
      by (simp add: sample_disk_def disk_enabled_def)
  qed (simp_all add: sample_counter_def list_counter_def)
  then show ?thesis
    using v by (simp add: chat_size_def message_size_def TOKENS_PER_MESSAGE_def content_size_def counted_text_def text_message_def
        with_content_def mk_text_def message_user_def message_new_def is_agent_visible_def sample_counter_def list_counter_def)
qed

text \<open>
  The key on the disk leaves out the identifier of a call, which is counted: a message is given the count of another
  one.
\<close>

lemma disk_key_ignores_call_id:
  "content_key sample_disk (call_message (lit ''a'')) = content_key sample_disk (call_message (lit ''call-17''))"
  "chat_size sample_counter [] [call_message (lit ''a'')] [] \<noteq> chat_size sample_counter [] [call_message (lit ''call-17'')] []"
  by (simp_all add: content_key_def format_message_for_compacting_def format_content_def call_message_def with_tool_request_def
      with_content_def mk_tool_request_def message_assistant_def message_new_def map_filter_simps sample_disk_def
      chat_size_def message_size_def content_size_def counted_text_def sample_counter_def list_counter_def default_metadata_def)

text \<open>The hash leaves out whether the agent sees a message, on which its count depends.\<close>

lemma hash_ignores_visibility:
  "let m = text_message (lit ''hi''); m' = with_visibility True False m
   in content_hash io h m = content_hash io h m' \<and> chat_size io [] [m] [] \<noteq> chat_size io [] [m'] []"
  by (simp add: Let_def content_hash_def hashed_pieces_def with_visibility_def role_tag_def chat_size_def message_size_def
      text_message_def with_content_def message_user_def message_new_def default_metadata_def TOKENS_PER_MESSAGE_def)

end
