(* ===== verification/Effects.thy ===== *)
theory Effects
  imports Prelude
begin

text \<open>
  The shape of the agent's streams: a computation over a world \<open>'w\<close> that yields events, may fail
  with a message (the \<open>?\<close> of the source) and else returns a value. What has been yielded and done before a
  failure stays.
\<close>

type_synonym ('w, 'e, 'a) act = "'w \<Rightarrow> 'e list \<times> (str, 'a) result \<times> 'w"

definition ret :: "'a \<Rightarrow> ('w, 'e, 'a) act" where
  "ret x w = ([], Ok x, w)"

definition fail :: "str \<Rightarrow> ('w, 'e, 'a) act" where
  "fail msg w = ([], Err msg, w)"

definition yield :: "'e \<Rightarrow> ('w, 'e, unit) act" where
  "yield e w = ([e], Ok (), w)"

definition and_then :: "('w, 'e, 'a) act \<Rightarrow> ('a \<Rightarrow> ('w, 'e, 'b) act) \<Rightarrow> ('w, 'e, 'b) act" where
  "and_then m f w = (case m w of
     (es, Err msg, w') \<Rightarrow> (es, Err msg, w')
   | (es, Ok x, w') \<Rightarrow> (case f x w' of (es', r, w'') \<Rightarrow> (es @ es', r, w'')))"

definition look :: "('w \<Rightarrow> 'a) \<Rightarrow> ('w, 'e, 'a) act" where
  "look f w = ([], Ok (f w), w)"

definition lift :: "('w \<Rightarrow> 'w \<times> 'a) \<Rightarrow> ('w, 'e, 'a) act" where
  "lift f w = (case f w of (w', x) \<Rightarrow> ([], Ok x, w'))"

definition change :: "('w \<Rightarrow> 'w) \<Rightarrow> ('w, 'e, unit) act" where
  "change f w = ([], Ok (), f w)"

definition attempt :: "('w \<Rightarrow> 'w \<times> (str, 'a) result) \<Rightarrow> ('w, 'e, 'a) act" where
  "attempt f w = (case f w of (w', r) \<Rightarrow> ([], r, w'))"

fun each :: "('x \<Rightarrow> 's \<Rightarrow> ('w, 'e, 's) act) \<Rightarrow> 'x list \<Rightarrow> 's \<Rightarrow> ('w, 'e, 's) act" where
  "each f [] s = ret s"
| "each f (x # xs) s = and_then (f x s) (each f xs)"

definition yield_all :: "'e list \<Rightarrow> ('w, 'e, unit) act" where
  "yield_all es w = (es, Ok (), w)"

section \<open>Laws\<close>

lemma and_then_ret [simp]: "and_then (ret x) f = f x" "and_then m ret = m"
  by (auto simp: and_then_def ret_def fun_eq_iff split: prod.splits sum.splits)

lemma and_then_assoc: "and_then (and_then m f) g = and_then m (\<lambda>x. and_then (f x) g)"
  by (auto simp: and_then_def fun_eq_iff split: prod.splits sum.splits)

text \<open>Every value a computation returns satisfies \<open>Q\<close>.\<close>

definition returns :: "('w, 'e, 'a) act \<Rightarrow> ('a \<Rightarrow> bool) \<Rightarrow> bool" where
  "returns m Q = (\<forall>w. case m w of (es, Ok x, w') \<Rightarrow> Q x | _ \<Rightarrow> True)"

named_theorems returns_intros

lemma returnsD: "returns m Q \<Longrightarrow> m w = (es, Ok x, w') \<Longrightarrow> Q x"
  unfolding returns_def by (drule spec [of _ w]) simp

lemma returns_mono: "returns m P \<Longrightarrow> (\<And>x. P x \<Longrightarrow> Q x) \<Longrightarrow> returns m Q"
  unfolding returns_def by (fastforce split: prod.splits sum.splits)

lemma returns_ret [simp]: "returns (ret x) Q = Q x"
  by (simp add: returns_def ret_def)

lemma returns_fail [simp, returns_intros]: "returns (fail msg) Q"
  by (simp add: returns_def fail_def)

lemma returns_and_then:
  "returns m P \<Longrightarrow> (\<And>x. P x \<Longrightarrow> returns (f x) Q) \<Longrightarrow> returns (and_then m f) Q"
  unfolding returns_def and_then_def by (fastforce split: prod.splits sum.splits)

lemma returns_then [returns_intros]: "(\<And>x. returns (f x) Q) \<Longrightarrow> returns (and_then m f) Q"
  unfolding returns_def and_then_def by (fastforce split: prod.splits sum.splits)

lemma returns_each:
  "(\<And>x s. x \<in> set xs \<Longrightarrow> I s \<Longrightarrow> returns (f x s) I) \<Longrightarrow> I s \<Longrightarrow> returns (each f xs s) I"
proof (induction xs arbitrary: s)
  case (Cons x xs)
  then show ?case by (auto intro!: returns_and_then)
qed simp

lemma returns_True [simp]: "returns m (\<lambda>_. True)"
  by (simp add: returns_def split: prod.splits sum.splits)

lemma returns_if [returns_intros]:
  "(b \<Longrightarrow> returns m Q) \<Longrightarrow> (\<not> b \<Longrightarrow> returns n Q) \<Longrightarrow> returns (if b then m else n) Q"
  by simp

lemma returns_lift: "(\<And>w. Q (snd (f w))) \<Longrightarrow> returns (lift f) Q"
  by (simp add: returns_def lift_def split: prod.splits) (metis snd_conv)

end
