(* ===== verification/Hooks.thy ===== *)
theory Hooks
  imports Message
begin

text \<open>
  \<open>crates/bharatcode-core/src/hooks/mod.rs\<close>: plugin hooks. The rules are loaded from the \<open>hooks.json\<close> of
  every plugin; an event runs the commands of the rules whose matcher accepts its context, and a blocking
  event may be denied by one of them. The file system, the JSON crate, the \<open>regex\<close> crate and the running of
  a shell command are parameters. Times are in seconds.
\<close>

section \<open>Events and contexts\<close>

datatype hook_event = PreToolUse | PostToolUse | PostToolUseFailure | SessionStart | SessionEnd
  | UserPromptSubmit | BeforeReadFile | AfterFileEdit | BeforeShellExecution | AfterShellExecution
  | Stop | SubagentStart | SubagentStop

fun event_name :: "hook_event \<Rightarrow> str" where
  "event_name PreToolUse = lit ''PreToolUse''"
| "event_name PostToolUse = lit ''PostToolUse''"
| "event_name PostToolUseFailure = lit ''PostToolUseFailure''"
| "event_name SessionStart = lit ''SessionStart''"
| "event_name SessionEnd = lit ''SessionEnd''"
| "event_name UserPromptSubmit = lit ''UserPromptSubmit''"
| "event_name BeforeReadFile = lit ''BeforeReadFile''"
| "event_name AfterFileEdit = lit ''AfterFileEdit''"
| "event_name BeforeShellExecution = lit ''BeforeShellExecution''"
| "event_name AfterShellExecution = lit ''AfterShellExecution''"
| "event_name Stop = lit ''Stop''"
| "event_name SubagentStart = lit ''SubagentStart''"
| "event_name SubagentStop = lit ''SubagentStop''"

definition event_from_name :: "str \<Rightarrow> hook_event option" where
  "event_from_name n =
     (if n = lit ''PreToolUse'' then Some PreToolUse
      else if n = lit ''PostToolUse'' then Some PostToolUse
      else if n = lit ''PostToolUseFailure'' then Some PostToolUseFailure
      else if n = lit ''SessionStart'' then Some SessionStart
      else if n = lit ''SessionEnd'' then Some SessionEnd
      else if n = lit ''UserPromptSubmit'' then Some UserPromptSubmit
      else if n = lit ''BeforeReadFile'' then Some BeforeReadFile
      else if n = lit ''AfterFileEdit'' then Some AfterFileEdit
      else if n = lit ''BeforeShellExecution'' then Some BeforeShellExecution
      else if n = lit ''AfterShellExecution'' then Some AfterShellExecution
      else if n = lit ''Stop'' then Some Stop
      else if n = lit ''SubagentStart'' then Some SubagentStart
      else if n = lit ''SubagentStop'' then Some SubagentStop
      else None)"

record hook_context =
  ctx_event :: str
  ctx_session :: str
  matcher_context :: "str option"
  ctx_tool_name :: "str option"
  ctx_tool_input :: "json option"
  ctx_tool_output :: "json option"
  ctx_message :: "str option"
  ctx_working_dir :: "str option"

definition new_context :: "hook_event \<Rightarrow> str \<Rightarrow> hook_context" where
  "new_context e session = \<lparr>ctx_event = event_name e, ctx_session = session, matcher_context = None,
     ctx_tool_name = None, ctx_tool_input = None, ctx_tool_output = None, ctx_message = None,
     ctx_working_dir = None\<rparr>"

definition with_tool :: "str \<Rightarrow> json option \<Rightarrow> hook_context \<Rightarrow> hook_context" where
  "with_tool name input c = c\<lparr>matcher_context := Some name, ctx_tool_name := Some name, ctx_tool_input := input\<rparr>"

definition with_tool_output :: "json \<Rightarrow> hook_context \<Rightarrow> hook_context" where
  "with_tool_output output c = c\<lparr>ctx_tool_output := Some output\<rparr>"

definition with_message :: "str \<Rightarrow> hook_context \<Rightarrow> hook_context" where
  "with_message msg c = c\<lparr>
     matcher_context := (case matcher_context c of None \<Rightarrow> Some msg | Some m \<Rightarrow> Some m),
     ctx_message := Some msg\<rparr>"

definition with_working_dir :: "str \<Rightarrow> hook_context \<Rightarrow> hook_context" where
  "with_working_dir dir c = c\<lparr>ctx_working_dir := Some dir\<rparr>"

section \<open>Loading\<close>

text \<open>The shape of \<open>hooks.json\<close>, as the JSON crate reads it.\<close>

record raw_hook_action =
  action_type :: "str option"
  raw_command :: "str option"
  raw_timeout :: "nat option"

record raw_hook_rule =
  raw_matcher :: "str option"
  raw_actions :: "raw_hook_action list"

type_synonym hooks_file = "(str \<times> raw_hook_rule list) list"

record hook_command =
  command_text :: str
  command_timeout :: nat

record 'r loaded_rule =
  plugin_name :: str
  plugin_root :: str
  rule_matcher :: "'r option"
  rule_actions :: "hook_command list"

type_synonym 'r hook_rules = "hook_event \<Rightarrow> 'r loaded_rule list option"

record plugin =
  discovered_name :: str
  discovered_root :: str

record hook_output =
  exit_code :: "int option"
  hook_stdout :: str
  hook_stderr :: str

text \<open>
  \<open>hooks_json\<close> reads and parses a plugin's \<open>hooks.json\<close>: \<open>None\<close> where there is no such file, an error where
  it cannot be read or parsed. \<open>block_response\<close> reads \<open>decision\<close> and \<open>reason\<close> of a hook's answer.
\<close>

record ('w, 'r) hook_env =
  hooks_json :: "str \<Rightarrow> (str, hooks_file) result option"
  compile_matcher :: "str \<Rightarrow> 'r option"
  matcher_accepts :: "'r \<Rightarrow> str \<Rightarrow> bool"
  context_json :: "hook_context \<Rightarrow> str option"
  block_response :: "str \<Rightarrow> (str option \<times> str option) option"
  run_command_hook :: "str \<Rightarrow> str \<Rightarrow> str \<Rightarrow> nat \<Rightarrow> bool \<Rightarrow> 'w \<Rightarrow> 'w \<times> (str, hook_output) result"

record 'r hook_manager =
  hook_rules :: "'r hook_rules"
  use_login_shell_path :: bool

definition DEFAULT_HOOK_TIMEOUT_SECS :: nat where "DEFAULT_HOOK_TIMEOUT_SECS = 30"

definition load_action :: "raw_hook_action \<Rightarrow> hook_command option" where
  "load_action a =
     (if (case action_type a of None \<Rightarrow> True | Some t \<Rightarrow> t = lit ''command'')
      then map_option (\<lambda>cmd. \<lparr>command_text = cmd,
        command_timeout = (case raw_timeout a of Some t \<Rightarrow> t | None \<Rightarrow> DEFAULT_HOOK_TIMEOUT_SECS)\<rparr>) (raw_command a)
      else None)"

definition load_rule :: "('w, 'r) hook_env \<Rightarrow> plugin \<Rightarrow> raw_hook_rule \<Rightarrow> 'r loaded_rule option" where
  "load_rule env p r = (let actions = List.map_filter load_action (raw_actions r);
       rule = (\<lambda>m. if actions = [] then None
         else Some \<lparr>plugin_name = discovered_name p, plugin_root = discovered_root p,
                    rule_matcher = m, rule_actions = actions\<rparr>)
     in case raw_matcher r of
          Some pattern \<Rightarrow> if pattern = [] then rule None
            else (case compile_matcher env pattern of None \<Rightarrow> None | Some re \<Rightarrow> rule (Some re))
        | None \<Rightarrow> rule None)"

definition push_rules :: "hook_event \<Rightarrow> 'r loaded_rule list \<Rightarrow> 'r hook_rules \<Rightarrow> 'r hook_rules" where
  "push_rules e rs m = (if rs = [] then m
     else m(e \<mapsto> (case m e of None \<Rightarrow> [] | Some old \<Rightarrow> old) @ rs))"

definition load_event ::
    "('w, 'r) hook_env \<Rightarrow> plugin \<Rightarrow> str \<times> raw_hook_rule list \<Rightarrow> 'r hook_rules \<Rightarrow> 'r hook_rules" where
  "load_event env p entry m = (case event_from_name (fst entry) of
     None \<Rightarrow> m
   | Some e \<Rightarrow> push_rules e (List.map_filter (load_rule env p) (snd entry)) m)"

definition load_plugin :: "('w, 'r) hook_env \<Rightarrow> plugin \<Rightarrow> 'r hook_rules \<Rightarrow> 'r hook_rules" where
  "load_plugin env p m = (case hooks_json env (discovered_root p) of
     Some (Ok file) \<Rightarrow> fold (load_event env p) file m
   | _ \<Rightarrow> m)"

definition from_plugins :: "('w, 'r) hook_env \<Rightarrow> plugin list \<Rightarrow> bool \<Rightarrow> 'r hook_manager" where
  "from_plugins env ps login =
     \<lparr>hook_rules = fold (load_plugin env) ps (\<lambda>_. None), use_login_shell_path = login\<rparr>"

definition has_hooks :: "'r hook_manager \<Rightarrow> hook_event \<Rightarrow> bool" where
  "has_hooks hm e = (case hook_rules hm e of None \<Rightarrow> False | Some rs \<Rightarrow> rs \<noteq> [])"

section \<open>Running\<close>

datatype hook_decision = HookAllow | HookDeny str str

definition rule_applies :: "('w, 'r) hook_env \<Rightarrow> hook_context \<Rightarrow> 'r loaded_rule \<Rightarrow> bool" where
  "rule_applies env c r = (case rule_matcher r of
     None \<Rightarrow> True
   | Some re \<Rightarrow> matcher_accepts env re (case matcher_context c of Some t \<Rightarrow> t | None \<Rightarrow> []))"

definition run_hook ::
    "('w, 'r) hook_env \<Rightarrow> bool \<Rightarrow> str \<Rightarrow> 'r loaded_rule \<Rightarrow> hook_command \<Rightarrow> 'w \<Rightarrow> 'w \<times> (str, hook_output) result" where
  "run_hook env login payload r a =
     run_command_hook env (command_text a) (plugin_root r) payload (command_timeout a) login"

definition emit_rule :: "('w, 'r) hook_env \<Rightarrow> bool \<Rightarrow> hook_context \<Rightarrow> str \<Rightarrow> 'r loaded_rule \<Rightarrow> 'w \<Rightarrow> 'w" where
  "emit_rule env login c payload r w =
     (if rule_applies env c r then fold (\<lambda>a w. fst (run_hook env login payload r a w)) (rule_actions r) w else w)"

definition emit :: "('w, 'r) hook_env \<Rightarrow> 'r hook_manager \<Rightarrow> hook_event \<Rightarrow> hook_context \<Rightarrow> 'w \<Rightarrow> 'w" where
  "emit env hm e c w = (case hook_rules hm e of
     None \<Rightarrow> w
   | Some rs \<Rightarrow> (case (if rs = [] then None else context_json env c) of
       None \<Rightarrow> w
     | Some payload \<Rightarrow> fold (emit_rule env (use_login_shell_path hm) c payload) rs w))"

definition DEFAULT_DENY_REASON :: str where "DEFAULT_DENY_REASON = lit ''denied by plugin hook''"

definition reason_or_default :: "str \<Rightarrow> str" where
  "reason_or_default s = (if s = [] then DEFAULT_DENY_REASON else s)"

definition deny_reason :: "('w, 'r) hook_env \<Rightarrow> hook_output \<Rightarrow> str option" where
  "deny_reason env out =
     (if exit_code out = Some 2 then Some (reason_or_default (trim (hook_stderr out)))
      else (let trimmed = trim (hook_stdout out) in
        if \<not> starts_with trimmed (lit ''{'') then None
        else (case block_response env trimmed of
          None \<Rightarrow> None
        | Some (decision, why) \<Rightarrow>
            if decision = Some (lit ''block'')
            then Some (reason_or_default (case why of Some s \<Rightarrow> s | None \<Rightarrow> []))
            else None)))"

fun emit_actions ::
    "('w, 'r) hook_env \<Rightarrow> bool \<Rightarrow> str \<Rightarrow> 'r loaded_rule \<Rightarrow> hook_command list \<Rightarrow> 'w \<Rightarrow> 'w \<times> hook_decision" where
  "emit_actions env login payload r [] w = (w, HookAllow)"
| "emit_actions env login payload r (a # as) w = (case run_hook env login payload r a w of
     (w', Err _) \<Rightarrow> emit_actions env login payload r as w'
   | (w', Ok out) \<Rightarrow> (case deny_reason env out of
       Some why \<Rightarrow> (w', HookDeny why (plugin_name r))
     | None \<Rightarrow> emit_actions env login payload r as w'))"

fun emit_rules ::
    "('w, 'r) hook_env \<Rightarrow> bool \<Rightarrow> hook_context \<Rightarrow> str \<Rightarrow> 'r loaded_rule list \<Rightarrow> 'w \<Rightarrow> 'w \<times> hook_decision" where
  "emit_rules env login c payload [] w = (w, HookAllow)"
| "emit_rules env login c payload (r # rs) w =
     (if \<not> rule_applies env c r then emit_rules env login c payload rs w
      else (case emit_actions env login payload r (rule_actions r) w of
        (w', HookDeny why p) \<Rightarrow> (w', HookDeny why p)
      | (w', HookAllow) \<Rightarrow> emit_rules env login c payload rs w'))"

definition emit_blocking ::
    "('w, 'r) hook_env \<Rightarrow> 'r hook_manager \<Rightarrow> hook_event \<Rightarrow> hook_context \<Rightarrow> 'w \<Rightarrow> 'w \<times> hook_decision" where
  "emit_blocking env hm e c w = (case hook_rules hm e of
     None \<Rightarrow> (w, HookAllow)
   | Some rs \<Rightarrow> (case context_json env c of
       None \<Rightarrow> (w, HookAllow)
     | Some payload \<Rightarrow> emit_rules env (use_login_shell_path hm) c payload rs w))"

definition merge_paths :: "str \<Rightarrow> str \<Rightarrow> str" where
  "merge_paths a b = join_with (lit '':'')
     (rev (remdups (rev (filter (\<lambda>e. e \<noteq> []) (split_on 58 a @ split_on 58 b)))))"


section \<open>What is loaded\<close>

lemma event_from_name_iff: "event_from_name n = Some e \<longleftrightarrow> n = event_name e"
proof
  show "event_from_name n = Some e" if "n = event_name e"
    using that by (cases e) (simp_all add: event_from_name_def lit_def)
  show "n = event_name e" if "event_from_name n = Some e"
    using that by (simp add: event_from_name_def del: lit_Cons split: if_splits)
qed

definition rules_of :: "('w, 'r) hook_env \<Rightarrow> hook_event \<Rightarrow> plugin \<Rightarrow> 'r loaded_rule list" where
  "rules_of env e p = (case hooks_json env (discovered_root p) of
     Some (Ok file) \<Rightarrow> concat (map (\<lambda>entry. List.map_filter (load_rule env p) (snd entry))
       (filter (\<lambda>entry. fst entry = event_name e) file))
   | _ \<Rightarrow> [])"

definition listed :: "'r hook_rules \<Rightarrow> hook_event \<Rightarrow> 'r loaded_rule list" where
  "listed m e = (case m e of None \<Rightarrow> [] | Some rs \<Rightarrow> rs)"

definition no_empty_rules :: "'r hook_rules \<Rightarrow> bool" where
  "no_empty_rules m = (\<forall>e. m e \<noteq> Some [])"

lemma listed_lookup: "listed m e = rs \<Longrightarrow> m e \<noteq> Some [] \<Longrightarrow> m e = (if rs = [] then None else Some rs)"
  by (auto simp: listed_def split: option.splits)

lemma push_rules_listed [simp]:
  "listed (push_rules e rs m) e' = listed m e' @ (if e' = e then rs else [])"
  by (simp add: listed_def push_rules_def split: option.splits)

lemma load_event_listed:
  "listed (load_event env p entry m) e = listed m e
     @ (if fst entry = event_name e then List.map_filter (load_rule env p) (snd entry) else [])"
proof (cases "event_from_name (fst entry)")
  case None
  then have "fst entry \<noteq> event_name e" by (metis event_from_name_iff option.distinct(1))
  with None show ?thesis by (simp add: load_event_def)
next
  case (Some e')
  moreover from this have "fst entry = event_name e \<longleftrightarrow> e = e'"
    by (metis event_from_name_iff option.inject)
  ultimately show ?thesis by (auto simp: load_event_def)
qed

lemma load_plugin_listed: "listed (load_plugin env p m) e = listed m e @ rules_of env e p"
proof -
  have "listed (fold (load_event env p) es m) e = listed m e
      @ concat (map (\<lambda>entry. List.map_filter (load_rule env p) (snd entry))
        (filter (\<lambda>entry. fst entry = event_name e) es))" for es
    by (induction es arbitrary: m) (auto simp: load_event_listed)
  then show ?thesis by (simp add: load_plugin_def rules_of_def split: option.splits sum.splits)
qed

lemma load_event_no_empty: "no_empty_rules m \<Longrightarrow> no_empty_rules (load_event env p entry m)"
  by (auto simp: no_empty_rules_def load_event_def push_rules_def split: option.splits)

lemma load_plugin_no_empty: "no_empty_rules m \<Longrightarrow> no_empty_rules (load_plugin env p m)"
proof -
  have "no_empty_rules m \<Longrightarrow> no_empty_rules (fold (load_event env p) es m)" for es
    by (induction es arbitrary: m) (simp_all add: load_event_no_empty)
  then show "no_empty_rules m \<Longrightarrow> no_empty_rules (load_plugin env p m)"
    by (simp add: load_plugin_def split: option.splits sum.splits)
qed

text \<open>The rules of an event are those of the plugins, in the order of the plugins and of their files.\<close>

lemma from_plugins_rules:
  "hook_rules (from_plugins env ps login) e =
     (let rs = concat (map (rules_of env e) ps) in if rs = [] then None else Some rs)"
proof -
  have l: "listed (fold (load_plugin env) ps m) e = listed m e @ concat (map (rules_of env e) ps)" for m
    by (induction ps arbitrary: m) (simp_all add: load_plugin_listed)
  have n: "no_empty_rules m \<Longrightarrow> no_empty_rules (fold (load_plugin env) ps m)" for m
    by (induction ps arbitrary: m) (simp_all add: load_plugin_no_empty)
  have "no_empty_rules (fold (load_plugin env) ps (\<lambda>_. None))"
    by (rule n) (simp add: no_empty_rules_def)
  then have "fold (load_plugin env) ps (\<lambda>_. None) e \<noteq> Some []" by (simp add: no_empty_rules_def)
  with l [of "\<lambda>_. None"] show ?thesis
    unfolding from_plugins_def Let_def hook_manager.simps
    by (intro listed_lookup) (simp_all add: listed_def [of "\<lambda>_. None"])
qed

lemma in_set_map_filter: "y \<in> set (List.map_filter f xs) \<longleftrightarrow> (\<exists>x \<in> set xs. f x = Some y)"
  by (force simp: List.map_filter_def)

lemma load_rule_acts:
  "load_rule env p q = Some r \<Longrightarrow> rule_actions r \<noteq> [] \<and> plugin_name r = discovered_name p"
  by (auto simp: load_rule_def Let_def split: option.splits if_splits)

lemma rules_of_act: "r \<in> set (rules_of env e p) \<Longrightarrow> rule_actions r \<noteq> [] \<and> plugin_name r = discovered_name p"
  by (auto simp: rules_of_def in_set_map_filter split: option.splits sum.splits dest!: load_rule_acts)

lemma loaded_rule_acts:
  "hook_rules (from_plugins env ps login) e = Some rs \<Longrightarrow> r \<in> set rs \<Longrightarrow>
   rule_actions r \<noteq> [] \<and> plugin_name r \<in> discovered_name ` set ps"
  by (auto simp: from_plugins_rules Let_def rules_of_act split: if_splits)

section \<open>What a blocking event does\<close>

text \<open>The commands of an event, in order, and their run up to the first denial.\<close>

definition hook_steps ::
    "('w, 'r) hook_env \<Rightarrow> hook_context \<Rightarrow> 'r loaded_rule list \<Rightarrow> ('r loaded_rule \<times> hook_command) list" where
  "hook_steps env c rs = concat (map (\<lambda>r. map (Pair r) (rule_actions r)) (filter (rule_applies env c) rs))"

definition run_step :: "('w, 'r) hook_env \<Rightarrow> bool \<Rightarrow> str \<Rightarrow> 'r loaded_rule \<times> hook_command \<Rightarrow> 'w \<Rightarrow> 'w" where
  "run_step env login payload s w = fst (run_hook env login payload (fst s) (snd s) w)"

definition step_denies ::
    "('w, 'r) hook_env \<Rightarrow> bool \<Rightarrow> str \<Rightarrow> 'r loaded_rule \<times> hook_command \<Rightarrow> 'w \<Rightarrow> str option" where
  "step_denies env login payload s w = (case snd (run_hook env login payload (fst s) (snd s) w) of
     Ok out \<Rightarrow> deny_reason env out | Err _ \<Rightarrow> None)"

fun run_steps ::
    "('w, 'r) hook_env \<Rightarrow> bool \<Rightarrow> str \<Rightarrow> ('r loaded_rule \<times> hook_command) list \<Rightarrow> 'w \<Rightarrow> 'w \<times> hook_decision" where
  "run_steps env login payload [] w = (w, HookAllow)"
| "run_steps env login payload (s # ss) w = (case step_denies env login payload s w of
     Some why \<Rightarrow> (run_step env login payload s w, HookDeny why (plugin_name (fst s)))
   | None \<Rightarrow> run_steps env login payload ss (run_step env login payload s w))"

lemma run_steps_append:
  "run_steps env login payload (ss @ ts) w = (case run_steps env login payload ss w of
     (w', HookAllow) \<Rightarrow> run_steps env login payload ts w'
   | (w', HookDeny why p) \<Rightarrow> (w', HookDeny why p))"
  by (induction ss arbitrary: w) (simp_all split: option.splits)

lemma emit_actions_steps:
  "emit_actions env login payload r as w = run_steps env login payload (map (Pair r) as) w"
  by (induction as arbitrary: w)
     (auto simp: step_denies_def run_step_def split: prod.splits sum.splits option.splits)

lemma emit_rules_steps:
  "emit_rules env login c payload rs w = run_steps env login payload (hook_steps env c rs) w"
  by (induction rs arbitrary: w)
     (simp_all add: hook_steps_def emit_actions_steps run_steps_append split: prod.splits hook_decision.splits)

lemma emit_steps:
  "emit env hm e c w = (case hook_rules hm e of None \<Rightarrow> w | Some rs \<Rightarrow> (case context_json env c of
     None \<Rightarrow> w | Some payload \<Rightarrow> fold (run_step env (use_login_shell_path hm) payload) (hook_steps env c rs) w))"
proof -
  have "fold (emit_rule env login c payload) rs w = fold (run_step env login payload) (hook_steps env c rs) w"
    for login payload rs
  proof (induction rs arbitrary: w)
    case (Cons r rs)
    have "emit_rule env login c payload r w = fold (run_step env login payload)
        (if rule_applies env c r then map (Pair r) (rule_actions r) else []) w"
      by (simp add: emit_rule_def fold_map comp_def run_step_def [abs_def])
    then show ?case using Cons by (simp add: hook_steps_def)
  qed (simp add: hook_steps_def)
  then show ?thesis by (auto simp: emit_def hook_steps_def split: option.splits)
qed

lemma run_steps_allow:
  "snd (run_steps env login payload ss w) = HookAllow \<Longrightarrow>
   fst (run_steps env login payload ss w) = fold (run_step env login payload) ss w"
  by (induction ss arbitrary: w) (auto split: option.splits)

lemma run_steps_deny:
  "run_steps env login payload ss w = (w', HookDeny why p) \<Longrightarrow>
   \<exists>pre s post. ss = pre @ s # post \<and> p = plugin_name (fst s)
     \<and> (let v = fold (run_step env login payload) pre w in
          run_steps env login payload pre w = (v, HookAllow)
          \<and> step_denies env login payload s v = Some why \<and> w' = run_step env login payload s v)"
proof (induction ss arbitrary: w)
  case (Cons t ss)
  show ?case
  proof (cases "step_denies env login payload t w")
    case None
    with Cons.prems have "run_steps env login payload ss (run_step env login payload t w) = (w', HookDeny why p)"
      by simp
    from Cons.IH [OF this] obtain pre s post where
      "ss = pre @ s # post \<and> p = plugin_name (fst s)
     \<and> (let v = fold (run_step env login payload) pre (run_step env login payload t w) in
          run_steps env login payload pre (run_step env login payload t w) = (v, HookAllow)
          \<and> step_denies env login payload s v = Some why \<and> w' = run_step env login payload s v)"
      by blast
    with None show ?thesis
      by (intro exI [of _ "t # pre"] exI [of _ s] exI [of _ post]) (simp add: Let_def)
  next
    case (Some r)
    with Cons show ?thesis
      by (intro exI [of _ "[]"] exI [of _ t] exI [of _ ss]) simp
  qed
qed simp

text \<open>
  The answer of a hook that refuses, as the hook protocol has it: exit code 2, or a JSON object on its
  standard output whose decision is to block. Where none of the commands that are run refuses, each is
  judged in the world the ones before it leave.
\<close>

definition refuses :: "('w, 'r) hook_env \<Rightarrow> hook_output \<Rightarrow> bool" where
  "refuses env out = (exit_code out = Some 2
     \<or> take 1 (trim (hook_stdout out)) = lit ''{''
       \<and> (\<exists>why. block_response env (trim (hook_stdout out)) = Some (Some (lit ''block''), why)))"

definition none_refuses ::
    "('w, 'r) hook_env \<Rightarrow> bool \<Rightarrow> str \<Rightarrow> ('r loaded_rule \<times> hook_command) list \<Rightarrow> 'w \<Rightarrow> bool" where
  "none_refuses env login payload ss w = (\<forall>pre r a post v out.
     ss = pre @ (r, a) # post \<longrightarrow> run_hook env login payload r a (fold (run_step env login payload) pre w) = (v, Ok out) \<longrightarrow>
     \<not> refuses env out)"

lemma refuses_iff: "refuses env out \<longleftrightarrow> deny_reason env out \<noteq> None"
  by (cases "trim (hook_stdout out)")
     (auto simp: refuses_def deny_reason_def Let_def starts_with_def split: option.splits prod.splits)

lemma none_refuses_Cons:
  "none_refuses env login payload (s # ss) w \<longleftrightarrow>
     step_denies env login payload s w = None \<and> none_refuses env login payload ss (run_step env login payload s w)"
  (is "?l \<longleftrightarrow> ?d \<and> ?r")
proof -
  obtain r a where s: "s = (r, a)" by fastforce
  obtain v b where h: "run_hook env login payload r a w = (v, b)" by fastforce
  have "?d \<longleftrightarrow> (\<forall>out. b = Ok out \<longrightarrow> \<not> refuses env out)"
    by (cases b) (simp_all add: s h step_denies_def refuses_iff)
  moreover have ?r if ?l
    unfolding none_refuses_def
  proof (intro allI impI)
    fix pre r' a' post v' out
    assume "ss = pre @ (r', a') # post"
      "run_hook env login payload r' a' (fold (run_step env login payload) pre (run_step env login payload s w)) = (v', Ok out)"
    with that [unfolded none_refuses_def, rule_format, of "s # pre" r' a' post v' out] show "\<not> refuses env out" by simp
  qed
  moreover have "\<not> refuses env out" if ?l "b = Ok out" for out
    using that(1) [unfolded none_refuses_def, rule_format, of "[]" r a ss v out] that(2) h s by simp
  moreover have ?l if "\<forall>out. b = Ok out \<longrightarrow> \<not> refuses env out" ?r
    unfolding none_refuses_def
  proof (intro allI impI)
    fix pre r' a' post v' out
    assume x: "s # ss = pre @ (r', a') # post"
      "run_hook env login payload r' a' (fold (run_step env login payload) pre w) = (v', Ok out)"
    show "\<not> refuses env out"
    proof (cases pre)
      case Nil
      with x that(1) h s show ?thesis by auto
    next
      case (Cons q qs)
      with x that(2) [unfolded none_refuses_def, rule_format, of qs r' a' post v' out] show ?thesis by simp
    qed
  qed
  ultimately show ?thesis by blast
qed

lemma run_steps_allow_iff:
  "snd (run_steps env login payload ss w) = HookAllow \<longleftrightarrow> none_refuses env login payload ss w"
proof (induction ss arbitrary: w)
  case (Cons s ss)
  then show ?case by (simp add: none_refuses_Cons split: option.split)
qed (simp add: none_refuses_def)

text \<open>
  C22. A blocking event is denied exactly when a hook that ran refuses: it is let pass only where no
  command of the rules that accept the context refused, and then the event has done exactly what a
  non-blocking one does; it is denied only where the commands have run in order up to one, none before it
  refused and that one does, which gives the reason and whose rule gives the plugin, and nothing behind it
  has run. A hook that fails never denies.
\<close>

theorem emit_blocking_decision:
  "case emit_blocking env hm e c w of
     (w', HookAllow) \<Rightarrow> w' = emit env hm e c w
       \<and> (case context_json env c of None \<Rightarrow> True | Some payload \<Rightarrow>
            none_refuses env (use_login_shell_path hm) payload (hook_steps env c (listed (hook_rules hm) e)) w)
   | (w', HookDeny why p) \<Rightarrow> (\<exists>payload pre r a post out.
       context_json env c = Some payload
       \<and> hook_steps env c (listed (hook_rules hm) e) = pre @ (r, a) # post
       \<and> none_refuses env (use_login_shell_path hm) payload pre w
       \<and> run_hook env (use_login_shell_path hm) payload r a
           (fold (run_step env (use_login_shell_path hm) payload) pre w) = (w', Ok out)
       \<and> refuses env out \<and> deny_reason env out = Some why \<and> p = plugin_name r)"
proof (cases "hook_rules hm e")
  case (Some rs)
  show ?thesis
  proof (cases "context_json env c")
    case (Some payload)
    let ?l = "use_login_shell_path hm" and ?ss = "hook_steps env c rs"
    have b: "emit_blocking env hm e c w = run_steps env ?l payload ?ss w"
      using Some \<open>hook_rules hm e = Some rs\<close> by (simp add: emit_blocking_def emit_rules_steps)
    obtain w' d where x: "run_steps env ?l payload ?ss w = (w', d)" by fastforce
    show ?thesis
    proof (cases d)
      case HookAllow
      with x have "none_refuses env ?l payload ?ss w" "w' = fold (run_step env ?l payload) ?ss w"
        using run_steps_allow_iff [of env ?l payload ?ss w] run_steps_allow [of env ?l payload ?ss w] by simp_all
      with x HookAllow Some \<open>hook_rules hm e = Some rs\<close> show ?thesis by (simp add: b emit_steps listed_def)
    next
      case (HookDeny why p)
      with x obtain pre r a post where s: "?ss = pre @ (r, a) # post" "p = plugin_name r"
        and v: "run_steps env ?l payload pre w = (fold (run_step env ?l payload) pre w, HookAllow)"
          "step_denies env ?l payload (r, a) (fold (run_step env ?l payload) pre w) = Some why"
          "w' = run_step env ?l payload (r, a) (fold (run_step env ?l payload) pre w)"
        by (auto dest!: run_steps_deny simp: Let_def)
      from v(2,3) obtain out where
        "run_hook env ?l payload r a (fold (run_step env ?l payload) pre w) = (w', Ok out)"
        "deny_reason env out = Some why"
        by (cases "run_hook env ?l payload r a (fold (run_step env ?l payload) pre w)")
           (auto simp: step_denies_def run_step_def split: sum.splits)
      moreover from v(1) have "none_refuses env ?l payload pre w"
        using run_steps_allow_iff [of env ?l payload pre w] by simp
      ultimately have "hook_steps env c (listed (hook_rules hm) e) = pre @ (r, a) # post
         \<and> none_refuses env ?l payload pre w
         \<and> run_hook env ?l payload r a (fold (run_step env ?l payload) pre w) = (w', Ok out)
         \<and> refuses env out \<and> deny_reason env out = Some why \<and> p = plugin_name r"
        using s \<open>hook_rules hm e = Some rs\<close> by (simp add: listed_def refuses_iff)
      then show ?thesis using x HookDeny Some by (simp add: b) blast
    qed
  qed (use Some in \<open>simp add: emit_blocking_def emit_steps\<close>)
qed (simp add: emit_blocking_def emit_steps listed_def hook_steps_def none_refuses_def split: option.split)

end
