(* ===== verification/ToolCategorize.thy ===== *)
theory ToolCategorize
  imports Message Complex_Main "HOL-Library.Multiset"
begin

text \<open>
  \<open>crates/bharatcode-core/src/agents/reply_parts.rs\<close>: the coercion of tool arguments to the types their
  schema asks for, the sorting of a response's tool calls into those the frontend runs and those the agent
  runs, with the message that is shown, and the visibility of a tool to the model and to apps.
  Parsing and printing of \<open>f64\<close>, and \<open>str::to_lowercase\<close>, are parameters.
\<close>

section \<open>Coercion of arguments\<close>

text \<open>An \<open>f64\<close> is a rational or none: an infinity or not a number.\<close>

datatype f64 = Finite rat | NonFinite

record number_io =
  parse_f64 :: "str \<Rightarrow> f64 option"
  show_f64 :: "rat \<Rightarrow> str"
  lowercase :: "str \<Rightarrow> str"

definition json_int :: "int \<Rightarrow> json" where
  "json_int n = JNumber (if 0 \<le> n then PosInt (nat n) else NegInt (nat (- n)))"

text \<open>\<open>n as i64\<close> saturates: the largest \<open>f64\<close> let through is \<open>2^63\<close>. \<open>json!\<close> of a number that is not finite is \<open>null\<close>.\<close>

definition try_coerce_number :: "number_io \<Rightarrow> str \<Rightarrow> json" where
  "try_coerce_number io s = (case parse_f64 io s of
     Some (Finite q) \<Rightarrow>
       if q \<in> \<int> \<and> - (2 ^ 63) \<le> q \<and> q \<le> 2 ^ 63 then json_int (min \<lfloor>q\<rfloor> (2 ^ 63 - 1))
       else JNumber (Float (show_f64 io q))
   | Some NonFinite \<Rightarrow> JNull
   | None \<Rightarrow> JString s)"

definition try_coerce_boolean :: "number_io \<Rightarrow> str \<Rightarrow> json" where
  "try_coerce_boolean io s =
     (if lowercase io s = lit ''true'' then JBool True
      else if lowercase io s = lit ''false'' then JBool False
      else JString s)"

definition number_type :: "str \<Rightarrow> bool" where
  "number_type t = (t = lit ''number'' \<or> t = lit ''integer'')"

fun coerce_first :: "number_io \<Rightarrow> str \<Rightarrow> json list \<Rightarrow> json" where
  "coerce_first io s [] = JString s"
| "coerce_first io s (JString t # ts) =
     (if number_type t \<and> parse_f64 io s \<noteq> None then try_coerce_number io s
      else if t = lit ''boolean'' \<and> lowercase io s \<in> {lit ''true'', lit ''false''} then try_coerce_boolean io s
      else coerce_first io s ts)"
| "coerce_first io s (_ # ts) = coerce_first io s ts"

definition coerce_value :: "number_io \<Rightarrow> str \<Rightarrow> json \<Rightarrow> json" where
  "coerce_value io s schema = (case json_get schema (lit ''type'') of
     Some (JString t) \<Rightarrow>
       if number_type t then try_coerce_number io s
       else if t = lit ''boolean'' then try_coerce_boolean io s
       else JString s
   | Some (JArray ts) \<Rightarrow> coerce_first io s ts
   | _ \<Rightarrow> JString s)"

definition coerce_entry :: "number_io \<Rightarrow> json_object \<Rightarrow> str \<times> json \<Rightarrow> str \<times> json" where
  "coerce_entry io properties kv = (case (snd kv, map_of properties (fst kv)) of
     (JString s, Some schema) \<Rightarrow> (fst kv, coerce_value io s schema)
   | _ \<Rightarrow> kv)"

definition coerce_tool_arguments :: "number_io \<Rightarrow> json_object option \<Rightarrow> json \<Rightarrow> json_object option" where
  "coerce_tool_arguments io args tool_schema =
     Option.bind args (\<lambda>args.
     Option.bind (Option.bind (json_get tool_schema (lit ''properties'')) json_as_object) (\<lambda>properties.
       Some (map (coerce_entry io properties) args)))"

section \<open>Tool calls of a response\<close>

text \<open>A \<open>rmcp\<close> tool, with the fields read here.\<close>

record llm_tool =
  llm_tool_name :: str
  input_schema :: json_object
  registry_meta :: "json_object option"

definition merge_missing :: "json_object \<Rightarrow> json_object \<Rightarrow> json_object" where
  "merge_missing existing new = existing @ filter (\<lambda>kv. fst kv \<notin> fst ` set existing) new"

definition merge_meta :: "json option \<Rightarrow> json_object \<Rightarrow> json option" where
  "merge_meta existing new = (case existing of
     Some (JObject m) \<Rightarrow> Some (JObject (merge_missing m new))
   | None \<Rightarrow> Some (JObject new)
   | Some v \<Rightarrow> Some v)"

definition coerce_request :: "number_io \<Rightarrow> llm_tool list \<Rightarrow> tool_request \<Rightarrow> tool_request" where
  "coerce_request io tools r = (case tool_call r of
     Err e \<Rightarrow> r
   | Ok c \<Rightarrow> (case find (\<lambda>t. llm_tool_name t = tool_name c) tools of
       None \<Rightarrow> r
     | Some t \<Rightarrow> r\<lparr>
         tool_call := Ok (c\<lparr>arguments := coerce_tool_arguments io (arguments c) (JObject (input_schema t))\<rparr>),
         tool_meta := (case registry_meta t of None \<Rightarrow> tool_meta r | Some meta \<Rightarrow> merge_meta (tool_meta r) meta)\<rparr>))"

text \<open>\<open>seen_ids\<close>: only the first request with an id stays.\<close>

fun dedup_requests :: "str set \<Rightarrow> tool_request list \<Rightarrow> tool_request list" where
  "dedup_requests seen [] = []"
| "dedup_requests seen (r # rs) =
     (if request_id r \<in> seen then dedup_requests seen rs
      else r # dedup_requests (insert (request_id r) seen) rs)"

definition requests_of :: "message_content list \<Rightarrow> tool_request list" where
  "requests_of cs = List.map_filter as_tool_request cs"

definition is_frontend_call :: "str set \<Rightarrow> tool_request \<Rightarrow> bool" where
  "is_frontend_call frontend r = (case tool_call r of Ok c \<Rightarrow> tool_name c \<in> frontend | Err _ \<Rightarrow> False)"

definition keeps_request :: "str set \<Rightarrow> tool_request \<Rightarrow> bool" where
  "keeps_request frontend r = (is_externally_dispatched r \<or> \<not> is_frontend_call frontend r)"

definition is_any_thinking :: "message_content \<Rightarrow> bool" where
  "is_any_thinking c = (case c of Thinking _ \<Rightarrow> True | RedactedThinking _ \<Rightarrow> True | _ \<Rightarrow> False)"

text \<open>The walk over the contents; the list is \<open>deduped_requests\<close> with \<open>next_request\<close> at its head.\<close>

fun filter_contents :: "str set \<Rightarrow> bool \<Rightarrow> tool_request list \<Rightarrow> message_content list \<Rightarrow> message_content list" where
  "filter_contents frontend hide rs [] = []"
| "filter_contents frontend hide rs (ToolRequest req # cs) = (case rs of
     [] \<Rightarrow> filter_contents frontend hide rs cs
   | r # rs' \<Rightarrow>
       if request_id r \<noteq> request_id req then filter_contents frontend hide rs cs
       else (if keeps_request frontend r then [ToolRequest r] else []) @ filter_contents frontend hide rs' cs)"
| "filter_contents frontend hide rs (c # cs) =
     (if is_any_thinking c \<and> hide then [] else [c]) @ filter_contents frontend hide rs cs"

record categorized =
  frontend_requests :: "tool_request list"
  remaining_requests :: "tool_request list"
  filtered_response :: message

definition turn_requests :: "number_io \<Rightarrow> llm_tool list \<Rightarrow> message \<Rightarrow> tool_request list" where
  "turn_requests io tools response =
     dedup_requests {} (map (coerce_request io tools) (requests_of (content response)))"

definition categorize_tool_requests ::
    "number_io \<Rightarrow> str set \<Rightarrow> llm_tool list \<Rightarrow> bool \<Rightarrow> message \<Rightarrow> categorized" where
  "categorize_tool_requests io frontend tools suppress response =
     (let tool_requests = turn_requests io tools response;
          filtered = filter_contents frontend (suppress \<and> tool_requests \<noteq> []) tool_requests (content response);
          bare = message_new (role response) (created response) filtered;
          own = filter (\<lambda>r. \<not> is_externally_dispatched r) tool_requests
      in \<lparr>frontend_requests = filter (is_frontend_call frontend) own,
          remaining_requests = filter (\<lambda>r. \<not> is_frontend_call frontend r) own,
          filtered_response = (case msg_id response of Some i \<Rightarrow> with_id i bare | None \<Rightarrow> bare)\<rparr>)"

section \<open>Visibility of a tool\<close>

definition visible_to :: "string \<Rightarrow> llm_tool \<Rightarrow> bool" where
  "visible_to who t = (case registry_meta t of
     None \<Rightarrow> True
   | Some m \<Rightarrow> (case map_of m (lit ''ui'') of
       None \<Rightarrow> True
     | Some ui \<Rightarrow> (case json_get ui (lit ''visibility'') of
         Some (JArray arr) \<Rightarrow> list_ex (\<lambda>v. json_as_str v = Some (lit who)) arr
       | _ \<Rightarrow> True)))"

definition is_tool_visible_to_app :: "llm_tool \<Rightarrow> bool" where
  "is_tool_visible_to_app = visible_to ''app''"

definition is_tool_visible_to_model :: "llm_tool \<Rightarrow> bool" where
  "is_tool_visible_to_model = visible_to ''model''"

section \<open>What the agent runs\<close>

lemma coerce_request_id [simp]: "request_id (coerce_request io tools r) = request_id r"
  by (simp add: coerce_request_def split: sum.splits option.splits)

lemma dedup_requests_ids:
  "distinct (map request_id (dedup_requests seen rs))
   \<and> set (map request_id (dedup_requests seen rs)) = request_id ` set rs - seen"
  by (induction rs arbitrary: seen) (auto split: if_splits)

lemma requests_of_simps [simp]:
  "requests_of [] = []"
  "requests_of (ToolRequest r # cs) = r # requests_of cs"
  "\<not> is_tool_request c \<Longrightarrow> requests_of (c # cs) = requests_of cs"
  by (simp_all add: requests_of_def List.map_filter_def) (cases c; simp)

lemma requests_of_append [simp]: "requests_of (cs @ ds) = requests_of cs @ requests_of ds"
  by (simp add: requests_of_def List.map_filter_def)

lemma filter_contents_other:
  "\<not> is_tool_request c \<Longrightarrow> filter_contents frontend hide rs (c # cs) =
     (if is_any_thinking c \<and> hide then [] else [c]) @ filter_contents frontend hide rs cs"
  by (cases c) simp_all

text \<open>
  The walk matches each kept request with its own place among the contents: what it lets through are the
  kept requests, in order, but for those the frontend runs.
\<close>

lemma filter_contents_requests:
  "(\<And>r. request_id (f r) = request_id r) \<Longrightarrow>
   requests_of (filter_contents frontend hide (dedup_requests seen (map f (requests_of cs))) cs)
     = filter (keeps_request frontend) (dedup_requests seen (map f (requests_of cs)))"
proof (induction cs arbitrary: seen)
  case (Cons c cs)
  show ?case
  proof (cases "is_tool_request c")
    case True
    then obtain q where c: "c = ToolRequest q" by (cases c) auto
    show ?thesis
    proof (cases "request_id q \<in> seen")
      case True
      define D where "D = dedup_requests seen (map f (requests_of cs))"
      have "filter_contents frontend hide D (c # cs) = filter_contents frontend hide D cs"
        using dedup_requests_ids [of seen "map f (requests_of cs)"] True
        by (cases D) (auto simp: D_def c)
      then show ?thesis
        using Cons True by (simp add: c D_def)
    next
      case False
      then show ?thesis
        using Cons by (simp add: c)
    qed
  next
    case False
    then show ?thesis
      using Cons by (auto simp: filter_contents_other is_any_thinking_def split: message_content.splits)
  qed
qed simp

lemma filter_contents_rest:
  "filter (\<lambda>c. \<not> is_tool_request c) (filter_contents frontend hide rs cs)
   = filter (\<lambda>c. \<not> is_tool_request c \<and> \<not> (is_any_thinking c \<and> hide)) cs"
proof (induction cs arbitrary: rs)
  case (Cons c cs)
  show ?case
    using Cons by (cases c) (auto split: list.splits)
qed simp

lemma content_filtered_response:
  "content (filtered_response (categorize_tool_requests io frontend tools suppress response))
   = filter_contents frontend (suppress \<and> turn_requests io tools response \<noteq> [])
       (turn_requests io tools response) (content response)"
  by (simp add: categorize_tool_requests_def Let_def with_id_def message_new_def split: option.splits)

text \<open>
  C21. The tool calls of a response are sorted without loss and without repetition: the calls for the
  frontend and those for the agent are, together, the first call of every id in the response that the
  provider has not run itself, each once; and the message shown to the user keeps, in their order, the
  first call of every id but for the frontend's, and every other content but replayed thinking.
\<close>

theorem categorize_runs_each_call_once:
  "let c = categorize_tool_requests io frontend tools suppress response;
       rs = turn_requests io tools response
   in distinct (map request_id rs)
      \<and> set (map request_id rs) = request_id ` set (requests_of (content response))
      \<and> mset (frontend_requests c @ remaining_requests c) = mset (filter (\<lambda>r. \<not> is_externally_dispatched r) rs)
      \<and> requests_of (content (filtered_response c)) = filter (keeps_request frontend) rs
      \<and> filter (\<lambda>c. \<not> is_tool_request c) (content (filtered_response c))
        = filter (\<lambda>c. \<not> is_tool_request c \<and> \<not> (is_any_thinking c \<and> suppress \<and> rs \<noteq> [])) (content response)"
proof -
  have ids: "request_id ` set (map (coerce_request io tools) rs) = request_id ` set rs" for rs
    by (force simp: image_image)
  have parts: "mset (frontend_requests c) + mset (remaining_requests c)
      = mset (filter (\<lambda>r. \<not> is_externally_dispatched r) (turn_requests io tools response))"
    if "c = categorize_tool_requests io frontend tools suppress response" for c
    by (simp add: that categorize_tool_requests_def Let_def multiset_partition [symmetric]
      del: filter_filter filter_filter_mset)
  show ?thesis
    using dedup_requests_ids [of "{}" "map (coerce_request io tools) (requests_of (content response))"]
    unfolding Let_def content_filtered_response filter_contents_rest
    by (simp add: ids parts turn_requests_def filter_contents_requests image_image)
qed

section \<open>What coercion does to arguments\<close>

lemma coerce_entry_keeps: "fst (coerce_entry io ps kv) = fst kv"
  "(\<And>s. snd kv \<noteq> JString s) \<Longrightarrow> coerce_entry io ps kv = kv"
  by (auto simp: coerce_entry_def split: json.splits option.splits)

text \<open>
  Coercion keeps the keys and their order and touches only strings whose property the schema describes.
\<close>

lemma coerce_tool_arguments_keys:
  "coerce_tool_arguments io (Some args) schema = Some out \<Longrightarrow>
   map fst out = map fst args
   \<and> (\<forall>i < length args. (\<forall>s. snd (args ! i) \<noteq> JString s) \<longrightarrow> out ! i = args ! i)"
  by (auto simp: coerce_tool_arguments_def coerce_entry_keeps split: bind_splits)

text \<open>A tool whose schema lists no properties loses all its arguments.\<close>

lemma arguments_lost_without_properties:
  "tool_call r = Ok c \<Longrightarrow> find (\<lambda>t. llm_tool_name t = tool_name c) tools = Some t \<Longrightarrow>
   map_of (input_schema t) (lit ''properties'') = None \<Longrightarrow>
   tool_call (coerce_request io tools r) = Ok (c\<lparr>arguments := None\<rparr>)"
  by (cases "arguments c") (simp_all add: coerce_request_def coerce_tool_arguments_def del: lit_Cons)

text \<open>A string that reads as a number but not a finite one, such as \<open>nan\<close>, becomes \<open>null\<close>.\<close>

lemma not_finite_becomes_null:
  "parse_f64 io s = Some NonFinite \<Longrightarrow> json_get schema (lit ''type'') = Some (JString (lit ''number'')) \<Longrightarrow>
   coerce_value io s schema = JNull"
  by (simp add: coerce_value_def number_type_def try_coerce_number_def del: lit_Cons)

text \<open>An integral number within the range of an \<open>i64\<close> comes out as that integer.\<close>

lemma coerced_integer:
  "parse_f64 io s = Some (Finite (of_int n)) \<Longrightarrow> - (2 ^ 63) \<le> n \<Longrightarrow> n < 2 ^ 63 \<Longrightarrow>
   try_coerce_number io s = json_int n"
proof -
  assume n: "parse_f64 io s = Some (Finite (of_int n))" "- (2 ^ 63) \<le> n" "n < 2 ^ 63"
  have "(of_int (- (2 ^ 63)) :: rat) \<le> of_int n" "(of_int n :: rat) \<le> of_int (2 ^ 63)"
    using n by (simp_all only: of_int_le_iff)
  then show ?thesis
    using n by (simp add: try_coerce_number_def)
qed

end
