(* ===== verification/ToolDispatch.thy ===== *)
theory ToolDispatch
  imports Effects Hooks ToolRetry PermissionInspector ToolCategorize ConfirmationRouter Conversation TokenUsage
begin

text \<open>
  \<open>crates/bharatcode-core/src/agents/agent.rs\<close> and \<open>tool_execution.rs\<close>, with
  \<open>large_response_handler.rs\<close> and \<open>tool_governor.rs\<close>: a tool call dispatched between its hooks, the
  approved, denied and confirmed calls of a turn, and the run of their streams. What runs later is a
  function of the world \<open>'w\<close>; extensions, the schedule and final output tools, files and the user are
  parameters.
\<close>

section \<open>Kinds of tools\<close>

datatype tool_category = ShellTool | ReadTool | WriteTool | OtherTool

text \<open>\<open>rsplit("__").next()\<close>: what follows the last separator, found from the right.\<close>

fun last_part :: "str \<Rightarrow> str \<Rightarrow> str" where
  "last_part acc [] = acc"
| "last_part acc [c] = c # acc"
| "last_part acc (c # d # s) = (if c = 95 \<and> d = 95 then acc else last_part (c # acc) (d # s))"

definition local_name :: "str \<Rightarrow> str" where
  "local_name s = last_part [] (rev s)"

definition categorize_tool :: "str \<Rightarrow> tool_category" where
  "categorize_tool name = (let l = local_name name in
     if l \<in> {lit ''shell'', lit ''bash'', lit ''exec'', lit ''run''} then ShellTool
     else if l \<in> {lit ''read'', lit ''view'', lit ''cat'', lit ''read_file''} then ReadTool
     else if l \<in> {lit ''write'', lit ''edit'', lit ''patch'', lit ''write_file'', lit ''edit_file''} then WriteTool
     else OtherTool)"

definition extract_string_arg :: "json option \<Rightarrow> str list \<Rightarrow> str option" where
  "extract_string_arg input keys = Option.bind (Option.bind input json_as_object) (\<lambda>obj.
     first_some (\<lambda>k. case Option.bind (map_of obj k) json_as_str of
       Some s \<Rightarrow> if s = [] then None else Some s | None \<Rightarrow> None) keys)"

definition path_keys :: "str list" where
  "path_keys = [lit ''path'', lit ''file'', lit ''file_path'']"

section \<open>Results that come later\<close>

type_synonym tool_outcome = "(error_data, call_tool_result) result"

record 'w tool_call_result =
  future :: "'w \<Rightarrow> 'w \<times> tool_outcome"
  notifications :: "json list"

definition ready :: "tool_outcome \<Rightarrow> 'w tool_call_result" where
  "ready r = \<lparr>future = (\<lambda>w. (w, r)), notifications = []\<rparr>"

text \<open>An error of the extension manager either carries an \<open>ErrorData\<close> or only prints.\<close>

datatype dispatch_failure = Downcast error_data | Printed str

record session =
  session_id :: str
  session_dir :: str

record ('w, 'r) dispatch_env =
  hooks_io :: "('w, 'r) hook_env"
  hooks :: "'r hook_manager"
  record_arguments :: "json_object option \<Rightarrow> str \<Rightarrow> 'w \<Rightarrow> 'w"
  manage_schedule :: "json_object \<Rightarrow> str \<Rightarrow> 'w \<Rightarrow> 'w \<times> (error_data, mcp_content list) result"
  final_output_call :: "call_params \<Rightarrow> 'w \<Rightarrow> ('w \<times> 'w tool_call_result) option"
  frontend_tools :: "'w \<Rightarrow> str set"
  extension_call :: "session \<Rightarrow> str \<Rightarrow> call_params \<Rightarrow> 'w \<Rightarrow> 'w \<times> (dispatch_failure, 'w tool_call_result) result"
  large_threshold :: "'w \<Rightarrow> nat"
  write_large_text :: "str \<Rightarrow> 'w \<Rightarrow> 'w \<times> (str, str) result"

definition PLATFORM_MANAGE_SCHEDULE_TOOL_NAME :: str where
  "PLATFORM_MANAGE_SCHEDULE_TOOL_NAME = lit ''platform__manage_schedule''"
definition FINAL_OUTPUT_TOOL_NAME :: str where
  "FINAL_OUTPUT_TOOL_NAME = lit ''recipe__final_output''"

section \<open>Large answers\<close>

definition plain_text :: "str \<Rightarrow> mcp_content" where
  "plain_text s = \<lparr>raw = RawText s, content_audience = None\<rparr>"

definition process_content :: "('w, 'r) dispatch_env \<Rightarrow> nat \<Rightarrow> mcp_content \<Rightarrow> 'w \<Rightarrow> 'w \<times> mcp_content" where
  "process_content env threshold c w = (case raw_as_text (raw c) of
     None \<Rightarrow> (w, c)
   | Some t \<Rightarrow>
       if threshold < length t then
         (case write_large_text env t w of
            (w', Ok path) \<Rightarrow> (w', plain_text
              (lit ''The response returned from the tool call was larger ('' @ show_nat (length t)
               @ lit '' characters) and is stored in the file which you can use other tools to examine or search in: ''
               @ path))
          | (w', Err e) \<Rightarrow> (w', plain_text
              (lit ''Warning: Failed to write large response to file: '' @ e
               @ lit ''. Showing full content instead.'' @ [newline, newline] @ t)))
       else (w, c))"

fun process_contents :: "('w, 'r) dispatch_env \<Rightarrow> nat \<Rightarrow> mcp_content list \<Rightarrow> 'w \<Rightarrow> 'w \<times> mcp_content list" where
  "process_contents env threshold [] w = (w, [])"
| "process_contents env threshold (c # cs) w =
     (let (w1, d) = process_content env threshold c w; (w2, ds) = process_contents env threshold cs w1
      in (w2, d # ds))"

definition process_tool_response :: "('w, 'r) dispatch_env \<Rightarrow> tool_outcome \<Rightarrow> 'w \<Rightarrow> 'w \<times> tool_outcome" where
  "process_tool_response env response w = (case response of
     Err e \<Rightarrow> (w, Err e)
   | Ok result \<Rightarrow> (case process_contents env (large_threshold env w) (result_content result) w of
       (w', cs) \<Rightarrow> (w', Ok (result\<lparr>result_content := cs\<rparr>))))"

section \<open>Hooks around a call\<close>

definition input_of :: "call_params \<Rightarrow> json option" where
  "input_of call = map_option JObject (arguments call)"

definition tool_context :: "hook_event \<Rightarrow> session \<Rightarrow> call_params \<Rightarrow> hook_context" where
  "tool_context e s call = with_working_dir (session_dir s)
     (with_tool (tool_name call) (input_of call) (new_context e (session_id s)))"

definition emit_with_matcher ::
    "('w, 'r) dispatch_env \<Rightarrow> hook_event \<Rightarrow> session \<Rightarrow> str \<Rightarrow> call_params \<Rightarrow> 'w \<Rightarrow> 'w" where
  "emit_with_matcher env e s matcher call w =
     (if has_hooks (hooks env) e
      then emit (hooks_io env) (hooks env) e ((tool_context e s call)\<lparr>matcher_context := Some matcher\<rparr>) w
      else w)"

definition emit_pre_tool_extended_hooks :: "('w, 'r) dispatch_env \<Rightarrow> session \<Rightarrow> call_params \<Rightarrow> 'w \<Rightarrow> 'w" where
  "emit_pre_tool_extended_hooks env s call w = (case categorize_tool (tool_name call) of
     ShellTool \<Rightarrow> (case extract_string_arg (input_of call) [lit ''command''] of
       Some cmd \<Rightarrow> emit_with_matcher env BeforeShellExecution s cmd call w | None \<Rightarrow> w)
   | ReadTool \<Rightarrow> (case extract_string_arg (input_of call) path_keys of
       Some path \<Rightarrow> emit_with_matcher env BeforeReadFile s path call w | None \<Rightarrow> w)
   | _ \<Rightarrow> w)"

definition succeeded :: "tool_outcome \<Rightarrow> bool" where
  "succeeded r = (case r of Ok c \<Rightarrow> is_error c \<noteq> Some True | Err _ \<Rightarrow> False)"

definition after_event :: "call_params \<Rightarrow> (hook_event \<times> str option) option" where
  "after_event call = (case categorize_tool (tool_name call) of
     ShellTool \<Rightarrow> Some (AfterShellExecution, extract_string_arg (input_of call) [lit ''command''])
   | WriteTool \<Rightarrow> Some (AfterFileEdit, extract_string_arg (input_of call) path_keys)
   | _ \<Rightarrow> None)"

definition run_post_hooks ::
    "('w, 'r) dispatch_env \<Rightarrow> session \<Rightarrow> call_params \<Rightarrow> tool_outcome \<Rightarrow> 'w \<Rightarrow> 'w" where
  "run_post_hooks env s call r w =
     (let e = (if succeeded r then PostToolUse else PostToolUseFailure);
          w1 = (if has_hooks (hooks env) e then emit (hooks_io env) (hooks env) e (tool_context e s call) w else w)
      in case (if succeeded r then after_event call else None) of
           Some (e', Some matcher) \<Rightarrow> emit_with_matcher env e' s matcher call w1
         | _ \<Rightarrow> w1)"

definition with_post_tool_hook ::
    "('w, 'r) dispatch_env \<Rightarrow> session \<Rightarrow> call_params \<Rightarrow> 'w tool_call_result \<Rightarrow> 'w tool_call_result" where
  "with_post_tool_hook env s call result = result\<lparr>future := (\<lambda>w.
     let (w1, r) = future result w; (w2, processed) = process_tool_response env r w1
     in (run_post_hooks env s call processed w2, processed))\<rparr>"

section \<open>Dispatch\<close>

definition hook_denial :: "str \<Rightarrow> str \<Rightarrow> error_data" where
  "hook_denial why plugin = \<lparr>err_code = INTERNAL_ERROR,
     err_message = lit ''Tool call denied by policy hook `'' @ plugin @ lit ''`: '' @ why
       @ lit ''. Do not retry; this is a policy denial, not a transient failure.'',
     err_data = None\<rparr>"

definition internal_error :: "str \<Rightarrow> error_data" where
  "internal_error m = \<lparr>err_code = INTERNAL_ERROR, err_message = m, err_data = None\<rparr>"

definition no_final_output :: error_data where
  "no_final_output = internal_error (lit ''Final output tool not defined'')"

text \<open>\<open>CallToolResult::success\<close>.\<close>

definition success_result :: "mcp_content list \<Rightarrow> call_tool_result" where
  "success_result cs = \<lparr>result_content = cs, structured_content = None, is_error = Some False, result_meta = None\<rparr>"

definition error_result :: "mcp_content list \<Rightarrow> call_tool_result" where
  "error_result cs = \<lparr>result_content = cs, structured_content = None, is_error = Some True, result_meta = None\<rparr>"

definition run_tool ::
    "('w, 'r) dispatch_env \<Rightarrow> session \<Rightarrow> str \<Rightarrow> call_params \<Rightarrow> 'w \<Rightarrow> 'w \<times> (error_data, 'w tool_call_result) result" where
  "run_tool env s i call w =
     (if tool_name call = PLATFORM_MANAGE_SCHEDULE_TOOL_NAME then
        (case manage_schedule env (case arguments call of Some a \<Rightarrow> a | None \<Rightarrow> []) i w of
           (w1, r) \<Rightarrow> (w1, Ok (with_post_tool_hook env s call (ready (map_sum id success_result r)))))
      else if tool_name call = FINAL_OUTPUT_TOOL_NAME then
        (case final_output_call env call w of
           None \<Rightarrow> (w, Err no_final_output)
         | Some (w1, r) \<Rightarrow> (w1, Ok (with_post_tool_hook env s call r)))
      else if tool_name call \<in> frontend_tools env w then
        (w, Ok (with_post_tool_hook env s call (ready (Err (internal_error (lit ''Frontend tool execution required''))))))
      else
        (case extension_call env s i call w of
           (w1, r) \<Rightarrow> (w1, Ok (with_post_tool_hook env s call (case r of
               Ok t \<Rightarrow> t
             | Err (Downcast e) \<Rightarrow> ready (Err e)
             | Err (Printed m) \<Rightarrow> ready (Err (internal_error m)))))))"

definition dispatch_tool_call ::
    "('w, 'r) dispatch_env \<Rightarrow> session \<Rightarrow> call_params \<Rightarrow> str \<Rightarrow> 'w \<Rightarrow>
     'w \<times> str \<times> (error_data, 'w tool_call_result) result" where
  "dispatch_tool_call env s call i w =
     (let w1 = record_arguments env (arguments call) (session_dir s) w;
          (w2, decision) = (if has_hooks (hooks env) PreToolUse
            then emit_blocking (hooks_io env) (hooks env) PreToolUse (tool_context PreToolUse s call) w1
            else (w1, HookAllow))
      in case decision of
           HookDeny why plugin \<Rightarrow> (w2, i, Err (hook_denial why plugin))
         | HookAllow \<Rightarrow> (case run_tool env s i call (emit_pre_tool_extended_hooks env s call w2) of
             (w3, r) \<Rightarrow> (w3, i, r)))"

section \<open>The calls of a turn\<close>

datatype 's agent_event =
    MessageEvent message
  | McpNotification str json
  | HistoryReplaced conversation
  | UsageEvent "'s provider_usage"

text \<open>
  What the run of the streams of a turn meets, one at a time: a stream's next item, a stream that finishes
  before its notifications are read, one that the governor stops after it has changed the world, or the
  world going on while all of them wait. A stream that runs alone is read to its end.
\<close>

datatype 'w choice = Deliver nat | Finish nat | TimeOut nat "'w \<Rightarrow> 'w" | Elapse "'w \<Rightarrow> 'w"

record ('w, 'r) turn_env =
  tools_io :: "('w, 'r) dispatch_env"
  turn_session :: session
  retry_var :: "str option"
  timeout_var :: "str option"
  cancel_token :: "('w \<Rightarrow> bool) option"
  sleep_for :: "'w \<Rightarrow> duration \<Rightarrow> 'w \<times> bool"
  now :: "'w \<Rightarrow> int"
  new_uuid :: "'w \<Rightarrow> 'w \<times> str"
  register_request :: "str \<Rightarrow> 'w \<Rightarrow> 'w \<times> nat"
  await_confirmation :: "nat \<Rightarrow> 'w \<Rightarrow> 'w \<times> permission_confirmation option"
  update_permission :: "str \<Rightarrow> permission_level \<Rightarrow> 'w \<Rightarrow> 'w"
  frontend_result :: "'w \<Rightarrow> 'w \<times> (str \<times> tool_outcome) option"
  drain_elicitation :: "'w \<Rightarrow> 'w \<times> message list"
  schedule :: "'w \<Rightarrow> 'w choice list"
  inspectors :: "'w tool_inspector list"
  unattended :: bool
  save_extension_state :: "'w \<Rightarrow> 'w"

definition token_cancelled :: "('w, 'r) turn_env \<Rightarrow> 'w \<Rightarrow> bool" where
  "token_cancelled env w = (case cancel_token env of None \<Rightarrow> False | Some c \<Rightarrow> c w)"

type_synonym 'w tool_futures = "(str \<times> 'w tool_call_result) list"
type_synonym responses = "str \<Rightarrow> message option"

definition answer :: "str \<Rightarrow> tool_outcome \<Rightarrow> json_object option \<Rightarrow> str \<Rightarrow> responses \<Rightarrow> responses" where
  "answer rid out md key m = (case m key of
     None \<Rightarrow> m | Some msg \<Rightarrow> m(key \<mapsto> add_tool_response_with_metadata rid out md msg))"

definition DECLINED_RESPONSE :: str where
  "DECLINED_RESPONSE = lit ''The user has declined to run this tool. DO NOT attempt to call this tool again. If there are no alternative methods to proceed, clearly explain the situation and STOP.''"

definition decline :: "tool_request \<Rightarrow> responses \<Rightarrow> responses" where
  "decline r m = answer (request_id r) (Ok (error_result [plain_text DECLINED_RESPONSE])) (request_metadata r) (request_id r) m"

definition handle_denied_tools :: "tool_request list \<Rightarrow> responses \<Rightarrow> responses" where
  "handle_denied_tools rs m = fold decline rs m"

definition as_future :: "str \<Rightarrow> (error_data, 'w tool_call_result) result \<Rightarrow> str \<times> 'w tool_call_result" where
  "as_future i r = (i, case r of Ok t \<Rightarrow> t | Err e \<Rightarrow> ready (Err e))"

text \<open>One attempt at a call, as the retry layer sees it, and an approved call with its retries.\<close>

definition dispatch_attempts ::
    "('w, 'r) turn_env \<Rightarrow> str \<Rightarrow> call_params \<Rightarrow> ('w, str \<times> 'w tool_call_result) retry_env" where
  "dispatch_attempts env i call = \<lparr>
     dispatch = (\<lambda>w. case dispatch_tool_call (tools_io env) (turn_session env) call i w of
       (w', j, r) \<Rightarrow> (w', map_sum id (Pair j) r)),
     cancelled = cancel_token env,
     sleep = sleep_for env\<rparr>"

definition dispatch_approved_call ::
    "('w, 'r) turn_env \<Rightarrow> str \<Rightarrow> call_params \<Rightarrow> 'w \<Rightarrow> 'w \<times> (str \<times> 'w tool_call_result)" where
  "dispatch_approved_call env i call w =
     (let run = with_tool_retry (retry_var env) (dispatch_attempts env i call) w
      in (world run, case outcome run of Ok (j, t) \<Rightarrow> (j, t) | Err e \<Rightarrow> as_future i (Err e)))"

fun dispatch_approved :: "('w, 'r) turn_env \<Rightarrow> tool_request list \<Rightarrow> 'w \<Rightarrow> 'w \<times> 'w tool_futures" where
  "dispatch_approved env [] w = (w, [])"
| "dispatch_approved env (r # rs) w = (case tool_call r of
     Err _ \<Rightarrow> dispatch_approved env rs w
   | Ok call \<Rightarrow> (let (w1, f) = dispatch_approved_call env (request_id r) call w;
                     (w2, fs) = dispatch_approved env rs w1
                 in (w2, f # fs)))"

definition handle_approved_and_denied_tools ::
    "('w, 'r) turn_env \<Rightarrow> permission_check_result \<Rightarrow> responses \<Rightarrow> 'w \<Rightarrow> 'w \<times> 'w tool_futures \<times> responses" where
  "handle_approved_and_denied_tools env p m w =
     (let (w', fs) = dispatch_approved env (approved p) w in (w', fs, handle_denied_tools (denied p) m))"

definition security_message :: "inspection_result list \<Rightarrow> str \<Rightarrow> str option" where
  "security_message results i = (case List.find (\<lambda>x. tool_request_id x = i) results of
     Some x \<Rightarrow> (case action x of RequireApproval msg \<Rightarrow> msg | _ \<Rightarrow> None)
   | None \<Rightarrow> None)"

definition action_required_message ::
    "int \<Rightarrow> inspection_result list \<Rightarrow> tool_request \<Rightarrow> call_params \<Rightarrow> message" where
  "action_required_message t results r call = message_user_only
     (with_action_required (request_id r) (tool_name call)
       (case arguments call of Some a \<Rightarrow> a | None \<Rightarrow> []) (security_message results (request_id r))
       (message_assistant t))"

definition channel_closed :: "str \<Rightarrow> str" where
  "channel_closed i = lit ''Confirmation channel closed for request '' @ i"

type_synonym 'w confirm_state = "'w tool_futures \<times> responses"

text \<open>The user's word on one call: run it, or answer that it was declined; both may be remembered.\<close>

definition apply_confirmation ::
    "('w, 'r) turn_env \<Rightarrow> tool_request \<Rightarrow> call_params \<Rightarrow> permission \<Rightarrow> 'w confirm_state \<Rightarrow> 'w \<Rightarrow> 'w \<times> 'w confirm_state" where
  "apply_confirmation env r call p st w =
     (if p = AllowOnce \<or> p = PermAlwaysAllow then
        (case dispatch_tool_call (tools_io env) (turn_session env) call (request_id r) w of
           (w1, i, res) \<Rightarrow>
             (if p = PermAlwaysAllow then update_permission env (tool_name call) AlwaysAllow w1 else w1,
              fst st @ [as_future i res], snd st))
      else
        (if p = AlwaysDeny then update_permission env (tool_name call) NeverAllow w else w,
         fst st, decline r (snd st)))"

definition handle_approval_request ::
    "('w, 'r) turn_env \<Rightarrow> inspection_result list \<Rightarrow> tool_request \<Rightarrow> 'w confirm_state \<Rightarrow>
     ('w, 's agent_event, 'w confirm_state) act" where
  "handle_approval_request env results r st = (case tool_call r of
     Err _ \<Rightarrow> ret st
   | Ok call \<Rightarrow>
       and_then (lift (register_request env (request_id r))) (\<lambda>ch.
       and_then (look (now env)) (\<lambda>t.
       and_then (yield (MessageEvent (action_required_message t results r call))) (\<lambda>_.
       and_then (lift (await_confirmation env ch)) (\<lambda>c. case c of
         None \<Rightarrow> fail (channel_closed (request_id r))
       | Some c \<Rightarrow> lift (apply_confirmation env r call (granted_permission c) st))))))"

definition handle_approval_tool_requests ::
    "('w, 'r) turn_env \<Rightarrow> inspection_result list \<Rightarrow> tool_request list \<Rightarrow> 'w confirm_state \<Rightarrow>
     ('w, 's agent_event, 'w confirm_state) act" where
  "handle_approval_tool_requests env results rs st = each (handle_approval_request env results) rs st"

definition handle_frontend_tool_request ::
    "('w, 'r) turn_env \<Rightarrow> tool_request \<Rightarrow> responses \<Rightarrow> ('w, 's agent_event, responses) act" where
  "handle_frontend_tool_request env r m = (case tool_call r of
     Err _ \<Rightarrow> ret m
   | Ok call \<Rightarrow>
       and_then (look (frontend_tools (tools_io env))) (\<lambda>frontend.
       if tool_name call \<notin> frontend then ret m
       else and_then (look (now env)) (\<lambda>t.
            and_then (yield (MessageEvent (with_frontend_tool_request (request_id r) (Ok call) (message_assistant t)))) (\<lambda>_.
            and_then (lift (frontend_result env)) (\<lambda>got. ret (case got of
              None \<Rightarrow> m
            | Some (i, out) \<Rightarrow> answer i out (request_metadata r) (request_id r) m))))))"

section \<open>Running the streams\<close>

definition TIMEOUT_MESSAGE :: str where
  "TIMEOUT_MESSAGE = lit ''tool exceeded BHARATCODE_TOOL_TIMEOUT_SECS''"

definition timeout_error :: error_data where
  "timeout_error = internal_error TIMEOUT_MESSAGE"

definition per_tool_timeout :: "str option \<Rightarrow> duration option" where
  "per_tool_timeout var = (case Option.bind var (\<lambda>s. parse_unsigned U64_MAX (trim s)) of
     Some secs \<Rightarrow> if 0 < secs then Some (from_secs secs) else None
   | None \<Rightarrow> None)"

text \<open>What the results of a turn change: the answers, and whether an extension request failed.\<close>

type_synonym turn_results = "responses \<times> bool"

definition platform_notification :: "tool_outcome \<Rightarrow> json option" where
  "platform_notification out = (case out of
     Err _ \<Rightarrow> None
   | Ok r \<Rightarrow> Option.bind (result_meta r) (\<lambda>meta.
       Option.bind (map_of meta (lit ''platform_notification'')) (\<lambda>d.
       Option.bind (Option.bind (json_get d (lit ''method'')) json_as_str) (\<lambda>method.
         Some (JObject ((lit ''method'', JString method)
           # (case json_get d (lit ''params'') of None \<Rightarrow> [] | Some ps \<Rightarrow> [(lit ''params'', ps)])))))))"

definition take_result ::
    "str set \<Rightarrow> (str \<Rightarrow> json_object option) \<Rightarrow> str \<Rightarrow> tool_outcome \<Rightarrow> turn_results \<Rightarrow> ('w, 's agent_event, turn_results) act" where
  "take_result installs md i out st =
     and_then (yield_all (case platform_notification out of None \<Rightarrow> [] | Some n \<Rightarrow> [McpNotification i n])) (\<lambda>_.
     ret (answer i out (md i) i (fst st), snd st \<and> \<not> (i \<in> installs \<and> \<not> is_ok out)))"

definition drop_nth :: "nat \<Rightarrow> 'a list \<Rightarrow> 'a list" where
  "drop_nth i xs = take i xs @ drop (Suc i) xs"

definition next_choice :: "'w choice list \<Rightarrow> 'w choice \<times> 'w choice list" where
  "next_choice cs = (case cs of [] \<Rightarrow> (Deliver 0, []) | c # cs' \<Rightarrow> (c, cs'))"

definition work_left :: "'w choice list \<Rightarrow> 'w tool_futures \<Rightarrow> nat" where
  "work_left cs fs = length cs + sum_list (map (\<lambda>f. Suc (length (notifications (snd f)))) fs)"

text \<open>The stream \<open>i\<close> ends with \<open>out\<close>: its result is taken and the stream leaves the list.\<close>

function run_streams ::
    "('w, 'r) turn_env \<Rightarrow> str set \<Rightarrow> (str \<Rightarrow> json_object option) \<Rightarrow> 'w choice list \<Rightarrow> 'w tool_futures \<Rightarrow>
     turn_results \<Rightarrow> ('w, 's agent_event, turn_results) act" where
  "run_streams env installs md cs fs st =
     and_then (look (token_cancelled env)) (\<lambda>stop.
     if stop then ret st
     else and_then (lift (drain_elicitation env)) (\<lambda>ms.
       and_then (yield_all (map MessageEvent ms)) (\<lambda>_.
       if fs = [] then ret st
       else (case next_choice cs of
         (Elapse f, cs') \<Rightarrow> and_then (change f) (\<lambda>_. run_streams env installs md cs' fs st)
       | (TimeOut i f, cs') \<Rightarrow>
           (if per_tool_timeout (timeout_var env) = None then run_streams env installs md cs' fs st
            else let i = i mod length fs in
              and_then (change f) (\<lambda>_.
              and_then (take_result installs md (fst (fs ! i)) (Err timeout_error) st) (\<lambda>st'.
              run_streams env installs md cs' (drop_nth i fs) st')))
       | (Finish i, cs') \<Rightarrow> (let i = i mod length fs in
              and_then (lift (future (snd (fs ! i)))) (\<lambda>out.
              and_then (take_result installs md (fst (fs ! i)) out st) (\<lambda>st'.
              run_streams env installs md cs' (drop_nth i fs) st')))
       | (Deliver i, cs') \<Rightarrow> (let i = i mod length fs in
           case notifications (snd (fs ! i)) of
             n # ns \<Rightarrow> and_then (yield (McpNotification (fst (fs ! i)) n)) (\<lambda>_.
               run_streams env installs md cs'
                 (fs[i := (fst (fs ! i), (snd (fs ! i))\<lparr>notifications := ns\<rparr>)]) st)
           | [] \<Rightarrow> and_then (lift (future (snd (fs ! i)))) (\<lambda>out.
              and_then (take_result installs md (fst (fs ! i)) out st) (\<lambda>st'.
              run_streams env installs md cs' (drop_nth i fs) st')))))))"
  by pat_completeness auto

lemma work_left_drop: "i < length fs \<Longrightarrow> work_left cs (drop_nth i fs) < work_left cs fs"
proof -
  assume i: "i < length fs"
  have "fs = take i fs @ fs ! i # drop (Suc i) fs" using i by (rule id_take_nth_drop)
  then have "work_left cs fs = work_left cs (take i fs @ fs ! i # drop (Suc i) fs)" by simp
  then show ?thesis by (simp add: work_left_def drop_nth_def)
qed

lemma work_left_read:
  "i < length fs \<Longrightarrow> notifications (snd (fs ! i)) = n # ns \<Longrightarrow>
   work_left cs (fs[i := (j, (snd (fs ! i))\<lparr>notifications := ns\<rparr>)]) < work_left cs fs"
proof -
  assume i: "i < length fs" "notifications (snd (fs ! i)) = n # ns"
  have "fs = take i fs @ fs ! i # drop (Suc i) fs" using i(1) by (rule id_take_nth_drop)
  then have "work_left cs fs = work_left cs (take i fs @ fs ! i # drop (Suc i) fs)" by simp
  then show ?thesis using i by (simp add: work_left_def upd_conv_take_nth_drop)
qed

lemma next_choice_work: "next_choice cs = (c, cs') \<Longrightarrow> work_left cs' fs \<le> work_left cs fs"
  by (auto simp: next_choice_def work_left_def split: list.splits)

lemma next_choice_strict: "next_choice cs = (c, cs') \<Longrightarrow> \<forall>i. c \<noteq> Deliver i \<Longrightarrow> work_left cs' fs < work_left cs fs"
  by (auto simp: next_choice_def work_left_def split: list.splits)

lemma choice_work_drop:
  "(c, cs') = next_choice cs \<Longrightarrow> fs \<noteq> [] \<Longrightarrow> work_left cs' (drop_nth (i mod length fs) fs) < work_left cs fs"
  by (rule less_le_trans [OF work_left_drop next_choice_work]) (auto dest: sym)

lemma choice_work_read:
  "(c, cs') = next_choice cs \<Longrightarrow> fs \<noteq> [] \<Longrightarrow> notifications (snd (fs ! (i mod length fs))) = n # ns \<Longrightarrow>
   work_left cs' (fs[i mod length fs := (j, (snd (fs ! (i mod length fs)))\<lparr>notifications := ns\<rparr>)]) < work_left cs fs"
  by (rule less_le_trans [OF work_left_read next_choice_work]) (auto dest: sym)

lemma choice_work_wait:
  "(c, cs') = next_choice cs \<Longrightarrow> \<forall>i. c \<noteq> Deliver i \<Longrightarrow> work_left cs' fs < work_left cs fs"
  by (rule next_choice_strict) auto

termination run_streams
  by (relation "measure (\<lambda>(env, installs, md, cs, fs, st). work_left cs fs)")
     (simp_all add: choice_work_drop choice_work_read choice_work_wait)

declare run_streams.simps [simp del]

section \<open>The calls for the agent\<close>

definition decide_permissions ::
    "('w, 'r) turn_env \<Rightarrow> inspection_result list \<Rightarrow> tool_request list \<Rightarrow> permission_check_result" where
  "decide_permissions env results reqs =
     (let p = (if list_ex (\<lambda>i. inspector i = permission_name) (inspectors env)
        then process_inspection_results reqs results
        else \<lparr>approved = [], needs_approval = reqs, denied = []\<rparr>)
      in if unattended env then deny_unattended_approvals p else p)"

definition extension_request_ids :: "tool_request list \<Rightarrow> str list" where
  "extension_request_ids reqs = map request_id (filter (\<lambda>r. case tool_call r of
     Ok c \<Rightarrow> tool_name c = MANAGE_EXTENSIONS_TOOL_NAME_COMPLETE | Err _ \<Rightarrow> False) reqs)"

text \<open>After the dispatch of what was approved: the user is asked, the streams run, extensions are saved.\<close>

definition confirm_and_run ::
    "('w, 'r) turn_env \<Rightarrow> inspection_result list \<Rightarrow> (str \<Rightarrow> json_object option) \<Rightarrow> str list \<Rightarrow> tool_request list \<Rightarrow>
     'w confirm_state \<Rightarrow> ('w, 's agent_event, responses \<times> bool) act" where
  "confirm_and_run env results md installs asked st =
     and_then (handle_approval_tool_requests env results asked st) (\<lambda>st.
     and_then (look (schedule env)) (\<lambda>cs.
     and_then (run_streams env (set installs) md cs (fst st) (snd st, True)) (\<lambda>res.
     and_then (lift (drain_elicitation env)) (\<lambda>ms.
     and_then (yield_all (map MessageEvent ms)) (\<lambda>_.
     if snd res \<and> installs \<noteq> []
     then and_then (change (save_extension_state env)) (\<lambda>_. ret (fst res, True))
     else ret (fst res, False))))))"

text \<open>The run of the calls in a mode other than chat: the answers, and whether the tools have changed.\<close>

definition run_remaining ::
    "('w, 'r) turn_env \<Rightarrow> goose_mode \<Rightarrow> message list \<Rightarrow> (str \<Rightarrow> json_object option) \<Rightarrow> tool_request list \<Rightarrow>
     responses \<Rightarrow> ('w, 's agent_event, responses \<times> bool) act" where
  "run_remaining env mode msgs md reqs m =
     and_then (lift (\<lambda>w. inspect_tools (inspectors env) w reqs msgs mode)) (\<lambda>results.
     let p = decide_permissions env results reqs in
     and_then (lift (handle_approved_and_denied_tools env p m)) (\<lambda>st.
     confirm_and_run env results md (extension_request_ids reqs) (needs_approval p) st))"

definition CHAT_MODE_TOOL_SKIPPED_RESPONSE :: str where
  "CHAT_MODE_TOOL_SKIPPED_RESPONSE =
     lit ''Let the user know the tool call was skipped in bharatcode chat mode. DO NOT apologize for skipping the tool call. DO NOT say sorry. Provide an explanation of what the tool call would do, structured as a plan for the user. Again, DO NOT apologize. **Example Plan:**'' @ [newline]
     @ lit '' 1. **Identify Task Scope** - Determine the purpose and expected outcome.'' @ [newline]
     @ lit '' 2. **Outline Steps** - Break down the steps.'' @ [newline]
     @ lit '' If needed, adjust the explanation based on user preferences or questions.''"

definition skip_in_chat :: "tool_request \<Rightarrow> responses \<Rightarrow> responses" where
  "skip_in_chat r m = answer (request_id r) (Ok (success_result [plain_text CHAT_MODE_TOOL_SKIPPED_RESPONSE]))
     (request_metadata r) (request_id r) m"

section \<open>Every stream answers its call\<close>

definition answers :: "responses \<Rightarrow> str \<Rightarrow> nat" where
  "answers m i = (case m i of None \<Rightarrow> 0
     | Some msg \<Rightarrow> length (filter (\<lambda>c. response_id_of c = Some i) (content msg)))"

lemma answer_dom [simp]: "dom (answer i out md key m) = dom m"
  by (auto simp: answer_def split: option.splits)

lemma answers_answer [simp]:
  "answers (answer i out md i m) j = answers m j + (if j = i \<and> i \<in> dom m then 1 else 0)"
  by (auto simp: answers_def answer_def add_tool_response_with_metadata_def with_content_def
      mk_tool_response_with_metadata_def split: option.splits)

text \<open>
  From \<open>st\<close> the streams \<open>fs\<close> lead to \<open>st'\<close>: each adds at most one answer to its call, exactly one unless
  the run is cut short.
\<close>

definition answered_at :: "bool \<Rightarrow> 'w tool_futures \<Rightarrow> responses \<Rightarrow> responses \<Rightarrow> str \<Rightarrow> bool" where
  "answered_at whole fs m m' i = (answers m i \<le> answers m' i
     \<and> answers m' i \<le> answers m i + count_list (map fst fs) i
     \<and> (whole \<longrightarrow> answers m' i = answers m i + count_list (map fst fs) i))"

definition answered :: "bool \<Rightarrow> 'w tool_futures \<Rightarrow> turn_results \<Rightarrow> turn_results \<Rightarrow> bool" where
  "answered whole fs st st' = (dom (fst st') = dom (fst st)
     \<and> (\<forall>i \<in> dom (fst st). answered_at whole fs (fst st) (fst st') i))"

lemma answered_stop: "\<not> whole \<or> fs = [] \<Longrightarrow> answered whole fs st st"
  by (auto simp: answered_def answered_at_def)

lemma count_drop_nth:
  "n < length fs \<Longrightarrow> count_list (map fst fs) j = count_list (map fst (drop_nth n fs)) j + (if fst (fs ! n) = j then 1 else 0)"
proof -
  assume n: "n < length fs"
  have "fs = take n fs @ fs ! n # drop (Suc n) fs" using n by (rule id_take_nth_drop)
  then have "count_list (map fst fs) j = count_list (map fst (take n fs @ fs ! n # drop (Suc n) fs)) j" by simp
  then show ?thesis by (simp add: drop_nth_def del: append_take_drop_id)
qed

lemma answered_one:
  assumes "n < length fs"
    "answered whole (drop_nth n fs) (answer (fst (fs ! n)) out md (fst (fs ! n)) (fst st), ok) st'"
  shows "answered whole fs st st'"
proof -
  have "answered_at whole fs (fst st) (fst st') i" if "i \<in> dom (fst st)" for i
  proof -
    let ?m = "answer (fst (fs ! n)) out md (fst (fs ! n)) (fst st)"
    have "answered_at whole (drop_nth n fs) ?m (fst st') i"
      using assms(2) that by (simp add: answered_def)
    then show ?thesis
      using assms(1) that count_drop_nth [of n fs i]
      by (cases "fst (fs ! n) = i") (simp_all add: answered_at_def)
  qed
  with assms show ?thesis by (simp add: answered_def)
qed

lemma answered_read:
  assumes "n < length fs" "answered whole (fs[n := (fst (fs ! n), t)]) st st'"
  shows "answered whole fs st st'"
proof -
  have "map fst (fs[n := (fst (fs ! n), t)]) = map fst fs"
    using assms(1) by (simp add: map_update list_update_same_conv)
  with assms(2) show ?thesis by (simp add: answered_def answered_at_def)
qed

lemma look_returns: "returns (look f) (\<lambda>x. \<exists>w. x = f w)"
  by (auto simp: returns_def look_def)

lemma take_result_returns:
  "returns (take_result installs md i out st) (\<lambda>st'. \<exists>ok. st' = (answer i out (md i) i (fst st), ok))"
  by (auto simp: take_result_def intro!: returns_then)

lemma run_streams_answered:
  fixes env :: "('w, 'r) turn_env"
  assumes whole: "whole \<longrightarrow> (\<forall>w. \<not> token_cancelled env w)"
  shows "returns (run_streams env installs md cs fs st :: ('w, 's agent_event, turn_results) act) (answered whole fs st)"
proof (induction "work_left cs fs" arbitrary: cs fs st rule: less_induct)
  case less
  obtain c cs' where c: "next_choice cs = (c, cs')" by fastforce
  note c' = c [symmetric]
  have ended: "returns (and_then (take_result installs md (fst (fs ! n)) out st)
      (run_streams env installs md cs' (drop_nth n fs)) :: ('w, 's agent_event, turn_results) act) (answered whole fs st)"
    if "n = i mod length fs" "fs \<noteq> []" for n i out
  proof (rule returns_and_then [OF take_result_returns])
    fix st' :: turn_results
    assume "\<exists>ok. st' = (answer (fst (fs ! n)) out (md (fst (fs ! n))) (fst (fs ! n)) (fst st), ok)"
    then obtain ok where st': "st' = (answer (fst (fs ! n)) out (md (fst (fs ! n))) (fst (fs ! n)) (fst st), ok)" ..
    have n: "n < length fs" using that by simp
    have "returns (run_streams env installs md cs' (drop_nth n fs) st' :: ('w, 's agent_event, turn_results) act) (answered whole (drop_nth n fs) st')"
      unfolding that(1) by (rule less [OF choice_work_drop [OF c' that(2)]])
    then show "returns (run_streams env installs md cs' (drop_nth n fs) st' :: ('w, 's agent_event, turn_results) act)
        (answered whole fs st)"
      by (rule returns_mono) (use n in \<open>auto simp: st' intro: answered_one\<close>)
  qed
  have read: "returns (run_streams env installs md cs'
      (fs[n := (fst (fs ! n), (snd (fs ! n))\<lparr>notifications := ns\<rparr>)]) st :: ('w, 's agent_event, turn_results) act) (answered whole fs st)"
    if "n = i mod length fs" "fs \<noteq> []" "notifications (snd (fs ! n)) = m # ns" for n i m ns
  proof -
    have n: "n < length fs" using that by simp
    have "returns (run_streams env installs md cs'
        (fs[n := (fst (fs ! n), (snd (fs ! n))\<lparr>notifications := ns\<rparr>)]) st :: ('w, 's agent_event, turn_results) act)
        (answered whole (fs[n := (fst (fs ! n), (snd (fs ! n))\<lparr>notifications := ns\<rparr>)]) st)"
      using that unfolding that(1) by (intro less choice_work_read [OF c']) auto
    then show ?thesis by (rule returns_mono) (rule answered_read [OF n])
  qed
  have wait: "returns (run_streams env installs md cs' fs st :: ('w, 's agent_event, turn_results) act) (answered whole fs st)" if "\<forall>i. c \<noteq> Deliver i"
    using less [OF choice_work_wait [OF c' that]] .
  have ended_after: "returns (and_then m (\<lambda>out. and_then (take_result installs md (fst (fs ! (i mod length fs))) out st)
      (run_streams env installs md cs' (drop_nth (i mod length fs) fs))) :: ('w, 's agent_event, turn_results) act)
      (answered whole fs st)" if "fs \<noteq> []" for m :: "('w, 's agent_event, tool_outcome) act" and i
    by (rule returns_then, rule ended [OF refl that])
  have timed_after: "returns (and_then m (\<lambda>_. and_then (take_result installs md (fst (fs ! (i mod length fs))) out st)
      (run_streams env installs md cs' (drop_nth (i mod length fs) fs))) :: ('w, 's agent_event, turn_results) act)
      (answered whole fs st)" if "fs \<noteq> []" for m :: "('w, 's agent_event, unit) act" and i out
    by (rule returns_then, rule ended [OF refl that])
  have read_after: "returns (and_then m (\<lambda>_. run_streams env installs md cs'
      (fs[i mod length fs := (fst (fs ! (i mod length fs)), (snd (fs ! (i mod length fs)))\<lparr>notifications := ns\<rparr>)]) st)
      :: ('w, 's agent_event, turn_results) act) (answered whole fs st)"
    if "fs \<noteq> []" "notifications (snd (fs ! (i mod length fs))) = n # ns" for m :: "('w, 's agent_event, unit) act" and i n ns
    by (rule returns_then, rule read [OF refl that])
  have wait_after: "returns (and_then m (\<lambda>_. run_streams env installs md cs' fs st)
      :: ('w, 's agent_event, turn_results) act) (answered whole fs st)"
    if "\<forall>i. c \<noteq> Deliver i" for m :: "('w, 's agent_event, unit) act"
    by (rule returns_then, rule wait [OF that])
  show ?case
    by (subst run_streams.simps, rule returns_and_then [OF look_returns], intro returns_if returns_then)
       (use whole in \<open>auto simp: c Let_def ended_after timed_after read_after wait_after wait
         intro!: answered_stop split: list.split choice.split\<close>)
qed

section \<open>Which calls are dispatched\<close>

lemma dispatch_tool_call_id [simp]: "fst (snd (dispatch_tool_call env s call i w)) = i"
  by (auto simp: dispatch_tool_call_def Let_def split: prod.splits hook_decision.splits)

text \<open>The shape of a run with retries: an attempt that ends it, or one that is retried.\<close>

lemma retry_loop_runs [consumes 0, case_names succeeds fails again]:
  assumes succeeds: "\<And>i w w1 v. dispatch env w = (w1, Ok v) \<Longrightarrow>
      P i w \<lparr>outcome = Ok v, world = w1, retried = [], slept = []\<rparr>"
    and fails: "\<And>i w w1 e w2 ds. dispatch env w = (w1, Err e) \<Longrightarrow>
      P i w \<lparr>outcome = Err e, world = w2, retried = [], slept = ds\<rparr>"
    and again: "\<And>i w w1 e w2 d r. dispatch env w = (w1, Err e) \<Longrightarrow> classify e = Retryable \<Longrightarrow> P (i + 1) w2 r \<Longrightarrow>
      P i w (r\<lparr>retried := e # retried r, slept := d # slept r\<rparr>)"
  shows "P i w (retry_loop env p i w)"
proof (induction "attempts p - i" arbitrary: i w rule: less_induct)
  case less
  obtain w1 res where d: "dispatch env w = (w1, res)" by force
  show ?case
  proof (cases res)
    case (Inr v)
    with d succeeds show ?thesis by (simp add: retry_loop.simps [of env p i w])
  next
    case (Inl e)
    obtain w2 b where wt: "wait env w1 (backoff_for p i) = (w2, b)" by force
    show ?thesis
    proof (cases "is_off p \<or> attempts p \<le> i + 1 \<or> classify e = Terminal \<or> is_cancelled env w1 \<or> b")
      case True
      with d Inl wt fails [of w w1 e i] show ?thesis
        by (auto simp: retry_loop.simps [of env p i w] Let_def)
    next
      case False
      moreover from this have "classify e = Retryable" by (cases "classify e") auto
      moreover from False have "P (i + 1) w2 (retry_loop env p (i + 1) w2)" by (intro less) auto
      ultimately show ?thesis
        using again [of w w1 e i w2 "retry_loop env p (i + 1) w2"] d Inl wt
        by (simp add: retry_loop.simps [of env p i w] Let_def)
    qed
  qed
qed

text \<open>What the retry layer retries are failures of the attempts, and what it returns was returned by one.\<close>

lemma retried_failures:
  assumes "\<And>w w1 e. dispatch env w = (w1, Err e) \<Longrightarrow> classify e = Retryable \<Longrightarrow> e \<in> E"
  shows "set (retried (retry_loop env p i w)) \<subseteq> E"
  by (rule retry_loop_runs [of env "\<lambda>i w r. set (retried r) \<subseteq> E"]) (use assms in auto)

lemma retry_outcome:
  assumes "\<And>w w1 v. dispatch env w = (w1, Ok v) \<Longrightarrow> Q v"
  shows "case outcome (retry_loop env p i w) of Ok v \<Rightarrow> Q v | Err e \<Rightarrow> True"
  by (rule retry_loop_runs [of env "\<lambda>i w r. case outcome r of Ok v \<Rightarrow> Q v | Err e \<Rightarrow> True"]) (use assms in auto)

lemma dispatch_approved_call_id [simp]: "fst (snd (dispatch_approved_call env i call w)) = i"
proof -
  have "case outcome (with_tool_retry (retry_var env) (dispatch_attempts env i call) w) of
      Ok v \<Rightarrow> fst v = i | Err e \<Rightarrow> True"
    unfolding with_tool_retry_def with_tool_retry_policy_def
  proof (rule retry_outcome)
    fix w w1 v
    assume "dispatch (dispatch_attempts env i call) w = (w1, Ok v)"
    moreover obtain w2 j r where
      "dispatch_tool_call (tools_io env) (turn_session env) call i w = (w2, j, r)" by (metis prod_cases3)
    moreover from this have "j = i" by (metis dispatch_tool_call_id fst_conv snd_conv)
    ultimately show "fst v = i" by (cases r) (auto simp: dispatch_attempts_def)
  qed
  then show ?thesis
    by (auto simp: dispatch_approved_call_def Let_def as_future_def split: sum.splits)
qed

lemma hook_denial_terminal: "classify (hook_denial why plugin) = Terminal"
proof -
  have "err_message (hook_denial why plugin) = lit ''Tool call '' @ POLICY_DENY_MARKER @ (lit '' `'' @ plugin
      @ lit ''`: '' @ why @ lit ''. Do not retry; this is a policy denial, not a transient failure.'')"
    by (simp add: hook_denial_def POLICY_DENY_MARKER_def)
  then have "contains_str (err_message (hook_denial why plugin)) POLICY_DENY_MARKER"
    by (simp only: contains_place)
  then show ?thesis by (simp add: classify_def)
qed

lemma failed_attempt:
  "dispatch (dispatch_attempts env i call) w = (w', Err e) \<Longrightarrow>
   e = no_final_output \<or> (\<exists>why plugin. e = hook_denial why plugin)"
  by (auto simp: dispatch_attempts_def dispatch_tool_call_def run_tool_def Let_def
      split: prod.splits hook_decision.splits sum.splits if_splits option.splits)

definition parsed :: "tool_request \<Rightarrow> bool" where
  "parsed r = is_ok (tool_call r)"

lemma dispatch_approved_ids: "map fst (snd (dispatch_approved env rs w)) = map request_id (filter parsed rs)"
proof (induction rs arbitrary: w)
  case (Cons r rs)
  then show ?case
    by (auto simp: parsed_def Let_def case_prod_beta split: sum.split)
qed simp

text \<open>
  C4. A call that a policy hook denies does not run: whatever the retry setting, an approved call whose
  \<open>PreToolUse\<close> hook denies it is answered with the denial after one attempt, and the world is as the
  hooks left it, no tool having been reached.
\<close>

theorem denied_call_not_run:
  assumes "has_hooks (hooks (tools_io env)) PreToolUse"
    and "emit_blocking (hooks_io (tools_io env)) (hooks (tools_io env)) PreToolUse
           (tool_context PreToolUse (turn_session env) call)
           (record_arguments (tools_io env) (arguments call) (session_dir (turn_session env)) w)
         = (w', HookDeny why plugin)"
  shows "dispatch_approved_call env i call w = (w', i, ready (Err (hook_denial why plugin)))"
proof -
  have "classify (hook_denial why plugin) = Terminal" by (rule hook_denial_terminal)
  moreover have "dispatch (dispatch_attempts env i call) w = (w', Err (hook_denial why plugin))"
    using assms by (simp add: dispatch_attempts_def dispatch_tool_call_def Let_def)
  ultimately show ?thesis
    by (simp add: dispatch_approved_call_def with_tool_retry_def with_tool_retry_policy_def
      retry_loop.simps [of _ _ 0] as_future_def)
qed

text \<open>
  C24. The retry of a tool call never retries a tool: an attempt fails, for the retry layer, only where a
  policy hook denies it or no final output tool is defined, since the failures of a tool or of its
  transport are inside the result of a successful dispatch; so the only error ever retried is the missing
  final output tool.
\<close>

theorem retry_never_reaches_a_tool:
  "set (retried (with_tool_retry (retry_var env) (dispatch_attempts env i call) w)) \<subseteq> {no_final_output}"
  unfolding with_tool_retry_def with_tool_retry_policy_def
proof (rule retried_failures)
  fix w w1 e
  assume "dispatch (dispatch_attempts env i call) w = (w1, Err e)" "classify e = Retryable"
  then show "e \<in> {no_final_output}"
    using failed_attempt [of env i call w w1 e] hook_denial_terminal by auto
qed

section \<open>Every call is answered\<close>

text \<open>The ids of the calls, of those in a list that could be read.\<close>

definition call_ids :: "tool_request list \<Rightarrow> str list" where
  "call_ids rs = map request_id (filter parsed rs)"

text \<open>Answers given and answers still to come, for one call.\<close>

definition due :: "'w confirm_state \<Rightarrow> str \<Rightarrow> nat" where
  "due st i = answers (snd st) i + count_list (map fst (fst st)) i"

lemma decline_answers [simp]:
  "dom (decline r m) = dom m"
  "answers (decline r m) i = answers m i + (if i = request_id r \<and> request_id r \<in> dom m then 1 else 0)"
  by (simp_all add: decline_def)

lemma handle_denied_answers:
  "dom (handle_denied_tools rs m) = dom m \<and>
   (i \<in> dom m \<longrightarrow> answers (handle_denied_tools rs m) i = answers m i + count_list (map request_id rs) i)"
  by (induction rs arbitrary: m) (auto simp: handle_denied_tools_def)

lemma apply_confirmation_due:
  fixes env :: "('w, 'r) turn_env"
  assumes r: "tool_call r = Ok call"
  shows "dom (snd (snd (apply_confirmation env r call p st w))) = dom (snd st) \<and>
    (\<forall>i \<in> dom (snd st). due (snd (apply_confirmation env r call p st w)) i
       = due st i + (if i = request_id r then 1 else 0))"
proof -
  obtain w1 j res where d: "dispatch_tool_call (tools_io env) (turn_session env) call (request_id r) w = (w1, j, res)"
    by (metis prod_cases3)
  then have j: "j = request_id r" by (metis dispatch_tool_call_id fst_conv snd_conv)
  show ?thesis
    by (cases "p = AllowOnce \<or> p = PermAlwaysAllow") (simp_all add: apply_confirmation_def d j due_def as_future_def)
qed

lemma handle_approval_due:
  "returns (handle_approval_request env results r st :: ('w, 's agent_event, 'w confirm_state) act)
     (\<lambda>st'. dom (snd st') = dom (snd st)
       \<and> (\<forall>i \<in> dom (snd st). due st' i = due st i + count_list (call_ids [r]) i))"
proof (cases "tool_call r")
  case (Inl e)
  then show ?thesis by (simp add: handle_approval_request_def call_ids_def parsed_def)
next
  case (Inr call)
  have "returns (lift (apply_confirmation env r call p st) :: ('w, 's agent_event, 'w confirm_state) act)
     (\<lambda>st'. dom (snd st') = dom (snd st)
       \<and> (\<forall>i \<in> dom (snd st). due st' i = due st i + (if i = request_id r then 1 else 0)))" for p
    by (rule returns_lift) (rule apply_confirmation_due [OF Inr])
  then have "returns ((case c of None \<Rightarrow> fail (channel_closed (request_id r))
      | Some c \<Rightarrow> lift (apply_confirmation env r call (granted_permission c) st)) :: ('w, 's agent_event, 'w confirm_state) act)
     (\<lambda>st'. dom (snd st') = dom (snd st)
       \<and> (\<forall>i \<in> dom (snd st). due st' i = due st i + (if i = request_id r then 1 else 0)))" for c
    by (cases c) simp_all
  then have "returns (handle_approval_request env results r st :: ('w, 's agent_event, 'w confirm_state) act)
     (\<lambda>st'. dom (snd st') = dom (snd st)
       \<and> (\<forall>i \<in> dom (snd st). due st' i = due st i + (if i = request_id r then 1 else 0)))"
    unfolding handle_approval_request_def Inr sum.case by (intro returns_then)
  then show ?thesis
    by (rule returns_mono) (simp add: call_ids_def parsed_def Inr eq_commute)
qed

lemma handle_approvals_due:
  "returns (handle_approval_tool_requests env results rs st :: ('w, 's agent_event, 'w confirm_state) act)
     (\<lambda>st'. dom (snd st') = dom (snd st)
       \<and> (\<forall>i \<in> dom (snd st). due st' i = due st i + count_list (call_ids rs) i))"
  unfolding handle_approval_tool_requests_def
proof (induction rs arbitrary: st)
  case (Cons r rs)
  have c: "count_list (call_ids (r # rs)) i = count_list (call_ids [r]) i + count_list (call_ids rs) i" for i
    by (simp add: call_ids_def)
  show ?case
    unfolding each.simps
    by (rule returns_and_then [OF handle_approval_due], rule returns_mono [OF Cons.IH]) (simp add: c)
qed (simp add: call_ids_def)

text \<open>The lists of a decision, and the ids that are in them.\<close>

definition decided :: "permission_check_result \<Rightarrow> tool_request list" where
  "decided p = approved p @ needs_approval p @ denied p"

lemma baseline_decided:
  "set (decided (fold (add_baseline prs) reqs p)) = set (decided p) \<union> set reqs"
  by (induction reqs arbitrary: p)
     (auto simp: decided_def add_baseline_def split: option.splits inspection_action.splits)

lemma apply_result_decided:
  "\<forall>i q. m i = Some q \<longrightarrow> q \<in> S \<Longrightarrow> set (decided p) \<subseteq> S \<Longrightarrow> set (decided (apply_result m r p)) \<subseteq> S"
  by (auto simp: decided_def apply_result_def push_new_def without_def Let_def
      split: inspection_action.splits option.splits if_splits)

lemma mixing_decided:
  "set (decided (apply_inspection_results_to_permissions p rs)) \<subseteq> set (decided p)"
proof -
  have m: "\<forall>i q. request_map p i = Some q \<longrightarrow> q \<in> set (decided p)"
    by (auto simp: request_map_def decided_def dest!: map_of_SomeD)
  have "set (decided q) \<subseteq> set (decided p) \<Longrightarrow> set (decided (fold (apply_result (request_map p)) rs q)) \<subseteq> set (decided p)" for q
    by (induction rs arbitrary: q) (simp_all add: apply_result_decided [OF m])
  then show ?thesis by (simp add: apply_inspection_results_to_permissions_def)
qed

lemma decide_permissions_decided:
  "set (decided (decide_permissions env results reqs)) \<subseteq> set reqs
   \<and> request_id ` set (decided (decide_permissions env results reqs)) = request_id ` set reqs"
proof -
  have u: "set (decided (deny_unattended_approvals p)) = set (decided p)" for p
    by (auto simp: decided_def deny_unattended_approvals_def)
  have i: "request_id ` set (decided p) = ids (approved p) \<union> ids (needs_approval p) \<union> ids (denied p)" for p
    by (auto simp: decided_def ids_def)
  let ?b = "fold (add_baseline (filter from_permission results)) reqs \<lparr>approved = [], needs_approval = [], denied = []\<rparr>"
  have b: "set (decided ?b) = set reqs"
    unfolding baseline_decided by (simp add: decided_def)
  have "set (decided (process_inspection_results reqs results)) \<subseteq> set reqs
      \<and> request_id ` set (decided (process_inspection_results reqs results)) = request_id ` set reqs"
    using mixing_decided [of ?b "filter (\<lambda>x. \<not> from_permission x) results"]
      mixing_restricts [of ?b "filter (\<lambda>x. \<not> from_permission x) results"] i [of ?b]
    unfolding b by (auto simp: process_inspection_results_def Let_def b i)
  moreover have "set (decided \<lparr>approved = [], needs_approval = reqs, denied = []\<rparr>) = set reqs"
    by (simp add: decided_def)
  ultimately show ?thesis by (auto simp: decide_permissions_def Let_def u)
qed

lemma dispatch_all_due:
  assumes "handle_approved_and_denied_tools env p m w = (w', st)"
  shows "dom (snd st) = dom m \<and> (\<forall>i \<in> dom m. due st i
    = answers m i + count_list (call_ids (approved p)) i + count_list (map request_id (denied p)) i)"
proof -
  obtain fs where d: "dispatch_approved env (approved p) w = (w', fs)" and st: "st = (fs, handle_denied_tools (denied p) m)"
    using assms by (auto simp: handle_approved_and_denied_tools_def split: prod.splits)
  then have "map fst fs = call_ids (approved p)"
    using dispatch_approved_ids [of env "approved p" w] by (simp add: call_ids_def)
  then show ?thesis
    using handle_denied_answers [of "denied p" m] by (simp add: st due_def)
qed

lemma confirm_and_run_answers:
  fixes env :: "('w, 'r) turn_env"
  assumes whole: "\<forall>w. \<not> token_cancelled env w" and i: "i \<in> dom (snd st)"
  shows "returns (confirm_and_run env results md installs asked st :: ('w, 's agent_event, responses \<times> bool) act)
    (\<lambda>res. answers (fst res) i = due st i + count_list (call_ids asked) i)"
  unfolding confirm_and_run_def
proof (rule returns_and_then [OF handle_approvals_due], rule returns_then,
    rule returns_and_then [OF run_streams_answered [of True]])
  fix st' :: "'w confirm_state" and cs and res :: turn_results
  assume "dom (snd st') = dom (snd st)
      \<and> (\<forall>i \<in> dom (snd st). due st' i = due st i + count_list (call_ids asked) i)"
    and "answered True (fst st') (snd st', True) res"
  then have "answers (fst res) i = due st i + count_list (call_ids asked) i"
    using i by (simp add: answered_def answered_at_def due_def)
  then show "returns (and_then (lift (drain_elicitation env)) (\<lambda>ms.
     and_then (yield_all (map MessageEvent ms)) (\<lambda>_.
     if snd res \<and> installs \<noteq> []
     then and_then (change (save_extension_state env)) (\<lambda>_. ret (fst res, True))
     else ret (fst res, False))) :: ('w, 's agent_event, responses \<times> bool) act)
     (\<lambda>res. answers (fst res) i = due st i + count_list (call_ids asked) i)"
    by (intro returns_then returns_if) simp_all
qed (use whole in simp)

text \<open>How the answers of a turn come about, call by call.\<close>

lemma run_remaining_answers:
  fixes env :: "('w, 'r) turn_env" and m :: responses
  assumes run: "run_remaining env mode msgs md reqs m w = (es :: 's agent_event list, Ok (m', b), w')"
    and whole: "\<forall>w. \<not> token_cancelled env w" and i: "i \<in> dom m"
    and p: "p = decide_permissions env (snd (inspect_tools (inspectors env) w reqs msgs mode)) reqs"
  shows "answers m' i = answers m i + count_list (call_ids (approved p)) i
    + count_list (map request_id (denied p)) i + count_list (call_ids (needs_approval p)) i"
proof -
  obtain w1 results where ins: "inspect_tools (inspectors env) w reqs msgs mode = (w1, results)" by fastforce
  obtain w2 st where d: "handle_approved_and_denied_tools env p m w1 = (w2, st)"
    by (metis surj_pair)
  note due = dispatch_all_due [OF d]
  obtain es' :: "'s agent_event list" where "confirm_and_run env results md (extension_request_ids reqs) (needs_approval p) st w2
      = (es', Ok (m', b), w')"
    using run d [unfolded p ins snd_conv]
    by (auto simp: run_remaining_def and_then_def lift_def Let_def ins p split: prod.splits)
  moreover have "i \<in> dom (snd st)" using due i by simp
  ultimately have "answers (fst (m', b)) i = due st i + count_list (call_ids (needs_approval p)) i"
    using returnsD [OF confirm_and_run_answers [OF whole]] by blast
  then show ?thesis using due i by simp
qed

text \<open>
  How many places a call takes in the decision: one, or two when a result denies it and another one sends it to the
  user.
\<close>

definition places :: "str \<Rightarrow> tool_request list \<Rightarrow> nat" where
  "places i rs = length (filter (has_id i) rs)"

definition denied_by :: "str \<Rightarrow> inspection_result list \<Rightarrow> bool" where
  "denied_by i rs = (\<exists>x \<in> set rs. tool_request_id x = i \<and> action x = Deny)"

definition asked_by :: "str \<Rightarrow> inspection_result list \<Rightarrow> bool" where
  "asked_by i rs = (\<exists>x \<in> set rs. tool_request_id x = i \<and> (\<exists>why. action x = RequireApproval why))"

lemma places_count: "count_list (map request_id rs) i = places i rs"
  by (induction rs) (auto simp: places_def has_id_def)

lemma places_append [simp]: "places i (rs @ qs) = places i rs + places i qs"
  by (simp add: places_def)

lemma places_filter: "places i (filter P rs) \<le> places i rs"
  by (induction rs) (auto simp: places_def)

lemma places_without: "places i (without j rs) = (if i = j then 0 else places i rs)"
  by (induction rs) (auto simp: places_def without_def has_id_def)

lemma places_push_new:
  assumes "\<And>q. r = Some q \<Longrightarrow> request_id q = j"
  shows "places i (push_new j r rs) = (if i = j \<and> places i rs = 0 \<and> r \<noteq> None then 1 else places i rs)"
  using assms by (auto simp: places_def push_new_def has_id_def list_ex_iff filter_empty_conv split: option.splits)

definition settled :: "str \<Rightarrow> inspection_result list \<Rightarrow> inspection_result list \<Rightarrow> permission_check_result \<Rightarrow> bool" where
  "settled i base rs p \<longleftrightarrow> (1 \<le> places i (denied p) \<longrightarrow> denied_by i (base @ rs))
     \<and> (places i (decided p) \<le> 1
        \<or> places i (approved p) = 0 \<and> places i (needs_approval p) \<le> 1 \<and> places i (denied p) \<le> 1 \<and> denied_by i (base @ rs) \<and> asked_by i rs)"

lemma settled_step:
  assumes "\<forall>j q. m j = Some q \<longrightarrow> request_id q = j" "settled i base rs p"
  shows "settled i base (rs @ [r]) (apply_result m r p)"
proof -
  have j: "\<And>q. m (tool_request_id r) = Some q \<Longrightarrow> request_id q = tool_request_id r" using assms(1) by blast
  have mono: "denied_by i (base @ rs) \<Longrightarrow> denied_by i (base @ rs @ [r])" "asked_by i rs \<Longrightarrow> asked_by i (rs @ [r])"
    by (auto simp: denied_by_def asked_by_def)
  show ?thesis
  proof (cases "tool_request_id r = i")
    case False
    then have "places i (approved (apply_result m r p)) = places i (approved p)"
      "places i (needs_approval (apply_result m r p)) = places i (needs_approval p)"
      "places i (denied (apply_result m r p)) = places i (denied p)"
      by (cases "action r"; simp add: apply_result_def Let_def places_without places_push_new [OF j])+
    then show ?thesis using assms(2) mono by (auto simp: settled_def decided_def)
  next
    case True
    have "\<And>q. m i = Some q \<Longrightarrow> request_id q = i" using assms(1) by blast
    note pl = apply_result_def Let_def places_without places_push_new [OF this] True
    show ?thesis
    proof (cases "action r")
      case Deny
      then have "denied_by i (base @ rs @ [r])" using True by (auto simp: denied_by_def)
      moreover have "places i (denied p) \<le> 1" using assms(2) by (auto simp: settled_def decided_def)
      ultimately show ?thesis by (auto simp: settled_def decided_def pl Deny)
    next
      case (RequireApproval why)
      then have "asked_by i (rs @ [r])" using True by (auto simp: asked_by_def)
      moreover have "places i (denied p) \<le> 1" "places i (needs_approval p) \<le> 1"
        "1 \<le> places i (denied p) \<Longrightarrow> denied_by i (base @ rs @ [r])"
        using assms(2) mono(1) by (auto simp: settled_def decided_def)
      ultimately show ?thesis by (cases "places i (denied p) = 0") (auto simp: settled_def decided_def pl RequireApproval)
    next
      case Allow
      then show ?thesis using assms(2) mono by (auto simp: settled_def apply_result_def Let_def)
    qed
  qed
qed

lemma mixing_settled:
  assumes "\<forall>j q. m j = Some q \<longrightarrow> request_id q = j" "settled i base [] p"
  shows "settled i base rs (fold (apply_result m) rs p)"
  by (induction rs rule: rev_induct) (simp_all add: assms(2) settled_step [OF assms(1)])

lemma places_distinct: "distinct (map request_id rs) \<Longrightarrow> places i rs \<le> 1"
  by (induction rs) (auto simp: places_def has_id_def filter_empty_conv image_iff)

lemma baseline_settled:
  assumes "distinct (map request_id reqs)"
  shows "settled i results [] (fold (add_baseline (filter from_permission results)) reqs
    \<lparr>approved = [], needs_approval = [], denied = []\<rparr>)" (is "settled i results [] ?b")
proof -
  have "places i (decided ?b) = places i reqs"
    unfolding baseline_fold
    by (induction reqs) (auto simp: decided_def places_def split: option.splits inspection_action.splits)
  also have "places i reqs \<le> 1" by (rule places_distinct [OF assms])
  finally have once: "places i (decided ?b) \<le> 1" .
  have "denied_by i results" if d: "1 \<le> places i (denied ?b)"
  proof -
    from d have "filter (has_id i) (denied ?b) \<noteq> []" by (auto simp: places_def)
    then obtain q where "has_id i q" "q \<in> set (denied ?b)" by (auto simp: filter_empty_conv)
    then obtain x where "request_id q = i" "List.find (\<lambda>x. tool_request_id x = request_id q) (filter from_permission results) = Some x" "action x = Deny"
      unfolding baseline_fold by (auto simp: has_id_def split: option.splits)
    then show ?thesis using find_Some_in [of _ "filter from_permission results" x] by (auto simp: denied_by_def)
  qed
  then show ?thesis using once by (simp add: settled_def)
qed

lemma decision_places:
  assumes "distinct (map request_id reqs)"
  shows "places i (decided (decide_permissions env results reqs)) \<le> 1
    \<or> places i (decided (decide_permissions env results reqs)) = 2 \<and> denied_by i results \<and> asked_by i results"
proof -
  have u: "places i (decided (deny_unattended_approvals p)) = places i (decided p)" for p
    by (simp add: decided_def deny_unattended_approvals_def)
  let ?o = "filter (\<lambda>x. \<not> from_permission x) results"
  let ?b = "fold (add_baseline (filter from_permission results)) reqs \<lparr>approved = [], needs_approval = [], denied = []\<rparr>"
  have "settled i results ?o (process_inspection_results reqs results)"
    using mixing_settled [OF request_map_id [of ?b] baseline_settled [OF assms], where i = i and rs = ?o]
      baseline_settled [OF assms, of i results]
    by (auto simp: process_inspection_results_def Let_def apply_inspection_results_to_permissions_def)
  then have "places i (decided (process_inspection_results reqs results)) \<le> 1
      \<or> places i (decided (process_inspection_results reqs results)) = 2 \<and> denied_by i results \<and> asked_by i results"
    by (auto simp: settled_def decided_def denied_by_def asked_by_def)
  moreover have "places i reqs \<le> 1" by (rule places_distinct [OF assms])
  ultimately show ?thesis by (auto simp: decide_permissions_def Let_def u) (auto simp: decided_def)
qed

text \<open>
  C3. Every call is answered: where the turn returns and is not cancelled, a call that could be read has exactly one
  answer in the message prepared for it, whether it was approved, denied, confirmed, declined or timed out; only a call
  that one inspector denies and another sends to the user has two. Its answers are the places it takes in the decision
  of the inspectors. The identifiers of the calls are distinct, as after the sorting of a response.
\<close>

theorem every_call_answered:
  assumes "run_remaining env mode msgs md reqs m w = (es, Ok (m', b), w')"
    and "\<forall>w. \<not> token_cancelled env w" and "distinct (map request_id reqs)"
    and "r \<in> set reqs" and "is_ok (tool_call r)"
    and "request_id r \<in> dom m" and "answers m (request_id r) = 0"
  shows "let results = snd (inspect_tools (inspectors env) w reqs msgs mode); p = decide_permissions env results reqs;
      n = answers m' (request_id r)
    in n = count_list (map request_id (approved p @ needs_approval p @ denied p)) (request_id r)
       \<and> (n = 1 \<or> n = 2 \<and> denied_by (request_id r) results \<and> asked_by (request_id r) results)"
proof -
  define results where "results = snd (inspect_tools (inspectors env) w reqs msgs mode)"
  define p where "p = decide_permissions env results reqs"
  have sub: "set (decided p) \<subseteq> set reqs" and same: "request_id ` set (decided p) = request_id ` set reqs"
    using decide_permissions_decided unfolding p_def by blast+
  have c: "count_list (call_ids rs) (request_id r) = count_list (map request_id rs) (request_id r)"
    if "set rs \<subseteq> set reqs" for rs
  proof -
    have "q = r" if "q \<in> set rs" "request_id q = request_id r" for q
      using that \<open>set rs \<subseteq> set reqs\<close> assms(3,4) by (auto simp: distinct_map inj_on_def)
    then show ?thesis
      using assms(5) by (induction rs) (auto simp: call_ids_def parsed_def)
  qed
  have n: "answers m' (request_id r) = count_list (map request_id (decided p)) (request_id r)"
    using run_remaining_answers [OF assms(1,2,6) p_def [unfolded results_def]] sub assms(7)
    by (simp add: c decided_def)
  moreover have "request_id r \<in> set (map request_id (decided p))"
    using same assms(4) by auto
  then have "count_list (map request_id (decided p)) (request_id r) \<noteq> 0"
    by (simp add: count_list_0_iff)
  moreover note decision_places [OF assms(3), of "request_id r" env results]
  ultimately show ?thesis
    unfolding Let_def results_def [symmetric] p_def [symmetric]
    by (simp only: decided_def places_count) (auto simp del: places_append)
qed

section \<open>One call\<close>

text \<open>A tool that answers, a user who agrees, and a hook manager with the given rules.\<close>

definition silent_hooks :: "('w, unit) hook_env" where
  "silent_hooks = \<lparr>hooks_json = (\<lambda>_. None), compile_matcher = (\<lambda>_. None), matcher_accepts = (\<lambda>_ _. True),
     context_json = (\<lambda>_. Some []), block_response = (\<lambda>_. None),
     run_command_hook = (\<lambda>cmd _ _ _ _ w. (w, Ok \<lparr>exit_code = Some 2, hook_stdout = [], hook_stderr = cmd\<rparr>))\<rparr>"

definition one_tool :: "unit hook_rules \<Rightarrow> ('w, unit) dispatch_env" where
  "one_tool rules = \<lparr>hooks_io = silent_hooks, hooks = \<lparr>hook_rules = rules, use_login_shell_path = False\<rparr>,
     record_arguments = (\<lambda>_ _ w. w), manage_schedule = (\<lambda>_ _ w. (w, Ok [])), final_output_call = (\<lambda>_ _. None),
     frontend_tools = (\<lambda>_. {}), extension_call = (\<lambda>_ _ _ w. (w, Ok (ready (Ok (success_result []))))),
     large_threshold = (\<lambda>_. 10), write_large_text = (\<lambda>_ w. (w, Ok []))\<rparr>"

definition agreeing_env :: "unit hook_rules \<Rightarrow> ('w, unit) turn_env" where
  "agreeing_env rules = \<lparr>tools_io = one_tool rules, turn_session = \<lparr>session_id = [], session_dir = []\<rparr>,
     retry_var = None, timeout_var = None, cancel_token = None, sleep_for = (\<lambda>w _. (w, False)),
     now = (\<lambda>_. 0), new_uuid = (\<lambda>w. (w, [])), register_request = (\<lambda>_ w. (w, 0)),
     await_confirmation = (\<lambda>_ w. (w, Some \<lparr>principal = PrincipalTool, granted_permission = AllowOnce\<rparr>)),
     update_permission = (\<lambda>_ _ w. w), frontend_result = (\<lambda>w. (w, None)), drain_elicitation = (\<lambda>w. (w, [])),
     schedule = (\<lambda>_. []), inspectors = [], unattended = False, save_extension_state = (\<lambda>w. w)\<rparr>"

definition simple_call :: call_params where
  "simple_call = \<lparr>tool_name = lit ''t'', arguments = None\<rparr>"

definition simple_request :: tool_request where
  "simple_request = \<lparr>request_id = lit ''1'', tool_call = Ok simple_call, request_metadata = None, tool_meta = None\<rparr>"

definition blocking_rules :: "unit hook_rules" where
  "blocking_rules = [PreToolUse \<mapsto> [\<lparr>plugin_name = lit ''p'', plugin_root = [], rule_matcher = None,
     rule_actions = [\<lparr>command_text = lit ''no'', command_timeout = 1\<rparr>]\<rparr>]]"

theorem denied_call_not_run_witness:
  "dispatch_approved_call (agreeing_env blocking_rules) (lit ''1'') simple_call ()
     = ((), lit ''1'', ready (Err (hook_denial (lit ''no'') (lit ''p''))))"
  by (rule denied_call_not_run)
     (simp_all add: agreeing_env_def one_tool_def silent_hooks_def blocking_rules_def has_hooks_def
       emit_blocking_def rule_applies_def run_hook_def deny_reason_def reason_or_default_def trim_def
       trim_start_def trim_end_def is_ws_def)

definition agreed_run :: "unit agent_event list \<times> (str, responses \<times> bool) result \<times> unit" where
  "agreed_run = run_remaining (agreeing_env (\<lambda>_. None)) Approve [] (\<lambda>_. None) [simple_request]
      [lit ''1'' \<mapsto> message_user 0] ()"

theorem every_call_answered_witness:
  "case agreed_run of (es, Ok (m', b), w') \<Rightarrow> answers m' (lit ''1'') = 1 | _ \<Rightarrow> False"
proof -
  let ?m = "[lit ''1'' \<mapsto> message_user 0]"
  have "\<exists>es m' b w'. agreed_run = (es, Ok (m', b), w')"
    by (simp add: agreed_run_def run_remaining_def confirm_and_run_def agreeing_env_def one_tool_def and_then_def lift_def look_def
        ret_def yield_def yield_all_def decide_permissions_def Let_def handle_approved_and_denied_tools_def
        handle_denied_tools_def handle_approval_tool_requests_def handle_approval_request_def
        apply_confirmation_def dispatch_tool_call_def run_tool_def has_hooks_def emit_pre_tool_extended_hooks_def
        categorize_tool_def local_name_def simple_request_def simple_call_def as_future_def
        PLATFORM_MANAGE_SCHEDULE_TOOL_NAME_def FINAL_OUTPUT_TOOL_NAME_def extension_request_ids_def
        run_streams.simps [of _ _ _ _ "[_]"] run_streams.simps [of _ _ _ _ "[]"] token_cancelled_def
        next_choice_def drop_nth_def with_post_tool_hook_def ready_def process_tool_response_def
        success_result_def run_post_hooks_def take_result_def platform_notification_def change_def
        MANAGE_EXTENSIONS_TOOL_NAME_COMPLETE_def) blast
  then obtain es m' b w' where
    r: "agreed_run = (es, Ok (m', b), w')" by blast
  have "answers ?m (request_id simple_request) = 0"
    by (simp add: answers_def message_user_def message_new_def)
  then have "answers m' (request_id simple_request) = 1"
    using every_call_answered [OF r [unfolded agreed_run_def], of simple_request]
    by (simp add: agreeing_env_def token_cancelled_def simple_request_def decide_permissions_def Let_def)
  then have "answers m' (lit ''1'') = 1" by (simp add: simple_request_def)
  then show ?thesis by (simp only: r prod.case sum.case)
qed

end
