(* ===== verification/TaskRetry.thy ===== *)
theory TaskRetry
  imports Conversation
begin

text \<open>
  \<open>crates/bharatcode-core/src/agents/retry.rs\<close>: the retry of a whole task. Success checks are run when
  the agent would stop; where one fails the conversation starts over from its initial messages, as often as
  the configuration allows. The shell, with its timeout, is a parameter.
\<close>

section \<open>Configuration\<close>

datatype success_check = ShellCheck str

record task_retry_config =
  max_retries :: nat
  checks :: "success_check list"
  on_failure :: "str option"
  timeout_seconds :: "nat option"
  on_failure_timeout_seconds :: "nat option"

definition DEFAULT_RETRY_TIMEOUT_SECONDS :: nat where "DEFAULT_RETRY_TIMEOUT_SECONDS = 300"
definition DEFAULT_ON_FAILURE_TIMEOUT_SECONDS :: nat where "DEFAULT_ON_FAILURE_TIMEOUT_SECONDS = 600"

record shell_output =
  shell_success :: bool
  shell_status :: str
  shell_stderr :: str

text \<open>
  \<open>shell\<close> is \<open>execute_shell_command\<close>: the process started under \<open>sh -c\<close> and raced against the timeout;
  its error is the text of the failure, a timeout included. \<open>retry_param\<close> and \<open>failure_param\<close> are the two
  configuration parameters; \<open>now\<close> is the clock and \<open>nfc\<close> the normalisation of message texts.
\<close>

record 'w shell_env =
  shell :: "str \<Rightarrow> nat \<Rightarrow> 'w \<Rightarrow> 'w \<times> (str, shell_output) result"
  retry_param :: "nat option"
  failure_param :: "nat option"
  clock :: "'w \<Rightarrow> int"
  nfc :: "str \<Rightarrow> str"
  show_seconds :: "nat \<Rightarrow> str"

definition first_of :: "nat option \<Rightarrow> nat option \<Rightarrow> nat \<Rightarrow> nat" where
  "first_of a b d = (case a of Some n \<Rightarrow> n | None \<Rightarrow> (case b of Some n \<Rightarrow> n | None \<Rightarrow> d))"

definition get_retry_timeout :: "'w shell_env \<Rightarrow> task_retry_config \<Rightarrow> nat" where
  "get_retry_timeout env cfg = first_of (timeout_seconds cfg) (retry_param env) DEFAULT_RETRY_TIMEOUT_SECONDS"

definition get_on_failure_timeout :: "'w shell_env \<Rightarrow> task_retry_config \<Rightarrow> nat" where
  "get_on_failure_timeout env cfg =
     first_of (on_failure_timeout_seconds cfg) (failure_param env) DEFAULT_ON_FAILURE_TIMEOUT_SECONDS"

section \<open>Checks and the command on failure\<close>

fun run_checks :: "'w shell_env \<Rightarrow> nat \<Rightarrow> success_check list \<Rightarrow> 'w \<Rightarrow> 'w \<times> (str, bool) result" where
  "run_checks env t [] w = (w, Ok True)"
| "run_checks env t (ShellCheck cmd # cs) w = (case shell env cmd t w of
     (w', Err e) \<Rightarrow> (w', Err e)
   | (w', Ok out) \<Rightarrow> if shell_success out then run_checks env t cs w' else (w', Ok False))"

definition execute_success_checks :: "'w shell_env \<Rightarrow> task_retry_config \<Rightarrow> 'w \<Rightarrow> 'w \<times> (str, bool) result" where
  "execute_success_checks env cfg w = run_checks env (get_retry_timeout env cfg) (checks cfg) w"

definition execute_on_failure_command ::
    "'w shell_env \<Rightarrow> str \<Rightarrow> task_retry_config \<Rightarrow> 'w \<Rightarrow> 'w \<times> (str, unit) result" where
  "execute_on_failure_command env cmd cfg w = (let t = get_on_failure_timeout env cfg in
     case shell env cmd t w of
       (w', Err e) \<Rightarrow>
         (w', Err (if contains_str e (lit ''timed out'')
            then lit ''On_failure command timed out after '' @ show_seconds env t @ lit '': '' @ cmd else e))
     | (w', Ok out) \<Rightarrow>
         (w', if shell_success out then Ok ()
          else Err (lit ''On_failure command failed: command '' @ quoted cmd @ lit '' exited with status ''
            @ shell_status out @ lit '', stderr: '' @ shell_stderr out)))"

section \<open>The manager\<close>

datatype retry_result = Skipped | MaxAttemptsReached | SuccessChecksPassed | Retried

text \<open>What a retry touches: the conversation, the counter, and the final output tool where there is one.\<close>

record retry_state =
  retry_messages :: conversation
  attempts_made :: nat
  recorded_output :: "str option option"

definition U32 :: nat where "U32 = 4294967296"

definition increment_attempts :: "retry_state \<Rightarrow> retry_state" where
  "increment_attempts s = s\<lparr>attempts_made := (attempts_made s + 1) mod U32\<rparr>"

definition reset_attempts :: "retry_state \<Rightarrow> retry_state" where
  "reset_attempts s = s\<lparr>attempts_made := 0\<rparr>"

definition reset_status_for_retry :: "message list \<Rightarrow> retry_state \<Rightarrow> retry_state" where
  "reset_status_for_retry initial s =
     s\<lparr>retry_messages := initial, recorded_output := map_option (\<lambda>_. None) (recorded_output s)\<rparr>"

definition exceeded_message :: "'w shell_env \<Rightarrow> nat \<Rightarrow> 'w \<Rightarrow> message" where
  "exceeded_message env n w = with_text (nfc env)
     (lit ''Maximum retry attempts ('' @ show_nat n @ lit '') exceeded. Unable to complete the task successfully.'')
     (message_assistant (clock env w))"

definition handle_retry_logic ::
    "'w shell_env \<Rightarrow> task_retry_config option \<Rightarrow> message list \<Rightarrow> retry_state \<Rightarrow> 'w \<Rightarrow>
     'w \<times> retry_state \<times> (str, retry_result) result" where
  "handle_retry_logic env cfg initial s w = (case cfg of
     None \<Rightarrow> (w, s, Ok Skipped)
   | Some c \<Rightarrow> (case execute_success_checks env c w of
       (w1, Err e) \<Rightarrow> (w1, s, Err e)
     | (w1, Ok True) \<Rightarrow> (w1, s, Ok SuccessChecksPassed)
     | (w1, Ok False) \<Rightarrow>
         if max_retries c \<le> attempts_made s
         then (w1, s\<lparr>retry_messages := push_message (exceeded_message env (max_retries c) w1) (retry_messages s)\<rparr>,
               Ok MaxAttemptsReached)
         else (case (case on_failure c of None \<Rightarrow> (w1, Ok ()) | Some cmd \<Rightarrow> execute_on_failure_command env cmd c w1) of
             (w2, Err e) \<Rightarrow> (w2, s, Err e)
           | (w2, Ok _) \<Rightarrow> (w2, increment_attempts (reset_status_for_retry initial s), Ok Retried))))"

section \<open>Laws\<close>

lemma run_checks_pass:
  "run_checks env t cs w = (w', Ok True) \<Longrightarrow> ShellCheck cmd \<in> set cs \<Longrightarrow>
   \<exists>v v' out. shell env cmd t v = (v', Ok out) \<and> shell_success out"
proof (induction cs arbitrary: w)
  case (Cons c cs)
  then show ?case
    by (cases c) (fastforce split: prod.splits sum.splits if_splits)
qed simp

text \<open>
  The checks by what the shell answers: all of them run one after the other and succeed, or some of them
  do and the next one runs and does not.
\<close>

fun all_succeed :: "'w shell_env \<Rightarrow> nat \<Rightarrow> success_check list \<Rightarrow> 'w \<Rightarrow> 'w \<Rightarrow> bool" where
  "all_succeed env t [] w v = (v = w)"
| "all_succeed env t (ShellCheck cmd # cs) w v =
     (\<exists>u out. shell env cmd t w = (u, Ok out) \<and> shell_success out \<and> all_succeed env t cs u v)"

definition one_fails :: "'w shell_env \<Rightarrow> nat \<Rightarrow> success_check list \<Rightarrow> 'w \<Rightarrow> 'w \<Rightarrow> bool" where
  "one_fails env t cs w v = (\<exists>pre cmd post u out. cs = pre @ ShellCheck cmd # post
     \<and> all_succeed env t pre w u \<and> shell env cmd t u = (v, Ok out) \<and> \<not> shell_success out)"

definition ran_on_failure :: "'w shell_env \<Rightarrow> task_retry_config \<Rightarrow> 'w \<Rightarrow> 'w \<Rightarrow> bool" where
  "ran_on_failure env c w v = (case on_failure c of
     None \<Rightarrow> v = w
   | Some cmd \<Rightarrow> (\<exists>out. shell env cmd (get_on_failure_timeout env c) w = (v, Ok out) \<and> shell_success out))"

lemma run_checks_true: "run_checks env t cs w = (v, Ok True) \<Longrightarrow> all_succeed env t cs w v"
proof (induction cs arbitrary: w)
  case (Cons c cs)
  then show ?case by (cases c) (auto split: prod.splits sum.splits if_splits)
qed simp

lemma run_checks_false: "run_checks env t cs w = (v, Ok False) \<Longrightarrow> one_fails env t cs w v"
proof (induction cs arbitrary: w)
  case (Cons c cs)
  obtain cmd where c: "c = ShellCheck cmd" by (cases c) simp
  obtain u r where x: "shell env cmd t w = (u, r)" by fastforce
  with Cons.prems obtain out where r: "r = Ok out" by (cases r) (simp_all add: c)
  show ?case
  proof (cases "shell_success out")
    case True
    with Cons.prems have "run_checks env t cs u = (v, Ok False)" by (simp add: c x r)
    from Cons.IH [OF this] obtain pre d post u' out' where
      "cs = pre @ ShellCheck d # post" "all_succeed env t pre u u'" "shell env d t u' = (v, Ok out')"
      "\<not> shell_success out'" unfolding one_fails_def by blast
    then show ?thesis using True x r c unfolding one_fails_def
      by (intro exI [of _ "c # pre"] exI [of _ d] exI [of _ post] exI [of _ u'] exI [of _ out']) simp
  next
    case False
    with Cons.prems have "v = u" by (simp add: c x r)
    with False x r c show ?thesis unfolding one_fails_def
      by (intro exI [of _ "[]"] exI [of _ cmd] exI [of _ cs] exI [of _ w] exI [of _ out]) simp
  qed
qed simp

lemma on_failure_ran:
  "(case on_failure c of None \<Rightarrow> (w, Ok ()) | Some cmd \<Rightarrow> execute_on_failure_command env cmd c w) = (v, Ok ()) \<Longrightarrow>
   ran_on_failure env c w v"
  by (auto simp: ran_on_failure_def execute_on_failure_command_def Let_def
      split: option.splits prod.splits sum.splits if_splits)

text \<open>
  C23. A task is retried only within its budget: a retry happens only where one of the checks ran and did
  not succeed and fewer attempts than configured were made, after the command on failure has succeeded, and
  starts from the initial messages with no final output and one more attempt on the count; the attempts are
  reported as used up only where a check failed as well, and only a message is added; a task is reported as
  passed only where every check succeeded; and no other outcome changes anything.
\<close>

theorem retry_within_budget:
  "case handle_retry_logic env cfg initial s w of (w', s', r) \<Rightarrow>
     (case r of
        Ok Retried \<Rightarrow> (\<exists>c v. cfg = Some c \<and> one_fails env (get_retry_timeout env c) (checks c) w v
          \<and> ran_on_failure env c v w' \<and> attempts_made s < max_retries c
          \<and> attempts_made s' = (attempts_made s + 1) mod U32
          \<and> retry_messages s' = initial \<and> recorded_output s' = map_option (\<lambda>_. None) (recorded_output s))
      | Ok MaxAttemptsReached \<Rightarrow> (\<exists>c. cfg = Some c \<and> one_fails env (get_retry_timeout env c) (checks c) w w'
          \<and> max_retries c \<le> attempts_made s
          \<and> s' = s\<lparr>retry_messages := push_message (exceeded_message env (max_retries c) w') (retry_messages s)\<rparr>)
      | Ok SuccessChecksPassed \<Rightarrow> s' = s \<and> (\<exists>c. cfg = Some c
          \<and> all_succeed env (get_retry_timeout env c) (checks c) w w')
      | Ok Skipped \<Rightarrow> s' = s \<and> w' = w \<and> cfg = None
      | Err e \<Rightarrow> s' = s)"
proof (cases cfg)
  case (Some c)
  obtain w1 r where x: "execute_success_checks env c w = (w1, r)" by fastforce
  obtain w2 u where f: "(case on_failure c of None \<Rightarrow> (w1, Ok ()) | Some cmd \<Rightarrow> execute_on_failure_command env cmd c w1)
      = (w2, u)" by fastforce
  show ?thesis
  proof (cases r)
    case (Inr ok)
    show ?thesis
    proof (cases ok)
      case True
      then show ?thesis using Some x Inr
        by (auto simp: handle_retry_logic_def execute_success_checks_def intro: run_checks_true)
    next
      case False
      with x Inr have "one_fails env (get_retry_timeout env c) (checks c) w w1"
        by (simp add: execute_success_checks_def run_checks_false)
      moreover have "u = Ok () \<Longrightarrow> ran_on_failure env c w1 w2" using f by (simp add: on_failure_ran)
      ultimately show ?thesis using Some x f Inr False
        by (cases u) (auto simp: handle_retry_logic_def increment_attempts_def reset_status_for_retry_def)
    qed
  qed (use Some x in \<open>simp add: handle_retry_logic_def\<close>)
qed (simp add: handle_retry_logic_def)

end
