(* ===== verification/ReplyLoop.thy ===== *)
theory ReplyLoop
  imports ToolDispatch TaskRetry StreamGuard Compaction
begin

text \<open>
  The reply loop of \<open>crates/bharatcode-core/src/agents/agent.rs\<close> (\<open>reply_internal\<close>): turns with the provider,
  the calls of a response, recovery from a full context, goal and grind nudges, the final output, pending
  steers, the stop hook and the ways out. The world holds what is not the agent's own: the session store, the
  provider, the hooks' processes, the tools.
\<close>

section \<open>The agent and its loop\<close>

record 'w agent_state =
  pending_steers :: "str \<Rightarrow> message list option"
  final_output_tool :: "str option option"
  goal :: "str option"
  grind :: "str option"
  retry_attempts :: nat
  outside :: 'w

text \<open>
  A provider stream is the list of its items, each with what happens in the world before it arrives;
  \<open>'p\<close> is the prepared system prompt and toolshim tools.
\<close>

type_synonym ('w, 's) stream_item =
  "('w agent_state \<Rightarrow> 'w agent_state) \<times> (provider_error, message option \<times> 's provider_usage option) result"

type_synonym ('w, 'a) op = "'w agent_state \<Rightarrow> 'w agent_state \<times> (str, 'a) result"

record ('w, 'r, 's, 'p) reply_env =
  turn_io :: "('w agent_state, 'r) turn_env"
  compact_io :: "('w agent_state, 's) compact_env"
  shell_io :: "'w agent_state shell_env"
  numbers :: number_io
  normal :: "str \<Rightarrow> str"
  show_provider_error :: "provider_error \<Rightarrow> str"
  show_compact_error :: "compact_error \<Rightarrow> str"
  summary_prompt :: str
  add_message :: "message \<Rightarrow> ('w, unit) op"
  replace_conversation :: "conversation \<Rightarrow> ('w, unit) op"
  hide_message :: "str \<Rightarrow> ('w, unit) op"
  update_session_metrics :: "'s provider_usage \<Rightarrow> bool \<Rightarrow> ('w, unit) op"
  provider :: "('w, unit) op"
  inject_moim :: "conversation \<Rightarrow> nat \<Rightarrow> nat \<Rightarrow> 'w agent_state \<Rightarrow> 'w agent_state \<times> conversation"
  stream_response :: "llm_tool list \<times> 'p \<Rightarrow> message list \<Rightarrow> ('w, ('w, 's) stream_item list) op"
  prepare_tools_and_prompt :: "('w, llm_tool list \<times> 'p) op"
  load_subdirectory_hints :: "'w agent_state \<Rightarrow> 'w agent_state \<times> bool"
  task_aborted :: "'w agent_state \<Rightarrow> bool"
  mode :: goose_mode
  max_turns :: nat
  stop_hook_block_cap :: nat
  served_by :: "inference_metadata option"
  retry_config :: "task_retry_config option"
  initial_messages :: "message list"
  tool_call_cut_off :: nat
  pre_turn_tool_count :: nat

definition DEFAULT_MAX_TURNS :: nat where "DEFAULT_MAX_TURNS = 1000"
definition DEFAULT_STOP_HOOK_BLOCK_CAP :: nat where "DEFAULT_STOP_HOOK_BLOCK_CAP = 8"

record 'p reply_state =
  conversation :: conversation
  turns_taken :: nat
  compaction_attempts :: nat
  last_assistant_text :: str
  goal_check_pending :: bool
  tool_pair_summarization_done :: bool
  stop_hook_handled_for_exit :: bool
  retrying_after_stop_hook_denial :: bool
  consecutive_stop_hook_blocks :: nat
  can_drain_pending_steers :: bool
  prepared :: "llm_tool list \<times> 'p"

definition initial_state :: "conversation \<Rightarrow> llm_tool list \<times> 'p \<Rightarrow> 'p reply_state" where
  "initial_state conv ps = \<lparr>conversation = conv, turns_taken = 0, compaction_attempts = 0,
     last_assistant_text = [], goal_check_pending = False, tool_pair_summarization_done = False,
     stop_hook_handled_for_exit = False, retrying_after_stop_hook_denial = False,
     consecutive_stop_hook_blocks = 0, can_drain_pending_steers = False, prepared = ps\<rparr>"

text \<open>The variables of one turn.\<close>

record 'p turn_state = "'p reply_state" +
  no_tools_called :: bool
  messages_to_add :: conversation
  tools_updated :: bool
  did_recovery_compact :: bool
  exit_chat :: bool
  pending_final_output :: "str option"
  surfaced_thinking :: bool

definition begin_turn :: "'p reply_state \<Rightarrow> 'p turn_state" where
  "begin_turn st = reply_state.extend st \<lparr>no_tools_called = True, messages_to_add = [], tools_updated = False,
     did_recovery_compact = False, exit_chat = False, pending_final_output = None, surfaced_thinking = False\<rparr>"

text \<open>\<open>u32\<close> counters wrap around at their width.\<close>

definition increment :: "nat \<Rightarrow> nat" where
  "increment n = (n + 1) mod U32"

datatype flow = Continue | Break

type_synonym ('w, 's, 'a) reply = "('w agent_state, 's agent_event, 'a) act"

definition store :: "('w, 'r, 's, 'p) reply_env \<Rightarrow> message \<Rightarrow> ('w, 's, unit) reply" where
  "store env m = attempt (add_message env m)"

definition said :: "('w, 'r, 's, 'p) reply_env \<Rightarrow> str \<Rightarrow> 'w agent_state \<Rightarrow> message" where
  "said env text s = with_text (normal env) text (message_assistant (now (turn_io env) s))"

definition asked :: "('w, 'r, 's, 'p) reply_env \<Rightarrow> str \<Rightarrow> 'w agent_state \<Rightarrow> message" where
  "asked env text s = with_text (normal env) text (message_user (now (turn_io env) s))"

definition notice ::
    "('w, 'r, 's, 'p) reply_env \<Rightarrow> system_notification_type \<Rightarrow> str \<Rightarrow> json option \<Rightarrow> 'w agent_state \<Rightarrow> message" where
  "notice env k text d s = with_system_notification k text d (message_assistant (now (turn_io env) s))"

definition show_message :: "('w agent_state \<Rightarrow> message) \<Rightarrow> ('w, 's, unit) reply" where
  "show_message f = and_then (look f) (\<lambda>m. yield (MessageEvent m))"

definition say :: "('w, 'r, 's, 'p) reply_env \<Rightarrow> str \<Rightarrow> ('w, 's, unit) reply" where
  "say env text = show_message (said env text)"

definition notify :: "('w, 'r, 's, 'p) reply_env \<Rightarrow> str \<Rightarrow> ('w, 's, unit) reply" where
  "notify env text = show_message (notice env InlineMessage text None)"

section \<open>Steers\<close>

definition steer :: "str \<Rightarrow> message \<Rightarrow> 'w agent_state \<Rightarrow> 'w agent_state" where
  "steer sid m s = s\<lparr>pending_steers := (pending_steers s)(sid \<mapsto>
     (case pending_steers s sid of Some ms \<Rightarrow> ms | None \<Rightarrow> []) @ [m])\<rparr>"

definition discard_pending_steers :: "str \<Rightarrow> 'w agent_state \<Rightarrow> 'w agent_state" where
  "discard_pending_steers sid s = s\<lparr>pending_steers := (pending_steers s)(sid := None)\<rparr>"

definition has_pending_steers :: "str \<Rightarrow> 'w agent_state \<Rightarrow> bool" where
  "has_pending_steers sid s = (case pending_steers s sid of Some ms \<Rightarrow> ms \<noteq> [] | None \<Rightarrow> False)"

definition drain_pending_steers :: "str \<Rightarrow> 'w agent_state \<Rightarrow> 'w agent_state \<times> message list" where
  "drain_pending_steers sid s = (discard_pending_steers sid s,
     case pending_steers s sid of Some ms \<Rightarrow> map with_steer ms | None \<Rightarrow> [])"

definition sid :: "('w, 'r, 's, 'p) reply_env \<Rightarrow> str" where
  "sid env = session_id (turn_session (turn_io env))"

definition loop_hooks :: "('w, 'r, 's, 'p) reply_env \<Rightarrow> ('w agent_state, 'r) dispatch_env" where
  "loop_hooks env = tools_io (turn_io env)"

definition prompt_hook :: "('w, 'r, 's, 'p) reply_env \<Rightarrow> message \<Rightarrow> 'w agent_state \<Rightarrow> 'w agent_state" where
  "prompt_hook env m s = (let h = loop_hooks env in
     if has_hooks (hooks h) UserPromptSubmit
     then emit (hooks_io h) (hooks h) UserPromptSubmit
       (with_message (as_concat_text m) (new_context UserPromptSubmit (sid env))) s
     else s)"

definition take_steer ::
    "('w, 'r, 's, 'p) reply_env \<Rightarrow> message \<Rightarrow> 'p reply_state \<Rightarrow> ('w, 's, 'p reply_state) reply" where
  "take_steer env m st =
     and_then (change (prompt_hook env m)) (\<lambda>_.
     and_then (store env m) (\<lambda>_.
     and_then (yield (MessageEvent m)) (\<lambda>_.
     ret (st\<lparr>conversation := push_message m (conversation st)\<rparr>))))"

definition take_steers :: "('w, 'r, 's, 'p) reply_env \<Rightarrow> 'p reply_state \<Rightarrow> ('w, 's, 'p reply_state) reply" where
  "take_steers env st =
     (if can_drain_pending_steers st
      then and_then (lift (drain_pending_steers (sid env))) (\<lambda>ms. each (take_steer env) ms st)
      else ret st)"

section \<open>The stop hook\<close>

definition backtick :: "str \<Rightarrow> str" where
  "backtick s = lit ''`'' @ s @ lit ''`''"

definition stop_hook_denial_context_message :: "('w, 'r, 's, 'p) reply_env \<Rightarrow> str \<Rightarrow> str \<Rightarrow> 'w agent_state \<Rightarrow> message" where
  "stop_hook_denial_context_message env plugin why s = with_visibility False True
     (asked env (lit ''Stop hook '' @ backtick plugin @ lit '' blocked ending this turn:'' @ [newline, newline] @ why
       @ [newline, newline] @ lit ''Address this policy hook denial before trying to stop again.'') s)"

definition stop_hook_denial_notification :: "str \<Rightarrow> str" where
  "stop_hook_denial_notification plugin = lit ''Stop hook '' @ backtick plugin @ lit '' blocked ending this turn.''"

definition stop_hook_block_cap_warning :: "str \<Rightarrow> nat \<Rightarrow> str" where
  "stop_hook_block_cap_warning plugin cap = lit ''Stop hook '' @ backtick plugin
     @ lit '' blocked the turn from ending more than '' @ show_nat cap @ lit '' consecutive times '' @ [8212]
     @ lit '' overriding and ending turn to avoid an infinite loop. Set BHARATCODE_STOP_HOOK_BLOCK_CAP to raise this limit.''"

definition ask_stop_hook :: "('w, 'r, 's, 'p) reply_env \<Rightarrow> ('w, 's, hook_decision) reply" where
  "ask_stop_hook env = (let h = loop_hooks env in
     lift (emit_blocking (hooks_io h) (hooks h) Stop (new_context Stop (sid env))))"

definition stop_or_go :: "('w, 'r, 's, 'p) reply_env \<Rightarrow> 'p reply_state \<Rightarrow> ('w, 's, flow \<times> 'p reply_state) reply" where
  "stop_or_go env st = and_then (ask_stop_hook env) (\<lambda>d. case d of
     HookAllow \<Rightarrow> ret (Break, st\<lparr>stop_hook_handled_for_exit := True\<rparr>)
   | HookDeny why plugin \<Rightarrow>
       (let n = increment (consecutive_stop_hook_blocks st) in
        if stop_hook_block_cap env < n then
          and_then (look (notice env InlineMessage (stop_hook_block_cap_warning plugin (stop_hook_block_cap env)) None)) (\<lambda>m.
          and_then (store env m) (\<lambda>_.
          and_then (yield (MessageEvent m)) (\<lambda>_.
          ret (Break, st\<lparr>consecutive_stop_hook_blocks := n, stop_hook_handled_for_exit := True\<rparr>))))
        else
          and_then (look (stop_hook_denial_context_message env plugin why)) (\<lambda>m.
          and_then (store env m) (\<lambda>_.
          and_then (notify env (stop_hook_denial_notification plugin)) (\<lambda>_.
          ret (Continue, st\<lparr>conversation := push_message m (conversation st), consecutive_stop_hook_blocks := n,
            retrying_after_stop_hook_denial := True\<rparr>))))))"

section \<open>A response with tool calls\<close>

definition is_plain_thinking :: "message_content \<Rightarrow> bool" where
  "is_plain_thinking c = (case c of Thinking _ \<Rightarrow> True | _ \<Rightarrow> False)"

text \<open>\<open>format!("msg_{}", Uuid::new_v4())\<close>.\<close>

definition message_uuid :: "('w, 'r, 's, 'p) reply_env \<Rightarrow> ('w, 's, str) reply" where
  "message_uuid env = lift (\<lambda>s. case new_uuid (turn_io env) s of (s', u) \<Rightarrow> (s', lit ''msg_'' @ u))"

definition fresh_response :: "('w, 'r, 's, 'p) reply_env \<Rightarrow> ('w, 's, message) reply" where
  "fresh_response env = and_then (message_uuid env) (\<lambda>i. look (\<lambda>s. with_id i (message_user (now (turn_io env) s))))"

definition prepare_response ::
    "('w, 'r, 's, 'p) reply_env \<Rightarrow> tool_request \<Rightarrow> responses \<Rightarrow> ('w, 's, responses) reply" where
  "prepare_response env r m = and_then (fresh_response env) (\<lambda>msg. ret (m(request_id r \<mapsto> msg)))"

definition metadata_map :: "tool_request list \<Rightarrow> str \<Rightarrow> json_object option" where
  "metadata_map rs i = Option.bind (map_of (rev (map (\<lambda>r. (request_id r, request_metadata r)) rs)) i) id"

definition request_message ::
    "('w, 'r, 's, 'p) reply_env \<Rightarrow> message_content list \<Rightarrow> tool_request \<Rightarrow> message \<Rightarrow> ('w, 's, message) reply" where
  "request_message env reasoning r final =
     and_then (message_uuid env) (\<lambda>i.
     look (\<lambda>s.
       let m = with_tool_request_with_metadata (request_id r) (tool_call r) (request_metadata r) (tool_meta r)
             (fold with_content reasoning (with_id i (message_assistant (now (turn_io env) s))))
       in m\<lparr>created := min (created m) (created final)\<rparr>))"

definition UNPARSED_CALL :: str where
  "UNPARSED_CALL = lit ''A tool call could not be parsed '' @ [8212] @ lit '' the response may have been truncated. Try breaking the task into smaller steps or resending your message.''"

text \<open>The requests go to the conversation one by one, each before its answer, up to one that could not be read.\<close>

fun add_pairs ::
    "('w, 'r, 's, 'p) reply_env \<Rightarrow> message_content list \<Rightarrow> responses \<Rightarrow> tool_request list \<Rightarrow> 'p turn_state \<Rightarrow>
     ('w, 's, 'p turn_state) reply" where
  "add_pairs env reasoning m [] st = ret st"
| "add_pairs env reasoning m (r # rs) st =
     (if is_ok (tool_call r) then
        and_then (case m (request_id r) of Some msg \<Rightarrow> ret msg | None \<Rightarrow> fresh_response env) (\<lambda>final.
        and_then (request_message env reasoning r final) (\<lambda>req.
        and_then (yield (MessageEvent final)) (\<lambda>_.
        add_pairs env reasoning (m(request_id r := None)) rs
          (st\<lparr>messages_to_add := push_message final (push_message req (messages_to_add st))\<rparr>))))
      else and_then (say env UNPARSED_CALL) (\<lambda>_. ret (st\<lparr>exit_chat := True\<rparr>)))"

definition add_thinking ::
    "('w, 'r, 's, 'p) reply_env \<Rightarrow> message \<Rightarrow> message_content list \<Rightarrow> 'p turn_state \<Rightarrow> ('w, 's, 'p turn_state) reply" where
  "add_thinking env response reasoning st =
     (if reasoning = [] then ret st
      else and_then (message_uuid env) (\<lambda>i. ret (st\<lparr>messages_to_add :=
        push_message (with_id i (message_new (role response) (created response) reasoning)) (messages_to_add st)\<rparr>)))"

definition run_calls ::
    "('w, 'r, 's, 'p) reply_env \<Rightarrow> categorized \<Rightarrow> 'p turn_state \<Rightarrow> responses \<Rightarrow> ('w, 's, responses \<times> bool) reply" where
  "run_calls env c st m =
     and_then (each (handle_frontend_tool_request (turn_io env)) (frontend_requests c) m) (\<lambda>m.
     if mode env = Chat then ret (fold skip_in_chat (remaining_requests c) m, False)
     else run_remaining (turn_io env) (mode env) (conversation st)
       (metadata_map (frontend_requests c @ remaining_requests c)) (remaining_requests c) m)"

definition tool_turn ::
    "('w, 'r, 's, 'p) reply_env \<Rightarrow> message \<Rightarrow> categorized \<Rightarrow> 'p turn_state \<Rightarrow> ('w, 's, 'p turn_state) reply" where
  "tool_turn env response c st = (let rs = frontend_requests c @ remaining_requests c;
       reasoning = filter is_plain_thinking (content response) in
     and_then (each (prepare_response env) rs (\<lambda>_. None)) (\<lambda>m.
     and_then (run_calls env c st m) (\<lambda>(m, updated).
     and_then (add_thinking env response reasoning (st\<lparr>tools_updated := tools_updated st \<or> updated\<rparr>)) (\<lambda>st.
     and_then (add_pairs env reasoning m rs st) (\<lambda>st.
     ret (st\<lparr>no_tools_called := False, goal_check_pending := False\<rparr>))))))"

definition served :: "inference_metadata option \<Rightarrow> message \<Rightarrow> message" where
  "served i m = (case i of Some who \<Rightarrow> with_inference who m | None \<Rightarrow> m)"

definition handle_response ::
    "('w, 'r, 's, 'p) reply_env \<Rightarrow> message \<Rightarrow> 'p turn_state \<Rightarrow> ('w, 's, 'p turn_state) reply" where
  "handle_response env response st =
     and_then (look (frontend_tools (loop_hooks env))) (\<lambda>frontend.
     let c = categorize_tool_requests (numbers env) frontend (fst (prepared st)) (surfaced_thinking st) response;
         filtered = served (served_by env) (filtered_response c);
         response = served (served_by env) response;
         st = st\<lparr>surfaced_thinking := surfaced_thinking st \<or> list_ex is_any_thinking (content filtered)\<rparr>
     in and_then (yield (MessageEvent filtered)) (\<lambda>_.
        if frontend_requests c = [] \<and> remaining_requests c = []
        then ret (st\<lparr>last_assistant_text := (let t = as_concat_text filtered in
                       if t \<noteq> [] then t else last_assistant_text st),
                     messages_to_add := push_message response (messages_to_add st)\<rparr>)
        else tool_turn env response c st))"

section \<open>Errors of the provider\<close>

definition recover_from_full_context ::
    "('w, 'r, 's, 'p) reply_env \<Rightarrow> 'p turn_state \<Rightarrow> ('w, 's, 'p turn_state) reply" where
  "recover_from_full_context env st =
     (let st = st\<lparr>compaction_attempts := compaction_attempts st + 1\<rparr> in
      if 2 \<le> compaction_attempts st then
        and_then (notify env (lit ''Unable to continue: Context limit still exceeded after compaction. Try using a shorter message, a model with a larger context window, or start a new session.'')) (\<lambda>_.
        ret st)
      else
        and_then (notify env (lit ''Context limit reached. Compacting to continue conversation...'')) (\<lambda>_.
        and_then (show_message (notice env ThinkingMessage (lit ''bharatcode is compacting the conversation...'') None)) (\<lambda>_.
        and_then (attempt (provider env)) (\<lambda>_.
        and_then (lift (compact_messages (compact_io env) (conversation st) False)) (\<lambda>r. case r of
          Err e \<Rightarrow> and_then (say env (lit ''Ran into this error trying to compact: '' @ show_compact_error env e
            @ lit ''.'' @ [newline, newline] @ lit ''Please try again or create a new session'')) (\<lambda>_. ret st)
        | Ok (conv, usage) \<Rightarrow>
            and_then (attempt (replace_conversation env conv)) (\<lambda>_.
            and_then (attempt (update_session_metrics env usage True)) (\<lambda>_.
            and_then (yield (HistoryReplaced conv)) (\<lambda>_.
            ret (st\<lparr>conversation := conv, did_recovery_compact := True\<rparr>)))))))))"

definition json_opt :: "str option \<Rightarrow> json" where
  "json_opt x = (case x of Some s \<Rightarrow> JString s | None \<Rightarrow> JNull)"

definition handle_provider_error ::
    "('w, 'r, 's, 'p) reply_env \<Rightarrow> provider_error \<Rightarrow> 'p turn_state \<Rightarrow> ('w, 's, 'p turn_state) reply" where
  "handle_provider_error env e st =
     (if is_cancelled_error e then ret st
      else if is_deadline e then
        and_then (notify env (lit ''The provider stopped responding and the request was aborted. Please resend your message to try again.'')) (\<lambda>_.
        ret (st\<lparr>exit_chat := True\<rparr>))
      else case e of
        ContextLengthExceeded _ \<Rightarrow> recover_from_full_context env st
      | ProviderRetry.CreditsExhausted _ top_up_url \<Rightarrow>
          and_then (show_message (notice env Message.CreditsExhausted
            (if top_up_url \<noteq> None
             then lit ''Please add credits to your account, then resend your message to continue.''
             else lit ''Please check your account with your provider to add more credits, then resend your message to continue.'')
            (Some (JObject [(lit ''top_up_url'', json_opt top_up_url)])))) (\<lambda>_. ret st)
      | Refusal details category \<Rightarrow>
          and_then (say env (lit ''The provider refused this request.'' @ [newline, newline] @ details
            @ (case category of Some c \<Rightarrow> [newline, newline] @ lit ''Category: '' @ c | None \<Rightarrow> [])
            @ [newline, newline] @ lit ''Please start a new session to continue '' @ [8212]
            @ lit '' resending this conversation is likely to be refused again.'')) (\<lambda>_.
          ret (st\<lparr>exit_chat := True\<rparr>))
      | NetworkError _ \<Rightarrow>
          and_then (say env (show_provider_error env e @ [newline, newline] @ lit ''Please resend your message to try again.'')) (\<lambda>_.
          ret st)
      | _ \<Rightarrow>
          and_then (say env (lit ''Ran into this error: '' @ show_provider_error env e @ lit ''.'' @ [newline, newline]
            @ lit ''Please retry if you think this is a transient or recoverable error.'')) (\<lambda>_.
          ret st))"

section \<open>Reading a stream\<close>

definition handle_item ::
    "('w, 'r, 's, 'p) reply_env \<Rightarrow> message option \<times> 's provider_usage option \<Rightarrow> 'p turn_state \<Rightarrow>
     ('w, 's, 'p turn_state) reply" where
  "handle_item env item st = (let st = st\<lparr>compaction_attempts := 0\<rparr> in
     and_then (case snd item of
         None \<Rightarrow> ret ()
       | Some usage \<Rightarrow> and_then (attempt (update_session_metrics env usage False)) (\<lambda>_. yield (UsageEvent usage))) (\<lambda>_.
     case fst item of None \<Rightarrow> ret st | Some response \<Rightarrow> handle_response env response st))"

fun read_stream ::
    "('w, 'r, 's, 'p) reply_env \<Rightarrow> ('w, 's) stream_item list \<Rightarrow> 'p turn_state \<Rightarrow> ('w, 's, 'p turn_state) reply" where
  "read_stream env [] st = ret st"
| "read_stream env ((arrives, item) # items) st =
     and_then (change arrives) (\<lambda>_.
     and_then (look (token_cancelled (turn_io env))) (\<lambda>stop.
     if stop \<or> exit_chat st then ret st
     else (case item of
       Ok r \<Rightarrow> and_then (handle_item env r st) (read_stream env items)
     | Err e \<Rightarrow> handle_provider_error env e st)))"

section \<open>A turn without tool calls\<close>

definition FINAL_OUTPUT_CONTINUATION_MESSAGE :: str where
  "FINAL_OUTPUT_CONTINUATION_MESSAGE = lit ''You MUST call the `final_output` tool NOW with the final output for the user.''"

text \<open>What the final output tool holds is taken; \<open>None\<close> where there is no such tool.\<close>

definition take_final_output :: "'w agent_state \<Rightarrow> 'w agent_state \<times> str option option" where
  "take_final_output s = (case final_output_tool s of
     None \<Rightarrow> (s, None)
   | Some out \<Rightarrow> (s\<lparr>final_output_tool := Some None\<rparr>, Some out))"

definition add_nudge ::
    "('w, 'r, 's, 'p) reply_env \<Rightarrow> str \<Rightarrow> str \<Rightarrow> 'p turn_state \<Rightarrow> ('w, 's, 'p turn_state) reply" where
  "add_nudge env text shown st =
     and_then (look (asked env text)) (\<lambda>m.
     and_then (notify env shown) (\<lambda>_.
     ret (st\<lparr>messages_to_add := push_message (with_visibility False True m) (messages_to_add st)\<rparr>)))"

definition goal_nudge :: "str \<Rightarrow> str" where
  "goal_nudge g = lit ''Before finishing, check whether the following goal has been fully met:'' @ [newline, newline]
     @ lit ''**Goal:** '' @ g @ [newline, newline] @ lit ''If not, continue working toward it.''"

definition grind_nudge :: "str \<Rightarrow> str" where
  "grind_nudge g = lit ''Keep working. The grind goal is not yet complete:'' @ [newline, newline]
     @ lit ''**Goal:** '' @ g @ [newline, newline] @ lit ''Continue until it is fully done.''"

definition retry_task ::
    "('w, 'r, 's, 'p) reply_env \<Rightarrow> conversation \<Rightarrow> 'w agent_state \<Rightarrow> 'w agent_state \<times> conversation \<times> (str, retry_result) result" where
  "retry_task env conv s =
     (case handle_retry_logic (shell_io env) (retry_config env) (initial_messages env)
         \<lparr>retry_messages = conv, attempts_made = retry_attempts s, recorded_output = final_output_tool s\<rparr> s of
        (s', rs, r) \<Rightarrow>
          (if r = Ok Retried
           then s'\<lparr>retry_attempts := attempts_made rs, final_output_tool := map_option (\<lambda>_. None) (final_output_tool s')\<rparr>
           else s', retry_messages rs, r))"

definition conclude :: "('w, 'r, 's, 'p) reply_env \<Rightarrow> 'p turn_state \<Rightarrow> ('w, 's, 'p turn_state) reply" where
  "conclude env st =
     and_then (change (\<lambda>s. s\<lparr>goal := None, grind := None\<rparr>)) (\<lambda>_.
     and_then (lift (retry_task env (conversation st))) (\<lambda>(conv, r).
     let st = st\<lparr>conversation := conv\<rparr> in
     case r of
       Ok Retried \<Rightarrow>
         and_then (attempt (replace_conversation env conv)) (\<lambda>_.
         and_then (yield (HistoryReplaced conv)) (\<lambda>_.
         ret (st\<lparr>messages_to_add := []\<rparr>)))
     | Ok _ \<Rightarrow> ret (st\<lparr>exit_chat := True\<rparr>)
     | Err e \<Rightarrow>
         and_then (say env (lit ''Retry logic encountered an error: '' @ e)) (\<lambda>_.
         ret (st\<lparr>exit_chat := True\<rparr>))))"

definition nudge_or_conclude :: "('w, 'r, 's, 'p) reply_env \<Rightarrow> 'p turn_state \<Rightarrow> ('w, 's, 'p turn_state) reply" where
  "nudge_or_conclude env st =
     (if did_recovery_compact st then ret st
      else and_then (look (\<lambda>s. (has_pending_steers (sid env) s, goal s, grind s))) (\<lambda>(steers, g, h).
        if steers then ret st
        else if g \<noteq> None \<and> \<not> goal_check_pending st then
          add_nudge env (goal_nudge (the g)) (lit ''Goal: '' @ the g) (st\<lparr>goal_check_pending := True\<rparr>)
        else (case h of
            Some h \<Rightarrow> add_nudge env (grind_nudge h) (lit ''Grind: '' @ h) st
          | None \<Rightarrow> conclude env st)))"

definition without_calls :: "('w, 'r, 's, 'p) reply_env \<Rightarrow> 'p turn_state \<Rightarrow> ('w, 's, 'p turn_state) reply" where
  "without_calls env st =
     (if \<not> (no_tools_called st \<and> \<not> exit_chat st) then ret st
      else and_then (lift take_final_output) (\<lambda>out. case out of
          Some None \<Rightarrow>
            and_then (look (asked env FINAL_OUTPUT_CONTINUATION_MESSAGE)) (\<lambda>m.
            and_then (yield (MessageEvent m)) (\<lambda>_.
            ret (st\<lparr>messages_to_add := push_message m (messages_to_add st)\<rparr>)))
        | Some (Some text) \<Rightarrow> ret (st\<lparr>pending_final_output := Some text, exit_chat := True\<rparr>)
        | None \<Rightarrow> nudge_or_conclude env st))"

section \<open>Summaries of old calls\<close>

type_synonym 'w summary_task = "'w agent_state \<Rightarrow> 'w agent_state \<times> (message \<times> str) list"

definition current_turn_tool_count :: "('w, 'r, 's, 'p) reply_env \<Rightarrow> conversation \<Rightarrow> nat" where
  "current_turn_tool_count env conv =
     length (filter is_tool_request (concat (map content conv))) - pre_turn_tool_count env"

definition start_summaries ::
    "('w, 'r, 's, 'p) reply_env \<Rightarrow> 'p reply_state \<Rightarrow> ('w, 's, 'w summary_task option) reply" where
  "start_summaries env st =
     (if tool_pair_summarization_done st then ret None
      else and_then (attempt (provider env)) (\<lambda>_.
        look (maybe_summarize_tool_pairs (compact_io env) (summary_prompt env) (conversation st)
          (tool_call_cut_off env) (current_turn_tool_count env (conversation st)))))"

definition matching_ids :: "str \<Rightarrow> conversation \<Rightarrow> str list" where
  "matching_ids i conv = List.map_filter msg_id (filter (has_tool_id i) conv)"

definition hide_one :: "('w, 'r, 's, 'p) reply_env \<Rightarrow> str \<Rightarrow> unit \<Rightarrow> ('w, 's, unit) reply" where
  "hide_one env i _ = attempt (hide_message env i)"

definition apply_summary ::
    "('w, 'r, 's, 'p) reply_env \<Rightarrow> conversation \<Rightarrow> message \<times> str \<Rightarrow> unit \<Rightarrow> ('w, 's, unit) reply" where
  "apply_summary env conv summary _ = (let is = matching_ids (snd summary) conv in
     if length is = 2 then and_then (each (hide_one env) is ()) (\<lambda>_. store env (fst summary))
     else ret ())"

definition apply_summaries ::
    "('w, 'r, 's, 'p) reply_env \<Rightarrow> 'w summary_task option \<Rightarrow> 'p turn_state \<Rightarrow> ('w, 's, 'p turn_state) reply" where
  "apply_summaries env task st = (case task of
     None \<Rightarrow> ret st
   | Some t \<Rightarrow>
       and_then (look (\<lambda>s. token_cancelled (turn_io env) s \<and> task_aborted env s)) (\<lambda>aborted.
       if aborted then ret (st\<lparr>tool_pair_summarization_done := True\<rparr>)
       else and_then (lift t) (\<lambda>summaries.
            and_then (each (apply_summary env (conversation st)) summaries ()) (\<lambda>_.
            ret (st\<lparr>tool_pair_summarization_done := True\<rparr>)))))"

section \<open>The end of a turn\<close>

definition store_each :: "('w, 'r, 's, 'p) reply_env \<Rightarrow> message \<Rightarrow> unit \<Rightarrow> ('w, 's, unit) reply" where
  "store_each env m _ = store env m"

definition add_final_output :: "('w, 'r, 's, 'p) reply_env \<Rightarrow> 'p turn_state \<Rightarrow> ('w, 's, 'p turn_state) reply" where
  "add_final_output env st = (case pending_final_output st of
     None \<Rightarrow> ret st
   | Some out \<Rightarrow>
       and_then (look (said env out)) (\<lambda>m.
       and_then (yield (MessageEvent m)) (\<lambda>_.
       ret (st\<lparr>messages_to_add := push_message m (messages_to_add st), pending_final_output := None\<rparr>))))"

definition finished_messages :: "('w, 'r, 's, 'p) reply_env \<Rightarrow> conversation \<Rightarrow> conversation" where
  "finished_messages env ms = (case served_by env of
     Some who \<Rightarrow> map (with_inference_if_assistant who) ms | None \<Rightarrow> ms)"

definition commit_messages :: "('w, 'r, 's, 'p) reply_env \<Rightarrow> 'p turn_state \<Rightarrow> ('w, 's, 'p turn_state) reply" where
  "commit_messages env st = (let ms = finished_messages env (messages_to_add st) in
     and_then (each (store_each env) ms ()) (\<lambda>_.
     ret (st\<lparr>conversation := extend_conversation ms (conversation st)\<rparr>)))"

definition end_turn :: "('w, 'r, 's, 'p) reply_env \<Rightarrow> 'p turn_state \<Rightarrow> ('w, 's, flow \<times> 'p reply_state) reply" where
  "end_turn env st =
     and_then (look (has_pending_steers (sid env))) (\<lambda>steers.
     if exit_chat st \<and> \<not> steers then stop_or_go env (reply_state.truncate st)
     else ret (Continue, reply_state.truncate st))"

definition refresh_tools :: "('w, 'r, 's, 'p) reply_env \<Rightarrow> 'p turn_state \<Rightarrow> ('w, 's, 'p turn_state) reply" where
  "refresh_tools env st =
     and_then (if tools_updated st
       then and_then (attempt (prepare_tools_and_prompt env)) (\<lambda>ps. ret (st\<lparr>prepared := ps\<rparr>)) else ret st) (\<lambda>st.
     and_then (lift (load_subdirectory_hints env)) (\<lambda>new_hints.
     if new_hints \<and> \<not> tools_updated st
     then and_then (attempt (prepare_tools_and_prompt env)) (\<lambda>ps. ret (st\<lparr>prepared := ps\<rparr>)) else ret st))"

definition run_turn :: "('w, 'r, 's, 'p) reply_env \<Rightarrow> 'p reply_state \<Rightarrow> ('w, 's, flow \<times> 'p reply_state) reply" where
  "run_turn env st =
     and_then (lift (inject_moim env (conversation st) (turns_taken st) (max_turns env))) (\<lambda>conv.
     and_then (attempt (provider env)) (\<lambda>_.
     and_then (attempt (stream_response env (prepared st) conv)) (\<lambda>items.
     and_then (start_summaries env st) (\<lambda>task.
     and_then (read_stream env items (begin_turn st)) (\<lambda>t.
     and_then (refresh_tools env (t\<lparr>can_drain_pending_steers := True\<rparr>)) (\<lambda>t.
     and_then (without_calls env t) (\<lambda>t.
     and_then (apply_summaries env task t) (\<lambda>t.
     and_then (add_final_output env t) (\<lambda>t.
     and_then (commit_messages env t) (end_turn env))))))))))"

section \<open>The loop\<close>

definition MAX_TURNS_TEXT :: str where
  "MAX_TURNS_TEXT = lit ''I'' @ [39] @ lit ''ve reached the maximum number of actions I can do without user input. Would you like me to continue?''"

definition take_turn :: "('w, 'r, 's, 'p) reply_env \<Rightarrow> 'p reply_state \<Rightarrow> ('w, 's, flow \<times> 'p reply_state) reply" where
  "take_turn env st = (let st = (if retrying_after_stop_hook_denial st
         then st\<lparr>retrying_after_stop_hook_denial := False\<rparr>
         else st\<lparr>turns_taken := increment (turns_taken st)\<rparr>) in
     if max_turns env < turns_taken st then and_then (say env MAX_TURNS_TEXT) (\<lambda>_. ret (Break, st))
     else run_turn env st)"

definition report_final_output ::
    "('w, 'r, 's, 'p) reply_env \<Rightarrow> str \<Rightarrow> 'p reply_state \<Rightarrow> ('w, 's, flow \<times> 'p reply_state) reply" where
  "report_final_output env out st =
     and_then (look (said env out)) (\<lambda>m.
     and_then (yield (MessageEvent m)) (\<lambda>_.
     and_then (store env m) (\<lambda>_.
     stop_or_go env (st\<lparr>conversation := push_message m (conversation st)\<rparr>))))"

definition iteration :: "('w, 'r, 's, 'p) reply_env \<Rightarrow> 'p reply_state \<Rightarrow> ('w, 's, flow \<times> 'p reply_state) reply" where
  "iteration env st =
     and_then (look (token_cancelled (turn_io env))) (\<lambda>stop.
     if stop then ret (Break, st)
     else and_then (take_steers env st) (\<lambda>st.
       and_then (lift take_final_output) (\<lambda>out. case out of
         Some (Some text) \<Rightarrow> report_final_output env text st
       | _ \<Rightarrow> take_turn env st)))"

text \<open>The loop, with a bound on its iterations: \<open>None\<close> where they do not suffice.\<close>

fun reply_loop ::
    "nat \<Rightarrow> ('w, 'r, 's, 'p) reply_env \<Rightarrow> 'p reply_state \<Rightarrow> 'w agent_state \<Rightarrow>
     ('s agent_event list \<times> (str, 'p reply_state) result \<times> 'w agent_state) option" where
  "reply_loop 0 env st s = None"
| "reply_loop (Suc n) env st s = (case iteration env st s of
     (es, Err e, s') \<Rightarrow> Some (es, Err e, s')
   | (es, Ok (Break, st'), s') \<Rightarrow> Some (es, Ok st', s')
   | (es, Ok (Continue, st'), s') \<Rightarrow> map_option (\<lambda>(es', r). (es @ es', r)) (reply_loop n env st' s'))"

text \<open>After the loop the stop hook is told, unless it was asked on the way out.\<close>

definition after_loop :: "('w, 'r, 's, 'p) reply_env \<Rightarrow> 'p reply_state \<Rightarrow> 'w agent_state \<Rightarrow> 'w agent_state" where
  "after_loop env st s = (let h = loop_hooks env in
     if \<not> stop_hook_handled_for_exit st \<and> has_hooks (hooks h) Stop
     then emit (hooks_io h) (hooks h) Stop (new_context Stop (sid env)) s else s)"

section \<open>What a turn leaves alone\<close>

text \<open>The counters of the loop, which only the loop itself changes.\<close>

definition counts :: "('p, 'a) reply_state_scheme \<Rightarrow> nat \<times> nat \<times> bool \<times> bool" where
  "counts st = (turns_taken st, consecutive_stop_hook_blocks st, retrying_after_stop_hook_denial st,
     stop_hook_handled_for_exit st)"

lemma counts_turn_updates [simp]:
  "counts (st\<lparr>no_tools_called := b\<rparr>) = counts st" "counts (st\<lparr>messages_to_add := ms\<rparr>) = counts st"
  "counts (st\<lparr>tools_updated := b\<rparr>) = counts st" "counts (st\<lparr>did_recovery_compact := b\<rparr>) = counts st"
  "counts (st\<lparr>exit_chat := b\<rparr>) = counts st" "counts (st\<lparr>pending_final_output := x\<rparr>) = counts st"
  "counts (st\<lparr>surfaced_thinking := b\<rparr>) = counts st"
  by (simp_all add: counts_def)

lemma counts_updates [simp]:
  "counts (st\<lparr>conversation := a\<rparr>) = counts st" "counts (st\<lparr>compaction_attempts := n\<rparr>) = counts st"
  "counts (st\<lparr>last_assistant_text := a2\<rparr>) = counts st" "counts (st\<lparr>goal_check_pending := b\<rparr>) = counts st"
  "counts (st\<lparr>tool_pair_summarization_done := b\<rparr>) = counts st" "counts (st\<lparr>can_drain_pending_steers := b\<rparr>) = counts st"
  "counts (st\<lparr>prepared := c\<rparr>) = counts st"
  by (simp_all add: counts_def)

lemma counts_begin [simp]: "counts (begin_turn st) = counts st" "counts (reply_state.truncate t) = counts t"
  by (simp_all add: counts_def begin_turn_def reply_state.defs)

definition framed :: "(('w, 's, ('p, 'a) reply_state_scheme) reply) \<Rightarrow> nat \<times> nat \<times> bool \<times> bool \<Rightarrow> bool" where
  "framed m k = returns m (\<lambda>st. counts st = k)"

lemma framed_ret [simp]: "framed (ret st) k = (counts st = k)"
  by (simp add: framed_def)

lemma framed_then: "(\<And>x. framed (f x) k) \<Longrightarrow> framed (and_then m f) k"
  by (simp add: framed_def returns_then)

lemma framed_and_then: "framed m k \<Longrightarrow> (\<And>st. counts st = k \<Longrightarrow> framed (f st) k) \<Longrightarrow> framed (and_then m f) k"
  by (auto simp: framed_def intro: returns_and_then)

lemma framed_each: "(\<And>x st. counts st = k \<Longrightarrow> framed (f x st) k) \<Longrightarrow> counts st = k \<Longrightarrow> framed (each f xs st) k"
  unfolding framed_def by (rule returns_each)

lemma framed_if: "(b \<Longrightarrow> framed m k) \<Longrightarrow> (\<not> b \<Longrightarrow> framed n k) \<Longrightarrow> framed (if b then m else n) k"
  by simp

lemma framed_fail [simp]: "framed (fail e) k"
  by (simp add: framed_def)

lemma add_pairs_framed: "counts st = k \<Longrightarrow> framed (add_pairs env reasoning m rs st) k"
  by (induction rs arbitrary: m st) (auto intro!: framed_then)

lemma add_thinking_framed: "counts st = k \<Longrightarrow> framed (add_thinking env response reasoning st) k"
  by (auto simp: add_thinking_def intro!: framed_then)

lemma tool_turn_framed: "counts st = k \<Longrightarrow> framed (tool_turn env response c st) k"
  unfolding tool_turn_def Let_def case_prod_beta
  by (intro framed_then framed_and_then [OF add_thinking_framed] framed_and_then [OF add_pairs_framed]) simp_all

lemma handle_response_framed: "counts st = k \<Longrightarrow> framed (handle_response env response st) k"
  unfolding handle_response_def Let_def
  by (intro framed_then framed_if tool_turn_framed) simp_all

lemma handle_item_framed: "counts st = k \<Longrightarrow> framed (handle_item env item st) k"
  unfolding handle_item_def Let_def
  by (intro framed_then) (simp add: handle_response_framed split: option.split)

lemma recover_framed: "counts st = k \<Longrightarrow> framed (recover_from_full_context env st) k"
  unfolding recover_from_full_context_def Let_def
  by (intro framed_if framed_then) (auto intro!: framed_then split: sum.split prod.split)

lemma handle_provider_error_framed: "counts st = k \<Longrightarrow> framed (handle_provider_error env e st) k"
  unfolding handle_provider_error_def
  by (auto intro!: framed_if framed_then recover_framed split: provider_error.split)

lemma read_stream_framed: "counts st = k \<Longrightarrow> framed (read_stream env items st) k"
proof (induction items arbitrary: st k)
  case (Cons item items)
  obtain arrives r where "item = (arrives, r)" by fastforce
  then show ?case
    using Cons.prems
    by (simp only: read_stream.simps, intro framed_then framed_if)
       (auto intro!: framed_and_then [OF handle_item_framed] Cons.IH handle_provider_error_framed split: sum.split)
qed simp

lemma refresh_tools_framed: "counts st = k \<Longrightarrow> framed (refresh_tools env st) k"
  unfolding refresh_tools_def
  by (rule framed_and_then) (auto intro!: framed_then framed_if)

lemma add_nudge_framed: "counts st = k \<Longrightarrow> framed (add_nudge env text shown st) k"
  by (simp add: add_nudge_def framed_then)

lemma conclude_framed: "counts st = k \<Longrightarrow> framed (conclude env st) k"
  unfolding conclude_def Let_def
  by (auto intro!: framed_then split: sum.split retry_result.split prod.split)

lemma nudge_or_conclude_framed: "counts st = k \<Longrightarrow> framed (nudge_or_conclude env st) k"
  unfolding nudge_or_conclude_def case_prod_beta
  by (intro framed_then framed_if) (simp_all add: add_nudge_framed conclude_framed split: option.split)

lemma without_calls_framed: "counts st = k \<Longrightarrow> framed (without_calls env st) k"
  unfolding without_calls_def
  by (auto intro!: framed_then framed_if nudge_or_conclude_framed split: option.split)

lemma apply_summaries_framed: "counts st = k \<Longrightarrow> framed (apply_summaries env task st) k"
  unfolding apply_summaries_def by (auto intro!: framed_then framed_if split: option.split)

lemma add_final_output_framed: "counts st = k \<Longrightarrow> framed (add_final_output env st) k"
  unfolding add_final_output_def by (auto intro!: framed_then split: option.split)

lemma commit_messages_framed: "counts st = k \<Longrightarrow> framed (commit_messages env st) k"
  unfolding commit_messages_def Let_def by (auto intro!: framed_then)

lemma take_steers_framed: "counts st = k \<Longrightarrow> framed (take_steers env st) k"
  unfolding take_steers_def take_steer_def
  by (auto intro!: framed_then framed_if framed_each)

section \<open>How the loop goes on\<close>

text \<open>A denied stop: one more block on the count, within the cap, and the next turn is not counted.\<close>

definition denied_stop :: "('w, 'r, 's, 'p) reply_env \<Rightarrow> 'p reply_state \<Rightarrow> 'p reply_state \<Rightarrow> bool" where
  "denied_stop env st st' = (consecutive_stop_hook_blocks st' = increment (consecutive_stop_hook_blocks st)
     \<and> consecutive_stop_hook_blocks st' \<le> stop_hook_block_cap env \<and> retrying_after_stop_hook_denial st')"

definition next_turn :: "'p reply_state \<Rightarrow> nat" where
  "next_turn st = (if retrying_after_stop_hook_denial st then turns_taken st else increment (turns_taken st))"

definition goes_on :: "('w, 'r, 's, 'p) reply_env \<Rightarrow> 'p reply_state \<Rightarrow> 'p reply_state \<Rightarrow> bool" where
  "goes_on env st st' =
     (turns_taken st' = turns_taken st \<and> denied_stop env st st'
      \<or> next_turn st \<le> max_turns env \<and> turns_taken st' = next_turn st
        \<and> (denied_stop env st st' \<or> consecutive_stop_hook_blocks st' = consecutive_stop_hook_blocks st
             \<and> \<not> retrying_after_stop_hook_denial st'))"

lemma stop_or_go_returns:
  "returns (stop_or_go env st) (\<lambda>(f, st'). turns_taken st' = turns_taken st
     \<and> (f = Break \<and> stop_hook_handled_for_exit st' \<or> f = Continue \<and> denied_stop env st st'))"
  unfolding stop_or_go_def Let_def
  by (rule returns_then) (auto intro!: returns_then returns_if simp: denied_stop_def split: hook_decision.split)

lemma end_turn_returns:
  "returns (end_turn env t) (\<lambda>(f, st'). turns_taken st' = turns_taken t
     \<and> (f = Break \<and> stop_hook_handled_for_exit st'
        \<or> f = Continue \<and> (denied_stop env (reply_state.truncate t) st' \<or> st' = reply_state.truncate t)))"
proof -
  have "turns_taken (reply_state.truncate t) = turns_taken t" by (simp add: reply_state.defs)
  then show ?thesis
    unfolding end_turn_def
    by (intro returns_then returns_if returns_mono [OF stop_or_go_returns]) auto
qed

text \<open>A turn that was begun ends with the stop hook or goes on.\<close>

lemma run_turn_returns:
  fixes env :: "('w, 'r, 's, 'p) reply_env"
  assumes r: "\<not> retrying_after_stop_hook_denial st"
  shows "returns (run_turn env st :: ('w, 's, flow \<times> 'p reply_state) reply) (\<lambda>(f, st'). turns_taken st' = turns_taken st
     \<and> (f = Break \<and> stop_hook_handled_for_exit st'
        \<or> f = Continue \<and> (denied_stop env st st' \<or> consecutive_stop_hook_blocks st' = consecutive_stop_hook_blocks st
             \<and> \<not> retrying_after_stop_hook_denial st')))" (is "returns _ ?Q")
proof -
  have last: "returns (end_turn env t :: ('w, 's, flow \<times> 'p reply_state) reply) ?Q"
    if "counts t = counts st" for t :: "'p turn_state"
  proof -
    have c: "counts (reply_state.truncate t) = counts st" using that by simp
    then show ?thesis
      using that r by (intro returns_mono [OF end_turn_returns]) (auto simp: counts_def denied_stop_def)
  qed
  let ?k = "counts st"
  have step: "returns (and_then m f) ?Q" if "framed m ?k" "\<And>t. counts t = ?k \<Longrightarrow> returns (f t) ?Q"
    for m and f :: "'p turn_state \<Rightarrow> ('w, 's, flow \<times> 'p reply_state) reply"
    using that unfolding framed_def by (rule returns_and_then)
  show ?thesis
    unfolding run_turn_def
    by (intro returns_then step [OF read_stream_framed] step [OF refresh_tools_framed] step [OF without_calls_framed]
        step [OF apply_summaries_framed] step [OF add_final_output_framed] step [OF commit_messages_framed] last) simp_all
qed

lemma report_final_output_returns:
  "returns (report_final_output env out st) (\<lambda>(f, st'). turns_taken st' = turns_taken st
     \<and> (f = Break \<and> stop_hook_handled_for_exit st' \<or> f = Continue \<and> denied_stop env st st'))"
  unfolding report_final_output_def
  by (intro returns_then returns_mono [OF stop_or_go_returns]) (auto simp: denied_stop_def)

lemma take_turn_returns:
  "returns (take_turn env st) (\<lambda>(f, st').
     f = Break \<and> (stop_hook_handled_for_exit st' \<or> max_turns env < turns_taken st') \<or> f = Continue \<and> goes_on env st st')"
proof -
  define st1 where "st1 = (if retrying_after_stop_hook_denial st
         then st\<lparr>retrying_after_stop_hook_denial := False\<rparr>
         else st\<lparr>turns_taken := increment (turns_taken st)\<rparr>)"
  have st1: "\<not> retrying_after_stop_hook_denial st1" "turns_taken st1 = next_turn st"
    "consecutive_stop_hook_blocks st1 = consecutive_stop_hook_blocks st"
    by (simp_all add: st1_def next_turn_def)
  show ?thesis
    unfolding take_turn_def Let_def st1_def [symmetric]
    by (intro returns_if returns_then returns_mono [OF run_turn_returns [OF st1(1)]])
       (use st1 in \<open>auto simp: goes_on_def denied_stop_def\<close>)
qed

lemma iteration_returns:
  fixes env :: "('w, 'r, 's, 'p) reply_env"
  assumes "iteration env st s = (es :: 's agent_event list, Ok (f, st'), s')"
  shows "f = Break \<and> (stop_hook_handled_for_exit st' \<or> max_turns env < turns_taken st' \<or> token_cancelled (turn_io env) s')
    \<or> f = Continue \<and> goes_on env st st'"
proof (cases "token_cancelled (turn_io env) s")
  case True
  with assms show ?thesis by (auto simp: iteration_def and_then_def look_def ret_def)
next
  case False
  let ?Q = "\<lambda>(f, st'). f = Break \<and> (stop_hook_handled_for_exit st' \<or> max_turns env < turns_taken st')
    \<or> f = Continue \<and> goes_on env st st'"
  let ?rest = "and_then (take_steers env st) (\<lambda>st. and_then (lift take_final_output) (\<lambda>out. case out of
         Some (Some text) \<Rightarrow> report_final_output env text st | _ \<Rightarrow> take_turn env st)) :: ('w, 's, flow \<times> 'p reply_state) reply"
  have same: "goes_on env st1 = goes_on env st" if "counts st1 = counts st" for st1 :: "'p reply_state"
    using that by (auto simp: fun_eq_iff goes_on_def denied_stop_def next_turn_def counts_def)
  have t: "turns_taken st1 = turns_taken st" "denied_stop env st1 = denied_stop env st" if "counts st1 = counts st" for st1 :: "'p reply_state"
    using that by (auto simp: fun_eq_iff denied_stop_def counts_def)
  have "returns ?rest ?Q"
  proof (rule returns_and_then [OF take_steers_framed [OF refl, unfolded framed_def]], rule returns_then)
    fix st1 :: "'p reply_state" and out :: "str option option"
    assume c: "counts st1 = counts st"
    have "returns (report_final_output env o1 st1 :: ('w, 's, flow \<times> 'p reply_state) reply) ?Q" for o1
      by (rule returns_mono [OF report_final_output_returns]) (use t [OF c] in \<open>auto simp: goes_on_def\<close>)
    moreover have "returns (take_turn env st1 :: ('w, 's, flow \<times> 'p reply_state) reply) ?Q"
      by (rule returns_mono [OF take_turn_returns]) (use same [OF c] in auto)
    ultimately show "returns ((case out of Some (Some text) \<Rightarrow> report_final_output env text st1
       | _ \<Rightarrow> take_turn env st1) :: ('w, 's, flow \<times> 'p reply_state) reply) ?Q"
      by (simp split: option.split)
  qed
  moreover have "?rest s = (es, Ok (f, st'), s')"
    using assms False by (auto simp: iteration_def and_then_def [of "look _"] look_def split: prod.splits)
  ultimately have "?Q (f, st')" by (rule returnsD)
  then show ?thesis by auto
qed

section \<open>The loop ends\<close>

text \<open>What the loop may still use up: twice the stops that may be denied, and the turns.\<close>

definition within_bounds :: "('w, 'r, 's, 'p) reply_env \<Rightarrow> 'p reply_state \<Rightarrow> bool" where
  "within_bounds env st = (turns_taken st \<le> max_turns env \<and> consecutive_stop_hook_blocks st \<le> stop_hook_block_cap env)"

definition budget :: "('w, 'r, 's, 'p) reply_env \<Rightarrow> 'p reply_state \<Rightarrow> nat" where
  "budget env st = 2 * (stop_hook_block_cap env - consecutive_stop_hook_blocks st) + (max_turns env - turns_taken st)
     + (if retrying_after_stop_hook_denial st then 1 else 0)"

lemma goes_on_decreases:
  assumes "goes_on env st st'" "within_bounds env st"
    and "max_turns env < U32 - 1" "stop_hook_block_cap env < U32 - 1"
  shows "within_bounds env st' \<and> budget env st' < budget env st"
proof -
  have "increment (turns_taken st) = turns_taken st + 1"
    "increment (consecutive_stop_hook_blocks st) = consecutive_stop_hook_blocks st + 1"
    using assms(2-) by (simp_all add: increment_def within_bounds_def U32_def)
  then show ?thesis
    using assms(1,2)
    by (auto simp: goes_on_def denied_stop_def next_turn_def within_bounds_def budget_def split: if_splits)
qed

lemma reply_loop_returns:
  assumes "within_bounds env st" "budget env st < n"
    and b: "max_turns env < U32 - 1" "stop_hook_block_cap env < U32 - 1"
  shows "\<exists>r. reply_loop n env st s = Some r"
  using assms(1,2)
proof (induction n arbitrary: st s)
  case (Suc n)
  obtain es r s' where it: "iteration env st s = (es, r, s')" by (metis prod_cases3)
  show ?case
  proof (cases r)
    case (Inr fst')
    obtain f st' where f: "fst' = (f, st')" by fastforce
    show ?thesis
    proof (cases f)
      case Continue
      with it Inr f have "goes_on env st st'" using iteration_returns [of env st s es f st' s'] by simp
      then have "within_bounds env st'" "budget env st' < n"
        using goes_on_decreases [OF _ Suc.prems(1) b, of st'] Suc.prems(2) by linarith+
      from Suc.IH [OF this, of s'] it Inr f Continue show ?thesis by auto
    qed (use it Inr f in simp)
  qed (use it in simp)
qed simp

lemma reply_loop_more: "reply_loop n env st s = Some r \<Longrightarrow> n \<le> k \<Longrightarrow> reply_loop k env st s = Some r"
proof (induction n arbitrary: k st s r)
  case (Suc n)
  then obtain k' where k: "k = Suc k'" "n \<le> k'" by (cases k) auto
  obtain es q s' where it: "iteration env st s = (es, q, s')" by (metis prod_cases3)
  show ?case
    using Suc.prems(1) Suc.IH [OF _ k(2)]
    by (auto simp: k(1) it split: sum.splits prod.splits flow.splits)
qed simp

text \<open>
  C2. The reply loop ends: whatever the provider, the tools, the hooks and the user do, it returns, or fails
  with an error, after at most the number of turns allowed, plus two rounds for every stop that may be
  denied, plus one, as long as the two limits are below the largest \<open>u32\<close>.
\<close>

theorem reply_loop_ends:
  assumes "max_turns env < U32 - 1" and "stop_hook_block_cap env < U32 - 1"
    and "max_turns env + 2 * stop_hook_block_cap env + 1 \<le> n"
  shows "\<exists>r. reply_loop n env (initial_state conv ps) s = Some r
    \<and> reply_loop (max_turns env + 2 * stop_hook_block_cap env + 1) env (initial_state conv ps) s = Some r"
proof -
  have "\<exists>r. reply_loop (max_turns env + 2 * stop_hook_block_cap env + 1) env (initial_state conv ps) s = Some r"
    by (rule reply_loop_returns) (use assms in \<open>simp_all add: within_bounds_def budget_def initial_state_def\<close>)
  with assms(3) reply_loop_more show ?thesis by blast
qed

section \<open>The ways out\<close>

text \<open>
  What stands at the end of a reply, seen from its events and its worlds: the stop hook was run and
  allowed the end, which was the last thing done; or it was run and denied once more after as many denials
  as may be given in a row were shown to the user, who was then told that it is overruled.
\<close>

definition denial_shown :: "'s agent_event \<Rightarrow> bool" where
  "denial_shown e = (case e of
     MessageEvent m \<Rightarrow> (\<exists>plugin. content m = [mk_system_notification InlineMessage (stop_hook_denial_notification plugin) None])
   | _ \<Rightarrow> False)"

definition denials_shown :: "'s agent_event list \<Rightarrow> nat" where
  "denials_shown es = length (filter denial_shown es)"

definition stop_hook_says ::
    "('w, 'r, 's, 'p) reply_env \<Rightarrow> 'w agent_state \<Rightarrow> 'w agent_state \<times> hook_decision \<Rightarrow> bool" where
  "stop_hook_says env s told = (emit_blocking (hooks_io (loop_hooks env)) (hooks (loop_hooks env)) Stop
     (new_context Stop (sid env)) s = told)"

definition stop_allowed :: "('w, 'r, 's, 'p) reply_env \<Rightarrow> 'w agent_state \<Rightarrow> bool" where
  "stop_allowed env s' = (\<exists>s. stop_hook_says env s (s', HookAllow))"

definition stop_overruled ::
    "('w, 'r, 's, 'p) reply_env \<Rightarrow> nat \<Rightarrow> 's agent_event list \<Rightarrow> 'w agent_state \<Rightarrow> bool" where
  "stop_overruled env k es s' = (\<exists>s t why plugin m. stop_hook_says env s (t, HookDeny why plugin)
     \<and> m = notice env InlineMessage (stop_hook_block_cap_warning plugin (stop_hook_block_cap env)) None t
     \<and> add_message env m t = (s', Ok ())
     \<and> es \<noteq> [] \<and> last es = MessageEvent m \<and> stop_hook_block_cap env \<le> k + denials_shown es)"

definition turns_used_up :: "('w, 'r, 's, 'p) reply_env \<Rightarrow> 's agent_event list \<Rightarrow> 'p reply_state \<Rightarrow> 'w agent_state \<Rightarrow> bool" where
  "turns_used_up env es st' s' = (max_turns env < turns_taken st' \<and> es \<noteq> []
     \<and> last es = MessageEvent (said env MAX_TURNS_TEXT s'))"

text \<open>How a computation of the loop ends where \<open>k\<close> denials came before it.\<close>

definition ends_well ::
    "('w, 'r, 's, 'p) reply_env \<Rightarrow> nat \<Rightarrow> 's agent_event list \<Rightarrow> flow \<times> 'p reply_state \<Rightarrow> 'w agent_state \<Rightarrow> bool" where
  "ends_well env k es r s' = (case r of
     (Continue, st') \<Rightarrow> consecutive_stop_hook_blocks st' \<le> k + denials_shown es
   | (Break, st') \<Rightarrow> token_cancelled (turn_io env) s' \<or> turns_used_up env es st' s' \<or> stop_allowed env s'
       \<or> stop_overruled env k es s')"

definition leaves :: "('w, 's, flow \<times> 'p reply_state) reply \<Rightarrow> ('w, 'r, 's, 'p) reply_env \<Rightarrow> nat \<Rightarrow> bool" where
  "leaves m env k = (\<forall>s es r s'. m s = (es, Ok r, s') \<longrightarrow> ends_well env k es r s')"

lemma denials_shown_append [simp]: "denials_shown (es @ fs) = denials_shown es + denials_shown fs"
  by (simp add: denials_shown_def)

lemma denials_shown_Nil [simp]: "denials_shown [] = 0"
  by (simp add: denials_shown_def)

lemma notice_shown: "denials_shown [MessageEvent (notice env InlineMessage (stop_hook_denial_notification plugin) None s)] = 1"
  by (auto simp: denials_shown_def denial_shown_def notice_def with_system_notification_def with_metadata_def
      with_content_def message_assistant_def message_new_def)

lemma stop_overruled_shift:
  "stop_overruled env l fs s' \<Longrightarrow> l \<le> k + denials_shown es \<Longrightarrow> stop_overruled env k (es @ fs) s'"
  unfolding stop_overruled_def denials_shown_append by (elim exE conjE, intro exI conjI) (assumption | simp)+

lemma ends_well_shift:
  "ends_well env l fs r s' \<Longrightarrow> l \<le> k + denials_shown es \<Longrightarrow> ends_well env k (es @ fs) r s'"
  using stop_overruled_shift [of env l fs s' k es]
  by (cases r; cases "fst r") (auto simp: ends_well_def turns_used_up_def)

lemma leaves_then: "(\<And>x. leaves (f x) env k) \<Longrightarrow> leaves (and_then m f) env k"
  unfolding leaves_def and_then_def
  by (auto split: prod.splits sum.splits intro!: ends_well_shift [where l = k])

lemma leaves_framed: "framed m c \<Longrightarrow> (\<And>st. counts st = c \<Longrightarrow> leaves (f st) env k) \<Longrightarrow> leaves (and_then m f) env k"
  unfolding leaves_def and_then_def framed_def
  by (auto split: prod.splits sum.splits intro!: ends_well_shift [where l = k] dest: returnsD)

lemma leaves_if: "(b \<Longrightarrow> leaves m env k) \<Longrightarrow> (\<not> b \<Longrightarrow> leaves n env k) \<Longrightarrow> leaves (if b then m else n) env k"
  by simp

lemma leaves_continue: "consecutive_stop_hook_blocks st \<le> k \<Longrightarrow> leaves (ret (Continue, st)) env k"
  by (simp add: leaves_def ret_def ends_well_def)

lemma increment_le: "increment n \<le> Suc n"
  unfolding increment_def by (metis Suc_eq_plus1 mod_less_eq_dividend)

lemma stop_or_go_leaves:
  assumes "consecutive_stop_hook_blocks st \<le> k"
  shows "leaves (stop_or_go env st) env k"
  unfolding leaves_def
proof (intro allI impI)
  fix s es r s'
  assume run: "stop_or_go env st s = (es, Ok r, s')"
  obtain t d where hook: "emit_blocking (hooks_io (loop_hooks env)) (hooks (loop_hooks env)) Stop
      (new_context Stop (sid env)) s = (t, d)" by fastforce
  then have says: "stop_hook_says env s (t, d)" by (simp add: stop_hook_says_def)
  have n: "increment (consecutive_stop_hook_blocks st) \<le> k + 1"
    using assms increment_le [of "consecutive_stop_hook_blocks st"] by linarith
  show "ends_well env k es r s'"
  proof (cases d)
    case HookAllow
    with run hook says show ?thesis
      by (auto simp: stop_or_go_def ask_stop_hook_def and_then_def lift_def ret_def Let_def ends_well_def stop_allowed_def)
  next
    case (HookDeny why plugin)
    show ?thesis
    proof (cases "stop_hook_block_cap env < increment (consecutive_stop_hook_blocks st)")
      case True
      define m where "m = notice env InlineMessage (stop_hook_block_cap_warning plugin (stop_hook_block_cap env)) None t"
      from run hook HookDeny True have "add_message env m t = (s', Ok ())" "es = [MessageEvent m]" "fst r = Break"
        by (auto simp: stop_or_go_def ask_stop_hook_def and_then_def lift_def look_def ret_def yield_def store_def
            attempt_def Let_def m_def [symmetric] split: prod.splits sum.splits)
      moreover from True n have "stop_hook_block_cap env \<le> k" by linarith
      ultimately show ?thesis using says HookDeny
        by (cases r) (auto simp: ends_well_def stop_overruled_def m_def)
    next
      case False
      from run hook HookDeny False n show ?thesis
        by (auto simp: stop_or_go_def ask_stop_hook_def and_then_def lift_def look_def ret_def yield_def store_def
            attempt_def notify_def show_message_def Let_def ends_well_def notice_shown split: prod.splits sum.splits)
    qed
  qed
qed

lemma counts_blocks: "counts st = counts st' \<Longrightarrow> consecutive_stop_hook_blocks st = consecutive_stop_hook_blocks st'"
  by (simp add: counts_def)

lemma end_turn_leaves:
  assumes "counts t = counts st" and "consecutive_stop_hook_blocks st \<le> k"
  shows "leaves (end_turn env t) env k"
proof -
  have "consecutive_stop_hook_blocks (reply_state.truncate t) \<le> k"
    using counts_blocks [of "reply_state.truncate t" st] assms by simp
  then show ?thesis
    unfolding end_turn_def by (intro leaves_then leaves_if stop_or_go_leaves leaves_continue)
qed

lemma run_turn_leaves:
  fixes env :: "('w, 'r, 's, 'p) reply_env" and st :: "'p reply_state"
  assumes "consecutive_stop_hook_blocks st \<le> k"
  shows "leaves (run_turn env st) env k"
proof -
  have finish: "leaves (end_turn env t) env k" if "counts t = counts st" for t :: "'p turn_state"
    using that assms by (rule end_turn_leaves)
  show ?thesis
    unfolding run_turn_def
    by (intro leaves_then leaves_framed [OF read_stream_framed] leaves_framed [OF refresh_tools_framed]
        leaves_framed [OF without_calls_framed] leaves_framed [OF apply_summaries_framed]
        leaves_framed [OF add_final_output_framed] leaves_framed [OF commit_messages_framed] finish) simp_all
qed

lemma take_turn_leaves:
  assumes "consecutive_stop_hook_blocks st \<le> k"
  shows "leaves (take_turn env st) env k"
proof -
  have "leaves (and_then (say env MAX_TURNS_TEXT) (\<lambda>_. ret (Break, st'))) env k" if "max_turns env < turns_taken st'"
    for st' :: "'a reply_state"
    using that by (auto simp: leaves_def and_then_def say_def show_message_def look_def yield_def ret_def
        ends_well_def turns_used_up_def)
  then show ?thesis
    unfolding take_turn_def Let_def by (intro leaves_if run_turn_leaves) (use assms in auto)
qed

lemma iteration_leaves:
  fixes env :: "('w, 'r, 's, 'p) reply_env" and st :: "'p reply_state"
  shows "leaves (iteration env st) env (consecutive_stop_hook_blocks st)"
proof -
  let ?k = "consecutive_stop_hook_blocks st"
  let ?rest = "and_then (take_steers env st) (\<lambda>st. and_then (lift take_final_output) (\<lambda>out. case out of
         Some (Some text) \<Rightarrow> report_final_output env text st | _ \<Rightarrow> take_turn env st)) :: ('w, 's, flow \<times> 'p reply_state) reply"
  have "leaves ?rest env ?k"
  proof (rule leaves_framed [OF take_steers_framed [OF refl]], rule leaves_then)
    fix st1 :: "'p reply_state" and out :: "str option option"
    assume "counts st1 = counts st"
    then have "consecutive_stop_hook_blocks st1 \<le> ?k" by (simp add: counts_def)
    then show "leaves (case out of Some (Some text) \<Rightarrow> report_final_output env text st1 | _ \<Rightarrow> take_turn env st1) env ?k"
      unfolding report_final_output_def
      by (auto split: option.split intro!: leaves_then stop_or_go_leaves take_turn_leaves)
  qed
  then show ?thesis
    unfolding leaves_def
    by (auto simp: iteration_def and_then_def [of "look _"] look_def ret_def ends_well_def split: if_splits)
qed

lemma reply_loop_leaves:
  "reply_loop n env st s = Some (es, Ok st', s') \<Longrightarrow> ends_well env (consecutive_stop_hook_blocks st) es (Break, st') s'"
proof (induction n arbitrary: st s es)
  case (Suc n)
  obtain es1 q s1 where it: "iteration env st s = (es1, q, s1)" by (metis prod_cases3)
  with Suc.prems obtain f st1 where q: "q = Ok (f, st1)" by (cases q) auto
  have w: "ends_well env (consecutive_stop_hook_blocks st) es1 (f, st1) s1"
    using iteration_leaves [of env st] it q by (simp add: leaves_def)
  show ?case
  proof (cases f)
    case Break
    with Suc.prems it q w show ?thesis by simp
  next
    case Continue
    with Suc.prems it q obtain es2 where r: "reply_loop n env st1 s1 = Some (es2, Ok st', s')" "es = es1 @ es2"
      by auto
    from w Continue have "consecutive_stop_hook_blocks st1 \<le> consecutive_stop_hook_blocks st + denials_shown es1"
      by (simp add: ends_well_def)
    with Suc.IH [OF r(1)] show ?thesis unfolding r(2) by (intro ends_well_shift)
  qed
qed simp

text \<open>
  C20. There is no silent way out: a reply that ends without an error was cancelled, or has used up its
  turns and says so last, or the stop hook was run and allowed the end as the last thing done, or it was run
  and denied the end although the user was shown as many denials as may be given in this reply before, and
  the warning that it is overruled was stored and shown last.
\<close>

theorem reply_loop_way_out:
  assumes "reply_loop n env (initial_state conv ps) s = Some (es, Ok st', s')"
  shows "token_cancelled (turn_io env) s'
    \<or> max_turns env < turns_taken st' \<and> es \<noteq> [] \<and> last es = MessageEvent (said env MAX_TURNS_TEXT s')
    \<or> (\<exists>t. stop_hook_says env t (s', HookAllow))
    \<or> (\<exists>t t' why plugin m. stop_hook_says env t (t', HookDeny why plugin)
        \<and> m = notice env InlineMessage (stop_hook_block_cap_warning plugin (stop_hook_block_cap env)) None t'
        \<and> add_message env m t' = (s', Ok ()) \<and> es \<noteq> [] \<and> last es = MessageEvent m
        \<and> stop_hook_block_cap env \<le> denials_shown es)"
proof -
  have "consecutive_stop_hook_blocks (initial_state conv ps) = 0" by (simp add: initial_state_def)
  with reply_loop_leaves [OF assms] show ?thesis
    unfolding ends_well_def turns_used_up_def stop_allowed_def stop_overruled_def by simp
qed

section \<open>Ends of a turn\<close>

text \<open>A cancelled provider call does not stand out at the end of the turn: nudges and retries go on.\<close>

lemma cancelled_turn_concluded:
  "is_cancelled_error e \<Longrightarrow>
   and_then (read_stream env [(\<lambda>s. s, Err e)] t) (without_calls env) = without_calls env t"
  by (auto simp: and_then_def change_def look_def ret_def handle_provider_error_def fun_eq_iff
      split: prod.splits sum.splits)

text \<open>A refused or a stalled turn gets no nudge and no retry.\<close>

lemma refused_turn_not_resent:
  assumes "is_deadline e \<and> \<not> is_cancelled_error e \<or> (\<exists>d c. e = Refusal d c)"
  shows "and_then (handle_provider_error env e t) (without_calls env) = handle_provider_error env e t"
proof -
  have "\<not> is_cancelled_error (Refusal d c)" "\<not> is_deadline (Refusal d c)" for d c
    by (simp_all add: is_cancelled_error_def is_deadline_def marked_with_def)
  with assms show ?thesis
    by (auto simp: handle_provider_error_def and_then_assoc without_calls_def)
qed

text \<open>Where there is a final output tool the success checks of the task are never run.\<close>

lemma final_output_skips_checks:
  assumes "final_output_tool s = Some out"
  shows "without_calls (env\<lparr>shell_io := sh\<rparr>) t s = without_calls env t s"
proof -
  have "asked (env\<lparr>shell_io := sh\<rparr>) = asked env" by (simp add: asked_def fun_eq_iff)
  with assms show ?thesis
    by (cases out) (simp_all add: without_calls_def and_then_def lift_def take_final_output_def ret_def)
qed

text \<open>The message that the attempts are used up is neither stored nor shown.\<close>

lemma exceeded_message_unseen:
  "retry_task env (conversation t) (s\<lparr>goal := None, grind := None\<rparr>) = (s', conv, Ok MaxAttemptsReached) \<Longrightarrow>
   conclude env t s = ([], Ok (t\<lparr>conversation := conv, exit_chat := True\<rparr>), s')"
  by (simp add: conclude_def and_then_def change_def lift_def ret_def Let_def)

section \<open>Replies\<close>

text \<open>A provider that sends the given items in every turn.\<close>

definition talking_env :: "(unit, unit) stream_item list \<Rightarrow> nat \<Rightarrow> (unit, unit, unit, unit) reply_env" where
  "talking_env items n = \<lparr>turn_io = agreeing_env (\<lambda>_. None), compact_io = answering_env\<lparr>tool_pair_on := (\<lambda>_. False)\<rparr>,
     shell_io = \<lparr>shell = (\<lambda>_ _ w. (w, Err [])), retry_param = None, failure_param = None, clock = (\<lambda>_. 0), nfc = id,
       show_seconds = show_nat\<rparr>,
     numbers = \<lparr>parse_f64 = (\<lambda>_. None), show_f64 = (\<lambda>_. []), lowercase = id\<rparr>, normal = id,
     show_provider_error = telemetry_type, show_compact_error = (\<lambda>_. []), summary_prompt = [],
     add_message = (\<lambda>_ s. (s, Ok ())), replace_conversation = (\<lambda>_ s. (s, Ok ())), hide_message = (\<lambda>_ s. (s, Ok ())),
     update_session_metrics = (\<lambda>_ _ s. (s, Ok ())), provider = (\<lambda>s. (s, Ok ())), inject_moim = (\<lambda>c _ _ s. (s, c)),
     stream_response = (\<lambda>_ _ s. (s, Ok items)), prepare_tools_and_prompt = (\<lambda>s. (s, Ok ([], ()))),
     load_subdirectory_hints = (\<lambda>s. (s, False)), task_aborted = (\<lambda>_. True), mode = Auto, max_turns = n,
     stop_hook_block_cap = DEFAULT_STOP_HOOK_BLOCK_CAP, served_by = None, retry_config = None, initial_messages = [],
     tool_call_cut_off = 10, pre_turn_tool_count = 0\<rparr>"

definition idle_agent :: "str option option \<Rightarrow> str option \<Rightarrow> unit agent_state" where
  "idle_agent out g = \<lparr>pending_steers = (\<lambda>_. None), final_output_tool = out, goal = None, grind = g,
     retry_attempts = 0, outside = ()\<rparr>"

theorem reply_loop_ends_witness:
  "\<exists>r. reply_loop 19 (talking_env [] 2) (initial_state [] ([], ())) (idle_agent None (Some [])) = Some r"
  using reply_loop_ends [of "talking_env [] 2" 19 "[]" "([], ())" "idle_agent None (Some [])"]
  by (auto simp: talking_env_def U32_def DEFAULT_STOP_HOOK_BLOCK_CAP_def)

lemma final_output_reply:
  "\<exists>es st' s'. reply_loop 1 (talking_env [] 2) (initial_state [] ([], ())) (idle_agent (Some (Some (lit ''done''))) None)
     = Some (es, Ok st', s') \<and> \<not> token_cancelled (turn_io (talking_env [] 2)) s' \<and> turns_taken st' = 0"
  by (simp add: iteration_def and_then_def look_def lift_def ret_def attempt_def yield_def talking_env_def agreeing_env_def
      token_cancelled_def take_steers_def initial_state_def take_final_output_def idle_agent_def
      report_final_output_def store_def stop_or_go_def ask_stop_hook_def loop_hooks_def one_tool_def
      emit_blocking_def silent_hooks_def)

theorem reply_loop_way_out_witness:
  "\<exists>es st' s'. reply_loop 1 (talking_env [] 2) (initial_state [] ([], ())) (idle_agent (Some (Some (lit ''done''))) None)
     = Some (es, Ok st', s') \<and> (\<exists>t d. stop_hook_says (talking_env [] 2) t (s', HookAllow)
       \<or> stop_hook_says (talking_env [] 2) t d \<and> 8 \<le> denials_shown es)"
proof -
  obtain es st' s' where r: "reply_loop 1 (talking_env [] 2) (initial_state [] ([], ()))
      (idle_agent (Some (Some (lit ''done''))) None) = Some (es, Ok st', s')"
    and "\<not> token_cancelled (turn_io (talking_env [] 2)) s'" "turns_taken st' = 0"
    using final_output_reply by blast
  moreover have "stop_hook_block_cap (talking_env [] 2) = 8"
    by (simp add: talking_env_def DEFAULT_STOP_HOOK_BLOCK_CAP_def)
  ultimately show ?thesis using reply_loop_way_out [OF r] by auto
qed

text \<open>
  With a grind goal a provider that has run out of credits is asked again in every turn that is left,
  without a pause.
\<close>

definition spent_env :: "nat \<Rightarrow> (unit, unit, unit, unit) reply_env" where
  "spent_env n = talking_env [(\<lambda>s. s, Err (ProviderRetry.CreditsExhausted [] None))] n"

definition grinding :: "unit agent_state" where
  "grinding = idle_agent None (Some (lit ''g''))"

lemma asked_alone: "push_message (with_visibility u a (asked env x s)) [] = [with_visibility u a (asked env x s)]"
  by (simp add: push_message_def with_visibility_def asked_def with_text_def with_content_def message_user_def
      message_new_def default_metadata_def)

lemma grinding_iteration:
  assumes "\<not> retrying_after_stop_hook_denial st" "increment (turns_taken st) \<le> n"
  shows "\<exists>es st'. iteration (spent_env n) st grinding = (es, Ok (Continue, st'), grinding)
    \<and> \<not> retrying_after_stop_hook_denial st' \<and> turns_taken st' = increment (turns_taken st)"
  using assms
  by (simp add: iteration_def and_then_def look_def lift_def ret_def attempt_def yield_def change_def
      spent_env_def talking_env_def agreeing_env_def grinding_def idle_agent_def
      token_cancelled_def take_steers_def drain_pending_steers_def discard_pending_steers_def take_final_output_def
      take_turn_def run_turn_def start_summaries_def maybe_summarize_tool_pairs_def answering_env_def
      handle_provider_error_def is_cancelled_error_def is_deadline_def marked_with_def show_message_def
      refresh_tools_def without_calls_def begin_turn_def reply_state.defs nudge_or_conclude_def has_pending_steers_def
      add_nudge_def notify_def apply_summaries_def add_final_output_def commit_messages_def finished_messages_def
      store_each_def store_def end_turn_def asked_alone Let_def)

lemma spent_provider_asked_every_turn:
  assumes "n < U32 - 1"
  shows "\<exists>es st' s'. reply_loop (Suc n) (spent_env n) (initial_state [] ([], ())) grinding = Some (es, Ok st', s')
    \<and> turns_taken st' = n + 1"
proof -
  have "\<exists>es st' s'. reply_loop (Suc k) (spent_env n) st grinding = Some (es, Ok st', s') \<and> turns_taken st' = n + 1"
    if "\<not> retrying_after_stop_hook_denial st" "turns_taken st + k = n" for k and st :: "unit reply_state"
    using that
  proof (induction k arbitrary: st)
    case 0
    then have "increment (turns_taken st) = n + 1" using assms by (simp add: increment_def U32_def)
    with 0 show ?case
      by (simp add: iteration_def and_then_def look_def lift_def ret_def yield_def spent_env_def talking_env_def
          agreeing_env_def grinding_def idle_agent_def token_cancelled_def take_steers_def drain_pending_steers_def
          discard_pending_steers_def take_final_output_def take_turn_def say_def show_message_def Let_def)
  next
    case (Suc k)
    then have t: "increment (turns_taken st) = turns_taken st + 1" using assms by (simp add: increment_def U32_def)
    with Suc.prems grinding_iteration [of st n] obtain es st' where
      it: "iteration (spent_env n) st grinding = (es, Ok (Continue, st'), grinding)"
      and st': "\<not> retrying_after_stop_hook_denial st'" "turns_taken st' = turns_taken st + 1" by auto
    then obtain es2 st2 s2 where "reply_loop (Suc k) (spent_env n) st' grinding = Some (es2, Ok st2, s2)"
      "turns_taken st2 = n + 1"
      using Suc.IH [of st'] Suc.prems by auto
    with it show ?case by (subst reply_loop.simps) (simp del: reply_loop.simps)
  qed
  from this [of "initial_state [] ([], ())" n] show ?thesis by (simp add: initial_state_def)
qed

end
