(* ===== verification/Spec2Isabelle.thy ===== *)
theory Spec2Isabelle
  imports PatchRefinement ConversationLaws ExecPolicy ToolRetry PermissionInspector
    PermissionStore ConfirmationRouter EventBus ThinkFilter StreamingBuffer DeveloperTools
    EgressInspector Residency SecurityScanner AdversaryInspector ResponseStream Telegram TokenCount ReplyLoop
begin

text \<open>
  BharatCode is a coding agent in Rust: a model provider proposes messages and tool calls, the agent
  screens the calls, asks the user where it must, runs them, and keeps the conversation in a shape
  the providers accept. This development models the parts of it that decide: how a patch the model
  writes is parsed and applied, how the conversation is appended to and repaired, which tool calls
  and commands may run, how failed calls are retried, what the developer tools do around a call, what may
  leave the machine, how streams are split and shown, how a conversation is compacted, how the agent's
  loop runs its turns and calls, and how confirmations and events reach the tasks and clients that wait for them. All paths below are under \<open>src/crates/\<close>.

  \<^bold>\<open>Conventions.\<close> A string is a list of Unicode scalar values (\<open>uchar\<close>, \<open>str\<close>); \<open>lit\<close> turns a literal
  into one. \<open>Result\<close> is a sum with \<open>Ok\<close> and \<open>Err\<close>. A Rust \<open>struct\<close> is a record, an \<open>enum\<close> a datatype
  with the source's constructors. A \<open>HashMap\<close> is a map to options, or an association list where the
  order of insertion or duplicates can be observed; a \<open>HashSet\<close> a set. A panic is a value
  (\<open>Panicked\<close>, \<open>ApplyPanic\<close>, \<open>None\<close>). What is not under \<open>src/\<close> is a parameter: \<open>std::fs\<close>, the clock, the
  JSON, YAML and base64 crates, Unicode normalisation, hashing, the model provider. Logging is left out.

  \<^bold>\<open>Patches\<close> (\<open>bharatcode-apply-patch/src\<close>).
  \<^item> \<open>PatchParser\<close>: \<open>parser.rs\<close> and \<open>streaming_parser.rs\<close>. The parser state is the record
    \<open>streaming_patch_parser\<close>; \<open>process_line\<close> has one definition per mode, \<open>push_delta\<close> folds \<open>push_char\<close>
    over a delta, \<open>finish_parser\<close> handles the last line; \<open>parse_patch\<close> is the entry with the boundary
    checks and the heredoc leniency.
  \<^item> \<open>PatchParserLaws\<close>: streaming in pieces equals reading the whole text by lines; the invariant of the parser and
    the completeness of parsed hunks. \<open>PatchRoundtrip\<close>: a printer of the format, and parsing what it prints.
  \<^item> \<open>PatchSeek\<close>: \<open>seek_sequence.rs\<close>, its passes from exact to normalised, and what it finds.
  \<^item> \<open>PatchApply\<close>: \<open>compute_replacements\<close>, \<open>apply_replacements\<close> and \<open>derive_new_contents\<close> of \<open>apply.rs\<close>; no
    panic, and equality with a one-pass replacement of disjoint regions.
  \<^item> \<open>PatchDisk\<close>: \<open>apply_hunks_to_disk\<close> over a record of file operations; the locale \<open>disk_laws\<close> states what
    is relied on, an in-memory file system satisfies it. \<open>PatchRefinement\<close>: an abstract specification on
    maps from files to texts, and the simulation between the two.

  \<^bold>\<open>Conversations\<close> (\<open>bharatcode-providers/src\<close>).
  \<^item> \<open>Message\<close>: \<open>conversation/message.rs\<close>, \<open>mcp_utils.rs\<close>, \<open>utils.rs\<close>. Contents, metadata, builders, audience
    filter, sanitising.
  \<^item> \<open>Conversation\<close>: \<open>conversation.rs\<close>. Appending with the merging of streamed deltas, the eight repair
    passes of \<open>fix_messages\<close> as functions from messages to messages and issues, \<open>fix_conversation\<close>.
  \<^item> \<open>ConversationLaws\<close>: locales for a pass that keeps quiet when it changes nothing, one that keeps the
    user's texts, and one that never grows the log, each interpreted on the passes; role discipline,
    shape, pairing of tool calls and responses.

  \<^bold>\<open>Permissions\<close> (\<open>bharatcode-core/src\<close>).
  \<^item> \<open>ExecPolicy\<close>: \<open>exec_policy.rs\<close>, the screen for shell commands. \<open>ToolRetry\<close>: \<open>tool_retry.rs\<close>.
  \<^item> \<open>Permissions\<close>: \<open>config/permission.rs\<close>, \<open>permission/approval_mode.rs\<close>, \<open>goose_mode.rs\<close>; the locale
    \<open>permission_table\<close> holds what a lookup returns after updates and is interpreted on both tables; runs of changes
    are followed over a restart.
  \<^item> \<open>ToolInspection\<close>: \<open>tool_inspection.rs\<close>, \<open>tool_monitor.rs\<close>. \<open>PermissionInspector\<close>:
    \<open>permission/permission_inspector.rs\<close> and \<open>permission_judge.rs\<close>; the grounds on which a call runs.
  \<^item> \<open>PermissionStore\<close>: \<open>permission/permission_store.rs\<close>. \<open>ConfirmationRouter\<close>:
    \<open>agents/tool_confirmation_router.rs\<close>, a step relation over one-shot channels.

  \<^bold>\<open>Developer tools\<close> (\<open>bharatcode-core/src/agents/platform_extensions/developer\<close>).
  \<^item> \<open>EditTool\<close>: \<open>edit.rs\<close> and \<open>apply_patch.rs\<close> over the file operations of \<open>PatchDisk\<close>. The replacement never
    reads out of range and changes the one place of one file where the text stands, overlaps with it aside. \<open>ResultCache\<close>: \<open>result_cache.rs\<close>; the locale
    \<open>lru_laws\<close> states what is relied on of the \<open>lru\<close> crate, an association list satisfies it.
  \<^item> \<open>ShellHarden\<close>: \<open>security/shell_harden.rs\<close>. \<open>Redact\<close>: \<open>redact.rs\<close>. \<open>DeveloperTools\<close>: \<open>call_tool\<close> of \<open>mod.rs\<close>
    with all of these around the tools, and where a cached result can come from: \<open>reads_only\<close> and \<open>may_have_written\<close>
    say by the text and the outcome of a call what reads and what writes.
  \<^item> \<open>RegexEngine\<close>: what the code uses of the \<open>regex\<close> crate as a record of two functions, an argument of all
    definitions that match; a backtracking matcher in it serves the examples.

  \<^bold>\<open>Egress\<close> (\<open>bharatcode-core/src\<close>). \<open>Residency\<close>: \<open>offline.rs\<close> and \<open>residency.rs\<close>, the hosts that may be
  reached. \<open>EgressInspector\<close>: \<open>security/egress_inspector.rs\<close>, one of the inspectors of \<open>ToolInspection\<close>; what counts as
  an upload to a URL is stated apart from the detection of the code.

  \<^bold>\<open>Security\<close> (\<open>bharatcode-core/src/security\<close>).
  \<^item> \<open>SecurityPatterns\<close>: \<open>patterns.rs\<close>, the threat patterns over the matcher of \<open>RegexEngine\<close> and their order.
    \<open>SecurityScanner\<close>: \<open>scanner.rs\<close>, \<open>mod.rs\<close> and \<open>security_inspector.rs\<close>, how pattern and classifiers are
    combined into a confidence and what a call above the threshold meets.
  \<^item> \<open>AdversaryInspector\<close>: \<open>adversary_inspector.rs\<close>, the review of calls by a second model and the reading of
    its answer.

  \<^bold>\<open>Streams.\<close> \<open>ThinkFilter\<close>: \<open>bharatcode-providers/src/thinking.rs\<close>, reasoning apart from the answer, chunk by
  chunk. \<open>StreamingBuffer\<close>: \<open>bharatcode-cli/src/session/streaming_buffer.rs\<close>, how much of a Markdown stream can
  be shown. Both are compared with the same work on the whole text.

  \<^bold>\<open>Providers and context.\<close>
  \<^item> \<open>ProviderRetry\<close>: \<open>retry.rs\<close> and the errors of \<open>errors.rs\<close> in \<open>bharatcode-providers/src\<close>. \<open>TokenUsage\<close>:
    \<open>conversation/token_usage.rs\<close> there, with 32-bit words.
  \<^item> \<open>ContextSelect\<close>: \<open>context_mgmt/diff_compact.rs\<close>, \<open>docgen.rs\<close> and \<open>context_optimizer.rs\<close>. \<open>Compaction\<close>:
    \<open>context_mgmt/mod.rs\<close> of \<open>bharatcode-core/src\<close>: the attempts to summarise, and the conversation afterwards.
  \<^item> \<open>TokenCount\<close>: \<open>token_counter.rs\<close>, the memos of \<open>context_mgmt/token_cache.rs\<close> and \<open>token_cache_disk.rs\<close>, and
    \<open>providers/usage_estimator.rs\<close>. The locale \<open>counter\<close> extends \<open>lru_laws\<close>; the counts through the memo and the cache of
    texts are those of a reference without any, as long as the digests tell the counted texts and messages apart. The
    store on the disk, off by default, is not part of that: its key does not determine the count.

  \<^bold>\<open>Turns with a provider\<close> (\<open>bharatcode-core/src\<close>).
  \<^item> \<open>StreamGuard\<close>: \<open>providers/deadline.rs\<close>, every wait for a provider raced against the cancellation of the turn
    and a budget of silence, and \<open>providers/fallback.rs\<close> with \<open>stream_with_fallback\<close>. Time is a number, and a
    future the time it takes and its result, or nothing when it never completes.
  \<^item> \<open>Toolshim\<close>: \<open>providers/toolshim.rs\<close>, calls found in the text of models without tools, and what is removed
    from the answer. \<open>ResponseStream\<close>: \<open>stream_response_from_provider\<close> of \<open>agents/reply_parts.rs\<close> with the cache of
    \<open>prompt_cache.rs\<close> and the progress lines of \<open>stream_announcer.rs\<close>; a cached answer shows the text that was
    streamed.

  \<^bold>\<open>Provider formats\<close> (\<open>bharatcode-providers/src\<close>).
  \<^item> \<open>OpenAiRequest\<close>: the requests of \<open>formats/openai.rs\<close>, from messages and tools to JSON, the merging of split
    messages, schemas, and the members a user's parameters cannot replace. \<open>OpenAiResponse\<close>: the responses and
    the stream of events, with the calls put together from their pieces.
  \<^item> \<open>JsonRepair\<close>: \<open>json.rs\<close>. \<open>Images\<close>: \<open>images.rs\<close>. \<open>ModelConfig\<close>: \<open>model.rs\<close> and \<open>canonical/model.rs\<close>.
    \<open>CanonicalNames\<close>: \<open>canonical/name_builder.rs\<close> and \<open>registry.rs\<close>, with the registry as an argument.

  \<^bold>\<open>Chat gateway\<close> (\<open>bharatcode-core/src/gateway\<close>). \<open>GatewayPairing\<close>: \<open>pairing.rs\<close>, the store of users and codes.
  \<open>GatewayHandler\<close>: \<open>handler.rs\<close>, what a message does; \<open>within\<close> bounds what each step may change.
  \<open>GatewayManager\<close>: \<open>manager.rs\<close>, the running gateways, with the check of a start and its insertion as steps
  of their own. \<open>Telegram\<close>: \<open>telegram.rs\<close> and \<open>telegram_format.rs\<close>, updates taken in, Markdown as HTML whose tags
  are balanced, and long texts cut into messages that together cover them.

  \<^bold>\<open>Events\<close> (\<open>bharatcode-server/src\<close>). \<open>EventBus\<close>: \<open>session_event_bus.rs\<close> and the task of a client in
  \<open>routes/session_events.rs\<close>. A publisher's two critical sections, a subscriber's two and each event the task
  forwards are separate steps of a relation, so the properties hold in every interleaving; a receiver that has more
  unread events than the channel keeps is told so by \<open>recv\<close>, and its stream ends. The registry of active requests is
  a separate state.

  \<^bold>\<open>Agent loop\<close> (\<open>bharatcode-core/src\<close>).
  \<^item> \<open>Effects\<close>: computations that emit events, fail and change a state, as the \<open>try_stream!\<close> blocks of the
    source, with rules for what a computation returns.
  \<^item> \<open>Hooks\<close>: \<open>hooks/mod.rs\<close>, the loading of plugin hooks and the decision of a blocking event.
    \<open>ToolCategorize\<close>: the coercion of arguments and the sorting of the calls of a response in
    \<open>agents/reply_parts.rs\<close>.
  \<^item> \<open>ToolDispatch\<close>: \<open>dispatch_tool_call\<close> and the run of the calls of a turn in \<open>agents/agent.rs\<close>,
    \<open>agents/tool_execution.rs\<close> and \<open>agents/large_response_handler.rs\<close>. The streams of the calls are read in the
    order of a schedule, a list of choices that is arbitrary; what a tool does happens when its stream
    finishes or where the schedule lets the world go on.
  \<^item> \<open>TaskRetry\<close>: \<open>agents/retry.rs\<close>. \<open>ReplyLoop\<close>: the loop of \<open>reply_internal\<close>, with one definition for each
    stage of a turn. A provider's stream is the list of its items, each with what happens before it arrives;
    summaries of tool calls run beside a turn and are modelled where they are joined.

  \<^bold>\<open>How they meet.\<close> The turn of \<open>ReplyLoop\<close> sorts the calls of a response with \<open>ToolCategorize\<close>, lets the
  inspectors of \<open>ToolInspection\<close> decide, runs the calls with \<open>ToolDispatch\<close> inside \<open>ToolRetry\<close> and compacts with
  \<open>Compaction\<close>. \<open>Conversation\<close> works on the \<open>Message\<close> type; \<open>ToolInspection\<close> and \<open>PermissionInspector\<close>
  decide about its tool requests with the tables of \<open>Permissions\<close>; what needs approval waits in the
  \<open>ConfirmationRouter\<close>. \<open>Prelude\<close> has the strings, the standard library functions on them, and the locale
  \<open>fed_machine\<close> of a machine fed character by character.

  \<^bold>\<open>Fuel and bounds.\<close> The reply loop takes the number of its iterations as fuel: the turns allowed, twice the
  stops that may be denied and one more are enough, and more fuel changes nothing (\<open>reply_loop_ends\<close>). Of the other
  definitions only the matcher of \<open>RegexEngine\<close> uses fuel, as many steps as the text and the pattern allow. The loops that are not structural have a measure: the attempts left (at
  most eight for a tool, ten and one refresh for a provider under the environment), the text left in a
  buffer. Capacities and limits (256 and 512 events, 600 characters of arguments, 30 seconds, 128 cached
  results, five attempts to summarise) are those of the source. Widths are written out where they matter:
  \<open>parse_unsigned\<close> fails above the given maximum, the shift and the multiplication of the backoff saturate, the
  expiry of a permission wraps at 64 bits, token counts are 32-bit words, the counters of
  turns and denials wrap at 32 bits. Floating-point numbers are rational
  numbers with an unspecified rounding.

  \<^bold>\<open>Not modelled.\<close> The wire formats other than that of OpenAI, the preparation of tools and prompt, the naming
  of sessions, session storage, the MCP servers, the scheduler and recipes, the command line, the server routes
  but for the stream of events, and the desktop interface: they are input and output around external programs, services and a database.
\<close>

end
